(* ===== verification/Prelude.thy ===== *)
theory Prelude
  imports Main "HOL-Library.Word"
begin

text \<open>
  Shared vocabulary of the development: machine integers, results of code that may
  abort, the rules that carry an assertion through such code, and the lemmas on
  bytes and single-bit masks that the components use.

  A C function that may stop the process is a function into \<open>'e + 'a\<close>, with
  \<open>Inl\<close> for the abort. \<open>bind_res\<close> sequences two of them and \<open>holds P r\<close> says
  that \<open>P\<close> holds of the result when the code did not abort. The rules of
  \<open>holds\<close> are collected in \<open>vcg\<close>, so that an assertion is carried through an
  operation by \<open>intro vcg\<close>.
\<close>

unbundle bit_operations_syntax

section \<open>Machine integers\<close>

type_synonym u8 = "8 word"
type_synonym u16 = "16 word"
type_synonym u32 = "32 word"
type_synonym u64 = "64 word"

section \<open>Code that may abort\<close>

definition bind_res :: "'e + 'a \<Rightarrow> ('a \<Rightarrow> 'e + 'b) \<Rightarrow> 'e + 'b" where
  "bind_res r k = (case r of Inl e \<Rightarrow> Inl e | Inr x \<Rightarrow> k x)"

definition holds :: "('a \<Rightarrow> bool) \<Rightarrow> 'e + 'a \<Rightarrow> bool" where
  "holds P r = (case r of Inl e \<Rightarrow> True | Inr x \<Rightarrow> P x)"

definition returns :: "'e + 'a \<Rightarrow> bool" where
  "returns r = (case r of Inl e \<Rightarrow> False | Inr x \<Rightarrow> True)"

named_theorems vcg \<open>rules that carry an assertion through code that may abort\<close>

lemma bind_res_simps [simp]:
  "bind_res (Inl e) k = Inl e"
  "bind_res (Inr x) k = k x"
  by (simp_all add: bind_res_def)

lemma bind_res_assoc: "bind_res (bind_res r f) g = bind_res r (\<lambda>x. bind_res (f x) g)"
  by (cases r) simp_all

lemma bind_res_eq_Inr:
  "bind_res r k = Inr y \<longleftrightarrow> (\<exists>x. r = Inr x \<and> k x = Inr y)"
  by (cases r) simp_all

lemma bind_res_cong [fundef_cong]:
  "r = r' \<Longrightarrow> (\<And>x. r' = Inr x \<Longrightarrow> k x = k' x) \<Longrightarrow> bind_res r k = bind_res r' k'"
  by (cases r') auto

lemma holds_simps [simp]:
  "holds P (Inl e)"
  "holds P (Inr x) = P x"
  by (simp_all add: holds_def)

lemma returns_simps [simp]:
  "\<not> returns (Inl e)"
  "returns (Inr x)"
  by (simp_all add: returns_def)

lemma returnsE: "returns r \<Longrightarrow> (\<And>x. r = Inr x \<Longrightarrow> Q) \<Longrightarrow> Q"
  by (cases r) auto

lemma holds_Inr [vcg]: "P x \<Longrightarrow> holds P (Inr x)"
  by simp

lemma holds_Inl [vcg]: "holds P (Inl e)"
  by simp

lemma holds_bind: "holds (\<lambda>x. holds P (k x)) r \<Longrightarrow> holds P (bind_res r k)"
  by (cases r) simp_all

lemma holds_if [vcg]:
  "(b \<Longrightarrow> holds P r) \<Longrightarrow> (\<not> b \<Longrightarrow> holds P s) \<Longrightarrow> holds P (if b then r else s)"
  by simp

lemma holds_mono: "holds P r \<Longrightarrow> (\<And>x. P x \<Longrightarrow> Q x) \<Longrightarrow> holds Q r"
  by (cases r) simp_all

lemma holdsD: "holds P r \<Longrightarrow> r = Inr x \<Longrightarrow> P x"
  by simp

lemma holdsI: "(\<And>x. r = Inr x \<Longrightarrow> P x) \<Longrightarrow> holds P r"
  by (cases r) simp_all

section \<open>Bytes of a word, little endian\<close>

definition le32 :: "u8 \<Rightarrow> u8 \<Rightarrow> u8 \<Rightarrow> u8 \<Rightarrow> u32" where
  "le32 b0 b1 b2 b3 =
     ucast b0 OR push_bit 8 (ucast b1) OR push_bit 16 (ucast b2) OR push_bit 24 (ucast b3)"

definition byte_of :: "nat \<Rightarrow> 'a::len word \<Rightarrow> u8" where
  "byte_of i v = ucast (drop_bit (8 * i) v AND 0xFF)"

definition lo32 :: "u64 \<Rightarrow> u32" where
  "lo32 v = ucast (v AND 0xFFFFFFFF)"

definition hi32 :: "u64 \<Rightarrow> u32" where
  "hi32 v = ucast (drop_bit 32 v)"

definition join64 :: "u32 \<Rightarrow> u32 \<Rightarrow> u64" where
  "join64 lo hi = ucast lo OR push_bit 32 (ucast hi)"

lemma ff_mask: "(0xFF :: 'a::len word) = mask 8"
  by (simp add: mask_eq_exp_minus_1)

lemma ffffffff_mask: "(0xFFFFFFFF :: 'a::len word) = mask 32"
  by (simp add: mask_eq_exp_minus_1)

lemma ucast_and_ff [simp]: "ucast (x AND 0xFF :: 'a::len word) = (ucast x :: u8)"
  unfolding ff_mask by (rule bit_word_eqI) (auto simp: bit_simps dest: bit_imp_le_length)

lemma lo32_ucast: "lo32 v = ucast v"
  unfolding lo32_def ffffffff_mask by (rule bit_word_eqI) (auto simp: bit_simps)

lemma le32_byte_of [simp]:
  "le32 (byte_of 0 v) (byte_of 1 v) (byte_of 2 v) (byte_of 3 v) = v"
  unfolding le32_def byte_of_def ucast_and_ff
proof (rule bit_word_eqI, goal_cases)
  case (1 n)
  then consider "n < 8" | "8 \<le> n" "n < 16" | "16 \<le> n" "n < 24" | "24 \<le> n" "n < 32"
    by force
  then show ?case by cases (auto simp: bit_simps)
qed

lemmas le32_byte_of' [simp] = le32_byte_of [unfolded One_nat_def]

lemma byte_of_le32 [simp]:
  "byte_of 0 (le32 a b c d) = a"
  "byte_of (Suc 0) (le32 a b c d) = b"
  "byte_of 2 (le32 a b c d) = c"
  "byte_of 3 (le32 a b c d) = d"
  unfolding le32_def byte_of_def ucast_and_ff
  by (rule bit_word_eqI, auto simp: bit_simps dest: bit_imp_le_length)+

lemma lo32_join64 [simp]: "lo32 (join64 lo hi) = lo"
  unfolding lo32_ucast join64_def by (rule bit_word_eqI) (auto simp: bit_simps)

lemma hi32_join64 [simp]: "hi32 (join64 lo hi) = hi"
  unfolding hi32_def join64_def
  by (rule bit_word_eqI) (auto simp: bit_simps dest: bit_imp_le_length)

lemma join64_lo_hi [simp]: "join64 (lo32 v) (hi32 v) = v"
  unfolding lo32_ucast hi32_def join64_def
  by (rule bit_word_eqI) (auto simp: bit_simps)

lemma ucast_join64 [simp]: "ucast (join64 lo hi) = lo"
  using lo32_join64 [of lo hi] by (simp only: lo32_ucast)

lemma byte_of_lo32 [simp]: "i < 4 \<Longrightarrow> byte_of i (lo32 v) = byte_of i v"
  unfolding lo32_ucast byte_of_def ucast_and_ff
  by (rule bit_word_eqI) (auto simp: bit_simps)

lemma byte_of_hi32 [simp]: "i < 4 \<Longrightarrow> byte_of i (hi32 v) = byte_of (4 + i) v"
  unfolding hi32_def byte_of_def ucast_and_ff
  by (rule bit_word_eqI) (auto simp: bit_simps algebra_simps)

lemma lo32_ucast32 [simp]: "lo32 (ucast (x :: u32)) = x"
  unfolding lo32_ucast by (rule bit_word_eqI) (auto simp: bit_simps)

lemma ucast_u32_u64 [simp]: "(ucast (ucast (x :: u32) :: u64) :: u32) = x"
  by (rule bit_word_eqI) (auto simp: bit_simps)

lemma ucast_u8_u32 [simp]: "(ucast (ucast (x :: u8) :: u32) :: u8) = x"
  by (rule bit_word_eqI) (auto simp: bit_simps)

section \<open>Single-bit masks\<close>

lemma and_mask_eq_0 [simp]:
  "(x AND 1 = (0 :: u32)) \<longleftrightarrow> \<not> bit x 0"
  "(x AND 2 = (0 :: u32)) \<longleftrightarrow> \<not> bit x 1"
  "(x AND 8 = (0 :: u32)) \<longleftrightarrow> \<not> bit x 3"
  "(x AND 16 = (0 :: u32)) \<longleftrightarrow> \<not> bit x 4"
  "(x AND 32 = (0 :: u32)) \<longleftrightarrow> \<not> bit x 5"
  using and_exp_eq_0_iff_not_bit [of x 0] and_exp_eq_0_iff_not_bit [of x 1]
    and_exp_eq_0_iff_not_bit [of x 3] and_exp_eq_0_iff_not_bit [of x 4]
    and_exp_eq_0_iff_not_bit [of x 5]
  by simp_all

lemma bit_mask_word [simp]:
  "bit (x AND y :: u32) n \<longleftrightarrow> bit x n \<and> bit y n"
  "bit (x OR y :: u32) n \<longleftrightarrow> bit x n \<or> bit y n"
  by (simp_all add: bit_simps)

lemma bit_not_u32 [simp]: "n < 32 \<Longrightarrow> bit (NOT x :: u32) n \<longleftrightarrow> \<not> bit x n"
  by (simp add: bit_simps)

section \<open>Hexadecimal digits\<close>

definition hex_value :: "nat list \<Rightarrow> nat" where
  "hex_value = foldl (\<lambda>a d. 16 * a + d) 0"

lemma hex_value_digits:
  assumes "n < 4294967296"
  shows "hex_value (List.map (\<lambda>k. n div 2 ^ k mod 16) [28, 24, 20, 16, 12, 8, 4, 0]) = n"
proof -
  have s: "16 * (n div 2 ^ (k + 4)) + n div 2 ^ k mod 16 = n div 2 ^ k" for k
  proof -
    have "n div 2 ^ (k + 4) = n div 2 ^ k div 16" by (simp add: power_add div_mult2_eq)
    then show ?thesis by simp
  qed
  have "n div 2 ^ 28 mod 16 = n div 2 ^ 28" using assms by simp
  then show ?thesis
    using s [of 24] s [of 20] s [of 16] s [of 12] s [of 8] s [of 4] s [of 0] by (simp add: hex_value_def)
qed

end
