(* ===== verification/Divmod.thy ===== *)
theory Divmod
  imports Prelude "HOL-Library.Signed_Division"
begin

text \<open>
  The 64-bit division helpers that the compiler calls in the guest kernel
  (\<open>kernel/src/compiler_rt_divmod.c\<close>). \<open>di_int\<close> values are 64-bit words read by
  \<open>sint\<close>; a signed negation wraps. The first loop of \<open>__udivmoddi4\<close> is a
  \<open>partial_function\<close>, since it would not end for a zero divisor; the second one
  counts \<open>Shift\<close> down.

  The lemmas show that both loops end and that the four entry points compute the
  unsigned and the truncating signed quotient and remainder.
\<close>

section \<open>The helpers\<close>

definition uabsdi :: "u64 \<Rightarrow> u64" where
  "uabsdi v = (if sint v < 0 then 0 - v else v)"

text \<open>\<open>while ((Div >> 63) == 0 && Div <= (A >> 1))\<close>\<close>

partial_function (option) align_loop :: "u64 \<Rightarrow> u64 \<Rightarrow> u32 \<Rightarrow> (u64 \<times> u32) option" where
  "align_loop a d shift =
     (if drop_bit 63 d = 0 \<and> d \<le> drop_bit 1 a then align_loop a (push_bit 1 d) (shift + 1)
      else Some (d, shift))"

text \<open>\<open>for (;;)\<close>: the quotient and what is left of the dividend.\<close>

function quot_loop :: "u64 \<Rightarrow> u64 \<Rightarrow> u64 \<Rightarrow> u32 \<Rightarrow> u64 \<times> u64" where
  "quot_loop a d q shift =
     (let q = push_bit 1 q;
          (a, q) = (if d \<le> a then (a - d, q OR 1) else (a, q)) in
      if shift = 0 then (q, a) else quot_loop a (drop_bit 1 d) q (shift - 1))"
  by pat_completeness auto
termination
  by (relation "measure (\<lambda>(a, d, q, shift). unat shift)") (auto intro: measure_unat)

definition udivmoddi4 :: "u64 \<Rightarrow> u64 \<Rightarrow> (u64 \<times> u64) option" where
  "udivmoddi4 a b =
     (if b = 0 then Some (0, 0)
      else if a < b then Some (0, a)
      else case align_loop a b 0 of None \<Rightarrow> None
           | Some (d, shift) \<Rightarrow> Some (quot_loop a d 0 shift))"

definition udivdi3 :: "u64 \<Rightarrow> u64 \<Rightarrow> u64 option" where
  "udivdi3 a b = map_option fst (udivmoddi4 a b)"

definition umoddi3 :: "u64 \<Rightarrow> u64 \<Rightarrow> u64 option" where
  "umoddi3 a b = map_option snd (udivmoddi4 a b)"

definition divdi3 :: "u64 \<Rightarrow> u64 \<Rightarrow> u64 option" where
  "divdi3 a b =
     (if b = 0 then Some 0
      else
        let neg = ((sint a < 0) \<noteq> (sint b < 0)) in
        map_option (\<lambda>q. if neg then - q else q) (udivdi3 (uabsdi a) (uabsdi b)))"

definition moddi3 :: "u64 \<Rightarrow> u64 \<Rightarrow> u64 option" where
  "moddi3 a b =
     (if b = 0 then Some 0
      else map_option (\<lambda>r. if sint a < 0 then - r else r) (umoddi3 (uabsdi a) (uabsdi b)))"

section \<open>Words as naturals\<close>

lemma unat64_less: "unat (x :: u64) < 2 ^ 64"
  using unsigned_less [of x] by simp

lemma unat_shl1: "2 * unat (x :: u64) < 2 ^ 64 \<Longrightarrow> unat (push_bit 1 x) = 2 * unat x"
  by (simp add: push_bit_eq_mult unat_word_ariths)

lemma unat_shr1: "unat (drop_bit (Suc 0) (x :: u64)) = unat x div 2"
  by (simp add: drop_bit_eq_div unat_div)

lemma top_bit_clear: "drop_bit 63 (x :: u64) = 0 \<longleftrightarrow> unat x < 2 ^ 63"
proof -
  have "unat (drop_bit 63 x) = unat x div 2 ^ 63" by (simp only: drop_bit_eq_div unat_div) simp
  then show ?thesis by (simp add: word_unat_eq_iff div_eq_0_iff)
qed

lemma double_room: "2 * n < 2 ^ 64 \<Longrightarrow> 2 * n + 1 < (2 :: nat) ^ 64"
proof -
  assume "2 * n < 2 ^ 64"
  then have "n < 2 ^ 63" by simp
  then show ?thesis by simp
qed

lemma unat_shl1_or_1:
  assumes "2 * unat (x :: u64) + 1 < 2 ^ 64"
  shows "unat (push_bit 1 x OR 1) = 2 * unat x + 1"
proof -
  have "push_bit 1 x OR 1 = push_bit 1 x + 1"
    by (rule disjunctive_add [symmetric]) (auto simp: bit_push_bit_iff bit_1_iff simp del: push_bit_Suc)
  then show ?thesis using assms unat_shl1 [of x] by (simp add: unat_word_ariths)
qed

section \<open>The loops\<close>

text \<open>The alignment loop ends: with \<open>n\<close> more doublings the divisor would leave the word.\<close>

lemma align_loop_end:
  assumes "0 < unat d" "unat d \<le> unat a" "2 ^ 64 \<le> unat (d :: u64) * 2 ^ n" "unat s + n < 2 ^ 32"
  shows "\<exists>k d' s'. align_loop a d s = Some (d', s') \<and> unat d' = unat d * 2 ^ k \<and> unat s' = unat s + k
           \<and> unat d' \<le> unat a \<and> unat a < 2 * unat d'"
  using assms
proof (induction n arbitrary: d s)
  case 0
  then show ?case using unat64_less [of d] by simp
next
  case (Suc n)
  show ?case
  proof (cases "drop_bit 63 d = 0 \<and> d \<le> drop_bit 1 a")
    case True
    then have "unat d < 2 ^ 63" "unat d \<le> unat a div 2"
      by (simp_all add: top_bit_clear word_le_nat_alt unat_shr1)
    then have d: "2 * unat d < 2 ^ 64" "2 * unat d \<le> unat a" by simp_all
    have d2: "unat (push_bit 1 d) = 2 * unat d" by (rule unat_shl1 [OF d(1)])
    have s1: "unat (s + 1) = unat s + 1" using Suc.prems(4) by (simp add: unat_word_ariths)
    obtain k d' s' where "align_loop a (push_bit 1 d) (s + 1) = Some (d', s')"
      "unat d' = unat (push_bit 1 d) * 2 ^ k" "unat s' = unat (s + 1) + k" "unat d' \<le> unat a" "unat a < 2 * unat d'"
      using Suc.IH [of "push_bit 1 d" "s + 1"] Suc.prems d d2 s1 by auto
    then have "align_loop a d s = Some (d', s') \<and> unat d' = unat d * 2 ^ Suc k \<and> unat s' = unat s + Suc k
      \<and> unat d' \<le> unat a \<and> unat a < 2 * unat d'"
      using True d2 s1 by (subst align_loop.simps) simp
    then show ?thesis by blast
  next
    case False
    then have "unat a < 2 * unat d"
      using unat64_less [of a] by (auto simp: top_bit_clear word_le_nat_alt unat_shr1)
    moreover have "align_loop a d s = Some (d, s)" using False by (subst align_loop.simps) auto
    ultimately have "align_loop a d s = Some (d, s) \<and> unat d = unat d * 2 ^ 0 \<and> unat s = unat s + 0
      \<and> unat d \<le> unat a \<and> unat a < 2 * unat d"
      using Suc.prems(2) by simp
    then show ?thesis by blast
  qed
qed

declare quot_loop.simps [simp del]

lemma quot_loop_turn:
  assumes "a' = (if d \<le> a then a - d else a)" "q' = (if d \<le> a then push_bit 1 q OR 1 else push_bit 1 q)"
  shows "quot_loop a d q s = (if s = 0 then (q', a') else quot_loop a' (drop_bit 1 d) q' (s - 1))"
  using assms by (subst quot_loop.simps) (auto simp: Let_def)

lemma quot_loop_step:
  fixes a d q a' q' :: u64
  assumes "unat a < 2 * unat d" "2 * unat q + 1 < 2 ^ 64"
    "a' = (if d \<le> a then a - d else a)" "q' = (if d \<le> a then push_bit 1 q OR 1 else push_bit 1 q)"
  shows "unat a' < unat d" "unat q' = 2 * unat q + unat a div unat d" "unat a = unat a' + unat d * (unat a div unat d)"
proof -
  have "unat a div unat d = (if d \<le> a then 1 else 0)"
    using assms(1) by (auto simp: word_le_nat_alt not_le div_nat_eqI)
  then show "unat a' < unat d" "unat q' = 2 * unat q + unat a div unat d"
    "unat a = unat a' + unat d * (unat a div unat d)"
    using assms unat_shl1 [of q] unat_shl1_or_1 [of q] by (auto simp: word_le_nat_alt unat_sub not_le)
qed

lemma quot_loop_divides:
  assumes "unat d = b * 2 ^ n" "unat s = n" "unat a < 2 * unat d" "0 < b"
    "unat q * 2 ^ Suc n + unat a div b < 2 ^ 64"
  shows "unat (fst (quot_loop a d q s)) = unat q * 2 ^ Suc n + unat a div b
         \<and> unat (snd (quot_loop a d q s)) = unat a mod b"
  using assms
proof (induction n arbitrary: a d q s)
  case 0
  then have "s = 0" "unat d = b" "2 * unat q < 2 ^ 64" by (simp_all add: unat_eq_0)
  then have s: "s = 0" "unat d = b" "2 * unat q + 1 < 2 ^ 64" using double_room by blast+
  note st = quot_loop_step [OF 0(3) s(3) refl refl]
  have "unat (if d \<le> a then a - d else a) = unat a mod b" using st(1,3) s(2) by (metis mod_less mod_mult_self2)
  then show ?case using quot_loop_turn [OF refl refl, of a d q s] st(2) s(1,2) by simp
next
  case (Suc n)
  let ?a = "if d \<le> a then a - d else a" and ?q = "if d \<le> a then push_bit 1 q OR 1 else push_bit 1 q"
  have "unat q * 2 \<le> unat q * 2 ^ Suc (Suc n)" by simp
  then have "2 * unat q < 2 ^ 64" using Suc.prems(5) by linarith
  then have q: "2 * unat q + 1 < 2 ^ 64" by (rule double_room)
  note st = quot_loop_turn [OF refl refl, of a d q s] quot_loop_step [OF Suc.prems(3) q refl refl]
  have s: "s \<noteq> 0" "unat (s - 1) = n" using Suc.prems(2) unat_minus_one [of s] by (metis unat_0 nat.distinct(1), metis diff_Suc_1 unat_0 nat.distinct(1))
  have d: "unat (drop_bit 1 d) = b * 2 ^ n" using Suc.prems(1) by (simp add: unat_shr1)
  have "unat a div b = unat ?a div b + 2 ^ Suc n * (unat a div unat d)" "unat a mod b = unat ?a mod b"
  proof -
    have "unat a = unat ?a + (2 ^ Suc n * (unat a div unat d)) * b"
      using st(4) Suc.prems(1) by (simp only: mult_ac)
    then show "unat a div b = unat ?a div b + 2 ^ Suc n * (unat a div unat d)" "unat a mod b = unat ?a mod b"
      using Suc.prems(4) by (metis add.commute div_mult_self1 less_irrefl, metis mod_mult_self1)
  qed
  moreover have "unat ?q * 2 ^ Suc n = unat q * 2 ^ Suc (Suc n) + 2 ^ Suc n * (unat a div unat d)"
    unfolding st(3) by (simp add: algebra_simps)
  ultimately show ?case
    using Suc.IH [of "drop_bit 1 d" "s - 1" ?a ?q] Suc.prems st(1,2) s d by simp
qed

section \<open>The entry points\<close>

lemma udivmoddi4_correct:
  assumes "b \<noteq> 0"
  shows "udivmoddi4 a b = Some (a div b, a mod b)"
proof (cases "a < b")
  case True
  then show ?thesis using assms by (simp add: udivmoddi4_def div_word_less mod_word_less)
next
  case False
  have b: "0 < unat b" "unat b \<le> unat a" using assms False by (simp_all add: unat_gt_0 word_le_nat_alt not_less)
  then have "2 ^ 64 \<le> unat b * 2 ^ 64" by simp
  then obtain k d s where al: "align_loop a b 0 = Some (d, s)" "unat d = unat b * 2 ^ k" "unat s = k"
    "unat d \<le> unat a" "unat a < 2 * unat d"
    using align_loop_end [OF b, of 64 0] by auto
  have "unat a div unat b \<le> unat a" by simp
  then have "unat a div unat b < 2 ^ 64" using unat64_less [of a] by linarith
  then have "unat (0 :: u64) * 2 ^ Suc k + unat a div unat b < 2 ^ 64" by simp
  from quot_loop_divides [OF al(2,3,5) b(1) this]
  have "quot_loop a d 0 s = (a div b, a mod b)"
    by (cases "quot_loop a d 0 s") (simp add: word_unat_eq_iff unat_div unat_mod)
  then show ?thesis using assms False al(1) by (simp add: udivmoddi4_def)
qed

text \<open>A signed word modulo \<open>2\<^sup>6\<^sup>4\<close>, and a value that fits read back.\<close>

lemma sint64_bounds: "- (2 ^ 63) \<le> sint (x :: u64)" "sint (x :: u64) < 2 ^ 63"
  using sint_greater_eq [of x] sint_less [of x] by simp_all

lemma sint_of_int64: "- (2 ^ 63) \<le> k \<Longrightarrow> k < 2 ^ 63 \<Longrightarrow> sint (of_int k :: u64) = k"
  by (simp only: sint_sbintrunc') (simp add: signed_take_bit_int_eq_self)

lemma uint_uabsdi: "uint (uabsdi a) = \<bar>sint a\<bar>"
proof (cases "sint a < 0")
  case True
  have "0 - a = of_int (- sint a)" by simp
  then have "uint (0 - a) = (- sint a) mod 2 ^ 64" by (simp only: uint_word_of_int) (simp add: take_bit_eq_mod)
  also have "\<dots> = - sint a" using True sint64_bounds [of a] by (intro mod_pos_pos_trivial) auto
  finally show ?thesis using True by (simp add: uabsdi_def)
next
  case False
  have "uint a = sint a mod 2 ^ 64" by (simp add: uint_sint take_bit_eq_mod)
  also have "\<dots> = sint a" using False sint64_bounds [of a] by (intro mod_pos_pos_trivial) auto
  finally show ?thesis using False by (simp add: uabsdi_def)
qed

lemma uabsdi_eq_0: "uabsdi a = 0 \<longleftrightarrow> a = 0"
  by (auto simp: uabsdi_def)

lemma word_of_uint: "(w :: u64) = of_int (uint w)"
  by simp

lemma sdiv_in_range:
  fixes a b :: int
  assumes "- (2 ^ 63) \<le> a" "a < 2 ^ 63" "\<not> (a = - (2 ^ 63) \<and> b = - 1)"
  shows "- (2 ^ 63) \<le> a sdiv b" "a sdiv b < 2 ^ 63"
proof -
  have "- (2 ^ 63) \<le> a sdiv b \<and> a sdiv b < 2 ^ 63"
  proof (cases "b = 0 \<or> b = 1 \<or> b = - 1")
    case True
    then show ?thesis using assms by (auto simp: signed_divide_int_def sgn_if)
  next
    case False
    have "\<bar>a\<bar> div \<bar>b\<bar> \<le> \<bar>a\<bar> div 2" using False by (intro zdiv_mono2) auto
    then have "\<bar>a\<bar> div \<bar>b\<bar> < 2 ^ 63" using assms(1,2) by linarith
    moreover have "0 \<le> \<bar>a\<bar> div \<bar>b\<bar>" by (simp add: pos_imp_zdiv_nonneg_iff div_int_pos_iff)
    ultimately show ?thesis by (auto simp: signed_divide_int_def sgn_if)
  qed
  then show "- (2 ^ 63) \<le> a sdiv b" "a sdiv b < 2 ^ 63" by blast+
qed

lemma smod_in_range:
  fixes a b :: int
  assumes "- (2 ^ 63) \<le> a" "a < 2 ^ 63"
  shows "- (2 ^ 63) \<le> a smod b" "a smod b < 2 ^ 63"
proof -
  have "0 \<le> \<bar>a\<bar> mod \<bar>b\<bar>" "\<bar>a\<bar> mod \<bar>b\<bar> \<le> \<bar>a\<bar>"
    by (cases "b = 0"; simp add: zmod_le_nonneg_dividend)+
  then show "- (2 ^ 63) \<le> a smod b" "a smod b < 2 ^ 63"
    using assms by (auto simp: signed_modulo_int_def sgn_if)
qed

section \<open>Properties\<close>

text \<open>C18: for a non-zero divisor the shift-and-subtract loops of \<open>__udivmoddi4\<close> end and give the
  quotient and remainder of unsigned division; for a zero divisor both are 0.\<close>

theorem udivmoddi4_divides: "udivmoddi4 a b = Some (if b = 0 then (0, 0) else (a div b, a mod b))"
  using udivmoddi4_correct [of b a] by (simp add: udivmoddi4_def)

text \<open>\<open>__divdi3\<close> and \<open>__moddi3\<close> compute C's signed quotient and remainder, truncated towards zero,
  for every dividend and every non-zero divisor but the one overflowing pair.\<close>

theorem signed_division:
  assumes "b \<noteq> 0" "\<not> (sint a = - (2 ^ 63) \<and> sint b = - 1)"
  shows "\<exists>q r. divdi3 a b = Some q \<and> sint q = sint a sdiv sint b
             \<and> moddi3 a b = Some r \<and> sint r = sint a smod sint b \<and> sint a = sint q * sint b + sint r"
proof -
  let ?A = "uabsdi a" and ?B = "uabsdi b"
  have B: "?B \<noteq> 0" using assms(1) by (simp add: uabsdi_eq_0)
  have uq: "uint (?A div ?B) = \<bar>sint a\<bar> div \<bar>sint b\<bar>" "uint (?A mod ?B) = \<bar>sint a\<bar> mod \<bar>sint b\<bar>"
    by (simp_all add: uint_div uint_mod uint_uabsdi)
  define q where "q = (if (sint a < 0) \<noteq> (sint b < 0) then - (?A div ?B) else ?A div ?B)"
  define r where "r = (if sint a < 0 then - (?A mod ?B) else ?A mod ?B)"
  have code: "divdi3 a b = Some q" "moddi3 a b = Some r"
    using assms(1) udivmoddi4_correct [OF B]
    by (simp_all add: divdi3_def moddi3_def udivdi3_def umoddi3_def q_def r_def Let_def)
  have "q = of_int (sint a sdiv sint b)" "r = of_int (sint a smod sint b)"
    using word_of_uint [of "?A div ?B"] word_of_uint [of "?A mod ?B"] unfolding uq q_def r_def
    by (auto simp: signed_divide_int_def signed_modulo_int_def sgn_if)
  then have "sint q = sint a sdiv sint b" "sint r = sint a smod sint b"
    using sint_of_int64 sdiv_in_range [OF sint64_bounds [of a] assms(2)] smod_in_range [OF sint64_bounds [of a]]
    by simp_all
  then show ?thesis using code sdiv_mult_smod_eq [of "sint a" "sint b"] by simp
qed

theorem signed_division_witness:
  "\<exists>q r. divdi3 (- 7) 2 = Some q \<and> sint q = - 3 \<and> moddi3 (- 7) 2 = Some r \<and> sint r = - 1"
  using signed_division [of 2 "- 7"] by (auto simp: signed_divide_int_def signed_modulo_int_def)

end
