(* ===== verification/FdTable.thy ===== *)
theory FdTable
  imports Prelude
begin

text \<open>
  The file descriptor table of a task of the guest kernel (\<open>kernel/src/sched.c\<close>): open
  files with a reference count and descriptors that point to them. A slot of the
  task table extends the record \<open>fdtable\<close>, so that the operations apply to slots; the
  functions here are the parts of \<open>sched_fd_*\<close> behind \<open>sched_current_slot\<close>, which is
  modelled with the tasks. A pointer to an open file is its index.

  The invariant \<open>fd_ok\<close> says that every reference count is the number of descriptors
  that point to the open file; every operation keeps it.
\<close>

section \<open>Constants\<close>

abbreviation (input) SCHED_MAX_FDS :: nat where "SCHED_MAX_FDS \<equiv> 32"

abbreviation (input) SCHED_FD_O_ACCMODE :: u32 where "SCHED_FD_O_ACCMODE \<equiv> 3"
abbreviation (input) SCHED_FD_O_RDONLY :: u32 where "SCHED_FD_O_RDONLY \<equiv> 0"
abbreviation (input) SCHED_FD_O_WRONLY :: u32 where "SCHED_FD_O_WRONLY \<equiv> 1"
abbreviation (input) SCHED_FD_O_RDWR :: u32 where "SCHED_FD_O_RDWR \<equiv> 2"
abbreviation (input) SCHED_FD_O_NONBLOCK :: u32 where "SCHED_FD_O_NONBLOCK \<equiv> 0x800"
abbreviation (input) SCHED_FD_CLOEXEC :: u32 where "SCHED_FD_CLOEXEC \<equiv> 1"

abbreviation (input) SCHED_FD_OK :: int where "SCHED_FD_OK \<equiv> 0"
abbreviation (input) SCHED_FD_EBADF :: int where "SCHED_FD_EBADF \<equiv> - 1"
abbreviation (input) SCHED_FD_EMFILE :: int where "SCHED_FD_EMFILE \<equiv> - 2"
abbreviation (input) SCHED_FD_EINVAL :: int where "SCHED_FD_EINVAL \<equiv> - 3"

abbreviation (input) SCHED_FD_TYPE_NONE :: u32 where "SCHED_FD_TYPE_NONE \<equiv> 0"
abbreviation (input) SCHED_FD_TYPE_STDIN :: u32 where "SCHED_FD_TYPE_STDIN \<equiv> 1"
abbreviation (input) SCHED_FD_TYPE_STDOUT :: u32 where "SCHED_FD_TYPE_STDOUT \<equiv> 2"
abbreviation (input) SCHED_FD_TYPE_STDERR :: u32 where "SCHED_FD_TYPE_STDERR \<equiv> 3"
abbreviation (input) SCHED_FD_TYPE_DEV_NULL :: u32 where "SCHED_FD_TYPE_DEV_NULL \<equiv> 4"
abbreviation (input) SCHED_FD_TYPE_DEV_ZERO :: u32 where "SCHED_FD_TYPE_DEV_ZERO \<equiv> 5"
abbreviation (input) SCHED_FD_TYPE_DEV_TTY :: u32 where "SCHED_FD_TYPE_DEV_TTY \<equiv> 6"
abbreviation (input) SCHED_FD_TYPE_SOCKET :: u32 where "SCHED_FD_TYPE_SOCKET \<equiv> 7"

abbreviation (input) SCHED_FD_SPECIAL_DEV_NULL :: u32 where "SCHED_FD_SPECIAL_DEV_NULL \<equiv> 1"
abbreviation (input) SCHED_FD_SPECIAL_DEV_ZERO :: u32 where "SCHED_FD_SPECIAL_DEV_ZERO \<equiv> 2"
abbreviation (input) SCHED_FD_SPECIAL_DEV_TTY :: u32 where "SCHED_FD_SPECIAL_DEV_TTY \<equiv> 3"
abbreviation (input) SCHED_FD_SPECIAL_SOCKET :: u32 where "SCHED_FD_SPECIAL_SOCKET \<equiv> 4"

section \<open>State\<close>

record sched_ofile =
  of_used :: bool
  of_refs :: u32
  of_type :: u32
  of_status_flags :: u32

record sched_fdent =
  fe_used :: bool
  fe_ofile_idx :: u32
  fe_fd_flags :: u32

record fdtable =
  ofiles :: "nat \<Rightarrow> sched_ofile"
  fdtab :: "nat \<Rightarrow> sched_fdent"

definition ofile_free :: sched_ofile where
  "ofile_free = \<lparr>of_used = False, of_refs = 0, of_type = SCHED_FD_TYPE_NONE, of_status_flags = 0\<rparr>"

definition fdent_free :: sched_fdent where
  "fdent_free = \<lparr>fe_used = False, fe_ofile_idx = - 1, fe_fd_flags = 0\<rparr>"

section \<open>Operations on a table\<close>

definition sched_fd_table_clear :: "'a fdtable_scheme \<Rightarrow> 'a fdtable_scheme" where
  "sched_fd_table_clear t =
     t\<lparr>ofiles := (\<lambda>i. if i < SCHED_MAX_FDS then ofile_free else ofiles t i),
       fdtab := (\<lambda>i. if i < SCHED_MAX_FDS then fdent_free else fdtab t i)\<rparr>"

definition stdio_entry :: "nat \<Rightarrow> u32 \<Rightarrow> u32 \<Rightarrow> 'a fdtable_scheme \<Rightarrow> 'a fdtable_scheme" where
  "stdio_entry i ty flags t =
     t\<lparr>ofiles := (ofiles t)(i := \<lparr>of_used = True, of_refs = 1, of_type = ty, of_status_flags = flags\<rparr>),
       fdtab := (fdtab t)(i := (fdtab t i)\<lparr>fe_used := True, fe_ofile_idx := of_nat i\<rparr>)\<rparr>"

definition sched_fd_table_init_stdio :: "'a fdtable_scheme \<Rightarrow> 'a fdtable_scheme" where
  "sched_fd_table_init_stdio t =
     stdio_entry 2 SCHED_FD_TYPE_STDERR SCHED_FD_O_WRONLY
       (stdio_entry 1 SCHED_FD_TYPE_STDOUT SCHED_FD_O_WRONLY
         (stdio_entry 0 SCHED_FD_TYPE_STDIN SCHED_FD_O_RDONLY (sched_fd_table_clear t)))"

definition sched_slot_ofile_by_fd :: "'a fdtable_scheme \<Rightarrow> int \<Rightarrow> nat option" where
  "sched_slot_ofile_by_fd t fd =
     (if fd < 0 \<or> int SCHED_MAX_FDS \<le> fd then None
      else if \<not> fe_used (fdtab t (nat fd)) then None
      else
        let j = unat (fe_ofile_idx (fdtab t (nat fd))) in
        if SCHED_MAX_FDS \<le> j then None
        else if \<not> of_used (ofiles t j) \<or> of_refs (ofiles t j) = 0 then None
        else Some j)"

definition sched_slot_find_free_fd :: "'a fdtable_scheme \<Rightarrow> nat \<Rightarrow> int" where
  "sched_slot_find_free_fd t start =
     (case List.find (\<lambda>i. \<not> fe_used (fdtab t i)) [start..<SCHED_MAX_FDS] of
        None \<Rightarrow> - 1 | Some i \<Rightarrow> int i)"

definition sched_slot_find_free_ofile :: "'a fdtable_scheme \<Rightarrow> int" where
  "sched_slot_find_free_ofile t =
     (case List.find (\<lambda>i. \<not> of_used (ofiles t i)) [0..<SCHED_MAX_FDS] of
        None \<Rightarrow> - 1 | Some i \<Rightarrow> int i)"

definition drop_ref :: "sched_ofile \<Rightarrow> sched_ofile" where
  "drop_ref f =
     (let f = (if of_refs f \<noteq> 0 then f\<lparr>of_refs := of_refs f - 1\<rparr> else f) in
      if of_refs f = 0 then f\<lparr>of_used := False, of_type := SCHED_FD_TYPE_NONE, of_status_flags := 0\<rparr>
      else f)"

definition sched_slot_close_fd :: "'a fdtable_scheme \<Rightarrow> int \<Rightarrow> int \<times> 'a fdtable_scheme" where
  "sched_slot_close_fd t fd =
     (case sched_slot_ofile_by_fd t fd of
        None \<Rightarrow> (SCHED_FD_EBADF, t)
      | Some j \<Rightarrow>
          (SCHED_FD_OK, t\<lparr>fdtab := (fdtab t)(nat fd := fdent_free),
                         ofiles := (ofiles t)(j := drop_ref (ofiles t j))\<rparr>))"

definition sched_slot_close_all_fds :: "'a fdtable_scheme \<Rightarrow> 'a fdtable_scheme" where
  "sched_slot_close_all_fds t =
     fold (\<lambda>i t. if fe_used (fdtab t i) then snd (sched_slot_close_fd t (int i)) else t)
       [0..<SCHED_MAX_FDS] t"

text \<open>The descriptor \<open>newfd\<close> becomes another reference to open file \<open>j\<close>.\<close>

definition share_ofile :: "nat \<Rightarrow> nat \<Rightarrow> 'a fdtable_scheme \<Rightarrow> 'a fdtable_scheme" where
  "share_ofile j newfd t =
     t\<lparr>fdtab := (fdtab t)(newfd := \<lparr>fe_used = True, fe_ofile_idx = of_nat j, fe_fd_flags = 0\<rparr>),
       ofiles := (ofiles t)(j := (ofiles t j)\<lparr>of_refs := of_refs (ofiles t j) + 1\<rparr>)\<rparr>"

definition slot_fd_dup :: "int \<Rightarrow> 'a fdtable_scheme \<Rightarrow> int \<times> 'a fdtable_scheme" where
  "slot_fd_dup oldfd t =
     (case sched_slot_ofile_by_fd t oldfd of
        None \<Rightarrow> (SCHED_FD_EBADF, t)
      | Some j \<Rightarrow>
          let newfd = sched_slot_find_free_fd t 0 in
          if newfd < 0 then (SCHED_FD_EMFILE, t) else (newfd, share_ofile j (nat newfd) t))"

definition slot_fd_dup2 :: "int \<Rightarrow> int \<Rightarrow> 'a fdtable_scheme \<Rightarrow> int \<times> 'a fdtable_scheme" where
  "slot_fd_dup2 oldfd newfd t =
     (if newfd < 0 \<or> int SCHED_MAX_FDS \<le> newfd then (SCHED_FD_EINVAL, t)
      else
        (case sched_slot_ofile_by_fd t oldfd of
           None \<Rightarrow> (SCHED_FD_EBADF, t)
         | Some j \<Rightarrow>
             if oldfd = newfd then (newfd, t)
             else
               let t = (if fe_used (fdtab t (nat newfd)) then snd (sched_slot_close_fd t newfd) else t) in
               (newfd, share_ofile j (nat newfd) t)))"

definition special_type_of :: "u32 \<Rightarrow> u32 option" where
  "special_type_of special =
     (if special = SCHED_FD_SPECIAL_DEV_NULL then Some SCHED_FD_TYPE_DEV_NULL
      else if special = SCHED_FD_SPECIAL_DEV_ZERO then Some SCHED_FD_TYPE_DEV_ZERO
      else if special = SCHED_FD_SPECIAL_DEV_TTY then Some SCHED_FD_TYPE_DEV_TTY
      else if special = SCHED_FD_SPECIAL_SOCKET then Some SCHED_FD_TYPE_SOCKET
      else None)"

definition slot_fd_open_special :: "u32 \<Rightarrow> u32 \<Rightarrow> 'a fdtable_scheme \<Rightarrow> int \<times> 'a fdtable_scheme" where
  "slot_fd_open_special special flags t =
     (case special_type_of special of
        None \<Rightarrow> (SCHED_FD_EINVAL, t)
      | Some ty \<Rightarrow>
          let fd = sched_slot_find_free_fd t 0 in
          if fd < 0 then (SCHED_FD_EMFILE, t)
          else
            let j = sched_slot_find_free_ofile t in
            if j < 0 then (SCHED_FD_EMFILE, t)
            else
              (fd, t\<lparr>ofiles := (ofiles t)(nat j := \<lparr>of_used = True, of_refs = 1, of_type = ty,
                       of_status_flags = flags AND (SCHED_FD_O_ACCMODE OR SCHED_FD_O_NONBLOCK)\<rparr>),
                     fdtab := (fdtab t)(nat fd := \<lparr>fe_used = True, fe_ofile_idx = of_int j, fe_fd_flags = 0\<rparr>)\<rparr>))"

section \<open>Flags and queries\<close>

text \<open>\<open>fcntl\<close> readers return the code and what is stored through the pointer; a null pointer is \<open>False\<close>.\<close>

definition slot_fcntl_getfl :: "int \<Rightarrow> bool \<Rightarrow> 'a fdtable_scheme \<Rightarrow> int \<times> u32 option" where
  "slot_fcntl_getfl fd out t =
     (if \<not> out then (SCHED_FD_EINVAL, None)
      else case sched_slot_ofile_by_fd t fd of
             None \<Rightarrow> (SCHED_FD_EBADF, None)
           | Some j \<Rightarrow> (SCHED_FD_OK, Some (of_status_flags (ofiles t j))))"

definition slot_fcntl_getfd :: "int \<Rightarrow> bool \<Rightarrow> 'a fdtable_scheme \<Rightarrow> int \<times> u32 option" where
  "slot_fcntl_getfd fd out t =
     (if \<not> out then (SCHED_FD_EINVAL, None)
      else case sched_slot_ofile_by_fd t fd of
             None \<Rightarrow> (SCHED_FD_EBADF, None)
           | Some j \<Rightarrow> (SCHED_FD_OK, Some (fe_fd_flags (fdtab t (nat fd)))))"

definition slot_fcntl_setfd :: "int \<Rightarrow> u32 \<Rightarrow> 'a fdtable_scheme \<Rightarrow> int \<times> 'a fdtable_scheme" where
  "slot_fcntl_setfd fd flags t =
     (case sched_slot_ofile_by_fd t fd of
        None \<Rightarrow> (SCHED_FD_EBADF, t)
      | Some j \<Rightarrow>
          (SCHED_FD_OK, t\<lparr>fdtab := (fdtab t)(nat fd :=
                            (fdtab t (nat fd))\<lparr>fe_fd_flags := flags AND SCHED_FD_CLOEXEC\<rparr>)\<rparr>))"

definition slot_fcntl_setfl :: "int \<Rightarrow> u32 \<Rightarrow> 'a fdtable_scheme \<Rightarrow> int \<times> 'a fdtable_scheme" where
  "slot_fcntl_setfl fd flags t =
     (case sched_slot_ofile_by_fd t fd of
        None \<Rightarrow> (SCHED_FD_EBADF, t)
      | Some j \<Rightarrow>
          (SCHED_FD_OK, t\<lparr>ofiles := (ofiles t)(j := (ofiles t j)\<lparr>of_status_flags :=
              (of_status_flags (ofiles t j) AND NOT SCHED_FD_O_NONBLOCK) OR (flags AND SCHED_FD_O_NONBLOCK)\<rparr>)\<rparr>))"

definition slot_fd_can_read :: "int \<Rightarrow> 'a fdtable_scheme \<Rightarrow> bool" where
  "slot_fd_can_read fd t =
     (case sched_slot_ofile_by_fd t fd of None \<Rightarrow> False
      | Some j \<Rightarrow>
          let acc = of_status_flags (ofiles t j) AND SCHED_FD_O_ACCMODE; ty = of_type (ofiles t j) in
          if \<not> (acc = SCHED_FD_O_RDONLY \<or> acc = SCHED_FD_O_RDWR) then False
          else ty = SCHED_FD_TYPE_STDIN \<or> ty = SCHED_FD_TYPE_DEV_ZERO \<or> ty = SCHED_FD_TYPE_DEV_NULL
               \<or> ty = SCHED_FD_TYPE_DEV_TTY \<or> ty = SCHED_FD_TYPE_SOCKET)"

definition slot_fd_can_write :: "int \<Rightarrow> 'a fdtable_scheme \<Rightarrow> bool" where
  "slot_fd_can_write fd t =
     (case sched_slot_ofile_by_fd t fd of None \<Rightarrow> False
      | Some j \<Rightarrow>
          let acc = of_status_flags (ofiles t j) AND SCHED_FD_O_ACCMODE; ty = of_type (ofiles t j) in
          if \<not> (acc = SCHED_FD_O_WRONLY \<or> acc = SCHED_FD_O_RDWR) then False
          else ty = SCHED_FD_TYPE_STDOUT \<or> ty = SCHED_FD_TYPE_STDERR \<or> ty = SCHED_FD_TYPE_DEV_NULL
               \<or> ty = SCHED_FD_TYPE_DEV_ZERO \<or> ty = SCHED_FD_TYPE_DEV_TTY \<or> ty = SCHED_FD_TYPE_SOCKET)"

definition slot_fd_is_nonblock :: "int \<Rightarrow> 'a fdtable_scheme \<Rightarrow> bool" where
  "slot_fd_is_nonblock fd t =
     (case sched_slot_ofile_by_fd t fd of None \<Rightarrow> False
      | Some j \<Rightarrow> of_status_flags (ofiles t j) AND SCHED_FD_O_NONBLOCK \<noteq> 0)"

definition slot_fd_is_open :: "int \<Rightarrow> 'a fdtable_scheme \<Rightarrow> bool" where
  "slot_fd_is_open fd t =
     (if fd < 0 \<or> int SCHED_MAX_FDS \<le> fd then False else fe_used (fdtab t (nat fd)))"

definition slot_fd_is_stdin :: "int \<Rightarrow> 'a fdtable_scheme \<Rightarrow> bool" where
  "slot_fd_is_stdin fd t =
     (case sched_slot_ofile_by_fd t fd of None \<Rightarrow> False
      | Some j \<Rightarrow> of_type (ofiles t j) = SCHED_FD_TYPE_STDIN)"

definition slot_fd_is_tty :: "int \<Rightarrow> 'a fdtable_scheme \<Rightarrow> bool" where
  "slot_fd_is_tty fd t =
     (case sched_slot_ofile_by_fd t fd of None \<Rightarrow> False
      | Some j \<Rightarrow>
          let ty = of_type (ofiles t j) in
          ty = SCHED_FD_TYPE_STDIN \<or> ty = SCHED_FD_TYPE_STDOUT \<or> ty = SCHED_FD_TYPE_STDERR
          \<or> ty = SCHED_FD_TYPE_DEV_TTY)"

definition slot_fd_get_type :: "int \<Rightarrow> bool \<Rightarrow> 'a fdtable_scheme \<Rightarrow> int \<times> u32 option" where
  "slot_fd_get_type fd out t =
     (if \<not> out then (SCHED_FD_EINVAL, None)
      else case sched_slot_ofile_by_fd t fd of
             None \<Rightarrow> (SCHED_FD_EBADF, None)
           | Some j \<Rightarrow> (SCHED_FD_OK, Some (of_type (ofiles t j))))"

section \<open>Reference counts\<close>

definition refs_to :: "'a fdtable_scheme \<Rightarrow> nat \<Rightarrow> nat set" where
  "refs_to t j = {i. i < SCHED_MAX_FDS \<and> fe_used (fdtab t i) \<and> unat (fe_ofile_idx (fdtab t i)) = j}"

definition fd_ok :: "'a fdtable_scheme \<Rightarrow> bool" where
  "fd_ok t \<longleftrightarrow>
     (\<forall>i < SCHED_MAX_FDS. if fe_used (fdtab t i) then unat (fe_ofile_idx (fdtab t i)) < SCHED_MAX_FDS
                         else fdtab t i = fdent_free)
     \<and> (\<forall>j < SCHED_MAX_FDS. unat (of_refs (ofiles t j)) = card (refs_to t j)
          \<and> (if of_refs (ofiles t j) = 0 then ofiles t j = ofile_free else of_used (ofiles t j)))"

lemma finite_refs_to [simp]: "finite (refs_to t j)"
  by (simp add: refs_to_def)

lemma card_refs_to: "card (refs_to t j) \<le> SCHED_MAX_FDS"
  using card_mono [of "{..<32 :: nat}" "refs_to t j"] by (auto simp: refs_to_def)

lemma fd_okD:
  assumes "fd_ok t"
  shows "i < SCHED_MAX_FDS \<Longrightarrow> fe_used (fdtab t i) \<Longrightarrow> unat (fe_ofile_idx (fdtab t i)) < SCHED_MAX_FDS"
    "i < SCHED_MAX_FDS \<Longrightarrow> \<not> fe_used (fdtab t i) \<Longrightarrow> fdtab t i = fdent_free"
    "j < SCHED_MAX_FDS \<Longrightarrow> unat (of_refs (ofiles t j)) = card (refs_to t j)"
    "j < SCHED_MAX_FDS \<Longrightarrow> of_used (ofiles t j) \<longleftrightarrow> of_refs (ofiles t j) \<noteq> 0"
    "j < SCHED_MAX_FDS \<Longrightarrow> of_refs (ofiles t j) = 0 \<Longrightarrow> ofiles t j = ofile_free"
  using assms by (auto simp: fd_ok_def ofile_free_def split: if_splits)

text \<open>Under the invariant a descriptor is usable exactly when it is marked used.\<close>

lemma ofile_by_fd_ok:
  assumes "fd_ok t"
  shows "sched_slot_ofile_by_fd t fd =
     (if 0 \<le> fd \<and> fd < int SCHED_MAX_FDS \<and> fe_used (fdtab t (nat fd))
      then Some (unat (fe_ofile_idx (fdtab t (nat fd)))) else None)"
proof (cases "0 \<le> fd \<and> fd < 32 \<and> fe_used (fdtab t (nat fd))")
  case True
  let ?j = "unat (fe_ofile_idx (fdtab t (nat fd)))"
  have i: "nat fd < 32" using True by auto
  then have j: "?j < 32" using True fd_okD(1) [OF assms] by blast
  have "nat fd \<in> refs_to t ?j" using i True by (simp add: refs_to_def)
  then have "0 < card (refs_to t ?j)" by (auto simp: card_gt_0_iff)
  then have "of_refs (ofiles t ?j) \<noteq> 0" using fd_okD(3) [OF assms j] by auto
  then show ?thesis using True j fd_okD(4) [OF assms j] by (simp add: sched_slot_ofile_by_fd_def)
qed (auto simp: sched_slot_ofile_by_fd_def)

lemma fd_okI:
  assumes "\<And>i. i < 32 \<Longrightarrow> fe_used (fdtab t i) \<Longrightarrow> unat (fe_ofile_idx (fdtab t i)) < 32"
    "\<And>i. i < 32 \<Longrightarrow> \<not> fe_used (fdtab t i) \<Longrightarrow> fdtab t i = fdent_free"
    "\<And>j. j < 32 \<Longrightarrow> unat (of_refs (ofiles t j)) = card (refs_to t j)"
    "\<And>j. j < 32 \<Longrightarrow> of_refs (ofiles t j) \<noteq> 0 \<Longrightarrow> of_used (ofiles t j)"
    "\<And>j. j < 32 \<Longrightarrow> of_refs (ofiles t j) = 0 \<Longrightarrow> ofiles t j = ofile_free"
  shows "fd_ok t"
  using assms by (simp add: fd_ok_def)

section \<open>The invariant is kept\<close>

lemma refs_to_clear:
  "refs_to (t\<lparr>fdtab := (fdtab t)(i := fdent_free), ofiles := f\<rparr>) j = refs_to t j - {i}"
  by (auto simp: refs_to_def fdent_free_def)

lemma refs_to_set:
  "i < 32 \<Longrightarrow> fdtab u = (fdtab t)(i := \<lparr>fe_used = True, fe_ofile_idx = x, fe_fd_flags = g\<rparr>)
   \<Longrightarrow> refs_to u j = (if unat x = j then insert i (refs_to t j) else refs_to t j - {i})"
  by (auto simp: refs_to_def)

lemma drop_ref_fields:
  assumes "of_refs f \<noteq> 0"
  shows "of_refs (drop_ref f) = of_refs f - 1" "of_refs (drop_ref f) \<noteq> 0 \<Longrightarrow> of_used (drop_ref f) = of_used f"
    "of_refs (drop_ref f) = 0 \<Longrightarrow> drop_ref f = ofile_free"
  using assms by (auto simp: drop_ref_def ofile_free_def Let_def)

lemma close_fd_ok:
  assumes "fd_ok t"
  shows "fd_ok (snd (sched_slot_close_fd t fd))"
proof (cases "sched_slot_ofile_by_fd t fd")
  case (Some j)
  then have i: "nat fd < 32" "fe_used (fdtab t (nat fd))" and j: "j = unat (fe_ofile_idx (fdtab t (nat fd)))"
    using ofile_by_fd_ok [OF assms, of fd] by (auto split: if_splits)
  have j32: "j < 32" using fd_okD(1) [OF assms i] j by simp
  have mem: "nat fd \<in> refs_to t j" using i j by (simp add: refs_to_def)
  then have "0 < card (refs_to t j)" by (auto simp: card_gt_0_iff)
  then have nz: "of_refs (ofiles t j) \<noteq> 0" using fd_okD(3) [OF assms j32] by auto
  then have less: "unat (of_refs (ofiles t j) - 1) = card (refs_to t j) - 1"
    using fd_okD(3) [OF assms j32] by (simp add: unat_minus_one)
  let ?t = "t\<lparr>fdtab := (fdtab t)(nat fd := fdent_free), ofiles := (ofiles t)(j := drop_ref (ofiles t j))\<rparr>"
  have "fd_ok ?t"
  proof (rule fd_okI)
    fix k :: nat
    assume k: "k < 32"
    show "unat (of_refs (ofiles ?t k)) = card (refs_to ?t k)"
    proof (cases "k = j")
      case True
      then show ?thesis using less mem drop_ref_fields(1) [OF nz] by (simp add: refs_to_clear)
    next
      case False
      then have "nat fd \<notin> refs_to t k" using j by (simp add: refs_to_def)
      then show ?thesis using False fd_okD(3) [OF assms k] by (simp add: refs_to_clear)
    qed
    show "of_refs (ofiles ?t k) \<noteq> 0 \<Longrightarrow> of_used (ofiles ?t k)" "of_refs (ofiles ?t k) = 0 \<Longrightarrow> ofiles ?t k = ofile_free"
      using fd_okD(4,5) [OF assms k] drop_ref_fields [OF nz] nz by (auto split: if_splits)
  qed (use fd_okD(1,2) [OF assms] in \<open>auto simp: fdent_free_def split: if_splits\<close>)
  then show ?thesis using Some by (simp add: sched_slot_close_fd_def)
qed (use assms in \<open>simp add: sched_slot_close_fd_def\<close>)

lemma share_ofile_ok:
  assumes "fd_ok t" "j < 32" "of_refs (ofiles t j) \<noteq> 0" "n < 32" "\<not> fe_used (fdtab t n)"
  shows "fd_ok (share_ofile j n t)"
proof (rule fd_okI)
  have jj: "unat (of_nat j :: u32) = j" using assms(2) by (simp only: unat_of_nat) simp
  have new: "n \<notin> refs_to t k" for k using assms(5) by (simp add: refs_to_def)
  have rt: "refs_to (share_ofile j n t) k = (if j = k then insert n (refs_to t k) else refs_to t k)" for k
    using refs_to_set [OF assms(4), of "share_ofile j n t" t "of_nat j" 0 k] jj new [of k]
    by (simp add: share_ofile_def)
  fix k :: nat
  assume k: "k < 32"
  have "unat (of_refs (ofiles t j) + 1) = card (refs_to t j) + 1"
    using card_refs_to [of t j] fd_okD(3) [OF assms(1,2)] unat_plus_simple [of "of_refs (ofiles t j)" 1]
    by (simp add: unat_word_ariths)
  then show "unat (of_refs (ofiles (share_ofile j n t) k)) = card (refs_to (share_ofile j n t) k)"
    using fd_okD(3) [OF assms(1) k] new [of j] unfolding rt by (auto simp: share_ofile_def)
  have nz: "of_refs (ofiles t j) + 1 \<noteq> 0"
    using \<open>unat (of_refs (ofiles t j) + 1) = card (refs_to t j) + 1\<close> by auto
  show "of_refs (ofiles (share_ofile j n t) k) \<noteq> 0 \<Longrightarrow> of_used (ofiles (share_ofile j n t) k)"
    "of_refs (ofiles (share_ofile j n t) k) = 0 \<Longrightarrow> ofiles (share_ofile j n t) k = ofile_free"
    using fd_okD(4,5) [OF assms(1) k] fd_okD(4) [OF assms(1,2)] assms(3) nz by (auto simp: share_ofile_def)
  show "fe_used (fdtab (share_ofile j n t) k) \<Longrightarrow> unat (fe_ofile_idx (fdtab (share_ofile j n t) k)) < 32"
    "\<not> fe_used (fdtab (share_ofile j n t) k) \<Longrightarrow> fdtab (share_ofile j n t) k = fdent_free"
    using fd_okD(1,2) [OF assms(1) k] jj assms(2) by (auto simp: share_ofile_def split: if_splits)
qed

lemma find_free_fd:
  "sched_slot_find_free_fd t 0 < 0 \<longleftrightarrow> (\<forall>i < 32. fe_used (fdtab t i))"
  "0 \<le> sched_slot_find_free_fd t 0 \<Longrightarrow>
     nat (sched_slot_find_free_fd t 0) < 32 \<and> \<not> fe_used (fdtab t (nat (sched_slot_find_free_fd t 0)))
     \<and> (\<forall>i < nat (sched_slot_find_free_fd t 0). fe_used (fdtab t i))"
  by (auto simp: sched_slot_find_free_fd_def find_None_iff find_Some_iff split: option.splits)

lemma find_free_ofile:
  "sched_slot_find_free_ofile t < 0 \<longleftrightarrow> (\<forall>i < 32. of_used (ofiles t i))"
  "0 \<le> sched_slot_find_free_ofile t \<Longrightarrow>
     nat (sched_slot_find_free_ofile t) < 32 \<and> \<not> of_used (ofiles t (nat (sched_slot_find_free_ofile t)))"
  by (auto simp: sched_slot_find_free_ofile_def find_None_iff find_Some_iff split: option.splits)

text \<open>A free descriptor leaves an open file free too: 31 descriptors cannot hold 32 files.\<close>

lemma free_fd_free_ofile:
  assumes "fd_ok t" "i < 32" "\<not> fe_used (fdtab t i)"
  shows "\<exists>j < 32. \<not> of_used (ofiles t j)"
proof (rule ccontr)
  let ?f = "\<lambda>k. unat (fe_ofile_idx (fdtab t k))"
  assume "\<not> (\<exists>j < 32. \<not> of_used (ofiles t j))"
  then have nz: "of_refs (ofiles t j) \<noteq> 0" if "j < 32" for j using that fd_okD(4) [OF assms(1)] by blast
  have "refs_to t j \<noteq> {}" if "j < 32" for j
  proof
    assume "refs_to t j = {}"
    then have "unat (of_refs (ofiles t j)) = 0" using fd_okD(3) [OF assms(1) that] by simp
    then show False using nz [OF that] by (simp add: unat_eq_0)
  qed
  then have "{..<32} \<subseteq> ?f ` ({..<32} - {i})" using assms(3) by (fastforce simp: refs_to_def)
  then have "card {..<32 :: nat} \<le> card ({..<32 :: nat} - {i})"
    by (meson card_image_le card_mono finite_Diff finite_imageI finite_lessThan order_trans)
  then show False using assms(2) by simp
qed

lemma dup_ok:
  assumes "fd_ok t"
  shows "fd_ok (snd (slot_fd_dup fd t))"
proof (cases "sched_slot_ofile_by_fd t fd")
  case (Some j)
  then have "j < 32" "of_refs (ofiles t j) \<noteq> 0" by (auto simp: sched_slot_ofile_by_fd_def Let_def split: if_splits)
  then show ?thesis
    using Some assms find_free_fd(2) [of t] by (auto simp: slot_fd_dup_def Let_def intro!: share_ofile_ok)
qed (use assms in \<open>simp add: slot_fd_dup_def\<close>)

text \<open>Closing another descriptor of a shared file leaves the file open.\<close>

lemma close_keeps_other:
  assumes "fd_ok t" "sched_slot_ofile_by_fd t a = Some j" "a \<noteq> b"
  shows "sched_slot_ofile_by_fd (snd (sched_slot_close_fd t b)) a = Some j"
proof -
  have a: "0 \<le> a" "a < 32" "fe_used (fdtab t (nat a))" "j = unat (fe_ofile_idx (fdtab t (nat a)))"
    using assms(2) ofile_by_fd_ok [OF assms(1), of a] by (auto split: if_splits)
  let ?u = "snd (sched_slot_close_fd t b)"
  have "fdtab ?u (nat a) = fdtab t (nat a)"
  proof (cases "sched_slot_ofile_by_fd t b")
    case (Some k)
    then have "nat b \<noteq> nat a" using a assms(3) by (auto simp: sched_slot_ofile_by_fd_def split: if_splits)
    then show ?thesis using Some by (simp add: sched_slot_close_fd_def)
  qed (simp add: sched_slot_close_fd_def)
  then show ?thesis using a ofile_by_fd_ok [OF close_fd_ok [OF assms(1)], of b a] by simp
qed

lemma close_frees:
  assumes "fd_ok t" "n < 32"
  shows "\<not> fe_used (fdtab (if fe_used (fdtab t n) then snd (sched_slot_close_fd t (int n)) else t) n)"
  using ofile_by_fd_ok [OF assms(1), of "int n"] assms(2)
  by (auto simp: sched_slot_close_fd_def fdent_free_def)

lemma dup2_ok:
  assumes "fd_ok t"
  shows "fd_ok (snd (slot_fd_dup2 a b t))"
proof (cases "0 \<le> b \<and> b < 32 \<and> a \<noteq> b \<and> sched_slot_ofile_by_fd t a \<noteq> None")
  case True
  then obtain j where j: "sched_slot_ofile_by_fd t a = Some j" by blast
  let ?u = "if fe_used (fdtab t (nat b)) then snd (sched_slot_close_fd t b) else t"
  have nb: "nat b < 32" using True by auto
  then have u: "fd_ok ?u" "sched_slot_ofile_by_fd ?u a = Some j" "\<not> fe_used (fdtab ?u (nat b))"
    using assms close_fd_ok [OF assms] close_keeps_other [OF assms j] close_frees [OF assms, of "nat b"] j True by auto
  then have jj: "j < 32" "of_refs (ofiles ?u j) \<noteq> 0"
    by (auto simp: sched_slot_ofile_by_fd_def Let_def split: if_splits)
  have "snd (slot_fd_dup2 a b t) = share_ofile j (nat b) ?u" using True j by (simp add: slot_fd_dup2_def Let_def)
  then show ?thesis using share_ofile_ok [OF u(1) jj nb u(3)] by simp
qed (use assms in \<open>auto simp: slot_fd_dup2_def split: option.splits\<close>)

lemma open_special_ok:
  assumes "fd_ok t"
  shows "fd_ok (snd (slot_fd_open_special sp flags t))"
proof (cases "special_type_of sp = None \<or> sched_slot_find_free_fd t 0 < 0 \<or> sched_slot_find_free_ofile t < 0")
  case False
  let ?i = "nat (sched_slot_find_free_fd t 0)" and ?j = "nat (sched_slot_find_free_ofile t)"
  let ?of = "\<lparr>of_used = True, of_refs = 1, of_type = the (special_type_of sp), of_status_flags = flags AND 0x803\<rparr>"
  let ?t = "t\<lparr>ofiles := (ofiles t)(?j := ?of),
               fdtab := (fdtab t)(?i := \<lparr>fe_used = True, fe_ofile_idx = of_nat ?j, fe_fd_flags = 0\<rparr>)\<rparr>"
  have i: "?i < 32" "\<not> fe_used (fdtab t ?i)" and j: "?j < 32" "\<not> of_used (ofiles t ?j)"
    using False find_free_fd(2) [of t] find_free_ofile(2) [of t] by auto
  have jj: "unat (of_nat ?j :: u32) = ?j" using j(1) by (simp only: unat_of_nat) simp
  have new: "?i \<notin> refs_to t k" for k using i(2) by (simp add: refs_to_def)
  have rt: "refs_to ?t k = (if ?j = k then insert ?i (refs_to t k) else refs_to t k)" for k
    using refs_to_set [OF i(1), of ?t t "of_nat ?j" 0 k] jj new [of k] by simp
  have "of_refs (ofiles t ?j) = 0" using fd_okD(4) [OF assms j(1)] j(2) by simp
  then have "card (refs_to t ?j) = 0" using fd_okD(3) [OF assms j(1)] by simp
  then have empty: "refs_to t ?j = {}" by simp
  have "fd_ok ?t"
  proof (rule fd_okI)
    fix k :: nat
    assume k: "k < 32"
    show "unat (of_refs (ofiles ?t k)) = card (refs_to ?t k)"
      using fd_okD(3) [OF assms k] empty unfolding rt by auto
  qed (use fd_okD [OF assms] j(1) jj in \<open>auto split: if_splits\<close>)
  moreover have "of_int (sched_slot_find_free_ofile t) = (of_nat ?j :: u32)" using False by (simp add: of_nat_nat)
  then have "snd (slot_fd_open_special sp flags t) = ?t"
    using False by (auto simp: slot_fd_open_special_def Let_def)
  ultimately show ?thesis by simp
qed (use assms in \<open>auto simp: slot_fd_open_special_def Let_def split: option.splits\<close>)

lemma clear_ok: "fd_ok (sched_fd_table_clear t)"
proof -
  have "refs_to (sched_fd_table_clear t) j = {}" for j
    by (auto simp: refs_to_def sched_fd_table_clear_def fdent_free_def)
  then show ?thesis by (intro fd_okI) (auto simp: sched_fd_table_clear_def fdent_free_def ofile_free_def)
qed

lemma init_stdio_ok: "fd_ok (sched_fd_table_init_stdio t)"
proof -
  have "refs_to (sched_fd_table_init_stdio t) j = (if j < 3 then {j} else {})" for j
    by (auto simp: refs_to_def sched_fd_table_init_stdio_def stdio_entry_def sched_fd_table_clear_def
        fdent_free_def split: if_splits)
  then show ?thesis
    by (intro fd_okI) (auto simp: sched_fd_table_init_stdio_def stdio_entry_def sched_fd_table_clear_def
        fdent_free_def ofile_free_def split: if_splits)
qed

lemma setfd_ok: "fd_ok t \<Longrightarrow> fd_ok (snd (slot_fcntl_setfd fd flags t))"
proof (cases "sched_slot_ofile_by_fd t fd")
  case (Some j)
  assume ok: "fd_ok t"
  have used: "fe_used (fdtab t (nat fd))"
    using Some by (auto simp: sched_slot_ofile_by_fd_def split: if_splits)
  let ?t = "t\<lparr>fdtab := (fdtab t)(nat fd := (fdtab t (nat fd))\<lparr>fe_fd_flags := flags AND 1\<rparr>)\<rparr>"
  have "refs_to ?t k = refs_to t k" for k by (auto simp: refs_to_def)
  then have "fd_ok ?t" using fd_okD [OF ok] used by (intro fd_okI) (auto split: if_splits)
  then show ?thesis using Some by (simp add: slot_fcntl_setfd_def)
qed (simp add: slot_fcntl_setfd_def)

lemma setfl_ok: "fd_ok t \<Longrightarrow> fd_ok (snd (slot_fcntl_setfl fd flags t))"
proof (cases "sched_slot_ofile_by_fd t fd")
  case (Some j)
  assume ok: "fd_ok t"
  have nz: "of_refs (ofiles t j) \<noteq> 0" "of_used (ofiles t j)"
    using Some by (auto simp: sched_slot_ofile_by_fd_def Let_def split: if_splits)
  let ?t = "snd (slot_fcntl_setfl fd flags t)"
  have "refs_to ?t k = refs_to t k" for k using Some by (simp add: slot_fcntl_setfl_def refs_to_def)
  then show ?thesis using fd_okD [OF ok] nz Some by (intro fd_okI) (auto simp: slot_fcntl_setfl_def)
qed (simp add: slot_fcntl_setfl_def)

section \<open>Closing everything\<close>

lemma close_all_upto:
  assumes "fd_ok t" "n \<le> 32"
    "u = fold (\<lambda>i t. if fe_used (fdtab t i) then snd (sched_slot_close_fd t (int i)) else t) [0..<n] t"
  shows "fd_ok u \<and> (\<forall>i < n. \<not> fe_used (fdtab u i)) \<and> (\<forall>i \<ge> 32. fdtab u i = fdtab t i \<and> ofiles u i = ofiles t i)
         \<and> u = t\<lparr>ofiles := ofiles u, fdtab := fdtab u\<rparr>"
  using assms(2,3)
proof (induction n arbitrary: u)
  case 0
  then show ?case using assms(1) by simp
next
  case (Suc n)
  define w where "w = fold (\<lambda>i t. if fe_used (fdtab t i) then snd (sched_slot_close_fd t (int i)) else t) [0..<n] t"
  have w: "fd_ok w" "\<forall>i < n. \<not> fe_used (fdtab w i)" "\<forall>i \<ge> 32. fdtab w i = fdtab t i \<and> ofiles w i = ofiles t i"
    "w = t\<lparr>ofiles := ofiles w, fdtab := fdtab w\<rparr>"
    using Suc.IH [OF _ w_def] Suc.prems(1) by auto
  have u: "u = (if fe_used (fdtab w n) then snd (sched_slot_close_fd w (int n)) else w)"
    using Suc.prems(2) by (simp add: w_def)
  have j: "sched_slot_ofile_by_fd w (int n) = Some j \<Longrightarrow> j < 32" for j
    by (auto simp: sched_slot_ofile_by_fd_def Let_def split: if_splits)
  have fr: "\<forall>i. i \<noteq> n \<longrightarrow> fdtab u i = fdtab w i" "\<forall>i \<ge> 32. ofiles u i = ofiles w i"
    "u = w\<lparr>ofiles := ofiles u, fdtab := fdtab u\<rparr>"
    using j unfolding u by (auto simp: sched_slot_close_fd_def split: option.splits)
  have "fd_ok u" "\<not> fe_used (fdtab u n)"
    using close_fd_ok [OF w(1)] w(1) close_frees [OF w(1), of n] Suc.prems(1) unfolding u by auto
  moreover have "u = t\<lparr>ofiles := ofiles u, fdtab := fdtab u\<rparr>" using fr(3) w(4) by (metis fdtable.surjective fdtable.update_convs)
  ultimately show ?case using w(2,3) fr Suc.prems(1) by (auto simp: less_Suc_eq)
qed

lemma close_all_clears:
  assumes "fd_ok t"
  shows "sched_slot_close_all_fds t = sched_fd_table_clear t"
proof -
  let ?u = "sched_slot_close_all_fds t"
  have u: "fd_ok ?u" "\<forall>i < 32. \<not> fe_used (fdtab ?u i)"
    "\<forall>i \<ge> 32. fdtab ?u i = fdtab t i \<and> ofiles ?u i = ofiles t i" "?u = t\<lparr>ofiles := ofiles ?u, fdtab := fdtab ?u\<rparr>"
    using close_all_upto [OF assms order_refl sched_slot_close_all_fds_def] by auto
  have fd: "fdtab ?u i = (if i < 32 then fdent_free else fdtab t i)" for i
    using u(2,3) fd_okD(2) [OF u(1), of i] by auto
  have "refs_to ?u j = {}" for j using u(2) by (auto simp: refs_to_def)
  then have "ofiles ?u j = ofile_free" if "j < 32" for j
    using that fd_okD(3,5) [OF u(1) that] by (simp add: unat_eq_0)
  then have "ofiles ?u j = (if j < 32 then ofile_free else ofiles t j)" for j using u(3) by auto
  then have "ofiles ?u = (\<lambda>j. if j < 32 then ofile_free else ofiles t j)"
    "fdtab ?u = (\<lambda>i. if i < 32 then fdent_free else fdtab t i)" using fd by auto
  then show ?thesis using u(4) by (simp add: sched_fd_table_clear_def)
qed

lemma close_dup:
  assumes "fd_ok t" "slot_fd_dup fd t = (n, u)" "0 \<le> n"
  shows "snd (sched_slot_close_fd u n) = t"
proof -
  have n: "n = sched_slot_find_free_fd t 0" "nat n < 32" "\<not> fe_used (fdtab t (nat n))" "n < 32"
    and "sched_slot_ofile_by_fd t fd \<noteq> None"
    using assms(2,3) find_free_fd(2) [of t] by (auto simp: slot_fd_dup_def Let_def split: option.splits if_splits)
  then obtain j where j: "sched_slot_ofile_by_fd t fd = Some j" by blast
  have jr: "j < 32" "of_refs (ofiles t j) \<noteq> 0"
    using j by (auto simp: sched_slot_ofile_by_fd_def Let_def split: if_splits)
  have jj: "unat (of_nat j :: u32) = j" using jr(1) by (simp only: unat_of_nat) simp
  have u: "u = share_ofile j (nat n) t" using assms(2,3) j n(1) by (simp add: slot_fd_dup_def Let_def split: if_splits)
  have "fd_ok u" using dup_ok [OF assms(1), of fd] assms(2) by simp
  then have "sched_slot_ofile_by_fd u n = Some j"
    using ofile_by_fd_ok [of u n] n(4) assms(3) jj by (simp add: u share_ofile_def)
  then have "snd (sched_slot_close_fd u n)
      = u\<lparr>fdtab := (fdtab u)(nat n := fdent_free), ofiles := (ofiles u)(j := drop_ref (ofiles u j))\<rparr>"
    by (simp add: sched_slot_close_fd_def)
  moreover have "of_refs (ofiles t j) + 1 \<noteq> 0"
  proof
    assume "of_refs (ofiles t j) + 1 = 0"
    then have "of_refs (ofiles t j) = - 1" by (simp add: eq_neg_iff_add_eq_0)
    then show False using fd_okD(3) [OF assms(1) jr(1)] card_refs_to [of t j]
      by (simp add: unsigned_minus_1_eq_mask mask_eq_exp_minus_1)
  qed
  then have "drop_ref (ofiles u j) = ofiles t j" using jr(2) by (simp add: u share_ofile_def drop_ref_def Let_def)
  moreover have "(fdtab t)(nat n := fdent_free) = fdtab t" using fd_okD(2) [OF assms(1) n(2,3)] by (simp add: fun_upd_idem)
  ultimately show ?thesis by (simp add: u share_ofile_def)
qed

section \<open>Properties\<close>

text \<open>C16: every operation on a descriptor table keeps each open file's reference count equal to the
  number of descriptors that point to it; a fresh standard table has that property.\<close>

theorem fd_refcounts_exact:
  assumes "fd_ok t"
  shows "fd_ok (snd (sched_slot_close_fd t a)) \<and> fd_ok (snd (slot_fd_dup a t)) \<and> fd_ok (snd (slot_fd_dup2 a b t))
    \<and> fd_ok (snd (slot_fd_open_special sp fl t)) \<and> fd_ok (snd (slot_fcntl_setfd a fl t))
    \<and> fd_ok (snd (slot_fcntl_setfl a fl t)) \<and> fd_ok (sched_slot_close_all_fds t)
    \<and> fd_ok (sched_fd_table_init_stdio u)"
  using assms
  by (simp add: close_all_clears close_fd_ok dup_ok dup2_ok open_special_ok setfd_ok setfl_ok clear_ok init_stdio_ok)

definition demo_fds :: fdtable where
  "demo_fds = sched_fd_table_init_stdio \<lparr>ofiles = \<lambda>_. ofile_free, fdtab = \<lambda>_. fdent_free\<rparr>"

lemma demo_fds_ok: "fd_ok demo_fds"
  by (simp add: demo_fds_def init_stdio_ok)

theorem fd_refcounts_exact_witness: "fd_ok (snd (slot_fd_dup 0 demo_fds))"
  using fd_refcounts_exact [OF demo_fds_ok, of 0] by blast

text \<open>\<open>dup\<close> of an open descriptor returns the lowest free one, which then refers to the same open
  file; closing it restores the table. It fails with \<open>EMFILE\<close> only when all 32 descriptors are in use.\<close>

theorem dup_close_round_trip:
  assumes "fd_ok t" "slot_fd_dup fd t = (n, u)" "slot_fd_is_open fd t"
  shows "if \<forall>i < 32. fe_used (fdtab t i) then n = SCHED_FD_EMFILE \<and> u = t
         else 0 \<le> n \<and> n < 32 \<and> \<not> fe_used (fdtab t (nat n)) \<and> (\<forall>i < nat n. fe_used (fdtab t i))
              \<and> sched_slot_ofile_by_fd u n = sched_slot_ofile_by_fd t fd
              \<and> sched_slot_ofile_by_fd u fd = sched_slot_ofile_by_fd t fd
              \<and> snd (sched_slot_close_fd u n) = t"
proof -
  have op: "0 \<le> fd" "fd < 32" "fe_used (fdtab t (nat fd))"
    using assms(3) by (auto simp: slot_fd_is_open_def split: if_splits)
  let ?j = "unat (fe_ofile_idx (fdtab t (nat fd)))"
  have j: "sched_slot_ofile_by_fd t fd = Some ?j" using op ofile_by_fd_ok [OF assms(1), of fd] by simp
  have jj: "unat (of_nat ?j :: u32) = ?j" by simp
  have u: "fd_ok u" using dup_ok [OF assms(1), of fd] assms(2) by simp
  show ?thesis
  proof (cases "\<forall>i < 32. fe_used (fdtab t i)")
    case True
    then show ?thesis using assms(2) j find_free_fd(1) [of t] by (simp add: slot_fd_dup_def)
  next
    case False
    then have "\<not> sched_slot_find_free_fd t 0 < 0" using find_free_fd(1) [of t] by blast
    then have n: "n = sched_slot_find_free_fd t 0" "0 \<le> n" "u = share_ofile ?j (nat n) t"
      using assms(2) j by (auto simp: slot_fd_dup_def Let_def)
    have ne: "nat fd \<noteq> nat n" "n < 32" "nat n < 32" using find_free_fd(2) [of t] n(1,2) op(3) by auto
    have "sched_slot_ofile_by_fd u n = Some ?j" "sched_slot_ofile_by_fd u fd = Some ?j"
      using ofile_by_fd_ok [OF u] n(2) ne op by (simp_all add: n(3) share_ofile_def)
    then show ?thesis
      using False n(1,2) ne find_free_fd(2) [of t] j close_dup [OF assms(1,2) n(2)] by auto
  qed
qed

theorem dup_close_round_trip_witness:
  "\<exists>n u. slot_fd_dup 1 demo_fds = (n, u) \<and> n = 3 \<and> snd (sched_slot_close_fd u n) = demo_fds"
proof -
  obtain n u where d: "slot_fd_dup 1 demo_fds = (n, u)" by (cases "slot_fd_dup 1 demo_fds")
  have fe: "fe_used (fdtab demo_fds i) \<longleftrightarrow> i < 3" for i
    by (auto simp: demo_fds_def sched_fd_table_init_stdio_def stdio_entry_def sched_fd_table_clear_def fdent_free_def)
  then have "\<not> fe_used (fdtab demo_fds 3)" by simp
  moreover have "(3 :: nat) < 32" by simp
  ultimately have "\<not> (\<forall>i < 32. fe_used (fdtab demo_fds i))" by blast
  moreover have "slot_fd_is_open 1 demo_fds" by (simp add: slot_fd_is_open_def fe)
  ultimately have n: "0 \<le> n" "\<not> nat n < 3" "\<forall>i < nat n. i < 3" "snd (sched_slot_close_fd u n) = demo_fds"
    using dup_close_round_trip [OF demo_fds_ok d] unfolding fe by (metis (full_types))+
  have "\<not> 3 < nat n" using n(3) by blast
  then have "n = 3" using n(1,2) by linarith
  then show ?thesis using d n(4) by blast
qed

end
