(* ===== verification/Sched.thy ===== *)
theory Sched
  imports FdTable
begin

text \<open>
  The task scheduler of the guest kernel (\<open>kernel/src/sched.c\<close>): the table of 16 task slots,
  wait queues, sleeping, spawning, exiting, reaping, and the operations on the file
  descriptors of the current task.

  A slot pointer is the slot's index, a wait queue pointer a value of \<open>waitq\<close>: the
  receive queue of the console, or the \<open>child_waitq\<close> of a slot. The one word of bits of
  each queue (\<open>(16 + 31) / 32\<close> words) is kept in \<open>wq\<close>. A task is a callback; running it
  is the parameter \<open>run\<close>, which gets the entry, the slot and the argument.

  \<open>sched_ok\<close> is the invariant: the bit of a slot is set in a queue exactly when the slot
  waits there, a waiting task is blocked or sleeping, descriptor tables are sound.
\<close>

section \<open>State\<close>

abbreviation (input) SCHED_MAX_TASKS :: nat where "SCHED_MAX_TASKS \<equiv> 16"
abbreviation (input) SCHED_TICK_PERIOD_US :: u32 where "SCHED_TICK_PERIOD_US \<equiv> 50000"
abbreviation (input) SCHED_QUANTUM_TICKS :: u32 where "SCHED_QUANTUM_TICKS \<equiv> 4"
abbreviation (input) SCHED_WAITPID_ANY :: int where "SCHED_WAITPID_ANY \<equiv> - 1"
abbreviation (input) SCHED_WAITPID_WNOHANG :: u32 where "SCHED_WAITPID_WNOHANG \<equiv> 1"
abbreviation (input) SCHED_WAITPID_NO_CHILD :: int where "SCHED_WAITPID_NO_CHILD \<equiv> - 1"
abbreviation (input) SCHED_WAITPID_BLOCKED :: int where "SCHED_WAITPID_BLOCKED \<equiv> - 2"

datatype task_state = T_UNUSED | T_RUNNABLE | T_RUNNING | T_SLEEPING | T_BLOCKED | T_ZOMBIE

datatype waitq = Rx_waitq | Child_waitq nat

record sched_task_slot = fdtable +
  tid :: u32
  state :: task_state
  wake_tick :: u32
  run_ticks :: u32
  task_arg :: nat
  used :: bool
  is_idle :: bool
  quantum_used :: u32
  parent_tid :: int
  exit_code :: u32
  entry :: "nat option"
  task_name :: string
  on_waitq :: "waitq option"

record sched =
  g_ticks :: u32
  g_need_resched :: bool
  g_tasks :: "nat \<Rightarrow> sched_task_slot"
  g_current_idx :: nat
  g_next_tid :: u32
  wq :: "waitq \<Rightarrow> u32"
  tick_timer_us :: u32

definition slot_zero :: sched_task_slot where
  "slot_zero = \<lparr>ofiles = \<lambda>_. ofile_free, fdtab = \<lambda>_. \<lparr>fe_used = False, fe_ofile_idx = 0, fe_fd_flags = 0\<rparr>,
     tid = 0, state = T_UNUSED, wake_tick = 0, run_ticks = 0, task_arg = 0, used = False,
     is_idle = False, quantum_used = 0, parent_tid = 0, exit_code = 0, entry = None,
     task_name = [], on_waitq = None\<rparr>"

definition upd_task :: "nat \<Rightarrow> (sched_task_slot \<Rightarrow> sched_task_slot) \<Rightarrow> 'a sched_scheme \<Rightarrow> 'a sched_scheme" where
  "upd_task i f s = s\<lparr>g_tasks := (g_tasks s)(i := f (g_tasks s i))\<rparr>"

definition resched :: "'a sched_scheme \<Rightarrow> 'a sched_scheme" where
  "resched s = s\<lparr>g_need_resched := True\<rparr>"

section \<open>Wait queues\<close>

definition waitq_set_bit :: "waitq \<Rightarrow> nat \<Rightarrow> 'a sched_scheme \<Rightarrow> 'a sched_scheme" where
  "waitq_set_bit q i s = s\<lparr>wq := (wq s)(q := wq s q OR push_bit (i mod 32) 1)\<rparr>"

definition waitq_clear_bit :: "waitq \<Rightarrow> nat \<Rightarrow> 'a sched_scheme \<Rightarrow> 'a sched_scheme" where
  "waitq_clear_bit q i s = s\<lparr>wq := (wq s)(q := wq s q AND NOT (push_bit (i mod 32) 1))\<rparr>"

definition waitq_test_bit :: "waitq \<Rightarrow> nat \<Rightarrow> 'a sched_scheme \<Rightarrow> bool" where
  "waitq_test_bit q i s = (drop_bit (i mod 32) (wq s q) AND 1 \<noteq> 0)"

definition sched_waitq_init :: "waitq \<Rightarrow> 'a sched_scheme \<Rightarrow> 'a sched_scheme" where
  "sched_waitq_init q s = s\<lparr>wq := (wq s)(q := 0)\<rparr>"

definition sched_clear_task :: "nat \<Rightarrow> 'a sched_scheme \<Rightarrow> 'a sched_scheme" where
  "sched_clear_task i s =
     s\<lparr>g_tasks := (g_tasks s)(i := slot_zero), wq := (wq s)(Child_waitq i := 0)\<rparr>"

definition sched_detach_waitq :: "nat \<Rightarrow> 'a sched_scheme \<Rightarrow> 'a sched_scheme" where
  "sched_detach_waitq i s =
     (case on_waitq (g_tasks s i) of
        None \<Rightarrow> s
      | Some q \<Rightarrow>
          let s = (if i < SCHED_MAX_TASKS then waitq_clear_bit q i s else s) in
          upd_task i (\<lambda>t. t\<lparr>on_waitq := None\<rparr>) s)"

section \<open>Choosing a task\<close>

definition sched_alloc_slot :: "'a sched_scheme \<Rightarrow> int" where
  "sched_alloc_slot s =
     (case List.find (\<lambda>i. \<not> used (g_tasks s i)) [1..<SCHED_MAX_TASKS] of None \<Rightarrow> - 1 | Some i \<Rightarrow> int i)"

definition sched_idx_runnable :: "nat \<Rightarrow> 'a sched_scheme \<Rightarrow> bool" where
  "sched_idx_runnable i s =
     (if i = 0 then False
      else if SCHED_MAX_TASKS \<le> i then False
      else if \<not> used (g_tasks s i) then False
      else state (g_tasks s i) = T_RUNNABLE)"

definition sched_pick_next_idx :: "'a sched_scheme \<Rightarrow> nat" where
  "sched_pick_next_idx s =
     (case List.find (\<lambda>off. sched_idx_runnable ((g_current_idx s + off) mod SCHED_MAX_TASKS) s)
             [1..<SCHED_MAX_TASKS + 1] of
        None \<Rightarrow> 0
      | Some off \<Rightarrow> (g_current_idx s + off) mod SCHED_MAX_TASKS)"

definition sched_current_slot :: "'a sched_scheme \<Rightarrow> nat option" where
  "sched_current_slot s =
     (if SCHED_MAX_TASKS \<le> g_current_idx s then None
      else if \<not> used (g_tasks s (g_current_idx s)) then None
      else Some (g_current_idx s))"

definition sched_current_tid :: "'a sched_scheme \<Rightarrow> int" where
  "sched_current_tid s =
     (case sched_current_slot s of None \<Rightarrow> - 1 | Some i \<Rightarrow> sint (tid (g_tasks s i)))"

definition sched_find_by_tid :: "u32 \<Rightarrow> 'a sched_scheme \<Rightarrow> nat option" where
  "sched_find_by_tid t s =
     (if t = 0 then Some 0
      else List.find (\<lambda>i. used (g_tasks s i) \<and> tid (g_tasks s i) = t) [1..<SCHED_MAX_TASKS])"

section \<open>Waking\<close>

text \<open>The four assignments that make a waiting slot runnable.\<close>

definition make_runnable :: "nat \<Rightarrow> 'a sched_scheme \<Rightarrow> 'a sched_scheme" where
  "make_runnable i s =
     resched (upd_task i (\<lambda>t. t\<lparr>wake_tick := 0, state := T_RUNNABLE, quantum_used := 0\<rparr>) (sched_detach_waitq i s))"

definition wake_sleeper :: "u32 \<Rightarrow> nat \<Rightarrow> 'a sched_scheme \<Rightarrow> 'a sched_scheme" where
  "wake_sleeper now i s =
     (let t = g_tasks s i in
      if \<not> used t then s
      else if state t \<noteq> T_SLEEPING \<and> state t \<noteq> T_BLOCKED then s
      else if wake_tick t = 0 \<or> now < wake_tick t then s
      else make_runnable i s)"

definition sched_try_wake_sleepers :: "u32 \<Rightarrow> 'a sched_scheme \<Rightarrow> 'a sched_scheme" where
  "sched_try_wake_sleepers now s = fold (wake_sleeper now) [0..<SCHED_MAX_TASKS] s"

definition sched_wake_slot :: "nat \<Rightarrow> 'a sched_scheme \<Rightarrow> 'a sched_scheme" where
  "sched_wake_slot i s =
     (let t = g_tasks s i in
      if \<not> used t \<or> is_idle t then s
      else if state t \<noteq> T_BLOCKED \<and> state t \<noteq> T_SLEEPING then s
      else make_runnable i s)"

definition sched_waitq_wake_one :: "waitq \<Rightarrow> 'a sched_scheme \<Rightarrow> 'a sched_scheme" where
  "sched_waitq_wake_one q s =
     (case List.find (\<lambda>i. waitq_test_bit q i s) [1..<SCHED_MAX_TASKS] of
        None \<Rightarrow> s | Some i \<Rightarrow> sched_wake_slot i s)"

definition sched_waitq_wake_all :: "waitq \<Rightarrow> 'a sched_scheme \<Rightarrow> 'a sched_scheme" where
  "sched_waitq_wake_all q s =
     fold (\<lambda>i s. if \<not> waitq_test_bit q i s then s else sched_wake_slot i s) [1..<SCHED_MAX_TASKS] s"

definition schedule_tick :: "'a sched_scheme \<Rightarrow> 'a sched_scheme" where
  "schedule_tick s =
     (let s = s\<lparr>g_ticks := g_ticks s + 1\<rparr>;
          s = sched_try_wake_sleepers (g_ticks s) s in
      if g_current_idx s < SCHED_MAX_TASKS then
        let t = g_tasks s (g_current_idx s) in
        if used t \<and> \<not> is_idle t \<and> state t = T_RUNNING then
          let s = upd_task (g_current_idx s) (\<lambda>t. t\<lparr>quantum_used := quantum_used t + 1\<rparr>) s in
          if SCHED_QUANTUM_TICKS \<le> quantum_used (g_tasks s (g_current_idx s)) then resched s else s
        else s
      else s)"

definition sched_ticks :: "'a sched_scheme \<Rightarrow> u32" where
  "sched_ticks s = g_ticks s"

definition sched_tick_period_us :: u32 where
  "sched_tick_period_us = SCHED_TICK_PERIOD_US"

section \<open>Life of a task\<close>

definition sched_spawn :: "string \<Rightarrow> nat option \<Rightarrow> nat \<Rightarrow> 'a sched_scheme \<Rightarrow> int \<times> 'a sched_scheme" where
  "sched_spawn nm ent ar s =
     (if ent = None then (- 1, s)
      else
        let idx = sched_alloc_slot s in
        if idx < 0 then (- 1, s)
        else
          let i = nat idx;
              s = upd_task i (\<lambda>t. t\<lparr>used := True, is_idle := False, entry := ent, task_name := nm, on_waitq := None\<rparr>) s;
              s = sched_waitq_init (Child_waitq i) s;
              s = upd_task i (\<lambda>t. t\<lparr>quantum_used := 0, exit_code := 0\<rparr>) s;
              par = (case sched_current_slot s of Some p \<Rightarrow> sint (tid (g_tasks s p)) | None \<Rightarrow> 0);
              new = g_next_tid s;
              s = s\<lparr>g_next_tid := (if new + 1 = 0 then 1 else new + 1)\<rparr>;
              s = upd_task i (\<lambda>t. t\<lparr>parent_tid := par, tid := new, state := T_RUNNABLE, wake_tick := 0,
                                   run_ticks := 0, task_arg := ar\<rparr>) s;
              s = upd_task i sched_fd_table_init_stdio s in
          (sint new, resched s))"

definition sched_init :: "nat \<Rightarrow> 'a sched_scheme \<Rightarrow> 'a sched_scheme" where
  "sched_init idle_entry s =
     (let s = fold sched_clear_task [0..<SCHED_MAX_TASKS] s;
          s = s\<lparr>g_ticks := 0, g_need_resched := False, g_current_idx := 0, g_next_tid := 1\<rparr>;
          s = upd_task 0 (\<lambda>t. t\<lparr>used := True, is_idle := True, entry := Some idle_entry, task_name := ''idle'',
                               parent_tid := - 1, exit_code := 0\<rparr>) s;
          s = sched_waitq_init (Child_waitq 0) s;
          s = upd_task 0 (\<lambda>t. t\<lparr>tid := 0, state := T_RUNNABLE, wake_tick := 0, run_ticks := 0, task_arg := 0\<rparr>) s;
          s = upd_task 0 sched_fd_table_init_stdio s in
      s\<lparr>tick_timer_us := SCHED_TICK_PERIOD_US\<rparr>)"

definition sched_yield :: "'a sched_scheme \<Rightarrow> 'a sched_scheme" where
  "sched_yield s =
     (case sched_current_slot s of None \<Rightarrow> s
      | Some i \<Rightarrow>
          let s = (if state (g_tasks s i) = T_RUNNING then upd_task i (\<lambda>t. t\<lparr>state := T_RUNNABLE\<rparr>) s else s) in
          resched (upd_task i (\<lambda>t. t\<lparr>quantum_used := 0\<rparr>) s))"

definition sched_exit_code :: "u32 \<Rightarrow> 'a sched_scheme \<Rightarrow> 'a sched_scheme" where
  "sched_exit_code code s =
     (case sched_current_slot s of None \<Rightarrow> s
      | Some i \<Rightarrow>
          if is_idle (g_tasks s i) then s
          else
            let s = sched_detach_waitq i s;
                s = upd_task i sched_slot_close_all_fds s;
                s = upd_task i (\<lambda>t. t\<lparr>exit_code := code, state := T_ZOMBIE, wake_tick := 0, quantum_used := 0\<rparr>) s;
                par = parent_tid (g_tasks s i);
                s = (if 0 \<le> par
                     then (case sched_find_by_tid (of_int par) s of None \<Rightarrow> s
                           | Some p \<Rightarrow> sched_waitq_wake_all (Child_waitq p) s)
                     else s) in
            resched s)"

definition sched_exit :: "'a sched_scheme \<Rightarrow> 'a sched_scheme" where
  "sched_exit = sched_exit_code 0"

definition sched_sleep_ticks :: "u32 \<Rightarrow> 'a sched_scheme \<Rightarrow> 'a sched_scheme" where
  "sched_sleep_ticks ticks s =
     (case sched_current_slot s of None \<Rightarrow> s
      | Some i \<Rightarrow>
          if is_idle (g_tasks s i) then s
          else resched (upd_task i (\<lambda>t. t\<lparr>wake_tick := g_ticks s + (if ticks \<noteq> 0 then ticks else 1),
                                         state := T_SLEEPING, quantum_used := 0\<rparr>) s))"

definition sched_waitq_sleep :: "waitq \<Rightarrow> u32 \<Rightarrow> 'a sched_scheme \<Rightarrow> 'a sched_scheme" where
  "sched_waitq_sleep q timeout s =
     (case sched_current_slot s of None \<Rightarrow> s
      | Some i \<Rightarrow>
          if is_idle (g_tasks s i) then s
          else
            let s = sched_detach_waitq i s;
                s = upd_task i (\<lambda>t. t\<lparr>on_waitq := Some q\<rparr>) s;
                s = waitq_set_bit q i s in
            resched (upd_task i (\<lambda>t. t\<lparr>state := T_BLOCKED,
                       wake_tick := (if timeout \<noteq> 0 then g_ticks s + timeout else 0), quantum_used := 0\<rparr>) s))"

definition sched_task_is_child_of :: "sched_task_slot \<Rightarrow> int \<Rightarrow> int \<Rightarrow> bool" where
  "sched_task_is_child_of t par pid =
     (if \<not> used t \<or> is_idle t then False
      else if parent_tid t \<noteq> par then False
      else if pid = SCHED_WAITPID_ANY then True
      else tid t = of_int pid)"

text \<open>The loop skips children that live; the first zombie is reaped. The status is what is stored
  through \<open>status_out\<close>.\<close>

definition sched_try_reap_child :: "int \<Rightarrow> int \<Rightarrow> 'a sched_scheme \<Rightarrow> int \<times> u32 option \<times> 'a sched_scheme" where
  "sched_try_reap_child par pid s =
     (case List.find (\<lambda>i. sched_task_is_child_of (g_tasks s i) par pid \<and> state (g_tasks s i) = T_ZOMBIE)
             [1..<SCHED_MAX_TASKS] of
        Some i \<Rightarrow>
          (sint (tid (g_tasks s i)), Some (push_bit 8 (exit_code (g_tasks s i) AND 0xFF)), sched_clear_task i s)
      | None \<Rightarrow>
          if \<not> list_ex (\<lambda>i. sched_task_is_child_of (g_tasks s i) par pid) [1..<SCHED_MAX_TASKS]
          then (SCHED_WAITPID_NO_CHILD, None, s)
          else (0, None, s))"

definition sched_waitpid :: "int \<Rightarrow> u32 \<Rightarrow> 'a sched_scheme \<Rightarrow> int \<times> u32 option \<times> 'a sched_scheme" where
  "sched_waitpid pid options s =
     (case sched_current_slot s of None \<Rightarrow> (SCHED_WAITPID_NO_CHILD, None, s)
      | Some i \<Rightarrow>
          if is_idle (g_tasks s i) then (SCHED_WAITPID_NO_CHILD, None, s)
          else
            (case sched_try_reap_child (sint (tid (g_tasks s i))) pid s of (rc, status, s) \<Rightarrow>
               if rc \<noteq> 0 then (rc, status, s)
               else if options AND SCHED_WAITPID_WNOHANG \<noteq> 0 then (0, status, s)
               else (SCHED_WAITPID_BLOCKED, status, sched_waitq_sleep (Child_waitq i) 0 s)))"

section \<open>Running tasks\<close>

definition run_begin :: "nat \<Rightarrow> 'a sched_scheme \<Rightarrow> 'a sched_scheme" where
  "run_begin i s = upd_task i (\<lambda>t. t\<lparr>state := T_RUNNING, run_ticks := run_ticks t + 1\<rparr>) s"

definition run_finish :: "nat \<Rightarrow> 'a sched_scheme \<Rightarrow> 'a sched_scheme" where
  "run_finish i s = (if state (g_tasks s i) = T_RUNNING then upd_task i (\<lambda>t. t\<lparr>state := T_RUNNABLE\<rparr>) s else s)"

definition run_slot :: "(nat \<Rightarrow> nat \<Rightarrow> nat \<Rightarrow> 'a sched_scheme \<Rightarrow> 'a sched_scheme) \<Rightarrow> nat \<Rightarrow> 'a sched_scheme \<Rightarrow> 'a sched_scheme" where
  "run_slot run i s =
     (let s = run_begin i s in
      run_finish i (run (the (entry (g_tasks s i))) i (task_arg (g_tasks s i)) s))"

definition sched_pump_once :: "(nat \<Rightarrow> nat \<Rightarrow> nat \<Rightarrow> 'a sched_scheme \<Rightarrow> 'a sched_scheme) \<Rightarrow> 'a sched_scheme \<Rightarrow> 'a sched_scheme" where
  "sched_pump_once run s =
     (let prev = g_current_idx s; next = sched_pick_next_idx s; t = g_tasks s next in
      if SCHED_MAX_TASKS \<le> next then s
      else if \<not> used t \<or> entry t = None \<or> state t \<noteq> T_RUNNABLE then s
      else (run_slot run next (s\<lparr>g_current_idx := next\<rparr>))\<lparr>g_current_idx := prev\<rparr>)"

text \<open>The loop of \<open>sched_block_until_runnable\<close>; \<open>irq k\<close> is what interrupts do before turn \<open>k\<close>.\<close>

partial_function (option) block_loop ::
  "(nat \<Rightarrow> nat \<Rightarrow> nat \<Rightarrow> 'a sched_scheme \<Rightarrow> 'a sched_scheme) \<Rightarrow> (nat \<Rightarrow> 'a sched_scheme \<Rightarrow> 'a sched_scheme)
   \<Rightarrow> nat \<Rightarrow> nat \<Rightarrow> 'a sched_scheme \<Rightarrow> 'a sched_scheme option" where
  "block_loop run irq i k s =
     (if used (g_tasks s i) \<and> (state (g_tasks s i) = T_BLOCKED \<or> state (g_tasks s i) = T_SLEEPING)
      then block_loop run irq i (Suc k) (sched_pump_once run (irq k s))
      else Some s)"

definition sched_block_until_runnable ::
  "(nat \<Rightarrow> nat \<Rightarrow> nat \<Rightarrow> 'a sched_scheme \<Rightarrow> 'a sched_scheme) \<Rightarrow> (nat \<Rightarrow> 'a sched_scheme \<Rightarrow> 'a sched_scheme)
   \<Rightarrow> 'a sched_scheme \<Rightarrow> 'a sched_scheme option" where
  "sched_block_until_runnable run irq s =
     (case sched_current_slot s of None \<Rightarrow> Some s
      | Some i \<Rightarrow> if is_idle (g_tasks s i) then Some s else block_loop run irq i 0 s)"

text \<open>One turn of the endless loop of \<open>sched_run\<close>.\<close>

definition sched_run_turn :: "(nat \<Rightarrow> nat \<Rightarrow> nat \<Rightarrow> 'a sched_scheme \<Rightarrow> 'a sched_scheme) \<Rightarrow> 'a sched_scheme \<Rightarrow> 'a sched_scheme" where
  "sched_run_turn run s =
     (let s = (if g_need_resched s \<or> \<not> sched_idx_runnable (g_current_idx s) s
               then (let s = s\<lparr>g_need_resched := False\<rparr> in s\<lparr>g_current_idx := sched_pick_next_idx s\<rparr>)
               else s);
          t = g_tasks s (g_current_idx s) in
      if \<not> used t \<or> entry t = None \<or> state t \<noteq> T_RUNNABLE then s\<lparr>g_need_resched := True\<rparr>
      else run_slot run (g_current_idx s) s)"

section \<open>Descriptors of the current task\<close>

definition on_current :: "'b \<Rightarrow> (sched_task_slot \<Rightarrow> 'b \<times> sched_task_slot) \<Rightarrow> 'a sched_scheme \<Rightarrow> 'b \<times> 'a sched_scheme" where
  "on_current bad f s =
     (case sched_current_slot s of None \<Rightarrow> (bad, s)
      | Some i \<Rightarrow> (case f (g_tasks s i) of (r, t) \<Rightarrow> (r, upd_task i (\<lambda>_. t) s)))"

definition query_current :: "'b \<Rightarrow> (sched_task_slot \<Rightarrow> 'b) \<Rightarrow> 'a sched_scheme \<Rightarrow> 'b" where
  "query_current bad f s =
     (case sched_current_slot s of None \<Rightarrow> bad | Some i \<Rightarrow> f (g_tasks s i))"

definition sched_fd_close :: "int \<Rightarrow> 'a sched_scheme \<Rightarrow> int \<times> 'a sched_scheme" where
  "sched_fd_close fd = on_current SCHED_FD_EBADF (\<lambda>t. sched_slot_close_fd t fd)"

definition sched_fd_dup :: "int \<Rightarrow> 'a sched_scheme \<Rightarrow> int \<times> 'a sched_scheme" where
  "sched_fd_dup fd = on_current SCHED_FD_EBADF (slot_fd_dup fd)"

definition sched_fd_dup2 :: "int \<Rightarrow> int \<Rightarrow> 'a sched_scheme \<Rightarrow> int \<times> 'a sched_scheme" where
  "sched_fd_dup2 oldfd newfd = on_current SCHED_FD_EBADF (slot_fd_dup2 oldfd newfd)"

definition sched_fd_open_special :: "u32 \<Rightarrow> u32 \<Rightarrow> 'a sched_scheme \<Rightarrow> int \<times> 'a sched_scheme" where
  "sched_fd_open_special sp flags = on_current SCHED_FD_EBADF (slot_fd_open_special sp flags)"

definition sched_fd_fcntl_setfd :: "int \<Rightarrow> u32 \<Rightarrow> 'a sched_scheme \<Rightarrow> int \<times> 'a sched_scheme" where
  "sched_fd_fcntl_setfd fd flags = on_current SCHED_FD_EBADF (slot_fcntl_setfd fd flags)"

definition sched_fd_fcntl_setfl :: "int \<Rightarrow> u32 \<Rightarrow> 'a sched_scheme \<Rightarrow> int \<times> 'a sched_scheme" where
  "sched_fd_fcntl_setfl fd flags = on_current SCHED_FD_EBADF (slot_fcntl_setfl fd flags)"

definition sched_fd_fcntl_getfd :: "int \<Rightarrow> bool \<Rightarrow> 'a sched_scheme \<Rightarrow> int \<times> u32 option" where
  "sched_fd_fcntl_getfd fd out =
     query_current (if out then SCHED_FD_EBADF else SCHED_FD_EINVAL, None) (slot_fcntl_getfd fd out)"

definition sched_fd_fcntl_getfl :: "int \<Rightarrow> bool \<Rightarrow> 'a sched_scheme \<Rightarrow> int \<times> u32 option" where
  "sched_fd_fcntl_getfl fd out =
     query_current (if out then SCHED_FD_EBADF else SCHED_FD_EINVAL, None) (slot_fcntl_getfl fd out)"

definition sched_fd_get_type :: "int \<Rightarrow> bool \<Rightarrow> 'a sched_scheme \<Rightarrow> int \<times> u32 option" where
  "sched_fd_get_type fd out =
     query_current (if out then SCHED_FD_EBADF else SCHED_FD_EINVAL, None) (slot_fd_get_type fd out)"

definition sched_fd_can_read :: "int \<Rightarrow> 'a sched_scheme \<Rightarrow> bool" where
  "sched_fd_can_read fd = query_current False (slot_fd_can_read fd)"

definition sched_fd_can_write :: "int \<Rightarrow> 'a sched_scheme \<Rightarrow> bool" where
  "sched_fd_can_write fd = query_current False (slot_fd_can_write fd)"

definition sched_fd_is_nonblock :: "int \<Rightarrow> 'a sched_scheme \<Rightarrow> bool" where
  "sched_fd_is_nonblock fd = query_current False (slot_fd_is_nonblock fd)"

definition sched_fd_is_open :: "int \<Rightarrow> 'a sched_scheme \<Rightarrow> bool" where
  "sched_fd_is_open fd = query_current False (slot_fd_is_open fd)"

definition sched_fd_is_stdin :: "int \<Rightarrow> 'a sched_scheme \<Rightarrow> bool" where
  "sched_fd_is_stdin fd = query_current False (slot_fd_is_stdin fd)"

definition sched_fd_is_tty :: "int \<Rightarrow> 'a sched_scheme \<Rightarrow> bool" where
  "sched_fd_is_tty fd = query_current False (slot_fd_is_tty fd)"

section \<open>The invariant\<close>

definition waiting :: "sched_task_slot \<Rightarrow> bool" where
  "waiting t \<longleftrightarrow> state t = T_BLOCKED \<or> state t = T_SLEEPING"

definition slot_ok :: "nat \<Rightarrow> sched_task_slot \<Rightarrow> bool" where
  "slot_ok i t \<longleftrightarrow>
     (i = 0 \<longrightarrow> used t \<and> is_idle t \<and> on_waitq t = None \<and> (state t = T_RUNNABLE \<or> state t = T_RUNNING))
     \<and> (i \<noteq> 0 \<longrightarrow> \<not> is_idle t) \<and> (used t \<longrightarrow> fd_ok t) \<and> (\<not> used t \<longrightarrow> on_waitq t = None)
     \<and> (on_waitq t \<noteq> None \<longrightarrow> waiting t) \<and> (\<forall>k. k \<noteq> i \<longrightarrow> on_waitq t \<noteq> Some (Child_waitq k))"

definition sched_ok :: "'a sched_scheme \<Rightarrow> bool" where
  "sched_ok s \<longleftrightarrow>
     g_current_idx s < SCHED_MAX_TASKS \<and> (\<forall>i < SCHED_MAX_TASKS. slot_ok i (g_tasks s i))
     \<and> (\<forall>q n. n < 32 \<longrightarrow> (bit (wq s q) n \<longleftrightarrow> n < SCHED_MAX_TASKS \<and> on_waitq (g_tasks s n) = Some q))"

text \<open>Slot \<open>i\<close> becomes \<open>t\<close>, its bits follow its queue, everything else the invariant reads stays.\<close>

definition slot_upd :: "nat \<Rightarrow> sched_task_slot \<Rightarrow> 'a sched_scheme \<Rightarrow> 'a sched_scheme \<Rightarrow> bool" where
  "slot_upd i t s s' \<longleftrightarrow>
     g_tasks s' = (g_tasks s)(i := t) \<and> g_current_idx s' = g_current_idx s \<and> g_ticks s' = g_ticks s
     \<and> (\<forall>q n. n < 32 \<longrightarrow> (bit (wq s' q) n \<longleftrightarrow> (if n = i then on_waitq t = Some q else bit (wq s q) n)))"

lemma sched_okD:
  assumes "sched_ok s"
  shows "g_current_idx s < 16" "i < 16 \<Longrightarrow> slot_ok i (g_tasks s i)"
    "i < 16 \<Longrightarrow> bit (wq s q) i \<longleftrightarrow> on_waitq (g_tasks s i) = Some q"
  using assms by (auto simp: sched_ok_def)

lemma slot_upd_ok: "slot_upd i t s s' \<Longrightarrow> sched_ok s \<Longrightarrow> i < 16 \<Longrightarrow> slot_ok i t \<Longrightarrow> sched_ok s'"
  by (auto simp: slot_upd_def sched_ok_def)

lemma slot_upd_trans: "slot_upd i t s s' \<Longrightarrow> slot_upd i u s' s'' \<Longrightarrow> slot_upd i u s s''"
  by (auto simp: slot_upd_def)

lemma slot_upd_task:
  assumes "sched_ok s" "i < 16" "on_waitq (f (g_tasks s i)) = on_waitq (g_tasks s i)"
  shows "slot_upd i (f (g_tasks s i)) s (upd_task i f s)"
  using assms sched_okD(3) [OF assms(1,2)] by (auto simp: slot_upd_def upd_task_def)

lemma slot_upd_resched [simp]: "slot_upd i t s (resched s') \<longleftrightarrow> slot_upd i t s s'"
  by (simp add: slot_upd_def resched_def)

lemma test_bit_iff: "i < 32 \<Longrightarrow> waitq_test_bit q i s \<longleftrightarrow> bit (wq s q) i"
  by (simp add: waitq_test_bit_def and_one_eq bit_iff_odd_drop_bit odd_iff_mod_2_eq_one)

lemma upd_task_simps [simp]:
  "g_tasks (upd_task i f s) i = f (g_tasks s i)" "j \<noteq> i \<Longrightarrow> g_tasks (upd_task i f s) j = g_tasks s j"
  "g_current_idx (upd_task i f s) = g_current_idx s" "g_ticks (upd_task i f s) = g_ticks s"
  "wq (upd_task i f s) = wq s" "g_need_resched (upd_task i f s) = g_need_resched s"
  by (simp_all add: upd_task_def)

lemma resched_simps [simp]:
  "g_tasks (resched s) = g_tasks s" "g_current_idx (resched s) = g_current_idx s" "g_ticks (resched s) = g_ticks s"
  "wq (resched s) = wq s"
  by (simp_all add: resched_def)

lemma sched_ok_resched [simp]: "sched_ok (resched s) = sched_ok s"
  by (simp add: sched_ok_def)

lemma detach_upd:
  assumes "sched_ok s" "i < 16"
  shows "slot_upd i ((g_tasks s i)\<lparr>on_waitq := None\<rparr>) s (sched_detach_waitq i s)"
proof (cases "on_waitq (g_tasks s i)")
  case None
  then have "(g_tasks s i)\<lparr>on_waitq := None\<rparr> = g_tasks s i" by simp
  then show ?thesis
    using None assms sched_okD(3) [OF assms] by (auto simp: sched_detach_waitq_def slot_upd_def)
next
  case (Some q)
  have "bit (wq s q') i \<longleftrightarrow> q' = q" for q' using sched_okD(3) [OF assms, of q'] Some by auto
  then show ?thesis
    using Some assms(2)
    by (auto simp: sched_detach_waitq_def slot_upd_def waitq_clear_bit_def upd_task_def Let_def
        bit_and_iff bit_not_iff bit_exp_iff)
qed

lemma make_runnable_upd:
  assumes "sched_ok s" "i < 16"
  shows "slot_upd i ((g_tasks s i)\<lparr>on_waitq := None, wake_tick := 0, state := T_RUNNABLE, quantum_used := 0\<rparr>) s
           (make_runnable i s)"
proof -
  note d = detach_upd [OF assms]
  show ?thesis
    using d unfolding make_runnable_def slot_upd_resched
    by (auto simp: slot_upd_def upd_task_def)
qed

lemma fd_ok_cong: "ofiles u = ofiles t \<Longrightarrow> fdtab u = fdtab t \<Longrightarrow> fd_ok u = fd_ok t"
  by (simp add: fd_ok_def refs_to_def)

lemma fd_ok_slot [simp]:
  "fd_ok (t\<lparr>on_waitq := q\<rparr>) = fd_ok t" "fd_ok (t\<lparr>state := st\<rparr>) = fd_ok t" "fd_ok (t\<lparr>wake_tick := n\<rparr>) = fd_ok t"
  "fd_ok (t\<lparr>quantum_used := n\<rparr>) = fd_ok t" "fd_ok (t\<lparr>run_ticks := n\<rparr>) = fd_ok t" "fd_ok (t\<lparr>exit_code := n\<rparr>) = fd_ok t"
  "fd_ok (t\<lparr>used := b\<rparr>) = fd_ok t" "fd_ok (t\<lparr>is_idle := b\<rparr>) = fd_ok t" "fd_ok (t\<lparr>tid := n\<rparr>) = fd_ok t"
  "fd_ok (t\<lparr>parent_tid := k\<rparr>) = fd_ok t" "fd_ok (t\<lparr>entry := e\<rparr>) = fd_ok t" "fd_ok (t\<lparr>task_name := nm\<rparr>) = fd_ok t"
  "fd_ok (t\<lparr>task_arg := ar\<rparr>) = fd_ok t"
  by (rule fd_ok_cong; simp)+


lemma slot_ok_idle: "slot_ok i t \<Longrightarrow> is_idle t \<longleftrightarrow> i = 0"
  by (cases "i = 0") (simp_all add: slot_ok_def)

lemma slot_ok_change:
  assumes "slot_ok i t" "used u = used t" "is_idle u = is_idle t" "on_waitq u = on_waitq t" "fd_ok u = fd_ok t"
    "on_waitq t \<noteq> None \<Longrightarrow> waiting u" "i = 0 \<Longrightarrow> state u = T_RUNNABLE \<or> state u = T_RUNNING"
  shows "slot_ok i u"
  using assms by (simp add: slot_ok_def)

lemma slot_ok_run:
  "slot_ok i t \<Longrightarrow> slot_ok i (t\<lparr>on_waitq := None, wake_tick := w, state := T_RUNNABLE, quantum_used := n\<rparr>)"
  by (auto simp: slot_ok_def)

lemma make_runnable_ok: "sched_ok s \<Longrightarrow> i < 16 \<Longrightarrow> sched_ok (make_runnable i s)"
  using make_runnable_upd slot_upd_ok slot_ok_run sched_okD(2) by blast

lemma wake_ok:
  "sched_ok s \<Longrightarrow> i < 16 \<Longrightarrow> sched_ok (wake_sleeper now i s)"
  "sched_ok s \<Longrightarrow> i < 16 \<Longrightarrow> sched_ok (sched_wake_slot i s)"
  by (simp_all add: wake_sleeper_def sched_wake_slot_def Let_def make_runnable_ok)

lemma wake_all_ok: "sched_ok s \<Longrightarrow> sched_ok (sched_waitq_wake_all q s)"
  unfolding sched_waitq_wake_all_def
  by (rule fold_invariant [where Q = "\<lambda>i. i < 16"]) (auto intro: wake_ok)

lemma wake_one_ok: "sched_ok s \<Longrightarrow> sched_ok (sched_waitq_wake_one q s)"
  by (auto simp: sched_waitq_wake_one_def find_Some_iff intro!: wake_ok split: option.splits)

lemma sched_ok_ticks [simp]: "sched_ok (s\<lparr>g_ticks := n\<rparr>) = sched_ok s"
  by (simp add: sched_ok_def)

text \<open>Changes of a slot that leave its queue alone.\<close>

lemma upd_task_ok:
  assumes "sched_ok s" "i < 16" "on_waitq (f (g_tasks s i)) = on_waitq (g_tasks s i)" "slot_ok i (f (g_tasks s i))"
  shows "sched_ok (upd_task i f s)"
  using slot_upd_ok [OF slot_upd_task [where f = f, OF assms(1-3)] assms(1,2,4)] .

lemma tick_ok: "sched_ok s \<Longrightarrow> sched_ok (schedule_tick s)"
proof -
  assume ok: "sched_ok s"
  let ?u = "sched_try_wake_sleepers (g_ticks s + 1) (s\<lparr>g_ticks := g_ticks s + 1\<rparr>)"
  have u: "sched_ok ?u" unfolding sched_try_wake_sleepers_def
    by (rule fold_invariant [where Q = "\<lambda>i. i < 16"]) (use ok wake_ok in auto)
  then have "slot_ok (g_current_idx ?u) (g_tasks ?u (g_current_idx ?u))" "g_current_idx ?u < 16"
    using sched_okD by blast+
  then have "sched_ok (upd_task (g_current_idx ?u) (\<lambda>t. t\<lparr>quantum_used := quantum_used t + 1\<rparr>) ?u)"
    using u by (intro upd_task_ok) (auto simp: slot_ok_def waiting_def)
  then show ?thesis using u by (simp add: schedule_tick_def Let_def)
qed

lemma current_slot: "sched_current_slot s = Some i \<Longrightarrow> i < 16 \<and> used (g_tasks s i) \<and> i = g_current_idx s"
  by (auto simp: sched_current_slot_def split: if_splits)

lemma yield_ok: "sched_ok s \<Longrightarrow> sched_ok (sched_yield s)"
proof (cases "sched_current_slot s")
  case (Some i)
  assume ok: "sched_ok s"
  have i: "i < 16" "slot_ok i (g_tasks s i)" using current_slot [OF Some] sched_okD(2) [OF ok] by auto
  have "sched_ok (if state (g_tasks s i) = T_RUNNING then upd_task i (\<lambda>t. t\<lparr>state := T_RUNNABLE\<rparr>) s else s)" (is "sched_ok ?u")
    using ok i by (auto intro!: upd_task_ok simp: slot_ok_def waiting_def)
  moreover have "slot_ok i (g_tasks ?u i)" using sched_okD(2) [OF calculation] i(1) .
  ultimately have "sched_ok (upd_task i (\<lambda>t. t\<lparr>quantum_used := 0\<rparr>) ?u)"
    using i(1) by (intro upd_task_ok) (auto simp: slot_ok_def waiting_def)
  then show ?thesis using Some by (simp add: sched_yield_def Let_def)
qed (simp add: sched_yield_def)

lemma sleep_ticks_ok: "sched_ok s \<Longrightarrow> sched_ok (sched_sleep_ticks n s)"
proof (cases "sched_current_slot s")
  case (Some i)
  assume ok: "sched_ok s"
  have i: "i < 16" "slot_ok i (g_tasks s i)" using current_slot [OF Some] sched_okD(2) [OF ok] by auto
  have "sched_ok (upd_task i (\<lambda>t. t\<lparr>wake_tick := w, state := T_SLEEPING, quantum_used := 0\<rparr>) s)"
    if "\<not> is_idle (g_tasks s i)" for w
  proof (rule upd_task_ok [OF ok i(1)])
    show "slot_ok i ((g_tasks s i)\<lparr>wake_tick := w, state := T_SLEEPING, quantum_used := 0\<rparr>)"
      using i(2) that slot_ok_idle [OF i(2)] by (intro slot_ok_change [OF i(2)]) (simp_all add: waiting_def)
  qed simp
  then show ?thesis using ok Some by (simp add: sched_sleep_ticks_def)
qed (simp add: sched_sleep_ticks_def)

lemma waitq_sleep_upd:
  assumes "sched_ok s" "sched_current_slot s = Some i" "\<not> is_idle (g_tasks s i)"
  shows "slot_upd i ((g_tasks s i)\<lparr>on_waitq := Some q, state := T_BLOCKED,
           wake_tick := (if n \<noteq> 0 then g_ticks s + n else 0), quantum_used := 0\<rparr>) s (sched_waitq_sleep q n s)"
proof -
  have i: "i < 16" using current_slot [OF assms(2)] by blast
  let ?u = "sched_detach_waitq i s"
  have d: "g_tasks ?u = (g_tasks s)(i := (g_tasks s i)\<lparr>on_waitq := None\<rparr>)" "g_current_idx ?u = g_current_idx s"
    "g_ticks ?u = g_ticks s" "\<forall>q n. n < 32 \<longrightarrow> (bit (wq ?u q) n \<longleftrightarrow> n \<noteq> i \<and> bit (wq s q) n)"
    using detach_upd [OF assms(1) i] by (auto simp: slot_upd_def)
  show ?thesis
    using assms(2,3) i d
    by (auto simp: sched_waitq_sleep_def Let_def slot_upd_def waitq_set_bit_def upd_task_def bit_or_iff bit_exp_iff)
qed

lemma waitq_sleep_ok:
  assumes "sched_ok s" "\<And>k. q = Child_waitq k \<Longrightarrow> k = g_current_idx s"
  shows "sched_ok (sched_waitq_sleep q n s)"
proof (cases "\<exists>i. sched_current_slot s = Some i \<and> \<not> is_idle (g_tasks s i)")
  case True
  then obtain i where i: "sched_current_slot s = Some i" "\<not> is_idle (g_tasks s i)" by blast
  have c: "i < 16" "used (g_tasks s i)" "i = g_current_idx s" using current_slot [OF i(1)] by auto
  have ok: "slot_ok i (g_tasks s i)" using sched_okD(2) [OF assms(1) c(1)] .
  then have "i \<noteq> 0" using i(2) slot_ok_idle by blast
  with ok have "slot_ok i ((g_tasks s i)\<lparr>on_waitq := Some q, state := T_BLOCKED,
      wake_tick := (if n \<noteq> 0 then g_ticks s + n else 0), quantum_used := 0\<rparr>)"
    using i(2) c(2,3) assms(2) by (auto simp: slot_ok_def waiting_def)
  then show ?thesis using slot_upd_ok [OF waitq_sleep_upd [OF assms(1) i] assms(1) c(1)] by blast
qed (use assms(1) in \<open>auto simp: sched_waitq_sleep_def split: option.splits\<close>)

lemma fd_table_fields [simp]:
  "used (sched_fd_table_clear t) = used t" "is_idle (sched_fd_table_clear t) = is_idle t"
  "on_waitq (sched_fd_table_clear t) = on_waitq t" "state (sched_fd_table_clear t) = state t"
  "tid (sched_fd_table_clear t) = tid t" "parent_tid (sched_fd_table_clear t) = parent_tid t"
  "used (sched_fd_table_init_stdio t) = used t" "is_idle (sched_fd_table_init_stdio t) = is_idle t"
  "on_waitq (sched_fd_table_init_stdio t) = on_waitq t" "state (sched_fd_table_init_stdio t) = state t"
  by (simp_all add: sched_fd_table_clear_def sched_fd_table_init_stdio_def stdio_entry_def)

declare clear_ok [simp] init_stdio_ok [simp]

text \<open>The exiting slot: off its queue, without descriptors, a zombie.\<close>

definition exited :: "u32 \<Rightarrow> sched_task_slot \<Rightarrow> sched_task_slot" where
  "exited code t = (sched_fd_table_clear (t\<lparr>on_waitq := None\<rparr>))
     \<lparr>exit_code := code, state := T_ZOMBIE, wake_tick := 0, quantum_used := 0\<rparr>"

lemma exit_code_shape:
  assumes "sched_ok s" "sched_current_slot s = Some i" "\<not> is_idle (g_tasks s i)"
  obtains u where "slot_upd i (exited code (g_tasks s i)) s u"
    "sched_exit_code code s = resched (if 0 \<le> parent_tid (g_tasks s i)
       then (case sched_find_by_tid (of_int (parent_tid (g_tasks s i))) u of None \<Rightarrow> u
             | Some p \<Rightarrow> sched_waitq_wake_all (Child_waitq p) u) else u)"
proof -
  have i: "i < 16" "used (g_tasks s i)" "slot_ok i (g_tasks s i)"
    using current_slot [OF assms(2)] sched_okD(2) [OF assms(1)] by auto
  let ?d = "sched_detach_waitq i s"
  let ?u = "upd_task i (\<lambda>t. t\<lparr>exit_code := code, state := T_ZOMBIE, wake_tick := 0, quantum_used := 0\<rparr>)
    (upd_task i sched_slot_close_all_fds ?d)"
  note d = detach_upd [OF assms(1) i(1)]
  then have gi: "g_tasks ?d i = (g_tasks s i)\<lparr>on_waitq := None\<rparr>" by (simp add: slot_upd_def)
  have "fd_ok (g_tasks s i)" using i(2,3) by (simp add: slot_ok_def)
  then have cl: "sched_slot_close_all_fds (g_tasks ?d i) = sched_fd_table_clear ((g_tasks s i)\<lparr>on_waitq := None\<rparr>)"
    unfolding gi by (intro close_all_clears) simp
  have "slot_upd i (exited code (g_tasks s i)) s ?u"
    using d cl by (auto simp: slot_upd_def upd_task_def exited_def)
  moreover have "parent_tid (g_tasks ?u i) = parent_tid (g_tasks s i)" using cl by simp
  then have "sched_exit_code code s = resched (if 0 \<le> parent_tid (g_tasks s i)
       then (case sched_find_by_tid (of_int (parent_tid (g_tasks s i))) ?u of None \<Rightarrow> ?u
             | Some p \<Rightarrow> sched_waitq_wake_all (Child_waitq p) ?u) else ?u)"
    using assms(2,3) unfolding sched_exit_code_def Let_def by simp
  ultimately show ?thesis by (rule that)
qed

lemma exited_ok:
  assumes "sched_ok s" "sched_current_slot s = Some i" "\<not> is_idle (g_tasks s i)"
  shows "slot_ok i (exited code (g_tasks s i))"
proof -
  have c: "slot_ok i (g_tasks s i)" using current_slot [OF assms(2)] sched_okD(2) [OF assms(1)] by auto
  then show ?thesis using slot_ok_idle [OF c] assms(3) by (simp add: slot_ok_def exited_def)
qed

lemma exit_ok: "sched_ok s \<Longrightarrow> sched_ok (sched_exit_code code s)"
proof (cases "\<exists>i. sched_current_slot s = Some i \<and> \<not> is_idle (g_tasks s i)")
  case True
  assume ok: "sched_ok s"
  from True obtain i where i: "sched_current_slot s = Some i" "\<not> is_idle (g_tasks s i)" by blast
  have c: "i < 16" "slot_ok i (g_tasks s i)" using current_slot [OF i(1)] sched_okD(2) [OF ok] by auto
  obtain u where u: "slot_upd i (exited code (g_tasks s i)) s u"
    "sched_exit_code code s = resched (if 0 \<le> parent_tid (g_tasks s i)
       then (case sched_find_by_tid (of_int (parent_tid (g_tasks s i))) u of None \<Rightarrow> u
             | Some p \<Rightarrow> sched_waitq_wake_all (Child_waitq p) u) else u)"
    by (rule exit_code_shape [OF ok i])
  have "sched_ok u" using slot_upd_ok [OF u(1) ok c(1)] exited_ok [OF ok i] by blast
  then show ?thesis using u(2) by (simp add: wake_all_ok split: option.split)
qed (auto simp: sched_exit_code_def split: option.splits)

text \<open>A new slot.\<close>

lemma child_queue_empty:
  assumes "sched_ok s" "i < 16" "on_waitq (g_tasks s i) = None" "n < 32"
  shows "\<not> bit (wq s (Child_waitq i)) n"
proof (cases "n < 16")
  case True
  then show ?thesis
    using sched_okD(3) [OF assms(1) True, of "Child_waitq i"] sched_okD(2) [OF assms(1) True] assms(3)
    by (cases "n = i") (auto simp: slot_ok_def)
qed (use assms in \<open>auto simp: sched_ok_def\<close>)

lemma alloc_slot:
  assumes "0 \<le> sched_alloc_slot s"
  shows "0 < nat (sched_alloc_slot s)" "nat (sched_alloc_slot s) < 16" "\<not> used (g_tasks s (nat (sched_alloc_slot s)))"
proof -
  have "List.find (\<lambda>i. \<not> used (g_tasks s i)) [1..<16] = Some (nat (sched_alloc_slot s))"
    using assms by (auto simp: sched_alloc_slot_def split: option.splits)
  then show "0 < nat (sched_alloc_slot s)" "nat (sched_alloc_slot s) < 16" "\<not> used (g_tasks s (nat (sched_alloc_slot s)))"
    by (auto simp: find_Some_iff)
qed

lemma new_slot_upd:
  assumes "sched_ok s" "i < 16" "on_waitq (g_tasks s i) = None" "on_waitq t = None"
    "g_tasks s' = (g_tasks s)(i := t)" "g_current_idx s' = g_current_idx s" "g_ticks s' = g_ticks s"
    "wq s' = (wq s)(Child_waitq i := 0)"
  shows "slot_upd i t s s'"
  using assms child_queue_empty [OF assms(1-3)] sched_okD(3) [OF assms(1,2)]
  by (auto simp: slot_upd_def)

lemma spawn_ok:
  assumes "sched_ok s"
  shows "sched_ok (snd (sched_spawn nm ent ar s))"
proof (cases "ent = None \<or> sched_alloc_slot s < 0")
  case False
  then obtain e where e: "ent = Some e" by auto
  let ?i = "nat (sched_alloc_slot s)" and ?s = "snd (sched_spawn nm ent ar s)"
  have i: "0 < ?i" "?i < 16" "\<not> used (g_tasks s ?i)" using False alloc_slot [of s] by auto
  have ok: "slot_ok ?i (g_tasks s ?i)" using sched_okD(2) [OF assms i(2)] .
  have none: "on_waitq (g_tasks s ?i) = None" using ok i(3) by (simp add: slot_ok_def)
  let ?t = "g_tasks ?s ?i"
  have t: "used ?t" "\<not> is_idle ?t" "on_waitq ?t = None" "fd_ok ?t"
    using False e by (simp_all add: sched_spawn_def Let_def upd_task_def sched_waitq_init_def)
  then have "slot_ok ?i ?t" using i(1) by (simp add: slot_ok_def)
  moreover have "slot_upd ?i ?t s ?s"
    by (rule new_slot_upd [OF assms i(2) none t(3)])
       (use False e in \<open>simp_all add: sched_spawn_def Let_def upd_task_def sched_waitq_init_def resched_def\<close>)
  ultimately show ?thesis using slot_upd_ok assms i(2) by blast
qed (auto simp: sched_spawn_def Let_def assms)

lemma clear_task_ok:
  assumes "sched_ok s" "0 < i" "i < 16" "on_waitq (g_tasks s i) = None"
  shows "sched_ok (sched_clear_task i s)"
proof (rule slot_upd_ok [OF new_slot_upd [OF assms(1,3,4), of slot_zero] assms(1,3)])
  show "slot_ok i slot_zero" using assms(2) by (simp add: slot_ok_def slot_zero_def)
qed (simp_all add: sched_clear_task_def slot_zero_def)

lemma reap_ok: "sched_ok s \<Longrightarrow> sched_ok (snd (snd (sched_try_reap_child par pid s)))"
proof (cases "List.find (\<lambda>i. sched_task_is_child_of (g_tasks s i) par pid \<and> state (g_tasks s i) = T_ZOMBIE) [1..<16]")
  case (Some i)
  assume ok: "sched_ok s"
  have i: "0 < i" "i < 16" "state (g_tasks s i) = T_ZOMBIE" using Some by (auto simp: find_Some_iff)
  then have "on_waitq (g_tasks s i) = None" using sched_okD(2) [OF ok i(2)] by (auto simp: slot_ok_def waiting_def)
  then show ?thesis using clear_task_ok [OF ok i(1,2)] Some by (simp add: sched_try_reap_child_def)
qed (simp add: sched_try_reap_child_def)

lemma reap_current [simp]: "g_current_idx (snd (snd (sched_try_reap_child par pid s))) = g_current_idx s"
  by (simp add: sched_try_reap_child_def sched_clear_task_def split: option.split)

lemma waitpid_ok:
  assumes "sched_ok s"
  shows "sched_ok (snd (snd (sched_waitpid pid options s)))"
proof (cases "sched_current_slot s")
  case (Some i)
  obtain rc st u where r: "sched_try_reap_child (sint (tid (g_tasks s i))) pid s = (rc, st, u)"
    by (cases "sched_try_reap_child (sint (tid (g_tasks s i))) pid s")
  have "sched_ok u" "g_current_idx u = g_current_idx s"
    using reap_ok [OF assms, of "sint (tid (g_tasks s i))" pid] reap_current [of "sint (tid (g_tasks s i))" pid s] r by simp_all
  then show ?thesis
    using Some r assms current_slot [OF Some] waitq_sleep_ok [of u "Child_waitq i" 0]
    by (simp add: sched_waitpid_def)
qed (simp add: sched_waitpid_def assms)

text \<open>The descriptor operations touch the two tables of a slot and none of its other fields.\<close>

lemma same_more:
  assumes "fdtable.more u = fdtable.more (t :: sched_task_slot)"
  shows "used u = used t" "is_idle u = is_idle t" "on_waitq u = on_waitq t" "state u = state t"
    "tid u = tid t" "parent_tid u = parent_tid t" "wake_tick u = wake_tick t" "exit_code u = exit_code t"
  using assms by (cases u; cases t; simp)+

lemma fd_ops_more [simp]:
  "fdtable.more (snd (sched_slot_close_fd t a)) = fdtable.more t"
  "fdtable.more (share_ofile j n t) = fdtable.more t"
  "fdtable.more (snd (slot_fd_dup a t)) = fdtable.more t"
  "fdtable.more (snd (slot_fd_dup2 a b t)) = fdtable.more t"
  "fdtable.more (snd (slot_fd_open_special sp fl t)) = fdtable.more t"
  "fdtable.more (snd (slot_fcntl_setfd a fl t)) = fdtable.more t"
  "fdtable.more (snd (slot_fcntl_setfl a fl t)) = fdtable.more t"
proof -
  have c: "fdtable.more (snd (sched_slot_close_fd t a)) = fdtable.more t" for t :: "'a fdtable_scheme" and a
    by (simp add: sched_slot_close_fd_def split: option.split)
  have sh: "fdtable.more (share_ofile j n t) = fdtable.more t" for t :: "'a fdtable_scheme" and j n
    by (simp add: share_ofile_def)
  show "fdtable.more (snd (sched_slot_close_fd t a)) = fdtable.more t" "fdtable.more (share_ofile j n t) = fdtable.more t"
    by (rule c, rule sh)
  show "fdtable.more (snd (slot_fd_dup a t)) = fdtable.more t" "fdtable.more (snd (slot_fd_dup2 a b t)) = fdtable.more t"
    by (simp_all add: slot_fd_dup_def slot_fd_dup2_def Let_def c sh split: option.split)
  show "fdtable.more (snd (slot_fd_open_special sp fl t)) = fdtable.more t"
    "fdtable.more (snd (slot_fcntl_setfd a fl t)) = fdtable.more t" "fdtable.more (snd (slot_fcntl_setfl a fl t)) = fdtable.more t"
    by (simp_all add: slot_fd_open_special_def slot_fcntl_setfd_def slot_fcntl_setfl_def Let_def split: option.split)
qed

lemma on_current_ok:
  assumes "sched_ok s" "\<And>t. fd_ok t \<Longrightarrow> fd_ok (snd (f t))" "\<And>t. fdtable.more (snd (f t)) = fdtable.more t"
  shows "sched_ok (snd (on_current bad f s))"
proof (cases "sched_current_slot s")
  case (Some i)
  have i: "i < 16" "used (g_tasks s i)" "slot_ok i (g_tasks s i)"
    using current_slot [OF Some] sched_okD(2) [OF assms(1)] by auto
  let ?t = "g_tasks s i" and ?u = "snd (f (g_tasks s i))"
  note m = same_more [OF assms(3) [of ?t]]
  have "fd_ok ?t" using i by (simp add: slot_ok_def)
  then have "fd_ok ?u" by (rule assms(2))
  moreover have "waiting ?u = waiting ?t" by (simp add: waiting_def m)
  ultimately have "slot_ok i ?u"
    using i m \<open>fd_ok ?t\<close> by (intro slot_ok_change [OF i(3)]) (auto simp: slot_ok_def)
  then have "sched_ok (upd_task i (\<lambda>_. ?u) s)" by (intro upd_task_ok [OF assms(1) i(1)]) (auto simp: m)
  then show ?thesis using Some by (cases "f ?t") (simp add: on_current_def)
qed (simp add: on_current_def assms(1))

lemma fd_ops_sched_ok:
  assumes "sched_ok s"
  shows "sched_ok (snd (sched_fd_close a s))" "sched_ok (snd (sched_fd_dup a s))" "sched_ok (snd (sched_fd_dup2 a b s))"
    "sched_ok (snd (sched_fd_open_special sp fl s))" "sched_ok (snd (sched_fd_fcntl_setfd a fl s))"
    "sched_ok (snd (sched_fd_fcntl_setfl a fl s))"
  unfolding sched_fd_close_def sched_fd_dup_def sched_fd_dup2_def sched_fd_open_special_def
    sched_fd_fcntl_setfd_def sched_fd_fcntl_setfl_def
  by (auto intro!: on_current_ok assms close_fd_ok dup_ok dup2_ok open_special_ok setfd_ok setfl_ok)

section \<open>Start\<close>

lemma fold_clear:
  "g_tasks (fold sched_clear_task [0..<n] s) = (\<lambda>i. if i < n then slot_zero else g_tasks s i)"
  "wq (fold sched_clear_task [0..<n] s) = (\<lambda>q. if \<exists>k < n. q = Child_waitq k then 0 else wq s q)"
  by (induction n) (auto simp: sched_clear_task_def fun_eq_iff less_Suc_eq)

lemma init_ok:
  assumes "\<And>q. wq s q = 0"
  shows "sched_ok (sched_init e s)"
proof -
  let ?s = "sched_init e s"
  have g: "g_tasks ?s i = (if i = 0 then g_tasks ?s 0 else slot_zero)" if "i < 16" for i
    using that by (simp add: sched_init_def Let_def fold_clear upd_task_def sched_waitq_init_def)
  have w: "wq ?s q = 0" for q
    using assms by (simp add: sched_init_def Let_def fold_clear upd_task_def sched_waitq_init_def)
  have z: "slot_ok 0 (g_tasks ?s 0)" "g_current_idx ?s = 0" "on_waitq (g_tasks ?s 0) = None"
    by (simp_all add: sched_init_def Let_def upd_task_def sched_waitq_init_def slot_ok_def slot_zero_def fold_clear)
  have s: "slot_ok i slot_zero" if "i \<noteq> 0" for i using that by (simp add: slot_ok_def slot_zero_def)
  have "slot_ok i (g_tasks ?s i)" if "i < 16" for i using g [OF that] z(1) s by (cases "i = 0") auto
  moreover have "on_waitq (g_tasks ?s i) = None" if "i < 16" for i
    using g [OF that] z(3) by (cases "i = 0") (auto simp: slot_zero_def)
  ultimately show ?thesis using z(2) w by (auto simp: sched_ok_def)
qed

section \<open>Steps\<close>

text \<open>What the running task and the interrupt handlers may do to the scheduler. A task that blocks in
  a system call pumps the scheduler: other tasks run, and may block, before it goes on.\<close>

inductive op_step :: "'a sched_scheme \<Rightarrow> 'a sched_scheme \<Rightarrow> bool" where
  spawn: "op_step s (snd (sched_spawn nm e ar s))"
| yield: "op_step s (sched_yield s)"
| exit: "op_step s (sched_exit_code code s)"
| sleep: "op_step s (sched_sleep_ticks n s)"
| rx_sleep: "op_step s (sched_waitq_sleep Rx_waitq n s)"
| wake_one: "op_step s (sched_waitq_wake_one q s)"
| wake_all: "op_step s (sched_waitq_wake_all q s)"
| waitpid: "op_step s (snd (snd (sched_waitpid pid options s)))"
| tick: "op_step s (schedule_tick s)"
| close: "op_step s (snd (sched_fd_close a s))"
| dup: "op_step s (snd (sched_fd_dup a s))"
| dup2: "op_step s (snd (sched_fd_dup2 a b s))"
| open_special: "op_step s (snd (sched_fd_open_special sp fl s))"
| setfd: "op_step s (snd (sched_fd_fcntl_setfd a fl s))"
| setfl: "op_step s (snd (sched_fd_fcntl_setfl a fl s))"
| pumped: "used (g_tasks s (sched_pick_next_idx s)) \<Longrightarrow> state (g_tasks s (sched_pick_next_idx s)) = T_RUNNABLE
    \<Longrightarrow> op_step\<^sup>*\<^sup>* (run_begin (sched_pick_next_idx s) (s\<lparr>g_current_idx := sched_pick_next_idx s\<rparr>)) u
    \<Longrightarrow> op_step s ((run_finish (sched_pick_next_idx s) u)\<lparr>g_current_idx := g_current_idx s\<rparr>)"

text \<open>The scheduler loop: a turn of \<open>sched_run\<close> or \<open>sched_pump_once\<close>, or an operation in between.\<close>

inductive sched_step ::
  "(nat \<Rightarrow> nat \<Rightarrow> nat \<Rightarrow> 'a sched_scheme \<Rightarrow> 'a sched_scheme) \<Rightarrow> 'a sched_scheme \<Rightarrow> 'a sched_scheme \<Rightarrow> bool"
  for run where
  run_turn: "sched_step run s (sched_run_turn run s)"
| pump: "sched_step run s (sched_pump_once run s)"
| op: "op_step s s' \<Longrightarrow> sched_step run s s'"

lemma rx_sleep_ok: "sched_ok s \<Longrightarrow> sched_ok (sched_waitq_sleep Rx_waitq n s)"
  by (rule waitq_sleep_ok) simp_all

lemma pick_next_less [simp]: "sched_pick_next_idx s < 16"
  by (simp add: sched_pick_next_idx_def split: option.split)

lemma sched_ok_current [simp]: "sched_ok s \<Longrightarrow> i < 16 \<Longrightarrow> sched_ok (s\<lparr>g_current_idx := i\<rparr>)"
  by (simp add: sched_ok_def)

lemma sched_ok_flag [simp]: "sched_ok (s\<lparr>g_need_resched := b\<rparr>) = sched_ok s"
  by (simp add: sched_ok_def)

lemma slot_off_queue: "slot_ok i t \<Longrightarrow> state t = T_RUNNABLE \<or> state t = T_RUNNING \<Longrightarrow> on_waitq t = None"
  by (auto simp: slot_ok_def waiting_def)

lemma run_begin_ok:
  assumes "sched_ok s" "i < 16" "state (g_tasks s i) = T_RUNNABLE"
  shows "sched_ok (run_begin i s)"
proof -
  have i: "slot_ok i (g_tasks s i)" using sched_okD(2) [OF assms(1,2)] .
  show ?thesis unfolding run_begin_def
  proof (rule upd_task_ok [OF assms(1,2)])
    show "slot_ok i ((g_tasks s i)\<lparr>state := T_RUNNING, run_ticks := run_ticks (g_tasks s i) + 1\<rparr>)"
      using slot_off_queue [OF i] assms(3) by (intro slot_ok_change [OF i]) simp_all
  qed simp
qed

lemma run_finish_ok:
  assumes "sched_ok s" "i < 16"
  shows "sched_ok (run_finish i s)"
proof (cases "state (g_tasks s i) = T_RUNNING")
  case True
  have i: "slot_ok i (g_tasks s i)" using sched_okD(2) [OF assms] .
  have "sched_ok (upd_task i (\<lambda>t. t\<lparr>state := T_RUNNABLE\<rparr>) s)"
  proof (rule upd_task_ok [OF assms])
    show "slot_ok i ((g_tasks s i)\<lparr>state := T_RUNNABLE\<rparr>)"
      using slot_off_queue [OF i] True by (intro slot_ok_change [OF i]) simp_all
  qed simp
  then show ?thesis using True by (simp add: run_finish_def)
qed (simp add: run_finish_def assms(1))

lemma rtranclp_keeps: "(\<lambda>a b. R a b \<and> (P a \<longrightarrow> P b))\<^sup>*\<^sup>* s u \<Longrightarrow> P s \<Longrightarrow> P u"
  by (induction rule: rtranclp_induct) auto

lemma op_step_ok: "op_step s s' \<Longrightarrow> sched_ok s \<Longrightarrow> sched_ok s'"
proof (induction rule: op_step.induct)
  case (pumped s u)
  let ?n = "sched_pick_next_idx s"
  have "sched_ok (run_begin ?n (s\<lparr>g_current_idx := ?n\<rparr>))"
    using pumped by (intro run_begin_ok) simp_all
  then have "sched_ok u" using rtranclp_keeps [OF pumped.IH(1)] by blast
  then show ?case using sched_okD(1) [OF pumped.prems] by (simp add: run_finish_ok)
qed (simp_all add: spawn_ok yield_ok exit_ok sleep_ticks_ok rx_sleep_ok wake_one_ok wake_all_ok waitpid_ok
       tick_ok fd_ops_sched_ok)

lemma op_steps_ok: "op_step\<^sup>*\<^sup>* s s' \<Longrightarrow> sched_ok s \<Longrightarrow> sched_ok s'"
  by (induction rule: rtranclp_induct) (auto intro: op_step_ok)

lemma run_slot_ok:
  assumes "sched_ok s" "i < 16" "state (g_tasks s i) = T_RUNNABLE" "\<And>e i ar s. op_step\<^sup>*\<^sup>* s (run e i ar s)"
  shows "sched_ok (run_slot run i s)"
  using op_steps_ok [OF assms(4) run_begin_ok [OF assms(1-3)]] assms(2)
  by (simp add: run_slot_def Let_def run_finish_ok)

lemma sched_step_ok:
  assumes "sched_step run s s'" "sched_ok s" "\<And>e i ar s. op_step\<^sup>*\<^sup>* s (run e i ar s)"
  shows "sched_ok s'"
  using assms(1,2)
proof (induction rule: sched_step.induct)
  case (run_turn s)
  let ?u = "if g_need_resched s \<or> \<not> sched_idx_runnable (g_current_idx s) s
    then (let s = s\<lparr>g_need_resched := False\<rparr> in s\<lparr>g_current_idx := sched_pick_next_idx s\<rparr>) else s"
  have u: "sched_ok ?u" using run_turn by (simp add: Let_def)
  then have "g_current_idx ?u < 16" by (rule sched_okD(1))
  then show ?case
    using u run_slot_ok [OF u _ _ assms(3)] unfolding sched_run_turn_def Let_def by simp
next
  case (pump s)
  let ?n = "sched_pick_next_idx s"
  have "sched_ok (run_slot run ?n (s\<lparr>g_current_idx := ?n\<rparr>))" if "state (g_tasks s ?n) = T_RUNNABLE"
    using pump that pick_next_less [of s] by (intro run_slot_ok assms(3)) simp_all
  then show ?case using pump sched_okD(1) [OF pump] by (simp add: sched_pump_once_def Let_def)
next
  case (op s s')
  then show ?case using op_step_ok by blast
qed

end
