(* ===== verification/Turns.thy ===== *)
theory Turns
  imports Sched
begin

text \<open>
  What the scheduler of \<open>Sched\<close> promises to its tasks: turns come round, sleepers and
  waiting parents are woken.

  \<open>fold_wake_other\<close> and \<open>fold_wake_one\<close> describe a pass over the slots that wakes some of them
  (\<open>sched_try_wake_sleepers\<close>, \<open>sched_waitq_wake_all\<close>), seen from one slot.
\<close>

section \<open>Turns\<close>

text \<open>The next index is the first runnable one after the current index, cyclically.\<close>

lemma pick_next:
  assumes "g_current_idx s < 16"
  shows "if \<exists>i < 16. sched_idx_runnable i s
         then \<exists>off. 1 \<le> off \<and> off \<le> 16 \<and> sched_pick_next_idx s = (g_current_idx s + off) mod 16
                \<and> sched_idx_runnable (sched_pick_next_idx s) s
                \<and> (\<forall>k. 1 \<le> k \<and> k < off \<longrightarrow> \<not> sched_idx_runnable ((g_current_idx s + k) mod 16) s)
         else sched_pick_next_idx s = 0"
proof (cases "\<exists>i < 16. sched_idx_runnable i s")
  case True
  then obtain i where i: "i < 16" "sched_idx_runnable i s" by blast
  let ?P = "\<lambda>off. sched_idx_runnable ((g_current_idx s + off) mod 16) s"
  let ?d = "if g_current_idx s < i then i - g_current_idx s else 16 + i - g_current_idx s"
  have "1 \<le> ?d" "?d \<le> 16" "(g_current_idx s + ?d) mod 16 = i" using i(1) assms by (auto simp: mod_if)
  then have "\<exists>off \<in> set [1..<17]. ?P off" using i(2) by (intro bexI [of _ ?d]) auto
  then obtain off where off: "List.find ?P [1..<17] = Some off" by (metis find_None_iff option.exhaust)
  have o: "1 \<le> off" "off \<le> 16" "?P off" "\<forall>k. 1 \<le> k \<and> k < off \<longrightarrow> \<not> ?P k"
  proof -
    from off obtain j where j: "j < 16" "off = Suc j" "?P off" "\<forall>l < j. \<not> ?P (Suc l)"
      by (auto simp: find_Some_iff)
    then show "1 \<le> off" "off \<le> 16" "?P off" by simp_all
    show "\<forall>k. 1 \<le> k \<and> k < off \<longrightarrow> \<not> ?P k"
    proof (intro allI impI)
      fix k assume "1 \<le> k \<and> k < off"
      then have "k - 1 < j" "Suc (k - 1) = k" using j(2) by auto
      then show "\<not> ?P k" using j(4) by metis
    qed
  qed
  have "sched_pick_next_idx s = (g_current_idx s + off) mod 16" using off by (simp add: sched_pick_next_idx_def)
  then show ?thesis using True o by auto
next
  case False
  then have "List.find (\<lambda>off. sched_idx_runnable ((g_current_idx s + off) mod 16) s) [1..<17] = None"
    by (auto simp: find_None_iff)
  then show ?thesis using False by (simp add: sched_pick_next_idx_def)
qed

definition cyc_dist :: "nat \<Rightarrow> nat \<Rightarrow> nat" where
  "cyc_dist c i = (if c < i then i - c else 16 + i - c)"

lemma cyc_dist_bounds: "c < 16 \<Longrightarrow> i < 16 \<Longrightarrow> 1 \<le> cyc_dist c i \<and> cyc_dist c i \<le> 16"
  unfolding cyc_dist_def by (cases "c < i") auto

lemma cyc_dist_reaches: "c < 16 \<Longrightarrow> i < 16 \<Longrightarrow> (c + cyc_dist c i) mod 16 = i"
  unfolding cyc_dist_def by (cases "c < i") simp_all

lemma cyc_dist_step:
  assumes "c < 16" "i < 16" "1 \<le> k" "k < cyc_dist c i"
  shows "cyc_dist ((c + k) mod 16) i = cyc_dist c i - k"
proof (cases "c + k < 16")
  case True
  then show ?thesis using assms by (auto simp: cyc_dist_def split: if_splits)
next
  case False
  then have "c + k < 32" using assms cyc_dist_bounds [of c i] by linarith
  then have "(c + k) mod 16 = c + k - 16" using False by (simp add: le_mod_geq)
  then show ?thesis using assms False by (auto simp: cyc_dist_def split: if_splits)
qed

text \<open>A pick either takes a given runnable slot or moves strictly closer to it.\<close>

lemma pick_closer:
  assumes "g_current_idx s < 16" "i < 16" "sched_idx_runnable i s" "sched_pick_next_idx s \<noteq> i"
  shows "sched_pick_next_idx s < 16 \<and> cyc_dist (sched_pick_next_idx s) i < cyc_dist (g_current_idx s) i"
proof -
  let ?c = "g_current_idx s" and ?n = "sched_pick_next_idx s"
  have "\<exists>i < 16. sched_idx_runnable i s" using assms by blast
  then obtain off where off: "1 \<le> off" "?n = (?c + off) mod 16"
    "\<forall>k. 1 \<le> k \<and> k < off \<longrightarrow> \<not> sched_idx_runnable ((?c + k) mod 16) s"
    using pick_next [OF assms(1)] by auto
  have "off \<le> cyc_dist ?c i"
    using off(3) cyc_dist_bounds [OF assms(1,2)] cyc_dist_reaches [OF assms(1,2)] assms(3) by (metis not_le)
  moreover have "off \<noteq> cyc_dist ?c i" using off(2) cyc_dist_reaches [OF assms(1,2)] assms(4) by auto
  ultimately have "off < cyc_dist ?c i" by simp
  then show ?thesis using cyc_dist_step [OF assms(1,2) off(1)] off(1,2) by simp
qed

text \<open>Only the run loop moves \<open>g_current_idx\<close>: the operations leave it alone, and a nested pump restores it.\<close>

lemma fold_current: "(\<And>i s. g_current_idx (f i s) = g_current_idx s) \<Longrightarrow> g_current_idx (fold f xs s) = g_current_idx s"
  by (induction xs arbitrary: s) simp_all

lemma detach_current [simp]:
  "g_current_idx (sched_detach_waitq i s) = g_current_idx s" "g_current_idx (waitq_set_bit q i s) = g_current_idx s"
  "g_current_idx (sched_waitq_init q s) = g_current_idx s" "g_current_idx (make_runnable i s) = g_current_idx s"
  "g_current_idx (sched_wake_slot i s) = g_current_idx s"
  by (simp_all add: sched_detach_waitq_def waitq_clear_bit_def waitq_set_bit_def sched_waitq_init_def make_runnable_def
      sched_wake_slot_def Let_def split: option.split)

lemma wake_current [simp]:
  "g_current_idx (sched_waitq_wake_one q s) = g_current_idx s" "g_current_idx (sched_waitq_wake_all q s) = g_current_idx s"
  "g_current_idx (sched_try_wake_sleepers n s) = g_current_idx s"
  unfolding sched_waitq_wake_one_def sched_waitq_wake_all_def sched_try_wake_sleepers_def
  by (auto intro!: fold_current simp: wake_sleeper_def Let_def split: option.split)

lemma calls_current [simp]:
  "g_current_idx (snd (sched_spawn nm e ar s)) = g_current_idx s" "g_current_idx (sched_yield s) = g_current_idx s"
  "g_current_idx (sched_exit_code c s) = g_current_idx s" "g_current_idx (sched_sleep_ticks n s) = g_current_idx s"
  "g_current_idx (sched_waitq_sleep q n s) = g_current_idx s" "g_current_idx (schedule_tick s) = g_current_idx s"
  "g_current_idx (snd (snd (sched_waitpid pid opt s))) = g_current_idx s" "g_current_idx (snd (on_current bad f s)) = g_current_idx s"
  using reap_current by (auto simp: sched_spawn_def sched_yield_def sched_exit_code_def sched_sleep_ticks_def sched_waitq_sleep_def
      schedule_tick_def sched_waitpid_def on_current_def Let_def split: option.split prod.split) (metis snd_conv reap_current)+

lemma op_current: "op_step s s' \<Longrightarrow> g_current_idx s' = g_current_idx s"
  by (cases rule: op_step.cases)
     (auto simp: sched_fd_close_def sched_fd_dup_def sched_fd_dup2_def sched_fd_open_special_def sched_fd_fcntl_setfd_def sched_fd_fcntl_setfl_def)

lemma ops_current: "op_step\<^sup>*\<^sup>* s s' \<Longrightarrow> g_current_idx s' = g_current_idx s"
  by (induction rule: rtranclp_induct) (simp_all add: op_current)

lemma pick_cong:
  assumes "g_current_idx s' = g_current_idx s" "\<And>j. sched_idx_runnable j s' = sched_idx_runnable j s"
  shows "sched_pick_next_idx s' = sched_pick_next_idx s"
  unfolding sched_pick_next_idx_def assms ..

text \<open>A turn of the loop that asks for another task.\<close>

definition picks :: "'a sched_scheme \<Rightarrow> bool" where
  "picks s \<longleftrightarrow> g_need_resched s \<or> \<not> sched_idx_runnable (g_current_idx s) s"

lemma turn_current:
  assumes "\<And>e i ar s. op_step\<^sup>*\<^sup>* s (run e i ar s)"
  shows "g_current_idx (sched_run_turn run s) = (if picks s then sched_pick_next_idx s else g_current_idx s)"
proof -
  have r: "g_current_idx (run_slot run i u) = g_current_idx u" for i u
    using ops_current [OF assms] by (simp add: run_slot_def run_finish_def run_begin_def Let_def)
  have "sched_pick_next_idx (s\<lparr>g_need_resched := False\<rparr>) = sched_pick_next_idx s"
    by (rule pick_cong) (simp_all add: sched_idx_runnable_def)
  then show ?thesis by (simp add: sched_run_turn_def picks_def Let_def r)
qed

lemma turns_closer:
  assumes run: "\<And>e i ar s. op_step\<^sup>*\<^sup>* s (run e i ar s)" and i: "i < 16" "\<And>k. sched_idx_runnable i (tr k)"
    and c: "g_current_idx (tr 0) < 16" and step: "\<And>k. op_step\<^sup>*\<^sup>* (sched_run_turn run (tr k)) (tr (Suc k))"
    and no: "\<And>k. k < n \<Longrightarrow> picks (tr k) \<Longrightarrow> sched_pick_next_idx (tr k) \<noteq> i"
  shows "g_current_idx (tr n) < 16 \<and> cyc_dist (g_current_idx (tr n)) i + card {k. k < n \<and> picks (tr k)} \<le> 16"
  using no
proof (induction n)
  case 0
  then show ?case using c cyc_dist_bounds [OF c i(1)] by simp
next
  case (Suc n)
  then have IH: "g_current_idx (tr n) < 16" "cyc_dist (g_current_idx (tr n)) i + card {k. k < n \<and> picks (tr k)} \<le> 16"
    by simp_all
  have t: "g_current_idx (tr (Suc n)) = (if picks (tr n) then sched_pick_next_idx (tr n) else g_current_idx (tr n))"
    using ops_current [OF step] turn_current [OF run] by simp
  show ?case
  proof (cases "picks (tr n)")
    case True
    then have "{k. k < Suc n \<and> picks (tr k)} = insert n {k. k < n \<and> picks (tr k)}" by (auto simp: less_Suc_eq)
    then have "card {k. k < Suc n \<and> picks (tr k)} = Suc (card {k. k < n \<and> picks (tr k)})" by simp
    then show ?thesis using pick_closer [OF IH(1) i] Suc.prems True IH(2) t by fastforce
  next
    case False
    then have "{k. k < Suc n \<and> picks (tr k)} = {k. k < n \<and> picks (tr k)}" by (auto simp: less_Suc_eq)
    then show ?thesis using IH t False by simp
  qed
qed

section \<open>Waking a set of slots\<close>

lemma fold_wake_other:
  assumes "sched_ok s" "\<And>j s. f j s = s \<or> f j s = make_runnable j s" "\<forall>j \<in> set xs. j < 16"
    "i \<notin> set xs \<or> (\<forall>u. g_tasks u i = g_tasks s i \<longrightarrow> f i u = u)"
  shows "sched_ok (fold f xs s) \<and> g_tasks (fold f xs s) i = g_tasks s i \<and> g_ticks (fold f xs s) = g_ticks s
         \<and> g_current_idx (fold f xs s) = g_current_idx s \<and> (\<forall>q. i < 32 \<longrightarrow> bit (wq (fold f xs s) q) i = bit (wq s q) i)"
  using assms(1,3,4)
proof (induction xs arbitrary: s)
  case (Cons j xs)
  have j: "j < 16" "j = i \<Longrightarrow> f j s = s" using Cons.prems(2,3) by auto
  have m: "sched_ok (make_runnable j s)" "j \<noteq> i \<Longrightarrow> g_tasks (make_runnable j s) i = g_tasks s i"
    "g_ticks (make_runnable j s) = g_ticks s" "g_current_idx (make_runnable j s) = g_current_idx s"
    "\<And>q. j \<noteq> i \<Longrightarrow> i < 32 \<Longrightarrow> bit (wq (make_runnable j s) q) i = bit (wq s q) i"
    using make_runnable_ok [OF Cons.prems(1) j(1)] make_runnable_upd [OF Cons.prems(1) j(1)]
    by (auto simp: slot_upd_def)
  have g: "sched_ok (f j s) \<and> g_tasks (f j s) i = g_tasks s i \<and> g_ticks (f j s) = g_ticks s
      \<and> g_current_idx (f j s) = g_current_idx s \<and> (\<forall>q. i < 32 \<longrightarrow> bit (wq (f j s) q) i = bit (wq s q) i)"
  proof (cases "f j s = s")
    case False
    then have "f j s = make_runnable j s" "j \<noteq> i" using assms(2) [of j s] j(2) by auto
    then show ?thesis using m by simp
  qed (use Cons.prems(1) in simp)
  have "i \<notin> set xs \<or> (\<forall>u. g_tasks u i = g_tasks (f j s) i \<longrightarrow> f i u = u)" using Cons.prems(3) g by auto
  then show ?case using Cons.IH [of "f j s"] Cons.prems(2) g by simp
qed simp

lemma fold_wake_one:
  assumes "sched_ok s" "\<And>j s. f j s = s \<or> f j s = make_runnable j s" "distinct xs" "\<forall>j \<in> set xs. j < 16"
    "i \<in> set xs" "\<And>u. g_tasks u i = g_tasks s i \<Longrightarrow> (\<forall>q. bit (wq u q) i = bit (wq s q) i) \<Longrightarrow> f i u = make_runnable i u"
  shows "g_tasks (fold f xs s) i
         = (g_tasks s i)\<lparr>on_waitq := None, wake_tick := 0, state := T_RUNNABLE, quantum_used := 0\<rparr>"
proof -
  obtain ys zs where xs: "xs = ys @ i # zs" "i \<notin> set ys" "i \<notin> set zs"
    using assms(3,5) by (metis distinct.simps(2) distinct_append not_distinct_conv_prefix split_list_first split_list)
  have i: "i < 16" using assms(4,5) by blast
  let ?u = "fold f ys s"
  have u: "sched_ok ?u" "g_tasks ?u i = g_tasks s i" "\<forall>q. bit (wq ?u q) i = bit (wq s q) i"
    using fold_wake_other [OF assms(1,2), of ys i] assms(4) xs i by auto
  have m: "g_tasks (make_runnable i ?u) i
      = (g_tasks s i)\<lparr>on_waitq := None, wake_tick := 0, state := T_RUNNABLE, quantum_used := 0\<rparr>"
    using make_runnable_upd [OF u(1) i] u(2) by (simp add: slot_upd_def)
  have "g_tasks (fold f zs (make_runnable i ?u)) i = g_tasks (make_runnable i ?u) i"
    using fold_wake_other [OF make_runnable_ok [OF u(1) i] assms(2), of zs i] assms(4) xs by auto
  then show ?thesis using m assms(6) [OF u(2,3)] by (simp add: xs(1))
qed

text \<open>What a tick does to a waiting task.\<close>

abbreviation (input) woken :: "sched_task_slot \<Rightarrow> sched_task_slot" where
  "woken t \<equiv> t\<lparr>on_waitq := None, wake_tick := 0, state := T_RUNNABLE, quantum_used := 0\<rparr>"

lemma tick_waiting:
  assumes "sched_ok s" "i < 16" "used (g_tasks s i)" "waiting (g_tasks s i)"
  shows "g_tasks (schedule_tick s) i = (if wake_tick (g_tasks s i) = 0 \<or> g_ticks s + 1 < wake_tick (g_tasks s i)
           then g_tasks s i else woken (g_tasks s i))"
    and "g_ticks (schedule_tick s) = g_ticks s + 1"
proof -
  let ?n = "g_ticks s + 1" and ?s = "s\<lparr>g_ticks := g_ticks s + 1\<rparr>"
  let ?u = "sched_try_wake_sleepers ?n ?s"
  have f: "wake_sleeper ?n j u = u \<or> wake_sleeper ?n j u = make_runnable j u" for j and u :: "'a sched_scheme"
    by (simp add: wake_sleeper_def Let_def)
  have ok: "sched_ok ?s" using assms(1) by simp
  have w: "g_tasks ?u i = (if wake_tick (g_tasks s i) = 0 \<or> ?n < wake_tick (g_tasks s i)
      then g_tasks s i else woken (g_tasks s i))"
  proof (cases "wake_tick (g_tasks s i) = 0 \<or> ?n < wake_tick (g_tasks s i)")
    case True
    then have "\<forall>u. g_tasks u i = g_tasks ?s i \<longrightarrow> wake_sleeper ?n i u = u" by (auto simp: wake_sleeper_def Let_def)
    then have "g_tasks (fold (wake_sleeper ?n) [0..<16] ?s) i = g_tasks ?s i"
      using fold_wake_other [where i = i and f = "wake_sleeper ?n" and xs = "[0..<16]", OF ok f] by auto
    then show ?thesis using True by (simp add: sched_try_wake_sleepers_def)
  next
    case False
    have "g_tasks (fold (wake_sleeper ?n) [0..<16] ?s) i = woken (g_tasks ?s i)"
    proof (rule fold_wake_one [OF ok f])
      fix u :: "'a sched_scheme" assume "g_tasks u i = g_tasks ?s i"
      then show "wake_sleeper ?n i u = make_runnable i u"
        using False assms(3,4) by (auto simp: wake_sleeper_def Let_def waiting_def)
    qed (use assms(2) in auto)
    then show ?thesis using False by (simp add: sched_try_wake_sleepers_def)
  qed
  have "state (g_tasks ?u i) \<noteq> T_RUNNING" using w assms(4) by (auto simp: waiting_def)
  then have "g_tasks (schedule_tick s) i = g_tasks ?u i"
    by (cases "g_current_idx ?u = i") (simp_all add: schedule_tick_def Let_def)
  then show "g_tasks (schedule_tick s) i = (if wake_tick (g_tasks s i) = 0 \<or> g_ticks s + 1 < wake_tick (g_tasks s i)
           then g_tasks s i else woken (g_tasks s i))"
    using w by simp
  have "g_ticks (fold (wake_sleeper ?n) [0..<16] ?s) = g_ticks ?s"
    using fold_wake_other [where i = 16 and f = "wake_sleeper ?n" and xs = "[0..<16]", OF ok f] by simp
  then show "g_ticks (schedule_tick s) = g_ticks s + 1"
    by (simp add: schedule_tick_def Let_def sched_try_wake_sleepers_def)
qed

text \<open>A waiting task is untouched by ticks before its wake-up time.\<close>

lemma ticks_waiting:
  assumes "sched_ok s" "i < 16" "used (g_tasks s i)" "waiting (g_tasks s i)"
    "\<And>j. 1 \<le> j \<Longrightarrow> j \<le> k \<Longrightarrow> wake_tick (g_tasks s i) = 0 \<or> g_ticks s + of_nat j < wake_tick (g_tasks s i)"
  shows "sched_ok ((schedule_tick ^^ k) s) \<and> g_tasks ((schedule_tick ^^ k) s) i = g_tasks s i
         \<and> g_ticks ((schedule_tick ^^ k) s) = g_ticks s + of_nat k"
  using assms(5)
proof (induction k)
  case (Suc k)
  let ?u = "(schedule_tick ^^ k) s"
  have u: "sched_ok ?u" "g_tasks ?u i = g_tasks s i" "g_ticks ?u = g_ticks s + of_nat k" using Suc by simp_all
  have "wake_tick (g_tasks s i) = 0 \<or> g_ticks s + of_nat k + 1 < wake_tick (g_tasks s i)"
    using Suc.prems [of "Suc k"] by (simp add: algebra_simps)
  then show ?case
    using tick_ok [OF u(1)] tick_waiting [OF u(1) assms(2)] assms(3,4) u by (simp add: algebra_simps)
qed (use assms(1) in simp)

lemma sleep_slot:
  assumes "sched_current_slot s = Some i" "\<not> is_idle (g_tasks s i)"
  shows "g_tasks (sched_sleep_ticks n s) i = (g_tasks s i)
           \<lparr>wake_tick := g_ticks s + (if n \<noteq> 0 then n else 1), state := T_SLEEPING, quantum_used := 0\<rparr>"
    "g_ticks (sched_sleep_ticks n s) = g_ticks s"
  using assms by (simp_all add: sched_sleep_ticks_def)

text \<open>Waking changes neither the identity of a slot nor its owner.\<close>

definition slot_id :: "sched_task_slot \<Rightarrow> u32 \<times> bool \<times> bool \<times> int" where
  "slot_id t = (tid t, used t, is_idle t, parent_tid t)"

lemma make_runnable_id [simp]: "slot_id (g_tasks (make_runnable j s) k) = slot_id (g_tasks s k)"
  by (simp add: slot_id_def make_runnable_def sched_detach_waitq_def waitq_clear_bit_def upd_task_def resched_def
      split: option.split)

lemma wake_all_id: "slot_id (g_tasks (sched_waitq_wake_all q s) k) = slot_id (g_tasks s k)"
  unfolding sched_waitq_wake_all_def
  by (rule fold_invariant [where Q = "\<lambda>_. True"]) (simp_all add: sched_wake_slot_def Let_def)

lemma find_only: "x \<in> set xs \<Longrightarrow> P x \<Longrightarrow> (\<And>y. y \<in> set xs \<Longrightarrow> y \<noteq> x \<Longrightarrow> \<not> P y) \<Longrightarrow> List.find P xs = Some x"
  by (induction xs) auto

lemma wake_all_slots:
  assumes "sched_ok s"
  shows "0 < p \<Longrightarrow> p < 16 \<Longrightarrow> used (g_tasks s p) \<Longrightarrow> on_waitq (g_tasks s p) = Some q
           \<Longrightarrow> g_tasks (sched_waitq_wake_all q s) p = woken (g_tasks s p)"
    and "\<not> waiting (g_tasks s i) \<Longrightarrow> g_tasks (sched_waitq_wake_all q s) i = g_tasks s i"
proof -
  let ?f = "\<lambda>i s. if \<not> waitq_test_bit q i s then s else sched_wake_slot i s"
  have f: "?f j u = u \<or> ?f j u = make_runnable j u" for j and u :: "'a sched_scheme"
    by (simp add: sched_wake_slot_def Let_def)
  show "g_tasks (sched_waitq_wake_all q s) i = g_tasks s i" if "\<not> waiting (g_tasks s i)"
  proof -
    have "\<forall>u. g_tasks u i = g_tasks s i \<longrightarrow> ?f i u = u"
      using that by (auto simp: sched_wake_slot_def Let_def waiting_def)
    then show ?thesis
      using fold_wake_other [where i = i and f = ?f and xs = "[1..<16]", OF assms f]
      by (auto simp: sched_waitq_wake_all_def)
  qed
  assume p: "0 < p" "p < 16" "used (g_tasks s p)" "on_waitq (g_tasks s p) = Some q"
  have w: "waiting (g_tasks s p)" "\<not> is_idle (g_tasks s p)" "bit (wq s q) p"
    using sched_okD [OF assms] p by (auto simp: slot_ok_def)
  have "g_tasks (fold ?f [1..<16] s) p = woken (g_tasks s p)"
  proof (rule fold_wake_one [OF assms f])
    fix u :: "'a sched_scheme"
    assume u: "g_tasks u p = g_tasks s p" "\<forall>q. bit (wq u q) p = bit (wq s q) p"
    then show "?f p u = make_runnable p u"
      using w p by (auto simp: sched_wake_slot_def Let_def waiting_def test_bit_iff)
  qed (use p in auto)
  then show "g_tasks (sched_waitq_wake_all q s) p = woken (g_tasks s p)" by (simp add: sched_waitq_wake_all_def)
qed

lemma reap_zombie:
  assumes "0 < i" "i < 16" "state (g_tasks s i) = T_ZOMBIE" "sched_task_is_child_of (g_tasks s i) par pid"
    "\<And>j. 0 < j \<Longrightarrow> j < 16 \<Longrightarrow> j \<noteq> i \<Longrightarrow> \<not> sched_task_is_child_of (g_tasks s j) par pid"
  shows "sched_try_reap_child par pid s
         = (sint (tid (g_tasks s i)), Some (push_bit 8 (exit_code (g_tasks s i) AND 0xFF)), sched_clear_task i s)"
proof -
  have "List.find (\<lambda>i. sched_task_is_child_of (g_tasks s i) par pid \<and> state (g_tasks s i) = T_ZOMBIE) [1..<16] = Some i"
    using assms by (intro find_only) auto
  then show ?thesis by (simp add: sched_try_reap_child_def)
qed

text \<open>The slots after an exit whose parent waits.\<close>

lemma exit_slots:
  assumes "sched_ok s" "sched_current_slot s = Some i" "\<not> is_idle (g_tasks s i)"
    "parent_tid (g_tasks s i) = sint (tid (g_tasks s p))" "0 \<le> sint (tid (g_tasks s p))"
    "sched_find_by_tid (tid (g_tasks s p)) s = Some p" "0 < p" "p < 16" "p \<noteq> i"
    "used (g_tasks s p)" "on_waitq (g_tasks s p) = Some (Child_waitq p)"
  shows "g_tasks (sched_exit_code code s) p = woken (g_tasks s p)"
    and "g_tasks (sched_exit_code code s) i = exited code (g_tasks s i)"
    and "slot_id (g_tasks (sched_exit_code code s) j) = slot_id (g_tasks s j)"
proof -
  obtain u where u: "slot_upd i (exited code (g_tasks s i)) s u"
    "sched_exit_code code s = resched (if 0 \<le> parent_tid (g_tasks s i)
       then (case sched_find_by_tid (of_int (parent_tid (g_tasks s i))) u of None \<Rightarrow> u
             | Some p \<Rightarrow> sched_waitq_wake_all (Child_waitq p) u) else u)"
    by (rule exit_code_shape [OF assms(1-3)])
  have g: "g_tasks u = (g_tasks s)(i := exited code (g_tasks s i))" using u(1) by (simp add: slot_upd_def)
  have id: "slot_id (g_tasks u j) = slot_id (g_tasks s j)" for j
    by (simp add: g slot_id_def exited_def)
  then have "used (g_tasks u j) = used (g_tasks s j)" "tid (g_tasks u j) = tid (g_tasks s j)" for j
    by (simp_all add: slot_id_def)
  then have "sched_find_by_tid x u = sched_find_by_tid x s" for x by (simp add: sched_find_by_tid_def)
  then have "sched_find_by_tid (tid (g_tasks s p)) u = Some p" using assms(6) by simp
  then have e: "sched_exit_code code s = resched (sched_waitq_wake_all (Child_waitq p) u)"
    using u(2) assms(4,5) by simp
  have "i < 16" using current_slot [OF assms(2)] by blast
  then have ok: "sched_ok u" using exited_ok [OF assms(1-3)] slot_upd_ok [OF u(1) assms(1)] by blast
  show "g_tasks (sched_exit_code code s) p = woken (g_tasks s p)"
    using wake_all_slots(1) [OF ok assms(7,8)] assms(9-11) by (simp add: e g)
  have "\<not> waiting (g_tasks u i)" by (simp add: g exited_def waiting_def)
  then show "g_tasks (sched_exit_code code s) i = exited code (g_tasks s i)"
    using wake_all_slots(2) [OF ok] by (simp add: e g)
  show "slot_id (g_tasks (sched_exit_code code s) j) = slot_id (g_tasks s j)"
    by (simp add: e wake_all_id id)
qed

section \<open>The properties\<close>

text \<open>C2: From an initialised table on, whatever the tasks and the interrupt handlers do with the scheduler's
  operations (nested blocking calls included), the table keeps its invariant: a queue holds exactly the
  slots that wait on it, only blocked or sleeping tasks wait, the idle slot stays runnable, and the
  descriptor table of every task is sound.\<close>

theorem scheduler_invariant:
  assumes "\<And>q. wq s q = 0" "\<And>e i ar s. op_step\<^sup>*\<^sup>* s (run e i ar s)" "(sched_step run)\<^sup>*\<^sup>* (sched_init e s) s'"
  shows "sched_ok s'"
  using assms(3)
proof (induction rule: rtranclp_induct)
  case base
  show ?case by (rule init_ok [OF assms(1)])
next
  case (step y z)
  then show ?case using sched_step_ok [OF step.hyps(2) step.IH assms(2)] by blast
qed

text \<open>The state before \<open>sched_init\<close>: static data is zero.\<close>

definition sched_zero :: sched where
  "sched_zero = \<lparr>g_ticks = 0, g_need_resched = False, g_tasks = \<lambda>_. slot_zero, g_current_idx = 0, g_next_tid = 0,
     wq = \<lambda>_. 0, tick_timer_us = 0\<rparr>"

theorem scheduler_invariant_witness:
  "sched_ok (sched_run_turn (\<lambda>e i ar. sched_sleep_ticks 3) (snd (sched_spawn ''init'' (Some 7) 0 (sched_init 9 sched_zero))))"
proof (rule scheduler_invariant [where run = "\<lambda>e i ar. sched_sleep_ticks 3" and s = sched_zero and e = 9])
  show "wq sched_zero q = 0" for q by (simp add: sched_zero_def)
  show "op_step\<^sup>*\<^sup>* s (sched_sleep_ticks 3 s)" for s :: sched by (rule r_into_rtranclp) (rule op_step.sleep)
  show "(sched_step (\<lambda>e i ar. sched_sleep_ticks 3))\<^sup>*\<^sup>* (sched_init 9 sched_zero)
     (sched_run_turn (\<lambda>e i ar. sched_sleep_ticks 3) (snd (sched_spawn ''init'' (Some 7) 0 (sched_init 9 sched_zero))))"
    by (rule converse_rtranclp_into_rtranclp, rule sched_step.op, rule op_step.spawn,
        rule r_into_rtranclp, rule sched_step.run_turn)
qed

text \<open>C19: Round robin in the run loop: the states \<open>tr k\<close> are those at the starts of the turns of \<open>sched_run\<close>; tasks and interrupts
  use the scheduler's operations (nested pumps included). A task with an entry function that is runnable at the start of
  every turn is run by one of the first \<open>n\<close> turns if 16 of them start with a request to reschedule or with a current task that
  cannot run. The pump of a blocked task is not the run loop: a task that waits there can starve the others.\<close>

theorem runnable_task_gets_turn:
  assumes "\<And>e i ar s. op_step\<^sup>*\<^sup>* s (run e i ar s)" "g_current_idx (tr 0) < SCHED_MAX_TASKS"
    "\<And>k. op_step\<^sup>*\<^sup>* (sched_run_turn run (tr k)) (tr (Suc k))"
    "\<And>k. sched_idx_runnable i (tr k) \<and> entry (g_tasks (tr k) i) \<noteq> None"
    "SCHED_MAX_TASKS \<le> card {k. k < n \<and> picks (tr k)}"
  shows "\<exists>k < n. sched_run_turn run (tr k) = run_slot run i ((tr k)\<lparr>g_need_resched := False, g_current_idx := i\<rparr>)"
proof -
  have i: "i < 16" using assms(4) [of 0] by (simp add: sched_idx_runnable_def split: if_splits)
  have "\<exists>k < n. picks (tr k) \<and> sched_pick_next_idx (tr k) = i"
  proof (rule ccontr)
    assume "\<not> (\<exists>k < n. picks (tr k) \<and> sched_pick_next_idx (tr k) = i)"
    then have "g_current_idx (tr n) < 16 \<and> cyc_dist (g_current_idx (tr n)) i + card {k. k < n \<and> picks (tr k)} \<le> 16"
      using turns_closer [OF assms(1) i _ assms(2,3), of n] assms(4) by blast
    then show False using cyc_dist_bounds [of "g_current_idx (tr n)" i] i assms(5) by simp
  qed
  then obtain k where k: "k < n" "picks (tr k)" "sched_pick_next_idx (tr k) = i" by blast
  have "sched_pick_next_idx ((tr k)\<lparr>g_need_resched := False\<rparr>) = i"
    using k(3) by (subst pick_cong [where s = "tr k"]) (simp_all add: sched_idx_runnable_def)
  moreover have "used (g_tasks (tr k) i)" "state (g_tasks (tr k) i) = T_RUNNABLE" "entry (g_tasks (tr k) i) \<noteq> None"
    using assms(4) [of k] by (simp_all add: sched_idx_runnable_def split: if_splits)
  ultimately have "sched_run_turn run (tr k) = run_slot run i ((tr k)\<lparr>g_need_resched := False, g_current_idx := i\<rparr>)"
    using k(2) by (auto simp: sched_run_turn_def picks_def Let_def)
  then show ?thesis using k(1) by blast
qed

text \<open>Two tasks that yield at once.\<close>

definition two_tasks :: sched where
  "two_tasks = sched_zero\<lparr>g_tasks := (\<lambda>i. if i = 2 \<or> i = 5 then slot_zero\<lparr>state := T_RUNNABLE, used := True, entry := Some 7\<rparr> else slot_zero),
     g_need_resched := True, g_current_idx := 2\<rparr>"

definition pair_ready :: "sched \<Rightarrow> bool" where
  "pair_ready s \<longleftrightarrow> (g_current_idx s = 2 \<or> g_current_idx s = 5) \<and> g_need_resched s \<and> (\<forall>j. used (g_tasks s j) = (j = 2 \<or> j = 5))
     \<and> (\<forall>j \<in> {2, 5}. state (g_tasks s j) = T_RUNNABLE \<and> entry (g_tasks s j) \<noteq> None)"

lemma pair_runnable: "pair_ready s \<Longrightarrow> sched_idx_runnable j s \<longleftrightarrow> j = 2 \<or> j = 5"
  by (auto simp: pair_ready_def sched_idx_runnable_def)

lemma pair_pick: "pair_ready s \<Longrightarrow> sched_pick_next_idx s = (if g_current_idx s = 2 then 5 else 2)"
proof -
  assume p: "pair_ready s"
  have u: "[1..<16 + 1] = [1, 2, 3, 4, 5, 6, 7, 8, 9, 10, 11, 12, 13, 14, 15, 16 :: nat]" by (simp add: upt_rec)
  have "g_current_idx s = 2 \<or> g_current_idx s = 5" using p by (simp add: pair_ready_def)
  then show ?thesis by (elim disjE) (simp_all only: sched_pick_next_idx_def u pair_runnable [OF p], simp_all)
qed

lemma pair_turn: "pair_ready s \<Longrightarrow> pair_ready (sched_run_turn (\<lambda>e i ar. sched_yield) s)"
proof -
  assume p: "pair_ready s"
  let ?c = "if g_current_idx s = 2 then 5 else 2 :: nat"
  have "sched_pick_next_idx (s\<lparr>g_need_resched := False\<rparr>) = ?c"
    using pair_pick [OF p] by (subst pick_cong [where s = s]) (simp_all add: sched_idx_runnable_def)
  then have "sched_run_turn (\<lambda>e i ar. sched_yield) s = run_slot (\<lambda>e i ar. sched_yield) ?c (s\<lparr>g_need_resched := False, g_current_idx := ?c\<rparr>)"
    using p by (auto simp: sched_run_turn_def Let_def pair_ready_def)
  then show ?thesis using p
    by (auto simp: run_slot_def run_begin_def run_finish_def sched_yield_def sched_current_slot_def Let_def upd_task_def resched_def pair_ready_def)
qed

theorem runnable_task_gets_turn_witness:
  "\<exists>k < (16 :: nat). sched_run_turn (\<lambda>e i ar. sched_yield) ((sched_run_turn (\<lambda>e i ar. sched_yield) ^^ k) two_tasks)
     = run_slot (\<lambda>e i ar. sched_yield) 5 (((sched_run_turn (\<lambda>e i ar. sched_yield) ^^ k) two_tasks)\<lparr>g_need_resched := False, g_current_idx := 5\<rparr>)"
proof -
  let ?tr = "\<lambda>k. (sched_run_turn (\<lambda>e i ar. sched_yield) ^^ k) two_tasks"
  have p: "pair_ready (?tr k)" for k
    by (induction k) (auto simp: pair_turn, simp add: pair_ready_def two_tasks_def sched_zero_def slot_zero_def)
  then have r: "sched_idx_runnable 5 (?tr k) \<and> entry (g_tasks (?tr k) 5) \<noteq> None" for k
    using pair_runnable [OF p] by (simp add: pair_ready_def)
  have "{k. k < 16 \<and> picks (?tr k)} = {..<16 :: nat}" using p by (auto simp: picks_def pair_ready_def)
  then have "16 \<le> card {k. k < 16 \<and> picks (?tr k)}" by simp
  moreover have "op_step\<^sup>*\<^sup>* s (sched_yield s)" for s :: sched by (rule r_into_rtranclp) (rule op_step.yield)
  moreover have "g_current_idx (?tr 0) < 16" by (simp add: two_tasks_def)
  ultimately show ?thesis by (intro runnable_task_gets_turn [where tr = ?tr]) (simp_all add: r)
qed

text \<open>The pump of a blocked task has no such guarantee: it restores \<open>g_current_idx\<close>, so as long as the set of runnable tasks is
  the same it takes the same task again.\<close>

theorem pump_repeats_pick:
  assumes "\<And>j. sched_idx_runnable j (sched_pump_once run s) = sched_idx_runnable j s"
  shows "sched_pick_next_idx (sched_pump_once run s) = sched_pick_next_idx s"
  by (rule pick_cong [OF _ assms]) (simp add: sched_pump_once_def Let_def)

text \<open>C20: A task that sleeps for \<open>n\<close> ticks stays asleep for the next \<open>n - 1\<close> ticks and is runnable after the
  \<open>n\<close>-th (a sleep of 0 counts as 1), unless the tick counter wraps in between.\<close>

theorem sleep_wakes_on_time:
  assumes "sched_ok s" "sched_current_slot s = Some i" "\<not> is_idle (g_tasks s i)"
    "m = (if n \<noteq> 0 then n else 1)" "unat (g_ticks s) + unat m < 2 ^ 32"
  shows "(\<forall>k < unat m. state (g_tasks ((schedule_tick ^^ k) (sched_sleep_ticks n s)) i) = T_SLEEPING)
         \<and> state (g_tasks ((schedule_tick ^^ unat m) (sched_sleep_ticks n s)) i) = T_RUNNABLE"
proof -
  let ?s = "sched_sleep_ticks n s"
  have i: "i < 16" "used (g_tasks s i)" using current_slot [OF assms(2)] by auto
  note z = sleep_slot [OF assms(2,3), of n, folded assms(4)]
  have ok: "sched_ok ?s" using sleep_ticks_ok [OF assms(1)] .
  have w: "used (g_tasks ?s i)" "waiting (g_tasks ?s i)" using z(1) i(2) by (simp_all add: waiting_def)
  have early: "g_ticks s + of_nat j < g_ticks s + m" if "j < unat m" for j
    using that assms(5) by (simp add: word_less_nat_alt unat_word_ariths unat_of_nat)
  have run: "sched_ok ((schedule_tick ^^ k) ?s) \<and> g_tasks ((schedule_tick ^^ k) ?s) i = g_tasks ?s i
         \<and> g_ticks ((schedule_tick ^^ k) ?s) = g_ticks s + of_nat k" if "k < unat m" for k
    using ticks_waiting [OF ok i(1) w, of k] that early z by simp
  have "0 < unat m" using assms(4) by (simp add: unat_gt_0)
  then obtain k where k: "unat m = Suc k" by (cases "unat m") auto
  let ?u = "(schedule_tick ^^ k) ?s"
  have u: "sched_ok ?u" "g_tasks ?u i = g_tasks ?s i" "g_ticks ?u = g_ticks s + of_nat k" using run [of k] k by auto
  have "m = of_nat (unat m)" by simp
  then have "m = of_nat (Suc k)" by (simp only: k)
  then have "g_ticks ?u + 1 = g_ticks s + m" using u(3) by simp
  moreover have "g_ticks s + m \<noteq> 0" using assms(5) k by (simp add: unat_eq_zero [symmetric] unat_word_ariths del: unat_eq_zero)
  ultimately have "state (g_tasks (schedule_tick ?u) i) = T_RUNNABLE"
    using tick_waiting(1) [OF u(1) i(1)] u(2) w z(1) by simp
  then show ?thesis using run z(1) k by simp
qed

text \<open>A table with one task, which runs, at a given time.\<close>

definition demo_sched :: "u32 \<Rightarrow> sched" where
  "demo_sched now = (snd (sched_spawn ''init'' (Some 7) 0 (sched_init 9 sched_zero)))\<lparr>g_current_idx := 1, g_ticks := now\<rparr>"

lemma init_zero:
  "g_tasks (sched_init 9 sched_zero) = (\<lambda>i. if i = 0 then g_tasks (sched_init 9 sched_zero) 0 else slot_zero)"
  "sched_alloc_slot (sched_init 9 sched_zero) = 1" "sched_ok (sched_init 9 sched_zero)"
  "g_next_tid (sched_init 9 sched_zero) = 1" "sched_current_slot (sched_init 9 sched_zero) = Some 0"
  "tid (g_tasks (sched_init 9 sched_zero) 0) = 0"
proof -
  show g: "g_tasks (sched_init 9 sched_zero) = (\<lambda>i. if i = 0 then g_tasks (sched_init 9 sched_zero) 0 else slot_zero)"
    by (simp add: fun_eq_iff sched_init_def Let_def fold_clear upd_task_def sched_waitq_init_def sched_zero_def)
  show "sched_alloc_slot (sched_init 9 sched_zero) = 1"
    by (subst sched_alloc_slot_def, subst g) (simp add: upt_rec slot_zero_def)
  show "sched_ok (sched_init 9 sched_zero)" by (rule init_ok) (simp add: sched_zero_def)
  show "g_next_tid (sched_init 9 sched_zero) = 1" "sched_current_slot (sched_init 9 sched_zero) = Some 0"
    "tid (g_tasks (sched_init 9 sched_zero) 0) = 0"
    by (simp_all add: sched_init_def Let_def upd_task_def sched_waitq_init_def sched_current_slot_def
        sched_fd_table_init_stdio_def stdio_entry_def)
qed

lemma spawn_slots:
  assumes "sched_alloc_slot s = int i" "sched_current_slot s = Some p" "p \<noteq> i"
  shows "slot_id (g_tasks (snd (sched_spawn nm (Some e) ar s)) i) = (g_next_tid s, True, False, sint (tid (g_tasks s p)))"
    "j \<noteq> i \<Longrightarrow> g_tasks (snd (sched_spawn nm (Some e) ar s)) j = g_tasks s j"
    "g_next_tid (snd (sched_spawn nm (Some e) ar s)) = (if g_next_tid s + 1 = 0 then 1 else g_next_tid s + 1)"
    "g_current_idx (snd (sched_spawn nm (Some e) ar s)) = g_current_idx s"
proof -
  have c: "p = g_current_idx s" "p < 16" "used (g_tasks s p)" using current_slot [OF assms(2)] by auto
  note d = sched_spawn_def Let_def upd_task_def sched_waitq_init_def slot_id_def resched_def sched_current_slot_def
      sched_fd_table_init_stdio_def stdio_entry_def sched_fd_table_clear_def
  show "slot_id (g_tasks (snd (sched_spawn nm (Some e) ar s)) i) = (g_next_tid s, True, False, sint (tid (g_tasks s p)))"
    using assms(1,3) c(2,3) by (simp add: d c(1) [symmetric])
  show "j \<noteq> i \<Longrightarrow> g_tasks (snd (sched_spawn nm (Some e) ar s)) j = g_tasks s j"
    "g_next_tid (snd (sched_spawn nm (Some e) ar s)) = (if g_next_tid s + 1 = 0 then 1 else g_next_tid s + 1)"
    "g_current_idx (snd (sched_spawn nm (Some e) ar s)) = g_current_idx s"
    using assms(1) by (simp_all add: d)
qed

lemma demo_sched_slots:
  "slot_id (g_tasks (demo_sched now) 1) = (1, True, False, 0)" "used (g_tasks (demo_sched now) 0)"
  "1 < j \<Longrightarrow> g_tasks (demo_sched now) j = slot_zero" "g_next_tid (demo_sched now) = 2"
  "g_current_idx (demo_sched now) = 1" "g_ticks (demo_sched now) = now" "sched_ok (demo_sched now)"
proof -
  have a: "sched_alloc_slot (sched_init 9 sched_zero) = int 1" using init_zero(2) by simp
  note sp = spawn_slots [OF a init_zero(5), where nm = "''init''" and e = 7 and ar = 0]
  have z: "g_tasks (sched_init 9 sched_zero) j = slot_zero" if "0 < j" for j using that by (subst init_zero(1)) simp
  show "slot_id (g_tasks (demo_sched now) 1) = (1, True, False, 0)" "1 < j \<Longrightarrow> g_tasks (demo_sched now) j = slot_zero"
    "g_next_tid (demo_sched now) = 2" "g_current_idx (demo_sched now) = 1" "g_ticks (demo_sched now) = now"
    "used (g_tasks (demo_sched now) 0)"
    using sp init_zero(4,6) z current_slot [OF init_zero(5)] by (simp_all add: demo_sched_def)
  show "sched_ok (demo_sched now)" using spawn_ok [OF init_zero(3)] unfolding demo_sched_def by simp
qed

lemma demo_sched:
  "sched_current_slot (demo_sched now) = Some 1" "\<not> is_idle (g_tasks (demo_sched now) 1)" "tid (g_tasks (demo_sched now) 1) = 1"
  using demo_sched_slots(1,5) [of now] by (simp_all add: slot_id_def sched_current_slot_def)

theorem sleep_wakes_on_time_witness:
  "state (g_tasks ((schedule_tick ^^ 2) (sched_sleep_ticks 3 (demo_sched 100))) 1) = T_SLEEPING
   \<and> state (g_tasks ((schedule_tick ^^ 3) (sched_sleep_ticks 3 (demo_sched 100))) 1) = T_RUNNABLE"
  using sleep_wakes_on_time [OF demo_sched_slots(7) demo_sched(1,2) refl, of 100 3] by (simp add: demo_sched_slots(6))

text \<open>C40: The tick counter is a 32-bit word and wake-up time 0 means \<open>no timeout\<close>: a sleep whose end falls on the
  wrap of the counter never ends.\<close>

theorem sleep_across_wrap_never_ends:
  assumes "sched_ok s" "sched_current_slot s = Some i" "\<not> is_idle (g_tasks s i)"
    "n \<noteq> 0" "g_ticks s + n = 0"
  shows "state (g_tasks ((schedule_tick ^^ k) (sched_sleep_ticks n s)) i) = T_SLEEPING"
proof -
  let ?s = "sched_sleep_ticks n s"
  have i: "i < 16" "used (g_tasks s i)" using current_slot [OF assms(2)] by auto
  note z = sleep_slot [OF assms(2,3), of n]
  have "used (g_tasks ?s i)" "waiting (g_tasks ?s i)" "wake_tick (g_tasks ?s i) = 0"
    using z(1) i(2) assms(4,5) by (simp_all add: waiting_def)
  then have "g_tasks ((schedule_tick ^^ k) ?s) i = g_tasks ?s i"
    using ticks_waiting [OF sleep_ticks_ok [OF assms(1)] i(1), of n k] by blast
  then show ?thesis using z(1) by simp
qed

theorem sleep_across_wrap_never_ends_witness:
  "\<forall>k. state (g_tasks ((schedule_tick ^^ k) (sched_sleep_ticks 10 (demo_sched (- 10)))) 1) = T_SLEEPING"
  using sleep_across_wrap_never_ends [OF demo_sched_slots(7) demo_sched(1,2), of 10 "- 10"] by (simp add: demo_sched_slots(6))

text \<open>C15: When a task exits, the parent that waits for it is made runnable, and its next \<open>waitpid\<close> on the child
  returns the child's tid and the low byte of the exit code in the second byte of the status, and frees
  the child's slot.\<close>

theorem exit_then_waitpid:
  assumes "sched_ok s" "sched_current_slot s = Some i" "\<not> is_idle (g_tasks s i)"
    and parent: "used (g_tasks s p)" "on_waitq (g_tasks s p) = Some (Child_waitq p)"
      "parent_tid (g_tasks s i) = sint (tid (g_tasks s p))" "0 \<le> sint (tid (g_tasks s p))"
      "sched_find_by_tid (tid (g_tasks s p)) s = Some p" "p < SCHED_MAX_TASKS" "p \<noteq> i"
    and child: "sint (tid (g_tasks s i)) \<noteq> 0" "sint (tid (g_tasks s i)) \<noteq> SCHED_WAITPID_ANY"
      "\<And>j. 0 < j \<Longrightarrow> j < SCHED_MAX_TASKS \<Longrightarrow> j \<noteq> i \<Longrightarrow> used (g_tasks s j) \<Longrightarrow> tid (g_tasks s j) \<noteq> tid (g_tasks s i)"
  shows "state (g_tasks (sched_exit_code code s) p) = T_RUNNABLE
    \<and> (\<exists>v. sched_waitpid (sint (tid (g_tasks s i))) options ((sched_exit_code code s)\<lparr>g_current_idx := p\<rparr>)
           = (sint (tid (g_tasks s i)), Some (push_bit 8 (code AND 0xFF)), v) \<and> g_tasks v i = slot_zero)"
proof -
  let ?t = "g_tasks s i" and ?e = "sched_exit_code code s"
  have i: "i < 16" "used ?t" "0 < i"
    using current_slot [OF assms(2)] slot_ok_idle [OF sched_okD(2) [OF assms(1)]] assms(3) by auto
  have p: "0 < p" "\<not> is_idle (g_tasks s p)"
    using sched_okD(2) [OF assms(1) parent(6)] parent(2) by (cases p; auto simp: slot_ok_def)+
  note e = exit_slots [OF assms(1-3) parent(3-5) p(1) parent(6) parent(7) parent(1,2), of code]
  have id: "tid (g_tasks ?e j) = tid (g_tasks s j)" "used (g_tasks ?e j) = used (g_tasks s j)" for j
    using e(3) [of j] by (simp_all add: slot_id_def)
  let ?u = "?e\<lparr>g_current_idx := p\<rparr>"
  have cur: "sched_current_slot ?u = Some p" using parent(1,6) id(2) by (simp add: sched_current_slot_def)
  have "sched_try_reap_child (sint (tid (g_tasks s p))) (sint (tid ?t)) ?u
      = (sint (tid (g_tasks ?u i)), Some (push_bit 8 (exit_code (g_tasks ?u i) AND 0xFF)), sched_clear_task i ?u)"
  proof (rule reap_zombie [OF i(3,1)])
    show "state (g_tasks ?u i) = T_ZOMBIE" using e(2) by (simp add: exited_def)
    show "sched_task_is_child_of (g_tasks ?u i) (sint (tid (g_tasks s p))) (sint (tid ?t))"
      using e(2) i(2) assms(3) parent(3) by (simp add: exited_def sched_task_is_child_of_def)
    show "\<not> sched_task_is_child_of (g_tasks ?u j) (sint (tid (g_tasks s p))) (sint (tid ?t))"
      if "0 < j" "j < 16" "j \<noteq> i" for j
      using child(3) [OF that] child(2) id [of j] by (simp add: sched_task_is_child_of_def)
  qed
  then have r: "sched_try_reap_child (sint (tid (g_tasks s p))) (sint (tid ?t)) ?u
      = (sint (tid ?t), Some (push_bit 8 (code AND 0xFF)), sched_clear_task i ?u)"
    using e(2) by (simp add: exited_def)
  have "sched_waitpid (sint (tid ?t)) options ?u = (sint (tid ?t), Some (push_bit 8 (code AND 0xFF)), sched_clear_task i ?u)"
    using cur r e(1) p(2) child(1) by (simp add: sched_waitpid_def)
  moreover have "g_tasks (sched_clear_task i ?u) i = slot_zero" by (simp add: sched_clear_task_def)
  ultimately show ?thesis using e(1) by simp
qed

text \<open>Task 1 waits for its child, task 2, which runs.\<close>

definition demo_family :: sched where
  "demo_family =
     (sched_waitq_sleep (Child_waitq 1) 0 (snd (sched_spawn ''child'' (Some 8) 0 (demo_sched 100))))\<lparr>g_current_idx := 2\<rparr>"

lemma demo_family:
  "slot_id (g_tasks demo_family 1) = (1, True, False, 0)" "slot_id (g_tasks demo_family 2) = (2, True, False, 1)"
  "on_waitq (g_tasks demo_family 1) = Some (Child_waitq 1)" "2 < j \<Longrightarrow> \<not> used (g_tasks demo_family j)"
  "g_current_idx demo_family = 2" "sched_ok demo_family"
proof -
  let ?s = "snd (sched_spawn ''child'' (Some 8) 0 (demo_sched 100))"
  have "List.find (\<lambda>i. \<not> used (g_tasks (demo_sched 100) i)) [1..<16] = Some 2"
    using demo_sched_slots(1) [of 100] demo_sched_slots(3) [of _ 100] by (simp add: upt_rec slot_id_def slot_zero_def)
  then have al: "sched_alloc_slot (demo_sched 100) = int 2" by (simp add: sched_alloc_slot_def)
  note sp = spawn_slots [OF al demo_sched(1), where nm = "''child''" and e = 8 and ar = 0]
  have s1: "g_tasks ?s 1 = g_tasks (demo_sched 100) 1" "g_current_idx ?s = 1"
    using sp(2) [of 1] sp(4) demo_sched_slots(5) by simp_all
  then have cur: "sched_current_slot ?s = Some 1" "\<not> is_idle (g_tasks ?s 1)"
    using demo_sched_slots(1) [of 100] by (simp_all add: sched_current_slot_def slot_id_def)
  have ok: "sched_ok ?s" by (rule spawn_ok [OF demo_sched_slots(7)])
  note w = waitq_sleep_upd [OF ok cur, where q = "Child_waitq 1" and n = 0]
  show "sched_ok demo_family" unfolding demo_family_def using waitq_sleep_ok [OF ok, of "Child_waitq 1" 0] s1(2) by simp
  have g: "g_tasks demo_family = (g_tasks ?s)(1 := (g_tasks ?s 1)\<lparr>on_waitq := Some (Child_waitq 1), state := T_BLOCKED,
      wake_tick := 0, quantum_used := 0\<rparr>)"
    using w by (simp add: slot_upd_def demo_family_def)
  show "slot_id (g_tasks demo_family 1) = (1, True, False, 0)" "on_waitq (g_tasks demo_family 1) = Some (Child_waitq 1)"
    using g s1 demo_sched_slots(1) [of 100] by (simp_all add: slot_id_def)
  show "slot_id (g_tasks demo_family 2) = (2, True, False, 1)"
    using g sp(1) demo_sched_slots(4) demo_sched(3) by simp
  show "\<not> used (g_tasks demo_family j)" if "2 < j"
    using g sp(2) [of j] demo_sched_slots(3) [of j 100] that by (simp add: slot_zero_def)
qed (simp add: demo_family_def)

theorem exit_then_waitpid_witness:
  "state (g_tasks (sched_exit_code 7 demo_family) 1) = T_RUNNABLE
   \<and> (\<exists>v. sched_waitpid 2 0 ((sched_exit_code 7 demo_family)\<lparr>g_current_idx := 1\<rparr>) = (2, Some 0x700, v) \<and> g_tasks v 2 = slot_zero)"
proof -
  have t: "tid (g_tasks demo_family 1) = 1" "tid (g_tasks demo_family 2) = 2" "parent_tid (g_tasks demo_family 2) = 1"
    "used (g_tasks demo_family 1)" "used (g_tasks demo_family 2)" "\<not> is_idle (g_tasks demo_family 2)"
    using demo_family(1,2) by (simp_all add: slot_id_def)
  have cur: "sched_current_slot demo_family = Some 2" using t(5) demo_family(5) by (simp add: sched_current_slot_def)
  have find: "sched_find_by_tid 1 demo_family = Some 1" using t by (simp add: sched_find_by_tid_def upt_rec)
  have u: "tid (g_tasks demo_family j) \<noteq> 2" if "0 < j" "j \<noteq> 2" "used (g_tasks demo_family j)" for j
  proof -
    have "j = 1" using that demo_family(4) [of j] by linarith
    then show ?thesis using t(1) by simp
  qed
  show ?thesis
    using exit_then_waitpid [OF demo_family(6) cur t(6,4) demo_family(3), of 7 0] t find u by simp
qed

end
