(* ===== verification/ConsoleFb.thy ===== *)
theory ConsoleFb
  imports Prelude
begin

text \<open>
  The framebuffer console of the guest kernel (\<open>kernel/src/console_fb.c\<close>): a cursor over
  80 by 60 character cells of 8 by 8 pixels. The pixels are an array over the index
  expressions of the code; the font table is part of the state, since it is a variable of the
  program that no function writes.

  \<open>terminal\<close> is the specification: a grid of characters. \<open>displays s t\<close> says that the pixels of
  \<open>s\<close> are the picture of the grid \<open>t\<close>; every operation keeps it.
\<close>

section \<open>State\<close>

abbreviation (input) CELL_W :: int where "CELL_W \<equiv> 8"
abbreviation (input) CELL_H :: int where "CELL_H \<equiv> 8"
abbreviation (input) FBCON_WIDTH :: int where "FBCON_WIDTH \<equiv> 640"
abbreviation (input) FBCON_HEIGHT :: int where "FBCON_HEIGHT \<equiv> 480"
abbreviation (input) COLS :: int where "COLS \<equiv> 80"
abbreviation (input) ROWS :: int where "ROWS \<equiv> 60"
abbreviation (input) ASCII_MIN :: int where "ASCII_MIN \<equiv> 32"
abbreviation (input) ASCII_MAX :: int where "ASCII_MAX \<equiv> 126"
abbreviation (input) FONT_PIXELS :: int where "FONT_PIXELS \<equiv> 64"
abbreviation (input) FG_DEFAULT :: u32 where "FG_DEFAULT \<equiv> 0x00FFFFFF"
abbreviation (input) BG_DEFAULT :: u32 where "BG_DEFAULT \<equiv> 0"

record fbcon =
  g_cursor_x :: int
  g_cursor_y :: int
  g_fg :: u32
  g_bg :: u32
  g_fb :: "int \<Rightarrow> u32"
  g_font :: "int \<Rightarrow> int"

text \<open>The nested loops over rows \<open>ys\<close> and columns \<open>xs\<close> of pixels.\<close>

definition for_px :: "int list \<Rightarrow> int list \<Rightarrow> (int \<Rightarrow> int \<Rightarrow> (int \<Rightarrow> u32) \<Rightarrow> (int \<Rightarrow> u32)) \<Rightarrow> (int \<Rightarrow> u32) \<Rightarrow> int \<Rightarrow> u32" where
  "for_px ys xs body fb = fold (\<lambda>y. fold (body y) xs) ys fb"

section \<open>Operations\<close>

definition clear_cell :: "int \<Rightarrow> int \<Rightarrow> fbcon \<Rightarrow> fbcon" where
  "clear_cell cx cy s =
     (let py = cy * CELL_H; px = cx * CELL_W in
      s\<lparr>g_fb := for_px [0..CELL_H - 1] [0..CELL_W - 1]
          (\<lambda>y x fb. fb((py + y) * FBCON_WIDTH + (px + x) := g_bg s)) (g_fb s)\<rparr>)"

definition draw_box :: "int \<Rightarrow> int \<Rightarrow> fbcon \<Rightarrow> fbcon" where
  "draw_box cx cy s =
     (let py = cy * CELL_H; px = cx * CELL_W in
      s\<lparr>g_fb := for_px [0..CELL_H - 1] [0..CELL_W - 1]
          (\<lambda>y x fb. fb((py + y) * FBCON_WIDTH + (px + x) :=
             (if y = 0 \<or> y = CELL_H - 1 \<or> x = 0 \<or> x = CELL_W - 1 then g_fg s else g_bg s))) (g_fb s)\<rparr>)"

definition draw_char :: "int \<Rightarrow> int \<Rightarrow> int \<Rightarrow> fbcon \<Rightarrow> fbcon" where
  "draw_char ch cx cy s =
     (let py = cy * CELL_H; px = cx * CELL_W in
      if ch < ASCII_MIN \<or> ASCII_MAX < ch then draw_box cx cy s
      else
        let glyph_base = (ch - ASCII_MIN) * FONT_PIXELS in
        s\<lparr>g_fb := for_px [0..CELL_H - 1] [0..CELL_W - 1]
            (\<lambda>row col fb. fb((py + row) * FBCON_WIDTH + (px + col) :=
               (if g_font s (glyph_base + row * CELL_W + col) \<noteq> 0 then g_fg s else g_bg s))) (g_fb s)\<rparr>)"

definition scroll_one_line :: "fbcon \<Rightarrow> fbcon" where
  "scroll_one_line s =
     (let src_start = CELL_H; h = FBCON_HEIGHT; w = FBCON_WIDTH;
          fb = for_px [0..h - CELL_H - 1] [0..w - 1] (\<lambda>y x fb. fb(y * w + x := fb ((y + src_start) * w + x))) (g_fb s);
          fb = for_px [h - CELL_H..h - 1] [0..w - 1] (\<lambda>y x fb. fb(y * w + x := g_bg s)) fb in
      s\<lparr>g_fb := fb\<rparr>)"

definition newline :: "fbcon \<Rightarrow> fbcon" where
  "newline s =
     (let s = s\<lparr>g_cursor_x := 0, g_cursor_y := g_cursor_y s + 1\<rparr> in
      if ROWS \<le> g_cursor_y s then (scroll_one_line s)\<lparr>g_cursor_y := ROWS - 1\<rparr> else s)"

definition console_fb_clear :: "fbcon \<Rightarrow> fbcon" where
  "console_fb_clear s =
     s\<lparr>g_fb := for_px [0..FBCON_HEIGHT - 1] [0..FBCON_WIDTH - 1] (\<lambda>y x fb. fb(y * FBCON_WIDTH + x := g_bg s)) (g_fb s),
       g_cursor_x := 0, g_cursor_y := 0\<rparr>"

definition console_fb_init :: "fbcon \<Rightarrow> fbcon" where
  "console_fb_init s = console_fb_clear (s\<lparr>g_fg := FG_DEFAULT, g_bg := BG_DEFAULT, g_cursor_x := 0, g_cursor_y := 0\<rparr>)"

definition console_fb_set_colors :: "u32 \<Rightarrow> u32 \<Rightarrow> fbcon \<Rightarrow> fbcon" where
  "console_fb_set_colors fg bg s = s\<lparr>g_fg := fg, g_bg := bg\<rparr>"

function console_fb_putc :: "u32 \<Rightarrow> fbcon \<Rightarrow> fbcon" where
  "console_fb_putc c s =
     (if c = 7 then s
      else if c = 10 then newline s
      else if c = 11 then newline s
      else if c = 12 then console_fb_clear s
      else if c = 8 then
        if 0 < g_cursor_x s then
          let s = s\<lparr>g_cursor_x := g_cursor_x s - 1\<rparr> in clear_cell (g_cursor_x s) (g_cursor_y s) s
        else if 0 < g_cursor_y s then
          let s = s\<lparr>g_cursor_y := g_cursor_y s - 1, g_cursor_x := COLS - 1\<rparr> in clear_cell (g_cursor_x s) (g_cursor_y s) s
        else s
      else if c = 13 then s\<lparr>g_cursor_x := 0\<rparr>
      else if c = 9 then console_fb_putc 32 (console_fb_putc 32 (console_fb_putc 32 (console_fb_putc 32 s)))
      else
        let s = (if c = 0 then clear_cell (g_cursor_x s) (g_cursor_y s) s
                 else draw_char (sint c) (g_cursor_x s) (g_cursor_y s) s);
            s = s\<lparr>g_cursor_x := g_cursor_x s + 1\<rparr> in
        if COLS \<le> g_cursor_x s then newline s else s)"
  by pat_completeness auto

termination console_fb_putc
  by (relation "measure (\<lambda>(c, s). if c = 9 then 1 else 0)") auto

declare console_fb_putc.simps [simp del]

definition console_fb_puts :: "u8 list \<Rightarrow> fbcon \<Rightarrow> fbcon" where
  "console_fb_puts p s = fold (\<lambda>c. console_fb_putc (ucast c)) (takeWhile (\<lambda>c. c \<noteq> 0) p) s"

section \<open>Pixels written by the loops\<close>

lemma upto_Suc: "[0..int (Suc n) - 1] = [0..int n - 1] @ [int n]"
  using upto_rec2 [of 0 "int n"] by simp

lemma row_fill:
  "fold (\<lambda>x fb. fb(b + x := v x)) [0..int n - 1] fb i = (if b \<le> i \<and> i < b + int n then v (i - b) else fb i)"
proof (induction n)
  case (Suc n)
  then show ?case unfolding upto_Suc by auto
qed auto

lemma row_copy:
  assumes "int n \<le> d"
  shows "fold (\<lambda>x fb. fb(b + x := fb (b + d + x))) [0..int n - 1] fb i
         = (if b \<le> i \<and> i < b + int n then fb (i + d) else fb i)"
  using assms
proof (induction n arbitrary: i)
  case (Suc n)
  let ?f = "fold (\<lambda>x fb. fb(b + x := fb (b + d + x))) [0..int n - 1] fb"
  have "?f (b + d + int n) = fb (b + d + int n)" using Suc.prems by (subst Suc.IH) auto
  moreover have "?f i = (if b \<le> i \<and> i < b + int n then fb (i + d) else fb i)" using Suc.prems by (subst Suc.IH) auto
  ultimately show ?case unfolding upto_Suc fold_append comp_def fold.simps id_def fun_upd_def by (auto simp: algebra_simps)
qed auto

text \<open>The index of a pixel is in row \<open>r\<close> when dividing by the width gives \<open>r\<close>.\<close>

lemma px_row:
  assumes "0 \<le> px" "px + w \<le> (640 :: int)"
  shows "r * 640 + px \<le> i \<and> i < r * 640 + px + w \<longleftrightarrow> i div 640 = r \<and> px \<le> i mod 640 \<and> i mod 640 < px + w"
proof -
  have i: "i = i div 640 * 640 + i mod 640" "0 \<le> i mod 640" "i mod 640 < 640" by simp_all
  show ?thesis
  proof
    assume a: "r * 640 + px \<le> i \<and> i < r * 640 + px + w"
    then have d: "i div 640 = r" using assms by (intro int_div_pos_eq [of i 640 r "i - 640 * r"]) auto
    then show "i div 640 = r \<and> px \<le> i mod 640 \<and> i mod 640 < px + w" using a i(1) by auto
  next
    assume "i div 640 = r \<and> px \<le> i mod 640 \<and> i mod 640 < px + w"
    then show "r * 640 + px \<le> i \<and> i < r * 640 + px + w" using i by auto
  qed
qed

lemma px_fill:
  assumes "0 \<le> px" "px + int n \<le> 640"
  shows "for_px [0..int m - 1] [0..int n - 1] (\<lambda>y x fb. fb((py + y) * 640 + (px + x) := v y x)) fb i
         = (if py \<le> i div 640 \<and> i div 640 < py + int m \<and> px \<le> i mod 640 \<and> i mod 640 < px + int n
            then v (i div 640 - py) (i mod 640 - px) else fb i)"
proof (induction m)
  case (Suc m)
  let ?b = "(py + int m) * 640 + px"
  have row: "fold (\<lambda>x fb. fb((py + int m) * 640 + (px + x) := v (int m) x)) [0..int n - 1] f i
      = (if i div 640 = py + int m \<and> px \<le> i mod 640 \<and> i mod 640 < px + int n then v (int m) (i mod 640 - px) else f i)" for f
  proof -
    have e: "i - ?b = i mod 640 - px" if "i div 640 = py + int m"
      using that minus_div_mult_eq_mod [of i 640] by (simp add: algebra_simps)
    have f: "(py + int m) * 640 + (px + x) = ?b + x" for x by simp
    show ?thesis unfolding f row_fill px_row [OF assms] by (rule if_cong [OF refl _ refl]) (simp only: e)
  qed
  show ?case
    unfolding for_px_def upto_Suc fold_append comp_def fold.simps id_def row Suc [unfolded for_px_def] by auto
qed (auto simp: for_px_def)

lemma px_copy:
  shows "for_px [0..int m - 1] [0..639] (\<lambda>y x fb. fb(y * 640 + x := fb ((y + 8) * 640 + x))) fb i
         = (if 0 \<le> i div 640 \<and> i div 640 < int m then fb (i + 5120) else fb i)"
proof (induction m arbitrary: i)
  case (Suc m)
  have row: "fold (\<lambda>x fb. fb(int m * 640 + x := fb ((int m + 8) * 640 + x))) [0..639] f i
      = (if i div 640 = int m then f (i + 5120) else f i)" for f i
    using row_copy [of 640 5120 "int m * 640" f i] px_row [of 0 640 "int m" i] by (auto simp: algebra_simps)
  have "(i + 5120) div 640 = i div 640 + 8" by simp
  then show ?case
    unfolding for_px_def upto_Suc fold_append comp_def fold.simps id_def row
    using Suc.IH [unfolded for_px_def] by auto
qed (auto simp: for_px_def)

section \<open>The specification: a grid of characters\<close>

record terminal =
  tx :: int
  ty :: int
  cells :: "int \<Rightarrow> int \<Rightarrow> u32"

definition term_newline :: "terminal \<Rightarrow> terminal" where
  "term_newline t =
     (if ty t < 59 then t\<lparr>tx := 0, ty := ty t + 1\<rparr>
      else t\<lparr>tx := 0, ty := 59, cells := \<lambda>r k. if r < 59 then cells t (r + 1) k else 0\<rparr>)"

definition term_put :: "u32 \<Rightarrow> terminal \<Rightarrow> terminal" where
  "term_put c t =
     (let t = t\<lparr>cells := (cells t)(ty t := (cells t (ty t))(tx t := c))\<rparr> in
      if tx t < 79 then t\<lparr>tx := tx t + 1\<rparr> else term_newline t)"

definition term_back :: "terminal \<Rightarrow> terminal" where
  "term_back t =
     (let erase = \<lambda>t. t\<lparr>cells := (cells t)(ty t := (cells t (ty t))(tx t := 0))\<rparr> in
      if 0 < tx t then erase (t\<lparr>tx := tx t - 1\<rparr>)
      else if 0 < ty t then erase (t\<lparr>ty := ty t - 1, tx := 79\<rparr>)
      else t)"

definition term_putc :: "u32 \<Rightarrow> terminal \<Rightarrow> terminal" where
  "term_putc c t =
     (if c = 7 then t
      else if c = 10 \<or> c = 11 then term_newline t
      else if c = 12 then t\<lparr>tx := 0, ty := 0, cells := \<lambda>_ _. 0\<rparr>
      else if c = 8 then term_back t
      else if c = 13 then t\<lparr>tx := 0\<rparr>
      else if c = 9 then (term_put 32 ^^ 4) t
      else term_put c t)"

text \<open>The cell of a pixel index, and the place of the pixel in it.\<close>

definition cell_row :: "int \<Rightarrow> int" where "cell_row i = i div 640 div 8"
definition cell_col :: "int \<Rightarrow> int" where "cell_col i = i mod 640 div 8"
definition cell_y :: "int \<Rightarrow> int" where "cell_y i = i div 640 mod 8"
definition cell_x :: "int \<Rightarrow> int" where "cell_x i = i mod 640 mod 8"

lemmas cell_defs = cell_row_def cell_col_def cell_y_def cell_x_def

text \<open>The colour of a pixel of a character, and the picture of a grid.\<close>

definition glyph :: "fbcon \<Rightarrow> u32 \<Rightarrow> int \<Rightarrow> int \<Rightarrow> u32" where
  "glyph s c y x =
     (if c = 0 then g_bg s
      else if sint c < 32 \<or> 126 < sint c
        then (if y = 0 \<or> y = 7 \<or> x = 0 \<or> x = 7 then g_fg s else g_bg s)
      else if g_font s ((sint c - 32) * 64 + y * 8 + x) \<noteq> 0 then g_fg s else g_bg s)"

definition picture :: "fbcon \<Rightarrow> (int \<Rightarrow> int \<Rightarrow> u32) \<Rightarrow> int \<Rightarrow> u32" where
  "picture s g i = glyph s (g (cell_row i) (cell_col i)) (cell_y i) (cell_x i)"

definition on_screen :: "terminal \<Rightarrow> bool" where
  "on_screen t \<longleftrightarrow> 0 \<le> tx t \<and> tx t < 80 \<and> 0 \<le> ty t \<and> ty t < 60"

definition displays :: "fbcon \<Rightarrow> terminal \<Rightarrow> bool" where
  "displays s t \<longleftrightarrow>
     g_cursor_x s = tx t \<and> g_cursor_y s = ty t \<and> on_screen t
     \<and> (\<forall>i. 0 \<le> i \<and> i < 307200 \<longrightarrow> g_fb s i = picture s (cells t) i)"

text \<open>The same colours and font, and nothing written outside the framebuffer.\<close>

definition fb_frame :: "fbcon \<Rightarrow> fbcon \<Rightarrow> bool" where
  "fb_frame s s' \<longleftrightarrow>
     g_fg s' = g_fg s \<and> g_bg s' = g_bg s \<and> g_font s' = g_font s
     \<and> (\<forall>i. i < 0 \<or> 307200 \<le> i \<longrightarrow> g_fb s' i = g_fb s i)"

lemma fb_frame_refl [simp]: "fb_frame s s"
  by (simp add: fb_frame_def)

lemma fb_frame_trans: "fb_frame s s' \<Longrightarrow> fb_frame s' s'' \<Longrightarrow> fb_frame s s''"
  by (simp add: fb_frame_def)

section \<open>Refinement\<close>

text \<open>Drawing \<open>v\<close> into the cell under the cursor.\<close>

lemma draw_cell:
  assumes "0 \<le> cx" "cx < 80" "0 \<le> cy" "cy < 60"
  shows "for_px [0..7] [0..7] (\<lambda>y x fb. fb((cy * 8 + y) * 640 + (cx * 8 + x) := v y x)) fb i
         = (if cell_row i = cy \<and> cell_col i = cx \<and> 0 \<le> i then v (cell_y i) (cell_x i) else fb i)"
proof -
  have l: "p * 8 \<le> q \<and> q < p * 8 + 8 \<longleftrightarrow> q div 8 = p" for p q :: int by presburger
  have "i div 640 div 8 \<noteq> cy" if "i < 0"
    using div_neg_pos_less0 [OF div_neg_pos_less0 [OF that]] assms(3) by (metis not_less zero_less_numeral)
  then have c: "cy * 8 \<le> i div 640 \<and> i div 640 < cy * 8 + 8 \<and> cx * 8 \<le> i mod 640 \<and> i mod 640 < cx * 8 + 8
      \<longleftrightarrow> i div 640 div 8 = cy \<and> i mod 640 div 8 = cx \<and> 0 \<le> i"
    using l [of cy "i div 640"] l [of cx "i mod 640"] by (metis not_le)
  have m: "q - p * 8 = q mod 8" if "q div 8 = p" for p q :: int using that minus_div_mult_eq_mod [of q 8] by simp
  have px: "0 \<le> cx * 8" "cx * 8 + int 8 \<le> 640" using assms by auto
  note px_fill [OF px, of 8 "cy * 8" v fb i, unfolded of_nat_numeral c]
  also have "(if i div 640 div 8 = cy \<and> i mod 640 div 8 = cx \<and> 0 \<le> i then v (i div 640 - cy * 8) (i mod 640 - cx * 8) else fb i)
      = (if i div 640 div 8 = cy \<and> i mod 640 div 8 = cx \<and> 0 \<le> i then v (i div 640 mod 8) (i mod 640 mod 8) else fb i)"
    by (rule if_cong [OF refl _ refl]) (metis m)
  finally show ?thesis by (simp only: diff_numeral_special cell_defs) simp
qed

lemma picture_cell:
  "picture s (g(r := (g r)(k := c))) i
   = (if cell_row i = r \<and> cell_col i = k then glyph s c (cell_y i) (cell_x i) else picture s g i)"
  by (simp add: picture_def)

lemma glyph_cong: "g_fg s' = g_fg s \<Longrightarrow> g_bg s' = g_bg s \<Longrightarrow> g_font s' = g_font s \<Longrightarrow> picture s' g i = picture s g i"
  by (simp add: picture_def glyph_def)

text \<open>The result of clearing or drawing a cell.\<close>

lemma cell_ops:
  assumes "0 \<le> cx" "cx < 80" "0 \<le> cy" "cy < 60" "c \<noteq> 0"
  shows "\<And>i. g_fb (clear_cell cx cy s) i = (if cell_row i = cy \<and> cell_col i = cx \<and> 0 \<le> i
           then glyph s 0 (cell_y i) (cell_x i) else g_fb s i)"
    and "\<And>i. g_fb (draw_char (sint c) cx cy s) i = (if cell_row i = cy \<and> cell_col i = cx \<and> 0 \<le> i
           then glyph s c (cell_y i) (cell_x i) else g_fb s i)"
    and "clear_cell cx cy s = s\<lparr>g_fb := g_fb (clear_cell cx cy s)\<rparr>"
    and "draw_char ch cx cy s = s\<lparr>g_fb := g_fb (draw_char ch cx cy s)\<rparr>"
proof -
  note d = draw_cell [OF assms(1-4)]
  show "g_fb (clear_cell cx cy s) i = (if cell_row i = cy \<and> cell_col i = cx \<and> 0 \<le> i
           then glyph s 0 (cell_y i) (cell_x i) else g_fb s i)" for i
    using d [of "\<lambda>_ _. g_bg s" "g_fb s" i] by (simp add: clear_cell_def glyph_def)
  show "g_fb (draw_char (sint c) cx cy s) i = (if cell_row i = cy \<and> cell_col i = cx \<and> 0 \<le> i
           then glyph s c (cell_y i) (cell_x i) else g_fb s i)" for i
  proof (cases "sint c < 32 \<or> 126 < sint c")
    case True
    then show ?thesis
      using d [of "\<lambda>y x. if y = 0 \<or> y = 7 \<or> x = 0 \<or> x = 7 then g_fg s else g_bg s" "g_fb s" i] assms(5)
      by (simp add: draw_char_def draw_box_def glyph_def)
  next
    case False
    then show ?thesis
      using d [of "\<lambda>y x. if g_font s ((sint c - 32) * 64 + y * 8 + x) \<noteq> 0 then g_fg s else g_bg s" "g_fb s" i] assms(5)
      by (simp add: draw_char_def glyph_def)
  qed
qed (simp_all add: clear_cell_def draw_char_def draw_box_def Let_def)

lemma for_px_bottom: "for_px [472..479] xs b fb = for_px [0..7] xs (\<lambda>y. b (472 + y)) fb"
proof -
  have "[0..7 :: int] = [0, 1, 2, 3, 4, 5, 6, 7]" by (simp add: upto_rec1)
  then show ?thesis by (simp add: for_px_def)
qed

lemma cell_next_row [simp]:
  "cell_row (i + 5120) = cell_row i + 1" "cell_col (i + 5120) = cell_col i" "cell_y (i + 5120) = cell_y i" "cell_x (i + 5120) = cell_x i"
proof -
  have d: "(i + 5120) div 640 = i div 640 + 8" "(i + 5120) mod 640 = i mod 640"
    using div_mult_self1 [of 640 i 8] mod_mult_self1 [of i 8 640] by simp_all
  have "(q + 8) div 8 = q div 8 + 1" "(q + 8) mod 8 = q mod 8" for q :: int by simp_all
  then show "cell_row (i + 5120) = cell_row i + 1" "cell_col (i + 5120) = cell_col i" "cell_y (i + 5120) = cell_y i"
    "cell_x (i + 5120) = cell_x i"
    unfolding cell_defs d by blast+
qed

lemma cell_row_bounds:
  "0 \<le> i div 640 \<longleftrightarrow> 0 \<le> i" "i div 640 < 472 \<longleftrightarrow> cell_row i < 59" "i div 640 < 480 \<longleftrightarrow> i < 307200"
  "i < 0 \<Longrightarrow> cell_row i < 59" "cell_row i < 59 \<Longrightarrow> i < 307200" "cell_row i < 60 \<Longrightarrow> i < 307200"
proof -
  define q r where "q = i div 640" and "r = i mod 640"
  have i: "i = q * 640 + r" "0 \<le> r" "r < 640" by (simp_all add: q_def r_def)
  show "0 \<le> i div 640 \<longleftrightarrow> 0 \<le> i" "i div 640 < 480 \<longleftrightarrow> i < 307200"
    unfolding q_def [symmetric] using i by linarith+
  show c: "i div 640 < 472 \<longleftrightarrow> cell_row i < 59" unfolding cell_row_def q_def [symmetric] by presburger
  show "i < 0 \<Longrightarrow> cell_row i < 59" "cell_row i < 59 \<Longrightarrow> i < 307200"
    unfolding c [symmetric] q_def [symmetric] using i by linarith+
  have "q < 480 \<longleftrightarrow> cell_row i < 60" unfolding cell_row_def q_def [symmetric] by presburger
  then show "cell_row i < 60 \<Longrightarrow> i < 307200" using i by linarith
qed

lemma fb_upd: "g_fb (s\<lparr>g_fb := f\<rparr>) = f" "g_fb (s\<lparr>g_fb := f, g_cursor_x := a, g_cursor_y := b\<rparr>) = f"
  by simp_all

lemma scroll_fb:
  "g_fb (scroll_one_line s) i = (if 0 \<le> i \<and> i < 307200 then if cell_row i < 59 then g_fb s (i + 5120) else g_bg s else g_fb s i)"
proof -
  have z: "0 \<le> (0 :: int)" "0 + int 640 \<le> 640" by simp_all
  have fill: "for_px [0..7] [0..639] (\<lambda>y x fb. fb((472 + y) * 640 + x := g_bg s)) fb i
      = (if 472 \<le> i div 640 \<and> i div 640 < 480 then g_bg s else fb i)" for fb
    using px_fill [OF z, of 8 472 "\<lambda>_ _. g_bg s" fb i] by simp
  have copy: "for_px [0..471] [0..639] (\<lambda>y x fb. fb(y * 640 + x := fb ((y + 8) * 640 + x))) (g_fb s) i
      = (if 0 \<le> i div 640 \<and> i div 640 < 472 then g_fb s (i + 5120) else g_fb s i)"
    using px_copy [of 472 "g_fb s" i] by simp
  have e: "(480 :: int) - 8 = 472" "(472 :: int) - 1 = 471" "(480 :: int) - 1 = 479" "(640 :: int) - 1 = 639" by simp_all
  have "g_fb (scroll_one_line s) i = (if 472 \<le> i div 640 \<and> i div 640 < 480 then g_bg s
      else if 0 \<le> i div 640 \<and> i div 640 < 472 then g_fb s (i + 5120) else g_fb s i)"
    unfolding scroll_one_line_def Let_def e for_px_bottom fb_upd fill copy ..
  then show ?thesis 
    unfolding linorder_not_less [of 472 "i div 640", symmetric] linorder_not_less [of "i div 640" 472, symmetric] cell_row_bounds(1-3)
    using cell_row_bounds(4,5) [of i] by auto
qed

lemma clear_fb: "g_fb (console_fb_clear s) i = (if 0 \<le> i \<and> i < 307200 then g_bg s else g_fb s i)"
proof -
  have z: "0 \<le> (0 :: int)" "0 + int 640 \<le> 640" by simp_all
  have fill: "for_px [0..479] [0..639] (\<lambda>y x fb. fb(y * 640 + x := g_bg s)) fb i
      = (if 0 \<le> i div 640 \<and> i div 640 < 480 then g_bg s else fb i)" for fb
    using px_fill [OF z, of 480 0 "\<lambda>_ _. g_bg s" fb i] by simp
  have e: "(480 :: int) - 1 = 479" "(640 :: int) - 1 = 639" by simp_all
  show ?thesis unfolding console_fb_clear_def e fb_upd fill cell_row_bounds ..
qed

lemma scroll_fields:
  "scroll_one_line s = s\<lparr>g_fb := g_fb (scroll_one_line s)\<rparr>"
  by (simp add: scroll_one_line_def Let_def)

lemma displaysD:
  assumes "displays s t"
  shows "g_cursor_x s = tx t" "g_cursor_y s = ty t" "0 \<le> tx t" "tx t < 80" "0 \<le> ty t" "ty t < 60"
    "0 \<le> i \<Longrightarrow> i < 307200 \<Longrightarrow> g_fb s i = picture s (cells t) i"
  using assms by (auto simp: displays_def on_screen_def)

lemma picture_upd [simp]:
  "picture (s\<lparr>g_fb := f\<rparr>) = picture s" "picture (s\<lparr>g_cursor_x := a\<rparr>) = picture s" "picture (s\<lparr>g_cursor_y := b\<rparr>) = picture s"
  by (simp_all add: fun_eq_iff picture_def glyph_def)

lemma newline_displays:
  assumes "displays s t"
  shows "displays (newline s) (term_newline t) \<and> fb_frame s (newline s)"
proof (cases "ty t < 59")
  case True
  then show ?thesis
    using assms by (simp add: newline_def term_newline_def displays_def on_screen_def fb_frame_def)
next
  case False
  let ?s = "s\<lparr>g_cursor_x := 0, g_cursor_y := g_cursor_y s + 1\<rparr>"
  have n: "newline s = (?s\<lparr>g_fb := g_fb (scroll_one_line ?s)\<rparr>)\<lparr>g_cursor_y := 59\<rparr>"
    using False displaysD(2) [OF assms] scroll_fields [of ?s] by (simp add: newline_def)
  have t: "term_newline t = t\<lparr>tx := 0, ty := 59, cells := \<lambda>r k. if r < 59 then cells t (r + 1) k else 0\<rparr>"
    using False by (simp add: term_newline_def)
  have "g_fb (scroll_one_line ?s) i = picture s (\<lambda>r k. if r < 59 then cells t (r + 1) k else 0) i"
    if i: "0 \<le> i" "i < 307200" for i
  proof (cases "cell_row i < 59")
    case True
    have "i + 5120 < 307200"
    proof -
      have "cell_row (i + 5120) < 60" using True by simp
      then show ?thesis by (rule cell_row_bounds(6))
    qed
    then have "g_fb s (i + 5120) = picture s (cells t) (i + 5120)" using displaysD(7) [OF assms] i by simp
    then show ?thesis using True i by (simp add: scroll_fb picture_def)
  next
    case False
    then show ?thesis using i by (simp add: scroll_fb picture_def glyph_def)
  qed
  then show ?thesis
    unfolding n t by (simp add: displays_def on_screen_def fb_frame_def scroll_fb)
qed

lemma newline_x: "newline (s\<lparr>g_cursor_x := a\<rparr>) = newline s"
  by (simp add: newline_def)

text \<open>Writing a character or erasing one in the cell under the cursor.\<close>

lemma cell_displays:
  assumes "displays s t" "s' = s\<lparr>g_fb := f\<rparr>"
    "\<And>i. f i = (if cell_row i = ty t \<and> cell_col i = tx t \<and> 0 \<le> i then glyph s c (cell_y i) (cell_x i) else g_fb s i)"
  shows "displays s' (t\<lparr>cells := (cells t)(ty t := (cells t (ty t))(tx t := c))\<rparr>) \<and> fb_frame s s'"
proof -
  note d = displaysD [OF assms(1)]
  have "f i = picture s ((cells t)(ty t := (cells t (ty t))(tx t := c))) i" if "0 \<le> i" "i < 307200" for i
    using assms(3) [of i] d(7) [OF that] that by (simp add: picture_cell)
  moreover have "f i = g_fb s i" if "i < 0 \<or> 307200 \<le> i" for i
    using assms(3) [of i] that d(6) cell_row_bounds(6) [of i] by auto
  ultimately show ?thesis using d(1-6) by (simp add: assms(2) displays_def on_screen_def fb_frame_def)
qed

lemma put_displays:
  assumes "displays s t" "c \<notin> {7, 8, 9, 10, 11, 12, 13}"
  shows "displays (console_fb_putc c s) (term_put c t) \<and> fb_frame s (console_fb_putc c s)"
proof -
  note d = displaysD [OF assms(1)]
  let ?t = "t\<lparr>cells := (cells t)(ty t := (cells t (ty t))(tx t := c))\<rparr>"
  let ?s = "if c = 0 then clear_cell (tx t) (ty t) s else draw_char (sint c) (tx t) (ty t) s"
  have "displays ?s ?t \<and> fb_frame s ?s"
  proof (cases "c = 0")
    case True
    then show ?thesis
      using cell_displays [OF assms(1) cell_ops(3) [OF d(3-6) one_neq_zero] cell_ops(1) [OF d(3-6) one_neq_zero]] by simp
  next
    case False
    then show ?thesis
      using cell_displays [OF assms(1) cell_ops(4) [OF d(3-6) False] cell_ops(2) [OF d(3-6) False]] by simp
  qed
  moreover have "console_fb_putc c s
      = (if 80 \<le> tx t + 1 then newline (?s\<lparr>g_cursor_x := tx t + 1\<rparr>) else ?s\<lparr>g_cursor_x := tx t + 1\<rparr>)"
    using assms(2) d(1,2) calculation by (subst console_fb_putc.simps) (auto simp: Let_def displays_def)
  moreover have "displays (newline ?s) (term_newline ?t) \<and> fb_frame ?s (newline ?s)"
    using newline_displays calculation(1) by blast
  ultimately show ?thesis
    using d(3-6) fb_frame_trans [of s ?s "newline ?s"]
    by (auto simp: term_put_def Let_def newline_x displays_def on_screen_def fb_frame_def)
qed

lemma back_displays:
  assumes "displays s t"
  shows "displays (console_fb_putc 8 s) (term_back t) \<and> fb_frame s (console_fb_putc 8 s)"
proof -
  note d = displaysD [OF assms]
  have erase: "displays (clear_cell x y u) (v\<lparr>cells := (cells v)(ty v := (cells v (ty v))(tx v := 0))\<rparr>) \<and> fb_frame s (clear_cell x y u)"
    if "displays u v" "fb_frame s u" "x = tx v" "y = ty v" for u v x y
  proof -
    note e = displaysD(3-6) [OF that(1)]
    show ?thesis
      using cell_displays [OF that(1) cell_ops(3) [OF e one_neq_zero] cell_ops(1) [OF e one_neq_zero]]
        fb_frame_trans [OF that(2)] unfolding that(3,4) by blast
  qed
  consider "0 < tx t" | "tx t = 0" "0 < ty t" | "tx t = 0" "ty t = 0" using d(3,5) by linarith
  then show ?thesis
  proof cases
    case 1
    have "displays (s\<lparr>g_cursor_x := tx t - 1\<rparr>) (t\<lparr>tx := tx t - 1\<rparr>)" "fb_frame s (s\<lparr>g_cursor_x := tx t - 1\<rparr>)"
      using 1 d assms by (auto simp: displays_def on_screen_def fb_frame_def)
    then show ?thesis
      using erase [of "s\<lparr>g_cursor_x := tx t - 1\<rparr>" "t\<lparr>tx := tx t - 1\<rparr>"] 1 d(1,2)
      by (subst (1 2) console_fb_putc.simps) (simp add: term_back_def Let_def)
  next
    case 2
    let ?u = "s\<lparr>g_cursor_y := ty t - 1, g_cursor_x := 79\<rparr>" and ?v = "t\<lparr>ty := ty t - 1, tx := 79\<rparr>"
    have "displays ?u ?v" "fb_frame s ?u"
      using 2 d assms by (auto simp: displays_def on_screen_def fb_frame_def)
    then show ?thesis
      using erase [of ?u ?v] 2 d(1,2) by (subst (1 2) console_fb_putc.simps) (simp add: term_back_def Let_def)
  next
    case 3
    then show ?thesis
      using assms d(1,2) by (subst (1 2) console_fb_putc.simps) (simp add: term_back_def Let_def)
  qed
qed

lemma putc_displays:
  assumes "displays s t"
  shows "displays (console_fb_putc c s) (term_putc c t) \<and> fb_frame s (console_fb_putc c s)"
proof -
  consider "c = 7" | "c = 10 \<or> c = 11" | "c = 12" | "c = 8" | "c = 13" | "c = 9" | "c \<notin> {7, 8, 9, 10, 11, 12, 13}" by blast
  then show ?thesis
  proof cases
    case 1
    then show ?thesis using assms by (simp add: console_fb_putc.simps [of 7] term_putc_def)
  next
    case 2
    then show ?thesis
      using newline_displays [OF assms] by (auto simp: console_fb_putc.simps [of 10] console_fb_putc.simps [of 11] term_putc_def)
  next
    case 3
    have "console_fb_clear s = s\<lparr>g_fb := g_fb (console_fb_clear s), g_cursor_x := 0, g_cursor_y := 0\<rparr>"
      by (simp add: console_fb_clear_def)
    then have "displays (console_fb_clear s) (t\<lparr>tx := 0, ty := 0, cells := \<lambda>_ _. 0\<rparr>) \<and> fb_frame s (console_fb_clear s)"
      unfolding displays_def fb_frame_def on_screen_def clear_fb
      by (simp add: console_fb_clear_def picture_def glyph_def)
    then show ?thesis using 3 by (simp add: console_fb_putc.simps [of 12] term_putc_def)
  next
    case 4
    then show ?thesis using back_displays [OF assms] by (simp add: term_putc_def)
  next
    case 5
    then show ?thesis
      using assms by (simp add: console_fb_putc.simps [of 13] term_putc_def displays_def on_screen_def fb_frame_def)
  next
    case 6
    have p: "displays (console_fb_putc 32 u) (term_put 32 v) \<and> fb_frame s (console_fb_putc 32 u)"
      if "displays u v \<and> fb_frame s u" for u v
      using put_displays [of u v 32] that fb_frame_trans by auto
    have "displays s t \<and> fb_frame s s" using assms by simp
    note p [OF p [OF p [OF p [OF this]]]]
    moreover have "(f ^^ 4) u = f (f (f (f u)))" for f :: "terminal \<Rightarrow> terminal" and u by (simp add: numeral_eq_Suc)
    ultimately show ?thesis using 6 by (simp add: console_fb_putc.simps [of 9] term_putc_def)
  next
    case 7
    then show ?thesis using put_displays [OF assms] by (simp add: term_putc_def)
  qed
qed

lemma putcs_display:
  "displays s t \<Longrightarrow> displays (fold console_fb_putc cs s) (fold term_putc cs t) \<and> fb_frame s (fold console_fb_putc cs s)"
proof (induction cs arbitrary: s t)
  case (Cons c cs)
  then show ?case using putc_displays [OF Cons.prems, of c] fb_frame_trans by fastforce
qed simp

definition blank :: terminal where
  "blank = \<lparr>tx = 0, ty = 0, cells = \<lambda>_ _. 0\<rparr>"

lemma init_displays: "displays (console_fb_init s) blank"
  unfolding displays_def console_fb_init_def clear_fb
  by (simp add: console_fb_clear_def blank_def on_screen_def picture_def glyph_def)

section \<open>Properties\<close>

text \<open>C11: Whatever characters are written to the framebuffer console after its initialisation, control characters,
  wrapped lines and scrolling included, the pixels are the picture of the character grid of a plain text terminal
  of 80 columns and 60 rows, the cursor is that terminal's cursor and stays on the screen, and no
  pixel outside the framebuffer is written.\<close>

theorem fb_console_refines_terminal:
  "let s0 = console_fb_init s; s' = fold console_fb_putc cs s0; t = fold term_putc cs blank in
     g_cursor_x s' = tx t \<and> g_cursor_y s' = ty t \<and> 0 \<le> tx t \<and> tx t < COLS \<and> 0 \<le> ty t \<and> ty t < ROWS
     \<and> (\<forall>i. g_fb s' i = (if 0 \<le> i \<and> i < FBCON_WIDTH * FBCON_HEIGHT then picture s0 (cells t) i else g_fb s i))"
proof -
  let ?s = "fold console_fb_putc cs (console_fb_init s)" and ?t = "fold term_putc cs blank"
  have d: "displays ?s ?t" "fb_frame (console_fb_init s) ?s" using putcs_display [OF init_displays] by blast+
  have "picture ?s g i = picture (console_fb_init s) g i" for g i
    using d(2) by (intro glyph_cong) (simp_all add: fb_frame_def)
  moreover have "g_fb (console_fb_init s) i = g_fb s i" if "i < 0 \<or> 307200 \<le> i" for i
    using that unfolding console_fb_init_def clear_fb by auto
  ultimately show ?thesis using d by (auto simp: Let_def displays_def on_screen_def fb_frame_def)
qed

end
