(* ===== verification/Fifo.thy ===== *)
theory Fifo
  imports Prelude
begin

text \<open>
  Ring buffers. \<open>ring_content\<close> is the list a ring of \<open>n\<close> cells holds between its
  read index \<open>tail\<close> and its write index \<open>head\<close>; one cell stays free, so a ring of
  \<open>n\<close> cells holds at most \<open>n - 1\<close> elements.

  \<open>bounded_fifo\<close> is the contract of a queue that rejects input when it is full.
  The serial receiver of the machine and the console input ring of the kernel
  provide it.
\<close>

section \<open>Rings\<close>

definition ring_content :: "(nat \<Rightarrow> 'a) \<Rightarrow> nat \<Rightarrow> nat \<Rightarrow> nat \<Rightarrow> 'a list" where
  "ring_content buf n head tail = map (\<lambda>i. buf ((tail + i) mod n)) [0..<(head + n - tail) mod n]"

lemma mod_wrap: "a < n + n \<Longrightarrow> a mod n = (if a < n then a else a - (n :: nat))"
  by (simp add: mod_if)

lemma ring_gap:
  assumes "head < n" "tail < (n :: nat)"
  shows "(head + n - tail) mod n = (if tail \<le> head then head - tail else head + n - tail)"
  using mod_wrap [of "head + n - tail" n] assms by (auto simp: not_less)

lemma ring_length: "length (ring_content buf n head tail) = (head + n - tail) mod n"
  by (simp add: ring_content_def)

lemma ring_length_less: "0 < n \<Longrightarrow> length (ring_content buf n head tail) < n"
  by (simp add: ring_length)

lemma ring_empty:
  assumes "head < n" "tail < n"
  shows "ring_content buf n head tail = [] \<longleftrightarrow> head = tail"
proof -
  have "ring_content buf n head tail = [] \<longleftrightarrow> (head + n - tail) mod n = 0"
    by (simp add: ring_content_def)
  then show ?thesis using assms ring_gap [OF assms] by auto
qed

lemma ring_full:
  assumes "head < n" "tail < n"
  shows "length (ring_content buf n head tail) = n - 1 \<longleftrightarrow> (head + 1) mod n = tail"
  using assms ring_gap [OF assms] by (auto simp: ring_length mod_if)

lemma ring_index_inj:
  assumes "head < n" "tail < (n :: nat)" "i < (head + n - tail) mod n"
  shows "(tail + i) mod n \<noteq> head"
proof -
  have "tail + i < n + n" using assms ring_gap [OF assms(1,2)] by (simp split: if_splits)
  then show ?thesis using assms ring_gap [OF assms(1,2)] mod_wrap [of "tail + i" n] by (auto split: if_splits)
qed

lemma ring_enq:
  assumes "head < n" "tail < n" "(head + 1) mod n \<noteq> tail"
  shows "ring_content (buf(head := x)) n ((head + 1) mod n) tail = ring_content buf n head tail @ [x]"
proof -
  let ?k = "(head + n - tail) mod n"
  have "((head + 1) mod n + n - tail) mod n = Suc ?k"
    using assms ring_gap [OF assms(1,2)] ring_gap [of "(head + 1) mod n" n tail]
    by (auto simp: mod_if split: if_splits)
  moreover have "(tail + ?k) mod n = head"
    using assms ring_gap [OF assms(1,2)] by (auto simp: mod_if)
  moreover have "(buf(head := x)) ((tail + i) mod n) = buf ((tail + i) mod n)" if "i < ?k" for i
    using ring_index_inj [OF assms(1,2) that] by simp
  ultimately show ?thesis by (simp add: ring_content_def)
qed

lemma ring_deq:
  assumes "head < n" "tail < n" "head \<noteq> tail"
  shows "ring_content buf n head tail = buf tail # ring_content buf n head ((tail + 1) mod n)"
proof -
  let ?t = "(tail + 1) mod n"
  have k: "(head + n - tail) mod n = Suc ((head + n - ?t) mod n)"
    using assms ring_gap [OF assms(1,2)] ring_gap [of head n ?t] by (auto simp: mod_if split: if_splits)
  have "(tail + Suc i) mod n = (?t + i) mod n" for i
    by (simp add: mod_simps)
  then show ?thesis
    unfolding ring_content_def k map_upt_Suc using assms(2) by simp
qed

lemma ring_last:
  assumes "head < n" "tail < n" "head \<noteq> tail"
  shows "ring_content buf n head tail = ring_content buf n ((head + (n - 1)) mod n) tail @ [buf ((head + (n - 1)) mod n)]"
proof -
  let ?h = "(head + (n - 1)) mod n"
  have "(?h + 1) mod n = head" using assms(1) by (simp add: mod_simps)
  then show ?thesis using ring_enq [of ?h n tail buf "buf ?h"] assms by simp
qed

section \<open>The contract\<close>

locale bounded_fifo =
  fixes enq :: "'a \<Rightarrow> 's \<Rightarrow> bool \<times> 's"
    and deq :: "'s \<Rightarrow> 'a option \<times> 's"
    and content :: "'s \<Rightarrow> 'a list"
    and ok :: "'s \<Rightarrow> bool"
    and cap :: nat
  assumes enq_room: "ok s \<Longrightarrow> length (content s) < cap
      \<Longrightarrow> fst (enq x s) \<and> ok (snd (enq x s)) \<and> content (snd (enq x s)) = content s @ [x]"
    and enq_full: "ok s \<Longrightarrow> length (content s) = cap
      \<Longrightarrow> \<not> fst (enq x s) \<and> ok (snd (enq x s)) \<and> content (snd (enq x s)) = content s"
    and deq_cons: "ok s \<Longrightarrow> content s = x # xs
      \<Longrightarrow> fst (deq s) = Some x \<and> ok (snd (deq s)) \<and> content (snd (deq s)) = xs"
    and deq_nil: "ok s \<Longrightarrow> content s = []
      \<Longrightarrow> fst (deq s) = None \<and> ok (snd (deq s)) \<and> content (snd (deq s)) = []"
    and length_le: "ok s \<Longrightarrow> length (content s) \<le> cap"
begin

text \<open>A burst of input is kept up to the capacity; the bytes that do not fit are dropped.\<close>

lemma enq_burst:
  "ok s \<Longrightarrow> ok (fold (\<lambda>x s. snd (enq x s)) xs s)
     \<and> content (fold (\<lambda>x s. snd (enq x s)) xs s) = content s @ take (cap - length (content s)) xs"
proof (induction xs arbitrary: s)
  case Nil
  then show ?case by simp
next
  case (Cons x xs)
  show ?case
  proof (cases "length (content s) < cap")
    case True
    then show ?thesis
      using Cons.IH [of "snd (enq x s)"] enq_room [OF Cons.prems True, of x]
      by (simp add: take_Cons' Suc_diff_Suc)
  next
    case False
    then have full: "length (content s) = cap" using length_le [OF Cons.prems] by simp
    then show ?thesis
      using Cons.IH [of "snd (enq x s)"] enq_full [OF Cons.prems full, of x] by simp
  qed
qed

text \<open>Reading \<open>n\<close> times returns the first \<open>n\<close> elements in order and leaves the rest.\<close>

lemma deq_many:
  "ok s \<Longrightarrow> n \<le> length (content s)
   \<Longrightarrow> content (((\<lambda>s. snd (deq s)) ^^ n) s) = drop n (content s) \<and> ok (((\<lambda>s. snd (deq s)) ^^ n) s)"
proof (induction n)
  case 0
  then show ?case by simp
next
  case (Suc n)
  let ?t = "((\<lambda>s. snd (deq s)) ^^ n) s"
  have t: "content ?t = drop n (content s)" "ok ?t" using Suc by simp_all
  have "drop n (content s) = content s ! n # drop (Suc n) (content s)"
    using Suc.prems by (simp add: Cons_nth_drop_Suc)
  then show ?case using deq_cons [OF t(2)] t(1) by simp
qed

end

end
