(* ===== verification/Console.thy ===== *)
theory Console
  imports Turns ConsoleFb Fifo
begin

text \<open>
  The terminal of the guest kernel (\<open>kernel/src/console.c\<close>): the receive ring that the interrupt
  handlers feed, line editing, echo, and the read side that blocks on the ring's wait queue.

  The record extends the scheduler's, since feeding wakes readers and reading blocks the
  current task. A loop of the code that walks back over the ring is \<open>kill_loop\<close>; it ends
  in every state that satisfies \<open>console_ok\<close>. \<open>tty_feed\<close> is the specification of the input side over
  the list of bytes in the ring. The ring provides the contract \<open>bounded_fifo\<close>.
\<close>

section \<open>State\<close>

abbreviation (input) CONSOLE_RX_CAP :: u32 where "CONSOLE_RX_CAP \<equiv> 256"
abbreviation (input) CONSOLE_RX_MASK :: u32 where "CONSOLE_RX_MASK \<equiv> 255"
abbreviation (input) TTY_LFLAG_ECHO :: u32 where "TTY_LFLAG_ECHO \<equiv> 1"
abbreviation (input) TTY_LFLAG_ICANON :: u32 where "TTY_LFLAG_ICANON \<equiv> 2"
abbreviation (input) TTY_LFLAG_ISIG :: u32 where "TTY_LFLAG_ISIG \<equiv> 4"
abbreviation (input) TTY_LFLAG_SUPPORTED :: u32 where "TTY_LFLAG_SUPPORTED \<equiv> 7"
abbreviation (input) TTY_CC_VINTR :: u8 where "TTY_CC_VINTR \<equiv> 0x03"
abbreviation (input) TTY_CC_VEOF :: u8 where "TTY_CC_VEOF \<equiv> 0x04"
abbreviation (input) TTY_CC_VERASE_BS :: u8 where "TTY_CC_VERASE_BS \<equiv> 0x08"
abbreviation (input) TTY_CC_VERASE_DEL :: u8 where "TTY_CC_VERASE_DEL \<equiv> 0x7F"
abbreviation (input) TTY_CC_VKILL :: u8 where "TTY_CC_VKILL \<equiv> 0x15"
abbreviation (input) CONSOLE_IO_OK :: int where "CONSOLE_IO_OK \<equiv> 0"
abbreviation (input) CONSOLE_IO_BLOCKED :: int where "CONSOLE_IO_BLOCKED \<equiv> - 1"

record console = sched +
  g_rx_head :: u32
  g_rx_tail :: u32
  g_rx_dropped :: u32
  g_rx_lines :: u32
  g_rx_eofs :: u32
  g_tty_lflag :: u32
  g_rx_buf :: "nat \<Rightarrow> u8"
  screen :: fbcon

definition fb_putc :: "u32 \<Rightarrow> 'a console_scheme \<Rightarrow> 'a console_scheme" where
  "fb_putc c s = s\<lparr>screen := console_fb_putc c (screen s)\<rparr>"

definition lflag :: "u32 \<Rightarrow> 'a console_scheme \<Rightarrow> bool" where
  "lflag m s \<longleftrightarrow> g_tty_lflag s AND m \<noteq> 0"

section \<open>Echo\<close>

definition console_echo_data_char :: "u8 \<Rightarrow> 'a console_scheme \<Rightarrow> 'a console_scheme" where
  "console_echo_data_char c s =
     (if \<not> lflag TTY_LFLAG_ECHO s then s
      else if c = 7 \<or> c = 10 \<or> c = 13 \<or> c = 9 \<or> c = 11 \<or> c = 12 \<or> (32 \<le> c \<and> c \<le> 126)
      then fb_putc (ucast c) s else s)"

definition console_echo_backspace :: "'a console_scheme \<Rightarrow> 'a console_scheme" where
  "console_echo_backspace s = (if \<not> lflag TTY_LFLAG_ECHO s then s else fb_putc 8 s)"

definition console_echo_intr :: "'a console_scheme \<Rightarrow> 'a console_scheme" where
  "console_echo_intr s =
     (if \<not> lflag TTY_LFLAG_ECHO s then s else fb_putc 10 (fb_putc 67 (fb_putc 94 s)))"

section \<open>The receive ring\<close>

definition console_rx_pop_last_editable :: "'a console_scheme \<Rightarrow> bool \<times> 'a console_scheme" where
  "console_rx_pop_last_editable s =
     (let head = g_rx_head s in
      if head = g_rx_tail s then (False, s)
      else
        let prev = (head - 1) AND CONSOLE_RX_MASK in
        if g_rx_buf s (unat prev) = 10 \<or> g_rx_buf s (unat prev) = TTY_CC_VEOF then (False, s)
        else (True, s\<lparr>g_rx_head := prev\<rparr>))"

definition console_rx_enqueue_char :: "u8 \<Rightarrow> bool \<Rightarrow> 'a console_scheme \<Rightarrow> 'a console_scheme" where
  "console_rx_enqueue_char c do_echo s =
     (let head = g_rx_head s; next = (head + 1) AND CONSOLE_RX_MASK in
      if next = g_rx_tail s then s\<lparr>g_rx_dropped := g_rx_dropped s + 1\<rparr>
      else
        let s = s\<lparr>g_rx_head := next, g_rx_buf := (g_rx_buf s)(unat head := c)\<rparr>;
            s = (if c = 10 then s\<lparr>g_rx_lines := g_rx_lines s + 1\<rparr>
                 else if c = TTY_CC_VEOF then s\<lparr>g_rx_eofs := g_rx_eofs s + 1\<rparr> else s);
            s = (if do_echo then console_echo_data_char c s else s) in
        sched_waitq_wake_one Rx_waitq s)"

definition console_init :: "'a console_scheme \<Rightarrow> 'a console_scheme" where
  "console_init s =
     sched_waitq_init Rx_waitq
       (s\<lparr>g_rx_head := 0, g_rx_tail := 0, g_rx_dropped := 0, g_rx_lines := 0, g_rx_eofs := 0, g_tty_lflag := 7\<rparr>)"

partial_function (option) kill_loop :: "'a console_scheme \<Rightarrow> 'a console_scheme option" where
  "kill_loop s =
     (case console_rx_pop_last_editable s of (popped, s') \<Rightarrow>
        if popped then kill_loop (console_echo_backspace s') else Some s')"

definition console_rx_feed :: "u8 \<Rightarrow> 'a console_scheme \<Rightarrow> 'a console_scheme option" where
  "console_rx_feed c s =
     (let canonical = lflag TTY_LFLAG_ICANON s;
          c = (if c = 13 then 10 else c) in
      if c = TTY_CC_VINTR \<and> lflag TTY_LFLAG_ISIG s then
        map_option (\<lambda>s. console_rx_enqueue_char 10 False (console_echo_intr s)) (kill_loop s)
      else if canonical \<and> c = TTY_CC_VKILL then kill_loop s
      else if canonical \<and> (c = TTY_CC_VERASE_BS \<or> c = TTY_CC_VERASE_DEL) then
        (case console_rx_pop_last_editable s of (popped, s) \<Rightarrow>
           Some (if popped then console_echo_backspace s else s))
      else if canonical \<and> c = TTY_CC_VEOF then Some (console_rx_enqueue_char c False s)
      else if c = 0 then Some s
      else Some (console_rx_enqueue_char c True s))"

section \<open>Reading and writing\<close>

definition console_rx_dropped :: "'a console_scheme \<Rightarrow> u32" where
  "console_rx_dropped s = g_rx_dropped s"

definition console_rx_lines :: "'a console_scheme \<Rightarrow> u32" where
  "console_rx_lines s = g_rx_lines s"

definition console_can_read :: "'a console_scheme \<Rightarrow> bool" where
  "console_can_read s =
     (if lflag TTY_LFLAG_ICANON s then g_rx_lines s \<noteq> 0 \<or> g_rx_eofs s \<noteq> 0 else g_rx_head s \<noteq> g_rx_tail s)"

definition console_wait_readable :: "u32 \<Rightarrow> bool \<Rightarrow> 'a console_scheme \<Rightarrow> int \<times> 'a console_scheme" where
  "console_wait_readable timeout_ticks nonblock s =
     (if console_can_read s then (CONSOLE_IO_OK, s)
      else if nonblock then (0, s)
      else (CONSOLE_IO_BLOCKED, sched_waitq_sleep Rx_waitq timeout_ticks s))"

definition console_tty_get_lflag :: "'a console_scheme \<Rightarrow> u32" where
  "console_tty_get_lflag s = g_tty_lflag s"

definition console_tty_set_lflag :: "u32 \<Rightarrow> 'a console_scheme \<Rightarrow> u32 \<times> 'a console_scheme" where
  "console_tty_set_lflag lf s = (let s = s\<lparr>g_tty_lflag := lf AND TTY_LFLAG_SUPPORTED\<rparr> in (g_tty_lflag s, s))"

text \<open>The loop of \<open>console_read\<close>; the first argument is the room that is left, the results are the bytes
  stored and whether an end of file was seen.\<close>

fun read_loop :: "nat \<Rightarrow> bool \<Rightarrow> 'a console_scheme \<Rightarrow> u8 list \<times> bool \<times> 'a console_scheme" where
  "read_loop 0 canonical s = ([], False, s)"
| "read_loop (Suc k) canonical s =
     (let tail = g_rx_tail s in
      if tail = g_rx_head s then ([], False, s)
      else
        let c = g_rx_buf s (unat tail); next = (tail + 1) AND CONSOLE_RX_MASK in
        if canonical \<and> c = TTY_CC_VEOF then
          ([], True, s\<lparr>g_rx_tail := next, g_rx_eofs := (if g_rx_eofs s \<noteq> 0 then g_rx_eofs s - 1 else g_rx_eofs s)\<rparr>)
        else if c = 10 \<and> g_rx_lines s \<noteq> 0 then
          let s = s\<lparr>g_rx_tail := next, g_rx_lines := g_rx_lines s - 1\<rparr> in
          if canonical then ([c], False, s)
          else (case read_loop k canonical s of (bs, eof, s) \<Rightarrow> (c # bs, eof, s))
        else (case read_loop k canonical (s\<lparr>g_rx_tail := next\<rparr>) of (bs, eof, s) \<Rightarrow> (c # bs, eof, s)))"

definition console_read :: "bool \<Rightarrow> u32 \<Rightarrow> bool \<Rightarrow> 'a console_scheme \<Rightarrow> int \<times> u8 list \<times> 'a console_scheme" where
  "console_read dst len nonblock s =
     (if \<not> dst \<or> len = 0 then (0, [], s)
      else
        let canonical = lflag TTY_LFLAG_ICANON s in
        if canonical \<and> g_rx_lines s = 0 \<and> g_rx_eofs s = 0 then
          if nonblock then (0, [], s) else (CONSOLE_IO_BLOCKED, [], sched_waitq_sleep Rx_waitq 0 s)
        else
          (case read_loop (unat len) canonical s of (bs, saw_eof, s) \<Rightarrow>
             if bs \<noteq> [] then (int (length bs), bs, s)
             else if canonical \<and> saw_eof then (0, [], s)
             else if nonblock then (0, [], s)
             else (CONSOLE_IO_BLOCKED, [], sched_waitq_sleep Rx_waitq 0 s)))"

definition console_write :: "u8 list option \<Rightarrow> 'a console_scheme \<Rightarrow> u32 \<times> 'a console_scheme" where
  "console_write src s =
     (case src of None \<Rightarrow> (0, s)
      | Some bs \<Rightarrow> (of_nat (length bs), fold (\<lambda>b. fb_putc (ucast b)) bs s))"

section \<open>The ring as a list\<close>

text \<open>Waking and sleeping leave the console alone.\<close>

lemma sched_more [simp]:
  "sched.more (sched_waitq_wake_one q s) = sched.more s" "sched.more (sched_waitq_sleep q n s) = sched.more s"
  by (simp_all add: sched_waitq_wake_one_def sched_wake_slot_def make_runnable_def sched_waitq_sleep_def Let_def
      sched_detach_waitq_def waitq_clear_bit_def waitq_set_bit_def upd_task_def resched_def split: option.split)

lemma con_same:
  assumes "sched.more s' = sched.more (s :: 'a console_scheme)"
  shows "g_rx_head s' = g_rx_head s" "g_rx_tail s' = g_rx_tail s" "g_rx_lines s' = g_rx_lines s" "g_rx_eofs s' = g_rx_eofs s"
    "g_tty_lflag s' = g_tty_lflag s" "g_rx_buf s' = g_rx_buf s" "g_rx_dropped s' = g_rx_dropped s" "screen s' = screen s"
  using assms by (cases s'; cases s; simp)+

lemmas con_wake [simp] = con_same [OF sched_more(1)] and con_sleep [simp] = con_same [OF sched_more(2)]

lemma echo_fields [simp]:
  "g_rx_head (console_echo_data_char c s) = g_rx_head s" "g_rx_tail (console_echo_data_char c s) = g_rx_tail s"
  "g_rx_lines (console_echo_data_char c s) = g_rx_lines s" "g_rx_eofs (console_echo_data_char c s) = g_rx_eofs s"
  "g_tty_lflag (console_echo_data_char c s) = g_tty_lflag s" "g_rx_buf (console_echo_data_char c s) = g_rx_buf s"
  "g_rx_head (console_echo_backspace s) = g_rx_head s" "g_rx_tail (console_echo_backspace s) = g_rx_tail s"
  "g_rx_lines (console_echo_backspace s) = g_rx_lines s" "g_rx_eofs (console_echo_backspace s) = g_rx_eofs s"
  "g_tty_lflag (console_echo_backspace s) = g_tty_lflag s" "g_rx_buf (console_echo_backspace s) = g_rx_buf s"
  "g_rx_head (console_echo_intr s) = g_rx_head s" "g_rx_tail (console_echo_intr s) = g_rx_tail s"
  "g_rx_lines (console_echo_intr s) = g_rx_lines s" "g_rx_eofs (console_echo_intr s) = g_rx_eofs s"
  "g_tty_lflag (console_echo_intr s) = g_tty_lflag s" "g_rx_buf (console_echo_intr s) = g_rx_buf s"
  by (simp_all add: console_echo_data_char_def console_echo_backspace_def console_echo_intr_def fb_putc_def)

definition rx_content :: "'a console_scheme \<Rightarrow> u8 list" where
  "rx_content s = ring_content (g_rx_buf s) 256 (unat (g_rx_head s)) (unat (g_rx_tail s))"

text \<open>The indices are in range and the line counter counts the line ends in the ring; \<open>eofs_ok\<close> says the same of
  the counter of end-of-file marks.\<close>

definition console_ok :: "'a console_scheme \<Rightarrow> bool" where
  "console_ok s \<longleftrightarrow> unat (g_rx_head s) < 256 \<and> unat (g_rx_tail s) < 256
     \<and> unat (g_rx_lines s) = count_list (rx_content s) 10"

definition eofs_ok :: "'a console_scheme \<Rightarrow> bool" where
  "eofs_ok s \<longleftrightarrow> unat (g_rx_eofs s) = count_list (rx_content s) 4"

lemma rx_mask: "unat (x AND 255 :: u32) = unat x mod 256"
proof -
  have "(255 :: u32) = mask 8" by (rule ff_mask)
  then have "x AND 255 = take_bit 8 x" by (simp add: take_bit_eq_mask)
  then show ?thesis by (simp add: take_bit_eq_mod unat_mod)
qed

lemma rx_next: "unat ((x + 1) AND 255 :: u32) = (unat x + 1) mod 256"
proof -
  have "unat (x + 1) mod 256 = (unat x + 1) mod 4294967296 mod 256" by (simp add: unat_word_ariths)
  then show ?thesis by (simp add: rx_mask mod_mod_cancel)
qed

lemma rx_prev:
  assumes "unat x < 256"
  shows "unat ((x - 1) AND 255 :: u32) = (unat x + 255) mod 256"
proof (cases "x = 0")
  case True
  then show ?thesis by simp
next
  case False
  then have "0 < unat x" by (simp add: unat_gt_0)
  then have "(unat x + 255) mod 256 = unat x - 1" using assms le_mod_geq [of 256 "unat x + 255"] by simp
  then show ?thesis using assms unat_minus_one [OF False] by (simp add: rx_mask)
qed

lemma content_less: "length (rx_content s) \<le> 255"
  using ring_length_less [of 256 "g_rx_buf s"] by (simp add: rx_content_def less_Suc_eq_le [symmetric])

lemma rx_full: "console_ok s \<Longrightarrow> (g_rx_head s + 1) AND 255 = g_rx_tail s \<longleftrightarrow> length (rx_content s) = 255"
  using ring_full [of "unat (g_rx_head s)" 256 "unat (g_rx_tail s)" "g_rx_buf s"]
  by (simp add: console_ok_def rx_content_def word_unat_eq_iff rx_next)

lemma enqueue_fields:
  assumes "console_ok s" "length (rx_content s) < 255"
  shows "g_rx_head (console_rx_enqueue_char c e s) = (g_rx_head s + 1) AND 255"
    "g_rx_tail (console_rx_enqueue_char c e s) = g_rx_tail s"
    "g_rx_buf (console_rx_enqueue_char c e s) = (g_rx_buf s)(unat (g_rx_head s) := c)"
    "g_rx_lines (console_rx_enqueue_char c e s) = g_rx_lines s + (if c = 10 then 1 else 0)"
    "g_rx_eofs (console_rx_enqueue_char c e s) = g_rx_eofs s + (if c = 4 then 1 else 0)"
    "g_tty_lflag (console_rx_enqueue_char c e s) = g_tty_lflag s"
  using rx_full [OF assms(1)] assms(2) by (simp_all add: console_rx_enqueue_char_def Let_def)

lemma rx_enqueue_full:
  assumes "console_ok s" "length (rx_content s) = 255"
  shows "console_rx_enqueue_char c e s = s\<lparr>g_rx_dropped := g_rx_dropped s + 1\<rparr>"
  using rx_full [OF assms(1)] assms(2) by (simp add: console_rx_enqueue_char_def Let_def)

lemma dropped_fields [simp]:
  "rx_content (s\<lparr>g_rx_dropped := d\<rparr>) = rx_content s" "console_ok (s\<lparr>g_rx_dropped := d\<rparr>) = console_ok s"
  "eofs_ok (s\<lparr>g_rx_dropped := d\<rparr>) = eofs_ok s"
  by (simp_all add: rx_content_def console_ok_def eofs_ok_def)

lemma unat_inc: "unat (x :: u32) \<le> 255 \<Longrightarrow> unat (x + 1) = unat x + 1"
  by (simp add: unat_word_ariths)

lemma enqueue_content:
  assumes "console_ok s"
  shows "rx_content (console_rx_enqueue_char c e s) = take 255 (rx_content s @ [c])"
    and "console_ok (console_rx_enqueue_char c e s)"
    and "g_tty_lflag (console_rx_enqueue_char c e s) = g_tty_lflag s"
    and "eofs_ok s \<Longrightarrow> eofs_ok (console_rx_enqueue_char c e s)"
proof -
  let ?s = "console_rx_enqueue_char c e s" and ?xs = "rx_content s"
  have ht: "unat (g_rx_head s) < 256" "unat (g_rx_tail s) < 256" "unat (g_rx_lines s) = count_list ?xs 10"
    using assms by (simp_all add: console_ok_def)
  show c: "rx_content ?s = take 255 (?xs @ [c])"
  proof (cases "length ?xs < 255")
    case True
    then have "(unat (g_rx_head s) + 1) mod 256 \<noteq> unat (g_rx_tail s)"
      using rx_full [OF assms] by (simp add: word_unat_eq_iff rx_next)
    then show ?thesis
      using ring_enq [OF ht(1,2), of "g_rx_buf s" c] True enqueue_fields [OF assms True]
      by (simp add: rx_content_def rx_next)
  next
    case False
    then have "length ?xs = 255" using content_less [of s] by simp
    then show ?thesis using rx_enqueue_full [OF assms] by simp
  qed
  have n: "count_list ?xs x \<le> 255" for x using count_le_length [of ?xs x] content_less [of s] by simp
  show "console_ok ?s" "g_tty_lflag ?s = g_tty_lflag s" "eofs_ok s \<Longrightarrow> eofs_ok ?s"
  proof (atomize (full), cases "length ?xs < 255")
    case True
    then have "rx_content ?s = ?xs @ [c]" using c by simp
    then show "console_ok ?s \<and> g_tty_lflag ?s = g_tty_lflag s \<and> (eofs_ok s \<longrightarrow> eofs_ok ?s)"
      using enqueue_fields [OF assms True] ht n [of 10] n [of 4]
      by (simp add: console_ok_def eofs_ok_def rx_next unat_inc)
  next
    case False
    then have "length ?xs = 255" using content_less [of s] by simp
    then show "console_ok ?s \<and> g_tty_lflag ?s = g_tty_lflag s \<and> (eofs_ok s \<longrightarrow> eofs_ok ?s)"
      using rx_enqueue_full [OF assms] assms by simp
  qed
qed

section \<open>Line editing\<close>

definition editable :: "u8 \<Rightarrow> bool" where
  "editable x \<longleftrightarrow> x \<noteq> 10 \<and> x \<noteq> 4"

definition erase_last :: "u8 list \<Rightarrow> u8 list" where
  "erase_last xs = (if xs \<noteq> [] \<and> editable (last xs) then butlast xs else xs)"

definition kill_line :: "u8 list \<Rightarrow> u8 list" where
  "kill_line xs = rev (dropWhile editable (rev xs))"

text \<open>What a byte from the line does to the bytes that wait to be read.\<close>

definition tty_feed :: "u32 \<Rightarrow> u8 \<Rightarrow> u8 list \<Rightarrow> u8 list" where
  "tty_feed lf c xs =
     (let c = (if c = 13 then 10 else c); canonical = bit lf 1 in
      if c = 3 \<and> bit lf 2 then take 255 (kill_line xs @ [10])
      else if canonical \<and> c = 21 then kill_line xs
      else if canonical \<and> (c = 8 \<or> c = 127) then erase_last xs
      else if c = 0 then xs
      else take 255 (xs @ [c]))"

text \<open>The console keeps its invariant and flags, and its ring becomes \<open>xs\<close>.\<close>

definition rx_becomes :: "'a console_scheme \<Rightarrow> u8 list \<Rightarrow> 'a console_scheme \<Rightarrow> bool" where
  "rx_becomes s xs s' \<longleftrightarrow> console_ok s' \<and> g_tty_lflag s' = g_tty_lflag s \<and> rx_content s' = xs \<and> (eofs_ok s \<longrightarrow> eofs_ok s')"

lemma echo_content [simp]:
  "rx_content (console_echo_backspace s) = rx_content s" "console_ok (console_echo_backspace s) = console_ok s"
  "eofs_ok (console_echo_backspace s) = eofs_ok s"
  "rx_content (console_echo_intr s) = rx_content s" "console_ok (console_echo_intr s) = console_ok s"
  "eofs_ok (console_echo_intr s) = eofs_ok s"
  by (simp_all add: rx_content_def console_ok_def eofs_ok_def)

lemma rx_becomes_simps:
  "rx_becomes s xs (console_echo_backspace s') = rx_becomes s xs s'" "rx_becomes s xs (console_echo_intr s') = rx_becomes s xs s'"
  "console_ok s \<Longrightarrow> rx_becomes s (rx_content s) s"
  by (simp_all add: rx_becomes_def)

lemma rx_becomes_trans: "rx_becomes s xs s' \<Longrightarrow> rx_becomes s' ys s'' \<Longrightarrow> rx_becomes s ys s''"
  by (simp add: rx_becomes_def)

lemma rx_empty: "console_ok s \<Longrightarrow> g_rx_head s = g_rx_tail s \<longleftrightarrow> rx_content s = []"
  using ring_empty [of "unat (g_rx_head s)" 256 "unat (g_rx_tail s)" "g_rx_buf s"]
  by (simp add: console_ok_def rx_content_def word_unat_eq_iff)

lemma pop_last:
  assumes "console_ok s"
  shows "fst (console_rx_pop_last_editable s) \<longleftrightarrow> rx_content s \<noteq> [] \<and> editable (last (rx_content s))"
    and "rx_becomes s (erase_last (rx_content s)) (snd (console_rx_pop_last_editable s))"
proof -
  let ?h = "unat (g_rx_head s)" and ?t = "unat (g_rx_tail s)" and ?p = "(g_rx_head s - 1) AND 255"
  have ht: "?h < 256" "?t < 256" using assms by (simp_all add: console_ok_def)
  have l: "rx_content s = rx_content (s\<lparr>g_rx_head := ?p\<rparr>) @ [g_rx_buf s (unat ?p)]" if "g_rx_head s \<noteq> g_rx_tail s"
    using ring_last [OF ht, of "g_rx_buf s"] that rx_prev [OF ht(1)] by (simp add: rx_content_def word_unat_eq_iff)
  show f: "fst (console_rx_pop_last_editable s) \<longleftrightarrow> rx_content s \<noteq> [] \<and> editable (last (rx_content s))"
    using rx_empty [OF assms] l by (cases "g_rx_head s = g_rx_tail s")
      (simp_all add: console_rx_pop_last_editable_def Let_def editable_def)
  show "rx_becomes s (erase_last (rx_content s)) (snd (console_rx_pop_last_editable s))"
  proof (cases "fst (console_rx_pop_last_editable s)")
    case True
    then have ne: "g_rx_head s \<noteq> g_rx_tail s" and e: "editable (last (rx_content s))" using f rx_empty [OF assms] by auto
    let ?x = "g_rx_buf s (unat ?p)"
    have x: "editable ?x" using e l [OF ne] by simp
    have s: "snd (console_rx_pop_last_editable s) = s\<lparr>g_rx_head := ?p\<rparr>"
      using ne x by (simp add: console_rx_pop_last_editable_def Let_def editable_def)
    have "count_list (rx_content s) y = count_list (rx_content (s\<lparr>g_rx_head := ?p\<rparr>)) y" if "y = 10 \<or> y = 4" for y
      using x that by (subst l [OF ne]) (auto simp: editable_def)
    moreover have "erase_last (rx_content s) = rx_content (s\<lparr>g_rx_head := ?p\<rparr>)"
      using x by (simp add: erase_last_def) (subst l [OF ne], simp)+
    ultimately show ?thesis using assms rx_prev [OF ht(1)] by (simp add: s rx_becomes_def console_ok_def eofs_ok_def)
  next
    case False
    then have "snd (console_rx_pop_last_editable s) = s"
      by (auto simp: console_rx_pop_last_editable_def Let_def split: if_splits)
    then show ?thesis using False f assms by (auto simp: erase_last_def rx_becomes_def)
  qed
qed

lemma kill_line_erase:
  "xs \<noteq> [] \<Longrightarrow> editable (last xs) \<Longrightarrow> kill_line (erase_last xs) = kill_line xs"
  "\<not> (xs \<noteq> [] \<and> editable (last xs)) \<Longrightarrow> kill_line xs = xs"
  by (cases xs rule: rev_cases; simp add: kill_line_def erase_last_def)+

lemma kill_loop_ends:
  assumes "console_ok s"
  shows "\<exists>s'. kill_loop s = Some s' \<and> rx_becomes s (kill_line (rx_content s)) s'"
  using assms
proof (induction "length (rx_content s)" arbitrary: s rule: less_induct)
  case less
  obtain b u where p: "console_rx_pop_last_editable s = (b, u)" by fastforce
  note pl = pop_last [OF less.prems, unfolded p fst_conv snd_conv]
  show ?case
  proof (cases b)
    case True
    then have e: "rx_content s \<noteq> []" "editable (last (rx_content s))" using pl(1) by auto
    have u: "rx_content u = erase_last (rx_content s)" "console_ok u" using pl(2) by (simp_all add: rx_becomes_def)
    then have "length (rx_content (console_echo_backspace u)) < length (rx_content s)"
      using e by (simp add: erase_last_def)
    then obtain s' where s': "kill_loop (console_echo_backspace u) = Some s'" "rx_becomes u (kill_line (rx_content u)) s'"
      using less.hyps [of "console_echo_backspace u"] u(2) by (auto simp: rx_becomes_def)
    have "kill_loop s = Some s'" using True p s'(1) by (simp add: kill_loop.simps [of s])
    then show ?thesis using rx_becomes_trans [OF pl(2) s'(2)] u(1) kill_line_erase(1) [OF e] by simp
  next
    case False
    then have "kill_loop s = Some u" using p by (simp add: kill_loop.simps [of s])
    moreover have "kill_line (rx_content s) = erase_last (rx_content s)"
      using False pl(1) kill_line_erase(2) [of "rx_content s"] by (auto simp: erase_last_def)
    ultimately show ?thesis using pl(2) by simp
  qed
qed

lemma lflag_bit: "lflag 2 s \<longleftrightarrow> bit (g_tty_lflag s) 1" "lflag 4 s \<longleftrightarrow> bit (g_tty_lflag s) 2"
  using and_exp_eq_0_iff_not_bit [of "g_tty_lflag s" 2] by (simp_all add: lflag_def)

lemma enqueue_becomes: "console_ok s \<Longrightarrow> rx_becomes s (take 255 (rx_content s @ [c])) (console_rx_enqueue_char c e s)"
  using enqueue_content [of s c e] by (simp add: rx_becomes_def)

lemma feed_becomes:
  assumes "console_ok s"
  shows "\<exists>s'. console_rx_feed c s = Some s' \<and> rx_becomes s (tty_feed (g_tty_lflag s) c (rx_content s)) s'"
proof -
  define d where "d = (if c = 13 then 10 else c)"
  obtain k where k: "kill_loop s = Some k" "rx_becomes s (kill_line (rx_content s)) k"
    using kill_loop_ends [OF assms] by blast
  have i: "rx_becomes s (take 255 (kill_line (rx_content s) @ [10])) (console_rx_enqueue_char 10 False (console_echo_intr k))"
    using k(2) enqueue_becomes [of "console_echo_intr k" 10 False]
    by (simp add: rx_becomes_def)
  note pl = pop_last [OF assms]
  have e: "rx_becomes s (erase_last (rx_content s)) (if fst (console_rx_pop_last_editable s)
      then console_echo_backspace (snd (console_rx_pop_last_editable s)) else snd (console_rx_pop_last_editable s))"
    using pl(2) by (simp add: rx_becomes_simps)
  show ?thesis
    unfolding console_rx_feed_def tty_feed_def d_def [symmetric] Let_def lflag_bit
    using k i e enqueue_becomes [OF assms] rx_becomes_simps(3) [OF assms] by (auto simp: case_prod_unfold)
qed

section \<open>Reading\<close>

lemma rx_deq:
  assumes "unat (g_rx_head s) < 256" "unat (g_rx_tail s) < 256" "rx_content s = x # xs"
  shows "g_rx_tail s \<noteq> g_rx_head s" "g_rx_buf s (unat (g_rx_tail s)) = x"
    "rx_content (s\<lparr>g_rx_tail := (g_rx_tail s + 1) AND 255\<rparr>) = xs"
proof -
  let ?h = "unat (g_rx_head s)" and ?t = "unat (g_rx_tail s)"
  have ne: "?h \<noteq> ?t" using assms(3) ring_empty [OF assms(1,2), of "g_rx_buf s"] by (simp add: rx_content_def)
  then show "g_rx_tail s \<noteq> g_rx_head s" by auto
  show "g_rx_buf s ?t = x" "rx_content (s\<lparr>g_rx_tail := (g_rx_tail s + 1) AND 255\<rparr>) = xs"
    using ring_deq [OF assms(1,2) ne, of "g_rx_buf s"] assms(3) by (simp_all add: rx_content_def rx_next)
qed

lemma unat_dec: "0 < unat (x :: u32) \<Longrightarrow> unat (x - 1) = unat x - 1"
  by (rule unat_minus_one) auto

lemma rx_content_counters [simp]:
  "rx_content (s\<lparr>g_rx_lines := n\<rparr>) = rx_content s" "rx_content (s\<lparr>g_rx_eofs := n\<rparr>) = rx_content s"
  by (simp_all add: rx_content_def)

text \<open>One turn of the loop, on a byte that does not end the read.\<close>

lemma read_loop_plain:
  assumes "console_ok s" "rx_content s = x # xs" "editable x \<or> \<not> canonical"
  shows "\<exists>u. read_loop (Suc k) canonical s = (case read_loop k canonical u of (bs, eof, s') \<Rightarrow> (x # bs, eof, s'))
           \<and> console_ok u \<and> g_tty_lflag u = g_tty_lflag s \<and> rx_content u = xs \<and> (editable x \<longrightarrow> eofs_ok s \<longrightarrow> eofs_ok u)"
proof -
  have ht: "unat (g_rx_head s) < 256" "unat (g_rx_tail s) < 256" "unat (g_rx_lines s) = count_list (x # xs) 10"
    using assms(1,2) by (simp_all add: console_ok_def)
  note d = rx_deq [OF ht(1,2) assms(2)]
  let ?n = "s\<lparr>g_rx_tail := (g_rx_tail s + 1) AND 255\<rparr>"
  let ?u = "if x = 10 then ?n\<lparr>g_rx_lines := g_rx_lines s - 1\<rparr> else ?n"
  have l: "x = 10 \<Longrightarrow> g_rx_lines s \<noteq> 0" using ht(3) by auto
  have "read_loop (Suc k) canonical s = (case read_loop k canonical ?u of (bs, eof, s') \<Rightarrow> (x # bs, eof, s'))"
    using d l assms(3) by (auto simp: Let_def editable_def)
  moreover have "console_ok ?u"
    using ht l unat_dec [of "g_rx_lines s"] d(3) by (auto simp: console_ok_def rx_next)
  moreover have "rx_content ?u = xs" "g_tty_lflag ?u = g_tty_lflag s" using d(3) by simp_all
  moreover have "editable x \<longrightarrow> eofs_ok s \<longrightarrow> eofs_ok ?u" using assms(2) d(3) by (simp add: eofs_ok_def editable_def)
  ultimately show ?thesis by blast
qed

lemma read_loop_line:
  "console_ok s \<Longrightarrow> rx_content s = l @ 10 # rest \<Longrightarrow> list_all editable l \<Longrightarrow> length l < k
   \<Longrightarrow> \<exists>s'. read_loop k True s = (l @ [10], False, s') \<and> rx_becomes s rest s'"
proof (induction k arbitrary: s l)
  case (Suc k)
  show ?case
  proof (cases l)
    case Nil
    then have c: "rx_content s = 10 # rest" using Suc.prems(2) by simp
    have ht: "unat (g_rx_head s) < 256" "unat (g_rx_tail s) < 256" "unat (g_rx_lines s) = count_list (rx_content s) 10"
      using Suc.prems(1) by (simp_all add: console_ok_def)
    note d = rx_deq [OF ht(1,2) c]
    have n: "0 < unat (g_rx_lines s)" using ht(3) c by simp
    then have "g_rx_lines s \<noteq> 0" by auto
    then have "read_loop (Suc k) True s
        = ([10], False, s\<lparr>g_rx_tail := (g_rx_tail s + 1) AND 255, g_rx_lines := g_rx_lines s - 1\<rparr>)"
      using d by (simp add: Let_def)
    moreover have "rx_becomes s rest (s\<lparr>g_rx_tail := (g_rx_tail s + 1) AND 255, g_rx_lines := g_rx_lines s - 1\<rparr>)"
      using ht d(3) c unat_dec [OF n] by (simp add: rx_becomes_def console_ok_def eofs_ok_def rx_next)
    ultimately show ?thesis using Nil by simp
  next
    case (Cons x m)
    then have c: "rx_content s = x # (m @ 10 # rest)" "editable x" "list_all editable m" "length m < k"
      using Suc.prems by simp_all
    obtain u where u: "read_loop (Suc k) True s = (case read_loop k True u of (bs, eof, s') \<Rightarrow> (x # bs, eof, s'))"
      "console_ok u" "g_tty_lflag u = g_tty_lflag s" "rx_content u = m @ 10 # rest" "eofs_ok s \<longrightarrow> eofs_ok u"
      using read_loop_plain [OF Suc.prems(1) c(1), of True k] c(2) by blast
    obtain s' where "read_loop k True u = (m @ [10], False, s')" "rx_becomes u rest s'"
      using Suc.IH [OF u(2,4) c(3,4)] by blast
    then show ?thesis using u Cons by (simp add: rx_becomes_def)
  qed
qed simp

lemma read_loop_raw:
  "console_ok s \<Longrightarrow> \<exists>s'. read_loop k False s = (take k (rx_content s), False, s')
     \<and> console_ok s' \<and> g_tty_lflag s' = g_tty_lflag s \<and> rx_content s' = drop k (rx_content s)"
proof (induction k arbitrary: s)
  case (Suc k)
  show ?case
  proof (cases "rx_content s")
    case Nil
    then have "read_loop (Suc k) False s = ([], False, s)" using rx_empty [OF Suc.prems] by simp
    then show ?thesis using Suc.prems Nil by simp
  next
    case (Cons x xs)
    obtain u where u: "read_loop (Suc k) False s = (case read_loop k False u of (bs, eof, s') \<Rightarrow> (x # bs, eof, s'))"
      "console_ok u" "g_tty_lflag u = g_tty_lflag s" "rx_content u = xs"
      using read_loop_plain [OF Suc.prems Cons, of False k] by blast
    obtain s' where "read_loop k False u = (take k xs, False, s')" "console_ok s'" "g_tty_lflag s' = g_tty_lflag u"
      "rx_content s' = drop k xs"
      using Suc.IH [OF u(2)] u(4) by auto
    then show ?thesis using u Cons by simp
  qed
qed simp

section \<open>The ring is a bounded queue\<close>

definition con_enq :: "u8 \<Rightarrow> 'a console_scheme \<Rightarrow> bool \<times> 'a console_scheme" where
  "con_enq c s = ((g_rx_head s + 1) AND 255 \<noteq> g_rx_tail s, console_rx_enqueue_char c True s)"

definition con_deq :: "'a console_scheme \<Rightarrow> u8 option \<times> 'a console_scheme" where
  "con_deq s = (case read_loop 1 False s of (bs, eof, s') \<Rightarrow> (case bs of [] \<Rightarrow> None | b # _ \<Rightarrow> Some b, s'))"

interpretation con: bounded_fifo con_enq con_deq rx_content console_ok 255
proof
  fix s :: "'a console_scheme" and x
  assume ok: "console_ok s"
  note e = enqueue_content [OF ok, of x True] and f = rx_full [OF ok]
  show "length (rx_content s) < 255 \<Longrightarrow> fst (con_enq x s) \<and> console_ok (snd (con_enq x s))
      \<and> rx_content (snd (con_enq x s)) = rx_content s @ [x]"
    using e f by (simp add: con_enq_def)
  show "length (rx_content s) = 255 \<Longrightarrow> \<not> fst (con_enq x s) \<and> console_ok (snd (con_enq x s))
      \<and> rx_content (snd (con_enq x s)) = rx_content s"
    using e f by (simp add: con_enq_def)
  show "length (rx_content s) \<le> 255" by (rule content_less)
next
  fix s :: "'a console_scheme"
  assume ok: "console_ok s"
  obtain s' where r: "read_loop 1 False s = (take 1 (rx_content s), False, s')" "console_ok s'"
    "rx_content s' = drop 1 (rx_content s)"
    using read_loop_raw [OF ok, of 1] by blast
  show "rx_content s = x # xs \<Longrightarrow> fst (con_deq s) = Some x \<and> console_ok (snd (con_deq s)) \<and> rx_content (snd (con_deq s)) = xs"
    for x xs using r by (simp add: con_deq_def)
  show "rx_content s = [] \<Longrightarrow> fst (con_deq s) = None \<and> console_ok (snd (con_deq s)) \<and> rx_content (snd (con_deq s)) = []"
    using r by (simp add: con_deq_def)
qed

section \<open>Properties\<close>

text \<open>A sequence of bytes from the line.\<close>

fun feed_all :: "u8 list \<Rightarrow> 'a console_scheme \<Rightarrow> 'a console_scheme option" where
  "feed_all [] s = Some s"
| "feed_all (c # cs) s = Option.bind (console_rx_feed c s) (feed_all cs)"

lemma feed_all_becomes:
  "console_ok s \<Longrightarrow> \<exists>s'. feed_all cs s = Some s' \<and> rx_becomes s (fold (tty_feed (g_tty_lflag s)) cs (rx_content s)) s'"
proof (induction cs arbitrary: s)
  case Nil
  then show ?case by (simp add: rx_becomes_def)
next
  case (Cons c cs)
  obtain u where u: "console_rx_feed c s = Some u" "rx_becomes s (tty_feed (g_tty_lflag s) c (rx_content s)) u"
    using feed_becomes [OF Cons.prems] by blast
  then obtain s' where "feed_all cs u = Some s'" "rx_becomes u (fold (tty_feed (g_tty_lflag u)) cs (rx_content u)) s'"
    using Cons.IH [of u] by (auto simp: rx_becomes_def)
  then show ?case using u rx_becomes_trans [OF u(2)] by (auto simp: rx_becomes_def)
qed

text \<open>C10: Feeding bytes from the line always returns and acts on the bytes that wait as the line editor
  does: erase and kill stop at line ends and end-of-file marks, an interrupt kills the line and ends it,
  carriage return ends a line, and bytes that do not fit into 255 are dropped; the line counter stays exact.\<close>

theorem console_feed_edits_line:
  assumes "console_ok s"
  shows "\<exists>s'. feed_all cs s = Some s' \<and> console_ok s' \<and> g_tty_lflag s' = g_tty_lflag s
           \<and> rx_content s' = fold (tty_feed (g_tty_lflag s)) cs (rx_content s)
           \<and> unat (g_rx_lines s') = count_list (rx_content s') 10"
  using feed_all_becomes [OF assms, of cs] by (auto simp: rx_becomes_def console_ok_def)

definition demo_console :: console where
  "demo_console = console_init (sched.extend sched_zero (console.fields 0 0 0 0 0 0 (\<lambda>_. 0)
     \<lparr>g_cursor_x = 0, g_cursor_y = 0, g_fg = 0, g_bg = 0, g_fb = \<lambda>_. 0, g_font = \<lambda>_. 0\<rparr>))"

lemma demo_console:
  "console_ok demo_console" "eofs_ok demo_console" "g_tty_lflag demo_console = 7" "rx_content demo_console = []"
  by (simp_all add: demo_console_def console_init_def sched_waitq_init_def console_ok_def eofs_ok_def rx_content_def
      ring_content_def sched.defs console.defs)

text \<open>The line \<open>lz\<close>, erase, \<open>s\<close>, return.\<close>

theorem console_feed_edits_line_witness:
  "\<exists>s'. feed_all [108, 122, 127, 115, 13] demo_console = Some s' \<and> rx_content s' = [108, 115, 10]"
proof -
  have "fold (tty_feed 7) [108, 122, 127, 115, 13] [] = [108, 115, 10]"
    by (simp add: tty_feed_def erase_last_def editable_def)
  then show ?thesis
    using console_feed_edits_line [OF demo_console(1), of "[108, 122, 127, 115, 13]"] demo_console(3,4) by auto
qed

text \<open>Bytes without a meaning of their own in any mode.\<close>

definition plain_byte :: "u8 \<Rightarrow> bool" where
  "plain_byte x \<longleftrightarrow> x \<notin> {0, 3, 4, 8, 10, 13, 21, 127}"

lemma fold_plain:
  "list_all plain_byte cs \<Longrightarrow> length xs + length cs \<le> 255 \<Longrightarrow> fold (tty_feed lf) cs xs = xs @ cs"
  by (induction cs arbitrary: xs) (auto simp: plain_byte_def tty_feed_def)

lemma plain_editable: "list_all plain_byte cs \<Longrightarrow> list_all editable cs"
  by (auto simp: list_all_iff plain_byte_def editable_def)

lemma lines_pos: "console_ok s \<Longrightarrow> 10 \<in> set (rx_content s) \<Longrightarrow> g_rx_lines s \<noteq> 0"
  by (auto simp: console_ok_def count_list_0_iff)

lemma canonical_read:
  assumes "console_ok s" "rx_content s = line @ [10]" "bit (g_tty_lflag s) 1" "list_all plain_byte line" "length line < unat len"
  shows "console_can_read s"
    "\<exists>s'. console_read True len nonblock s = (int (length line + 1), line @ [10], s') \<and> rx_becomes s [] s'"
proof -
  have n: "g_rx_lines s \<noteq> 0" using lines_pos [OF assms(1)] assms(2) by simp
  then show "console_can_read s" using assms(3) by (simp add: console_can_read_def lflag_bit)
  obtain s' where r: "read_loop (unat len) True s = (line @ [10], False, s')" "rx_becomes s [] s'"
    using read_loop_line [OF assms(1,2) plain_editable [OF assms(4)] assms(5)] by blast
  have "len \<noteq> 0" using assms(5) by auto
  then have "console_read True len nonblock s = (int (length line + 1), line @ [10], s')"
    using n r(1) assms(3) by (simp add: console_read_def lflag_bit)
  then show "\<exists>s'. console_read True len nonblock s = (int (length line + 1), line @ [10], s') \<and> rx_becomes s [] s'"
    using r(2) by blast
qed

text \<open>C29: In canonical mode, a line of plain bytes that ends with carriage return becomes readable, and one read with
  enough room returns exactly that line with a newline and leaves the ring empty again.\<close>

theorem canonical_line_round_trip:
  assumes "console_ok s" "bit (g_tty_lflag s) 1" "rx_content s = []" "list_all plain_byte line"
    "length line < 255" "length line < unat len"
  shows "\<exists>s' s''. feed_all (line @ [13]) s = Some s' \<and> console_can_read s'
           \<and> console_read True len nonblock s' = (int (length line + 1), line @ [10], s'')
           \<and> console_ok s'' \<and> rx_content s'' = []"
proof -
  have "fold (tty_feed (g_tty_lflag s)) (line @ [13]) [] = line @ [10]"
    using fold_plain [of line "[]"] assms(4,5) by (simp add: tty_feed_def)
  then obtain s' where s': "feed_all (line @ [13]) s = Some s'" "rx_becomes s (line @ [10]) s'"
    using feed_all_becomes [OF assms(1), of "line @ [13]"] assms(3) by auto
  then have c: "console_ok s'" "rx_content s' = line @ [10]" "bit (g_tty_lflag s') 1"
    using assms(2) by (simp_all add: rx_becomes_def)
  show ?thesis using canonical_read [OF c assms(4,6)] s'(1) by (fastforce simp: rx_becomes_def)
qed

theorem canonical_line_round_trip_witness:
  "\<exists>s' s''. feed_all [108, 115, 13] demo_console = Some s' \<and> console_can_read s'
     \<and> console_read True 64 False s' = (3, [108, 115, 10], s'') \<and> rx_content s'' = []"
proof -
  have "list_all plain_byte [108, 115]" "bit (g_tty_lflag demo_console) 1"
    using demo_console(3) by (simp_all add: plain_byte_def)
  then show ?thesis
    using canonical_line_round_trip [OF demo_console(1) _ demo_console(4), of "[108, 115]" 64 False] by auto
qed

text \<open>C39: An end-of-file byte that is read in raw mode is never subtracted from the counter of such bytes: back
  in canonical mode the console says that it can be read while its ring is empty, and a read blocks.\<close>

theorem raw_eof_leaves_console_readable:
  assumes "console_ok s" "rx_content s = []" "g_rx_eofs s = 0" "\<not> bit (g_tty_lflag s) 1" "bit lf 1"
  shows "\<exists>s1 s2. console_rx_feed 4 s = Some s1 \<and> console_read True 1 False s1 = (1, [4], s2)
           \<and> (let s3 = snd (console_tty_set_lflag lf s2) in
              rx_content s3 = [] \<and> console_can_read s3 \<and> fst (console_read True len False s3) = (if len = 0 then 0 else CONSOLE_IO_BLOCKED))"
proof -
  let ?s1 = "console_rx_enqueue_char 4 True s"
  have f: "console_rx_feed 4 s = Some ?s1" using assms(4) by (simp add: console_rx_feed_def lflag_bit)
  have e: "g_rx_eofs ?s1 = 1" "rx_content ?s1 = [4]" "console_ok ?s1" "g_tty_lflag ?s1 = g_tty_lflag s"
    using enqueue_fields(5,6) [OF assms(1), of 4 True] enqueue_content [OF assms(1), of 4 True] assms(2,3) by simp_all
  have ht: "unat (g_rx_head ?s1) < 256" "unat (g_rx_tail ?s1) < 256" "g_rx_lines ?s1 = 0"
    using e(2,3) by (simp_all add: console_ok_def unat_eq_0)
  let ?s2 = "?s1\<lparr>g_rx_tail := (g_rx_tail ?s1 + 1) AND 255\<rparr>"
  note d = rx_deq [OF ht(1,2) e(2)]
  have "read_loop 1 False ?s1 = ([4], False, ?s2)" using d by (simp add: Let_def)
  then have r: "console_read True 1 False ?s1 = (1, [4], ?s2)" using assms(4) e(4) by (simp add: console_read_def lflag_bit)
  let ?s3 = "snd (console_tty_set_lflag lf ?s2)"
  have s3: "?s3 = ?s2\<lparr>g_tty_lflag := lf AND 7\<rparr>" by (simp add: console_tty_set_lflag_def)
  have empty: "rx_content ?s3 = []" using d(3) by (simp add: s3 rx_content_def)
  have can: "lflag 2 ?s3" using assms(5) by (simp add: s3 lflag_bit)
  have "g_rx_tail ?s3 = g_rx_head ?s3"
    using empty ht(1) ring_empty [of "unat (g_rx_head ?s3)" 256 "unat (g_rx_tail ?s3)" "g_rx_buf ?s3"]
    by (simp add: rx_content_def s3 rx_next word_unat_eq_iff)
  then have "read_loop n True ?s3 = ([], False, ?s3)" for n by (cases n) simp_all
  moreover have ev: "g_rx_eofs ?s3 = 1" using e(1) by (simp add: s3)
  ultimately have b: "fst (console_read True len False ?s3) = (if len = 0 then 0 else - 1)"
    using can by (simp add: console_read_def)
  have "console_can_read ?s3" using can ev by (simp add: console_can_read_def)
  then show ?thesis using f r b empty unfolding Let_def by blast
qed

theorem raw_eof_leaves_console_readable_witness:
  "\<exists>s1 s2. console_rx_feed 4 (demo_console\<lparr>g_tty_lflag := 0\<rparr>) = Some s1 \<and> console_read True 1 False s1 = (1, [4], s2)
     \<and> console_can_read (snd (console_tty_set_lflag 7 s2)) \<and> fst (console_read True 64 False (snd (console_tty_set_lflag 7 s2))) = - 1"
proof -
  have "console_ok (demo_console\<lparr>g_tty_lflag := 0\<rparr>)" "rx_content (demo_console\<lparr>g_tty_lflag := 0\<rparr>) = []"
    "g_rx_eofs (demo_console\<lparr>g_tty_lflag := 0\<rparr>) = 0" "\<not> bit (g_tty_lflag (demo_console\<lparr>g_tty_lflag := 0\<rparr>)) 1" "bit (7 :: u32) 1"
    using demo_console by (simp_all add: console_ok_def rx_content_def eofs_ok_def ring_content_def unat_eq_0)
  from raw_eof_leaves_console_readable [OF this, of 64] show ?thesis by (auto simp: Let_def)
qed

end
