(* ===== verification/VmState.thy ===== *)
theory VmState
  imports Prelude
begin

text \<open>
  The data model of the virtual machine, from \<open>vm.h\<close>, \<open>flags.h\<close>, \<open>interrupt.h\<close>,
  \<open>io.h\<close> and \<open>disk.h\<close>: constants, opcodes, the instruction word, the state of a
  core (\<open>VCPU\<close>), of the disk and of the machine (\<open>VM\<close>).

  C arrays are functions from indices; every access whose index the code does not
  bound is guarded in the model and yields \<open>Host_out_of_bounds\<close>, which stands for
  undefined behaviour of the host program. \<open>panic\<close> ends the process with
  \<open>exit(1)\<close>, so a panic is an abort of the operation and carries no state. RAM is
  indexed by 32-bit guest addresses (\<open>vm_addr_t\<close>), the frame buffer by its byte
  offset. Host clocks are the readings of \<open>clock_gettime\<close>: the \<open>k\<close>-th reading
  made by the machine is a parameter, and \<open>clock_reads\<close> counts them; whether
  \<open>malloc\<close> of a size succeeds and what fresh memory holds are parameters too, and so is the NaN that a floating
  point operation returns. The
  disk image file is the list of its bytes. Mutexes are not state: operations are
  atomic steps.
\<close>

section \<open>Constants\<close>

abbreviation (input) FB_WIDTH :: nat where "FB_WIDTH \<equiv> 640"
abbreviation (input) FB_HEIGHT :: nat where "FB_HEIGHT \<equiv> 480"
abbreviation (input) FB_BPP :: nat where "FB_BPP \<equiv> 4"
abbreviation (input) FB_SIZE :: nat where "FB_SIZE \<equiv> 1228800"
abbreviation (input) IO_SIZE :: nat where "IO_SIZE \<equiv> 256"
abbreviation (input) REG_COUNT :: nat where "REG_COUNT \<equiv> 32"
abbreviation (input) IVT_SIZE :: u32 where "IVT_SIZE \<equiv> 256"
abbreviation (input) IRQ_BITMAP_WORDS :: nat where "IRQ_BITMAP_WORDS \<equiv> 4"
abbreviation (input) CALL_STACK_SIZE :: int where "CALL_STACK_SIZE \<equiv> 256"
abbreviation (input) DATA_STACK_SIZE :: int where "DATA_STACK_SIZE \<equiv> 256"
abbreviation (input) ISR_STACK_SIZE :: int where "ISR_STACK_SIZE \<equiv> 256"
abbreviation (input) IVT_BASE :: u32 where "IVT_BASE \<equiv> 0"
abbreviation (input) CALL_STACK_BASE :: u32 where "CALL_STACK_BASE \<equiv> 0x800"
abbreviation (input) TIME_BASE :: u32 where "TIME_BASE \<equiv> 0x2000"
abbreviation (input) PROGRAM_BASE :: u32 where "PROGRAM_BASE \<equiv> 0x201C"
abbreviation (input) FB_LEGACY_BASE :: u32 where "FB_LEGACY_BASE \<equiv> 0x620000"
abbreviation (input) SYSINFO_BASE :: u32 where "SYSINFO_BASE \<equiv> 0x74C000"
abbreviation (input) SYSINFO_SIZE :: u32 where "SYSINFO_SIZE \<equiv> 0x5C"
abbreviation (input) MEM_SIZE :: nat where "MEM_SIZE \<equiv> 67108864"

abbreviation (input) FLAG_CF :: u32 where "FLAG_CF \<equiv> 0x01"
abbreviation (input) FLAG_ZF :: u32 where "FLAG_ZF \<equiv> 0x08"
abbreviation (input) FLAG_SF :: u32 where "FLAG_SF \<equiv> 0x10"
abbreviation (input) FLAG_OF :: u32 where "FLAG_OF \<equiv> 0x20"

abbreviation (input) INT_KEYBOARD :: u32 where "INT_KEYBOARD \<equiv> 0"
abbreviation (input) INT_DIVIDE_BY_ZERO :: u32 where "INT_DIVIDE_BY_ZERO \<equiv> 1"
abbreviation (input) INT_DISK_COMPLETE :: u32 where "INT_DISK_COMPLETE \<equiv> 2"
abbreviation (input) INT_SERIAL :: u32 where "INT_SERIAL \<equiv> 3"
abbreviation (input) INT_TIMER :: u32 where "INT_TIMER \<equiv> 4"
abbreviation (input) BSP_CORE :: int where "BSP_CORE \<equiv> 0"

section \<open>Opcodes and the instruction word\<close>

abbreviation (input) OP_ADD :: u8 where "OP_ADD \<equiv> 0x01"
abbreviation (input) OP_SUB :: u8 where "OP_SUB \<equiv> 0x02"
abbreviation (input) OP_MUL :: u8 where "OP_MUL \<equiv> 0x03"
abbreviation (input) OP_DIV :: u8 where "OP_DIV \<equiv> 0x04"
abbreviation (input) OP_HALT :: u8 where "OP_HALT \<equiv> 0x05"
abbreviation (input) OP_JMP :: u8 where "OP_JMP \<equiv> 0x06"
abbreviation (input) OP_JZ :: u8 where "OP_JZ \<equiv> 0x07"
abbreviation (input) OP_PUSH :: u8 where "OP_PUSH \<equiv> 0x08"
abbreviation (input) OP_POP :: u8 where "OP_POP \<equiv> 0x09"
abbreviation (input) OP_CALL :: u8 where "OP_CALL \<equiv> 0x0A"
abbreviation (input) OP_RET :: u8 where "OP_RET \<equiv> 0x0B"
abbreviation (input) OP_LOAD :: u8 where "OP_LOAD \<equiv> 0x0C"
abbreviation (input) OP_LOAD32 :: u8 where "OP_LOAD32 \<equiv> 0x0D"
abbreviation (input) OP_LOADX32 :: u8 where "OP_LOADX32 \<equiv> 0x0E"
abbreviation (input) OP_STORE :: u8 where "OP_STORE \<equiv> 0x0F"
abbreviation (input) OP_STORE32 :: u8 where "OP_STORE32 \<equiv> 0x10"
abbreviation (input) OP_STOREX32 :: u8 where "OP_STOREX32 \<equiv> 0x11"
abbreviation (input) OP_CMP :: u8 where "OP_CMP \<equiv> 0x12"
abbreviation (input) OP_CMPI :: u8 where "OP_CMPI \<equiv> 0x13"
abbreviation (input) OP_MOV :: u8 where "OP_MOV \<equiv> 0x14"
abbreviation (input) OP_MOVI :: u8 where "OP_MOVI \<equiv> 0x15"
abbreviation (input) OP_MEMSET :: u8 where "OP_MEMSET \<equiv> 0x16"
abbreviation (input) OP_MEMCPY :: u8 where "OP_MEMCPY \<equiv> 0x17"
abbreviation (input) OP_IN :: u8 where "OP_IN \<equiv> 0x18"
abbreviation (input) OP_OUT :: u8 where "OP_OUT \<equiv> 0x19"
abbreviation (input) OP_INT :: u8 where "OP_INT \<equiv> 0x1A"
abbreviation (input) OP_IRET :: u8 where "OP_IRET \<equiv> 0x1B"
abbreviation (input) OP_MOD :: u8 where "OP_MOD \<equiv> 0x1C"
abbreviation (input) OP_AND :: u8 where "OP_AND \<equiv> 0x1D"
abbreviation (input) OP_OR :: u8 where "OP_OR \<equiv> 0x1E"
abbreviation (input) OP_XOR :: u8 where "OP_XOR \<equiv> 0x1F"
abbreviation (input) OP_NOT :: u8 where "OP_NOT \<equiv> 0x20"
abbreviation (input) OP_SHL :: u8 where "OP_SHL \<equiv> 0x21"
abbreviation (input) OP_SHR :: u8 where "OP_SHR \<equiv> 0x22"
abbreviation (input) OP_SAR :: u8 where "OP_SAR \<equiv> 0x23"
abbreviation (input) OP_JNZ :: u8 where "OP_JNZ \<equiv> 0x24"
abbreviation (input) OP_JG :: u8 where "OP_JG \<equiv> 0x25"
abbreviation (input) OP_JGE :: u8 where "OP_JGE \<equiv> 0x26"
abbreviation (input) OP_JL :: u8 where "OP_JL \<equiv> 0x27"
abbreviation (input) OP_JLE :: u8 where "OP_JLE \<equiv> 0x28"
abbreviation (input) OP_JC :: u8 where "OP_JC \<equiv> 0x29"
abbreviation (input) OP_JNC :: u8 where "OP_JNC \<equiv> 0x2A"
abbreviation (input) OP_FADD :: u8 where "OP_FADD \<equiv> 0x2B"
abbreviation (input) OP_FSUB :: u8 where "OP_FSUB \<equiv> 0x2C"
abbreviation (input) OP_FMUL :: u8 where "OP_FMUL \<equiv> 0x2D"
abbreviation (input) OP_FDIV :: u8 where "OP_FDIV \<equiv> 0x2E"
abbreviation (input) OP_FNEG :: u8 where "OP_FNEG \<equiv> 0x2F"
abbreviation (input) OP_FABS :: u8 where "OP_FABS \<equiv> 0x30"
abbreviation (input) OP_FSQRT :: u8 where "OP_FSQRT \<equiv> 0x31"
abbreviation (input) OP_FCMP :: u8 where "OP_FCMP \<equiv> 0x32"
abbreviation (input) OP_ITOF :: u8 where "OP_ITOF \<equiv> 0x33"
abbreviation (input) OP_FTOI :: u8 where "OP_FTOI \<equiv> 0x34"
abbreviation (input) OP_FLOAD32 :: u8 where "OP_FLOAD32 \<equiv> 0x35"
abbreviation (input) OP_FSTORE32 :: u8 where "OP_FSTORE32 \<equiv> 0x36"
abbreviation (input) OP_INC :: u8 where "OP_INC \<equiv> 0x37"
abbreviation (input) OP_ADDI :: u8 where "OP_ADDI \<equiv> 0x38"
abbreviation (input) OP_SUBI :: u8 where "OP_SUBI \<equiv> 0x39"
abbreviation (input) OP_ANDI :: u8 where "OP_ANDI \<equiv> 0x3A"
abbreviation (input) OP_ORI :: u8 where "OP_ORI \<equiv> 0x3B"
abbreviation (input) OP_XORI :: u8 where "OP_XORI \<equiv> 0x3C"
abbreviation (input) OP_SHLI :: u8 where "OP_SHLI \<equiv> 0x3D"
abbreviation (input) OP_SHRI :: u8 where "OP_SHRI \<equiv> 0x3E"
abbreviation (input) OP_CAS :: u8 where "OP_CAS \<equiv> 0x3F"
abbreviation (input) OP_XADD :: u8 where "OP_XADD \<equiv> 0x40"
abbreviation (input) OP_XCHG :: u8 where "OP_XCHG \<equiv> 0x41"
abbreviation (input) OP_LDAR :: u8 where "OP_LDAR \<equiv> 0x42"
abbreviation (input) OP_STLR :: u8 where "OP_STLR \<equiv> 0x43"
abbreviation (input) OP_FENCE :: u8 where "OP_FENCE \<equiv> 0x44"
abbreviation (input) OP_PAUSE :: u8 where "OP_PAUSE \<equiv> 0x45"
abbreviation (input) OP_STARTAP :: u8 where "OP_STARTAP \<equiv> 0x46"
abbreviation (input) OP_IPI :: u8 where "OP_IPI \<equiv> 0x47"
abbreviation (input) OP_CPUID :: u8 where "OP_CPUID \<equiv> 0x48"
abbreviation (input) OP_CALLR :: u8 where "OP_CALLR \<equiv> 0x49"
abbreviation (input) OP_RJMP :: u8 where "OP_RJMP \<equiv> 0x4A"
abbreviation (input) OP_RCALL :: u8 where "OP_RCALL \<equiv> 0x4B"
abbreviation (input) OP_RJZ :: u8 where "OP_RJZ \<equiv> 0x4C"
abbreviation (input) OP_RJNZ :: u8 where "OP_RJNZ \<equiv> 0x4D"
abbreviation (input) OP_ROL :: u8 where "OP_ROL \<equiv> 0x4E"
abbreviation (input) OP_ROR :: u8 where "OP_ROR \<equiv> 0x4F"
abbreviation (input) OP_ROLI :: u8 where "OP_ROLI \<equiv> 0x50"
abbreviation (input) OP_RORI :: u8 where "OP_RORI \<equiv> 0x51"

definition INST :: "u8 \<Rightarrow> u8 \<Rightarrow> u8 \<Rightarrow> u8 \<Rightarrow> u32 \<Rightarrow> u64" where
  "INST op rd rs1 rs2 imm =
     (push_bit 56 (ucast op) OR push_bit 48 (ucast rd) OR push_bit 40 (ucast rs1)
       OR push_bit 32 (ucast rs2)) OR ucast imm"

record inst =
  i_op :: u8
  i_rd :: u8
  i_rs1 :: u8
  i_rs2 :: u8
  i_imm :: u32

definition decode :: "u64 \<Rightarrow> inst" where
  "decode w = \<lparr>
     i_op = ucast (drop_bit 56 w AND 0xFF),
     i_rd = ucast (drop_bit 48 w AND 0xFF),
     i_rs1 = ucast (drop_bit 40 w AND 0xFF),
     i_rs2 = ucast (drop_bit 32 w AND 0xFF),
     i_imm = ucast (w AND 0xFFFFFFFF)\<rparr>"

section \<open>Aborts\<close>

datatype vm_error =
    Panic_no_ip
  | Panic_read8 u32
  | Panic_read32 u32
  | Panic_write8 u32
  | Panic_write32 u32
  | Panic_write64 u32
  | Panic_atomic_unaligned string u32
  | Panic_atomic_bounds string u32
  | Panic_atomic_mmio string u32
  | Panic_mmio_read u32
  | Panic_mmio_write u32
  | Panic_stack string
  | Panic_opcode u8
  | Panic_in int
  | Panic_out int
  | Panic_int_no u32
  | Panic_create string
  | Panic_unaligned string u32
  | Host_out_of_bounds string

section \<open>Cores, disk, devices, machine\<close>

record vcpu =
  regs :: "nat \<Rightarrow> u32"
  execution_times :: u64
  ip :: u32
  last_ip :: u32
  flags :: u32
  dsp :: int
  csp :: int
  isp :: int
  in_interrupt :: bool
  irq_masked :: bool
  core_id :: int
  call_stack_base :: u32
  data_stack_base :: u32
  isr_stack_base :: u32
  is_bsp :: bool

record disk_state =
  dk_lba :: u32
  dk_mem_addr :: u32
  dk_count :: u32
  dk_status :: u8
  dk_current_cmd :: int
  dk_thread_running :: bool
  dk_op_complete :: bool
  dk_image :: "u8 list"

datatype mmio_handler = Fb_handler | Time_handler | Sysinfo_handler

record mmio_device =
  dev_start :: u32
  dev_end :: u32
  dev_read32 :: "mmio_handler option"
  dev_write32 :: "mmio_handler option"

record vm =
  halted :: bool
  memory :: "u32 \<Rightarrow> u8"
  memory_size :: nat
  fb :: "nat \<Rightarrow> u8"
  io :: "nat \<Rightarrow> u32"
  serial_rx_fifo :: "nat \<Rightarrow> u8"
  serial_rx_head :: u16
  serial_rx_tail :: u16
  disk :: disk_state
  interrupt_bitmap :: "nat \<Rightarrow> u64"
  start_realtime_ns :: u64
  start_monotonic_ns :: u64
  latched_realtime :: u64
  latched_monotonic :: u64
  latched_boottime :: u64
  disk_size_bytes :: u64
  sysinfo_vendor_words :: "nat \<Rightarrow> u32"
  mmio_devices :: "mmio_device list"
  mmio_cache_dev :: "mmio_device option"
  mmio_cache_start :: u32
  mmio_cache_end :: u32
  smp_cores :: nat
  cpus :: "nat \<Rightarrow> vcpu"
  core_released :: "nat \<Rightarrow> bool"
  stack_pool_base :: u32
  stack_pool_size :: nat
  timer_period_us :: u32
  timer_next_deadline_ns :: u64
  timer_enabled :: bool
  timer_thread_running :: bool
  serial_tx :: "u8 list"
  clock_reads :: nat

record host =
  clock_realtime :: "nat \<Rightarrow> u64 \<times> u64"
  clock_monotonic :: "nat \<Rightarrow> u64 \<times> u64"
  malloc_ok :: "nat \<Rightarrow> bool"
  malloc_fill :: "nat \<Rightarrow> u8"
  nan_result :: "u32 \<Rightarrow> u32 \<Rightarrow> u32"

definition host_unix_time_ns :: "host \<Rightarrow> vm \<Rightarrow> u64" where
  "host_unix_time_ns h v =
     (case clock_realtime h (clock_reads v) of (sec, nsec) \<Rightarrow> sec * 1000000000 + nsec)"

definition host_monotonic_time_ns :: "host \<Rightarrow> vm \<Rightarrow> u64" where
  "host_monotonic_time_ns h v =
     (case clock_monotonic h (clock_reads v) of (sec, nsec) \<Rightarrow> sec * 1000000000 + nsec)"

text \<open>The zeroed structures that \<open>memset\<close> and \<open>calloc\<close> give \<open>vm_create\<close>, and a host for examples.\<close>

definition vcpu_zero :: vcpu where
  "vcpu_zero = \<lparr>regs = \<lambda>_. 0, execution_times = 0, ip = 0, last_ip = 0, flags = 0, dsp = 0, csp = 0,
     isp = 0, in_interrupt = False, irq_masked = False, core_id = 0, call_stack_base = 0,
     data_stack_base = 0, isr_stack_base = 0, is_bsp = False\<rparr>"

definition disk_zero :: disk_state where
  "disk_zero = \<lparr>dk_lba = 0, dk_mem_addr = 0, dk_count = 0, dk_status = 0, dk_current_cmd = 0,
     dk_thread_running = False, dk_op_complete = False, dk_image = []\<rparr>"

definition vm_zero :: vm where
  "vm_zero = \<lparr>halted = False, memory = \<lambda>_. 0, memory_size = 0, fb = \<lambda>_. 0, io = \<lambda>_. 0,
     serial_rx_fifo = \<lambda>_. 0, serial_rx_head = 0, serial_rx_tail = 0, disk = disk_zero,
     interrupt_bitmap = \<lambda>_. 0, start_realtime_ns = 0, start_monotonic_ns = 0, latched_realtime = 0,
     latched_monotonic = 0, latched_boottime = 0, disk_size_bytes = 0, sysinfo_vendor_words = \<lambda>_. 0,
     mmio_devices = [], mmio_cache_dev = None, mmio_cache_start = 0, mmio_cache_end = 0, smp_cores = 0,
     cpus = \<lambda>_. vcpu_zero, core_released = \<lambda>_. False, stack_pool_base = 0, stack_pool_size = 0,
     timer_period_us = 0, timer_next_deadline_ns = 0, timer_enabled = False, timer_thread_running = False,
     serial_tx = [], clock_reads = 0\<rparr>"

definition host_zero :: host where
  "host_zero = \<lparr>clock_realtime = \<lambda>_. (0, 0), clock_monotonic = \<lambda>_. (0, 0), malloc_ok = \<lambda>_. True,
     malloc_fill = \<lambda>_. 0, nan_result = \<lambda>a b. 0x7FC00000\<rparr>"

text \<open>The thread-local \<open>vm_tls_vcpu\<close> is the index \<open>c\<close> of the running core.\<close>

definition upd_cpu :: "nat \<Rightarrow> (vcpu \<Rightarrow> vcpu) \<Rightarrow> vm \<Rightarrow> vm" where
  "upd_cpu c f v = v\<lparr>cpus := (cpus v)(c := f (cpus v c))\<rparr>"

section \<open>Lemmas on the state\<close>

lemma cpus_upd_cpu [simp]:
  "cpus (upd_cpu c f v) c = f (cpus v c)"
  "c' \<noteq> c \<Longrightarrow> cpus (upd_cpu c f v) c' = cpus v c'"
  by (simp_all add: upd_cpu_def)

lemma upd_cpu_frame [simp]:
  "halted (upd_cpu c f v) = halted v"
  "memory (upd_cpu c f v) = memory v"
  "memory_size (upd_cpu c f v) = memory_size v"
  "fb (upd_cpu c f v) = fb v"
  "io (upd_cpu c f v) = io v"
  "serial_rx_fifo (upd_cpu c f v) = serial_rx_fifo v"
  "serial_rx_head (upd_cpu c f v) = serial_rx_head v"
  "serial_rx_tail (upd_cpu c f v) = serial_rx_tail v"
  "disk (upd_cpu c f v) = disk v"
  "interrupt_bitmap (upd_cpu c f v) = interrupt_bitmap v"
  "mmio_devices (upd_cpu c f v) = mmio_devices v"
  "mmio_cache_dev (upd_cpu c f v) = mmio_cache_dev v"
  "mmio_cache_start (upd_cpu c f v) = mmio_cache_start v"
  "mmio_cache_end (upd_cpu c f v) = mmio_cache_end v"
  "smp_cores (upd_cpu c f v) = smp_cores v"
  "core_released (upd_cpu c f v) = core_released v"
  "serial_tx (upd_cpu c f v) = serial_tx v"
  by (simp_all add: upd_cpu_def)

text \<open>
  The instruction word round trip: \<open>decode\<close> is the field extraction of the
  \<open>FETCH64\<close> macro, \<open>INST\<close> the encoder the built-in programs use.
\<close>

lemma INST_fields:
  "ucast (drop_bit 56 (INST op rd rs1 rs2 imm)) = op"
  "ucast (drop_bit 48 (INST op rd rs1 rs2 imm)) = rd"
  "ucast (drop_bit 40 (INST op rd rs1 rs2 imm)) = rs1"
  "ucast (drop_bit 32 (INST op rd rs1 rs2 imm)) = rs2"
  "ucast (INST op rd rs1 rs2 imm) = imm"
  unfolding INST_def
  by (rule bit_word_eqI, auto simp: bit_simps dest: bit_imp_le_length)+

lemma decode_INST:
  "decode (INST op rd rs1 rs2 imm)
   = \<lparr>i_op = op, i_rd = rd, i_rs1 = rs1, i_rs2 = rs2, i_imm = imm\<rparr>"
  unfolding decode_def lo32_def [symmetric] lo32_ucast ucast_and_ff INST_fields ..

end
