(* ===== verification/Devices.thy ===== *)
theory Devices
  imports VmState
begin

text \<open>
  Memory-mapped devices: the device table and its one-entry cache (\<open>mmio.h\<close>,
  \<open>mmio.c\<close>), the frame buffer (\<open>vga_mmio_register.c\<close>), the clock and timer
  registers (\<open>timer.c\<close>, \<open>time_mmio_register.c\<close>) and the system information block
  (\<open>sysinfo_mmio_register.c\<close>). Function pointers of \<open>MMIO_Device\<close> are the tags of
  \<open>mmio_handler\<close>.

  The locale \<open>mmio_port\<close> is what the bus relies on of a device's pair of handlers:
  they leave RAM, the cores, the interrupt bitmap, the ports and the device table
  alone. It is interpreted for the three devices.
\<close>

section \<open>The device table\<close>

definition dev_covers :: "u32 \<Rightarrow> mmio_device \<Rightarrow> bool" where
  "dev_covers a d = (dev_start d \<le> a \<and> a \<le> dev_end d)"

definition find_mmio_loop :: "vm \<Rightarrow> u32 \<Rightarrow> mmio_device option \<times> vm" where
  "find_mmio_loop v a =
     (case List.find (dev_covers a) (mmio_devices v) of
        Some d \<Rightarrow> (Some d, v\<lparr>mmio_cache_dev := Some d, mmio_cache_start := dev_start d,
                           mmio_cache_end := dev_end d\<rparr>)
      | None \<Rightarrow> (None, v\<lparr>mmio_cache_dev := None\<rparr>))"

definition find_mmio :: "vm \<Rightarrow> u32 \<Rightarrow> mmio_device option \<times> vm" where
  "find_mmio v a =
     (case mmio_cache_dev v of
        Some cached \<Rightarrow>
          if mmio_cache_start v \<le> a \<and> a \<le> mmio_cache_end v then (Some cached, v)
          else find_mmio_loop v a
      | None \<Rightarrow> find_mmio_loop v a)"

section \<open>Frame buffer\<close>

definition fb_pixel_index :: "vm \<Rightarrow> u32 \<Rightarrow> nat" where
  "fb_pixel_index v a =
     (let fb_base = memory_size v in
      if fb_base \<le> unat a \<and> unat a < fb_base + FB_SIZE then (unat a - fb_base) div 4
      else if FB_LEGACY_BASE \<le> a \<and> a < FB_LEGACY_BASE + of_nat FB_SIZE
      then unat (a - FB_LEGACY_BASE) div 4
      else 0)"

definition fb_read32 :: "host \<Rightarrow> vm \<Rightarrow> u32 \<Rightarrow> u32 \<times> vm" where
  "fb_read32 h v a =
     (let p = 4 * fb_pixel_index v a in
      (le32 (fb v p) (fb v (p + 1)) (fb v (p + 2)) (fb v (p + 3)), v))"

definition fb_write32 :: "vm \<Rightarrow> u32 \<Rightarrow> u32 \<Rightarrow> vm" where
  "fb_write32 v a value =
     (let p = 4 * fb_pixel_index v a in
      v\<lparr>fb := (fb v)(p := byte_of 0 value, p + 1 := byte_of 1 value,
                     p + 2 := byte_of 2 value, p + 3 := byte_of 3 value)\<rparr>)"

section \<open>Clock and timer registers\<close>

datatype timer_kind = REALTIME | MONOTONIC | BOOT

record time_struct =
  ts_lo :: u32
  ts_hi :: u32

definition time_parts :: "u64 \<Rightarrow> time_struct" where
  "time_parts t = \<lparr>ts_lo = ucast (t AND 0xFFFFFFFF), ts_hi = ucast (drop_bit 32 t)\<rparr>"

definition get_timer :: "host \<Rightarrow> vm \<Rightarrow> timer_kind \<Rightarrow> time_struct \<times> vm" where
  "get_timer h v k =
     (case k of
        REALTIME \<Rightarrow>
          (let t = host_unix_time_ns h v in
           (time_parts t, v\<lparr>latched_realtime := t, clock_reads := clock_reads v + 1\<rparr>))
      | MONOTONIC \<Rightarrow>
          (let t = host_monotonic_time_ns h v in
           (time_parts t, v\<lparr>latched_monotonic := t, clock_reads := clock_reads v + 1\<rparr>))
      | BOOT \<Rightarrow>
          (let t = host_monotonic_time_ns h v - start_monotonic_ns v in
           (time_parts t, v\<lparr>latched_boottime := t, clock_reads := clock_reads v + 1\<rparr>)))"

definition handle_programmable_tick :: "vm \<Rightarrow> u32 \<Rightarrow> vm" where
  "handle_programmable_tick v value =
     (if value = 0 then
        v\<lparr>timer_enabled := False, timer_period_us := 0, timer_next_deadline_ns := 0\<rparr>
      else
        (let value = (if value < 1000 then 1000 else value) in
         v\<lparr>timer_period_us := value, timer_next_deadline_ns := 0, timer_enabled := True\<rparr>))"

definition time_read32 :: "host \<Rightarrow> vm \<Rightarrow> u32 \<Rightarrow> u32 \<times> vm" where
  "time_read32 h v a =
     (let offset = a - TIME_BASE in
      if offset = 0x00 then (1, v)
      else if offset = 0x04 then (case get_timer h v REALTIME of (t, v') \<Rightarrow> (ts_lo t, v'))
      else if offset = 0x08 then (ucast (drop_bit 32 (latched_realtime v)), v)
      else if offset = 0x0C then (case get_timer h v MONOTONIC of (t, v') \<Rightarrow> (ts_lo t, v'))
      else if offset = 0x10 then (ucast (drop_bit 32 (latched_monotonic v)), v)
      else if offset = 0x14 then (case get_timer h v BOOT of (t, v') \<Rightarrow> (ts_lo t, v'))
      else if offset = 0x18 then (ucast (drop_bit 32 (latched_boottime v)), v)
      else (0, v))"

definition time_write32 :: "vm \<Rightarrow> u32 \<Rightarrow> u32 \<Rightarrow> vm" where
  "time_write32 v a value =
     (if a = TIME_BASE then handle_programmable_tick v value else v\<lparr>halted := True\<rparr>)"

section \<open>System information block\<close>

definition vendor :: string where "vendor = ''LampVM''"

definition sysinfo_init_vendor :: "vm \<Rightarrow> vm" where
  "sysinfo_init_vendor v =
     v\<lparr>sysinfo_vendor_words :=
         fold (\<lambda>i w. let k = i div 4; shift = (i mod 4) * 8 in
                if k < 4 then w(k := w k OR push_bit shift (of_char (vendor ! i))) else w)
              [0..<length vendor] (\<lambda>_. 0)\<rparr>"

definition sysinfo_feature_bits :: "vm \<Rightarrow> u32" where
  "sysinfo_feature_bits v =
     (let bits = push_bit 0 1 OR push_bit 1 1 OR push_bit 2 1 OR push_bit 4 1 in
      if smp_cores v > 1 then bits OR push_bit 3 1 else bits)"

definition sysinfo_read32 :: "host \<Rightarrow> vm \<Rightarrow> u32 \<Rightarrow> u32 \<times> vm" where
  "sysinfo_read32 h v a =
     (let offset = a - SYSINFO_BASE in
      if offset = 0x00 then (0x31494D56, v)
      else if 0x04 \<le> offset \<and> offset < 0x04 + 16 \<and> offset AND 0x3 = 0
      then (sysinfo_vendor_words v (unat ((offset - 0x04) div 4)), v)
      else if offset = 0x14 then (of_nat (memory_size v mod 2 ^ 32), v)
      else if offset = 0x18 then (of_nat (memory_size v div 2 ^ 32 mod 2 ^ 32), v)
      else if offset = 0x1C then (lo32 (disk_size_bytes v), v)
      else if offset = 0x20 then (hi32 (disk_size_bytes v), v)
      else if offset = 0x24 then (of_nat (smp_cores v), v)
      else if offset = 0x28 then (2, v)
      else if offset = 0x2C then (1, v)
      else if offset = 0x30 then (1, v)
      else if offset = 0x34 then (32, v)
      else if offset = 0x38 then (4096, v)
      else if offset = 0x3C then (1000000000, v)
      else if offset = 0x40 then (sysinfo_feature_bits v, v)
      else if offset = 0x44 then (of_nat FB_WIDTH, v)
      else if offset = 0x48 then (of_nat FB_HEIGHT, v)
      else if offset = 0x4C then (of_nat FB_BPP, v)
      else if offset = 0x50 then (of_nat (FB_WIDTH * FB_BPP), v)
      else if offset = 0x54 then (lo32 (start_realtime_ns v), v)
      else if offset = 0x58 then (hi32 (start_realtime_ns v), v)
      else (0, v))"

definition sysinfo_write32 :: "vm \<Rightarrow> u32 \<Rightarrow> u32 \<Rightarrow> vm" where
  "sysinfo_write32 v a value = v\<lparr>halted := True\<rparr>"

section \<open>Dispatch through the device table\<close>

definition mmio_read_fn :: "mmio_handler \<Rightarrow> host \<Rightarrow> vm \<Rightarrow> u32 \<Rightarrow> u32 \<times> vm" where
  "mmio_read_fn f =
     (case f of Fb_handler \<Rightarrow> fb_read32 | Time_handler \<Rightarrow> time_read32 | Sysinfo_handler \<Rightarrow> sysinfo_read32)"

definition mmio_write_fn :: "mmio_handler \<Rightarrow> vm \<Rightarrow> u32 \<Rightarrow> u32 \<Rightarrow> vm" where
  "mmio_write_fn f =
     (case f of Fb_handler \<Rightarrow> fb_write32 | Time_handler \<Rightarrow> time_write32 | Sysinfo_handler \<Rightarrow> sysinfo_write32)"

definition vm_mmio_read32 :: "host \<Rightarrow> vm \<Rightarrow> u32 \<Rightarrow> vm_error + u32 \<times> vm" where
  "vm_mmio_read32 h v a =
     (case find_mmio v a of (dev, v') \<Rightarrow>
        (case dev of None \<Rightarrow> Inl (Panic_mmio_read a)
         | Some d \<Rightarrow> (case dev_read32 d of None \<Rightarrow> Inl (Panic_mmio_read a)
                     | Some f \<Rightarrow> Inr (mmio_read_fn f h v' a))))"

definition vm_mmio_write32 :: "vm \<Rightarrow> u32 \<Rightarrow> u32 \<Rightarrow> vm_error + vm" where
  "vm_mmio_write32 v a value =
     (case find_mmio v a of (dev, v') \<Rightarrow>
        (case dev of None \<Rightarrow> Inl (Panic_mmio_write a)
         | Some d \<Rightarrow> (case dev_write32 d of None \<Rightarrow> Inl (Panic_mmio_write a)
                     | Some f \<Rightarrow> Inr (mmio_write_fn f v' a value))))"

section \<open>Registration\<close>

definition add_mmio_device :: "mmio_device \<Rightarrow> vm \<Rightarrow> vm" where
  "add_mmio_device d v = v\<lparr>mmio_devices := mmio_devices v @ [d]\<rparr>"

definition register_fb_mmio :: "vm \<Rightarrow> vm_error + vm" where
  "register_fb_mmio v =
     (if 16 < length (mmio_devices v) + 2 then Inl (Host_out_of_bounds ''mmio_devices'')
      else Inr
       (add_mmio_device
          \<lparr>dev_start = FB_LEGACY_BASE, dev_end = FB_LEGACY_BASE + of_nat FB_SIZE - 1,
           dev_read32 = Some Fb_handler, dev_write32 = Some Fb_handler\<rparr>
       (add_mmio_device
          \<lparr>dev_start = of_nat (memory_size v), dev_end = of_nat (memory_size v + FB_SIZE - 1),
           dev_read32 = Some Fb_handler, dev_write32 = Some Fb_handler\<rparr> v)))"

definition initialize_timer_related :: "vm \<Rightarrow> vm" where
  "initialize_timer_related v =
     v\<lparr>timer_enabled := False, timer_period_us := 0, timer_next_deadline_ns := 0,
       timer_thread_running := True\<rparr>"

definition register_time_mmio :: "vm \<Rightarrow> vm" where
  "register_time_mmio v =
     (let v = initialize_timer_related v in
      if length (mmio_devices v) < 16 then
        add_mmio_device
          \<lparr>dev_start = TIME_BASE, dev_end = TIME_BASE + 23,
           dev_read32 = Some Time_handler, dev_write32 = Some Time_handler\<rparr> v
      else v)"

definition register_sysinfo_mmio :: "vm \<Rightarrow> vm" where
  "register_sysinfo_mmio v =
     (let v = sysinfo_init_vendor v in
      if length (mmio_devices v) < 16 then
        add_mmio_device
          \<lparr>dev_start = SYSINFO_BASE, dev_end = SYSINFO_BASE + SYSINFO_SIZE - 1,
           dev_read32 = Some Sysinfo_handler, dev_write32 = Some Sysinfo_handler\<rparr> v
      else v)"

definition register_mmio :: "vm \<Rightarrow> vm_error + vm" where
  "register_mmio v =
     bind_res (register_fb_mmio (v\<lparr>mmio_devices := []\<rparr>))
       (\<lambda>v. Inr (register_sysinfo_mmio (register_time_mmio v)))"

section \<open>What device accesses leave alone\<close>

definition bus_frame :: "vm \<Rightarrow> vm \<Rightarrow> bool" where
  "bus_frame v w \<longleftrightarrow>
     memory w = memory v \<and> memory_size w = memory_size v \<and> io w = io v
     \<and> serial_rx_fifo w = serial_rx_fifo v \<and> serial_rx_head w = serial_rx_head v
     \<and> serial_rx_tail w = serial_rx_tail v \<and> disk w = disk v
     \<and> interrupt_bitmap w = interrupt_bitmap v \<and> start_realtime_ns w = start_realtime_ns v
     \<and> start_monotonic_ns w = start_monotonic_ns v \<and> disk_size_bytes w = disk_size_bytes v
     \<and> sysinfo_vendor_words w = sysinfo_vendor_words v \<and> mmio_devices w = mmio_devices v
     \<and> smp_cores w = smp_cores v \<and> cpus w = cpus v \<and> core_released w = core_released v
     \<and> stack_pool_base w = stack_pool_base v \<and> stack_pool_size w = stack_pool_size v
     \<and> serial_tx w = serial_tx v"

definition cache_frame :: "vm \<Rightarrow> vm \<Rightarrow> bool" where
  "cache_frame v w \<longleftrightarrow>
     mmio_cache_dev w = mmio_cache_dev v \<and> mmio_cache_start w = mmio_cache_start v
     \<and> mmio_cache_end w = mmio_cache_end v"

lemma bus_frame_refl [simp]: "bus_frame v v"
  by (simp add: bus_frame_def)

lemma bus_frame_trans: "bus_frame u v \<Longrightarrow> bus_frame v w \<Longrightarrow> bus_frame u w"
  by (simp add: bus_frame_def)

lemma bus_frameD:
  assumes "bus_frame v w"
  shows "memory w = memory v" "memory_size w = memory_size v" "cpus w = cpus v"
    "interrupt_bitmap w = interrupt_bitmap v" "mmio_devices w = mmio_devices v"
    "smp_cores w = smp_cores v" "io w = io v" "serial_rx_fifo w = serial_rx_fifo v"
    "serial_rx_head w = serial_rx_head v" "serial_rx_tail w = serial_rx_tail v"
    "disk w = disk v" "core_released w = core_released v" "serial_tx w = serial_tx v"
  using assms by (simp_all add: bus_frame_def)

locale mmio_port =
  fixes rd :: "host \<Rightarrow> vm \<Rightarrow> u32 \<Rightarrow> u32 \<times> vm"
    and wr :: "vm \<Rightarrow> u32 \<Rightarrow> u32 \<Rightarrow> vm"
  assumes rd_bus: "bus_frame v (snd (rd h v a))"
    and rd_cache: "cache_frame v (snd (rd h v a))"
    and wr_bus: "bus_frame v (wr v a x)"
    and wr_cache: "cache_frame v (wr v a x)"
begin

text \<open>A driver polling a register or replaying a list of writes never reaches RAM.\<close>

lemma writes_bus: "bus_frame v (fold (\<lambda>(a, x) v. wr v a x) ws v)"
proof (induction ws arbitrary: v)
  case Nil
  then show ?case by simp
next
  case (Cons w ws)
  then show ?case
    by (cases w) (auto intro: bus_frame_trans [OF wr_bus])
qed

lemma reads_bus: "bus_frame v (fold (\<lambda>a v. snd (rd h v a)) as v)"
  by (induction as arbitrary: v) (auto intro: bus_frame_trans [OF rd_bus])

end

interpretation fb_port: mmio_port fb_read32 fb_write32
  by unfold_locales
    (simp_all add: fb_read32_def fb_write32_def bus_frame_def cache_frame_def Let_def)

interpretation time_port: mmio_port time_read32 time_write32
  by unfold_locales
    (simp_all add: time_read32_def time_write32_def handle_programmable_tick_def get_timer_def
       bus_frame_def cache_frame_def Let_def)

interpretation sysinfo_port: mmio_port sysinfo_read32 sysinfo_write32
  by unfold_locales
    (simp_all add: sysinfo_read32_def sysinfo_write32_def bus_frame_def cache_frame_def Let_def)

lemma mmio_fn_frame:
  "bus_frame v (snd (mmio_read_fn f h v a))"
  "cache_frame v (snd (mmio_read_fn f h v a))"
  "bus_frame v (mmio_write_fn f v a x)"
  "cache_frame v (mmio_write_fn f v a x)"
  by (cases f; simp add: mmio_read_fn_def mmio_write_fn_def fb_port.rd_bus fb_port.rd_cache
        fb_port.wr_bus fb_port.wr_cache time_port.rd_bus time_port.rd_cache time_port.wr_bus
        time_port.wr_cache sysinfo_port.rd_bus sysinfo_port.rd_cache sysinfo_port.wr_bus
        sysinfo_port.wr_cache)+

section \<open>The cache is transparent\<close>

definition dev_apart :: "mmio_device \<Rightarrow> mmio_device \<Rightarrow> bool" where
  "dev_apart d e \<longleftrightarrow> d = e \<or> dev_end d < dev_start e \<or> dev_end e < dev_start d"

definition devs_disjoint :: "mmio_device list \<Rightarrow> bool" where
  "devs_disjoint ds \<longleftrightarrow> (\<forall>d \<in> set ds. \<forall>e \<in> set ds. dev_apart d e)"

definition cache_ok :: "vm \<Rightarrow> bool" where
  "cache_ok v \<longleftrightarrow>
     (case mmio_cache_dev v of None \<Rightarrow> True
      | Some d \<Rightarrow> d \<in> set (mmio_devices v) \<and> mmio_cache_start v = dev_start d
                 \<and> mmio_cache_end v = dev_end d)"

definition bus_ok :: "vm \<Rightarrow> bool" where
  "bus_ok v \<longleftrightarrow> devs_disjoint (mmio_devices v) \<and> cache_ok v"

definition dev_at :: "vm \<Rightarrow> u32 \<Rightarrow> mmio_device option" where
  "dev_at v a = List.find (dev_covers a) (mmio_devices v)"

lemma dev_covers_unique:
  "devs_disjoint ds \<Longrightarrow> d \<in> set ds \<Longrightarrow> e \<in> set ds \<Longrightarrow> dev_covers a d \<Longrightarrow> dev_covers a e \<Longrightarrow> d = e"
  unfolding devs_disjoint_def dev_apart_def dev_covers_def by force

lemma find_unique:
  assumes "devs_disjoint ds" "d \<in> set ds" "dev_covers a d"
  shows "List.find (dev_covers a) ds = Some d"
proof -
  from assms(2,3) obtain e where e: "List.find (dev_covers a) ds = Some e"
    by (cases "List.find (dev_covers a) ds") (auto simp: find_None_iff)
  then have "e \<in> set ds" "dev_covers a e"
    by (auto simp: find_Some_iff)
  with assms e show ?thesis using dev_covers_unique by metis
qed

lemma find_mmio_dev: "bus_ok v \<Longrightarrow> fst (find_mmio v a) = dev_at v a"
  unfolding find_mmio_def find_mmio_loop_def bus_ok_def cache_ok_def dev_at_def
  by (auto simp: find_unique dev_covers_def split: option.splits)

lemma find_mmio_frame: "bus_frame v (snd (find_mmio v a))"
  by (auto simp: find_mmio_def find_mmio_loop_def bus_frame_def split: option.splits)

lemma find_mmio_bus_ok: "bus_ok v \<Longrightarrow> bus_ok (snd (find_mmio v a))"
  unfolding bus_ok_def
  by (auto simp: find_mmio_def find_mmio_loop_def cache_ok_def find_Some_iff split: option.splits)

lemma bus_ok_cong:
  assumes "mmio_devices w = mmio_devices v" "cache_frame v w"
  shows "bus_ok w \<longleftrightarrow> bus_ok v"
  using assms by (simp add: bus_ok_def cache_ok_def cache_frame_def split: option.splits)

lemma bus_ok_frame: "bus_ok v \<Longrightarrow> bus_frame v w \<Longrightarrow> cache_frame v w \<Longrightarrow> bus_ok w"
  using bus_ok_cong by (simp add: bus_frame_def)

lemma bus_ok_upd_cpu [simp]: "bus_ok (upd_cpu c f v) = bus_ok v"
  by (rule bus_ok_cong) (simp_all add: cache_frame_def)

lemma dev_at_cong: "mmio_devices w = mmio_devices v \<Longrightarrow> dev_at w a = dev_at v a"
  by (simp add: dev_at_def)

lemma dev_at_frame: "bus_frame v w \<Longrightarrow> dev_at w a = dev_at v a"
  by (simp add: dev_at_def bus_frame_def)

text \<open>The devices that \<open>vm_create\<close> registers, on a machine with no device.\<close>

abbreviation (input) boot_devices :: "mmio_device list" where
  "boot_devices \<equiv>
    [\<lparr>dev_start = 0x4000000, dev_end = 0x412BFFF,
      dev_read32 = Some Fb_handler, dev_write32 = Some Fb_handler\<rparr>,
     \<lparr>dev_start = 0x620000, dev_end = 0x74BFFF,
      dev_read32 = Some Fb_handler, dev_write32 = Some Fb_handler\<rparr>,
     \<lparr>dev_start = 0x2000, dev_end = 0x2017,
      dev_read32 = Some Time_handler, dev_write32 = Some Time_handler\<rparr>,
     \<lparr>dev_start = 0x74C000, dev_end = 0x74C05B,
      dev_read32 = Some Sysinfo_handler, dev_write32 = Some Sysinfo_handler\<rparr>]"

lemma boot_devices_disjoint: "devs_disjoint boot_devices"
  by (simp add: devs_disjoint_def dev_apart_def)

lemma register_mmio_devices:
  assumes "memory_size v = MEM_SIZE"
  shows "\<exists>w. register_mmio v = Inr w \<and> mmio_devices w = boot_devices
             \<and> mmio_cache_dev w = mmio_cache_dev v \<and> memory_size w = memory_size v"
  using assms
  by (simp add: register_mmio_def register_fb_mmio_def register_time_mmio_def
       register_sysinfo_mmio_def add_mmio_device_def initialize_timer_related_def
       sysinfo_init_vendor_def Let_def)

text \<open>A single-core machine with the registered devices and empty stacks, for examples.\<close>

definition demo_vm :: vm where
  "demo_vm = vm_zero\<lparr>memory_size := MEM_SIZE, mmio_devices := boot_devices, smp_cores := 1,
     cpus := \<lambda>_. vcpu_zero\<lparr>csp := 256, dsp := 256, isp := 256, call_stack_base := 0x800,
       data_stack_base := 0x1000, isr_stack_base := 0x1400, is_bsp := True\<rparr>\<rparr>"

lemma demo_vm_fields [simp]:
  "halted demo_vm = False" "memory demo_vm = (\<lambda>_. 0)" "memory_size demo_vm = MEM_SIZE"
  "mmio_devices demo_vm = boot_devices" "mmio_cache_dev demo_vm = None" "smp_cores demo_vm = 1"
  "cpus demo_vm = (\<lambda>_. vcpu_zero\<lparr>csp := 256, dsp := 256, isp := 256, call_stack_base := 0x800,
       data_stack_base := 0x1000, isr_stack_base := 0x1400, is_bsp := True\<rparr>)"
  "interrupt_bitmap demo_vm = (\<lambda>_. 0)" "io demo_vm = (\<lambda>_. 0)" "disk demo_vm = disk_zero"
  "serial_rx_head demo_vm = 0" "serial_rx_tail demo_vm = 0" "serial_rx_fifo demo_vm = (\<lambda>_. 0)"
  by (simp_all add: demo_vm_def vm_zero_def)

lemma demo_bus_ok: "bus_ok demo_vm"
  using boot_devices_disjoint by (simp add: bus_ok_def cache_ok_def)

section \<open>Properties\<close>

text \<open>looking up an address through the one-entry cache gives the device the table gives, and
  leaves a coherent cache and the same table.\<close>

theorem find_mmio_cache_transparent:
  assumes "bus_ok v"
  shows "fst (find_mmio v a) = List.find (dev_covers a) (mmio_devices v)
         \<and> bus_ok (snd (find_mmio v a)) \<and> mmio_devices (snd (find_mmio v a)) = mmio_devices v"
  using assms find_mmio_dev [OF assms, of a] find_mmio_bus_ok [OF assms, of a] find_mmio_frame [of v a]
  by (simp add: dev_at_def bus_frame_def)

theorem find_mmio_cache_transparent_witness:
  "fst (find_mmio (snd (find_mmio demo_vm 0x2004)) 0x2008) = fst (find_mmio demo_vm 0x2008)"
  using find_mmio_cache_transparent [OF demo_bus_ok, of "0x2004"]
    find_mmio_cache_transparent [OF demo_bus_ok, of "0x2008"]
    find_mmio_cache_transparent [of "snd (find_mmio demo_vm 0x2004)" "0x2008"]
  by simp

text \<open>the low word of a clock register latches the reading, so that the high word read next, and
  the low word, are the two halves of one reading of the host clock.\<close>

theorem clock_halves_consistent:
  "(let (lo, v1) = time_read32 h v 0x2004; (hi, v2) = time_read32 h v1 0x2008 in join64 lo hi)
     = host_unix_time_ns h v
   \<and> (let (lo, v1) = time_read32 h v 0x200C; (hi, v2) = time_read32 h v1 0x2010 in join64 lo hi)
     = host_monotonic_time_ns h v"
  using join64_lo_hi [of "host_unix_time_ns h v"] join64_lo_hi [of "host_monotonic_time_ns h v"]
  by (simp add: time_read32_def get_timer_def time_parts_def Let_def lo32_def hi32_def)

end
