(* ===== verification/Memory.thy ===== *)
theory Memory
  imports Devices
begin

text \<open>
  The memory API of \<open>memory.c\<close>: byte, 32-bit and 64-bit accesses with the frame
  buffer windows and the device table, and the atomic operations. Built without
  \<open>VM_MEMCHECK\<close> (the default), so only the atomic operations check alignment.
  An access returns \<open>Inl\<close> where the code panics.

  The lemmas give the accesses on plain RAM (no device, in bounds) as loads and
  stores of the byte map, the read-after-write laws, and what each access leaves
  alone. \<open>ram_frame\<close> is the part of the machine no memory access writes.
\<close>

section \<open>Loads and stores on the byte map\<close>

definition load32 :: "(u32 \<Rightarrow> u8) \<Rightarrow> u32 \<Rightarrow> u32" where
  "load32 m a = le32 (m (a + 0)) (m (a + 1)) (m (a + 2)) (m (a + 3))"

definition store32 :: "(u32 \<Rightarrow> u8) \<Rightarrow> u32 \<Rightarrow> u32 \<Rightarrow> (u32 \<Rightarrow> u8)" where
  "store32 m a x =
     m(a + 0 := byte_of 0 x, a + 1 := byte_of 1 x, a + 2 := byte_of 2 x, a + 3 := byte_of 3 x)"

definition store64 :: "(u32 \<Rightarrow> u8) \<Rightarrow> u32 \<Rightarrow> u64 \<Rightarrow> (u32 \<Rightarrow> u8)" where
  "store64 m a x =
     m(a + 0 := byte_of 0 x, a + 1 := byte_of 1 x, a + 2 := byte_of 2 x, a + 3 := byte_of 3 x,
       a + 4 := byte_of 4 x, a + 5 := byte_of 5 x, a + 6 := byte_of 6 x, a + 7 := byte_of 7 x)"

section \<open>The access functions\<close>

definition in_ram :: "vm \<Rightarrow> u32 \<Rightarrow> nat \<Rightarrow> bool" where
  "in_ram v a n = (unat a + n \<le> memory_size v)"

definition fb_byte_index :: "vm \<Rightarrow> u32 \<Rightarrow> nat option" where
  "fb_byte_index v a =
     (let fb_base = memory_size v in
      if fb_base \<le> unat a \<and> unat a < fb_base + FB_SIZE then Some (unat a - fb_base)
      else if FB_LEGACY_BASE \<le> a \<and> a < FB_LEGACY_BASE + of_nat FB_SIZE
      then Some (unat (a - FB_LEGACY_BASE))
      else None)"

definition vm_read8 :: "vm \<Rightarrow> u32 \<Rightarrow> vm_error + u8" where
  "vm_read8 v a =
     (case fb_byte_index v a of
        Some i \<Rightarrow> Inr (fb v i)
      | None \<Rightarrow> if \<not> in_ram v a 1 then Inl (Panic_read8 a) else Inr (memory v a))"

definition vm_read32 :: "host \<Rightarrow> vm \<Rightarrow> u32 \<Rightarrow> vm_error + u32 \<times> vm" where
  "vm_read32 h v a =
     (case find_mmio v a of (dev, v) \<Rightarrow>
        (case dev of
           Some d \<Rightarrow> vm_mmio_read32 h v a
         | None \<Rightarrow> if \<not> in_ram v a 4 then Inl (Panic_read32 a)
                   else Inr (load32 (memory v) a, v)))"

definition vm_read64 :: "host \<Rightarrow> vm \<Rightarrow> u32 \<Rightarrow> vm_error + u64 \<times> vm" where
  "vm_read64 h v a =
     bind_res (vm_read32 h v a) (\<lambda>(lo, v).
     bind_res (vm_read32 h v (a + 4)) (\<lambda>(hi, v).
     Inr (ucast lo OR push_bit 32 (ucast hi), v)))"

definition vm_write8 :: "vm \<Rightarrow> u32 \<Rightarrow> u8 \<Rightarrow> vm_error + vm" where
  "vm_write8 v a value =
     (case fb_byte_index v a of
        Some i \<Rightarrow> Inr (v\<lparr>fb := (fb v)(i := value)\<rparr>)
      | None \<Rightarrow> if \<not> in_ram v a 1 then Inl (Panic_write8 a)
                else Inr (v\<lparr>memory := (memory v)(a := value)\<rparr>))"

definition vm_write32 :: "vm \<Rightarrow> u32 \<Rightarrow> u32 \<Rightarrow> vm_error + vm" where
  "vm_write32 v a value =
     (case find_mmio v a of (dev, v) \<Rightarrow>
        (case (case dev of None \<Rightarrow> None | Some d \<Rightarrow> dev_write32 d) of
           Some f \<Rightarrow> Inr (mmio_write_fn f v a value)
         | None \<Rightarrow> if \<not> in_ram v a 4 then Inl (Panic_write32 a)
                   else Inr (v\<lparr>memory := store32 (memory v) a value\<rparr>)))"

definition vm_write64 :: "vm \<Rightarrow> u32 \<Rightarrow> u64 \<Rightarrow> vm_error + vm" where
  "vm_write64 v a value =
     (if \<not> in_ram v a 8 then Inl (Panic_write64 a)
      else Inr (v\<lparr>memory := store64 (memory v) a value\<rparr>))"

section \<open>Atomic operations\<close>

definition atomic32_ptr_or_panic :: "vm \<Rightarrow> u32 \<Rightarrow> string \<Rightarrow> vm_error + vm" where
  "atomic32_ptr_or_panic v a op_name =
     (if a mod 4 \<noteq> 0 then Inl (Panic_atomic_unaligned op_name a)
      else if \<not> in_ram v a 4 then Inl (Panic_atomic_bounds op_name a)
      else (case find_mmio v a of (dev, v) \<Rightarrow>
        if dev \<noteq> None then Inl (Panic_atomic_mmio op_name a) else Inr v))"

definition vm_atomic_load32_acquire :: "vm \<Rightarrow> u32 \<Rightarrow> vm_error + u32 \<times> vm" where
  "vm_atomic_load32_acquire v a =
     bind_res (atomic32_ptr_or_panic v a ''LDAR'') (\<lambda>v. Inr (load32 (memory v) a, v))"

definition vm_atomic_store32_release :: "vm \<Rightarrow> u32 \<Rightarrow> u32 \<Rightarrow> vm_error + vm" where
  "vm_atomic_store32_release v a value =
     bind_res (atomic32_ptr_or_panic v a ''STLR'') (\<lambda>v.
     Inr (v\<lparr>memory := store32 (memory v) a value\<rparr>))"

definition vm_atomic_exchange32_seqcst :: "vm \<Rightarrow> u32 \<Rightarrow> u32 \<Rightarrow> vm_error + u32 \<times> vm" where
  "vm_atomic_exchange32_seqcst v a value =
     bind_res (atomic32_ptr_or_panic v a ''XCHG'') (\<lambda>v.
     Inr (load32 (memory v) a, v\<lparr>memory := store32 (memory v) a value\<rparr>))"

definition vm_atomic_fetch_add32_seqcst :: "vm \<Rightarrow> u32 \<Rightarrow> u32 \<Rightarrow> vm_error + u32 \<times> vm" where
  "vm_atomic_fetch_add32_seqcst v a value =
     bind_res (atomic32_ptr_or_panic v a ''XADD'') (\<lambda>v.
     let old = load32 (memory v) a in
     Inr (old, v\<lparr>memory := store32 (memory v) a (old + value)\<rparr>))"

definition vm_atomic_compare_exchange32_seqcst ::
  "vm \<Rightarrow> u32 \<Rightarrow> u32 \<Rightarrow> u32 \<Rightarrow> vm_error + (u32 \<times> bool) \<times> vm" where
  "vm_atomic_compare_exchange32_seqcst v a expected desired =
     bind_res (atomic32_ptr_or_panic v a ''CAS'') (\<lambda>v.
     let observed = load32 (memory v) a in
     if observed = expected
     then Inr ((observed, True), v\<lparr>memory := store32 (memory v) a desired\<rparr>)
     else Inr ((observed, False), v))"

section \<open>Byte-map laws\<close>

lemma load32_store32 [simp]: "load32 (store32 m a x) a = x"
  by (simp add: load32_def store32_def)

lemma load32_store64 [simp]:
  "load32 (store64 m a x) a = lo32 x"
  "load32 (store64 m a x) (a + 4) = hi32 x"
proof -
  have "load32 (store64 m a x) a
        = le32 (byte_of 0 (lo32 x)) (byte_of 1 (lo32 x)) (byte_of 2 (lo32 x)) (byte_of 3 (lo32 x))"
    by (simp add: load32_def store64_def)
  then show "load32 (store64 m a x) a = lo32 x" by (simp only: le32_byte_of)
  have "load32 (store64 m a x) (a + 4)
        = le32 (byte_of 0 (hi32 x)) (byte_of 1 (hi32 x)) (byte_of 2 (hi32 x)) (byte_of 3 (hi32 x))"
    by (simp add: load32_def store64_def add.assoc)
  then show "load32 (store64 m a x) (a + 4) = hi32 x" by (simp only: le32_byte_of)
qed

lemma unat_plus_small: "unat (a :: u32) + unat b < 2 ^ 32 \<Longrightarrow> unat (a + b) = unat a + unat b"
  by (simp add: unat_word_ariths)

text \<open>Addresses outside the stored range keep their byte.\<close>

lemma store_other:
  assumes "unat a + n \<le> 2 ^ 32" "unat b < unat a \<or> unat a + n \<le> unat b" "unat k < n"
  shows "b \<noteq> a + (k :: u32)"
proof
  assume "b = a + k"
  moreover have "unat (a + k) = unat a + unat k"
    using assms(1,3) by (intro unat_plus_small) simp
  ultimately show False using assms(2,3) by simp
qed

lemma store32_other:
  assumes "unat a + 4 \<le> 2 ^ 32" "unat b < unat a \<or> unat a + 4 \<le> unat b"
  shows "store32 m a x b = m b"
  using store_other [OF assms, of 0] store_other [OF assms, of 1] store_other [OF assms, of 2]
    store_other [OF assms, of 3]
  by (simp add: store32_def)

lemma store64_other:
  assumes "unat a + 8 \<le> 2 ^ 32" "unat b < unat a \<or> unat a + 8 \<le> unat b"
  shows "store64 m a x b = m b"
  using store_other [OF assms, of 0] store_other [OF assms, of 1] store_other [OF assms, of 2]
    store_other [OF assms, of 3] store_other [OF assms, of 4] store_other [OF assms, of 5]
    store_other [OF assms, of 6] store_other [OF assms, of 7]
  by (simp add: store64_def)

lemma load32_cong:
  assumes "\<And>i. unat i < 4 \<Longrightarrow> m (a + i) = m' (a + i)"
  shows "load32 m a = load32 m' a"
  using assms [of 0] assms [of 1] assms [of 2] assms [of 3] by (simp add: load32_def)

lemma load32_store32_other:
  assumes "unat a + 4 \<le> 2 ^ 32" "unat b + 4 \<le> 2 ^ 32"
    and "unat b + 4 \<le> unat a \<or> unat a + 4 \<le> unat b"
  shows "load32 (store32 m a x) b = load32 m b"
proof (rule load32_cong)
  fix i :: u32
  assume "unat i < 4"
  then have "unat (b + i) = unat b + unat i" using assms(2) by (intro unat_plus_small) simp
  with assms(3) \<open>unat i < 4\<close> show "store32 m a x (b + i) = m (b + i)"
    by (intro store32_other [OF assms(1)]) auto
qed

section \<open>Accesses to plain RAM\<close>

abbreviation nocache :: "vm \<Rightarrow> vm" where
  "nocache v \<equiv> v\<lparr>mmio_cache_dev := None\<rparr>"

lemma nocache_bus [simp]: "bus_ok v \<Longrightarrow> bus_ok (nocache v)" "dev_at (nocache v) a = dev_at v a"
  by (simp_all add: bus_ok_def cache_ok_def dev_at_def)

lemma find_mmio_none:
  assumes "bus_ok v" "dev_at v a = None"
  shows "find_mmio v a = (None, nocache v)"
proof -
  from assms have "fst (find_mmio v a) = None" by (simp add: find_mmio_dev)
  then show ?thesis
    by (auto simp: find_mmio_def find_mmio_loop_def split: option.splits if_splits)
qed

lemma vm_read32_ram:
  assumes "bus_ok v" "dev_at v a = None" "in_ram v a 4"
  shows "vm_read32 h v a = Inr (load32 (memory v) a, nocache v)"
  using assms by (simp add: vm_read32_def find_mmio_none in_ram_def)

lemma vm_write32_ram:
  assumes "bus_ok v" "dev_at v a = None" "in_ram v a 4"
  shows "vm_write32 v a x = Inr (v\<lparr>mmio_cache_dev := None, memory := store32 (memory v) a x\<rparr>)"
  using assms by (simp add: vm_write32_def find_mmio_none in_ram_def)

lemma in_ram_second: "in_ram v a 8 \<Longrightarrow> unat a + 8 \<le> 2 ^ 32 \<Longrightarrow> in_ram v (a + 4) 4"
  using unat_plus_small [of a 4] by (simp add: in_ram_def)

lemma vm_read64_ram:
  assumes "bus_ok v" "dev_at v a = None" "dev_at v (a + 4) = None" "in_ram v a 8"
    and "unat a + 8 \<le> 2 ^ 32"
  shows "vm_read64 h v a
         = Inr (join64 (load32 (memory v) a) (load32 (memory v) (a + 4)), nocache v)"
proof -
  have "in_ram v a 4" using assms(4) by (simp add: in_ram_def)
  then have "vm_read32 h v a = Inr (load32 (memory v) a, nocache v)"
    using assms by (simp add: vm_read32_ram)
  moreover have "vm_read32 h (nocache v) (a + 4)
                 = Inr (load32 (memory v) (a + 4), nocache v)"
    using assms in_ram_second [OF assms(4,5)] vm_read32_ram [of "nocache v" "a + 4" h]
    by (simp add: in_ram_def)
  ultimately show ?thesis by (simp add: vm_read64_def join64_def)
qed

section \<open>What memory accesses leave alone\<close>

definition ram_frame :: "vm \<Rightarrow> vm \<Rightarrow> bool" where
  "ram_frame v w \<longleftrightarrow>
     bus_frame (v\<lparr>memory := memory w\<rparr>) w
     \<and> (\<forall>b. memory_size v \<le> unat b \<longrightarrow> memory w b = memory v b)
     \<and> (bus_ok v \<longrightarrow> bus_ok w)"

lemma ram_frame_refl [simp]: "ram_frame v v"
  by (simp add: ram_frame_def bus_frame_def)

lemma ram_frame_trans: "ram_frame u v \<Longrightarrow> ram_frame v w \<Longrightarrow> ram_frame u w"
  by (simp add: ram_frame_def bus_frame_def)

lemma ram_frameI_bus: "bus_frame v w \<Longrightarrow> (bus_ok v \<Longrightarrow> bus_ok w) \<Longrightarrow> ram_frame v w"
  by (auto simp: ram_frame_def bus_frame_def)

lemma ram_frame_memory:
  assumes "\<And>b. memory_size v \<le> unat b \<Longrightarrow> m b = memory v b"
  shows "ram_frame v (v\<lparr>memory := m\<rparr>)"
  using assms bus_ok_cong [of "v\<lparr>memory := m\<rparr>" v]
  by (simp add: ram_frame_def bus_frame_def cache_frame_def)

lemma ram_frameD:
  assumes "ram_frame v w"
  shows "memory_size w = memory_size v" "cpus w = cpus v"
    "interrupt_bitmap w = interrupt_bitmap v" "mmio_devices w = mmio_devices v"
    "smp_cores w = smp_cores v" "io w = io v" "serial_rx_fifo w = serial_rx_fifo v"
    "serial_rx_head w = serial_rx_head v" "serial_rx_tail w = serial_rx_tail v"
    "disk w = disk v" "core_released w = core_released v" "serial_tx w = serial_tx v"
    "bus_ok v \<Longrightarrow> bus_ok w"
  using assms by (simp_all add: ram_frame_def bus_frame_def)

lemma above_ram: "in_ram v a n \<Longrightarrow> memory_size v \<le> unat (b :: u32) \<Longrightarrow> unat a + n \<le> 2 ^ 32 \<and> unat a + n \<le> unat b"
  using unsigned_less [of b, where ?'a = nat] by (simp add: in_ram_def)

lemma ram_frame_store32: "in_ram v a 4 \<Longrightarrow> ram_frame v (v\<lparr>memory := store32 (memory v) a x\<rparr>)"
  by (rule ram_frame_memory, rule store32_other) (auto dest: above_ram)

lemma ram_frame_store64: "in_ram v a 8 \<Longrightarrow> ram_frame v (v\<lparr>memory := store64 (memory v) a x\<rparr>)"
  by (rule ram_frame_memory, rule store64_other) (auto dest: above_ram)

lemma find_mmio_ram: "find_mmio v a = (d, w) \<Longrightarrow> ram_frame v w"
  using find_mmio_frame [of v a] find_mmio_bus_ok [of v a] by (auto intro: ram_frameI_bus)

lemma mmio_read_fn_ram: "mmio_read_fn f h v a = (x, w) \<Longrightarrow> ram_frame v w"
  using mmio_fn_frame(1,2) [of v f h a]
  by (auto intro!: ram_frameI_bus elim: bus_ok_frame)

lemma mmio_write_fn_ram: "ram_frame v (mmio_write_fn f v a x)"
  using mmio_fn_frame(3,4) [of v f a x]
  by (auto intro!: ram_frameI_bus elim: bus_ok_frame)

section \<open>Properties\<close>

lemma find_None_list_all: "List.find P xs = None \<longleftrightarrow> list_all (\<lambda>x. \<not> P x) xs"
  by (auto simp: find_None_iff list_all_iff)

lemma dev_at_boot:
  assumes "mmio_devices v = boot_devices"
  shows "dev_at v a = None \<longleftrightarrow>
     (0x4000000 \<le> a \<longrightarrow> \<not> a \<le> 0x412BFFF) \<and> (0x620000 \<le> a \<longrightarrow> \<not> a \<le> 0x74BFFF)
     \<and> (0x2000 \<le> a \<longrightarrow> \<not> a \<le> 0x2017) \<and> (0x74C000 \<le> a \<longrightarrow> \<not> a \<le> 0x74C05B)"
  unfolding dev_at_def find_None_list_all assms by (simp add: dev_covers_def)

text \<open>a 32-bit store to plain RAM is what the next load of that address returns, and bytes outside
  the word keep their values.\<close>

theorem ram_write_read32:
  assumes "bus_ok v" "dev_at v a = None" "in_ram v a 4" "memory_size v \<le> 2 ^ 32"
  shows "\<exists>w. vm_write32 v a x = Inr w \<and> vm_read32 h w a = Inr (x, w)
             \<and> (\<forall>b. unat b < unat a \<or> unat a + 4 \<le> unat b \<longrightarrow> memory w b = memory v b)"
proof -
  let ?w = "v\<lparr>mmio_cache_dev := None, memory := store32 (memory v) a x\<rparr>"
  have "vm_write32 v a x = Inr ?w" using assms by (intro vm_write32_ram)
  moreover have "bus_ok ?w" using assms(1) by (simp add: bus_ok_def cache_ok_def)
  then have "vm_read32 h ?w a = Inr (x, ?w)"
    using assms vm_read32_ram [of ?w a h] by (simp add: dev_at_def in_ram_def)
  moreover have "\<forall>b. unat b < unat a \<or> unat a + 4 \<le> unat b \<longrightarrow> memory ?w b = memory v b"
    using assms(3,4) store32_other [of a] by (simp add: in_ram_def)
  ultimately show ?thesis by blast
qed

theorem ram_write_read32_witness:
  "\<exists>w. vm_write32 demo_vm 0x3000 7 = Inr w \<and> vm_read32 host_zero w 0x3000 = Inr (7, w)"
  using ram_write_read32 [OF demo_bus_ok, of "0x3000" 7 host_zero]
  by (auto simp: dev_at_boot in_ram_def)

text \<open>the frame buffer is one store seen through two windows: a byte written through the legacy
  window is read back through the window above RAM, and RAM does not change.\<close>

theorem fb_windows_alias:
  assumes "memory_size v = MEM_SIZE" "i < FB_SIZE"
  shows "\<exists>w. vm_write8 v (FB_LEGACY_BASE + of_nat i) x = Inr w
             \<and> vm_read8 w (of_nat (MEM_SIZE + i)) = Inr x \<and> memory w = memory v"
proof -
  have i: "unat (of_nat i :: u32) = i" "unat (of_nat (MEM_SIZE + i) :: u32) = MEM_SIZE + i"
    using assms(2) by (simp_all only: unat_of_nat) simp_all
  have l: "unat (FB_LEGACY_BASE + of_nat i) = 0x620000 + i"
    using i assms(2) unat_plus_small [of FB_LEGACY_BASE "of_nat i"] by simp
  have "fb_byte_index v (FB_LEGACY_BASE + of_nat i) = Some i"
    using assms i l by (simp add: fb_byte_index_def Let_def word_le_nat_alt word_less_nat_alt)
  moreover have "fb_byte_index w (of_nat (MEM_SIZE + i)) = Some i" if "memory_size w = MEM_SIZE" for w
    using that assms(2) i(2) unfolding fb_byte_index_def Let_def by (simp only:) simp
  ultimately show ?thesis using assms(1) by (simp add: vm_write8_def vm_read8_def)
qed

theorem fb_windows_alias_witness:
  "\<exists>w. vm_write8 demo_vm (FB_LEGACY_BASE + of_nat 5) 9 = Inr w
       \<and> vm_read8 w (of_nat (MEM_SIZE + 5)) = Inr 9 \<and> memory w = memory demo_vm"
  using fb_windows_alias [of demo_vm 5 9] by simp

text \<open>compare-and-swap on an aligned word of plain RAM returns the word it found, reports success
  exactly when that is the expected one, and stores the new word only then; a misaligned address, an
  address outside RAM and a device address panic.\<close>

theorem cas_semantics:
  assumes "bus_ok v"
  shows "if a mod 4 = 0 \<and> in_ram v a 4 \<and> dev_at v a = None
         then vm_atomic_compare_exchange32_seqcst v a e d =
                Inr ((load32 (memory v) a, load32 (memory v) a = e),
                     if load32 (memory v) a = e then (nocache v)\<lparr>memory := store32 (memory v) a d\<rparr>
                     else nocache v)
         else \<not> returns (vm_atomic_compare_exchange32_seqcst v a e d)"
proof (cases "a mod 4 = 0 \<and> in_ram v a 4 \<and> dev_at v a = None")
  case True
  then show ?thesis
    using find_mmio_none [OF assms]
    by (simp add: vm_atomic_compare_exchange32_seqcst_def atomic32_ptr_or_panic_def Let_def)
next
  case False
  then show ?thesis
    using find_mmio_dev [OF assms, of a] by (cases "find_mmio v a")
      (auto simp: vm_atomic_compare_exchange32_seqcst_def atomic32_ptr_or_panic_def)
qed

theorem cas_semantics_witness:
  "vm_atomic_compare_exchange32_seqcst demo_vm 0x3000 0 5 =
     Inr ((0, True), (nocache demo_vm)\<lparr>memory := store32 (\<lambda>_. 0) 0x3000 5\<rparr>)
   \<and> \<not> returns (vm_atomic_compare_exchange32_seqcst demo_vm 0x3001 0 5)"
  using cas_semantics [OF demo_bus_ok, of "0x3000" 0 5] cas_semantics [OF demo_bus_ok, of "0x3001" 0 5]
  by (simp add: dev_at_boot in_ram_def load32_def le32_def)

text \<open>the time device as registered ends before its register at offset 0x18: a guest that reads the
  high word of the boot clock reads RAM, not the latched value that the register would return.\<close>

theorem boot_clock_high_word_unmapped:
  assumes "bus_ok v" "mmio_devices v = boot_devices" "memory_size v = MEM_SIZE"
  shows "vm_read32 h v 0x2018 = Inr (load32 (memory v) 0x2018, nocache v)
         \<and> fst (time_read32 h v 0x2018) = hi32 (latched_boottime v)"
  using assms vm_read32_ram [of v "0x2018" h] dev_at_boot [of v "0x2018"]
  by (simp add: in_ram_def time_read32_def hi32_def)

theorem boot_clock_high_word_unmapped_witness:
  "vm_read32 host_zero (demo_vm\<lparr>latched_boottime := 0x500000000\<rparr>) 0x2018
     = Inr (0, nocache (demo_vm\<lparr>latched_boottime := 0x500000000\<rparr>))"
  using boot_clock_high_word_unmapped [of "demo_vm\<lparr>latched_boottime := 0x500000000\<rparr>" host_zero] demo_bus_ok
    bus_ok_cong [of "demo_vm\<lparr>latched_boottime := 0x500000000\<rparr>" demo_vm]
  by (simp add: cache_frame_def load32_def le32_def)

end
