(* ===== verification/Syscall.thy ===== *)
theory Syscall
  imports Console Memory
begin

text \<open>
  The system calls of the guest kernel (\<open>kernel/src/syscall.c\<close>), one definition per case of the switch of
  \<open>syscall_dispatch\<close>. A case returns the value, the error number and the state; a case with a loop that
  may not end returns an option.

  User memory is \<open>umem\<close>, the guest's RAM as the kernel's pointers see it; the variables of the kernel are the
  fields of the record, so a user pointer into the kernel's own data is outside of the model. The registers of the time
  device are \<open>time_regs\<close>. What other tasks do while a call blocks is the parameter \<open>run\<close> of the
  scheduler, and \<open>irq n\<close> the interrupts in the \<open>n\<close>-th wait.
\<close>

section \<open>State and constants\<close>

record kernel = console +
  umem :: "u32 \<Rightarrow> u8"
  g_realtime_offset_neg :: bool
  g_realtime_offset_mag_ns :: u64
  time_regs :: "u32 \<Rightarrow> u32"

abbreviation (input) KERNEL_MEM_SIZE :: u32 where "KERNEL_MEM_SIZE \<equiv> 0x04000000"
abbreviation (input) SYSCALL_ABI_ADDR :: u32 where "SYSCALL_ABI_ADDR \<equiv> 0x002FE000"
abbreviation (input) SYSCALL_ABI_MAGIC :: u32 where "SYSCALL_ABI_MAGIC \<equiv> 0x30435953"
abbreviation (input) SYSCALL_ABI_VERSION :: u32 where "SYSCALL_ABI_VERSION \<equiv> 1"
abbreviation (input) TIME_MMIO_REALTIME_LO :: u32 where "TIME_MMIO_REALTIME_LO \<equiv> 0x2004"
abbreviation (input) TIME_MMIO_REALTIME_HI :: u32 where "TIME_MMIO_REALTIME_HI \<equiv> 0x2008"
abbreviation (input) TIME_MMIO_MONOTONIC_LO :: u32 where "TIME_MMIO_MONOTONIC_LO \<equiv> 0x200C"
abbreviation (input) TIME_MMIO_MONOTONIC_HI :: u32 where "TIME_MMIO_MONOTONIC_HI \<equiv> 0x2010"
abbreviation (input) TIME_MMIO_BOOT_LO :: u32 where "TIME_MMIO_BOOT_LO \<equiv> 0x2014"
abbreviation (input) TIME_MMIO_BOOT_HI :: u32 where "TIME_MMIO_BOOT_HI \<equiv> 0x2018"

abbreviation (input) ERRNO_OK :: u32 where "ERRNO_OK \<equiv> 0"
abbreviation (input) ERRNO_ENOENT :: u32 where "ERRNO_ENOENT \<equiv> 2"
abbreviation (input) ERRNO_EINTR :: u32 where "ERRNO_EINTR \<equiv> 4"
abbreviation (input) ERRNO_EBADF :: u32 where "ERRNO_EBADF \<equiv> 9"
abbreviation (input) ERRNO_ECHILD :: u32 where "ERRNO_ECHILD \<equiv> 10"
abbreviation (input) ERRNO_EAGAIN :: u32 where "ERRNO_EAGAIN \<equiv> 11"
abbreviation (input) ERRNO_EFAULT :: u32 where "ERRNO_EFAULT \<equiv> 14"
abbreviation (input) ERRNO_EINVAL :: u32 where "ERRNO_EINVAL \<equiv> 22"
abbreviation (input) ERRNO_EMFILE :: u32 where "ERRNO_EMFILE \<equiv> 24"
abbreviation (input) ERRNO_ENOSYS :: u32 where "ERRNO_ENOSYS \<equiv> 38"
abbreviation (input) ERRNO_EOVERFLOW :: u32 where "ERRNO_EOVERFLOW \<equiv> 75"
abbreviation (input) ERRNO_ENOTSOCK :: u32 where "ERRNO_ENOTSOCK \<equiv> 88"
abbreviation (input) ERRNO_EOPNOTSUPP :: u32 where "ERRNO_EOPNOTSUPP \<equiv> 95"
abbreviation (input) ERRNO_EAFNOSUPPORT :: u32 where "ERRNO_EAFNOSUPPORT \<equiv> 97"
abbreviation (input) ERRNO_ENOTCONN :: u32 where "ERRNO_ENOTCONN \<equiv> 107"

abbreviation (input) SYS_O_ACCMODE :: u32 where "SYS_O_ACCMODE \<equiv> 3"
abbreviation (input) SYS_O_CREAT :: u32 where "SYS_O_CREAT \<equiv> 0x40"
abbreviation (input) SYS_O_TRUNC :: u32 where "SYS_O_TRUNC \<equiv> 0x200"
abbreviation (input) SYS_O_NONBLOCK :: u32 where "SYS_O_NONBLOCK \<equiv> 0x800"
abbreviation (input) SYS_POLLIN :: u16 where "SYS_POLLIN \<equiv> 1"
abbreviation (input) SYS_POLLOUT :: u16 where "SYS_POLLOUT \<equiv> 4"
abbreviation (input) SYS_POLLNVAL :: u16 where "SYS_POLLNVAL \<equiv> 0x20"
abbreviation (input) NS_PER_SEC :: int where "NS_PER_SEC \<equiv> 1000000000"
abbreviation (input) US_PER_SEC :: u32 where "US_PER_SEC \<equiv> 1000000"
abbreviation (input) NS_PER_US :: u32 where "NS_PER_US \<equiv> 1000"

record syscall_regs =
  nr :: u32
  arg0 :: u32
  arg1 :: u32
  arg2 :: u32
  arg3 :: u32
  arg4 :: u32
  arg5 :: u32

type_synonym 'a sysres = "u32 \<times> u32 \<times> 'a kernel_scheme"

definition ok_ret :: "u32 \<Rightarrow> 'a kernel_scheme \<Rightarrow> 'a sysres" where
  "ok_ret r s = (r, ERRNO_OK, s)"

definition fail :: "u32 \<Rightarrow> 'a kernel_scheme \<Rightarrow> 'a sysres" where
  "fail e s = (- 1, e, s)"

section \<open>User memory\<close>

definition abi_write32 :: "u32 \<Rightarrow> u32 \<Rightarrow> 'a kernel_scheme \<Rightarrow> 'a kernel_scheme" where
  "abi_write32 off x s = s\<lparr>umem := store32 (umem s) (SYSCALL_ABI_ADDR + off) x\<rparr>"

definition abi_ptr_range_ok :: "u32 \<Rightarrow> u32 \<Rightarrow> bool" where
  "abi_ptr_range_ok addr len =
     (if addr = 0 \<or> len = 0 then False
      else if KERNEL_MEM_SIZE \<le> addr then False
      else len \<le> KERNEL_MEM_SIZE - addr)"

definition abi_user_write32 :: "u32 \<Rightarrow> u32 \<Rightarrow> 'a kernel_scheme \<Rightarrow> 'a kernel_scheme option" where
  "abi_user_write32 addr x s =
     (if \<not> abi_ptr_range_ok addr 4 then None else Some (s\<lparr>umem := store32 (umem s) addr x\<rparr>))"

primrec write_at :: "u32 \<Rightarrow> u8 list \<Rightarrow> (u32 \<Rightarrow> u8) \<Rightarrow> u32 \<Rightarrow> u8" where
  "write_at a [] m = m"
| "write_at a (b # bs) m = write_at (a + 1) bs (m(a := b))"

definition abi_user_write_bytes :: "u32 \<Rightarrow> u8 list \<Rightarrow> 'a kernel_scheme \<Rightarrow> 'a kernel_scheme option" where
  "abi_user_write_bytes addr src s =
     (if src = [] then Some s
      else if \<not> abi_ptr_range_ok addr (of_nat (length src)) then None
      else Some (s\<lparr>umem := write_at addr src (umem s)\<rparr>))"

definition abi_user_read_bytes :: "u32 \<Rightarrow> nat \<Rightarrow> 'a kernel_scheme \<Rightarrow> u8 list option" where
  "abi_user_read_bytes addr len s =
     (if len = 0 then Some []
      else if \<not> abi_ptr_range_ok addr (of_nat len) then None
      else Some (map (\<lambda>i. umem s (addr + of_nat i)) [0..<len]))"

primrec cstr_loop :: "nat \<Rightarrow> u32 \<Rightarrow> 'a kernel_scheme \<Rightarrow> u8 list option" where
  "cstr_loop 0 a s = None"
| "cstr_loop (Suc k) a s =
     (if \<not> abi_ptr_range_ok a 1 then None
      else let c = umem s a in if c = 0 then Some [] else map_option ((#) c) (cstr_loop k (a + 1) s))"

definition abi_user_read_cstr :: "u32 \<Rightarrow> nat \<Rightarrow> 'a kernel_scheme \<Rightarrow> u8 list option" where
  "abi_user_read_cstr addr cap s = (if cap = 0 \<or> addr = 0 then None else cstr_loop (cap - 1) addr s)"

text \<open>A \<open>timespec\<close> or \<open>timeval\<close> is a pair of 32-bit words, read as signed numbers where the code does.\<close>

definition abi_user_read_timespec :: "u32 \<Rightarrow> 'a kernel_scheme \<Rightarrow> (u32 \<times> u32) option" where
  "abi_user_read_timespec addr s =
     (if \<not> abi_ptr_range_ok addr 8 then None else Some (load32 (umem s) (addr + 0), load32 (umem s) (addr + 4)))"

definition abi_user_write_timespec :: "u32 \<Rightarrow> u32 \<times> u32 \<Rightarrow> 'a kernel_scheme \<Rightarrow> 'a kernel_scheme option" where
  "abi_user_write_timespec addr ts s =
     (if \<not> abi_ptr_range_ok addr 8 then None
      else Some (s\<lparr>umem := store32 (store32 (umem s) (addr + 0) (fst ts)) (addr + 4) (snd ts)\<rparr>))"

definition abi_user_write_timespec_zero :: "u32 \<Rightarrow> 'a kernel_scheme \<Rightarrow> 'a kernel_scheme option" where
  "abi_user_write_timespec_zero addr s =
     (if addr = 0 then Some s
      else if \<not> abi_ptr_range_ok addr 8 then None
      else Some (s\<lparr>umem := store32 (store32 (umem s) (addr + 0) 0) (addr + 4) 0\<rparr>))"

definition abi_user_write_timeval :: "u32 \<Rightarrow> u32 \<times> u32 \<Rightarrow> 'a kernel_scheme \<Rightarrow> 'a kernel_scheme option" where
  "abi_user_write_timeval addr tv s =
     (if \<not> abi_ptr_range_ok addr 8 then None
      else Some (s\<lparr>umem := store32 (store32 (umem s) (addr + 0) (fst tv)) (addr + 4) (snd tv)\<rparr>))"

section \<open>Helpers\<close>

definition div_ceil_u32 :: "u32 \<Rightarrow> u32 \<Rightarrow> u32" where
  "div_ceil_u32 numer denom =
     (if denom = 0 then 0xFFFFFFFF else numer div denom + (if numer mod denom \<noteq> 0 then 1 else 0))"

function count_bits_u32 :: "u32 \<Rightarrow> u32" where
  "count_bits_u32 x = (if x = 0 then 0 else (x AND 1) + count_bits_u32 (drop_bit 1 x))"
  by pat_completeness auto

termination count_bits_u32
proof (relation "measure unat")
  fix x :: u32
  assume "x \<noteq> 0"
  then have "0 < unat x" by (simp add: unat_gt_0)
  moreover have "unat (drop_bit 1 x) = unat x div 2" by (simp add: drop_bit_Suc unat_div)
  ultimately show "(drop_bit 1 x, x) \<in> measure unat" by simp
qed simp

declare count_bits_u32.simps [simp del]

definition fd_is_valid :: "int \<Rightarrow> 'a kernel_scheme \<Rightarrow> bool" where
  "fd_is_valid fd s = sched_fd_is_open fd s"

definition fd_type :: "int \<Rightarrow> 'a kernel_scheme \<Rightarrow> u32" where
  "fd_type fd s =
     (case sched_fd_get_type fd True s of (rc, t) \<Rightarrow>
        if rc \<noteq> SCHED_FD_OK then SCHED_FD_TYPE_NONE else (case t of Some t \<Rightarrow> t | None \<Rightarrow> SCHED_FD_TYPE_NONE))"

definition fd_supports_read :: "int \<Rightarrow> 'a kernel_scheme \<Rightarrow> bool" where
  "fd_supports_read fd s = sched_fd_can_read fd s"

definition fd_supports_write :: "int \<Rightarrow> 'a kernel_scheme \<Rightarrow> bool" where
  "fd_supports_write fd s = sched_fd_can_write fd s"

definition fd_is_nonblock :: "int \<Rightarrow> 'a kernel_scheme \<Rightarrow> bool" where
  "fd_is_nonblock fd s = sched_fd_is_nonblock fd s"

definition fd_waits_console_read :: "int \<Rightarrow> 'a kernel_scheme \<Rightarrow> bool" where
  "fd_waits_console_read fd s \<longleftrightarrow> fd_type fd s = SCHED_FD_TYPE_STDIN \<or> fd_type fd s = SCHED_FD_TYPE_DEV_TTY"

fun str_eq :: "u8 list \<Rightarrow> u8 list \<Rightarrow> bool" where
  "str_eq [] [] = True"
| "str_eq (a # as) (b # bs) = (if a \<noteq> b then False else str_eq as bs)"
| "str_eq _ _ = False"

definition open_path_to_special :: "u8 list \<Rightarrow> u32 option" where
  "open_path_to_special path =
     (if str_eq path [47, 100, 101, 118, 47, 110, 117, 108, 108] then Some SCHED_FD_SPECIAL_DEV_NULL
      else if str_eq path [47, 100, 101, 118, 47, 122, 101, 114, 111] then Some SCHED_FD_SPECIAL_DEV_ZERO
      else if str_eq path [47, 100, 101, 118, 47, 116, 116, 121] then Some SCHED_FD_SPECIAL_DEV_TTY
      else None)"

definition fd_read_ready :: "int \<Rightarrow> 'a kernel_scheme \<Rightarrow> bool" where
  "fd_read_ready fd s =
     (let t = fd_type fd s in
      if \<not> fd_supports_read fd s then False
      else if t = SCHED_FD_TYPE_STDIN \<or> t = SCHED_FD_TYPE_DEV_TTY then console_can_read s
      else t = SCHED_FD_TYPE_DEV_NULL \<or> t = SCHED_FD_TYPE_DEV_ZERO)"

definition fd_write_ready :: "int \<Rightarrow> 'a kernel_scheme \<Rightarrow> bool" where
  "fd_write_ready fd s =
     (if \<not> fd_supports_write fd s then False else fd_type fd s \<noteq> SCHED_FD_TYPE_SOCKET)"

definition errno_from_sched_fd_rc :: "int \<Rightarrow> u32" where
  "errno_from_sched_fd_rc rc =
     (if rc = SCHED_FD_EBADF then ERRNO_EBADF
      else if rc = SCHED_FD_EMFILE then ERRNO_EMFILE
      else ERRNO_EINVAL)"

section \<open>Clocks\<close>

definition mmio_read_time_ns :: "u32 \<Rightarrow> u32 \<Rightarrow> 'a kernel_scheme \<Rightarrow> u64" where
  "mmio_read_time_ns lo hi s = push_bit 32 (ucast (time_regs s hi)) OR ucast (time_regs s lo)"

definition clockid_is_supported :: "int \<Rightarrow> bool" where
  "clockid_is_supported clk \<longleftrightarrow> clk = 0 \<or> clk = 1 \<or> clk = 2 \<or> clk = 7"

definition clock_apply_realtime_offset :: "u64 \<Rightarrow> 'a kernel_scheme \<Rightarrow> u64" where
  "clock_apply_realtime_offset raw s =
     (if \<not> g_realtime_offset_neg s then
        let max_u64 = NOT (0 :: u64) in
        if max_u64 - g_realtime_offset_mag_ns s < raw then max_u64 else raw + g_realtime_offset_mag_ns s
      else if raw \<le> g_realtime_offset_mag_ns s then 0
      else raw - g_realtime_offset_mag_ns s)"

definition clockid_read_time_ns :: "int \<Rightarrow> 'a kernel_scheme \<Rightarrow> u64 option" where
  "clockid_read_time_ns clk s =
     (if clk = 0 then Some (clock_apply_realtime_offset (mmio_read_time_ns TIME_MMIO_REALTIME_LO TIME_MMIO_REALTIME_HI s) s)
      else if clk = 1 then Some (mmio_read_time_ns TIME_MMIO_MONOTONIC_LO TIME_MMIO_MONOTONIC_HI s)
      else if clk = 2 \<or> clk = 7 then Some (mmio_read_time_ns TIME_MMIO_BOOT_LO TIME_MMIO_BOOT_HI s)
      else None)"

definition time_ns_to_timespec :: "u64 \<Rightarrow> (u32 \<times> u32) option" where
  "time_ns_to_timespec ns =
     (let sec64 = ns div 1000000000 in
      if 0x7FFFFFFF < sec64 then None else Some (ucast sec64, ucast (ns mod 1000000000)))"

definition time_ns_to_timeval :: "u64 \<Rightarrow> (u32 \<times> u32) option" where
  "time_ns_to_timeval ns =
     (let sec64 = ns div 1000000000 in
      if 0x7FFFFFFF < sec64 then None else Some (ucast sec64, ucast (ns mod 1000000000 div 1000)))"

definition timespec_to_ns :: "u32 \<times> u32 \<Rightarrow> u64 option" where
  "timespec_to_ns ts =
     (if sint (fst ts) < 0 \<or> sint (snd ts) < 0 \<or> NS_PER_SEC \<le> sint (snd ts) then None
      else let sec_ns = ucast (fst ts) * 1000000000 in Some (sec_ns + ucast (snd ts)))"

definition timeout_ms_to_ticks :: "int \<Rightarrow> u32" where
  "timeout_ms_to_ticks timeout_ms =
     (if timeout_ms \<le> 0 then 0
      else
        let tick_us = sched_tick_period_us in
        if tick_us = 0 then 1
        else
          let timeout_us = (if 0xFFFFFFFF div NS_PER_US < of_int timeout_ms then 0xFFFFFFFF else of_int timeout_ms * NS_PER_US) in
          div_ceil_u32 timeout_us tick_us)"

section \<open>The mailbox\<close>

definition publish_result :: "syscall_regs option \<Rightarrow> u32 \<Rightarrow> u32 \<Rightarrow> 'a kernel_scheme \<Rightarrow> 'a kernel_scheme" where
  "publish_result rg ret err s =
     (let fld = \<lambda>f. (case rg of None \<Rightarrow> 0 | Some r \<Rightarrow> f r);
          s = abi_write32 0x00 SYSCALL_ABI_MAGIC s;
          s = abi_write32 0x04 SYSCALL_ABI_VERSION s;
          s = abi_write32 0x08 (fld nr) s;
          s = abi_write32 0x0C (fld arg0) s;
          s = abi_write32 0x10 (fld arg1) s;
          s = abi_write32 0x14 (fld arg2) s;
          s = abi_write32 0x18 (fld arg3) s;
          s = abi_write32 0x1C (fld arg4) s;
          s = abi_write32 0x20 (fld arg5) s;
          s = abi_write32 0x24 ret s;
          s = abi_write32 0x28 err s in
      abi_write32 0x2C (sched_ticks s) s)"

definition syscall_init :: "'a kernel_scheme \<Rightarrow> 'a kernel_scheme" where
  "syscall_init s =
     (let s = s\<lparr>g_realtime_offset_neg := False, g_realtime_offset_mag_ns := 0\<rparr>;
          s = abi_write32 0x00 SYSCALL_ABI_MAGIC s;
          s = abi_write32 0x04 SYSCALL_ABI_VERSION s in
      fold (\<lambda>off. abi_write32 off 0) [0x08, 0x0C, 0x10, 0x14, 0x18, 0x1C, 0x20, 0x24, 0x28, 0x2C] s)"

section \<open>Tasks and sleeping\<close>

text \<open>The loop of \<open>SYS_WAITPID\<close>. A call that blocks is repeated at once; \<open>tick k\<close> is what interrupts do before
  the \<open>k\<close>-th repetition.\<close>

partial_function (option) waitpid_loop ::
  "(nat \<Rightarrow> 'a kernel_scheme \<Rightarrow> 'a kernel_scheme) \<Rightarrow> nat \<Rightarrow> int \<Rightarrow> u32 \<Rightarrow> u32 \<Rightarrow> 'a kernel_scheme \<Rightarrow> 'a sysres option" where
  "waitpid_loop tick k pid options status_addr s =
     (case sched_waitpid pid (if options AND 1 \<noteq> 0 then SCHED_WAITPID_WNOHANG else 0) s of (rc, status, s) \<Rightarrow>
        if 0 < rc then
          (if status_addr \<noteq> 0 then
             (case abi_user_write32 status_addr (case status of Some x \<Rightarrow> x | None \<Rightarrow> 0) s of
                None \<Rightarrow> Some (fail ERRNO_EFAULT s) | Some s \<Rightarrow> Some (ok_ret (of_int rc) s))
           else Some (ok_ret (of_int rc) s))
        else if rc = 0 then Some (ok_ret 0 s)
        else if rc = SCHED_WAITPID_BLOCKED then waitpid_loop tick (Suc k) pid options status_addr (tick k s)
        else Some (fail ERRNO_ECHILD s))"

definition sys_waitpid :: "(nat \<Rightarrow> 'a kernel_scheme \<Rightarrow> 'a kernel_scheme) \<Rightarrow> u32 \<Rightarrow> u32 \<Rightarrow> u32 \<Rightarrow> 'a kernel_scheme \<Rightarrow> 'a sysres option" where
  "sys_waitpid tick a0 status_addr options s =
     (let pid = sint a0; pid = (if pid = 0 then SCHED_WAITPID_ANY else pid) in
      if pid < SCHED_WAITPID_ANY then Some (fail ERRNO_EINVAL s)
      else if options AND NOT 1 \<noteq> 0 then Some (fail ERRNO_EINVAL s)
      else waitpid_loop tick 0 pid options status_addr s)"

text \<open>Microseconds of a request, saturating.\<close>

definition req_total_us :: "u32 \<times> u32 \<Rightarrow> u32" where
  "req_total_us req =
     (if 0xFFFFFFFF div US_PER_SEC < fst req then 0xFFFFFFFF
      else
        let total_us = fst req * US_PER_SEC; req_ns_us = div_ceil_u32 (snd req) NS_PER_US in
        if 0xFFFFFFFF - req_ns_us < total_us then 0xFFFFFFFF else total_us + req_ns_us)"

definition sys_nanosleep :: "u32 \<Rightarrow> u32 \<Rightarrow> 'a kernel_scheme \<Rightarrow> 'a sysres" where
  "sys_nanosleep req_addr rem_addr s =
     (case abi_user_read_timespec req_addr s of None \<Rightarrow> fail ERRNO_EFAULT s
      | Some req \<Rightarrow>
          if sint (fst req) < 0 \<or> sint (snd req) < 0 \<or> NS_PER_SEC \<le> sint (snd req) then fail ERRNO_EINVAL s
          else (case abi_user_write_timespec_zero rem_addr s of None \<Rightarrow> fail ERRNO_EFAULT s
                | Some s \<Rightarrow>
                    if fst req = 0 \<and> snd req = 0 then ok_ret 0 s
                    else
                      let tick_us = sched_tick_period_us in
                      if tick_us = 0 then fail ERRNO_EINTR s
                      else
                        let ticks = div_ceil_u32 (req_total_us req) tick_us;
                            ticks = (if ticks = 0 then 1 else ticks) in
                        ok_ret 0 (sched_sleep_ticks ticks s)))"

section \<open>Reading and writing\<close>

function zero_chunks :: "u32 \<Rightarrow> nat \<Rightarrow> nat \<Rightarrow> 'a kernel_scheme \<Rightarrow> 'a sysres" where
  "zero_chunks buf remain copied s =
     (if remain = 0 then ok_ret (of_nat copied) s
      else
        let want = min remain 64 in
        case abi_user_write_bytes (buf + of_nat copied) (replicate want 0) s of
          None \<Rightarrow> fail ERRNO_EFAULT s
        | Some s \<Rightarrow> zero_chunks buf (remain - want) (copied + want) s)"
  by pat_completeness auto

termination zero_chunks
  by (relation "measure (\<lambda>(buf, remain, copied, s). remain)") auto

function read_chunks :: "u32 \<Rightarrow> nat \<Rightarrow> nat \<Rightarrow> bool \<Rightarrow> 'a kernel_scheme \<Rightarrow> 'a sysres" where
  "read_chunks buf remain copied nonblock s =
     (if remain = 0 then ok_ret (of_nat copied) s
      else
        let want = min remain 64 in
        case console_read True (of_nat want) (if copied \<noteq> 0 then True else nonblock) s of (n, bs, s) \<Rightarrow>
          if n = CONSOLE_IO_BLOCKED then
            (if copied = 0 then fail ERRNO_EAGAIN s else ok_ret (of_nat copied) s)
          else if n = 0 then
            (if copied \<noteq> 0 then ok_ret (of_nat copied) s
             else if nonblock then fail ERRNO_EAGAIN s
             else ok_ret 0 s)
          else
            (case abi_user_write_bytes (buf + of_nat copied) bs s of
               None \<Rightarrow> fail ERRNO_EFAULT s
             | Some s \<Rightarrow>
                 let copied = copied + nat n in
                 if nat n < want then ok_ret (of_nat copied) s
                 else read_chunks buf (remain - want) copied nonblock s))"
  by pat_completeness auto

termination read_chunks
  by (relation "measure (\<lambda>(buf, remain, copied, nb, s). remain)") auto

declare zero_chunks.simps [simp del] read_chunks.simps [simp del]

definition sys_read :: "u32 \<Rightarrow> u32 \<Rightarrow> u32 \<Rightarrow> u32 \<Rightarrow> 'a kernel_scheme \<Rightarrow> 'a sysres" where
  "sys_read a0 buf_addr len fl s =
     (let fd = sint a0;
          nonblock = (fd_is_nonblock fd s \<or> fl AND 1 \<noteq> 0);
          t = fd_type fd s in
      if \<not> fd_supports_read fd s then fail ERRNO_EBADF s
      else if len = 0 then ok_ret 0 s
      else if buf_addr = 0 \<or> \<not> abi_ptr_range_ok buf_addr len then fail ERRNO_EFAULT s
      else if t = SCHED_FD_TYPE_DEV_NULL then ok_ret 0 s
      else if t = SCHED_FD_TYPE_DEV_ZERO then zero_chunks buf_addr (unat len) 0 s
      else if t = SCHED_FD_TYPE_SOCKET then fail ERRNO_ENOTCONN s
      else read_chunks buf_addr (unat len) 0 nonblock s)"

function write_chunks :: "u32 \<Rightarrow> nat \<Rightarrow> nat \<Rightarrow> 'a kernel_scheme \<Rightarrow> 'a sysres" where
  "write_chunks buf remain tot s =
     (if remain = 0 then ok_ret (of_nat tot) s
      else
        let want = min remain 128 in
        case abi_user_read_bytes (buf + of_nat tot) want s of
          None \<Rightarrow> fail ERRNO_EFAULT s
        | Some bs \<Rightarrow>
            (case console_write (Some bs) s of (written, s) \<Rightarrow>
               if written < of_nat want then ok_ret (of_nat (tot + unat written)) s
               else write_chunks buf (remain - want) (tot + want) s))"
  by pat_completeness auto

termination write_chunks
  by (relation "measure (\<lambda>(buf, remain, tot, s). remain)") auto

declare write_chunks.simps [simp del]

definition sys_write :: "u32 \<Rightarrow> u32 \<Rightarrow> u32 \<Rightarrow> 'a kernel_scheme \<Rightarrow> 'a sysres" where
  "sys_write a0 buf_addr len s =
     (let fd = sint a0; t = fd_type fd s in
      if \<not> fd_supports_write fd s then fail ERRNO_EBADF s
      else if len = 0 then ok_ret 0 s
      else if buf_addr = 0 \<or> \<not> abi_ptr_range_ok buf_addr len then fail ERRNO_EFAULT s
      else if t = SCHED_FD_TYPE_DEV_NULL \<or> t = SCHED_FD_TYPE_DEV_ZERO then ok_ret len s
      else if t = SCHED_FD_TYPE_SOCKET then fail ERRNO_ENOTCONN s
      else write_chunks buf_addr (unat len) 0 s)"

section \<open>Descriptors\<close>

definition sys_close :: "u32 \<Rightarrow> 'a kernel_scheme \<Rightarrow> 'a sysres" where
  "sys_close a0 s =
     (case sched_fd_close (sint a0) s of (rc, s) \<Rightarrow>
        if rc \<noteq> SCHED_FD_OK then fail (errno_from_sched_fd_rc rc) s else ok_ret 0 s)"

definition fd_result :: "int \<times> 'a kernel_scheme \<Rightarrow> 'a sysres" where
  "fd_result r = (case r of (rc, s) \<Rightarrow> if rc < 0 then fail (errno_from_sched_fd_rc rc) s else ok_ret (of_int rc) s)"

definition sys_dup :: "u32 \<Rightarrow> 'a kernel_scheme \<Rightarrow> 'a sysres" where
  "sys_dup a0 s = fd_result (sched_fd_dup (sint a0) s)"

definition sys_dup2 :: "u32 \<Rightarrow> u32 \<Rightarrow> 'a kernel_scheme \<Rightarrow> 'a sysres" where
  "sys_dup2 a0 a1 s = fd_result (sched_fd_dup2 (sint a0) (sint a1) s)"

definition flags_result :: "int \<times> u32 option \<Rightarrow> 'a kernel_scheme \<Rightarrow> 'a sysres" where
  "flags_result r s =
     (case r of (rc, fl) \<Rightarrow>
        if rc \<noteq> SCHED_FD_OK then fail (errno_from_sched_fd_rc rc) s
        else ok_ret (case fl of Some f \<Rightarrow> f | None \<Rightarrow> 0) s)"

definition zero_result :: "int \<times> 'a kernel_scheme \<Rightarrow> 'a sysres" where
  "zero_result r =
     (case r of (rc, s) \<Rightarrow> if rc \<noteq> SCHED_FD_OK then fail (errno_from_sched_fd_rc rc) s else ok_ret 0 s)"

definition sys_fcntl :: "u32 \<Rightarrow> u32 \<Rightarrow> u32 \<Rightarrow> 'a kernel_scheme \<Rightarrow> 'a sysres" where
  "sys_fcntl a0 cmd arg s =
     (let fd = sint a0 in
      if cmd = 1 then flags_result (sched_fd_fcntl_getfd fd True s) s
      else if cmd = 2 then zero_result (sched_fd_fcntl_setfd fd arg s)
      else if cmd = 3 then flags_result (sched_fd_fcntl_getfl fd True s) s
      else if cmd = 4 then zero_result (sched_fd_fcntl_setfl fd arg s)
      else fail ERRNO_EINVAL s)"

definition sys_open :: "u32 \<Rightarrow> u32 \<Rightarrow> 'a kernel_scheme \<Rightarrow> 'a sysres" where
  "sys_open path_addr fl s =
     (let accmode = fl AND SYS_O_ACCMODE in
      if fl AND NOT (SYS_O_ACCMODE OR SYS_O_NONBLOCK OR SYS_O_CREAT OR SYS_O_TRUNC) \<noteq> 0 then fail ERRNO_EINVAL s
      else if \<not> (accmode = 0 \<or> accmode = 1 \<or> accmode = 2) then fail ERRNO_EINVAL s
      else (case abi_user_read_cstr path_addr 64 s of None \<Rightarrow> fail ERRNO_EFAULT s
            | Some path \<Rightarrow>
                (case open_path_to_special path of None \<Rightarrow> fail ERRNO_ENOENT s
                 | Some special_type \<Rightarrow>
                     fd_result (sched_fd_open_special special_type (fl AND (SYS_O_ACCMODE OR SYS_O_NONBLOCK)) s))))"

definition sys_socket :: "u32 \<Rightarrow> u32 \<Rightarrow> 'a kernel_scheme \<Rightarrow> 'a sysres" where
  "sys_socket domain type s =
     (if \<not> (domain = 1 \<or> domain = 2 \<or> domain = 10) then fail ERRNO_EAFNOSUPPORT s
      else if type AND 0x0F = 0 then fail ERRNO_EINVAL s
      else
        let status_flags = (if type AND 0x800 \<noteq> 0 then SCHED_FD_O_RDWR OR SCHED_FD_O_NONBLOCK else SCHED_FD_O_RDWR) in
        fd_result (sched_fd_open_special SCHED_FD_SPECIAL_SOCKET status_flags s))"

definition sys_socket_op :: "u32 \<Rightarrow> u32 \<Rightarrow> 'a kernel_scheme \<Rightarrow> 'a sysres" where
  "sys_socket_op n a0 s =
     (let fd = sint a0 in
      if \<not> fd_is_valid fd s then fail ERRNO_EBADF s
      else if fd_type fd s \<noteq> SCHED_FD_TYPE_SOCKET then fail ERRNO_ENOTSOCK s
      else if n = 26 \<or> n = 27 then fail ERRNO_ENOTCONN s
      else fail ERRNO_EOPNOTSUPP s)"

section \<open>Waiting for descriptors\<close>

text \<open>The wait between two scans, shared by \<open>SYS_POLL\<close> and \<open>SYS_SELECT\<close>.\<close>

definition io_wait ::
  "(nat \<Rightarrow> nat \<Rightarrow> nat \<Rightarrow> 'a kernel_scheme \<Rightarrow> 'a kernel_scheme) \<Rightarrow> (nat \<Rightarrow> 'a kernel_scheme \<Rightarrow> 'a kernel_scheme)
   \<Rightarrow> int \<Rightarrow> u32 \<Rightarrow> bool \<Rightarrow> 'a kernel_scheme \<Rightarrow> 'a kernel_scheme option" where
  "io_wait run irq timeout_ms remaining_ticks wait_read_stdin s =
     (if wait_read_stdin then
        (case console_wait_readable (if 0 < timeout_ms then remaining_ticks else 0) False s of (rc, s) \<Rightarrow>
           if rc = CONSOLE_IO_BLOCKED then sched_block_until_runnable run irq s else Some s)
      else
        sched_block_until_runnable run irq
          (sched_sleep_ticks (if timeout_ms < 0 then 1 else if remaining_ticks \<noteq> 0 then remaining_ticks else 1) s))"

text \<open>What is left of the timeout: \<open>None\<close> when it has expired.\<close>

definition ticks_left :: "int \<Rightarrow> u32 \<Rightarrow> u32 \<Rightarrow> 'a kernel_scheme \<Rightarrow> u32 option" where
  "ticks_left timeout_ms timeout_ticks start_tick s =
     (if 0 < timeout_ms then
        let elapsed = sched_ticks s - start_tick in
        if timeout_ticks \<le> elapsed then None else Some (timeout_ticks - elapsed)
      else Some 0)"

partial_function (option) poll_sleep_loop ::
  "(nat \<Rightarrow> nat \<Rightarrow> nat \<Rightarrow> 'a kernel_scheme \<Rightarrow> 'a kernel_scheme) \<Rightarrow> (nat \<Rightarrow> nat \<Rightarrow> 'a kernel_scheme \<Rightarrow> 'a kernel_scheme)
   \<Rightarrow> nat \<Rightarrow> int \<Rightarrow> u32 \<Rightarrow> u32 \<Rightarrow> 'a kernel_scheme \<Rightarrow> 'a sysres option" where
  "poll_sleep_loop run irq n timeout_ms timeout_ticks start_tick s =
     (case ticks_left timeout_ms timeout_ticks start_tick s of
        None \<Rightarrow> Some (ok_ret 0 s)
      | Some remaining \<Rightarrow>
          Option.bind (sched_block_until_runnable run (irq n) (sched_sleep_ticks (if 0 < timeout_ms then remaining else 1) s))
            (poll_sleep_loop run irq (Suc n) timeout_ms timeout_ticks start_tick))"

definition poll_revents :: "int \<Rightarrow> u16 \<Rightarrow> 'a kernel_scheme \<Rightarrow> u16 \<times> bool" where
  "poll_revents fd events s =
     (if fd < 0 then (0, False)
      else if \<not> fd_is_valid fd s then (SYS_POLLNVAL, False)
      else
        ((if events AND SYS_POLLIN \<noteq> 0 \<and> fd_read_ready fd s then SYS_POLLIN else 0)
         OR (if events AND SYS_POLLOUT \<noteq> 0 \<and> fd_write_ready fd s then SYS_POLLOUT else 0),
         fd_waits_console_read fd s \<and> events AND SYS_POLLIN \<noteq> 0 \<and> \<not> fd_read_ready fd s))"

fun poll_scan :: "u32 \<Rightarrow> u32 list \<Rightarrow> u32 \<Rightarrow> bool \<Rightarrow> 'a kernel_scheme \<Rightarrow> 'a kernel_scheme + u32 \<times> bool \<times> 'a kernel_scheme" where
  "poll_scan fds_addr [] ready wait s = Inr (ready, wait, s)"
| "poll_scan fds_addr (i # is) ready wait s =
     (let off = fds_addr + i * 8 in
      case abi_user_read_bytes off 8 s of
        None \<Rightarrow> Inl s
      | Some pfd \<Rightarrow>
          let fd = sint (le32 (pfd ! 0) (pfd ! 1) (pfd ! 2) (pfd ! 3));
              events = ucast (pfd ! 4) OR push_bit 8 (ucast (pfd ! 5)) :: u16;
              (revents, w) = poll_revents fd events s in
          (case abi_user_write_bytes off (take 6 pfd @ [ucast revents, ucast (drop_bit 8 revents)]) s of
             None \<Rightarrow> Inl s
           | Some s \<Rightarrow> poll_scan fds_addr is (if revents \<noteq> 0 then ready + 1 else ready) (wait \<or> w) s))"

partial_function (option) poll_loop ::
  "(nat \<Rightarrow> nat \<Rightarrow> nat \<Rightarrow> 'a kernel_scheme \<Rightarrow> 'a kernel_scheme) \<Rightarrow> (nat \<Rightarrow> nat \<Rightarrow> 'a kernel_scheme \<Rightarrow> 'a kernel_scheme)
   \<Rightarrow> nat \<Rightarrow> u32 \<Rightarrow> u32 \<Rightarrow> int \<Rightarrow> u32 \<Rightarrow> u32 \<Rightarrow> 'a kernel_scheme \<Rightarrow> 'a sysres option" where
  "poll_loop run irq n fds_addr nfds timeout_ms timeout_ticks start_tick s =
     (case poll_scan fds_addr (map of_nat [0..<unat nfds]) 0 False s of
        Inl s \<Rightarrow> Some (fail ERRNO_EFAULT s)
      | Inr (ready, wait, s) \<Rightarrow>
          if ready \<noteq> 0 then Some (ok_ret ready s)
          else if timeout_ms = 0 then Some (ok_ret 0 s)
          else (case ticks_left timeout_ms timeout_ticks start_tick s of
                  None \<Rightarrow> Some (ok_ret 0 s)
                | Some remaining \<Rightarrow>
                    Option.bind (io_wait run (irq n) timeout_ms remaining wait s)
                      (poll_loop run irq (Suc n) fds_addr nfds timeout_ms timeout_ticks start_tick)))"

definition sys_poll ::
  "(nat \<Rightarrow> nat \<Rightarrow> nat \<Rightarrow> 'a kernel_scheme \<Rightarrow> 'a kernel_scheme) \<Rightarrow> (nat \<Rightarrow> nat \<Rightarrow> 'a kernel_scheme \<Rightarrow> 'a kernel_scheme)
   \<Rightarrow> u32 \<Rightarrow> u32 \<Rightarrow> u32 \<Rightarrow> 'a kernel_scheme \<Rightarrow> 'a sysres option" where
  "sys_poll run irq fds_addr nfds a2 s =
     (let timeout_ms = sint a2; timeout_ticks = timeout_ms_to_ticks timeout_ms; start_tick = sched_ticks s in
      if nfds = 0 then
        if timeout_ms = 0 then Some (ok_ret 0 s)
        else poll_sleep_loop run irq 0 timeout_ms timeout_ticks start_tick s
      else if KERNEL_MEM_SIZE div 8 < nfds then Some (fail ERRNO_EINVAL s)
      else if fds_addr = 0 \<or> \<not> abi_ptr_range_ok fds_addr (nfds * 8) then Some (fail ERRNO_EFAULT s)
      else poll_loop run irq 0 fds_addr nfds timeout_ms timeout_ticks start_tick s)"

fun select_scan ::
  "nat list \<Rightarrow> u32 \<Rightarrow> u32 \<Rightarrow> u32 \<Rightarrow> u32 \<Rightarrow> u32 \<Rightarrow> bool \<Rightarrow> 'a kernel_scheme \<Rightarrow> (u32 \<times> u32 \<times> bool) option" where
  "select_scan [] in_read in_write in_except out_read out_write wait s = Some (out_read, out_write, wait)"
| "select_scan (i # is) in_read in_write in_except out_read out_write wait s =
     (let b = push_bit i 1; fd = int i;
          watched = (in_read AND b) OR (in_write AND b) OR (in_except AND b) in
      if watched = 0 then select_scan is in_read in_write in_except out_read out_write wait s
      else if \<not> fd_is_valid fd s then None
      else
        let r = in_read AND b \<noteq> 0;
            out_read = (if r \<and> fd_read_ready fd s then out_read OR b else out_read);
            wait = (wait \<or> r \<and> fd_waits_console_read fd s \<and> \<not> fd_read_ready fd s);
            out_write = (if in_write AND b \<noteq> 0 \<and> fd_write_ready fd s then out_write OR b else out_write) in
        select_scan is in_read in_write in_except out_read out_write wait s)"

text \<open>Writing a set back, unless its address is null.\<close>

definition put_set :: "u32 \<Rightarrow> u32 \<Rightarrow> 'a kernel_scheme \<Rightarrow> 'a kernel_scheme option" where
  "put_set addr x s = (if addr \<noteq> 0 then abi_user_write32 addr x s else Some s)"

definition put_sets :: "u32 \<Rightarrow> u32 \<Rightarrow> u32 \<Rightarrow> u32 \<Rightarrow> u32 \<Rightarrow> 'a kernel_scheme \<Rightarrow> 'a kernel_scheme + 'a kernel_scheme" where
  "put_sets read_addr write_addr except_addr out_read out_write s =
     (case put_set read_addr out_read s of None \<Rightarrow> Inl s
      | Some s \<Rightarrow> (case put_set write_addr out_write s of None \<Rightarrow> Inl s
      | Some s \<Rightarrow> (case put_set except_addr 0 s of None \<Rightarrow> Inl s | Some s \<Rightarrow> Inr s)))"

partial_function (option) select_loop ::
  "(nat \<Rightarrow> nat \<Rightarrow> nat \<Rightarrow> 'a kernel_scheme \<Rightarrow> 'a kernel_scheme) \<Rightarrow> (nat \<Rightarrow> nat \<Rightarrow> 'a kernel_scheme \<Rightarrow> 'a kernel_scheme)
   \<Rightarrow> nat \<Rightarrow> u32 \<Rightarrow> u32 \<times> u32 \<times> u32 \<Rightarrow> u32 \<times> u32 \<times> u32 \<Rightarrow> int \<Rightarrow> u32 \<Rightarrow> u32 \<Rightarrow> 'a kernel_scheme \<Rightarrow> 'a sysres option" where
  "select_loop run irq n nfds addrs ins timeout_ms timeout_ticks start_tick s =
     (case addrs of (read_addr, write_addr, except_addr) \<Rightarrow> (case ins of (in_read, in_write, in_except) \<Rightarrow>
        (case select_scan [0..<unat nfds] in_read in_write in_except 0 0 False s of
           None \<Rightarrow> Some (fail ERRNO_EBADF s)
         | Some (out_read, out_write, wait) \<Rightarrow>
             (case put_sets read_addr write_addr except_addr out_read out_write s of
                Inl s \<Rightarrow> Some (fail ERRNO_EFAULT s)
              | Inr s \<Rightarrow>
                  let ready = count_bits_u32 out_read + count_bits_u32 out_write + count_bits_u32 0 in
                  if ready \<noteq> 0 then Some (ok_ret ready s)
                  else if timeout_ms = 0 then Some (ok_ret 0 s)
                  else (case ticks_left timeout_ms timeout_ticks start_tick s of
                          None \<Rightarrow> Some (ok_ret 0 s)
                        | Some remaining \<Rightarrow>
                            Option.bind (io_wait run (irq n) timeout_ms remaining wait s)
                              (select_loop run irq (Suc n) nfds addrs ins timeout_ms timeout_ticks start_tick))))))"

definition get_set :: "u32 \<Rightarrow> 'a kernel_scheme \<Rightarrow> u32 option" where
  "get_set addr s =
     (if addr = 0 then Some 0 else if \<not> abi_ptr_range_ok addr 4 then None else Some (load32 (umem s) addr))"

definition sys_select ::
  "(nat \<Rightarrow> nat \<Rightarrow> nat \<Rightarrow> 'a kernel_scheme \<Rightarrow> 'a kernel_scheme) \<Rightarrow> (nat \<Rightarrow> nat \<Rightarrow> 'a kernel_scheme \<Rightarrow> 'a kernel_scheme)
   \<Rightarrow> u32 \<Rightarrow> u32 \<Rightarrow> u32 \<Rightarrow> u32 \<Rightarrow> u32 \<Rightarrow> 'a kernel_scheme \<Rightarrow> 'a sysres option" where
  "sys_select run irq nfds read_addr write_addr except_addr a4 s =
     (let timeout_ms = sint a4; timeout_ticks = timeout_ms_to_ticks timeout_ms; start_tick = sched_ticks s in
      if 32 < nfds then Some (fail ERRNO_EINVAL s)
      else (case get_set read_addr s of None \<Rightarrow> Some (fail ERRNO_EFAULT s)
            | Some in_read \<Rightarrow> (case get_set write_addr s of None \<Rightarrow> Some (fail ERRNO_EFAULT s)
            | Some in_write \<Rightarrow> (case get_set except_addr s of None \<Rightarrow> Some (fail ERRNO_EFAULT s)
            | Some in_except \<Rightarrow>
                select_loop run irq 0 nfds (read_addr, write_addr, except_addr) (in_read, in_write, in_except)
                  timeout_ms timeout_ticks start_tick s))))"

section \<open>Terminal modes and clocks\<close>

definition sys_tty_getmode :: "u32 \<Rightarrow> 'a kernel_scheme \<Rightarrow> 'a sysres" where
  "sys_tty_getmode a0 s =
     (if \<not> sched_fd_is_tty (sint a0) s then fail ERRNO_EBADF s else ok_ret (console_tty_get_lflag s) s)"

definition sys_tty_setmode :: "u32 \<Rightarrow> u32 \<Rightarrow> 'a kernel_scheme \<Rightarrow> 'a sysres" where
  "sys_tty_setmode a0 lf s =
     (if \<not> sched_fd_is_tty (sint a0) s then fail ERRNO_EBADF s
      else (case console_tty_set_lflag lf s of (r, s) \<Rightarrow> ok_ret r s))"

definition sys_clock_getres :: "u32 \<Rightarrow> u32 \<Rightarrow> 'a kernel_scheme \<Rightarrow> 'a sysres" where
  "sys_clock_getres a0 res_addr s =
     (if \<not> clockid_is_supported (sint a0) then fail ERRNO_EINVAL s
      else if res_addr \<noteq> 0 then
        (case abi_user_write_timespec res_addr (0, 1) s of None \<Rightarrow> fail ERRNO_EFAULT s | Some s \<Rightarrow> ok_ret 0 s)
      else ok_ret 0 s)"

definition sys_clock_gettime :: "u32 \<Rightarrow> u32 \<Rightarrow> 'a kernel_scheme \<Rightarrow> 'a sysres" where
  "sys_clock_gettime a0 ts_addr s =
     (if ts_addr = 0 then fail ERRNO_EFAULT s
      else (case clockid_read_time_ns (sint a0) s of None \<Rightarrow> fail ERRNO_EINVAL s
            | Some ns \<Rightarrow> (case time_ns_to_timespec ns of None \<Rightarrow> fail ERRNO_EOVERFLOW s
            | Some ts \<Rightarrow> (case abi_user_write_timespec ts_addr ts s of None \<Rightarrow> fail ERRNO_EFAULT s
            | Some s \<Rightarrow> ok_ret 0 s))))"

definition sys_clock_settime :: "u32 \<Rightarrow> u32 \<Rightarrow> 'a kernel_scheme \<Rightarrow> 'a sysres" where
  "sys_clock_settime a0 tp_addr s =
     (if sint a0 = 1 then fail ERRNO_EINVAL s
      else if sint a0 \<noteq> 0 then fail ERRNO_EINVAL s
      else (case (if tp_addr = 0 then None else abi_user_read_timespec tp_addr s) of None \<Rightarrow> fail ERRNO_EFAULT s
            | Some tp \<Rightarrow> (case timespec_to_ns tp of None \<Rightarrow> fail ERRNO_EINVAL s
            | Some target_ns \<Rightarrow>
                let raw_ns = mmio_read_time_ns TIME_MMIO_REALTIME_LO TIME_MMIO_REALTIME_HI s in
                ok_ret 0
                  (if raw_ns \<le> target_ns
                   then s\<lparr>g_realtime_offset_neg := False, g_realtime_offset_mag_ns := target_ns - raw_ns\<rparr>
                   else s\<lparr>g_realtime_offset_neg := True, g_realtime_offset_mag_ns := raw_ns - target_ns\<rparr>))))"

definition sys_gettimeofday :: "u32 \<Rightarrow> u32 \<Rightarrow> 'a kernel_scheme \<Rightarrow> 'a sysres" where
  "sys_gettimeofday tv_addr tz_addr s =
     (if tv_addr = 0 then fail ERRNO_EFAULT s
      else
        let ns = clock_apply_realtime_offset (mmio_read_time_ns TIME_MMIO_REALTIME_LO TIME_MMIO_REALTIME_HI s) s in
        (case time_ns_to_timeval ns of None \<Rightarrow> fail ERRNO_EOVERFLOW s
         | Some tv \<Rightarrow> (case abi_user_write_timeval tv_addr tv s of None \<Rightarrow> fail ERRNO_EFAULT s
         | Some s \<Rightarrow>
             if tz_addr \<noteq> 0 then
               (case abi_user_write32 (tz_addr + 0) 0 s of None \<Rightarrow> fail ERRNO_EFAULT s
                | Some s \<Rightarrow> (case abi_user_write32 (tz_addr + 4) 0 s of None \<Rightarrow> fail ERRNO_EFAULT s
                             | Some s \<Rightarrow> ok_ret 0 s))
             else ok_ret 0 s)))"

section \<open>Dispatch\<close>

definition syscall_case ::
  "(nat \<Rightarrow> nat \<Rightarrow> nat \<Rightarrow> 'a kernel_scheme \<Rightarrow> 'a kernel_scheme) \<Rightarrow> (nat \<Rightarrow> nat \<Rightarrow> 'a kernel_scheme \<Rightarrow> 'a kernel_scheme)
   \<Rightarrow> syscall_regs \<Rightarrow> 'a kernel_scheme \<Rightarrow> 'a sysres option" where
  "syscall_case run irq r s =
     (if nr r = 0 then Some (ok_ret (of_int (sched_current_tid s)) s)
      else if nr r = 1 then Some (ok_ret 0 (sched_yield s))
      else if nr r = 2 then Some (ok_ret 0 (sched_sleep_ticks (arg0 r) s))
      else if nr r = 3 then Some (ok_ret 0 (sched_exit_code (arg0 r) s))
      else if nr r = 4 then sys_waitpid (irq 0) (arg0 r) (arg1 r) (arg2 r) s
      else if nr r = 5 then Some (sys_nanosleep (arg0 r) (arg1 r) s)
      else if nr r = 6 then Some (sys_read (arg0 r) (arg1 r) (arg2 r) (arg3 r) s)
      else if nr r = 7 then Some (sys_write (arg0 r) (arg1 r) (arg2 r) s)
      else if nr r = 16 then Some (sys_close (arg0 r) s)
      else if nr r = 17 then Some (sys_dup (arg0 r) s)
      else if nr r = 18 then Some (sys_dup2 (arg0 r) (arg1 r) s)
      else if nr r = 19 then Some (sys_fcntl (arg0 r) (arg1 r) (arg2 r) s)
      else if nr r = 20 then Some (sys_open (arg0 r) (arg1 r) s)
      else if nr r = 21 then Some (sys_socket (arg0 r) (arg1 r) s)
      else if 22 \<le> nr r \<and> nr r \<le> 27 then Some (sys_socket_op (nr r) (arg0 r) s)
      else if nr r = 8 then sys_poll run irq (arg0 r) (arg1 r) (arg2 r) s
      else if nr r = 9 then sys_select run irq (arg0 r) (arg1 r) (arg2 r) (arg3 r) (arg4 r) s
      else if nr r = 10 then Some (sys_tty_getmode (arg0 r) s)
      else if nr r = 11 then Some (sys_tty_setmode (arg0 r) (arg1 r) s)
      else if nr r = 14 then Some (sys_clock_getres (arg0 r) (arg1 r) s)
      else if nr r = 12 then Some (sys_clock_gettime (arg0 r) (arg1 r) s)
      else if nr r = 15 then Some (sys_clock_settime (arg0 r) (arg1 r) s)
      else if nr r = 13 then Some (sys_gettimeofday (arg0 r) (arg1 r) s)
      else Some (fail ERRNO_ENOSYS s))"

definition syscall_dispatch ::
  "(nat \<Rightarrow> nat \<Rightarrow> nat \<Rightarrow> 'a kernel_scheme \<Rightarrow> 'a kernel_scheme) \<Rightarrow> (nat \<Rightarrow> nat \<Rightarrow> 'a kernel_scheme \<Rightarrow> 'a kernel_scheme)
   \<Rightarrow> syscall_regs option \<Rightarrow> 'a kernel_scheme \<Rightarrow> (u32 \<times> 'a kernel_scheme) option" where
  "syscall_dispatch run irq rg s =
     (case rg of
        None \<Rightarrow> Some (- 1, publish_result None (- 1) ERRNO_ENOSYS s)
      | Some r \<Rightarrow>
          map_option (\<lambda>(ret, err, s). (ret, publish_result (Some r) ret err s)) (syscall_case run irq r s))"

end
