(* ===== verification/Printk.thy ===== *)
theory Printk
  imports Syscall
begin

text \<open>
  Kernel messages (\<open>kernel/src/printk.c\<close>): characters and
  strings on the framebuffer console, hexadecimal numbers, the log level. C strings are byte lists without the
  final zero; a null pointer is \<open>None\<close>.
\<close>

section \<open>State and strings\<close>

record klogs = kernel +
  g_klog_level :: u32

abbreviation (input) KLOG_LEVEL_ERROR :: u32 where "KLOG_LEVEL_ERROR \<equiv> 1"
abbreviation (input) KLOG_LEVEL_WARN :: u32 where "KLOG_LEVEL_WARN \<equiv> 2"
abbreviation (input) KLOG_LEVEL_INFO :: u32 where "KLOG_LEVEL_INFO \<equiv> 3"
abbreviation (input) KLOG_LEVEL_DEBUG :: u32 where "KLOG_LEVEL_DEBUG \<equiv> 4"
abbreviation (input) KERNEL_LOG_LEVEL_DEFAULT :: u32 where "KERNEL_LOG_LEVEL_DEFAULT \<equiv> 3"

definition cstr :: "string \<Rightarrow> u8 list" where
  "cstr = List.map of_char"

section \<open>Output\<close>

definition kputc :: "u32 \<Rightarrow> 'a console_scheme \<Rightarrow> 'a console_scheme" where
  "kputc c s = fb_putc c s"

definition kputs :: "u8 list \<Rightarrow> 'a console_scheme \<Rightarrow> 'a console_scheme" where
  "kputs p s = s\<lparr>screen := console_fb_puts p (screen s)\<rparr>"

definition kprintf :: "u8 list \<Rightarrow> 'a console_scheme \<Rightarrow> 'a console_scheme" where
  "kprintf p s = kputs p s"

definition hexdig :: "u8 list" where
  "hexdig = cstr ''0123456789ABCDEF''"

definition hex_digit :: "u32 \<Rightarrow> nat \<Rightarrow> 'a console_scheme \<Rightarrow> 'a console_scheme" where
  "hex_digit v shift s = (let nib = drop_bit shift v AND 0xF in kputc (ucast (hexdig ! unat nib)) s)"

definition kprint_hex32 :: "u32 \<Rightarrow> 'a console_scheme \<Rightarrow> 'a console_scheme" where
  "kprint_hex32 v s = fold (hex_digit v) [28, 24, 20, 16, 12, 8, 4, 0] (kputc 120 (kputc 48 s))"

definition kprint_u32 :: "u32 \<Rightarrow> 'a console_scheme \<Rightarrow> 'a console_scheme" where
  "kprint_u32 v s = kprint_hex32 v s"

section \<open>Log levels\<close>

definition klog_level_name :: "u32 \<Rightarrow> u8 list" where
  "klog_level_name level =
     (if level = KLOG_LEVEL_ERROR then cstr ''ERR''
      else if level = KLOG_LEVEL_WARN then cstr ''WRN''
      else if level = KLOG_LEVEL_INFO then cstr ''INF''
      else if level = KLOG_LEVEL_DEBUG then cstr ''DBG''
      else cstr ''LOG'')"

definition klog_should_emit :: "u32 \<Rightarrow> 'a klogs_scheme \<Rightarrow> bool" where
  "klog_should_emit level s = (if level = 0 then False else level \<le> g_klog_level s)"

definition klog_set_level :: "u32 \<Rightarrow> 'a klogs_scheme \<Rightarrow> 'a klogs_scheme" where
  "klog_set_level level s =
     (let level = (if level < KLOG_LEVEL_ERROR then KLOG_LEVEL_ERROR
                   else if KLOG_LEVEL_DEBUG < level then KLOG_LEVEL_DEBUG
                   else level) in
      s\<lparr>g_klog_level := level\<rparr>)"

definition klog_get_level :: "'a klogs_scheme \<Rightarrow> u32" where
  "klog_get_level s = g_klog_level s"

definition klog_prefix :: "u32 \<Rightarrow> u8 list option \<Rightarrow> 'a klogs_scheme \<Rightarrow> 'a klogs_scheme" where
  "klog_prefix level tag s =
     (if \<not> klog_should_emit level s then s
      else
        let s = kputc 91 s;
            s = kputs (klog_level_name level) s;
            s = kputc 93 s;
            s = kputc 91 s;
            s = (case tag of
                   Some (c # cs) \<Rightarrow> if c \<noteq> 0 then kputs (c # cs) s else kputs (cstr ''kernel'') s
                 | _ \<Rightarrow> kputs (cstr ''kernel'') s);
            s = kputc 93 s in
        kputc 32 s)"

definition klog_line :: "u32 \<Rightarrow> u8 list option \<Rightarrow> u8 list option \<Rightarrow> 'a klogs_scheme \<Rightarrow> 'a klogs_scheme" where
  "klog_line level tag msg s =
     (if \<not> klog_should_emit level s then s
      else
        let s = klog_prefix level tag s;
            s = (case msg of Some m \<Rightarrow> kputs m s | None \<Rightarrow> s) in
        kputc 10 s)"

section \<open>What is written\<close>

text \<open>Everything the messages do is to write characters: the screen after it is the screen after the characters in
  order, and no other part of the state changes.\<close>

definition writes :: "u8 list \<Rightarrow> 'a console_scheme \<Rightarrow> 'a console_scheme \<Rightarrow> bool" where
  "writes cs s s' \<longleftrightarrow> s' = s\<lparr>screen := fold (\<lambda>c. console_fb_putc (ucast c)) cs (screen s)\<rparr>"

lemma writes_nil [simp]: "writes [] s s' \<longleftrightarrow> s' = s"
  by (simp add: writes_def)

lemma writes_append: "writes xs s s' \<Longrightarrow> writes ys s' s'' \<Longrightarrow> writes (xs @ ys) s s''"
  by (simp add: writes_def)

lemma kputc_writes: "c < 256 \<Longrightarrow> writes [ucast c] s (kputc c s)"
proof -
  assume "c < 256"
  then have "unat c < 256" by (simp add: word_less_nat_alt)
  then have "ucast (ucast c :: u8) = c"
    by (intro word_unat_eq_iff [THEN iffD2]) (simp add: unsigned_ucast_eq unsigned_take_bit_eq take_bit_nat_eq_self)
  then show ?thesis by (simp add: writes_def kputc_def fb_putc_def)
qed

lemma kputs_writes: "0 \<notin> set p \<Longrightarrow> writes p s (kputs p s)"
proof -
  assume "0 \<notin> set p"
  then have "takeWhile (\<lambda>c. c \<noteq> 0) p = p" by (auto simp: takeWhile_eq_all_conv)
  then show ?thesis by (simp only: writes_def kputs_def console_fb_puts_def)
qed

lemma hex_digit_writes: "writes [hexdig ! (unat v div 2 ^ shift mod 16)] s (hex_digit v shift s)"
proof -
  have "unat (drop_bit shift v AND 0xF) = unat v div 2 ^ shift mod 16"
  proof -
    have "drop_bit shift v AND 0xF = take_bit 4 (drop_bit shift v)" by (simp add: take_bit_eq_mask mask_eq_exp_minus_1)
    then have "unat (drop_bit shift v AND 0xF) = take_bit 4 (drop_bit shift (unat v))"
      using unsigned_less [of v, where ?'a = nat]
      by (simp only: unsigned_take_bit_eq unsigned_drop_bit_eq) (simp add: take_bit_nat_eq_self)
    then show ?thesis by (simp only: take_bit_eq_mod drop_bit_eq_div) simp
  qed
  then show ?thesis by (simp add: hex_digit_def writes_def kputc_def fb_putc_def)
qed

text \<open>A number is printed as \<open>0x\<close> and eight hexadecimal digits whose value is the number; nothing but the
  screen changes.\<close>

theorem hex_print_round_trip:
  "\<exists>ds. writes (cstr ''0x'' @ List.map (\<lambda>d. hexdig ! d) ds) s (kprint_hex32 v s)
        \<and> length ds = 8 \<and> list_all (\<lambda>d. d < 16) ds \<and> hex_value ds = unat v"
proof -
  let ?d = "\<lambda>k. unat v div 2 ^ k mod 16"
  have h: "writes (List.map (\<lambda>k. hexdig ! ?d k) ks) s (fold (hex_digit v) ks s)" for ks and s :: "'a console_scheme"
  proof (induction ks arbitrary: s)
    case (Cons k ks)
    then show ?case using writes_append [OF hex_digit_writes Cons.IH] by simp
  qed simp
  have "writes [48] s (kputc 48 s)" "writes [120] (kputc 48 s) (kputc 120 (kputc 48 s))"
    using kputc_writes [of 48 s] kputc_writes [of 120 "kputc 48 s"] by simp_all
  from writes_append [OF writes_append [OF this] h [of "[28, 24, 20, 16, 12, 8, 4, 0]"]]
  have "writes (cstr ''0x'' @ List.map (\<lambda>d. hexdig ! d) (List.map ?d [28, 24, 20, 16, 12, 8, 4, 0])) s (kprint_hex32 v s)"
    by (simp add: kprint_hex32_def cstr_def)
  then show ?thesis
    using hex_value_digits [OF unsigned_less [of v, where ?'a = nat, simplified]]
    by (intro exI [of _ "List.map ?d [28, 24, 20, 16, 12, 8, 4, 0]"]) simp
qed

text \<open>\<open>drawn s u\<close>: nothing but the screen has changed. The rules in \<open>drawn_rules\<close> carry it through output.\<close>

named_theorems drawn_rules

definition drawn :: "'a console_scheme \<Rightarrow> 'a console_scheme \<Rightarrow> bool" where
  "drawn s u \<longleftrightarrow> (\<exists>x. u = s\<lparr>screen := x\<rparr>)"

lemma drawn_screen [drawn_rules]: "drawn s u \<Longrightarrow> drawn s (u\<lparr>screen := x\<rparr>)"
  by (auto simp: drawn_def)

lemma drawn_refl [drawn_rules]: "drawn s s"
proof -
  have "s = s\<lparr>screen := screen s\<rparr>" by simp
  then show ?thesis unfolding drawn_def by blast
qed

lemma drawn_trans: "drawn s u \<Longrightarrow> drawn u v \<Longrightarrow> drawn s v"
  by (auto simp: drawn_def)

lemma drawn_fold: "(\<And>b u. drawn s u \<Longrightarrow> drawn s (f b u)) \<Longrightarrow> drawn s u \<Longrightarrow> drawn s (fold f bs u)"
  by (induction bs arbitrary: u) auto

lemma drawn_kput [drawn_rules]:
  "drawn s u \<Longrightarrow> drawn s (fb_putc c u)" "drawn s u \<Longrightarrow> drawn s (kputc c u)" "drawn s u \<Longrightarrow> drawn s (kputs p u)"
  by (simp_all add: kputc_def kputs_def fb_putc_def drawn_screen)

lemma drawn_hex [drawn_rules]: "drawn s u \<Longrightarrow> drawn s (kprint_hex32 v u)"
  unfolding kprint_hex32_def hex_digit_def Let_def by (intro drawn_fold drawn_rules)

lemma drawn_if [drawn_rules]: "drawn s u \<Longrightarrow> drawn s v \<Longrightarrow> drawn s (if b then u else v)"
  by simp

lemma drawn_write [drawn_rules]: "drawn s u \<Longrightarrow> drawn s (snd (console_write src u))"
  by (auto simp: console_write_def split: option.split intro!: drawn_fold drawn_rules)

lemma drawn_klog [drawn_rules]: "drawn s u \<Longrightarrow> drawn s (klog_prefix l tg u)" "drawn s u \<Longrightarrow> drawn s (klog_line l tg m u)"
proof -
  show p: "drawn s (klog_prefix l tg u)" if "drawn s u" for u
    using that unfolding klog_prefix_def Let_def by (intro drawn_rules) (auto split: option.split list.split intro!: drawn_rules)
  show "drawn s u \<Longrightarrow> drawn s (klog_line l tg m u)"
    unfolding klog_line_def Let_def by (intro drawn_rules) (auto split: option.split intro!: drawn_rules p)
qed

text \<open>Errors are always logged, whatever the level is set to, and the level stays in range.\<close>

lemma set_level_range:
  "klog_should_emit KLOG_LEVEL_ERROR (klog_set_level l s)" "1 \<le> klog_get_level (klog_set_level l s)"
  "klog_get_level (klog_set_level l s) \<le> 4"
  by (auto simp: klog_should_emit_def klog_set_level_def klog_get_level_def Let_def word_less_nat_alt word_le_nat_alt)

end
