(* ===== verification/VmInfo.thy ===== *)
theory VmInfo
  imports Printk
begin

text \<open>
  The boot information the kernel reads at start (\<open>kernel/src/vm_info.c\<close>): the block that the BIOS leaves in
  RAM is checked, copied into a structure and logged, with warnings where it does not fit the kernel.
\<close>

section \<open>The block\<close>

abbreviation (input) BOOTINFO_ADDR :: u32 where "BOOTINFO_ADDR \<equiv> 0x002FF000"
abbreviation (input) BOOTINFO_MAGIC :: u32 where "BOOTINFO_MAGIC \<equiv> 0x3049424C"
abbreviation (input) BOOTINFO_VERSION :: u32 where "BOOTINFO_VERSION \<equiv> 2"
abbreviation (input) BOOTINFO_SIZE :: u32 where "BOOTINFO_SIZE \<equiv> 0x64"
abbreviation (input) SYSINFO_LAYOUT_VERSION :: u32 where "SYSINFO_LAYOUT_VERSION \<equiv> 2"
abbreviation (input) BOOTINFO_ARCH_LAMP32 :: u32 where "BOOTINFO_ARCH_LAMP32 \<equiv> 1"
abbreviation (input) BOOTINFO_ENDIAN_LITTLE :: u32 where "BOOTINFO_ENDIAN_LITTLE \<equiv> 1"

record boot_info =
  bi_magic :: u32
  bi_version :: u32
  bi_size :: u32
  vendor_words :: "u32 list"
  mem_bytes_lo :: u32
  mem_bytes_hi :: u32
  disk_bytes_lo :: u32
  disk_bytes_hi :: u32
  bi_smp_cores :: u32
  layout_version :: u32
  arch_id :: u32
  endian :: u32
  phys_addr_bits :: u32
  page_size :: u32
  timer_freq_hz :: u32
  features :: u32
  bi_fb_width :: u32
  bi_fb_height :: u32
  bi_fb_bpp :: u32
  fb_stride_bytes :: u32
  boot_realtime_ns_lo :: u32
  boot_realtime_ns_hi :: u32

definition vm_info_read32 :: "u32 \<Rightarrow> 'a kernel_scheme \<Rightarrow> u32" where
  "vm_info_read32 a s = load32 (umem s) a"

text \<open>The structure as the caller gets it, with whether the block was accepted.\<close>

definition vm_info_load_boot :: "boot_info option \<Rightarrow> 'a kernel_scheme \<Rightarrow> bool \<times> boot_info option" where
  "vm_info_load_boot out s =
     (case out of None \<Rightarrow> (False, None)
      | Some b \<Rightarrow>
          let rd = (\<lambda>off. vm_info_read32 (BOOTINFO_ADDR + off) s);
              b = b\<lparr>bi_magic := rd 0x00, bi_version := rd 0x04, bi_size := rd 0x08\<rparr> in
          if bi_magic b \<noteq> BOOTINFO_MAGIC \<or> bi_version b \<noteq> BOOTINFO_VERSION \<or> bi_size b < BOOTINFO_SIZE then (False, Some b)
          else
            (True, Some (b\<lparr>vendor_words := List.map (\<lambda>i. rd (0x0C + of_nat i * 4)) [0..<4],
               mem_bytes_lo := rd 0x1C, mem_bytes_hi := rd 0x20, disk_bytes_lo := rd 0x24, disk_bytes_hi := rd 0x28,
               bi_smp_cores := rd 0x2C, layout_version := rd 0x30, arch_id := rd 0x34, endian := rd 0x38,
               phys_addr_bits := rd 0x3C, page_size := rd 0x40, timer_freq_hz := rd 0x44, features := rd 0x48,
               bi_fb_width := rd 0x4C, bi_fb_height := rd 0x50, bi_fb_bpp := rd 0x54, fb_stride_bytes := rd 0x58,
               boot_realtime_ns_lo := rd 0x5C, boot_realtime_ns_hi := rd 0x60\<rparr>)))"

section \<open>Logging\<close>

text \<open>The two nested loops over words and bytes, as one loop over the bytes; a zero byte returns from the
  function, also before anything was printed.\<close>

fun vendor_loop :: "u32 list \<Rightarrow> bool \<Rightarrow> 'a console_scheme \<Rightarrow> 'a console_scheme" where
  "vendor_loop [] printed s = (if \<not> printed then kputs (cstr ''unknown'') s else s)"
| "vendor_loop (c # cs) printed s = (if c = 0 then s else vendor_loop cs True (kputc c s))"

definition vm_info_print_vendor :: "u32 list \<Rightarrow> 'a console_scheme \<Rightarrow> 'a console_scheme" where
  "vm_info_print_vendor ws s =
     vendor_loop (concat (List.map (\<lambda>wi. List.map (\<lambda>bi. drop_bit (bi * 8) (ws ! wi) AND 0xFF) [0..<4]) [0..<4])) False s"

text \<open>One feature name, after a blank unless it is the first.\<close>

definition log_feature :: "u32 \<Rightarrow> u32 \<times> string \<Rightarrow> bool \<times> 'a console_scheme \<Rightarrow> bool \<times> 'a console_scheme" where
  "log_feature feats f st =
     (case st of (first, s) \<Rightarrow>
        if feats AND fst f \<noteq> 0 then
          let s = (if \<not> first then kputc 32 s else s) in (False, kputs (cstr (snd f)) s)
        else (first, s))"

definition vm_info_log_features :: "u32 \<Rightarrow> 'a klogs_scheme \<Rightarrow> 'a klogs_scheme" where
  "vm_info_log_features feats s =
     (if \<not> klog_should_emit KLOG_LEVEL_INFO s then s
      else
        let s = klog_prefix KLOG_LEVEL_INFO (Some (cstr ''vm_info'')) s;
            s = kputs (cstr ''features='') s;
            s = kprint_hex32 feats s;
            s = kputs (cstr '' ['') s;
            (first, s) = fold (log_feature feats)
              [(1, ''TIME''), (2, ''FB''), (4, ''DISK''), (8, ''SMP''), (16, ''TIMER_IRQ'')] (True, s);
            s = (if first then kputs (cstr ''none'') s else s) in
        kputs (cstr '']'' @ [10]) s)"

definition log_field :: "string \<times> u32 \<Rightarrow> 'a console_scheme \<Rightarrow> 'a console_scheme" where
  "log_field f s = kprint_hex32 (snd f) (kputs (cstr (fst f)) s)"

definition log_fields :: "(string \<times> u32) list \<Rightarrow> 'a klogs_scheme \<Rightarrow> 'a klogs_scheme" where
  "log_fields fs s =
     kputs [10] (fold log_field fs (klog_prefix KLOG_LEVEL_INFO (Some (cstr ''vm_info'')) s))"

definition vm_info_log_boot :: "boot_info \<Rightarrow> 'a klogs_scheme \<Rightarrow> 'a klogs_scheme" where
  "vm_info_log_boot init s =
     (let tag = Some (cstr ''vm_info'') in
      case vm_info_load_boot (Some init) s of (ok, out) \<Rightarrow>
      if \<not> ok then klog_line KLOG_LEVEL_WARN tag (Some (cstr ''bootinfo missing'')) s
      else
        let info = the out;
            s = (if klog_should_emit KLOG_LEVEL_INFO s then
                   let s = klog_prefix KLOG_LEVEL_INFO tag s;
                       s = kputs (cstr ''vendor='') s;
                       s = vm_info_print_vendor (vendor_words info) s;
                       s = kputs [10] s;
                       s = log_fields [(''mem_lo='', mem_bytes_lo info), ('' mem_hi='', mem_bytes_hi info),
                             ('' disk_lo='', disk_bytes_lo info), ('' disk_hi='', disk_bytes_hi info), ('' smp='', bi_smp_cores info)] s;
                       s = log_fields [(''layout='', layout_version info), ('' arch='', arch_id info), ('' endian='', endian info),
                             ('' paddr_bits='', phys_addr_bits info), ('' page='', page_size info), ('' timer_hz='', timer_freq_hz info)] s;
                       s = log_fields [(''fb_w='', bi_fb_width info), ('' fb_h='', bi_fb_height info), ('' fb_bpp='', bi_fb_bpp info),
                             ('' fb_stride='', fb_stride_bytes info), ('' boot_rt_lo='', boot_realtime_ns_lo info),
                             ('' boot_rt_hi='', boot_realtime_ns_hi info)] s in
                   vm_info_log_features (features info) s
                 else s);
            s = (if layout_version info \<noteq> SYSINFO_LAYOUT_VERSION
                 then klog_line KLOG_LEVEL_WARN tag (Some (cstr ''sysinfo layout mismatch'')) s else s);
            s = (if arch_id info \<noteq> BOOTINFO_ARCH_LAMP32 \<or> endian info \<noteq> BOOTINFO_ENDIAN_LITTLE
                 then klog_line KLOG_LEVEL_WARN tag (Some (cstr ''arch/endian mismatch'')) s else s) in
        if mem_bytes_hi info \<noteq> 0 \<or> mem_bytes_lo info \<noteq> KERNEL_MEM_SIZE then
          let s = klog_prefix KLOG_LEVEL_WARN tag s;
              s = kputs (cstr ''mem_size contract mismatch expect='') s;
              s = kprint_hex32 KERNEL_MEM_SIZE s;
              s = kputs (cstr '' got_lo='') s;
              s = kprint_hex32 (mem_bytes_lo info) s;
              s = kputs (cstr '' got_hi='') s;
              s = kprint_hex32 (mem_bytes_hi info) s in
          kputs [10] s
        else s)"

end
