(* ===== verification/Sysframe.thy ===== *)
theory Sysframe
  imports Syscall
begin

text \<open>
  What every system call of \<open>Syscall\<close> leaves alone and what it keeps: \<open>kframe\<close> is proved for the pieces of a call, for
  the loops by induction over their turns, and so for \<open>syscall_dispatch\<close>; and the properties of single calls.
\<close>

section \<open>Frame and invariant\<close>

text \<open>A relation between the states before and after a piece of a call: the scheduler invariant is kept and
  no byte of \<open>K\<close> and none at or beyond the end of RAM is written. \<open>K\<close> stands for the memory in which the variables of the kernel lie:
  the record keeps them apart from \<open>umem\<close>, which is right as long as no call writes into \<open>K\<close>.\<close>

definition gframe :: "u32 set \<Rightarrow> 'a kernel_scheme \<Rightarrow> 'a kernel_scheme \<Rightarrow> bool" where
  "gframe K s s' \<longleftrightarrow>
     (sched_ok s \<longrightarrow> sched_ok s') \<and> (\<forall>a. KERNEL_MEM_SIZE \<le> a \<or> a \<in> K \<longrightarrow> umem s' a = umem s a)"

abbreviation kframe :: "'a kernel_scheme \<Rightarrow> 'a kernel_scheme \<Rightarrow> bool" where
  "kframe \<equiv> gframe {}"

text \<open>The \<open>n\<close> bytes from \<open>a\<close> on are apart from \<open>K\<close>.\<close>

definition clear_of :: "u32 set \<Rightarrow> u32 \<Rightarrow> nat \<Rightarrow> bool" where
  "clear_of K a n \<longleftrightarrow> (\<forall>i < n. a + of_nat i \<notin> K)"

lemma clear_of_empty [simp]: "clear_of {} a n"
  by (simp add: clear_of_def)

lemma clear_of_sub: "clear_of K a n \<Longrightarrow> i + m \<le> n \<Longrightarrow> clear_of K (a + of_nat i) m"
  unfolding clear_of_def
proof (intro allI impI)
  fix j assume c: "\<forall>i<n. a + word_of_nat i \<notin> K" "i + m \<le> n" "j < m"
  then have "a + of_nat (i + j) \<notin> K" by (intro c(1) [rule_format]) simp
  then show "a + of_nat i + of_nat j \<notin> K" by (simp add: add.assoc)
qed

lemma kframe_refl [simp]: "gframe K s s"
  by (simp add: gframe_def)

lemma kframe_trans [trans]: "gframe K s s' \<Longrightarrow> gframe K s' s'' \<Longrightarrow> gframe K s s''"
  by (simp add: gframe_def)

lemma ker_same:
  assumes "sched.more s' = sched.more (s :: 'a kernel_scheme)"
  shows "umem s' = umem s" "time_regs s' = time_regs s" "g_realtime_offset_neg s' = g_realtime_offset_neg s"
    "g_realtime_offset_mag_ns s' = g_realtime_offset_mag_ns s"
  using assms by (cases s'; cases s; simp)+

lemma kframe_sched: "sched.more s' = sched.more s \<Longrightarrow> (sched_ok s \<Longrightarrow> sched_ok s') \<Longrightarrow> gframe K s s'"
  using ker_same(1) [of s' s] by (simp add: gframe_def)

lemma upd_more [simp]:
  "sched.more (upd_task i f s) = sched.more s" "sched.more (resched s) = sched.more s"
  "sched.more (sched_detach_waitq i s) = sched.more s" "sched.more (make_runnable i s) = sched.more s"
  by (simp_all add: upd_task_def resched_def sched_detach_waitq_def waitq_clear_bit_def make_runnable_def Let_def split: option.split)

lemma fold_more: "(\<And>i s. sched.more (f i s) = sched.more s) \<Longrightarrow> sched.more (fold f xs s) = sched.more s"
  by (induction xs arbitrary: s) simp_all

lemma wake_all_more [simp]: "sched.more (sched_waitq_wake_all q s) = sched.more s"
  unfolding sched_waitq_wake_all_def by (rule fold_more) (simp add: sched_wake_slot_def Let_def)

lemma ops_more [simp]:
  "sched.more (sched_yield s) = sched.more s" "sched.more (sched_sleep_ticks n s) = sched.more s"
  "sched.more (sched_exit_code c s) = sched.more s" "sched.more (snd (on_current bad f s)) = sched.more s"
  "sched.more (snd (snd (sched_try_reap_child par pid s))) = sched.more s"
  by (simp_all add: sched_yield_def sched_sleep_ticks_def sched_exit_code_def on_current_def sched_try_reap_child_def
      sched_clear_task_def Let_def case_prod_unfold split: option.split)

lemma waitpid_more [simp]: "sched.more (snd (snd (sched_waitpid pid opt s))) = sched.more s"
proof (cases "sched_current_slot s")
  case (Some i)
  obtain rc st u where r: "sched_try_reap_child (sint (tid (g_tasks s i))) pid s = (rc, st, u)"
    by (cases "sched_try_reap_child (sint (tid (g_tasks s i))) pid s")
  then have "sched.more u = sched.more s" using ops_more(5) [of "sint (tid (g_tasks s i))" pid s] by simp
  then show ?thesis using Some r by (simp add: sched_waitpid_def)
qed (simp add: sched_waitpid_def)

lemma fd_more [simp]:
  "sched.more (snd (sched_fd_close a s)) = sched.more s" "sched.more (snd (sched_fd_dup a s)) = sched.more s"
  "sched.more (snd (sched_fd_dup2 a b s)) = sched.more s" "sched.more (snd (sched_fd_open_special sp fl s)) = sched.more s"
  "sched.more (snd (sched_fd_fcntl_setfd a fl s)) = sched.more s" "sched.more (snd (sched_fd_fcntl_setfl a fl s)) = sched.more s"
  by (simp_all add: sched_fd_close_def sched_fd_dup_def sched_fd_dup2_def sched_fd_open_special_def
      sched_fd_fcntl_setfd_def sched_fd_fcntl_setfl_def)

lemma kframe_ops:
  "gframe K s (sched_yield s)" "gframe K s (sched_sleep_ticks n s)" "gframe K s (sched_exit_code c s)"
  "gframe K s (snd (snd (sched_waitpid pid opt s)))" "gframe K s (sched_waitq_sleep Rx_waitq n s)"
  "gframe K s (snd (sched_fd_close a s))" "gframe K s (snd (sched_fd_dup a s))" "gframe K s (snd (sched_fd_dup2 a b s))"
  "gframe K s (snd (sched_fd_open_special sp fl s))" "gframe K s (snd (sched_fd_fcntl_setfd a fl s))"
  "gframe K s (snd (sched_fd_fcntl_setfl a fl s))"
  by (rule kframe_sched; simp add: yield_ok sleep_ticks_ok exit_ok waitpid_ok rx_sleep_ok fd_ops_sched_ok)+

text \<open>Changes to fields that the scheduler does not look at.\<close>

lemma kframe_same:
  "g_current_idx s' = g_current_idx s \<Longrightarrow> g_tasks s' = g_tasks s \<Longrightarrow> wq s' = wq s \<Longrightarrow> umem s' = umem s \<Longrightarrow> gframe K s s'"
  by (simp add: gframe_def sched_ok_def)

lemma kframe_mem:
  "g_current_idx s' = g_current_idx s \<Longrightarrow> g_tasks s' = g_tasks s \<Longrightarrow> wq s' = wq s
   \<Longrightarrow> (\<And>a. 0x04000000 \<le> a \<or> a \<in> K \<Longrightarrow> umem s' a = umem s a) \<Longrightarrow> gframe K s s'"
  by (simp add: gframe_def sched_ok_def)

section \<open>User memory stays below its end\<close>

lemma range_ok_unat:
  assumes "abi_ptr_range_ok a n"
  shows "unat a + unat n \<le> 67108864" "0 < unat n"
proof -
  have a: "a < 0x04000000" "n \<le> 0x04000000 - a" "n \<noteq> 0"
    using assms by (simp_all add: abi_ptr_range_ok_def not_le split: if_splits)
  then have "unat a < 67108864" "unat (0x04000000 - a) = 67108864 - unat a"
    by (simp_all add: word_less_nat_alt unat_sub word_le_nat_alt)
  then show "unat a + unat n \<le> 67108864" using a(2) by (simp add: word_le_nat_alt)
  show "0 < unat n" using a(3) by (simp add: unat_gt_0)
qed

lemma store32_below: "unat a + 4 \<le> 67108864 \<Longrightarrow> 0x04000000 \<le> b \<Longrightarrow> store32 m a x b = m b"
  by (rule store32_other) (simp_all add: word_le_nat_alt)

lemma unat_add_small: "unat (a :: u32) + n \<le> 67108864 \<Longrightarrow> unat (a + of_nat n) = unat a + n"
  by (simp add: unat_word_ariths unat_of_nat)

lemma write_at_below:
  "unat a + length bs \<le> 67108864 \<Longrightarrow> 0x04000000 \<le> b \<Longrightarrow> write_at a bs m b = m b"
proof (induction bs arbitrary: a m)
  case (Cons x bs)
  have "unat a < 67108864" using Cons.prems(1) by simp
  then have "b \<noteq> a" using Cons.prems(2) by (auto simp: word_le_nat_alt)
  moreover have "unat (a + 1) = unat a + 1" using unat_add_small [of a 1] Cons.prems(1) by simp
  ultimately show ?case using Cons by simp
qed simp

lemma store_pair_below:
  assumes "abi_ptr_range_ok a 8" "0x04000000 \<le> b"
  shows "store32 (store32 m (a + 0) x) (a + 4) y b = m b"
proof -
  have r: "unat a + 8 \<le> 67108864" using range_ok_unat [OF assms(1)] by simp
  then have "unat (a + 4) = unat a + 4" using unat_add_small [of a 4] by simp
  then show ?thesis using store32_below [of "a + 4" b] store32_below [of a b] r assms(2) by simp
qed

text \<open>Stores apart from a set.\<close>

lemma store32_clear:
  assumes "clear_of K a 4" "b \<in> K"
  shows "store32 m a x b = m b"
proof -
  have "a + of_nat i \<noteq> b" if "i < 4" for i using assms that by (auto simp: clear_of_def)
  from this [of 0] this [of 1] this [of 2] this [of 3] show ?thesis by (auto simp: store32_def)
qed

lemma write_at_clear: "clear_of K a (length bs) \<Longrightarrow> b \<in> K \<Longrightarrow> write_at a bs m b = m b"
proof (induction bs arbitrary: a m)
  case (Cons x bs)
  have "clear_of K (a + of_nat 1) (length bs)" using Cons.prems(1) by (rule clear_of_sub) simp
  moreover have "a + of_nat 0 \<noteq> b" using Cons.prems by (auto simp: clear_of_def)
  ultimately show ?case using Cons by simp
qed simp

lemma store_pair_clear:
  assumes "clear_of K a 8" "b \<in> K"
  shows "store32 (store32 m (a + 0) x) (a + 4) y b = m b"
  using store32_clear [OF clear_of_sub [OF assms(1), of 4 4] assms(2)] store32_clear [OF clear_of_sub [OF assms(1), of 0 4] assms(2)]
  by simp

lemma kframe_stores:
  "abi_user_write32 a x s = Some s' \<Longrightarrow> clear_of K a 4 \<Longrightarrow> gframe K s s'"
  "abi_user_write_bytes a bs s = Some s' \<Longrightarrow> length bs < 2 ^ 32 \<Longrightarrow> clear_of K a (length bs) \<Longrightarrow> gframe K s s'"
  "abi_user_write_timespec a ts s = Some s' \<Longrightarrow> clear_of K a 8 \<Longrightarrow> gframe K s s'"
  "abi_user_write_timespec_zero a s = Some s' \<Longrightarrow> a \<noteq> 0 \<longrightarrow> clear_of K a 8 \<Longrightarrow> gframe K s s'"
  "abi_user_write_timeval a ts s = Some s' \<Longrightarrow> clear_of K a 8 \<Longrightarrow> gframe K s s'"
proof -
  show "gframe K s s'" if "abi_user_write32 a x s = Some s'" "clear_of K a 4"
    using that range_ok_unat(1) [of a 4] store32_below [of a] store32_clear [OF that(2)]
    by (intro kframe_mem) (auto simp: abi_user_write32_def split: if_splits)
  show "gframe K s s'" if w: "abi_user_write_bytes a bs s = Some s'" "length bs < 2 ^ 32" "clear_of K a (length bs)"
  proof (cases "bs = []")
    case True
    then show ?thesis using w(1) by (simp add: abi_user_write_bytes_def)
  next
    case False
    then have r: "abi_ptr_range_ok a (of_nat (length bs))" "s' = s\<lparr>umem := write_at a bs (umem s)\<rparr>"
      using w(1) by (simp_all add: abi_user_write_bytes_def split: if_splits)
    have "unat (of_nat (length bs) :: u32) = length bs" using w(2) by (simp add: unat_of_nat)
    then have "unat a + length bs \<le> 67108864" using range_ok_unat(1) [OF r(1)] by simp
    then show ?thesis using write_at_below [of a bs] write_at_clear [OF w(3)] by (intro kframe_mem) (auto simp: r(2))
  qed
  have pair: "gframe K s (s\<lparr>umem := store32 (store32 (umem s) (a + 0) x) (a + 4) y\<rparr>)"
    if "abi_ptr_range_ok a 8" "clear_of K a 8" for x y
    using store_pair_below [OF that(1)] store_pair_clear [OF that(2)] by (intro kframe_mem) (auto simp del: add_0_right)
  show "gframe K s s'" if "abi_user_write_timespec a ts s = Some s'" "clear_of K a 8"
    using that pair by (auto simp: abi_user_write_timespec_def simp del: add_0_right split: if_splits)
  show "gframe K s s'" if "abi_user_write_timeval a ts s = Some s'" "clear_of K a 8"
    using that pair by (auto simp: abi_user_write_timeval_def simp del: add_0_right split: if_splits)
  show "gframe K s s'" if "abi_user_write_timespec_zero a s = Some s'" "a \<noteq> 0 \<longrightarrow> clear_of K a 8"
    using that pair by (auto simp: abi_user_write_timespec_zero_def simp del: add_0_right split: if_splits)
qed

text \<open>The mailbox of the results.\<close>

abbreviation (input) mailbox_clear :: "u32 set \<Rightarrow> bool" where
  "mailbox_clear K \<equiv> clear_of K SYSCALL_ABI_ADDR 48"

lemma kframe_abi: "off \<le> 0x2C \<Longrightarrow> mailbox_clear K \<Longrightarrow> gframe K s (abi_write32 off x s)"
proof -
  assume "off \<le> 0x2C" and m: "mailbox_clear K"
  then have u: "unat off \<le> 44" by (simp add: word_le_nat_alt)
  then have "unat (0x002FE000 + off) + 4 \<le> 67108864" by (simp add: unat_word_ariths)
  moreover have "clear_of K (0x002FE000 + off) 4" using clear_of_sub [OF m, of "unat off" 4] u by simp
  ultimately show ?thesis using store32_below store32_clear by (intro kframe_mem) (auto simp: abi_write32_def)
qed

lemma kframe_publish: "mailbox_clear K \<Longrightarrow> gframe K s (publish_result rg ret err s)"
  unfolding publish_result_def Let_def
  by (intro kframe_trans [OF _ kframe_abi] kframe_refl) simp_all

section \<open>The console calls\<close>

lemma read_loop_frame:
  "case read_loop k canonical s of (bs, eof, s') \<Rightarrow> length bs \<le> k \<and> gframe K s s'" for s :: "'a kernel_scheme"
proof (induction k arbitrary: s)
  case (Suc k)
  have t: "gframe K s (s\<lparr>g_rx_tail := n\<rparr>)" "gframe K s (s\<lparr>g_rx_tail := n, g_rx_lines := m\<rparr>)" "gframe K s (s\<lparr>g_rx_tail := n, g_rx_eofs := m\<rparr>)"
    for n m by (rule kframe_same; simp)+
  show ?case
    using Suc [of "s\<lparr>g_rx_tail := (g_rx_tail s + 1) AND 255\<rparr>"]
      Suc [of "s\<lparr>g_rx_tail := (g_rx_tail s + 1) AND 255, g_rx_lines := g_rx_lines s - 1\<rparr>"] t
    by (auto simp: Let_def case_prod_unfold intro: kframe_trans [OF t(1)] kframe_trans [OF t(2)])
qed simp

lemma console_read_frame:
  "case console_read d len nb s of (n, bs, s') \<Rightarrow> length bs \<le> unat len \<and> nat n \<le> unat len \<and> gframe K s s'" for s :: "'a kernel_scheme"
  using read_loop_frame [where k = "unat len" and canonical = "lflag 2 s" and s = s] kframe_ops(5) [of K s]
  by (auto simp: console_read_def Let_def case_prod_unfold intro: kframe_trans [OF _ kframe_ops(5)])

lemma fb_putc_frame: "gframe K s (fold (\<lambda>b. fb_putc (ucast b)) bs s)" for s :: "'a kernel_scheme" and bs :: "u8 list"
proof (induction bs arbitrary: s)
  case (Cons b bs)
  have "gframe K s (fb_putc (ucast b) s)" by (rule kframe_same) (simp_all add: fb_putc_def)
  then show ?case using Cons.IH kframe_trans by fastforce
qed simp

lemma kframe_console:
  "gframe K s (snd (console_write src s))" "gframe K s (snd (console_tty_set_lflag lf s))"
  "gframe K s (snd (console_wait_readable n nb s))" for s :: "'a kernel_scheme"
  using fb_putc_frame [of K s] kframe_ops(5) [of K s]
  by (auto simp: console_write_def console_tty_set_lflag_def console_wait_readable_def Let_def intro: kframe_same split: option.split)

abbreviation (input) res_state :: "'a sysres \<Rightarrow> 'a kernel_scheme" where
  "res_state r \<equiv> snd (snd r)"

lemma res_simps [simp]: "snd (snd (ok_ret r s)) = s" "snd (snd (fail e s)) = s"
  by (simp_all add: ok_ret_def fail_def)

lemma zero_chunks_frame: "clear_of K buf (copied + remain) \<Longrightarrow> gframe K s (res_state (zero_chunks buf remain copied s))"
proof (induction buf remain copied s rule: zero_chunks.induct)
  case (1 buf remain copied s)
  show ?case
  proof (cases "remain = 0 \<or> abi_user_write_bytes (buf + of_nat copied) (replicate (min remain 64) 0) s = None")
    case True
    then show ?thesis by (subst zero_chunks.simps) (auto simp: Let_def)
  next
    case False
    then obtain u where u: "abi_user_write_bytes (buf + of_nat copied) (replicate (min remain 64) 0) s = Some u" by auto
    have "length (replicate (min remain 64) (0 :: u8)) < 2 ^ 32" by simp
    then have "gframe K s u" using kframe_stores(2) [OF u] clear_of_sub [OF 1(2), of copied "min remain 64"] by simp
    moreover have "gframe K u (res_state (zero_chunks buf (remain - min remain 64) (copied + min remain 64) u))"
      using 1(1) [OF _ refl u] 1(2) False by simp
    moreover have "zero_chunks buf remain copied s = zero_chunks buf (remain - min remain 64) (copied + min remain 64) u"
      using False u by (subst zero_chunks.simps) (simp add: Let_def)
    ultimately show ?thesis using kframe_trans by simp
  qed
qed

lemma read_chunks_frame: "clear_of K buf (copied + remain) \<Longrightarrow> gframe K s (res_state (read_chunks buf remain copied nonblock s))"
proof (induction buf remain copied nonblock s rule: read_chunks.induct)
  case (1 buf remain copied nonblock s)
  let ?w = "min remain 64"
  obtain n bs u where r: "console_read True (of_nat ?w) (if copied \<noteq> 0 then True else nonblock) s = (n, bs, u)"
    by (cases "console_read True (of_nat ?w) (if copied \<noteq> 0 then True else nonblock) s")
  have "?w < 2 ^ 32" by simp
  then have u: "length bs \<le> ?w" "gframe K s u" "nat n \<le> ?w"
    using console_read_frame [where d = True and len = "of_nat ?w" and nb = "if copied \<noteq> 0 then True else nonblock" and s = s] r by (simp_all add: unat_of_nat)
  show ?case
  proof (cases "remain = 0 \<or> n = - 1 \<or> n = 0 \<or> abi_user_write_bytes (buf + of_nat copied) bs u = None")
    case True
    then show ?thesis using u(2) r by (subst read_chunks.simps) (auto simp: Let_def)
  next
    case False
    then obtain v where v: "abi_user_write_bytes (buf + of_nat copied) bs u = Some v" by auto
    have "length bs < 2 ^ 32" using u(1) by simp
    then have sv: "gframe K s v" using kframe_trans [OF u(2) kframe_stores(2) [OF v]] clear_of_sub [OF 1(2), of copied "length bs"] u(1) by simp
    show ?thesis
    proof (cases "nat n < ?w")
      case True
      then show ?thesis using False r v sv by (subst read_chunks.simps) (simp add: Let_def)
    next
      case nl: False
      have "copied + nat n + (remain - ?w) = copied + remain" using u(3) nl by linarith
      then have c: "clear_of K buf (copied + nat n + (remain - ?w))" using 1(2) by simp
      have "gframe K v (res_state (read_chunks buf (remain - ?w) (copied + nat n) nonblock v))"
        using 1(1) [OF _ refl r [symmetric] refl _ _ v refl nl] c False by simp
      moreover have "read_chunks buf remain copied nonblock s = read_chunks buf (remain - ?w) (copied + nat n) nonblock v"
        using False r v nl by (subst read_chunks.simps) (auto simp: Let_def)
      ultimately show ?thesis using kframe_trans [OF sv] by simp
    qed
  qed
qed

lemma write_chunks_frame: "gframe K s (res_state (write_chunks buf remain tot s))"
proof (induction buf remain tot s rule: write_chunks.induct)
  case (1 buf remain tot s)
  let ?w = "min remain 128"
  show ?case
  proof (cases "remain = 0 \<or> abi_user_read_bytes (buf + of_nat tot) ?w s = None")
    case True
    then show ?thesis by (subst write_chunks.simps) (auto simp: Let_def)
  next
    case False
    then obtain bs where bs: "abi_user_read_bytes (buf + of_nat tot) ?w s = Some bs" by auto
    obtain k u where k: "console_write (Some bs) s = (k, u)" by (cases "console_write (Some bs) s")
    then have u: "gframe K s u" using kframe_console(1) [of K s "Some bs"] by simp
    show ?thesis
    proof (cases "k < of_nat ?w")
      case True
      then show ?thesis using False bs k u by (subst write_chunks.simps) (simp add: Let_def)
    next
      case nl: False
      have "gframe K u (res_state (write_chunks buf (remain - ?w) (tot + ?w) u))"
        using 1 [OF _ refl bs k [symmetric] nl] False by simp
      moreover have "write_chunks buf remain tot s = write_chunks buf (remain - ?w) (tot + ?w) u"
        using False bs k nl by (subst write_chunks.simps) (simp add: Let_def)
      ultimately show ?thesis using kframe_trans [OF u] by simp
    qed
  qed
qed

section \<open>Other tasks and interrupts\<close>

abbreviation (input) run_framed :: "u32 set \<Rightarrow> (nat \<Rightarrow> nat \<Rightarrow> nat \<Rightarrow> 'a kernel_scheme \<Rightarrow> 'a kernel_scheme) \<Rightarrow> bool" where
  "run_framed K run \<equiv> \<forall>e i ar s. gframe K s (run e i ar s)"

lemma kframe_idx: "i < 16 \<Longrightarrow> gframe K s (s\<lparr>g_current_idx := i\<rparr>)"
  by (simp add: gframe_def)

lemma pump_frame:
  assumes "run_framed K run"
  shows "gframe K s (sched_pump_once run s)"
proof (cases "used (g_tasks s (sched_pick_next_idx s)) \<and> state (g_tasks s (sched_pick_next_idx s)) = T_RUNNABLE
    \<and> entry (g_tasks s (sched_pick_next_idx s)) \<noteq> None")
  case True
  let ?n = "sched_pick_next_idx s"
  let ?s = "s\<lparr>g_current_idx := ?n\<rparr>"
  let ?b = "run_begin ?n ?s"
  let ?r = "run (the (entry (g_tasks ?b ?n))) ?n (task_arg (g_tasks ?b ?n)) ?b"
  have m: "umem ?b = umem s" using ker_same(1) [of ?b ?s] by (simp add: run_begin_def)
  have f: "umem (run_finish ?n ?r) = umem ?r" using ker_same(1) [of "run_finish ?n ?r" ?r] by (simp add: run_finish_def)
  have "sched_ok (run_finish ?n ?r)" if "sched_ok s"
  proof -
    have "sched_ok ?b" using that True by (intro run_begin_ok) simp_all
    then have "sched_ok ?r" using assms by (simp add: gframe_def)
    then show ?thesis by (simp add: run_finish_ok)
  qed
  moreover have "umem ?r a = umem ?b a" if "0x04000000 \<le> a \<or> a \<in> K" for a using assms that by (auto simp: gframe_def)
  moreover have "sched_pump_once run s = (run_finish ?n ?r)\<lparr>g_current_idx := g_current_idx s\<rparr>"
    using True pick_next_less [of s] by (auto simp: sched_pump_once_def run_slot_def Let_def simp del: pick_next_less)
  moreover have "sched_ok s \<Longrightarrow> g_current_idx s < 16" by (rule sched_okD(1))
  ultimately show ?thesis by (simp add: gframe_def m f)
qed (auto simp: sched_pump_once_def Let_def)

lemma block_loop_frame:
  assumes "block_loop run irq i k s = Some s'" "run_framed K run" "\<forall>k s. gframe K s (irq k s)"
  shows "gframe K s s'"
proof -
  have "run_framed K run \<longrightarrow> (\<forall>k s. gframe K s (irq k s)) \<longrightarrow> gframe K s s'"
  proof (rule block_loop.raw_induct [OF _ assms(1)])
    fix f :: "(nat \<Rightarrow> nat \<Rightarrow> nat \<Rightarrow> 'a kernel_scheme \<Rightarrow> 'a kernel_scheme) \<Rightarrow> (nat \<Rightarrow> 'a kernel_scheme \<Rightarrow> 'a kernel_scheme)
      \<Rightarrow> nat \<Rightarrow> nat \<Rightarrow> 'a kernel_scheme \<Rightarrow> 'a kernel_scheme option"
      and run irq i k s s'
    assume hyp: "\<And>run irq i k s s'. f run irq i k s = Some s' \<Longrightarrow> run_framed K run \<longrightarrow> (\<forall>k s. gframe K s (irq k s)) \<longrightarrow> gframe K s s'"
      and body: "(if used (g_tasks s i) \<and> (state (g_tasks s i) = T_BLOCKED \<or> state (g_tasks s i) = T_SLEEPING)
         then f run irq i (Suc k) (sched_pump_once run (irq k s)) else Some s) = Some s'"
    show "run_framed K run \<longrightarrow> (\<forall>k s. gframe K s (irq k s)) \<longrightarrow> gframe K s s'"
    proof (intro impI)
      assume r: "run_framed K run" "\<forall>k s. gframe K s (irq k s)"
      then have p: "gframe K s (sched_pump_once run (irq k s))" using kframe_trans [OF _ pump_frame [OF r(1)]] by blast
      have "s' = s \<or> f run irq i (Suc k) (sched_pump_once run (irq k s)) = Some s'" using body by (auto split: if_splits)
      then show "gframe K s s'" using hyp r kframe_trans [OF p] by auto
    qed
  qed
  then show ?thesis using assms by blast
qed

lemma block_frame:
  assumes "sched_block_until_runnable run irq s = Some s'" "run_framed K run" "\<forall>k s. gframe K s (irq k s)"
  shows "gframe K s s'"
  using assms(1) block_loop_frame [OF _ assms(2,3)]
  by (auto simp: sched_block_until_runnable_def split: option.splits if_splits)

lemma io_wait_frame:
  assumes "io_wait run irq tm rem w s = Some s'" "run_framed K run" "\<forall>k s. gframe K s (irq k s)"
  shows "gframe K s s'"
proof (cases w)
  case True
  obtain rc u where u: "console_wait_readable (if 0 < tm then rem else 0) False s = (rc, u)"
    by (cases "console_wait_readable (if 0 < tm then rem else 0) False s")
  then have su: "gframe K s u" using kframe_console(3) [of K s "if 0 < tm then rem else 0" False] by simp
  have "s' = u \<or> sched_block_until_runnable run irq u = Some s'"
    using assms(1) True u by (auto simp: io_wait_def split: if_splits)
  then show ?thesis using su block_frame [OF _ assms(2,3)] kframe_trans [OF su] by auto
next
  case False
  let ?u = "sched_sleep_ticks (if tm < 0 then 1 else if rem \<noteq> 0 then rem else 1) s"
  have "sched_block_until_runnable run irq ?u = Some s'" using assms(1) False by (simp add: io_wait_def)
  then show ?thesis using block_frame [OF _ assms(2,3)] kframe_trans [OF kframe_ops(2)] by blast
qed

lemma poll_scan_frame:
  "\<forall>i \<in> set js. clear_of K (addr + i * 8) 8 \<Longrightarrow>
   case poll_scan addr js ready w s of Inl s' \<Rightarrow> gframe K s s' | Inr (ready', w', s') \<Rightarrow> gframe K s s'"
proof (induction js arbitrary: ready w s)
  case (Cons i js)
  show ?case
  proof (cases "abi_user_read_bytes (addr + i * 8) 8 s")
    case (Some pfd)
    have len: "length pfd = 8" using Some by (auto simp: abi_user_read_bytes_def split: if_splits)
    obtain rv w2 where pr: "poll_revents (sint (le32 (pfd ! 0) (pfd ! 1) (pfd ! 2) (pfd ! 3)))
        (ucast (pfd ! 4) OR push_bit 8 (ucast (pfd ! 5))) s = (rv, w2)" by fastforce
    let ?bs = "take 6 pfd @ [ucast rv, ucast (drop_bit 8 rv)]"
    show ?thesis
    proof (cases "abi_user_write_bytes (addr + i * 8) ?bs s")
      case None
      then show ?thesis using Some pr by (simp add: Let_def)
    next
      case (Some u)
      have "length ?bs < 2 ^ 32" using len by simp
      then have "gframe K s u" using kframe_stores(2) [OF Some] Cons.prems len by simp
      then show ?thesis
        using Cons.prems Cons.IH [where ready = "if rv \<noteq> 0 then ready + 1 else ready" and w = "w \<or> w2" and s = u] Some \<open>abi_user_read_bytes _ _ _ = _\<close> pr
        by (auto simp: Let_def split: sum.splits prod.splits elim: kframe_trans)
    qed
  qed simp
qed simp

lemma waitpid_loop_frame:
  assumes "waitpid_loop tick k pid opt sa s = Some r"
  shows "(\<forall>k s. gframe K s (tick k s)) \<and> (sa \<noteq> 0 \<longrightarrow> clear_of K sa 4) \<longrightarrow> gframe K s (res_state r)"
proof (rule waitpid_loop.raw_induct [OF _ assms], goal_cases)
  case (1 f tick k pid opt sa s r)
  obtain rc st u where u: "sched_waitpid pid (if opt AND 1 \<noteq> 0 then 1 else 0) s = (rc, st, u)"
    by (cases "sched_waitpid pid (if opt AND 1 \<noteq> 0 then 1 else 0) s")
  then have su: "gframe K s u" using kframe_ops(4) [of K s pid "if opt AND 1 \<noteq> 0 then 1 else 0"] by simp
  show ?case
  proof
    assume t: "(\<forall>k s. gframe K s (tick k s)) \<and> (sa \<noteq> 0 \<longrightarrow> clear_of K sa 4)"
    then have tk: "gframe K s (tick k u)" using kframe_trans [OF su] by blast
    show "gframe K s (res_state r)"
      using 1(2) u su kframe_trans [OF su kframe_stores(1)] kframe_trans [OF tk] 1(1) t
      by (auto split: if_splits option.splits)
  qed
qed

lemma poll_sleep_frame:
  assumes "poll_sleep_loop run irq n tm tt st s = Some r"
  shows "run_framed K run \<and> (\<forall>n k s. gframe K s (irq n k s)) \<longrightarrow> gframe K s (res_state r)"
proof (rule poll_sleep_loop.raw_induct [OF _ assms], goal_cases)
  case (1 f run irq n tm tt st s r)
  show ?case
  proof
    assume f: "run_framed K run \<and> (\<forall>n k s. gframe K s (irq n k s))"
    then have b: "gframe K s u" if "sched_block_until_runnable run (irq n) (sched_sleep_ticks x s) = Some u" for u x
      using kframe_trans [OF kframe_ops(2) block_frame [OF that]] by blast
    have ih: "gframe K u (res_state r)" if "f run irq (Suc n) tm tt st u = Some r" for u using 1(1) [OF that] f by blast
    show "gframe K s (res_state r)"
      using 1(2) kframe_trans [OF b ih] by (auto split: option.splits simp: bind_eq_Some_conv)
  qed
qed

lemma poll_loop_frame:
  assumes "poll_loop run irq n addr nfds tm tt st s = Some r"
  shows "run_framed K run \<and> (\<forall>n k s. gframe K s (irq n k s)) \<and> clear_of K addr (8 * unat nfds) \<longrightarrow> gframe K s (res_state r)"
proof (rule poll_loop.raw_induct [OF _ assms], goal_cases)
  case (1 f run irq n addr nfds tm tt st s r)
  note scan = poll_scan_frame [where addr = addr and js = "map of_nat [0..<unat nfds]" and ready = 0 and w = False and s = s]
  show ?case
  proof
    assume f: "run_framed K run \<and> (\<forall>n k s. gframe K s (irq n k s)) \<and> clear_of K addr (8 * unat nfds)"
    have "clear_of K (addr + of_nat j * 8) 8" if "j < unat nfds" for j
      using clear_of_sub [of K addr "8 * unat nfds" "8 * j" 8] f that by (simp add: mult.commute)
    then have sc: "case poll_scan addr (map of_nat [0..<unat nfds]) 0 False s of Inl s' \<Rightarrow> gframe K s s' | Inr (ready', w', s') \<Rightarrow> gframe K s s'"
      by (intro scan) auto
    have b: "gframe K s v" if "io_wait run (irq n) tm rem w u = Some v" "gframe K s u" for u v rem w
      using kframe_trans [OF that(2) io_wait_frame [OF that(1)]] f by blast
    have ih: "gframe K u (res_state r)" if "f run irq (Suc n) addr nfds tm tt st u = Some r" for u using 1(1) [OF that] f by blast
    show "gframe K s (res_state r)"
      using 1(2) sc kframe_trans [OF b ih]
      by (auto split: option.splits sum.splits prod.splits if_splits simp: bind_eq_Some_conv)
  qed
qed

abbreviation (input) set_clear :: "u32 set \<Rightarrow> u32 \<Rightarrow> bool" where
  "set_clear K a \<equiv> a \<noteq> 0 \<longrightarrow> clear_of K a 4"

lemma put_sets_frame:
  assumes "set_clear K ra" "set_clear K wa" "set_clear K ea"
  shows "case put_sets ra wa ea r w s of Inl s' \<Rightarrow> gframe K s s' | Inr s' \<Rightarrow> gframe K s s'"
proof -
  have p: "gframe K s u" if "put_set a x s = Some u" "set_clear K a" for a x u and s :: "'a kernel_scheme"
    using that kframe_stores(1) by (auto simp: put_set_def split: if_splits)
  note q = p [OF _ assms(1)] p [OF _ assms(2)] p [OF _ assms(3)]
  show ?thesis
    using kframe_trans [OF q(1) q(2)] kframe_trans [OF kframe_trans [OF q(1) q(2)] q(3)] q(1)
    by (auto simp: put_sets_def split: option.splits)
qed

lemma select_loop_frame:
  assumes "select_loop run irq n nfds addrs ins tm tt st s = Some r"
  shows "run_framed K run \<and> (\<forall>n k s. gframe K s (irq n k s))
    \<and> (case addrs of (ra, wa, ea) \<Rightarrow> set_clear K ra \<and> set_clear K wa \<and> set_clear K ea) \<longrightarrow> gframe K s (res_state r)"
proof (rule select_loop.raw_induct [OF _ assms], goal_cases)
  case (1 f run irq n nfds addrs ins tm tt st s r)
  obtain ra wa ea where addrs: "addrs = (ra, wa, ea)" by (cases addrs)
  obtain inr inw ine where ins: "ins = (inr, inw, ine)" by (cases ins)
  show ?case
  proof
    assume f: "run_framed K run \<and> (\<forall>n k s. gframe K s (irq n k s))
      \<and> (case addrs of (ra, wa, ea) \<Rightarrow> set_clear K ra \<and> set_clear K wa \<and> set_clear K ea)"
    have p: "case put_sets ra wa ea x y s of Inl s' \<Rightarrow> gframe K s s' | Inr s' \<Rightarrow> gframe K s s'" for x y
      using f by (intro put_sets_frame) (simp_all add: addrs)
    have b: "gframe K s v" if "io_wait run (irq n) tm rem w u = Some v" "gframe K s u" for u v rem w
      using kframe_trans [OF that(2) io_wait_frame [OF that(1)]] f by blast
    have ih: "gframe K u (res_state r)" if "f run irq (Suc n) nfds addrs ins tm tt st u = Some r" for u
      using 1(1) [OF that] f by blast
    show "gframe K s (res_state r)"
    proof (cases "select_scan [0..<unat nfds] inr inw ine 0 0 False s")
      case None
      then show ?thesis using 1(2) by (auto simp: addrs ins)
    next
      case (Some q)
      obtain orr ow w where q: "q = (orr, ow, w)" by (cases q)
      show ?thesis
      proof (cases "put_sets ra wa ea orr ow s")
        case (Inl u)
        then show ?thesis using 1(2) Some q p [of orr ow] by (auto simp: addrs ins)
      next
        case (Inr u)
        then have "gframe K s u" using p [of orr ow] by simp
        then show ?thesis
          using 1(2) Some q Inr kframe_trans [OF b ih]
          by (auto simp: addrs ins Let_def bind_eq_Some_conv split: option.splits if_splits)
      qed
    qed
  qed
qed

section \<open>Every call\<close>

lemma fd_result_frame: "gframe K s (snd x) \<Longrightarrow> gframe K s (res_state (fd_result x))" "gframe K s (snd x) \<Longrightarrow> gframe K s (res_state (zero_result x))"
  by (auto simp: fd_result_def zero_result_def case_prod_unfold)

lemma flags_result_frame: "gframe K s (res_state (flags_result x s))"
  by (simp add: flags_result_def case_prod_unfold)

lemma fd_cases_frame:
  "gframe K s (res_state (sys_close a s))" "gframe K s (res_state (sys_dup a s))" "gframe K s (res_state (sys_dup2 a b s))"
  "gframe K s (res_state (sys_fcntl a cmd arg s))" "gframe K s (res_state (sys_open a b s))" "gframe K s (res_state (sys_socket a b s))"
  "gframe K s (res_state (sys_socket_op n a s))"
  using kframe_ops
  by (auto simp: sys_close_def sys_dup_def sys_dup2_def sys_fcntl_def sys_open_def sys_socket_def sys_socket_op_def Let_def
      case_prod_unfold intro!: fd_result_frame flags_result_frame split: option.split)

lemma io_cases_frame:
  "b \<noteq> 0 \<longrightarrow> clear_of K b (unat n) \<Longrightarrow> gframe K s (res_state (sys_read a b n fl s))" "gframe K s (res_state (sys_write a b n s))"
  by (simp_all add: sys_read_def sys_write_def Let_def zero_chunks_frame read_chunks_frame write_chunks_frame)

lemma nanosleep_frame: "b \<noteq> 0 \<longrightarrow> clear_of K b 8 \<Longrightarrow> gframe K s (res_state (sys_nanosleep a b s))"
proof -
  assume c: "b \<noteq> 0 \<longrightarrow> clear_of K b 8"
  have "gframe K s (sched_sleep_ticks n u)" if "abi_user_write_timespec_zero b s = Some u" for u n
    using kframe_trans [OF kframe_stores(4) [OF that c] kframe_ops(2)] .
  then show ?thesis using kframe_stores(4) [OF _ c] by (auto simp: sys_nanosleep_def Let_def split: option.splits)
qed

lemma clock_cases_frame:
  "gframe K s (res_state (sys_tty_getmode a s))" "gframe K s (res_state (sys_tty_setmode a lf s))"
  "b \<noteq> 0 \<longrightarrow> clear_of K b 8 \<Longrightarrow> gframe K s (res_state (sys_clock_getres a b s))"
  "b \<noteq> 0 \<longrightarrow> clear_of K b 8 \<Longrightarrow> gframe K s (res_state (sys_clock_gettime a b s))"
  "gframe K s (res_state (sys_clock_settime a b s))"
  using kframe_console(2) [of K s lf] kframe_stores(3)
  by (auto simp: sys_tty_getmode_def sys_tty_setmode_def sys_clock_getres_def sys_clock_gettime_def sys_clock_settime_def
      case_prod_unfold Let_def intro: kframe_same split: option.splits)

lemma gettimeofday_frame:
  assumes "a \<noteq> 0 \<longrightarrow> clear_of K a 8" "b \<noteq> 0 \<longrightarrow> clear_of K b 8"
  shows "gframe K s (res_state (sys_gettimeofday a b s))"
proof (cases "a = 0")
  case False
  have v: "gframe K s u" if "abi_user_write_timeval a tv s = Some u" for tv u
    using kframe_stores(5) [OF that] assms(1) False by simp
  have z: "gframe K u w" if "abi_user_write32 (b + 0) 0 u = Some w" "b \<noteq> 0" for u w :: "'a kernel_scheme"
    using kframe_stores(1) [OF that(1)] clear_of_sub [of K b 8 0 4] assms(2) that(2) by simp
  have y: "gframe K u w" if "abi_user_write32 (b + 4) 0 u = Some w" "b \<noteq> 0" for u w :: "'a kernel_scheme"
    using kframe_stores(1) [OF that(1)] clear_of_sub [of K b 8 4 4] assms(2) that(2) by simp
  show ?thesis
    using v kframe_trans [OF v z] kframe_trans [OF kframe_trans [OF v z] y]
    by (auto simp: sys_gettimeofday_def Let_def False simp del: add_0_right split: option.split)
qed (simp add: sys_gettimeofday_def)

text \<open>The buffers that the arguments of a call name and the call may write: address and length. A null pointer names none.\<close>

definition call_buffers :: "syscall_regs \<Rightarrow> (u32 \<times> nat) list" where
  "call_buffers r =
     filter (\<lambda>(a, n). a \<noteq> 0)
       (if nr r = 4 then [(arg1 r, 4)]
        else if nr r = 5 then [(arg1 r, 8)]
        else if nr r = 6 then [(arg1 r, unat (arg2 r))]
        else if nr r = 8 then [(arg0 r, 8 * unat (arg1 r))]
        else if nr r = 9 then [(arg1 r, 4), (arg2 r, 4), (arg3 r, 4)]
        else if nr r = 12 \<or> nr r = 14 then [(arg1 r, 8)]
        else if nr r = 13 then [(arg0 r, 8), (arg1 r, 8)]
        else [])"

lemma syscall_case_frame:
  assumes "run_framed K run" "\<forall>n k s. gframe K s (irq n k s)" "syscall_case run irq r s = Some res"
    "\<forall>(a, n) \<in> set (call_buffers r). clear_of K a n"
  shows "gframe K s (res_state res)"
proof -
  note bufs = assms(4) [unfolded call_buffers_def]
  have ps: "gframe K s (res_state res)" if "poll_sleep_loop run irq n tm tt st s = Some res" for n tm tt st
    using poll_sleep_frame [OF that] assms(1,2) by blast
  have pl: "gframe K s (res_state res)" if "poll_loop run irq n ad nf tm tt st s = Some res" "clear_of K ad (8 * unat nf)" for n ad nf tm tt st
    using poll_loop_frame [OF that(1)] that(2) assms(1,2) by blast
  have wl: "gframe K s (res_state res)" if "waitpid_loop (irq 0) k pid opt sa s = Some res" "set_clear K sa" for k pid opt sa
    using waitpid_loop_frame [OF that(1)] that(2) assms(2) by blast
  have w: "gframe K s (res_state res)" if "sys_waitpid (irq 0) a b c s = Some res" "set_clear K b" for a b c
    using that wl unfolding sys_waitpid_def Let_def by (auto split: if_splits)
  have p: "gframe K s (res_state res)" if "sys_poll run irq a b c s = Some res" "a \<noteq> 0 \<longrightarrow> clear_of K a (8 * unat b)" for a b c
    using that ps pl unfolding sys_poll_def Let_def by (auto split: if_splits)
  have se: "gframe K s (res_state res)" if "select_loop run irq n nf (x, y, z) ins tm tt st s = Some res" "set_clear K x" "set_clear K y" "set_clear K z" for n nf x y z ins tm tt st
    using select_loop_frame [OF that(1)] that(2-) assms(1,2) by auto
  have sl: "gframe K s (res_state res)" if "sys_select run irq a b c d e s = Some res" "set_clear K b" "set_clear K c" "set_clear K d" for a b c d e
    using that(1) se [OF _ that(2-)] unfolding sys_select_def Let_def by (auto split: if_splits option.splits)
  note simple = fd_cases_frame io_cases_frame(2) clock_cases_frame(1,2,5) kframe_ops(1-3)
  consider "nr r = 4" | "nr r = 5" | "nr r = 6" | "nr r = 8" | "nr r = 9" | "nr r = 12" | "nr r = 13" | "nr r = 14"
    | "nr r \<noteq> 4" "nr r \<noteq> 5" "nr r \<noteq> 6" "nr r \<noteq> 8" "nr r \<noteq> 9" "nr r \<noteq> 12" "nr r \<noteq> 13" "nr r \<noteq> 14" by blast
  then show ?thesis
  proof cases
    case 1
    then show ?thesis using assms(3) bufs w by (auto simp: syscall_case_def split: if_splits)
  next
    case 2
    then show ?thesis using assms(3) bufs nanosleep_frame by (auto simp: syscall_case_def split: if_splits)
  next
    case 3
    then show ?thesis using assms(3) bufs io_cases_frame(1) [of "arg1 r" K "arg2 r" s "arg0 r" "arg3 r"] by (auto simp: syscall_case_def split: if_splits)
  next
    case 4
    then show ?thesis using assms(3) bufs p by (auto simp: syscall_case_def split: if_splits)
  next
    case 5
    then show ?thesis using assms(3) bufs sl by (auto simp: syscall_case_def split: if_splits)
  next
    case 6
    then show ?thesis using assms(3) bufs clock_cases_frame(4) by (auto simp: syscall_case_def split: if_splits)
  next
    case 7
    then show ?thesis using assms(3) bufs gettimeofday_frame by (auto simp: syscall_case_def split: if_splits)
  next
    case 8
    then show ?thesis using assms(3) bufs clock_cases_frame(3) by (auto simp: syscall_case_def split: if_splits)
  next
    case 9
    then show ?thesis using assms(3) simple by (auto simp: syscall_case_def split: if_splits)
  qed
qed

section \<open>The interrupt handlers\<close>

text \<open>The work of the kernel's own handlers keeps the contract: a tick of the timer, and a byte of the serial line.\<close>

lemma tick_frame: "gframe K s (schedule_tick s)" for s :: "'a kernel_scheme"
proof (rule kframe_sched)
  have "sched.more (fold (wake_sleeper t) xs u) = sched.more u" for t xs and u :: "'a kernel_scheme"
    by (rule fold_more) (simp add: wake_sleeper_def Let_def)
  then show "sched.more (schedule_tick s) = sched.more s"
    by (simp add: schedule_tick_def sched_try_wake_sleepers_def Let_def)
qed (rule tick_ok)

lemma echo_frame:
  "gframe K s (console_echo_data_char c s)" "gframe K s (console_echo_backspace s)" "gframe K s (console_echo_intr s)"
  "gframe K s (snd (console_rx_pop_last_editable s))" for s :: "'a kernel_scheme"
  by (rule kframe_same; simp add: console_echo_data_char_def console_echo_backspace_def console_echo_intr_def
      console_rx_pop_last_editable_def fb_putc_def Let_def)+

lemma enqueue_frame: "gframe K s (console_rx_enqueue_char c e s)" for s :: "'a kernel_scheme"
proof -
  have w: "gframe K u (sched_waitq_wake_one Rx_waitq u)" for u :: "'a kernel_scheme"
    by (rule kframe_sched [OF _ wake_one_ok]) (simp_all add: sched_waitq_wake_one_def sched_wake_slot_def Let_def split: option.split)
  have "gframe K s u" if "u = s\<lparr>g_rx_head := a, g_rx_buf := b\<rparr> \<or> u = s\<lparr>g_rx_head := a, g_rx_buf := b, g_rx_lines := l\<rparr>
      \<or> u = s\<lparr>g_rx_head := a, g_rx_buf := b, g_rx_eofs := l\<rparr>" for u a b l
    using that by (elim disjE) (auto intro: kframe_same)
  note f = this
  have d: "gframe K s (s\<lparr>g_rx_dropped := x\<rparr>)" for x by (rule kframe_same) simp_all
  show ?thesis unfolding console_rx_enqueue_char_def Let_def
    by (auto intro!: d kframe_trans [OF _ w] kframe_trans [OF _ echo_frame(1)] intro: f)
qed

lemma kill_frame:
  fixes s :: "'a kernel_scheme"
  assumes "kill_loop s = Some s'"
  shows "gframe K s s'"
proof (rule kill_loop.raw_induct [OF _ assms], goal_cases)
  case (1 g s s')
  obtain b u where u: "console_rx_pop_last_editable s = (b, u)" by (cases "console_rx_pop_last_editable s")
  then have "gframe K s u" using echo_frame(4) [of K s] by simp
  then show ?case using 1 u kframe_trans [OF kframe_trans [OF _ echo_frame(2)], of K s u] by (auto split: if_splits)
qed

lemma feed_frame: "console_rx_feed c s = Some s' \<Longrightarrow> gframe K s s'" for s :: "'a kernel_scheme"
  using echo_frame(4) [of K s] kframe_trans [OF echo_frame(4) echo_frame(2)]
    kframe_trans [OF kframe_trans [OF kill_frame echo_frame(3)] enqueue_frame]
  by (auto simp: console_rx_feed_def Let_def case_prod_unfold intro: kill_frame enqueue_frame split: if_splits)

section \<open>Properties\<close>

text \<open>C3: \<open>K\<close> is memory that holds the kernel's own data, apart from the mailbox. A system call whose arguments name no buffer
  in \<open>K\<close> writes no byte of \<open>K\<close> and none at or beyond the end of RAM, so the variables of the kernel keep the values that the model gives them, and
  the scheduler's invariant is kept; the tasks that run while the call blocks and the interrupts are taken to keep the
  same contract, which the kernel's timer and serial handlers do (\<open>tick_frame\<close>, \<open>feed_frame\<close>). The condition on the buffers is needed: the range check accepts every address of RAM, and so the kernel's own data.\<close>

theorem syscalls_keep_kernel_safe:
  assumes "\<forall>e i ar s. gframe K s (run e i ar s)" "\<forall>n k s. gframe K s (irq n k s)"
    "clear_of K SYSCALL_ABI_ADDR 48" "\<forall>r. rg = Some r \<longrightarrow> (\<forall>(a, n) \<in> set (call_buffers r). clear_of K a n)"
    "syscall_dispatch run irq rg s = Some (ret, s')"
  shows "(sched_ok s \<longrightarrow> sched_ok s') \<and> (\<forall>a \<in> K. umem s' a = umem s a) \<and> (\<forall>a. KERNEL_MEM_SIZE \<le> a \<longrightarrow> umem s' a = umem s a)"
proof -
  have "gframe K s s'"
  proof (cases rg)
    case None
    then show ?thesis using assms(5) kframe_publish [OF assms(3)] by (auto simp: syscall_dispatch_def)
  next
    case (Some r)
    then obtain res where "syscall_case run irq r s = Some res" "s' = publish_result (Some r) (fst res) (fst (snd res)) (res_state res)"
      using assms(5) by (auto simp: syscall_dispatch_def)
    then show ?thesis using kframe_trans [OF syscall_case_frame [OF assms(1,2)] kframe_publish [OF assms(3)]] assms(4) Some by simp
  qed
  then show ?thesis by (simp add: gframe_def)
qed

text \<open>The kernel with one running task.\<close>

definition demo_kernel :: kernel where
  "demo_kernel = sched.extend (demo_sched 100)
     \<lparr>g_rx_head = 0, g_rx_tail = 0, g_rx_dropped = 0, g_rx_lines = 0, g_rx_eofs = 0, g_tty_lflag = 7, g_rx_buf = \<lambda>_. 0,
      screen = screen demo_console, umem = \<lambda>_. 0, g_realtime_offset_neg = False, g_realtime_offset_mag_ns = 0,
      time_regs = \<lambda>_. 0\<rparr>"

lemma demo_kernel_ok: "sched_ok demo_kernel"
  using demo_sched_slots(7) [of 100] by (simp add: demo_kernel_def sched_ok_def sched.defs)

lemma clear_below:
  assumes "unat a + n \<le> 67108864" "unat a + n \<le> unat lo \<or> hi \<le> unat a"
  shows "clear_of {b. lo \<le> b \<and> unat b < hi} a n"
  unfolding clear_of_def
proof (intro allI impI notI)
  fix i assume i: "i < n" "a + of_nat i \<in> {b. lo \<le> b \<and> unat b < hi}"
  then have "unat (a + of_nat i) = unat a + i" using unat_add_small [of a i] assms(1) by simp
  then show False using i assms(2) by (auto simp: word_le_nat_alt)
qed

text \<open>The time is written to 0x5000, and nothing into a megabyte at 0x100000.\<close>

theorem syscalls_keep_kernel_safe_witness:
  "\<exists>ret s'. syscall_dispatch (\<lambda>e i ar. sched_yield) (\<lambda>n k. schedule_tick)
       (Some \<lparr>nr = 12, arg0 = 1, arg1 = 0x5000, arg2 = 0, arg3 = 0, arg4 = 0, arg5 = 0\<rparr>) demo_kernel = Some (ret, s') \<and> sched_ok s'
     \<and> (\<forall>a \<in> {a. 0x100000 \<le> a \<and> unat a < 0x200000}. umem s' a = umem demo_kernel a)"
proof -
  let ?r = "\<lparr>nr = 12, arg0 = 1, arg1 = 0x5000, arg2 = 0, arg3 = 0, arg4 = 0, arg5 = 0\<rparr>"
  let ?K = "{a :: u32. 0x100000 \<le> a \<and> unat a < 0x200000}"
  obtain ret s' where s': "syscall_dispatch (\<lambda>e i ar. sched_yield) (\<lambda>n k. schedule_tick) (Some ?r) demo_kernel = Some (ret, s')"
    by (simp add: syscall_dispatch_def syscall_case_def case_prod_unfold)
  have "clear_of ?K SYSCALL_ABI_ADDR 48" "clear_of ?K 0x5000 8" by (rule clear_below; simp)+
  then show ?thesis
    using syscalls_keep_kernel_safe [where run = "\<lambda>e i ar. sched_yield" and irq = "\<lambda>n k. schedule_tick" and rg = "Some ?r" and K = ?K, OF _ _ _ _ s'] s' demo_kernel_ok
    by (simp add: call_buffers_def kframe_ops(1) tick_frame)
qed

end
