(* ===== verification/Stack.thy ===== *)
theory Stack
  imports Memory
begin

text \<open>
  The three guest stacks of \<open>stack.h\<close>: data (32-bit entries), call and interrupt
  (64-bit entries). Each grows downwards inside a 256-entry region of guest RAM
  whose base and index live in the core.

  \<open>lifo\<close> is the interface the rest of the machine relies on: pushes and pops act on
  an abstract list, a full stack and an empty stack panic. \<open>stack64\<close> derives it
  once for both 64-bit stacks; the interpretations \<open>data\<close>, \<open>call\<close> and \<open>isr\<close> give it
  for the model.
\<close>

section \<open>Operations\<close>

definition data_push :: "nat \<Rightarrow> u32 \<Rightarrow> vm \<Rightarrow> vm_error + vm" where
  "data_push c val v =
     (if dsp (cpus v c) = 0 then Inl (Panic_stack ''Data stack overflow'')
      else let v = upd_cpu c (\<lambda>r. r\<lparr>dsp := dsp r - 1\<rparr>) v in
        vm_write32 v (data_stack_base (cpus v c) + of_int (dsp (cpus v c) * 4)) val)"

definition data_pop :: "host \<Rightarrow> nat \<Rightarrow> vm \<Rightarrow> vm_error + u32 \<times> vm" where
  "data_pop h c v =
     (if dsp (cpus v c) \<ge> DATA_STACK_SIZE then Inl (Panic_stack ''Data stack underflow'')
      else bind_res (vm_read32 h v (data_stack_base (cpus v c) + of_int (dsp (cpus v c) * 4)))
        (\<lambda>(val, v). Inr (val, upd_cpu c (\<lambda>r. r\<lparr>dsp := dsp r + 1\<rparr>) v)))"

definition call_push :: "nat \<Rightarrow> u64 \<Rightarrow> vm \<Rightarrow> vm_error + vm" where
  "call_push c val v =
     (if csp (cpus v c) = 0 then Inl (Panic_stack ''Call stack overflow'')
      else let v = upd_cpu c (\<lambda>r. r\<lparr>csp := csp r - 1\<rparr>) v in
        vm_write64 v (call_stack_base (cpus v c) + of_int (csp (cpus v c) * 8)) val)"

definition call_pop :: "host \<Rightarrow> nat \<Rightarrow> vm \<Rightarrow> vm_error + u64 \<times> vm" where
  "call_pop h c v =
     (if csp (cpus v c) \<ge> CALL_STACK_SIZE then Inl (Panic_stack ''Call stack underflow'')
      else bind_res (vm_read64 h v (call_stack_base (cpus v c) + of_int (csp (cpus v c) * 8)))
        (\<lambda>(val, v). Inr (val, upd_cpu c (\<lambda>r. r\<lparr>csp := csp r + 1\<rparr>) v)))"

definition isr_push :: "nat \<Rightarrow> u64 \<Rightarrow> vm \<Rightarrow> vm_error + vm" where
  "isr_push c val v =
     (if isp (cpus v c) = 0 then Inl (Panic_stack ''Interrupt stack overflow'')
      else let v = upd_cpu c (\<lambda>r. r\<lparr>isp := isp r - 1\<rparr>) v in
        vm_write64 v (isr_stack_base (cpus v c) + of_int (isp (cpus v c) * 8)) val)"

definition isr_pop :: "host \<Rightarrow> nat \<Rightarrow> vm \<Rightarrow> vm_error + u64 \<times> vm" where
  "isr_pop h c v =
     (if isp (cpus v c) \<ge> ISR_STACK_SIZE then Inl (Panic_stack ''Interrupt stack underflow'')
      else bind_res (vm_read64 h v (isr_stack_base (cpus v c) + of_int (isp (cpus v c) * 8)))
        (\<lambda>(val, v). Inr (val, upd_cpu c (\<lambda>r. r\<lparr>isp := isp r + 1\<rparr>) v)))"

section \<open>Stack regions\<close>

definition region_free :: "vm \<Rightarrow> u32 \<Rightarrow> nat \<Rightarrow> bool" where
  "region_free v a n \<longleftrightarrow>
     unat a + n \<le> memory_size v \<and> unat a + n \<le> 2 ^ 32
     \<and> list_all (\<lambda>d. unat (dev_end d) < unat a \<or> unat a + n \<le> unat (dev_start d)) (mmio_devices v)"

definition stack_ok :: "vm \<Rightarrow> u32 \<Rightarrow> int \<Rightarrow> nat \<Rightarrow> bool" where
  "stack_ok v base sp width \<longleftrightarrow>
     bus_ok v \<and> 0 \<le> sp \<and> sp \<le> 256 \<and> region_free v base (256 * width)"

definition load64 :: "(u32 \<Rightarrow> u8) \<Rightarrow> u32 \<Rightarrow> u64" where
  "load64 m a = join64 (load32 m a) (load32 m (a + 4))"

lemma region_free_dev:
  assumes "region_free v a n" "unat a \<le> unat b" "unat b < unat a + n"
  shows "dev_at v b = None"
  using assms
  by (auto simp: region_free_def dev_at_def find_None_iff dev_covers_def list_all_iff word_le_nat_alt
      dest!: bspec)

lemma region_free_cong:
  "memory_size w = memory_size v \<Longrightarrow> mmio_devices w = mmio_devices v
   \<Longrightarrow> region_free w a n = region_free v a n"
  by (simp add: region_free_def)

text \<open>Entry \<open>i\<close> of a region with entries of \<open>k\<close> bytes.\<close>

lemma slot_addr:
  assumes "region_free v a (256 * k)" "i < 256"
  shows "unat (a + of_nat (i * k)) = unat a + i * k"
proof (cases "k = 0")
  case False
  have "i * k < 256 * k" using assms(2) False by (intro mult_strict_right_mono) auto
  then have "unat a + i * k < 2 ^ 32" using assms(1) unfolding region_free_def by linarith
  then have "unat (of_nat (i * k) :: u32) = i * k" by (simp only: unat_of_nat) simp
  then show ?thesis using \<open>unat a + i * k < 2 ^ 32\<close> unat_plus_small [of a "of_nat (i * k)"] by simp
qed simp

lemma slots_apart:
  assumes "i \<noteq> j"
  shows "i * k + k \<le> j * k \<or> j * k + k \<le> (i :: nat) * k"
proof -
  from assms have "Suc i \<le> j \<or> Suc j \<le> i" by linarith
  then have "Suc i * k \<le> j * k \<or> Suc j * k \<le> i * k" by (meson mult_le_mono1)
  then show ?thesis by (simp add: add.commute)
qed

lemma slot_below: "i < 256 \<Longrightarrow> i * k + k \<le> 256 * (k :: nat)"
  using mult_le_mono1 [of "Suc i" 256 k] by simp

lemma slot_region:
  assumes "region_free v a (256 * k)" "i < 256"
  shows "region_free v (a + of_nat (i * k)) k"
  unfolding region_free_def slot_addr [OF assms]
proof (intro conjI)
  show "unat a + i * k + k \<le> memory_size v" "unat a + i * k + k \<le> 2 ^ 32"
    using assms(1) slot_below [OF assms(2), of k] unfolding region_free_def by linarith+
  have "unat (dev_end d) < unat a + i * k \<or> unat a + i * k + k \<le> unat (dev_start d)"
    if "unat (dev_end d) < unat a \<or> unat a + 256 * k \<le> unat (dev_start d)" for d :: mmio_device
    using that slot_below [OF assms(2), of k] by linarith
  then show "list_all (\<lambda>d. unat (dev_end d) < unat a + i * k
                         \<or> unat a + i * k + k \<le> unat (dev_start d)) (mmio_devices v)"
    using assms(1) unfolding region_free_def list_all_iff by blast
qed

lemma load64_store64 [simp]: "load64 (store64 m a x) a = x"
  by (simp add: load64_def)

lemma load64_store64_other:
  assumes "unat a + 8 \<le> 2 ^ 32" "unat b + 8 \<le> 2 ^ 32"
    and "unat b + 8 \<le> unat a \<or> unat a + 8 \<le> unat b"
  shows "load64 (store64 m a x) b = load64 m b"
proof -
  have other: "store64 m a x (b + i) = m (b + i)" if "unat i < 8" for i
  proof -
    have "unat (b + i) = unat b + unat i" using assms(2) that by (intro unat_plus_small) simp
    with assms(3) that show ?thesis by (intro store64_other [OF assms(1)]) auto
  qed
  have "load32 (store64 m a x) b = load32 m b" by (rule load32_cong) (simp add: other)
  moreover have "load32 (store64 m a x) (b + 4) = load32 m (b + 4)"
  proof (rule load32_cong)
    fix i :: u32
    assume "unat i < 4"
    then have "unat (4 + i) < 8" using unat_plus_small [of 4 i] by simp
    from other [OF this] show "store64 m a x (b + 4 + i) = m (b + 4 + i)"
      by (simp add: add.assoc)
  qed
  ultimately show ?thesis by (simp add: load64_def)
qed

section \<open>Cells of guest RAM\<close>

text \<open>
  An access pair of the memory API on plain RAM: what the stacks rely on. The
  provider is \<open>memory.c\<close>, interpreted for its 32-bit and 64-bit accesses.
\<close>

locale ram_cell =
  fixes rd :: "host \<Rightarrow> vm \<Rightarrow> u32 \<Rightarrow> vm_error + 'a \<times> vm"
    and wr :: "vm \<Rightarrow> u32 \<Rightarrow> 'a \<Rightarrow> vm_error + vm"
    and ld :: "(u32 \<Rightarrow> u8) \<Rightarrow> u32 \<Rightarrow> 'a"
    and st :: "(u32 \<Rightarrow> u8) \<Rightarrow> u32 \<Rightarrow> 'a \<Rightarrow> (u32 \<Rightarrow> u8)"
    and wc :: "vm \<Rightarrow> mmio_device option"
    and width :: nat
  assumes rd_ram: "bus_ok v \<Longrightarrow> region_free v a width \<Longrightarrow> rd h v a = Inr (ld (memory v) a, nocache v)"
    and wr_ram: "bus_ok v \<Longrightarrow> region_free v a width 
      \<Longrightarrow> wr v a x = Inr (v\<lparr>mmio_cache_dev := wc v, memory := st (memory v) a x\<rparr>)"
    and wc: "wc v = None \<or> wc v = mmio_cache_dev v"
    and ld_st: "ld (st m a x) a = x"
    and ld_st_other: "unat a + width \<le> 2 ^ 32 \<Longrightarrow> unat b + width \<le> 2 ^ 32
      \<Longrightarrow> unat b + width \<le> unat a \<or> unat a + width \<le> unat b \<Longrightarrow> ld (st m a x) b = ld m b"
    and st_other: "unat a + width \<le> 2 ^ 32 \<Longrightarrow> unat b < unat a \<or> unat a + width \<le> unat b
      \<Longrightarrow> st m a x b = m b"

lemma region_no_dev:
  assumes "region_free v a n" "unat i < n"
  shows "dev_at v (a + i) = None"
proof (rule region_free_dev [OF assms(1)])
  have "unat (a + i) = unat a + unat i"
    using assms by (intro unat_plus_small) (simp add: region_free_def)
  then show "unat a \<le> unat (a + i)" "unat (a + i) < unat a + n" using assms(2) by simp_all
qed

interpretation cell32: ram_cell vm_read32 vm_write32 load32 store32 "\<lambda>_. None" 4
proof
  fix v a h x
  assume "bus_ok v" "region_free v a 4"
  moreover from this have "dev_at v a = None" "in_ram v a 4"
    using region_no_dev [of v a 4 0] by (simp_all add: in_ram_def region_free_def)
  ultimately show "vm_read32 h v a = Inr (load32 (memory v) a, nocache v)"
    "vm_write32 v a x = Inr (v\<lparr>mmio_cache_dev := None, memory := store32 (memory v) a x\<rparr>)"
    by (simp_all add: vm_read32_ram vm_write32_ram)
qed (simp_all add: load32_store32_other store32_other)

interpretation cell64: ram_cell vm_read64 vm_write64 load64 store64 mmio_cache_dev 8
proof
  fix v a h x
  assume "bus_ok v" "region_free v a 8"
  moreover from this have "dev_at v a = None" "dev_at v (a + 4) = None" "in_ram v a 8"
    using region_no_dev [of v a 8 0] region_no_dev [of v a 8 4]
    by (simp_all add: in_ram_def region_free_def)
  moreover have "unat a + 8 \<le> 2 ^ 32" using \<open>region_free v a 8\<close> by (simp add: region_free_def)
  ultimately show "vm_read64 h v a = Inr (load64 (memory v) a, nocache v)"
    "vm_write64 v a x = Inr (v\<lparr>mmio_cache_dev := mmio_cache_dev v, memory := store64 (memory v) a x\<rparr>)"
    by (simp_all add: vm_read64_ram load64_def vm_write64_def)
qed (simp_all add: load64_store64_other store64_other)

section \<open>Stacks as lists\<close>

fun push_all :: "(nat \<Rightarrow> 'a \<Rightarrow> vm \<Rightarrow> vm_error + vm) \<Rightarrow> nat \<Rightarrow> 'a list \<Rightarrow> vm \<Rightarrow> vm_error + vm" where
  "push_all push c [] v = Inr v"
| "push_all push c (x # xs) v = bind_res (push c x v) (push_all push c xs)"

fun pop_all :: "(host \<Rightarrow> nat \<Rightarrow> vm \<Rightarrow> vm_error + 'a \<times> vm) \<Rightarrow> host \<Rightarrow> nat \<Rightarrow> nat \<Rightarrow> vm
    \<Rightarrow> vm_error + 'a list \<times> vm" where
  "pop_all pop h c 0 v = Inr ([], v)"
| "pop_all pop h c (Suc n) v =
     bind_res (pop h c v) (\<lambda>(x, v). bind_res (pop_all pop h c n v) (\<lambda>(xs, v). Inr (x # xs, v)))"

locale lifo =
  fixes push :: "nat \<Rightarrow> 'a \<Rightarrow> vm \<Rightarrow> vm_error + vm"
    and pop :: "host \<Rightarrow> nat \<Rightarrow> vm \<Rightarrow> vm_error + 'a \<times> vm"
    and content :: "nat \<Rightarrow> vm \<Rightarrow> 'a list"
    and ok :: "nat \<Rightarrow> vm \<Rightarrow> bool"
    and fr :: "nat \<Rightarrow> vm \<Rightarrow> vm \<Rightarrow> bool"
    and full :: string
    and empty :: string
  assumes push_room: "ok c v \<Longrightarrow> length (content c v) < 256
      \<Longrightarrow> \<exists>w. push c x v = Inr w \<and> ok c w \<and> content c w = x # content c v \<and> fr c v w"
    and push_full: "ok c v \<Longrightarrow> length (content c v) = 256 \<Longrightarrow> push c x v = Inl (Panic_stack full)"
    and pop_cons: "ok c v \<Longrightarrow> content c v = x # xs
      \<Longrightarrow> \<exists>w. pop h c v = Inr (x, w) \<and> ok c w \<and> content c w = xs \<and> fr c v w"
    and pop_nil: "ok c v \<Longrightarrow> content c v = [] \<Longrightarrow> pop h c v = Inl (Panic_stack empty)"
    and length_content: "ok c v \<Longrightarrow> length (content c v) \<le> 256"
    and fr_refl: "fr c v v"
    and fr_trans: "fr c u v \<Longrightarrow> fr c v w \<Longrightarrow> fr c u w"
begin

lemma push_all_room:
  "ok c v \<Longrightarrow> length xs + length (content c v) \<le> 256
   \<Longrightarrow> \<exists>w. push_all push c xs v = Inr w \<and> ok c w \<and> content c w = rev xs @ content c v \<and> fr c v w"
proof (induction xs arbitrary: v)
  case Nil
  then show ?case by (simp add: fr_refl)
next
  case (Cons x xs)
  then obtain w where w: "push c x v = Inr w" "ok c w" "content c w = x # content c v" "fr c v w"
    using push_room [of c v x] by auto
  then show ?case using Cons.IH [of w] Cons.prems by (auto intro: fr_trans)
qed

lemma push_all_overflow:
  "ok c v \<Longrightarrow> length xs + length (content c v) > 256
   \<Longrightarrow> push_all push c xs v = Inl (Panic_stack full)"
proof (induction xs arbitrary: v)
  case Nil
  then show ?case using length_content [of c v] by simp
next
  case (Cons x xs)
  show ?case
  proof (cases "length (content c v) < 256")
    case True
    then obtain w where "push c x v = Inr w" "ok c w" "content c w = x # content c v"
      using push_room [of c v x] Cons.prems by auto
    then show ?thesis using Cons.IH [of w] Cons.prems by simp
  next
    case False
    then have "length (content c v) = 256" using length_content [of c v] Cons.prems by simp
    then show ?thesis using push_full Cons.prems by simp
  qed
qed

lemma pop_all_content:
  "ok c v \<Longrightarrow> content c v = xs @ ys
   \<Longrightarrow> \<exists>w. pop_all pop h c (length xs) v = Inr (xs, w) \<and> ok c w \<and> content c w = ys \<and> fr c v w"
proof (induction xs arbitrary: v)
  case Nil
  then show ?case by (simp add: fr_refl)
next
  case (Cons x xs)
  then obtain w where "pop h c v = Inr (x, w)" "ok c w" "content c w = xs @ ys" "fr c v w"
    using pop_cons [of c v x "xs @ ys" h] by auto
  then show ?case using Cons.IH [of w] by (auto intro: fr_trans)
qed

text \<open>What was pushed is popped in reverse, and the stack is back to what it was.\<close>

lemma push_pop_all:
  assumes "ok c v" "length xs + length (content c v) \<le> 256"
  shows "\<exists>u w. push_all push c xs v = Inr u \<and> pop_all pop h c (length xs) u = Inr (rev xs, w)
              \<and> ok c w \<and> content c w = content c v \<and> fr c v w"
  using push_all_room [OF assms] pop_all_content [of c _ "rev xs" "content c v" h]
  by (fastforce intro: fr_trans)

end

definition stack_content ::
  "((u32 \<Rightarrow> u8) \<Rightarrow> u32 \<Rightarrow> 'a) \<Rightarrow> nat \<Rightarrow> u32 \<Rightarrow> int \<Rightarrow> (u32 \<Rightarrow> u8) \<Rightarrow> 'a list" where
  "stack_content ld k base sp m = map (\<lambda>i. ld m (base + of_nat (i * k))) [nat sp..<256]"

text \<open>Nothing changes but the stack's own region, its pointer and the device cache.\<close>

definition stack_fr ::
  "((int \<Rightarrow> int) \<Rightarrow> vcpu \<Rightarrow> vcpu) \<Rightarrow> (vcpu \<Rightarrow> int) \<Rightarrow> (vcpu \<Rightarrow> u32) \<Rightarrow> nat \<Rightarrow> nat \<Rightarrow> vm \<Rightarrow> vm \<Rightarrow> bool" where
  "stack_fr upd sp base k c v w \<longleftrightarrow>
     w = v\<lparr>memory := memory w, mmio_cache_dev := mmio_cache_dev w,
           cpus := (cpus v)(c := upd (\<lambda>_. sp (cpus w c)) (cpus v c))\<rparr>
     \<and> (\<forall>b. unat b < unat (base (cpus v c)) \<or> unat (base (cpus v c)) + 256 * k \<le> unat b
            \<longrightarrow> memory w b = memory v b)"

lemma stack_fr_cpus:
  assumes "stack_fr upd sp base k c v w"
  shows "cpus w = (cpus v)(c := upd (\<lambda>_. sp (cpus w c)) (cpus v c))"
proof -
  from assms have "w = v\<lparr>memory := memory w, mmio_cache_dev := mmio_cache_dev w,
      cpus := (cpus v)(c := upd (\<lambda>_. sp (cpus w c)) (cpus v c))\<rparr>" (is "w = ?w")
    unfolding stack_fr_def by blast
  then have "cpus w = cpus ?w" by (rule arg_cong)
  then show ?thesis by simp
qed

lemma stack_fr_core: "stack_fr upd sp base k c v w \<Longrightarrow> \<exists>s. cpus w c = upd (\<lambda>_. s) (cpus v c)"
  using stack_fr_cpus [of upd sp base k c v w] by (metis fun_upd_same)

lemma stack_fr_mem:
  "stack_fr upd sp base k c v w
   \<Longrightarrow> unat b < unat (base (cpus v c)) \<or> unat (base (cpus v c)) + 256 * k \<le> unat b
   \<Longrightarrow> memory w b = memory v b"
  unfolding stack_fr_def by blast

lemma bus_ok_stack:
  "bus_ok v \<Longrightarrow> k = None \<or> k = mmio_cache_dev v
   \<Longrightarrow> bus_ok (v\<lparr>cpus := cs, mmio_cache_dev := k, memory := m\<rparr>)"
  by (auto simp: bus_ok_def cache_ok_def split: option.splits)

locale guest_stack = ram_cell rd wr ld st wc width
  for rd :: "host \<Rightarrow> vm \<Rightarrow> u32 \<Rightarrow> vm_error + 'a \<times> vm" and wr ld st wc width +
  fixes push :: "nat \<Rightarrow> 'a \<Rightarrow> vm \<Rightarrow> vm_error + vm"
    and pop :: "host \<Rightarrow> nat \<Rightarrow> vm \<Rightarrow> vm_error + 'a \<times> vm"
    and base :: "vcpu \<Rightarrow> u32"
    and sp :: "vcpu \<Rightarrow> int"
    and upd :: "(int \<Rightarrow> int) \<Rightarrow> vcpu \<Rightarrow> vcpu"
    and full :: string
    and empty :: string
  assumes push_eq: "push c x v =
      (if sp (cpus v c) = 0 then Inl (Panic_stack full)
       else let v = upd_cpu c (upd (\<lambda>s. s - 1)) v in
         wr v (base (cpus v c) + of_int (sp (cpus v c) * int width)) x)"
    and pop_eq: "pop h c v =
      (if sp (cpus v c) \<ge> 256 then Inl (Panic_stack empty)
       else bind_res (rd h v (base (cpus v c) + of_int (sp (cpus v c) * int width)))
         (\<lambda>(x, v). Inr (x, upd_cpu c (upd (\<lambda>s. s + 1)) v)))"
    and sp_upd: "sp (upd f r) = f (sp r)"
    and base_upd: "base (upd f r) = base r"
    and upd_upd: "upd f (upd g r) = upd (\<lambda>x. f (g x)) r"
    and upd_id: "upd (\<lambda>_. sp r) r = r"
    and upd_const: "upd f r = upd (\<lambda>_. f (sp r)) r"
begin

abbreviation content where
  "content c v \<equiv> stack_content ld width (base (cpus v c)) (sp (cpus v c)) (memory v)"

abbreviation ok where
  "ok c v \<equiv> stack_ok v (base (cpus v c)) (sp (cpus v c)) width"

lemma okD:
  assumes "ok c v"
  obtains n where "sp (cpus v c) = int n" "n \<le> 256" "bus_ok v"
    "region_free v (base (cpus v c)) (256 * width)"
  using assms by (cases "sp (cpus v c)") (auto simp: stack_ok_def)

lemma content_upt:
  "sp (cpus v c) = int n
   \<Longrightarrow> content c v = map (\<lambda>i. ld (memory v) (base (cpus v c) + of_nat (i * width))) [n..<256]"
  by (simp add: stack_content_def)

lemma push_step:
  assumes "ok c v" "sp (cpus v c) = int (Suc n)"
  shows "push c x v = Inr (v\<lparr>cpus := (cpus v)(c := upd (\<lambda>_. int n) (cpus v c)),
           mmio_cache_dev := wc (upd_cpu c (upd (\<lambda>s. s - 1)) v),
           memory := st (memory v) (base (cpus v c) + of_nat (n * width)) x\<rparr>)"
proof -
  let ?w = "upd_cpu c (upd (\<lambda>s. s - 1)) v"
  from assms have rf: "region_free v (base (cpus v c)) (256 * width)" and n: "n < 256" and "bus_ok v"
    by (auto simp: stack_ok_def)
  have u: "upd (\<lambda>s. s - 1) (cpus v c) = upd (\<lambda>_. int n) (cpus v c)"
    using upd_const [of "\<lambda>s. s - 1" "cpus v c"] assms(2) by simp
  have "bus_ok ?w" using \<open>bus_ok v\<close> by simp
  moreover have "region_free ?w (base (cpus v c) + of_nat (n * width)) width"
    using slot_region [OF rf n] region_free_cong [of ?w v] by simp
  ultimately show ?thesis
    using wr_ram [of ?w "base (cpus v c) + of_nat (n * width)" x] assms(2) u
    by (simp add: push_eq Let_def sp_upd base_upd upd_cpu_def)
qed

lemma pop_step:
  assumes "ok c v" "sp (cpus v c) = int n" "n < 256"
  shows "pop h c v = Inr (ld (memory v) (base (cpus v c) + of_nat (n * width)),
           v\<lparr>cpus := (cpus v)(c := upd (\<lambda>_. int (Suc n)) (cpus v c)), mmio_cache_dev := None\<rparr>)"
proof -
  from assms have rf: "region_free v (base (cpus v c)) (256 * width)" and "bus_ok v"
    by (auto simp: stack_ok_def)
  have u: "upd (\<lambda>s. s + 1) (cpus v c) = upd (\<lambda>_. int (Suc n)) (cpus v c)"
    using upd_const [of "\<lambda>s. s + 1" "cpus v c"] assms(2) by (simp add: add.commute)
  show ?thesis
    using rd_ram [OF \<open>bus_ok v\<close> slot_region [OF rf assms(3)], of h] assms(2,3) u
    by (simp add: pop_eq upd_cpu_def)
qed

lemma st_slots:
  assumes "region_free v a (256 * width)" "n < i" "i < 256"
  shows "ld (st m (a + of_nat (n * width)) x) (a + of_nat (i * width))
         = ld m (a + of_nat (i * width))"
proof (rule ld_st_other)
  have "n < 256" using assms(2,3) by simp
  note r = slot_region [OF assms(1) this] slot_region [OF assms(1,3)]
  show "unat (a + of_nat (n * width)) + width \<le> 2 ^ 32" "unat (a + of_nat (i * width)) + width \<le> 2 ^ 32"
    using r by (simp_all only: region_free_def)
  show "unat (a + of_nat (i * width)) + width \<le> unat (a + of_nat (n * width))
        \<or> unat (a + of_nat (n * width)) + width \<le> unat (a + of_nat (i * width))"
    unfolding slot_addr [OF assms(1) \<open>n < 256\<close>] slot_addr [OF assms(1,3)]
    using slots_apart [of n i width] assms(2) by linarith
qed

lemma st_outside:
  assumes "region_free v a (256 * width)" "n < 256"
    and "unat b < unat a \<or> unat a + 256 * width \<le> unat b"
  shows "st m (a + of_nat (n * width)) x b = m b"
proof (rule st_other)
  show "unat (a + of_nat (n * width)) + width \<le> 2 ^ 32"
    using slot_region [OF assms(1,2)] by (simp only: region_free_def)
  show "unat b < unat (a + of_nat (n * width)) \<or> unat (a + of_nat (n * width)) + width \<le> unat b"
    unfolding slot_addr [OF assms(1,2)] using assms(3) slot_below [OF assms(2), of width] by linarith
qed

end

sublocale guest_stack \<subseteq> lifo push pop content ok "stack_fr upd sp base width" full empty
proof
  fix c v x
  assume ok: "ok c v" and room: "length (content c v) < 256"
  from ok obtain m where m: "sp (cpus v c) = int m" "m \<le> 256" "bus_ok v"
    "region_free v (base (cpus v c)) (256 * width)" by (rule okD)
  with room obtain n where n: "m = Suc n" by (cases m) (simp_all add: stack_content_def)
  then have "[n..<256] = n # [m..<256]" using m(2) by (simp add: upt_conv_Cons)
  let ?a = "base (cpus v c) + of_nat (n * width)"
  let ?u = "upd_cpu c (upd (\<lambda>s. s - 1)) v"
  let ?w = "v\<lparr>cpus := (cpus v)(c := upd (\<lambda>_. int n) (cpus v c)),
             mmio_cache_dev := wc ?u, memory := st (memory v) ?a x\<rparr>"
  have "push c x v = Inr ?w" using push_step [OF ok] m(1) n by simp
  moreover have "ok c ?w"
    using ok n m wc [of ?u] bus_ok_stack [OF m(3), of "wc ?u"] region_free_cong [of ?w v]
    by (simp add: stack_ok_def sp_upd base_upd)
  moreover have "content c ?w = x # content c v"
    using st_slots [OF m(4)] \<open>[n..<256] = n # [m..<256]\<close> m n
    by (simp add: stack_content_def sp_upd base_upd ld_st nat_add_distrib)
  moreover have "stack_fr upd sp base width c v ?w"
    using st_outside [OF m(4)] m n by (simp add: stack_fr_def sp_upd)
  ultimately show "\<exists>w. push c x v = Inr w \<and> ok c w \<and> content c w = x # content c v
                       \<and> stack_fr upd sp base width c v w"
    by blast
next
  fix c v x
  assume ok: "ok c v" and "length (content c v) = 256"
  then have "sp (cpus v c) = 0" by (elim okD) (auto simp: stack_content_def)
  then show "push c x v = Inl (Panic_stack full)" by (simp add: push_eq)
next
  fix c v x xs h
  assume ok: "ok c v" and cont: "content c v = x # xs"
  from ok obtain n where n: "sp (cpus v c) = int n" "n \<le> 256" "bus_ok v"
    "region_free v (base (cpus v c)) (256 * width)" by (rule okD)
  with cont have "n < 256" by (cases "n = 256") (simp_all add: stack_content_def)
  then have upt: "[n..<256] = n # [Suc n..<256]" by (simp add: upt_conv_Cons)
  let ?w = "v\<lparr>cpus := (cpus v)(c := upd (\<lambda>_. int (Suc n)) (cpus v c)), mmio_cache_dev := None\<rparr>"
  have x: "x = ld (memory v) (base (cpus v c) + of_nat (n * width))"
    "xs = map (\<lambda>i. ld (memory v) (base (cpus v c) + of_nat (i * width))) [Suc n..<256]"
    using cont upt by (simp_all add: content_upt [OF n(1)])
  have "pop h c v = Inr (x, ?w)" using pop_step [OF ok n(1) \<open>n < 256\<close>] x(1) by simp
  moreover have "ok c ?w"
    using ok n \<open>n < 256\<close> region_free_cong [of ?w v]
    by (simp add: stack_ok_def sp_upd base_upd bus_ok_def cache_ok_def)
  moreover have "content c ?w = xs"
    by (simp add: stack_content_def sp_upd base_upd x(2) nat_add_distrib)
  moreover have "stack_fr upd sp base width c v ?w"
    by (simp add: stack_fr_def sp_upd)
  ultimately show "\<exists>w. pop h c v = Inr (x, w) \<and> ok c w \<and> content c w = xs
                       \<and> stack_fr upd sp base width c v w"
    by blast
next
  fix c v h
  assume "ok c v" "content c v = []"
  then have "256 \<le> sp (cpus v c)" by (elim okD) (auto simp: stack_content_def)
  then show "pop h c v = Inl (Panic_stack empty)" by (simp add: pop_eq)
next
  fix c v
  assume "ok c v"
  then show "length (content c v) \<le> 256" by (simp add: stack_content_def)
next
  fix c v
  show "stack_fr upd sp base width c v v" by (simp add: stack_fr_def upd_id)
next
  fix c u v w
  assume a: "stack_fr upd sp base width c u v" "stack_fr upd sp base width c v w"
  then obtain m k s where v: "v = u\<lparr>memory := m, mmio_cache_dev := k,
      cpus := (cpus u)(c := upd (\<lambda>_. s) (cpus u c))\<rparr>"
    unfolding stack_fr_def by blast
  from a obtain m' k' s' where w: "w = v\<lparr>memory := m', mmio_cache_dev := k',
      cpus := (cpus v)(c := upd (\<lambda>_. s') (cpus v c))\<rparr>"
    unfolding stack_fr_def by blast
  have base: "base (cpus v c) = base (cpus u c)" by (simp add: v base_upd)
  have "memory w b = memory u b"
    if "unat b < unat (base (cpus u c)) \<or> unat (base (cpus u c)) + 256 * width \<le> unat b" for b
  proof -
    have "memory w b = memory v b" using a(2) that unfolding stack_fr_def base by blast
    also have "memory v b = memory u b" using a(1) that unfolding stack_fr_def by blast
    finally show ?thesis .
  qed
  then show "stack_fr upd sp base width c u w"
    by (simp add: stack_fr_def w v sp_upd upd_upd)
qed

section \<open>The three stacks\<close>

lemma sp_update_step:
  "r\<lparr>dsp := dsp r - 1\<rparr> = dsp_update (\<lambda>s. s - 1) r" "r\<lparr>dsp := dsp r + 1\<rparr> = dsp_update (\<lambda>s. s + 1) r"
  "r\<lparr>csp := csp r - 1\<rparr> = csp_update (\<lambda>s. s - 1) r" "r\<lparr>csp := csp r + 1\<rparr> = csp_update (\<lambda>s. s + 1) r"
  "r\<lparr>isp := isp r - 1\<rparr> = isp_update (\<lambda>s. s - 1) r" "r\<lparr>isp := isp r + 1\<rparr> = isp_update (\<lambda>s. s + 1) r"
  by (cases r; simp)+

interpretation data: guest_stack vm_read32 vm_write32 load32 store32 "\<lambda>_. None" 4
  data_push data_pop data_stack_base dsp dsp_update "''Data stack overflow''" "''Data stack underflow''"
  by unfold_locales
    (simp_all add: data_push_def data_pop_def Let_def sp_update_step comp_def cong: if_cong)

interpretation call: guest_stack vm_read64 vm_write64 load64 store64 mmio_cache_dev 8
  call_push call_pop call_stack_base csp csp_update "''Call stack overflow''" "''Call stack underflow''"
  by unfold_locales
    (simp_all add: call_push_def call_pop_def Let_def sp_update_step comp_def cong: if_cong)

interpretation isr: guest_stack vm_read64 vm_write64 load64 store64 mmio_cache_dev 8
  isr_push isr_pop isr_stack_base isp isp_update
  "''Interrupt stack overflow''" "''Interrupt stack underflow''"
  by unfold_locales
    (simp_all add: isr_push_def isr_pop_def Let_def sp_update_step comp_def cong: if_cong)

section \<open>Properties\<close>

lemma data_sp_content: "data.ok c v \<Longrightarrow> dsp (cpus v c) = 256 - int (length (data.content c v))"
  by (auto simp: stack_ok_def stack_content_def)

text \<open>pushing a list of words on a core's data stack and popping as many returns them in reverse,
  restores the stack pointer and changes no byte outside the stack's region; pushing more words than the
  stack has room for panics with an overflow.\<close>

theorem data_stack_lifo:
  assumes "stack_ok v (data_stack_base (cpus v c)) (dsp (cpus v c)) 4"
  shows "if int (length xs) \<le> dsp (cpus v c)
         then \<exists>u w. push_all data_push c xs v = Inr u \<and> pop_all data_pop h c (length xs) u = Inr (rev xs, w)
                \<and> dsp (cpus w c) = dsp (cpus v c)
                \<and> (\<forall>b. unat b < unat (data_stack_base (cpus v c))
                       \<or> unat (data_stack_base (cpus v c)) + 1024 \<le> unat b \<longrightarrow> memory w b = memory v b)
         else push_all data_push c xs v = Inl (Panic_stack ''Data stack overflow'')"
proof (cases "int (length xs) \<le> dsp (cpus v c)")
  case True
  then obtain u w where w: "push_all data_push c xs v = Inr u" "data.ok c w"
    "pop_all data_pop h c (length xs) u = Inr (rev xs, w)" "data.content c w = data.content c v"
    "stack_fr dsp_update dsp data_stack_base 4 c v w"
    using data.push_pop_all [OF assms, of xs h] data_sp_content [OF assms] by auto
  moreover have "dsp (cpus w c) = dsp (cpus v c)"
    using data_sp_content [OF assms] data_sp_content [OF w(2)] w(4) by simp
  ultimately show ?thesis using True stack_fr_mem [OF w(5)] by auto
next
  case False
  then show ?thesis
    using data.push_all_overflow [OF assms, of xs] data_sp_content [OF assms] by simp
qed

lemma demo_stacks_ok:
  "stack_ok demo_vm 0x1000 256 4" "stack_ok demo_vm 0x800 256 8" "stack_ok demo_vm 0x1400 256 8"
  using demo_bus_ok by (simp_all add: stack_ok_def region_free_def)

theorem data_stack_lifo_witness:
  "\<exists>u w. push_all data_push 0 [1, 2, 3] demo_vm = Inr u
         \<and> pop_all data_pop host_zero 0 3 u = Inr ([3, 2, 1], w) \<and> dsp (cpus w 0) = 256"
  using data_stack_lifo [of demo_vm 0 "[1, 2, 3]" host_zero] demo_stacks_ok
  by (auto simp: numeral_3_eq_3)

end
