(* ===== verification/Interrupt.thy ===== *)
theory Interrupt
  imports Stack
begin

text \<open>
  Interrupt entry, return, delivery and triggering (\<open>interrupt.c\<close>). The pending
  interrupts of a core are four words of \<open>interrupt_bitmap\<close>; the interrupt vector
  table is guest RAM from address 0. A core's delivery step (\<open>atomic_load\<close>,
  compare-and-swap, retry) is one atomic step, so the swap succeeds at once.

  The lemmas give delivery as a search for the least pending number, and entry
  followed by return as the restoration of the interrupted context, through the
  interface of the interrupt stack.
\<close>

section \<open>Pending bits\<close>

definition irq_word_index :: "nat \<Rightarrow> u32 \<Rightarrow> nat" where
  "irq_word_index core int_no = core * IRQ_BITMAP_WORDS + unat (drop_bit 6 int_no)"

definition irq_bit_mask :: "u32 \<Rightarrow> u64" where
  "irq_bit_mask int_no = push_bit (unat (int_no AND 63)) 1"

definition trigger_interrupt_target :: "int \<Rightarrow> u32 \<Rightarrow> vm \<Rightarrow> vm" where
  "trigger_interrupt_target core int_no v =
     (if core < 0 \<or> int (smp_cores v) \<le> core then v
      else if IVT_SIZE \<le> int_no then v
      else let idx = irq_word_index (nat core) int_no in
        v\<lparr>interrupt_bitmap := (interrupt_bitmap v)
            (idx := interrupt_bitmap v idx OR irq_bit_mask int_no)\<rparr>)"

definition trigger_interrupt :: "u32 \<Rightarrow> vm \<Rightarrow> vm" where
  "trigger_interrupt int_no v = trigger_interrupt_target BSP_CORE int_no v"

section \<open>Entry and return\<close>

definition isr_push_u32 :: "nat \<Rightarrow> u32 \<Rightarrow> vm \<Rightarrow> vm_error + vm" where
  "isr_push_u32 c x v = isr_push c (ucast x) v"

definition isr_pop_u32 :: "host \<Rightarrow> nat \<Rightarrow> vm \<Rightarrow> vm_error + u32 \<times> vm" where
  "isr_pop_u32 h c v = bind_res (isr_pop h c v) (\<lambda>(x, v). Inr (ucast x, v))"

fun isr_push_regs :: "nat \<Rightarrow> nat list \<Rightarrow> vm \<Rightarrow> vm_error + vm" where
  "isr_push_regs c [] v = Inr v"
| "isr_push_regs c (i # is) v =
     bind_res (isr_push_u32 c (regs (cpus v c) i) v) (isr_push_regs c is)"

fun isr_pop_regs :: "host \<Rightarrow> nat \<Rightarrow> nat list \<Rightarrow> vm \<Rightarrow> vm_error + vm" where
  "isr_pop_regs h c [] v = Inr v"
| "isr_pop_regs h c (i # is) v =
     bind_res (isr_pop_u32 h c v) (\<lambda>(x, v).
       isr_pop_regs h c is (upd_cpu c (\<lambda>r. r\<lparr>regs := (regs r)(i := x)\<rparr>) v))"

definition vm_enter_interrupt :: "host \<Rightarrow> nat \<Rightarrow> u32 \<Rightarrow> vm \<Rightarrow> vm_error + vm" where
  "vm_enter_interrupt h c int_no v =
     (if IVT_SIZE \<le> int_no then Inr v
      else if in_interrupt (cpus v c) then Inr v
      else bind_res (vm_read64 h v (IVT_BASE + int_no * 8)) (\<lambda>(isr_ip, v).
        if isr_ip = - 1 then Inr v
        else
          bind_res (isr_push c (ucast (ip (cpus v c))) v) (\<lambda>v.
          bind_res (isr_push c (ucast (flags (cpus v c))) v) (\<lambda>v.
          bind_res (isr_push_regs c [0..<REG_COUNT] v) (\<lambda>v.
          Inr (upd_cpu c (\<lambda>r. r\<lparr>regs := (regs r)(31 := int_no), ip := ucast isr_ip,
                                in_interrupt := True\<rparr>) v))))))"

definition vm_iret :: "host \<Rightarrow> nat \<Rightarrow> vm \<Rightarrow> vm_error + vm" where
  "vm_iret h c v =
     (if \<not> in_interrupt (cpus v c) then Inr v
      else
        bind_res (isr_pop_regs h c (rev [0..<REG_COUNT]) v) (\<lambda>v.
        bind_res (isr_pop h c v) (\<lambda>(fl, v).
        let v = upd_cpu c (\<lambda>r. r\<lparr>flags := ucast fl\<rparr>) v in
        bind_res (isr_pop h c v) (\<lambda>(ra, v).
        Inr (upd_cpu c (\<lambda>r. r\<lparr>ip := ucast ra, in_interrupt := False\<rparr>) v)))))"

section \<open>Delivery\<close>

text \<open>\<open>__builtin_ctzll\<close>: the index of the least set bit of a non-zero word.\<close>

definition ctz64 :: "u64 \<Rightarrow> nat" where
  "ctz64 w = (case List.find (bit w) [0..<64] of Some i \<Rightarrow> i | None \<Rightarrow> 64)"

fun handle_irq_words :: "host \<Rightarrow> nat \<Rightarrow> nat \<Rightarrow> nat list \<Rightarrow> vm \<Rightarrow> vm_error + vm" where
  "handle_irq_words h c base [] v = Inr v"
| "handle_irq_words h c base (w # ws) v =
     (let word = interrupt_bitmap v (base + w) in
      if word = 0 then handle_irq_words h c base ws v
      else let b = ctz64 word; desired = word AND NOT (push_bit b 1) in
        vm_enter_interrupt h c (of_nat (w * 64 + b))
          (v\<lparr>interrupt_bitmap := (interrupt_bitmap v)(base + w := desired)\<rparr>))"

definition vm_handle_interrupts :: "host \<Rightarrow> nat \<Rightarrow> vm \<Rightarrow> vm_error + vm" where
  "vm_handle_interrupts h c v =
     (if in_interrupt (cpus v c) then Inr v
      else if irq_masked (cpus v c) then Inr v
      else let core = core_id (cpus v c) in
        if core < 0 \<or> int (smp_cores v) \<le> core then Inl (Host_out_of_bounds ''interrupt_bitmap'')
        else handle_irq_words h c (nat core * IRQ_BITMAP_WORDS) [0..<IRQ_BITMAP_WORDS] v)"

section \<open>The vector table\<close>

fun ivt_clear :: "u32 list \<Rightarrow> vm \<Rightarrow> vm_error + vm" where
  "ivt_clear [] v = Inr v"
| "ivt_clear (i # is) v = bind_res (vm_write64 v (IVT_BASE + i * 8) (- 1)) (ivt_clear is)"

definition init_ivt :: "vm \<Rightarrow> vm_error + vm" where
  "init_ivt v =
     bind_res (ivt_clear (map of_nat [0..<256]) v) (\<lambda>v.
       Inr (v\<lparr>interrupt_bitmap :=
                (\<lambda>k. if k < smp_cores v * IRQ_BITMAP_WORDS then 0 else interrupt_bitmap v k),
              cpus := (\<lambda>k. if k < smp_cores v then (cpus v k)\<lparr>in_interrupt := False\<rparr> else cpus v k)\<rparr>))"

definition register_isr :: "u32 \<Rightarrow> u64 \<Rightarrow> vm \<Rightarrow> vm_error + vm" where
  "register_isr int_no isr_ip v =
     (if IVT_SIZE \<le> int_no then Inl (Panic_int_no int_no)
      else vm_write64 v (IVT_BASE + int_no * 8) (ucast (ucast isr_ip :: u32)))"

section \<open>Pending interrupts as a set\<close>

definition pending :: "vm \<Rightarrow> nat \<Rightarrow> nat \<Rightarrow> bool" where
  "pending v core n = bit (interrupt_bitmap v (core * 4 + n div 64)) (n mod 64)"

definition least_pending :: "vm \<Rightarrow> nat \<Rightarrow> nat option" where
  "least_pending v core = List.find (pending v core) [0..<256]"

definition clear_pending :: "nat \<Rightarrow> nat \<Rightarrow> vm \<Rightarrow> vm" where
  "clear_pending core n v =
     v\<lparr>interrupt_bitmap := (interrupt_bitmap v)
         (core * 4 + n div 64 := interrupt_bitmap v (core * 4 + n div 64) AND NOT (push_bit (n mod 64) 1))\<rparr>"

lemma trigger_fields [simp]:
  "halted (trigger_interrupt_target k n v) = halted v"
  "memory (trigger_interrupt_target k n v) = memory v"
  "memory_size (trigger_interrupt_target k n v) = memory_size v"
  "fb (trigger_interrupt_target k n v) = fb v"
  "io (trigger_interrupt_target k n v) = io v"
  "serial_rx_fifo (trigger_interrupt_target k n v) = serial_rx_fifo v"
  "serial_rx_head (trigger_interrupt_target k n v) = serial_rx_head v"
  "serial_rx_tail (trigger_interrupt_target k n v) = serial_rx_tail v"
  "disk (trigger_interrupt_target k n v) = disk v"
  "mmio_devices (trigger_interrupt_target k n v) = mmio_devices v"
  "mmio_cache_dev (trigger_interrupt_target k n v) = mmio_cache_dev v"
  "mmio_cache_start (trigger_interrupt_target k n v) = mmio_cache_start v"
  "mmio_cache_end (trigger_interrupt_target k n v) = mmio_cache_end v"
  "smp_cores (trigger_interrupt_target k n v) = smp_cores v"
  "cpus (trigger_interrupt_target k n v) = cpus v"
  "core_released (trigger_interrupt_target k n v) = core_released v"
  "timer_enabled (trigger_interrupt_target k n v) = timer_enabled v"
  "timer_period_us (trigger_interrupt_target k n v) = timer_period_us v"
  "serial_tx (trigger_interrupt_target k n v) = serial_tx v"
  by (simp_all add: trigger_interrupt_target_def Let_def)

lemmas trigger_bsp_fields [simp] = trigger_fields [of 0, folded trigger_interrupt_def]

lemma unat_and_63: "unat ((x :: u32) AND 63) = unat x mod 64"
proof -
  have "(63 :: u32) = mask 6" by (simp add: mask_eq_exp_minus_1)
  then have "x AND 63 = take_bit 6 x" by (simp add: take_bit_eq_mask)
  then show ?thesis by (simp add: take_bit_eq_mod unat_mod)
qed

lemma unat_drop_6: "unat (drop_bit 6 (x :: u32)) = unat x div 64"
  by (simp add: drop_bit_eq_div unat_div)

lemma irq_slot_inj:
  assumes "n < 256" "n' < 256"
  shows "core' * 4 + n' div 64 = core * 4 + n div 64 \<and> n' mod 64 = n mod 64
         \<longleftrightarrow> core' = core \<and> n' = (n :: nat)"
proof -
  have "core' = core \<and> q' = q" if "q < 4" "q' < 4" "core' * 4 + q' = core * 4 + q" for q q' :: nat
    using that by arith
  moreover have "n div 64 < 4" "n' div 64 < 4" using assms by (simp_all add: less_mult_imp_div_less)
  ultimately show ?thesis by (metis div_mult_mod_eq)
qed

lemma pending_trigger:
  assumes "core < smp_cores v" "n < 256" "n' < 256"
  shows "pending (trigger_interrupt_target (int core) (of_nat n) v) core' n'
         \<longleftrightarrow> pending v core' n' \<or> (core' = core \<and> n' = n)"
proof -
  have n: "unat (of_nat n :: u32) = n" using assms(2) by (simp add: unat_of_nat)
  have "\<not> (256 :: u32) \<le> of_nat n" using assms(2) n by (simp add: word_le_nat_alt)
  then show ?thesis using assms(1) irq_slot_inj [OF assms(2,3), of core' core]
    by (auto simp: pending_def trigger_interrupt_target_def Let_def irq_word_index_def
         irq_bit_mask_def unat_and_63 unat_drop_6 n bit_simps)
qed

lemma pending_clear:
  assumes "n < 256" "n' < 256"
  shows "pending (clear_pending core n v) core' n'
         \<longleftrightarrow> pending v core' n' \<and> \<not> (core' = core \<and> n' = n)"
  using irq_slot_inj [OF assms, of core' core]
  by (auto simp: pending_def clear_pending_def bit_simps)

section \<open>Delivery takes the least pending interrupt\<close>

lemma find_upt_Some:
  "List.find P [0..<k] = Some n \<longleftrightarrow> n < k \<and> P n \<and> (\<forall>m<n. \<not> P m)"
  by (auto simp: find_Some_iff)

lemma find_upt_None: "List.find P [0..<k] = None \<longleftrightarrow> (\<forall>m<k. \<not> P m)"
  by (auto simp: find_None_iff)

lemma ctz64_bit:
  assumes "w \<noteq> 0"
  shows "ctz64 w < 64" "bit w (ctz64 w)" "i < ctz64 w \<Longrightarrow> \<not> bit w i"
proof -
  obtain n where "bit w n" "n < 64"
    using assms by (auto simp: bit_eq_iff dest: bit_imp_le_length)
  then obtain k where "List.find (bit w) [0..<64] = Some k"
    by (cases "List.find (bit w) [0..<64]") (auto simp: find_upt_None)
  moreover from this have "ctz64 w = k" by (simp add: ctz64_def)
  ultimately show "ctz64 w < 64" "bit w (ctz64 w)" "i < ctz64 w \<Longrightarrow> \<not> bit w i"
    by (simp_all add: find_upt_Some)
qed

lemma pending_word: "i < 64 \<Longrightarrow> pending v core (k * 64 + i) = bit (interrupt_bitmap v (core * 4 + k)) i"
  by (simp add: pending_def)

lemma pending_below:
  assumes "\<forall>n < k * 64. \<not> pending v core n" "n < k * 64 + b" "b \<le> 64"
    "\<And>i. i < b \<Longrightarrow> \<not> bit (interrupt_bitmap v (core * 4 + k)) i"
  shows "\<not> pending v core n"
proof (cases "n < k * 64")
  case False
  then obtain i where "n = k * 64 + i" by (metis le_iff_add not_less)
  then show ?thesis using assms pending_word [of i v core k] by simp
qed (use assms(1) in blast)

lemma handle_irq_words_least:
  assumes "k \<le> 4" "\<forall>n < k * 64. \<not> pending v core n"
  shows "handle_irq_words h c (core * 4) [k..<4] v
         = (case least_pending v core of None \<Rightarrow> Inr v
            | Some n \<Rightarrow> vm_enter_interrupt h c (of_nat n) (clear_pending core n v))"
  using assms
proof (induction k rule: inc_induct)
  case base
  then have "least_pending v core = None" by (simp add: least_pending_def find_upt_None)
  then show ?case by simp
next
  case (step k)
  let ?w = "interrupt_bitmap v (core * 4 + k)"
  have upt: "[k..<4] = k # [Suc k..<4]" using step.hyps by (simp add: upt_conv_Cons)
  show ?case
  proof (cases "?w = 0")
    case True
    then have "\<forall>n < Suc k * 64. \<not> pending v core n"
      using pending_below [OF step.prems, of _ 64] by (simp add: add.commute)
    then show ?thesis using step.IH True by (simp add: upt Let_def)
  next
    case False
    let ?n = "k * 64 + ctz64 ?w"
    have "ctz64 ?w < 64" using ctz64_bit [OF False] by simp
    moreover from this have "pending v core ?n" using pending_word ctz64_bit [OF False] by simp
    moreover have "?n < 256" using \<open>ctz64 ?w < 64\<close> step.hyps by simp
    moreover have "\<not> pending v core m" if "m < ?n" for m
      using pending_below [OF step.prems that] ctz64_bit [OF False] by simp
    ultimately have "least_pending v core = Some ?n" by (simp add: least_pending_def find_upt_Some)
    then show ?thesis
      using False \<open>ctz64 ?w < 64\<close> by (simp add: upt Let_def clear_pending_def)
  qed
qed

section \<open>Entry and return\<close>

text \<open>
  \<open>ctx_frame\<close>: nothing changed but core \<open>c\<close>, the device cache and the interrupt
  stack's region of RAM.
\<close>

definition ctx_frame :: "nat \<Rightarrow> vm \<Rightarrow> vm \<Rightarrow> bool" where
  "ctx_frame c v w \<longleftrightarrow>
     w = v\<lparr>memory := memory w, mmio_cache_dev := mmio_cache_dev w,
           cpus := (cpus v)(c := cpus w c)\<rparr>
     \<and> isr_stack_base (cpus w c) = isr_stack_base (cpus v c)
     \<and> (\<forall>b. unat b < unat (isr_stack_base (cpus v c))
            \<or> unat (isr_stack_base (cpus v c)) + 2048 \<le> unat b \<longrightarrow> memory w b = memory v b)"

lemma ctx_frame_refl: "ctx_frame c v v"
  by (simp add: ctx_frame_def)

lemma ctx_frame_upd:
  "(\<And>r. isr_stack_base (f r) = isr_stack_base r) \<Longrightarrow> ctx_frame c v (upd_cpu c f v)"
  by (simp add: ctx_frame_def upd_cpu_def)

lemma ctx_frame_nocache: "ctx_frame c v (nocache v)"
  by (simp add: ctx_frame_def)

lemma ctx_frame_trans:
  assumes "ctx_frame c u v" "ctx_frame c v w"
  shows "ctx_frame c u w"
proof -
  from assms(1) obtain m k r where v: "v = u\<lparr>memory := m, mmio_cache_dev := k, cpus := (cpus u)(c := r)\<rparr>"
    unfolding ctx_frame_def by blast
  from assms(2) obtain m' k' r' where w: "w = v\<lparr>memory := m', mmio_cache_dev := k', cpus := (cpus v)(c := r')\<rparr>"
    unfolding ctx_frame_def by blast
  have base: "isr_stack_base (cpus v c) = isr_stack_base (cpus u c)"
    "isr_stack_base (cpus w c) = isr_stack_base (cpus v c)"
    using assms unfolding ctx_frame_def by blast+
  have "memory w b = memory u b"
    if "unat b < unat (isr_stack_base (cpus u c)) \<or> unat (isr_stack_base (cpus u c)) + 2048 \<le> unat b" for b
  proof -
    have "memory w b = memory v b" using assms(2) that unfolding ctx_frame_def base by blast
    also have "memory v b = memory u b" using assms(1) that unfolding ctx_frame_def by blast
    finally show ?thesis .
  qed
  then show ?thesis using base by (simp add: ctx_frame_def w v)
qed

abbreviation (input) isr_fr :: "nat \<Rightarrow> vm \<Rightarrow> vm \<Rightarrow> bool" where
  "isr_fr \<equiv> stack_fr isp_update isp isr_stack_base 8"

lemma isr_fr_ctx:
  assumes "isr_fr c v w"
  shows "ctx_frame c v w"
proof -
  obtain s where s: "cpus w c = (cpus v c)\<lparr>isp := s\<rparr>" using stack_fr_core [OF assms] by blast
  have "w = v\<lparr>memory := memory w, mmio_cache_dev := mmio_cache_dev w, cpus := (cpus v)(c := cpus w c)\<rparr>"
    using assms s unfolding stack_fr_def by simp
  then show ?thesis using s stack_fr_mem [OF assms] unfolding ctx_frame_def by simp
qed

lemma push_regs_all:
  assumes "isr.ok c v" "length is + length (isr.content c v) \<le> 256"
  shows "\<exists>w. isr_push_regs c is v = Inr w \<and> isr.ok c w
             \<and> isr.content c w = rev (map (\<lambda>i. ucast (regs (cpus v c) i)) is) @ isr.content c v
             \<and> isr_fr c v w"
  using assms
proof (induction "is" arbitrary: v)
  case Nil
  then show ?case by (simp add: isr.fr_refl)
next
  case (Cons i "is")
  then obtain u where u: "isr_push c (ucast (regs (cpus v c) i)) v = Inr u" "isr.ok c u"
    "isr.content c u = ucast (regs (cpus v c) i) # isr.content c v" "isr_fr c v u"
    using isr.push_room [OF Cons.prems(1)] by fastforce
  obtain s where "cpus u c = (cpus v c)\<lparr>isp := s\<rparr>" using stack_fr_core [OF u(4)] by blast
  then have "regs (cpus u c) = regs (cpus v c)" by simp
  then show ?case
    using Cons.IH [OF u(2)] Cons.prems u by (auto simp: isr_push_u32_def intro: isr.fr_trans)
qed

lemma pop_regs_all:
  assumes "isr.ok c v" "isr.content c v = map (\<lambda>i. ucast (f i)) is @ ys"
  shows "\<exists>w s. isr_pop_regs h c is v = Inr w \<and> isr.ok c w \<and> isr.content c w = ys \<and> ctx_frame c v w
             \<and> cpus w c = (cpus v c)\<lparr>isp := s, regs := \<lambda>i. if i \<in> set is then f i else regs (cpus v c) i\<rparr>"
  using assms
proof (induction "is" arbitrary: v)
  case Nil
  have "\<exists>s. cpus v c = (cpus v c)\<lparr>isp := s\<rparr>" by (rule exI [of _ "isp (cpus v c)"]) simp
  with Nil show ?case by (auto simp: ctx_frame_refl)
next
  case (Cons i "is")
  then obtain u where u: "isr_pop h c v = Inr (ucast (f i), u)" "isr.ok c u"
    "isr.content c u = map (\<lambda>i. ucast (f i)) is @ ys" "isr_fr c v u"
    using isr.pop_cons [OF Cons.prems(1)] by fastforce
  obtain s where s: "cpus u c = (cpus v c)\<lparr>isp := s\<rparr>" using stack_fr_core [OF u(4)] by blast
  let ?u = "upd_cpu c (\<lambda>r. r\<lparr>regs := (regs r)(i := f i)\<rparr>) u"
  have fr: "ctx_frame c v ?u" using isr_fr_ctx [OF u(4)] ctx_frame_upd by (rule ctx_frame_trans) simp
  have "isr.ok c ?u" using u(2) region_free_cong [of ?u u] by (simp add: stack_ok_def)
  moreover have "isr.content c ?u = map (\<lambda>i. ucast (f i)) is @ ys" using u(3) by simp
  ultimately obtain w t where w: "isr_pop_regs h c is ?u = Inr w" "isr.ok c w" "isr.content c w = ys"
    "ctx_frame c ?u w"
    "cpus w c = (cpus ?u c)\<lparr>isp := t, regs := \<lambda>i. if i \<in> set is then f i else regs (cpus ?u c) i\<rparr>"
    using Cons.IH by blast
  have "cpus w c = (cpus v c)\<lparr>isp := t, regs := \<lambda>j. if j \<in> set (i # is) then f j else regs (cpus v c) j\<rparr>"
    using w(5) s by (auto simp: fun_eq_iff)
  moreover have "isr_pop_regs h c (i # is) v = Inr w"
    using u(1) w(1) by (simp add: isr_pop_u32_def)
  ultimately show ?case using w fr ctx_frame_trans by blast
qed

lemma isp_content: "isr.ok c v \<Longrightarrow> isp (cpus v c) = 256 - int (length (isr.content c v))"
  by (auto simp: stack_ok_def stack_content_def)

lemma isr_ok_upd:
  assumes "\<And>r. isr_stack_base (f r) = isr_stack_base r" "\<And>r. isp (f r) = isp r"
  shows "isr.ok c (upd_cpu c f v) = isr.ok c v" "isr.content c (upd_cpu c f v) = isr.content c v"
  using region_free_cong [of "upd_cpu c f v" v] by (simp_all add: stack_ok_def assms)

lemma isr_ok_nocache: "isr.ok c v \<Longrightarrow> isr.ok c (nocache v)"
  using region_free_cong [of "nocache v" v] by (simp add: stack_ok_def)

lemma enter_interrupt_pushes:
  assumes ok: "isr.ok c v" and room: "34 \<le> isp (cpus v c)"
    and n: "int_no < 256" and out: "\<not> in_interrupt (cpus v c)"
    and ivt: "region_free v (int_no * 8) 8" "load64 (memory v) (int_no * 8) \<noteq> - 1"
  shows "\<exists>w s. vm_enter_interrupt h c int_no v = Inr w \<and> isr.ok c w \<and> ctx_frame c v w
     \<and> isr.content c w = map (\<lambda>i. ucast (regs (cpus v c) i)) (rev [0..<32])
          @ [ucast (flags (cpus v c)), ucast (ip (cpus v c))] @ isr.content c v
     \<and> cpus w c = (cpus v c)\<lparr>isp := s, regs := (regs (cpus v c))(31 := int_no),
          ip := ucast (load64 (memory v) (int_no * 8)), in_interrupt := True\<rparr>"
proof -
  have rd: "vm_read64 h v (int_no * 8) = Inr (load64 (memory v) (int_no * 8), nocache v)"
    using ok ivt(1) by (intro cell64.rd_ram) (simp_all add: stack_ok_def)
  have len: "length (isr.content c v) \<le> 222" using room isp_content [OF ok] by simp
  obtain u where u: "isr_push c (ucast (ip (cpus v c))) (nocache v) = Inr u" "isr.ok c u"
    "isr.content c u = ucast (ip (cpus v c)) # isr.content c v" "isr_fr c (nocache v) u"
    using isr.push_room [OF isr_ok_nocache [OF ok]] len by fastforce
  obtain s where s: "cpus u c = (cpus v c)\<lparr>isp := s\<rparr>" using stack_fr_core [OF u(4)] by auto
  obtain x where x: "isr_push c (ucast (flags (cpus u c))) u = Inr x" "isr.ok c x"
    "isr.content c x = ucast (flags (cpus u c)) # isr.content c u" "isr_fr c u x"
    using isr.push_room [OF u(2)] len u(3) by fastforce
  obtain t where t: "cpus x c = (cpus u c)\<lparr>isp := t\<rparr>" using stack_fr_core [OF x(4)] by auto
  obtain y where y: "isr_push_regs c [0..<32] x = Inr y" "isr.ok c y"
    "isr.content c y = rev (map (\<lambda>i. ucast (regs (cpus x c) i)) [0..<32]) @ isr.content c x" "isr_fr c x y"
    using push_regs_all [OF x(2), of "[0..<32]"] x(3) u(3) len by auto
  obtain r where r: "cpus y c = (cpus x c)\<lparr>isp := r\<rparr>" using stack_fr_core [OF y(4)] by auto
  let ?f = "\<lambda>r. r\<lparr>regs := (regs r)(31 := int_no), ip := ucast (load64 (memory v) (int_no * 8)),
                 in_interrupt := True\<rparr>"
  let ?w = "upd_cpu c ?f y"
  have "ctx_frame c v y"
    using ctx_frame_nocache isr_fr_ctx [OF u(4)] isr_fr_ctx [OF x(4)] isr_fr_ctx [OF y(4)]
    by (blast intro: ctx_frame_trans)
  then have "ctx_frame c v ?w" using ctx_frame_upd [of ?f c y] by (auto intro: ctx_frame_trans)
  moreover have "vm_enter_interrupt h c int_no v = Inr ?w"
    using n out rd ivt(2) u(1) x(1) y(1) by (simp add: vm_enter_interrupt_def s linorder_not_le)
  moreover have "isr.ok c ?w" using y(2) isr_ok_upd(1) [of ?f c y] by simp
  moreover have "isr.content c ?w = map (\<lambda>i. ucast (regs (cpus v c) i)) (rev [0..<32])
          @ [ucast (flags (cpus v c)), ucast (ip (cpus v c))] @ isr.content c v"
    using isr_ok_upd(2) [of ?f c y] y(3) x(3) u(3) by (simp add: s t rev_map)
  moreover have "cpus ?w c = (cpus v c)\<lparr>isp := r, regs := (regs (cpus v c))(31 := int_no),
          ip := ucast (load64 (memory v) (int_no * 8)), in_interrupt := True\<rparr>"
    by (simp add: r t s)
  ultimately show ?thesis by blast
qed

lemma iret_pops:
  assumes ok: "isr.ok c v" and int: "in_interrupt (cpus v c)"
    and cont: "isr.content c v = map (\<lambda>i. ucast (f i)) (rev [0..<32]) @ [ucast fl, ucast a] @ ys"
  shows "\<exists>w s. vm_iret h c v = Inr w \<and> isr.ok c w \<and> isr.content c w = ys \<and> ctx_frame c v w
     \<and> cpus w c = (cpus v c)\<lparr>isp := s, regs := \<lambda>i. if i < 32 then f i else regs (cpus v c) i,
          flags := fl, ip := a, in_interrupt := False\<rparr>"
proof -
  obtain u s where u: "isr_pop_regs h c (rev [0..<32]) v = Inr u" "isr.ok c u"
    "isr.content c u = [ucast fl, ucast a] @ ys" "ctx_frame c v u"
    "cpus u c = (cpus v c)\<lparr>isp := s, regs := \<lambda>i. if i < 32 then f i else regs (cpus v c) i\<rparr>"
    using pop_regs_all [OF ok cont, of h] by auto
  obtain x where x: "isr_pop h c u = Inr (ucast fl, x)" "isr.ok c x" "isr.content c x = ucast a # ys"
    "isr_fr c u x" using isr.pop_cons [OF u(2)] u(3) by fastforce
  obtain t where t: "cpus x c = (cpus u c)\<lparr>isp := t\<rparr>" using stack_fr_core [OF x(4)] by auto
  let ?x = "upd_cpu c (\<lambda>r. r\<lparr>flags := fl\<rparr>) x"
  have "isr.ok c ?x" "isr.content c ?x = ucast a # ys"
    using x(2,3) isr_ok_upd [of "\<lambda>r. r\<lparr>flags := fl\<rparr>" c x] by simp_all
  then obtain y where y: "isr_pop h c ?x = Inr (ucast a, y)" "isr.ok c y" "isr.content c y = ys"
    "isr_fr c ?x y" using isr.pop_cons by blast
  obtain r where r: "cpus y c = (cpus ?x c)\<lparr>isp := r\<rparr>" using stack_fr_core [OF y(4)] by auto
  let ?f = "\<lambda>r. r\<lparr>ip := a, in_interrupt := False\<rparr>"
  let ?w = "upd_cpu c ?f y"
  have "ctx_frame c v y"
    using u(4) isr_fr_ctx [OF x(4)] ctx_frame_upd [of "\<lambda>r. r\<lparr>flags := fl\<rparr>" c x] isr_fr_ctx [OF y(4)]
    by (auto intro: ctx_frame_trans)
  then have "ctx_frame c v ?w" using ctx_frame_upd [of ?f c y] by (auto intro: ctx_frame_trans)
  moreover have "vm_iret h c v = Inr ?w"
    using int u(1) x(1) y(1) by (simp add: vm_iret_def)
  moreover have "isr.ok c ?w" "isr.content c ?w = ys"
    using y(2,3) isr_ok_upd [of ?f c y] by simp_all
  moreover have "cpus ?w c = (cpus v c)\<lparr>isp := r, regs := \<lambda>i. if i < 32 then f i else regs (cpus v c) i,
          flags := fl, ip := a, in_interrupt := False\<rparr>"
    by (simp add: r t u(5))
  ultimately show ?thesis by blast
qed

section \<open>Properties\<close>

text \<open>C7: an interrupt whose vector is set and whose core has room on the interrupt stack is entered
  with its number in r31 at the vector's address; whatever the handler does, as long as the interrupt
  stack holds what it held at entry, returning restores the 32 registers, the flags, the instruction
  pointer and the stack pointer of the interrupted code. Entry changes nothing but the core, its stack
  region and the device cache.\<close>

theorem interrupt_round_trip:
  assumes "stack_ok v (isr_stack_base (cpus v c)) (isp (cpus v c)) 8" "34 \<le> isp (cpus v c)"
    and "int_no < 256" "\<not> in_interrupt (cpus v c)"
    and "region_free v (int_no * 8) 8" "load64 (memory v) (int_no * 8) \<noteq> - 1"
  shows "\<exists>w. vm_enter_interrupt h c int_no v = Inr w \<and> ctx_frame c v w
     \<and> in_interrupt (cpus w c) \<and> regs (cpus w c) 31 = int_no
     \<and> ip (cpus w c) = ucast (load64 (memory v) (int_no * 8))
     \<and> (\<forall>u. in_interrupt (cpus u c) \<and> stack_ok u (isr_stack_base (cpus u c)) (isp (cpus u c)) 8
          \<and> stack_content load64 8 (isr_stack_base (cpus u c)) (isp (cpus u c)) (memory u)
            = stack_content load64 8 (isr_stack_base (cpus w c)) (isp (cpus w c)) (memory w)
          \<longrightarrow> (\<exists>x. vm_iret h c u = Inr x \<and> \<not> in_interrupt (cpus x c)
               \<and> (\<forall>i < 32. regs (cpus x c) i = regs (cpus v c) i) \<and> flags (cpus x c) = flags (cpus v c)
               \<and> ip (cpus x c) = ip (cpus v c) \<and> isp (cpus x c) = isp (cpus v c)))"
proof -
  obtain w s where w: "vm_enter_interrupt h c int_no v = Inr w" "isr.ok c w" "ctx_frame c v w"
    "isr.content c w = map (\<lambda>i. ucast (regs (cpus v c) i)) (rev [0..<32])
          @ [ucast (flags (cpus v c)), ucast (ip (cpus v c))] @ isr.content c v"
    "cpus w c = (cpus v c)\<lparr>isp := s, regs := (regs (cpus v c))(31 := int_no),
          ip := ucast (load64 (memory v) (int_no * 8)), in_interrupt := True\<rparr>"
    using enter_interrupt_pushes [OF assms] by blast
  have "\<exists>x. vm_iret h c u = Inr x \<and> \<not> in_interrupt (cpus x c)
               \<and> (\<forall>i < 32. regs (cpus x c) i = regs (cpus v c) i) \<and> flags (cpus x c) = flags (cpus v c)
               \<and> ip (cpus x c) = ip (cpus v c) \<and> isp (cpus x c) = isp (cpus v c)"
    if u: "in_interrupt (cpus u c)" "isr.ok c u" "isr.content c u = isr.content c w" for u
  proof -
    from iret_pops [OF u(2,1) u(3) [unfolded w(4)], of h] obtain x t where
      x: "vm_iret h c u = Inr x" "isr.ok c x" "isr.content c x = isr.content c v"
      "cpus x c = (cpus u c)\<lparr>isp := t, regs := \<lambda>i. if i < 32 then regs (cpus v c) i else regs (cpus u c) i,
          flags := flags (cpus v c), ip := ip (cpus v c), in_interrupt := False\<rparr>"
      by blast
    have "isp (cpus x c) = isp (cpus v c)" using isp_content [OF x(2)] isp_content [OF assms(1)] x(3) by simp
    then show ?thesis using x(1,4) by simp
  qed
  moreover have "in_interrupt (cpus w c)" "regs (cpus w c) 31 = int_no"
    "ip (cpus w c) = ucast (load64 (memory v) (int_no * 8))"
    using w(5) by simp_all
  ultimately show ?thesis using w(1,3) by blast
qed

theorem interrupt_round_trip_witness:
  "\<exists>w. vm_enter_interrupt host_zero 0 4 demo_vm = Inr w \<and> regs (cpus w 0) 31 = 4 \<and> ip (cpus w 0) = 0"
proof -
  have "region_free demo_vm (4 * 8) 8" by (simp add: region_free_def)
  moreover have "load64 (memory demo_vm) (4 * 8) = 0" by (simp add: load64_def load32_def le32_def join64_def)
  ultimately show ?thesis
    using interrupt_round_trip [of demo_vm 0 4 host_zero] demo_stacks_ok(3) by (auto simp: vcpu_zero_def)
qed

text \<open>C34: a core that takes interrupts delivers the least pending number and clears only that one; with
  none pending, or while it is masked or inside a handler, delivery changes nothing.\<close>

theorem delivery_takes_least_pending:
  assumes "core_id (cpus v c) = int c" "c < smp_cores v"
  shows "vm_handle_interrupts h c v =
     (if in_interrupt (cpus v c) \<or> irq_masked (cpus v c) then Inr v
      else case least_pending v c of
             None \<Rightarrow> Inr v
           | Some n \<Rightarrow> vm_enter_interrupt h c (of_nat n) (clear_pending c n v))
   \<and> (\<forall>n. least_pending v c = Some n \<longrightarrow> pending v c n \<and> n < 256 \<and> (\<forall>m < n. \<not> pending v c m)
        \<and> (\<forall>c' m. m < 256 \<longrightarrow> pending (clear_pending c n v) c' m = (pending v c' m \<and> \<not> (c' = c \<and> m = n))))"
  using assms handle_irq_words_least [of 0 v c h c] pending_clear
  by (auto simp: vm_handle_interrupts_def Let_def least_pending_def find_upt_Some)

theorem delivery_takes_least_pending_witness:
  "let v = demo_vm\<lparr>interrupt_bitmap := (\<lambda>_. 0)(0 := 0x18)\<rparr> in
     vm_handle_interrupts host_zero 0 v = vm_enter_interrupt host_zero 0 3 (clear_pending 0 3 v)"
proof -
  let ?v = "demo_vm\<lparr>interrupt_bitmap := (\<lambda>_. 0)(0 := 0x18)\<rparr>"
  have "pending ?v 0 3" "\<not> pending ?v 0 0" "\<not> pending ?v 0 1" "\<not> pending ?v 0 2"
    by (simp_all add: pending_def bit_iff_odd)
  then have "least_pending ?v 0 = Some 3"
    by (auto simp: least_pending_def find_upt_Some less_Suc_eq numeral_3_eq_3 numeral_2_eq_2)
  then show ?thesis
    using delivery_takes_least_pending [of ?v 0 host_zero] by (simp add: vcpu_zero_def)
qed

text \<open>triggering an interrupt on a core makes exactly that number pending on exactly that core.\<close>

theorem trigger_sets_one_pending_bit:
  assumes "core < smp_cores v" "n < 256" "n' < 256"
  shows "pending (trigger_interrupt_target (int core) (of_nat n) v) core' n'
         \<longleftrightarrow> pending v core' n' \<or> (core' = core \<and> n' = n)"
  using assms by (rule pending_trigger)

theorem trigger_sets_one_pending_bit_witness:
  "pending (trigger_interrupt_target (int 0) (of_nat 70) demo_vm) 0 70
   \<and> \<not> pending (trigger_interrupt_target (int 0) (of_nat 70) demo_vm) 0 71"
  using trigger_sets_one_pending_bit [of 0 demo_vm 70 70 0] trigger_sets_one_pending_bit [of 0 demo_vm 70 71 0]
  by (simp add: pending_def)

end
