(* ===== verification/Disk.thy ===== *)
theory Disk
  imports Interrupt
begin

text \<open>
  The block device (\<open>disk.c\<close>): command register, worker thread, completion tick.
  One turn of the worker's loop is one step. \<open>fseek\<close>, \<open>fread\<close> and \<open>fwrite\<close> act on
  the image as a list of bytes; a read past the end of the image leaves the rest
  of the freshly allocated buffer as \<open>malloc\<close> returned it, and a write past the
  end fills the gap with zeros.

  The lemmas show the DMA bounds, the sector round trip, the protocol of status,
  command and completion flag, and that command 0 on a free disk leaves it busy
  for ever.
\<close>

section \<open>Operations\<close>

abbreviation (input) DISK_SIZE :: nat where "DISK_SIZE \<equiv> 536870912"
abbreviation (input) DISK_SECTOR_SIZE :: nat where "DISK_SECTOR_SIZE \<equiv> 512"
abbreviation (input) DISK_STATUS_FREE :: u8 where "DISK_STATUS_FREE \<equiv> 0"
abbreviation (input) DISK_STATUS_BUSY :: u8 where "DISK_STATUS_BUSY \<equiv> 1"
abbreviation (input) DISK_CMD_NONE :: int where "DISK_CMD_NONE \<equiv> 0"
abbreviation (input) DISK_CMD_READ :: int where "DISK_CMD_READ \<equiv> 1"
abbreviation (input) DISK_CMD_WRITE :: int where "DISK_CMD_WRITE \<equiv> 2"

definition is_valid_dma :: "vm \<Rightarrow> nat \<Rightarrow> nat \<Rightarrow> bool" where
  "is_valid_dma v addr count = (\<not> memory_size v < addr + count * DISK_SECTOR_SIZE)"

text \<open>\<open>fread\<close> into a fresh buffer of \<open>n\<close> bytes, and \<open>fwrite\<close>, at a file offset.\<close>

definition file_read :: "host \<Rightarrow> u8 list \<Rightarrow> nat \<Rightarrow> nat \<Rightarrow> u8 list" where
  "file_read h img off n =
     map (\<lambda>i. if off + i < length img then img ! (off + i) else malloc_fill h i) [0..<n]"

definition file_write :: "u8 list \<Rightarrow> nat \<Rightarrow> u8 list \<Rightarrow> u8 list" where
  "file_write img off bs =
     (if bs = [] then img
      else take off (img @ replicate (off - length img) 0) @ bs @ drop (off + length bs) img)"

definition load_bytes :: "(u32 \<Rightarrow> u8) \<Rightarrow> nat \<Rightarrow> nat \<Rightarrow> u8 list" where
  "load_bytes m a n = map (\<lambda>i. m (of_nat (a + i))) [0..<n]"

definition store_bytes :: "(u32 \<Rightarrow> u8) \<Rightarrow> nat \<Rightarrow> u8 list \<Rightarrow> (u32 \<Rightarrow> u8)" where
  "store_bytes m a bs =
     (\<lambda>b. if a \<le> unat b \<and> unat b < a + length bs then bs ! (unat b - a) else m b)"

definition disk_transfer :: "host \<Rightarrow> int \<Rightarrow> nat \<Rightarrow> nat \<Rightarrow> nat \<Rightarrow> vm \<Rightarrow> vm" where
  "disk_transfer h cmd lba mem_addr count v =
     (if \<not> is_valid_dma v mem_addr count then v
      else let off = lba * DISK_SECTOR_SIZE; bytes = count * DISK_SECTOR_SIZE in
        if cmd = DISK_CMD_READ then
          (if \<not> malloc_ok h bytes then v
           else v\<lparr>memory := store_bytes (memory v) mem_addr (file_read h (dk_image (disk v)) off bytes)\<rparr>)
        else if cmd = DISK_CMD_WRITE then
          (if \<not> malloc_ok h bytes then v
           else v\<lparr>disk := (disk v)\<lparr>dk_image :=
                  file_write (dk_image (disk v)) off (load_bytes (memory v) mem_addr bytes)\<rparr>\<rparr>)
        else v)"

definition disk_worker :: "host \<Rightarrow> vm \<Rightarrow> vm" where
  "disk_worker h v =
     (if dk_current_cmd (disk v) = DISK_CMD_NONE \<and> dk_thread_running (disk v) then v
      else if \<not> dk_thread_running (disk v) then v
      else
        let v = disk_transfer h (dk_current_cmd (disk v)) (unat (dk_lba (disk v)))
                  (unat (dk_mem_addr (disk v))) (unat (dk_count (disk v))) v in
        v\<lparr>disk := (disk v)\<lparr>dk_current_cmd := DISK_CMD_NONE, dk_op_complete := True\<rparr>\<rparr>)"

definition disk_detect_size_bytes :: "int option \<Rightarrow> u64" where
  "disk_detect_size_bytes fend =
     (case fend of None \<Rightarrow> of_nat DISK_SIZE
      | Some e \<Rightarrow> if e < 0 then of_nat DISK_SIZE else of_int e)"

definition disk_init :: "u8 list option \<Rightarrow> vm \<Rightarrow> vm" where
  "disk_init file v =
     (let img = (case file of Some bs \<Rightarrow> bs | None \<Rightarrow> replicate DISK_SIZE 0) in
      v\<lparr>disk_size_bytes := disk_detect_size_bytes (Some (int (length img))),
        disk := (disk v)\<lparr>dk_lba := 0, dk_mem_addr := 0, dk_count := 0,
                         dk_status := DISK_STATUS_FREE, dk_current_cmd := DISK_CMD_NONE,
                         dk_op_complete := False, dk_thread_running := True,
                         dk_image := img\<rparr>\<rparr>)"

definition disk_close :: "vm \<Rightarrow> vm" where
  "disk_close v = v\<lparr>disk := (disk v)\<lparr>dk_thread_running := False\<rparr>\<rparr>"

definition disk_cmd :: "int \<Rightarrow> vm \<Rightarrow> vm" where
  "disk_cmd value v =
     (if dk_status (disk v) = DISK_STATUS_BUSY then v
      else v\<lparr>disk := (disk v)\<lparr>dk_current_cmd := value, dk_status := DISK_STATUS_BUSY,
                             dk_op_complete := False\<rparr>\<rparr>)"

definition disk_tick :: "vm \<Rightarrow> vm" where
  "disk_tick v =
     (if dk_status (disk v) = DISK_STATUS_FREE then v
      else if dk_op_complete (disk v) then
        trigger_interrupt INT_DISK_COMPLETE
          (v\<lparr>disk := (disk v)\<lparr>dk_status := DISK_STATUS_FREE, dk_op_complete := False\<rparr>\<rparr>)
      else v)"

section \<open>DMA stays in its buffer\<close>

lemma length_file_read [simp]: "length (file_read h im off n) = n"
  by (simp add: file_read_def)

lemma length_load_bytes [simp]: "length (load_bytes m a n) = n"
  by (simp add: load_bytes_def)

lemma store_bytes_other: "unat b < a \<or> a + length bs \<le> unat b \<Longrightarrow> store_bytes m a bs b = m b"
  by (auto simp: store_bytes_def)

lemma load_store_bytes:
  assumes "a + length bs \<le> 2 ^ 32"
  shows "load_bytes (store_bytes m a bs) a (length bs) = bs"
proof (rule nth_equalityI)
  fix i assume "i < length (load_bytes (store_bytes m a bs) a (length bs))"
  then have i: "i < length bs" by simp
  then have "unat (of_nat (a + i) :: u32) = a + i" using assms by (simp only: unat_of_nat) simp
  then show "load_bytes (store_bytes m a bs) a (length bs) ! i = bs ! i"
    using i by (simp add: load_bytes_def store_bytes_def)
qed simp

lemma file_read_write:
  assumes "bs \<noteq> []"
  shows "file_read h (file_write im off bs) off (length bs) = bs"
proof (rule nth_equalityI)
  fix i assume "i < length (file_read h (file_write im off bs) off (length bs))"
  then have i: "i < length bs" by simp
  let ?p = "take off (im @ replicate (off - length im) 0)"
  have p: "length ?p = off" by simp
  have w: "file_write im off bs = ?p @ bs @ drop (off + length bs) im"
    using assms by (simp add: file_write_def)
  have "(?p @ bs @ drop (off + length bs) im) ! (off + i) = bs ! i"
    using i p by (simp only: nth_append) simp
  moreover have "off + i < length (?p @ bs @ drop (off + length bs) im)"
    using i p by (simp only: length_append)
  ultimately show "file_read h (file_write im off bs) off (length bs) ! i = bs ! i"
    using i unfolding file_read_def w by simp
qed simp

lemma disk_transfer_memory:
  assumes "unat b < mem_addr \<or> mem_addr + count * 512 \<le> unat b"
  shows "memory (disk_transfer h cmd lba mem_addr count v) b = memory v b"
  using assms by (simp add: disk_transfer_def Let_def store_bytes_other)

lemma disk_transfer_rejected:
  "memory_size v < mem_addr + count * 512 \<Longrightarrow> disk_transfer h cmd lba mem_addr count v = v"
  by (simp add: disk_transfer_def is_valid_dma_def)

lemma disk_transfer_fields [simp]:
  "memory_size (disk_transfer h cmd lba a k v) = memory_size v"
  "cpus (disk_transfer h cmd lba a k v) = cpus v"
  "smp_cores (disk_transfer h cmd lba a k v) = smp_cores v"
  "interrupt_bitmap (disk_transfer h cmd lba a k v) = interrupt_bitmap v"
  "dk_status (disk (disk_transfer h cmd lba a k v)) = dk_status (disk v)"
  "dk_thread_running (disk (disk_transfer h cmd lba a k v)) = dk_thread_running (disk v)"
  "dk_current_cmd (disk (disk_transfer h cmd lba a k v)) = dk_current_cmd (disk v)"
  by (simp_all add: disk_transfer_def Let_def)

section \<open>The command protocol\<close>

datatype disk_event = D_cmd int | D_worker | D_tick

fun disk_step :: "host \<Rightarrow> disk_event \<Rightarrow> vm \<Rightarrow> vm" where
  "disk_step h (D_cmd x) v = disk_cmd x v"
| "disk_step h D_worker v = disk_worker h v"
| "disk_step h D_tick v = disk_tick v"

definition disk_inv :: "vm \<Rightarrow> bool" where
  "disk_inv v \<longleftrightarrow>
     (dk_status (disk v) = DISK_STATUS_FREE \<or> dk_status (disk v) = DISK_STATUS_BUSY)
     \<and> (dk_status (disk v) = DISK_STATUS_FREE \<longrightarrow>
          dk_current_cmd (disk v) = DISK_CMD_NONE \<and> \<not> dk_op_complete (disk v))
     \<and> (dk_op_complete (disk v) \<longrightarrow> dk_current_cmd (disk v) = DISK_CMD_NONE)"

lemma disk_init_inv: "disk_inv (disk_init f v)"
  by (simp add: disk_inv_def disk_init_def Let_def)

lemma disk_step_inv: "disk_inv v \<Longrightarrow> disk_inv (disk_step h e v)"
  by (cases e) (auto simp: disk_inv_def disk_cmd_def disk_tick_def disk_worker_def Let_def)

text \<open>Busy with no command and no completion: no event changes it.\<close>

definition disk_stuck :: "vm \<Rightarrow> bool" where
  "disk_stuck v \<longleftrightarrow>
     dk_status (disk v) = DISK_STATUS_BUSY \<and> dk_current_cmd (disk v) = DISK_CMD_NONE
     \<and> \<not> dk_op_complete (disk v)"

lemma disk_stuck_step: "disk_stuck v \<Longrightarrow> disk_stuck (disk_step h e v)"
  by (cases e) (auto simp: disk_stuck_def disk_cmd_def disk_tick_def disk_worker_def Let_def)

lemma disk_stuck_fold: "disk_stuck v \<Longrightarrow> disk_stuck (fold (disk_step h) es v)"
  by (induction es arbitrary: v) (simp_all add: disk_stuck_step)

section \<open>Properties\<close>

text \<open>C32: a turn of the disk worker changes a byte of guest memory only inside the transfer buffer that
  the registers name, and only when that whole buffer lies in RAM.\<close>

theorem disk_dma_bounded:
  assumes "memory (disk_worker h v) b \<noteq> memory v b"
  shows "unat (dk_mem_addr (disk v)) \<le> unat b
         \<and> unat b < unat (dk_mem_addr (disk v)) + unat (dk_count (disk v)) * DISK_SECTOR_SIZE
         \<and> unat (dk_mem_addr (disk v)) + unat (dk_count (disk v)) * DISK_SECTOR_SIZE \<le> memory_size v"
proof -
  let ?a = "unat (dk_mem_addr (disk v))" and ?n = "unat (dk_count (disk v))"
  have t: "memory (disk_transfer h (dk_current_cmd (disk v)) (unat (dk_lba (disk v))) ?a ?n v) b \<noteq> memory v b"
    using assms by (auto simp: disk_worker_def Let_def split: if_splits)
  then have "\<not> memory_size v < ?a + ?n * 512" using disk_transfer_rejected [of v ?a ?n] by auto
  moreover have "\<not> (unat b < ?a \<or> ?a + ?n * 512 \<le> unat b)"
    using t disk_transfer_memory [of b ?a ?n] by blast
  ultimately show ?thesis by linarith
qed

abbreviation (input) demo_disk :: "int \<Rightarrow> vm" where
  "demo_disk cmd \<equiv> demo_vm\<lparr>disk := disk_zero\<lparr>dk_thread_running := True, dk_current_cmd := cmd, dk_count := 1,
     dk_mem_addr := 0x3000, dk_image := [65, 66]\<rparr>\<rparr>"

theorem disk_dma_bounded_witness:
  "memory (disk_worker host_zero (demo_disk 1)) 0x3001 = 66 \<and> unat (0x3001 :: u32) < 0x3000 + 512"
proof -
  have "memory (disk_worker host_zero (demo_disk 1)) 0x3001 = 66"
    by (simp add: disk_worker_def disk_transfer_def Let_def is_valid_dma_def host_zero_def store_bytes_def
        file_read_def disk_zero_def)
  then show ?thesis using disk_dma_bounded [of host_zero "demo_disk 1" "0x3001"] by simp
qed

text \<open>sectors written from one buffer and read back into another give the bytes of the first
  buffer, whatever the image held.\<close>

theorem disk_sector_round_trip:
  assumes "0 < k" "a + k * 512 \<le> memory_size v" "b + k * 512 \<le> memory_size v" "memory_size v \<le> 2 ^ 32"
    and "malloc_ok h (k * 512)"
  shows "load_bytes (memory (disk_transfer h DISK_CMD_READ lba b k (disk_transfer h DISK_CMD_WRITE lba a k v)))
           b (k * 512)
         = load_bytes (memory v) a (k * 512)"
proof -
  let ?bs = "load_bytes (memory v) a (k * 512)"
  have "?bs \<noteq> []" using assms(1) length_load_bytes [of "memory v" a "k * 512"] by (metis length_greater_0_conv mult_pos_pos zero_less_numeral)
  then have "file_read h (file_write (dk_image (disk v)) (lba * 512) ?bs) (lba * 512) (k * 512) = ?bs"
    using file_read_write [of ?bs h "dk_image (disk v)" "lba * 512"] by simp
  moreover have "load_bytes (store_bytes m b ?bs) b (k * 512) = ?bs" for m
    using load_store_bytes [of b ?bs m] assms(3,4) by simp
  ultimately show ?thesis
    using assms by (simp add: disk_transfer_def is_valid_dma_def Let_def)
qed

theorem disk_sector_round_trip_witness:
  "load_bytes (memory (disk_transfer host_zero DISK_CMD_READ 7 0x4000 1
      (disk_transfer host_zero DISK_CMD_WRITE 7 0x3000 1 (demo_vm\<lparr>memory := (\<lambda>_. 0)(0x3000 := 5)\<rparr>)))) 0x4000 (1 * 512)
   = load_bytes ((\<lambda>_. 0)(0x3000 := 5)) 0x3000 (1 * 512)"
  using disk_sector_round_trip [of 1 "0x3000" "demo_vm\<lparr>memory := (\<lambda>_. 0)(0x3000 := 5)\<rparr>" "0x4000" host_zero 7]
  by (simp add: host_zero_def)

text \<open>a command given to a free disk makes it busy and blocks further commands; one turn of the
  worker and one tick later the disk is free again and its completion interrupt is pending on core 0.\<close>

theorem disk_command_completes:
  assumes "dk_status (disk v) = DISK_STATUS_FREE" "dk_thread_running (disk v)" "cmd \<noteq> DISK_CMD_NONE"
    and "0 < smp_cores v"
  shows "dk_status (disk (disk_cmd cmd v)) = DISK_STATUS_BUSY
     \<and> (\<forall>y. disk_cmd y (disk_cmd cmd v) = disk_cmd cmd v)
     \<and> dk_status (disk (disk_tick (disk_worker h (disk_cmd cmd v)))) = DISK_STATUS_FREE
     \<and> pending (disk_tick (disk_worker h (disk_cmd cmd v))) 0 2"
proof -
  have "pending (trigger_interrupt 2 w) 0 2" if "0 < smp_cores w" for w
    using pending_trigger [of 0 w 2 2 0] that by (simp add: trigger_interrupt_def)
  then show ?thesis using assms by (simp add: disk_cmd_def disk_worker_def disk_tick_def Let_def)
qed

theorem disk_command_completes_witness:
  "pending (disk_tick (disk_worker host_zero (disk_cmd 2 (demo_disk 0)))) 0 2"
  using disk_command_completes [of "demo_disk 0" 2 host_zero] by (simp add: disk_zero_def)

text \<open>command 0 given to a free disk leaves it busy with nothing to do: no later sequence of
  commands, worker turns and ticks makes it free again.\<close>

theorem disk_command_zero_hangs:
  assumes "dk_status (disk v) = DISK_STATUS_FREE"
  shows "dk_status (disk (fold (disk_step h) es (disk_cmd DISK_CMD_NONE v))) = DISK_STATUS_BUSY"
proof -
  have "disk_stuck (disk_cmd DISK_CMD_NONE v)" using assms by (simp add: disk_stuck_def disk_cmd_def)
  from disk_stuck_fold [OF this, of h es] show ?thesis by (simp add: disk_stuck_def)
qed

theorem disk_command_zero_hangs_witness:
  "dk_status (disk (fold (disk_step host_zero) [D_worker, D_tick, D_cmd 1, D_worker, D_tick] (disk_cmd 0 (demo_disk 0)))) = 1"
  using disk_command_zero_hangs [of "demo_disk 0" host_zero "[D_worker, D_tick, D_cmd 1, D_worker, D_tick]"]
  by (simp add: disk_zero_def del: disk_step.simps)

end
