(* ===== verification/Io.thy ===== *)
theory Io
  imports Disk Fifo
begin

text \<open>
  Port input and output (\<open>io.c\<close>), the serial receiver that the host window feeds (and the
  terminal reader of \<open>terminalin.c\<close> would feed, which nothing calls) and that \<open>IN\<close> from the keyboard port drains (the
  \<open>KEYBOARD\<close> branch of \<open>OP_IN\<close>), and the timer thread's loop body (\<open>timer.c\<close>). The
  terminal's output is the log \<open>serial_tx\<close>; a key is the value the non-blocking
  \<open>read\<close> delivered.

  The serial receiver provides the contract \<open>bounded_fifo\<close> with capacity 255, and
  its status bit says whether a byte is waiting.
\<close>

section \<open>Ports\<close>

abbreviation (input) SCREEN :: nat where "SCREEN \<equiv> 0x01"
abbreviation (input) SCREEN_ATTRIBUTE :: nat where "SCREEN_ATTRIBUTE \<equiv> 0x02"
abbreviation (input) KEYBOARD :: nat where "KEYBOARD \<equiv> 0x03"
abbreviation (input) DISK_CMD :: nat where "DISK_CMD \<equiv> 0x10"
abbreviation (input) DISK_LBA :: nat where "DISK_LBA \<equiv> 0x11"
abbreviation (input) DISK_MEM :: nat where "DISK_MEM \<equiv> 0x12"
abbreviation (input) DISK_COUNT :: nat where "DISK_COUNT \<equiv> 0x13"
abbreviation (input) CPU_CTX_CSP :: nat where "CPU_CTX_CSP \<equiv> 0xF0"
abbreviation (input) CPU_CTX_DSP :: nat where "CPU_CTX_DSP \<equiv> 0xF1"
abbreviation (input) CPU_CTX_IRQ_MASK :: nat where "CPU_CTX_IRQ_MASK \<equiv> 0xF2"
abbreviation (input) SERIAL_STATUS_RX_READY :: u32 where "SERIAL_STATUS_RX_READY \<equiv> 0x01"
abbreviation (input) SERIAL_STATUS_TX_READY :: u32 where "SERIAL_STATUS_TX_READY \<equiv> 0x02"
abbreviation (input) SERIAL_CTRL_RX_INT_ENABLE :: u32 where "SERIAL_CTRL_RX_INT_ENABLE \<equiv> 0x01"

definition set_io :: "nat \<Rightarrow> u32 \<Rightarrow> vm \<Rightarrow> vm" where
  "set_io p x v = v\<lparr>io := (io v)(p := x)\<rparr>"

definition vm_serial_rx_enqueue :: "u8 \<Rightarrow> vm \<Rightarrow> bool \<times> vm" where
  "vm_serial_rx_enqueue ch v =
     (let head = serial_rx_head v; tail = serial_rx_tail v; nxt = (head + 1) AND 0xFF in
      if nxt = tail then (False, v)
      else
        let was_empty = (head = tail);
            v = v\<lparr>serial_rx_fifo := (serial_rx_fifo v)(unat head := ch), serial_rx_head := nxt\<rparr> in
        if was_empty then
          let v = set_io KEYBOARD (ucast (serial_rx_fifo v (unat tail))) v;
              v = set_io SCREEN_ATTRIBUTE (io v SCREEN_ATTRIBUTE OR SERIAL_STATUS_RX_READY) v in
          (True, if drop_bit 8 (io v SCREEN_ATTRIBUTE) AND SERIAL_CTRL_RX_INT_ENABLE \<noteq> 0
                 then trigger_interrupt INT_SERIAL v else v)
        else (True, v))"

definition serial_rx_read :: "vm \<Rightarrow> u32 \<times> vm" where
  "serial_rx_read v =
     (let (x, v) = (if serial_rx_tail v \<noteq> serial_rx_head v
                    then (ucast (serial_rx_fifo v (unat (serial_rx_tail v))),
                          v\<lparr>serial_rx_tail := (serial_rx_tail v + 1) AND 0xFF\<rparr>)
                    else (0, v));
          v = (if serial_rx_tail v \<noteq> serial_rx_head v
               then let v = set_io KEYBOARD (ucast (serial_rx_fifo v (unat (serial_rx_tail v)))) v in
                    set_io SCREEN_ATTRIBUTE (io v SCREEN_ATTRIBUTE OR SERIAL_STATUS_RX_READY) v
               else let v = set_io KEYBOARD 0 v in
                    set_io SCREEN_ATTRIBUTE (io v SCREEN_ATTRIBUTE AND NOT SERIAL_STATUS_RX_READY) v);
          clear_mask = NOT (push_bit 3 1 OR push_bit 0 1);
          v = v\<lparr>interrupt_bitmap := (interrupt_bitmap v)(0 := interrupt_bitmap v 0 AND clear_mask)\<rparr>
      in (x, if serial_rx_tail v \<noteq> serial_rx_head v
                \<and> drop_bit 8 (io v SCREEN_ATTRIBUTE) AND SERIAL_CTRL_RX_INT_ENABLE \<noteq> 0
             then trigger_interrupt INT_SERIAL v else v))"

definition accept_io :: "int \<Rightarrow> u32 \<Rightarrow> vm \<Rightarrow> vm" where
  "accept_io addr value v =
     (if addr < 0 \<or> int IO_SIZE \<le> addr then v
      else let p = nat addr in
        if p = SCREEN then set_io SCREEN value (v\<lparr>serial_tx := serial_tx v @ [ucast value]\<rparr>)
        else if p = SCREEN_ATTRIBUTE then
          set_io SCREEN_ATTRIBUTE
            ((io v SCREEN_ATTRIBUTE AND 0xFF) OR push_bit 8 (value AND 0xFF)) v
        else if p = DISK_CMD then disk_cmd (sint value) (set_io DISK_CMD value v)
        else if p = DISK_LBA then set_io DISK_LBA value (v\<lparr>disk := (disk v)\<lparr>dk_lba := value\<rparr>\<rparr>)
        else if p = DISK_MEM then set_io DISK_MEM value (v\<lparr>disk := (disk v)\<lparr>dk_mem_addr := value\<rparr>\<rparr>)
        else if p = DISK_COUNT then set_io DISK_COUNT value (v\<lparr>disk := (disk v)\<lparr>dk_count := value\<rparr>\<rparr>)
        else set_io p value v)"

definition vm_handle_keyboard :: "int \<Rightarrow> vm \<Rightarrow> vm" where
  "vm_handle_keyboard key v =
     (if key \<noteq> - 1 then
        let key = (if key = 13 then 10 else key) in snd (vm_serial_rx_enqueue (of_int key) v)
      else v)"

section \<open>The timer thread\<close>

text \<open>One turn of the loop of \<open>timer_tick\<close>; \<open>None\<close> when the thread leaves the loop. Sleeps are idle.\<close>

definition timer_advance :: "u64 \<Rightarrow> u64 \<Rightarrow> u64 \<Rightarrow> u64" where
  "timer_advance deadline step now =
     (let deadline = deadline + step in
      if deadline < now
      then let behind = now - deadline; skip = behind div step + 1 in deadline + step * skip
      else deadline)"

definition timer_tick :: "host \<Rightarrow> vm \<Rightarrow> vm option" where
  "timer_tick h v =
     (if \<not> timer_thread_running v then None
      else if halted v then None
      else if \<not> timer_enabled v then Some (v\<lparr>timer_next_deadline_ns := 0\<rparr>)
      else let period_us = timer_period_us v in
        if period_us = 0 then Some (v\<lparr>timer_enabled := False, timer_next_deadline_ns := 0\<rparr>)
        else
          let step = ucast period_us * 1000 :: u64;
              now = host_monotonic_time_ns h v;
              v = v\<lparr>clock_reads := clock_reads v + 1\<rparr>;
              deadline = timer_next_deadline_ns v;
              (deadline, v) = (if deadline = 0 then (now + step, v\<lparr>timer_next_deadline_ns := now + step\<rparr>)
                               else (deadline, v)) in
          if now < deadline then Some v
          else
            let v = trigger_interrupt INT_TIMER v;
                now = host_monotonic_time_ns h v;
                v = v\<lparr>clock_reads := clock_reads v + 1\<rparr> in
            Some (v\<lparr>timer_next_deadline_ns := timer_advance deadline step now\<rparr>))"

section \<open>The serial receiver is a bounded queue\<close>

definition serial_content :: "vm \<Rightarrow> u8 list" where
  "serial_content v =
     ring_content (serial_rx_fifo v) 256 (unat (serial_rx_head v)) (unat (serial_rx_tail v))"

definition serial_ok :: "vm \<Rightarrow> bool" where
  "serial_ok v \<longleftrightarrow>
     unat (serial_rx_head v) < 256 \<and> unat (serial_rx_tail v) < 256
     \<and> (bit (io v SCREEN_ATTRIBUTE) 0 \<longleftrightarrow> serial_rx_head v \<noteq> serial_rx_tail v)"

definition serial_deq :: "vm \<Rightarrow> u8 option \<times> vm" where
  "serial_deq v =
     (if serial_rx_tail v = serial_rx_head v then None else Some (ucast (fst (serial_rx_read v))),
      snd (serial_rx_read v))"

lemma set_io_fields [simp]:
  "io (set_io p x v) = (io v)(p := x)"
  "serial_rx_fifo (set_io p x v) = serial_rx_fifo v"
  "serial_rx_head (set_io p x v) = serial_rx_head v"
  "serial_rx_tail (set_io p x v) = serial_rx_tail v"
  "memory (set_io p x v) = memory v"
  "memory_size (set_io p x v) = memory_size v"
  "cpus (set_io p x v) = cpus v"
  "smp_cores (set_io p x v) = smp_cores v"
  "mmio_devices (set_io p x v) = mmio_devices v"
  "mmio_cache_dev (set_io p x v) = mmio_cache_dev v"
  "mmio_cache_start (set_io p x v) = mmio_cache_start v"
  "mmio_cache_end (set_io p x v) = mmio_cache_end v"
  "core_released (set_io p x v) = core_released v"
  "interrupt_bitmap (set_io p x v) = interrupt_bitmap v"
  "disk (set_io p x v) = disk v"
  by (simp_all add: set_io_def)

lemma unat_next: "unat ((x + 1) AND 0xFF :: u16) = (unat x + 1) mod 256"
proof -
  have "(0xFF :: u16) = mask 8" by (rule ff_mask)
  then have "(x + 1) AND 0xFF = take_bit 8 (x + 1)" by (simp add: take_bit_eq_mask)
  then have "unat ((x + 1) AND 0xFF) = unat (x + 1) mod 256" by (simp add: take_bit_eq_mod unat_mod)
  also have "\<dots> = (unat x + 1) mod 65536 mod 256" by (simp add: unat_word_ariths)
  also have "\<dots> = (unat x + 1) mod 256" by (simp add: mod_mod_cancel)
  finally show ?thesis .
qed

lemma bit_rx_ready [simp]:
  "bit (x OR 1 :: u32) 0" "\<not> bit (x AND NOT 1 :: u32) 0"
  by (simp_all add: bit_simps)

lemma enqueue_room:
  assumes "serial_ok v" "length (serial_content v) < 255"
  shows "fst (vm_serial_rx_enqueue x v)" "serial_ok (snd (vm_serial_rx_enqueue x v))"
    "serial_content (snd (vm_serial_rx_enqueue x v)) = serial_content v @ [x]"
proof -
  let ?h = "unat (serial_rx_head v)" and ?t = "unat (serial_rx_tail v)"
  from assms(1) have ht: "?h < 256" "?t < 256" by (simp_all add: serial_ok_def)
  then have room: "(?h + 1) mod 256 \<noteq> ?t"
    using assms(2) ring_full [of ?h 256 ?t "serial_rx_fifo v"] by (simp add: serial_content_def)
  then have nf: "(serial_rx_head v + 1) AND 0xFF \<noteq> serial_rx_tail v"
    using unat_next [of "serial_rx_head v"] by auto
  show "fst (vm_serial_rx_enqueue x v)"
    using nf by (simp add: vm_serial_rx_enqueue_def Let_def)
  have "serial_rx_fifo (snd (vm_serial_rx_enqueue x v)) = (serial_rx_fifo v)(?h := x)"
    "serial_rx_head (snd (vm_serial_rx_enqueue x v)) = (serial_rx_head v + 1) AND 0xFF"
    "serial_rx_tail (snd (vm_serial_rx_enqueue x v)) = serial_rx_tail v"
    using nf by (simp_all add: vm_serial_rx_enqueue_def Let_def)
  note st = this
  show "serial_content (snd (vm_serial_rx_enqueue x v)) = serial_content v @ [x]"
    using ring_enq [OF ht room] unfolding serial_content_def st unat_next .
  have "bit (io (snd (vm_serial_rx_enqueue x v)) 2) 0"
    using nf assms(1) by (auto simp: vm_serial_rx_enqueue_def Let_def serial_ok_def)
  then show "serial_ok (snd (vm_serial_rx_enqueue x v))"
    using nf ht unfolding serial_ok_def st unat_next by simp
qed

lemma enqueue_full:
  assumes "serial_ok v" "length (serial_content v) = 255"
  shows "vm_serial_rx_enqueue x v = (False, v)"
proof -
  let ?h = "unat (serial_rx_head v)" and ?t = "unat (serial_rx_tail v)"
  have "(?h + 1) mod 256 = ?t"
    using assms ring_full [of ?h 256 ?t "serial_rx_fifo v"] by (simp add: serial_content_def serial_ok_def)
  then have "(serial_rx_head v + 1) AND 0xFF = serial_rx_tail v"
    by (simp only: word_unat_eq_iff unat_next)
  then show ?thesis by (simp add: vm_serial_rx_enqueue_def Let_def)
qed

lemma serial_rx_read_fields:
  "serial_rx_fifo (snd (serial_rx_read v)) = serial_rx_fifo v"
  "serial_rx_head (snd (serial_rx_read v)) = serial_rx_head v"
  "serial_rx_tail (snd (serial_rx_read v)) =
     (if serial_rx_tail v \<noteq> serial_rx_head v then (serial_rx_tail v + 1) AND 0xFF else serial_rx_tail v)"
  "bit (io (snd (serial_rx_read v)) SCREEN_ATTRIBUTE) 0
   \<longleftrightarrow> serial_rx_tail (snd (serial_rx_read v)) \<noteq> serial_rx_head v"
  by (simp_all add: serial_rx_read_def Let_def)

interpretation serial: bounded_fifo vm_serial_rx_enqueue serial_deq serial_content serial_ok 255
proof
  fix v x assume "serial_ok v" "length (serial_content v) < 255"
  then show "fst (vm_serial_rx_enqueue x v) \<and> serial_ok (snd (vm_serial_rx_enqueue x v))
      \<and> serial_content (snd (vm_serial_rx_enqueue x v)) = serial_content v @ [x]"
    using enqueue_room by blast
next
  fix v x assume "serial_ok v" "length (serial_content v) = 255"
  then show "\<not> fst (vm_serial_rx_enqueue x v) \<and> serial_ok (snd (vm_serial_rx_enqueue x v))
      \<and> serial_content (snd (vm_serial_rx_enqueue x v)) = serial_content v"
    by (simp add: enqueue_full)
next
  fix v x xs assume ok: "serial_ok v" and c: "serial_content v = x # xs"
  let ?h = "unat (serial_rx_head v)" and ?t = "unat (serial_rx_tail v)"
  have ht: "?h < 256" "?t < 256" using ok by (simp_all add: serial_ok_def)
  have ne: "?h \<noteq> ?t" using c ring_empty [OF ht, of "serial_rx_fifo v"] by (simp add: serial_content_def)
  then have ne': "serial_rx_tail v \<noteq> serial_rx_head v" by auto
  have "serial_content v = serial_rx_fifo v ?t # ring_content (serial_rx_fifo v) 256 ?h ((?t + 1) mod 256)"
    using ring_deq [OF ht ne] by (simp add: serial_content_def)
  then have x: "x = serial_rx_fifo v ?t" "xs = ring_content (serial_rx_fifo v) 256 ?h ((?t + 1) mod 256)"
    using c by simp_all
  have "fst (serial_deq v) = Some x" using ne' x(1) by (simp add: serial_deq_def serial_rx_read_def Let_def)
  moreover have "serial_ok (snd (serial_deq v))"
    using ht ne' unat_next [of "serial_rx_tail v"]
    by (auto simp: serial_ok_def serial_deq_def serial_rx_read_fields)
  moreover have "serial_content (snd (serial_deq v)) = xs"
    using ne' x(2) by (simp add: serial_content_def serial_deq_def serial_rx_read_fields unat_next)
  ultimately show "fst (serial_deq v) = Some x \<and> serial_ok (snd (serial_deq v))
      \<and> serial_content (snd (serial_deq v)) = xs" by blast
next
  fix v assume ok: "serial_ok v" and c: "serial_content v = []"
  then have "serial_rx_head v = serial_rx_tail v"
    using ring_empty [of "unat (serial_rx_head v)" 256 "unat (serial_rx_tail v)" "serial_rx_fifo v"]
    by (simp add: serial_content_def serial_ok_def word_unat_eq_iff)
  then show "fst (serial_deq v) = None \<and> serial_ok (snd (serial_deq v)) \<and> serial_content (snd (serial_deq v)) = []"
    using ok c by (auto simp: serial_deq_def serial_ok_def serial_content_def serial_rx_read_fields)
next
  fix v assume "serial_ok v"
  then show "length (serial_content v) \<le> 255"
    using ring_length_less [of 256 "serial_rx_fifo v"] by (simp add: serial_content_def less_Suc_eq_le [symmetric])
qed

lemma accept_io_serial_ok: "serial_ok v \<Longrightarrow> serial_ok (accept_io p x v)"
  by (auto simp: accept_io_def Let_def serial_ok_def disk_cmd_def bit_simps)

section \<open>Properties\<close>

lemma demo_serial_ok: "serial_ok demo_vm"
  by (simp add: serial_ok_def)

lemma serial_ready_content: "serial_ok v \<Longrightarrow> bit (io v 2) 0 \<longleftrightarrow> serial_content v \<noteq> []"
  using ring_empty [of "unat (serial_rx_head v)" 256 "unat (serial_rx_tail v)" "serial_rx_fifo v"]
  by (auto simp: serial_ok_def serial_content_def word_unat_eq_iff)

text \<open>a burst of received bytes is kept in order up to 255 waiting bytes and the rest is dropped;
  the ready bit of the status port is set exactly when a byte is waiting.\<close>

theorem serial_burst:
  assumes "serial_ok v"
  shows "let w = fold (\<lambda>x v. snd (vm_serial_rx_enqueue x v)) xs v in
           serial_content w = serial_content v @ take (255 - length (serial_content v)) xs
           \<and> (io w SCREEN_ATTRIBUTE AND SERIAL_STATUS_RX_READY \<noteq> 0 \<longleftrightarrow> serial_content w \<noteq> [])"
  using serial.enq_burst [OF assms, of xs] serial_ready_content by (simp add: Let_def)

theorem serial_burst_witness:
  "serial_content (fold (\<lambda>x v. snd (vm_serial_rx_enqueue x v)) [104, 105] demo_vm) = [104, 105]"
  using serial_burst [OF demo_serial_ok, of "[104, 105]"]
  by (simp add: Let_def serial_content_def ring_content_def)

text \<open>reading the keyboard port returns the oldest waiting byte and removes it, keeps the ready bit
  exact, and leaves the serial interrupt pending exactly when more bytes wait and it is enabled.\<close>

theorem serial_read_oldest:
  assumes "serial_ok v" "serial_content v = x # xs" "0 < smp_cores v"
  shows "fst (serial_rx_read v) = ucast x \<and> serial_content (snd (serial_rx_read v)) = xs
     \<and> (io (snd (serial_rx_read v)) SCREEN_ATTRIBUTE AND SERIAL_STATUS_RX_READY \<noteq> 0 \<longleftrightarrow> xs \<noteq> [])
     \<and> (pending (snd (serial_rx_read v)) 0 3 \<longleftrightarrow> xs \<noteq> [] \<and> bit (io v SCREEN_ATTRIBUTE) 8)"
proof -
  have d: "fst (serial_deq v) = Some x" "serial_ok (snd (serial_rx_read v))" "serial_content (snd (serial_rx_read v)) = xs"
    using serial.deq_cons [OF assms(1,2)] by (simp_all add: serial_deq_def)
  have ne: "serial_rx_tail v \<noteq> serial_rx_head v"
    using serial_ready_content [OF assms(1)] assms(1,2) by (auto simp: serial_ok_def)
  then have "fst (serial_rx_read v) = ucast x"
    using d(1) by (auto simp: serial_deq_def serial_rx_read_def Let_def)
  moreover have "xs \<noteq> [] \<longleftrightarrow> (serial_rx_tail v + 1) AND 0xFF \<noteq> serial_rx_head v"
    using serial_ready_content [OF d(2)] d(3) ne by (simp add: serial_rx_read_fields)
  moreover have "drop_bit 8 (y :: u32) AND 1 \<noteq> 0 \<longleftrightarrow> bit y 8" for y
    using and_exp_eq_0_iff_not_bit [of "drop_bit 8 y" 0] by (simp add: bit_simps del: and_mask_eq_0)
  moreover have "pending (trigger_interrupt 3 w) 0 3" if "0 < smp_cores w" for w
    using pending_trigger [of 0 w 3 3 0] that by (simp add: trigger_interrupt_def)
  ultimately show ?thesis
    using d(2,3) ne assms(3) serial_ready_content [OF d(2)]
    by (auto simp: serial_rx_read_def Let_def pending_def bit_simps)
qed

theorem serial_read_oldest_witness:
  "fst (serial_rx_read (snd (vm_serial_rx_enqueue 104 demo_vm))) = 104"
proof -
  let ?v = "snd (vm_serial_rx_enqueue 104 demo_vm)"
  have "serial_content demo_vm = []" by (simp add: serial_content_def ring_content_def)
  then have "serial_ok ?v \<and> serial_content ?v = [104]"
    using serial.enq_room [OF demo_serial_ok, of 104] by simp
  moreover have "0 < smp_cores ?v" by (simp add: vm_serial_rx_enqueue_def Let_def)
  ultimately show ?thesis using serial_read_oldest [of ?v 104 "[]"] by simp
qed

text \<open>The next deadline after firing: in natural numbers, then in words.\<close>

lemma catch_up_bounds:
  assumes "0 < (step :: nat)" "d + step < now"
  shows "now \<le> d + step + step * ((now - (d + step)) div step + 1)"
    "d + step + step * ((now - (d + step)) div step + 1) \<le> now + step"
proof -
  let ?b = "now - (d + step)"
  have "step * (?b div step) \<le> ?b" "?b < step * (?b div step) + step"
    using assms(1) by (simp, metis add.commute dividend_less_times_div mult.commute)
  moreover have "step * (?b div step + 1) = step * (?b div step) + step" by simp
  ultimately show "now \<le> d + step + step * (?b div step + 1)" "d + step + step * (?b div step + 1) \<le> now + step"
    using assms(2) by linarith+
qed

lemma timer_advance_unat:
  assumes "0 < unat step" "d \<le> now" "unat now + 2 * unat step < 2 ^ 64"
  shows "unat (timer_advance d step now) =
     (if unat d + unat step < unat now
      then unat d + unat step + unat step * ((unat now - (unat d + unat step)) div unat step + 1)
      else unat d + unat step)"
proof -
  have d: "unat d \<le> unat now" using assms(2) by (simp add: word_le_nat_alt)
  then have e: "unat (d + step) = unat d + unat step" using assms(3) by (simp add: unat_word_ariths)
  show ?thesis
  proof (cases "d + step < now")
    case True
    then have lt: "unat d + unat step < unat now" using e by (simp add: word_less_nat_alt)
    let ?k = "(unat now - (unat d + unat step)) div unat step"
    have b: "unat d + unat step + unat step * (?k + 1) \<le> unat now + unat step"
      by (rule catch_up_bounds(2) [OF assms(1) lt])
    have "unat ((now - (d + step)) div step) = ?k"
      using True e by (simp add: unat_div unat_sub)
    moreover have "?k + 1 \<le> unat step * (?k + 1)" using assms(1) by (cases "unat step") simp_all
    ultimately have "unat ((now - (d + step)) div step + 1) = ?k + 1"
      using b assms(3) by (simp add: unat_word_ariths)
    then have "unat (step * ((now - (d + step)) div step + 1)) = unat step * (?k + 1)"
      using b assms(3) by (simp add: unat_word_ariths)
    then show ?thesis using True lt e b assms(3) by (simp add: timer_advance_def Let_def unat_word_ariths)
  next
    case False
    then show ?thesis using e by (simp add: timer_advance_def Let_def word_less_nat_alt)
  qed
qed

lemma timer_advance_bounds:
  assumes "0 < unat step" "d \<le> now" "unat now + 2 * unat step < 2 ^ 64"
  shows "unat now \<le> unat (timer_advance d step now)" "unat (timer_advance d step now) \<le> unat now + unat step"
    "unat step dvd unat (timer_advance d step now) - unat d"
proof -
  have d: "unat d \<le> unat now" using assms(2) by (simp add: word_le_nat_alt)
  have "unat now \<le> unat (timer_advance d step now) \<and> unat (timer_advance d step now) \<le> unat now + unat step
     \<and> (\<exists>k. unat (timer_advance d step now) - unat d = unat step * k)"
  proof (cases "unat d + unat step < unat now")
    case True
    let ?k = "(unat now - (unat d + unat step)) div unat step"
    have "unat d + unat step + unat step * (?k + 1) - unat d = unat step * (?k + 2)" by simp
    then show ?thesis
      using True catch_up_bounds [OF assms(1) True] timer_advance_unat [OF assms] by (metis)
  next
    case False
    then have "unat d + unat step - unat d = unat step * 1" by simp
    then show ?thesis using False d timer_advance_unat [OF assms] by (metis add_le_mono1 not_less)
  qed
  then show "unat now \<le> unat (timer_advance d step now)" "unat (timer_advance d step now) \<le> unat now + unat step"
    "unat step dvd unat (timer_advance d step now) - unat d"
    by (auto simp: dvd_def)
qed

lemma period_ns: "unat (ucast (p :: u32) * 1000 :: u64) = unat p * 1000"
proof -
  have p: "unat p < 2 ^ 32" using unsigned_less [of p, where ?'a = nat] by simp
  then have "unat (ucast p :: u64) = unat p" by (simp add: unsigned_ucast_eq take_bit_eq_mod)
  then show ?thesis using p by (simp add: unat_word_ariths)
qed

text \<open>when the timer's deadline has passed, its turn raises the timer interrupt on core 0 and moves
  the deadline by whole periods to a time not before now and at most one period after it; missed periods
  are skipped (as long as the clock is two periods away from the end of 64 bits).\<close>

theorem timer_fires_and_catches_up:
  assumes "timer_thread_running v" "\<not> halted v" "timer_enabled v" "timer_period_us v \<noteq> 0" "0 < smp_cores v"
    and "timer_next_deadline_ns v \<noteq> 0" "timer_next_deadline_ns v \<le> host_monotonic_time_ns h v"
    and "now = host_monotonic_time_ns h (v\<lparr>clock_reads := clock_reads v + 1\<rparr>)"
    and "timer_next_deadline_ns v \<le> now" "unat now + 2 * (unat (timer_period_us v) * 1000) < 2 ^ 64"
  shows "\<exists>w. timer_tick h v = Some w \<and> pending w 0 4 \<and> unat now \<le> unat (timer_next_deadline_ns w)
             \<and> unat (timer_next_deadline_ns w) \<le> unat now + unat (timer_period_us v) * 1000
             \<and> unat (timer_period_us v) * 1000 dvd unat (timer_next_deadline_ns w) - unat (timer_next_deadline_ns v)"
proof -
  let ?s = "ucast (timer_period_us v) * 1000 :: u64" and ?d = "timer_next_deadline_ns v"
  let ?u = "trigger_interrupt 4 (v\<lparr>clock_reads := clock_reads v + 1\<rparr>)"
  let ?w = "?u\<lparr>clock_reads := clock_reads ?u + 1, timer_next_deadline_ns := timer_advance ?d ?s now\<rparr>"
  have "clock_reads ?u = clock_reads v + 1" by (simp add: trigger_interrupt_def trigger_interrupt_target_def Let_def)
  then have now: "host_monotonic_time_ns h ?u = now" using assms(8) by (simp add: host_monotonic_time_ns_def)
  have "timer_tick h v = Some ?w"
    using assms(1-4,6,7) now by (simp add: timer_tick_def Let_def linorder_not_less)
  moreover have "pending ?u 0 4"
    using pending_trigger [of 0 "v\<lparr>clock_reads := clock_reads v + 1\<rparr>" 4 4 0] assms(5) by (simp add: trigger_interrupt_def)
  then have "pending ?w 0 4" by (simp add: pending_def)
  moreover have "0 < unat ?s" using assms(4) by (simp only: period_ns) (simp add: unat_gt_0)
  ultimately show ?thesis
    using timer_advance_bounds [of ?s ?d now] assms(9,10) period_ns [of "timer_period_us v"] by auto
qed

abbreviation (input) demo_timer :: vm where
  "demo_timer \<equiv> demo_vm\<lparr>timer_thread_running := True, timer_enabled := True, timer_period_us := 1000,
     timer_next_deadline_ns := 1\<rparr>"

abbreviation (input) host_5ms :: host where
  "host_5ms \<equiv> host_zero\<lparr>clock_monotonic := \<lambda>_. (0, 5000000)\<rparr>"

theorem timer_fires_and_catches_up_witness:
  "\<exists>w. timer_tick host_5ms demo_timer = Some w \<and> pending w 0 4
       \<and> 5000000 \<le> unat (timer_next_deadline_ns w) \<and> unat (timer_next_deadline_ns w) \<le> 6000000"
  using timer_fires_and_catches_up [of demo_timer host_5ms 5000000]
  by (auto simp: host_monotonic_time_ns_def)

end
