(* ===== verification/Bios.thy ===== *)
theory Bios
  imports VmInfo Sysframe Io
begin

text \<open>
  The BIOS of the machine (\<open>bios/bios.c\<close>): it publishes the boot information, reads the kernel from disk and
  loads its ELF segments.

  The code runs on the machine, so its state is the machine: volatile accesses to device registers and to the
  boot information go through the bus (\<open>vm_read32\<close>, \<open>vm_write32\<close>), and so do the byte copies of the segments
  (\<open>vm_read8\<close>, \<open>vm_write8\<close>), which panic outside of RAM; the ELF headers are read from the buffer, which is plain RAM. Waiting for
  the disk is a loop in which the other threads of the machine take turns; the interrupt handler
  that sets \<open>disk_done\<close> runs as soon as the completion interrupt is pending on core 0, and \<open>disk_done\<close> is not a
  variable of its own. The \<open>HALT\<close> instruction and the jump to the kernel end the program.
\<close>

section \<open>Memory and ports\<close>

abbreviation (input) SYSINFO_MMIO_BASE :: u32 where "SYSINFO_MMIO_BASE \<equiv> 0x0074C000"
abbreviation (input) SYSINFO_MAGIC :: u32 where "SYSINFO_MAGIC \<equiv> 0x31494D56"
abbreviation (input) SYSINFO_COPY_START :: u32 where "SYSINFO_COPY_START \<equiv> 0x04"
abbreviation (input) SYSINFO_COPY_END :: u32 where "SYSINFO_COPY_END \<equiv> 0x58"
abbreviation (input) KERNEL_LBA :: u32 where "KERNEL_LBA \<equiv> 1"
abbreviation (input) KERNEL_ELF_BUF :: u32 where "KERNEL_ELF_BUF \<equiv> 0x00300000"
abbreviation (input) KERNEL_ELF_MAX :: u32 where "KERNEL_ELF_MAX \<equiv> 524288"
abbreviation (input) PT_LOAD :: u32 where "PT_LOAD \<equiv> 1"

definition out_io :: "u32 \<Rightarrow> u32 \<Rightarrow> vm \<Rightarrow> vm" where
  "out_io addr val v = accept_io (sint addr) val v"

definition write_u32 :: "u32 \<Rightarrow> u32 \<Rightarrow> vm \<Rightarrow> vm_error + vm" where
  "write_u32 a x v = vm_write32 v a x"

definition write_u64 :: "u32 \<Rightarrow> u64 \<Rightarrow> vm \<Rightarrow> vm_error + vm" where
  "write_u64 a x v = bind_res (write_u32 a (lo32 x) v) (write_u32 (a + 4) (hi32 x))"

definition read_u32 :: "host \<Rightarrow> u32 \<Rightarrow> vm \<Rightarrow> vm_error + u32 \<times> vm" where
  "read_u32 h a v = vm_read32 h v a"

text \<open>The byte loops: each round is a byte load and a byte store of the machine, which panic outside of RAM and reach the
  frame buffer through its windows.\<close>

definition memcpy8 :: "u32 \<Rightarrow> u32 \<Rightarrow> nat \<Rightarrow> vm \<Rightarrow> vm_error + vm" where
  "memcpy8 d s n v =
     fold (\<lambda>i r. bind_res r (\<lambda>v. bind_res (vm_read8 v (s + of_nat i)) (\<lambda>x. vm_write8 v (d + of_nat i) x))) [0..<n] (Inr v)"

definition memset8 :: "u32 \<Rightarrow> u8 \<Rightarrow> nat \<Rightarrow> vm \<Rightarrow> vm_error + vm" where
  "memset8 d x n v = fold (\<lambda>i r. bind_res r (\<lambda>v. vm_write8 v (d + of_nat i) x)) [0..<n] (Inr v)"

section \<open>Boot information\<close>

function publish_loop :: "host \<Rightarrow> u32 \<Rightarrow> u32 \<Rightarrow> vm \<Rightarrow> vm_error + vm" where
  "publish_loop h sysinfo_off bootinfo_off v =
     (if sysinfo_off \<le> SYSINFO_COPY_END then
        bind_res (read_u32 h (SYSINFO_MMIO_BASE + sysinfo_off) v) (\<lambda>(x, v).
        bind_res (write_u32 (BOOTINFO_ADDR + bootinfo_off) x v) (\<lambda>v.
        publish_loop h (sysinfo_off + 4) (bootinfo_off + 4) v))
      else Inr v)"
  by pat_completeness auto

termination
  by (relation "measure (\<lambda>(h, a, b, v). 0x60 - unat a)") (auto simp: word_le_nat_alt unat_word_ariths)

declare publish_loop.simps [simp del]

definition bios_publish_boot_info :: "host \<Rightarrow> vm \<Rightarrow> vm_error + vm" where
  "bios_publish_boot_info h v =
     bind_res (read_u32 h (SYSINFO_MMIO_BASE + 0x00) v) (\<lambda>(magic, v).
     if magic \<noteq> SYSINFO_MAGIC then write_u32 (BOOTINFO_ADDR + 0x00) 0 v
     else
       bind_res (write_u32 (BOOTINFO_ADDR + 0x00) BOOTINFO_MAGIC v) (\<lambda>v.
       bind_res (write_u32 (BOOTINFO_ADDR + 0x04) BOOTINFO_VERSION v) (\<lambda>v.
       bind_res (write_u32 (BOOTINFO_ADDR + 0x08) BOOTINFO_SIZE v) (\<lambda>v.
       publish_loop h SYSINFO_COPY_START 0x0C v))))"

definition bios_register_isr :: "u32 \<Rightarrow> u32 \<Rightarrow> vm \<Rightarrow> vm_error + vm" where
  "bios_register_isr int_no handler v = write_u64 (0 + int_no * 8) (ucast handler) v"

section \<open>The boot information reaches the kernel\<close>

text \<open>The machine as \<open>vm_create\<close> leaves it: the boot devices and 64 MB of RAM. Bus accesses to registers change the
  cache of the bus only.\<close>

definition boot_bus :: "vm \<Rightarrow> bool" where
  "boot_bus v \<longleftrightarrow> bus_ok v \<and> mmio_devices v = boot_devices \<and> memory_size v = MEM_SIZE"

definition upto_bus :: "vm \<Rightarrow> vm \<Rightarrow> bool" where
  "upto_bus v w \<longleftrightarrow> v\<lparr>memory := memory w, mmio_cache_dev := mmio_cache_dev w, mmio_cache_start := mmio_cache_start w,
                      mmio_cache_end := mmio_cache_end w\<rparr> = w"

definition info_reg :: "vm \<Rightarrow> u32 \<Rightarrow> u32" where
  "info_reg v off = fst (sysinfo_read32 host_zero v (SYSINFO_MMIO_BASE + off))"

lemma upto_bus_trans: "upto_bus u v \<Longrightarrow> upto_bus v w \<Longrightarrow> upto_bus u w"
  unfolding upto_bus_def by (cases u; cases v; cases w) simp

lemma upto_bus_same:
  assumes "upto_bus v w"
  shows "info_reg w off = info_reg v off" "mmio_devices w = mmio_devices v" "memory_size w = memory_size v"
proof -
  obtain m d a b where w: "w = v\<lparr>memory := m, mmio_cache_dev := d, mmio_cache_start := a, mmio_cache_end := b\<rparr>"
    using assms unfolding upto_bus_def by metis
  show "info_reg w off = info_reg v off" "mmio_devices w = mmio_devices v" "memory_size w = memory_size v"
    unfolding w by (simp_all add: info_reg_def sysinfo_read32_def Let_def sysinfo_feature_bits_def)
qed

lemma find_mmio_upto:
  assumes "bus_ok v" "dev_at v a = Some d"
  obtains w where "find_mmio v a = (Some d, w)" "upto_bus v w" "bus_ok w" "memory w = memory v"
proof -
  have "fst (find_mmio v a) = Some d" using assms by (simp add: find_mmio_dev)
  then have "find_mmio v a = (Some d, snd (find_mmio v a))" by (metis prod.collapse)
  moreover have "upto_bus v (snd (find_mmio v a))" "memory (snd (find_mmio v a)) = memory v"
    by (auto simp: find_mmio_def find_mmio_loop_def upto_bus_def split: option.split)
  ultimately show ?thesis using find_mmio_bus_ok [OF assms(1)] that by blast
qed

lemma read_info:
  assumes "boot_bus v" "off \<le> 0x58"
  obtains w where "read_u32 h (SYSINFO_MMIO_BASE + off) v = Inr (info_reg v off, w)" "upto_bus v w" "boot_bus w" "memory w = memory v"
proof -
  let ?a = "SYSINFO_MMIO_BASE + off"
  let ?d = "\<lparr>dev_start = 0x74C000, dev_end = 0x74C05B, dev_read32 = Some Sysinfo_handler, dev_write32 = Some Sysinfo_handler\<rparr> :: mmio_device"
  have "unat off \<le> 88" using assms(2) by (simp add: word_le_nat_alt)
  then have "unat ?a = 0x74C000 + unat off" by (simp add: unat_word_ariths)
  then have "dev_covers ?a ?d" using \<open>unat off \<le> 88\<close> by (simp add: dev_covers_def word_le_nat_alt)
  then have d: "dev_at v ?a = Some ?d"
    using assms(1) boot_devices_disjoint unfolding dev_at_def boot_bus_def by (intro find_unique) auto
  obtain w1 where w1: "find_mmio v ?a = (Some ?d, w1)" "upto_bus v w1" "bus_ok w1" "memory w1 = memory v"
    using find_mmio_upto assms(1) d by (metis boot_bus_def)
  have "dev_at w1 ?a = Some ?d" using d upto_bus_same(2) [OF w1(2)] by (simp add: dev_at_def)
  then obtain w2 where w2: "find_mmio w1 ?a = (Some ?d, w2)" "upto_bus w1 w2" "bus_ok w2" "memory w2 = memory w1"
    using find_mmio_upto w1(3) by metis
  have u: "upto_bus v w2" using upto_bus_trans w1(2) w2(2) .
  have "sysinfo_read32 h w2 ?a = (info_reg w2 off, w2)" by (simp add: info_reg_def sysinfo_read32_def Let_def)
  then have "read_u32 h ?a v = Inr (info_reg v off, w2)"
    using w1(1) w2(1) upto_bus_same(1) [OF u] by (simp add: read_u32_def vm_read32_def vm_mmio_read32_def mmio_read_fn_def)
  moreover have "boot_bus w2" using assms(1) w2(3) upto_bus_same(2,3) [OF u] by (simp add: boot_bus_def)
  ultimately show ?thesis using that u w1(4) w2(4) by simp
qed

text \<open>Word \<open>j\<close> of the boot information block.\<close>

definition info_word :: "vm \<Rightarrow> nat \<Rightarrow> u32" where
  "info_word v j = load32 (memory v) (BOOTINFO_ADDR + of_nat (4 * j))"

lemma info_addr: "j < 25 \<Longrightarrow> unat (BOOTINFO_ADDR + of_nat (4 * j) :: u32) = 0x2FF000 + 4 * j"
  by (simp add: unat_word_ariths unsigned_of_nat take_bit_nat_eq_self)

lemma write_info:
  assumes "boot_bus v" "i < 25"
  obtains w where "write_u32 (BOOTINFO_ADDR + of_nat (4 * i)) x v = Inr w" "upto_bus v w" "boot_bus w"
    "\<forall>j<25. info_word w j = (if j = i then x else info_word v j)"
proof -
  let ?a = "BOOTINFO_ADDR + of_nat (4 * i) :: u32"
  let ?w = "v\<lparr>mmio_cache_dev := None, memory := store32 (memory v) ?a x\<rparr>"
  have a: "unat ?a = 0x2FF000 + 4 * i" using info_addr [OF assms(2)] .
  then have "dev_at v ?a = None" "in_ram v ?a 4"
    using assms dev_at_boot [of v ?a] by (auto simp: boot_bus_def word_le_nat_alt in_ram_def)
  then have "write_u32 ?a x v = Inr ?w"
    using assms(1) vm_write32_ram [of v ?a x] by (simp add: write_u32_def boot_bus_def)
  moreover have "upto_bus v ?w" by (simp add: upto_bus_def)
  moreover have "bus_ok v" using assms(1) by (simp add: boot_bus_def)
  then have "bus_ok ?w" by (simp add: bus_ok_def cache_ok_def)
  then have "boot_bus ?w" using assms(1) by (simp add: boot_bus_def)
  moreover have "info_word ?w j = (if j = i then x else info_word v j)" if "j < 25" for j
  proof (cases "j = i")
    case False
    then have "4 * j + 4 \<le> 4 * i \<or> 4 * i + 4 \<le> 4 * j" by linarith
    then have "load32 (store32 (memory v) ?a x) (BOOTINFO_ADDR + of_nat (4 * j)) = load32 (memory v) (BOOTINFO_ADDR + of_nat (4 * j))"
      using a info_addr [OF that] assms(2) that by (intro load32_store32_other) auto
    then show ?thesis using False by (simp add: info_word_def)
  qed (simp add: info_word_def)
  ultimately show ?thesis using that by blast
qed

lemma publish_loop_copies:
  assumes "boot_bus v" "i \<le> 22"
  shows "\<exists>w. publish_loop h (of_nat (4 * i + 4)) (of_nat (4 * (i + 3))) v = Inr w \<and> upto_bus v w
           \<and> (\<forall>j<25. info_word w j = (if i + 3 \<le> j then info_reg v (of_nat (4 * (j - 2))) else info_word v j))"
  using assms
proof (induction "22 - i" arbitrary: i v)
  case 0
  then have "i = 22" by simp
  then show ?case by (subst publish_loop.simps) (auto simp: upto_bus_def)
next
  case (Suc n)
  have i: "i < 22" using Suc.hyps(2) by simp
  let ?o = "of_nat (4 * i + 4) :: u32"
  have o: "unat ?o = 4 * i + 4" using i by (simp only: unsigned_of_nat) (simp add: take_bit_nat_eq_self)
  then have le: "?o \<le> 0x58" using i by (simp only: word_le_nat_alt) simp
  obtain w1 where w1: "read_u32 h (SYSINFO_MMIO_BASE + ?o) v = Inr (info_reg v ?o, w1)" "upto_bus v w1" "boot_bus w1" "memory w1 = memory v"
    using read_info [OF Suc.prems(1) le] by blast
  obtain w2 where w2: "write_u32 (BOOTINFO_ADDR + of_nat (4 * (i + 3))) (info_reg v ?o) w1 = Inr w2" "upto_bus w1 w2" "boot_bus w2"
      "\<forall>j<25. info_word w2 j = (if j = i + 3 then info_reg v ?o else info_word w1 j)"
    by (rule write_info [OF w1(3), of "i + 3" "info_reg v ?o"]) (use i in simp)
  have u: "upto_bus v w2" using upto_bus_trans w1(2) w2(2) .
  obtain w where w: "publish_loop h (of_nat (4 * Suc i + 4)) (of_nat (4 * (Suc i + 3))) w2 = Inr w" "upto_bus w2 w"
      "\<forall>j<25. info_word w j = (if Suc i + 3 \<le> j then info_reg w2 (of_nat (4 * (j - 2))) else info_word w2 j)"
    using Suc.hyps(1) [OF _ w2(3), of "Suc i"] Suc.hyps(2) i by fastforce
  have nx: "?o + 4 = of_nat (4 * Suc i + 4)" "of_nat (4 * (i + 3)) + 4 = (of_nat (4 * (Suc i + 3)) :: u32)" by simp_all
  have "publish_loop h ?o (of_nat (4 * (i + 3))) v = Inr w"
    by (subst publish_loop.simps) (simp only: le if_True w1(1) w2(1) bind_res_simps prod.case nx w(1))
  moreover have "info_word w j = (if i + 3 \<le> j then info_reg v (of_nat (4 * (j - 2))) else info_word v j)" if "j < 25" for j
  proof (cases "j = i + 3")
    case True
    then have "4 * (j - 2) = 4 * i + 4" by simp
    then show ?thesis using True w(3) w2(4) that by (simp add: add.commute)
  next
    case False
    moreover have "info_word w1 j = info_word v j" using w1(4) by (simp add: info_word_def)
    ultimately show ?thesis using w(3) w2(4) that upto_bus_same(1) [OF u] by auto
  qed
  ultimately show ?case using upto_bus_trans [OF u w(2)] by blast
qed

text \<open>C25: The boot information that the BIOS leaves in RAM is accepted by the kernel, and every field the kernel reads has
  the value of the machine's system information register.\<close>

theorem boot_info_reaches_kernel:
  assumes "boot_bus v"
  shows "\<exists>w. bios_publish_boot_info h v = Inr w \<and>
     vm_info_load_boot (Some b) (s\<lparr>umem := memory w\<rparr>) =
       (True, Some \<lparr>bi_magic = BOOTINFO_MAGIC, bi_version = 2, bi_size = 0x64,
          vendor_words = List.map (\<lambda>i. sysinfo_vendor_words v i) [0, 1, 2, 3],
          mem_bytes_lo = 0x4000000, mem_bytes_hi = 0,
          disk_bytes_lo = lo32 (disk_size_bytes v), disk_bytes_hi = hi32 (disk_size_bytes v),
          bi_smp_cores = of_nat (smp_cores v), layout_version = 2, arch_id = 1, endian = 1, phys_addr_bits = 32,
          page_size = 4096, timer_freq_hz = 1000000000, features = sysinfo_feature_bits v,
          bi_fb_width = 640, bi_fb_height = 480, bi_fb_bpp = 4, fb_stride_bytes = 2560,
          boot_realtime_ns_lo = lo32 (start_realtime_ns v), boot_realtime_ns_hi = hi32 (start_realtime_ns v)\<rparr>)"
proof -
  have m: "info_reg v 0 = SYSINFO_MAGIC" by (simp add: info_reg_def sysinfo_read32_def Let_def)
  obtain w0 where w0: "read_u32 h (SYSINFO_MMIO_BASE + 0) v = Inr (info_reg v 0, w0)" "upto_bus v w0" "boot_bus w0" "memory w0 = memory v"
    using read_info [OF assms, of 0] by auto
  obtain w1 where w1: "write_u32 (BOOTINFO_ADDR + of_nat (4 * 0)) BOOTINFO_MAGIC w0 = Inr w1" "upto_bus w0 w1" "boot_bus w1"
      "\<forall>j<25. info_word w1 j = (if j = 0 then BOOTINFO_MAGIC else info_word w0 j)"
    by (rule write_info [OF w0(3), of 0 BOOTINFO_MAGIC]) simp
  obtain w2 where w2: "write_u32 (BOOTINFO_ADDR + of_nat (4 * 1)) 2 w1 = Inr w2" "upto_bus w1 w2" "boot_bus w2"
      "\<forall>j<25. info_word w2 j = (if j = 1 then 2 else info_word w1 j)"
    by (rule write_info [OF w1(3), of 1 2]) simp
  obtain w3 where w3: "write_u32 (BOOTINFO_ADDR + of_nat (4 * 2)) 0x64 w2 = Inr w3" "upto_bus w2 w3" "boot_bus w3"
      "\<forall>j<25. info_word w3 j = (if j = 2 then 0x64 else info_word w2 j)"
    by (rule write_info [OF w2(3), of 2 "0x64"]) simp
  have u: "upto_bus v w3" using upto_bus_trans w0(2) w1(2) w2(2) w3(2) by blast
  obtain w where w: "publish_loop h 4 0xC w3 = Inr w"
      "\<forall>j<25. info_word w j = (if 3 \<le> j then info_reg v (of_nat (4 * (j - 2))) else info_word w3 j)"
    using publish_loop_copies [OF w3(3), of 0 h] upto_bus_same(1) [OF u] by auto
  have "bios_publish_boot_info h v = Inr w"
    using w0(1) w1(1) w2(1) w3(1) w(1) m by (simp add: bios_publish_boot_info_def)
  moreover have f: "info_word w j = (if j = 0 then BOOTINFO_MAGIC else if j = 1 then 2 else if j = 2 then 0x64
      else info_reg v (of_nat (4 * (j - 2))))" if "j < 25" for j
    using w(2) w3(4) w2(4) w1(4) that by auto
  then have r: "vm_info_read32 (BOOTINFO_ADDR + of_nat (4 * j)) (s\<lparr>umem := memory w\<rparr>) =
      (if j = 0 then BOOTINFO_MAGIC else if j = 1 then 2 else if j = 2 then 0x64 else info_reg v (of_nat (4 * (j - 2))))" if "j < 25" for j
    using f [OF that] by (simp add: vm_info_read32_def info_word_def)
  note rs = r [of 0, simplified] r [of 1, simplified] r [of 2, simplified] r [of 3, simplified] r [of 4, simplified] r [of 5, simplified]
    r [of 6, simplified] r [of 7, simplified] r [of 8, simplified] r [of 9, simplified] r [of 10, simplified] r [of 11, simplified]
    r [of 12, simplified] r [of 13, simplified] r [of 14, simplified] r [of 15, simplified] r [of 16, simplified] r [of 17, simplified]
    r [of 18, simplified] r [of 19, simplified] r [of 20, simplified] r [of 21, simplified] r [of 22, simplified] r [of 23, simplified]
    r [of 24, simplified]
  have four: "[0..<4] = [0, 1, 2, 3 :: nat]" by (simp add: upt_rec)
  have size: "memory_size v = 0x4000000" using assms by (simp add: boot_bus_def)
  have "vm_info_load_boot (Some b) (s\<lparr>umem := memory w\<rparr>) =
       (True, Some \<lparr>bi_magic = BOOTINFO_MAGIC, bi_version = 2, bi_size = 0x64,
          vendor_words = [info_reg v 4, info_reg v 8, info_reg v 12, info_reg v 16],
          mem_bytes_lo = info_reg v 20, mem_bytes_hi = info_reg v 24, disk_bytes_lo = info_reg v 28, disk_bytes_hi = info_reg v 32,
          bi_smp_cores = info_reg v 36, layout_version = info_reg v 40, arch_id = info_reg v 44, endian = info_reg v 48,
          phys_addr_bits = info_reg v 52, page_size = info_reg v 56, timer_freq_hz = info_reg v 60, features = info_reg v 64,
          bi_fb_width = info_reg v 68, bi_fb_height = info_reg v 72, bi_fb_bpp = info_reg v 76, fb_stride_bytes = info_reg v 80,
          boot_realtime_ns_lo = info_reg v 84, boot_realtime_ns_hi = info_reg v 88\<rparr>)"
    by (simp add: vm_info_load_boot_def Let_def four rs)
  ultimately show ?thesis by (simp add: info_reg_def sysinfo_read32_def Let_def size)
qed

theorem boot_info_reaches_kernel_witness:
  "\<forall>b. \<exists>w info. bios_publish_boot_info host_zero demo_vm = Inr w
     \<and> vm_info_load_boot (Some b) (demo_kernel\<lparr>umem := memory w\<rparr>) = (True, Some info) \<and> mem_bytes_lo info = 0x4000000"
proof
  fix b :: boot_info
  have "boot_bus demo_vm" using demo_bus_ok by (simp add: boot_bus_def)
  from boot_info_reaches_kernel [OF this, of host_zero b demo_kernel]
  show "\<exists>w info. bios_publish_boot_info host_zero demo_vm = Inr w
     \<and> vm_info_load_boot (Some b) (demo_kernel\<lparr>umem := memory w\<rparr>) = (True, Some info) \<and> mem_bytes_lo info = 0x4000000"
    by fastforce
qed

end
