(* ===== verification/Elf.thy ===== *)
theory Elf
  imports Bios
begin

text \<open>
  The kernel loader of the BIOS (\<open>elf_load_and_jump\<close> in \<open>bios/bios.c\<close>): the ELF headers, the size of the file, the
  copy of the segments. The headers are read from the buffer in RAM with the layout of the C structures (the
  records hold the fields that the loader reads, at their offsets in the structures); sums of 32-bit fields wrap.
  A load or store of the copy that the machine refuses ends the program with the panic of the machine (\<open>Inl\<close>);
  a disk that never answers is \<open>None\<close>. A program header table outside of RAM is not modelled.
\<close>

section \<open>Headers\<close>

definition load16 :: "(u32 \<Rightarrow> u8) \<Rightarrow> u32 \<Rightarrow> u16" where
  "load16 m a = ucast (m a) OR push_bit 8 (ucast (m (a + 1)))"

record Elf32_Ehdr =
  e_ident :: "u8 list"
  e_type :: u16
  e_entry :: u32
  e_phoff :: u32
  e_phentsize :: u16
  e_phnum :: u16

record Elf32_Phdr =
  p_type :: u32
  p_offset :: u32
  p_vaddr :: u32
  p_paddr :: u32
  p_filesz :: u32
  p_memsz :: u32

definition ehdr_at :: "(u32 \<Rightarrow> u8) \<Rightarrow> u32 \<Rightarrow> Elf32_Ehdr" where
  "ehdr_at m a =
     \<lparr>e_ident = List.map (\<lambda>i. m (a + of_nat i)) [0..<16], e_type = load16 m (a + 16), e_entry = load32 m (a + 24),
      e_phoff = load32 m (a + 28), e_phentsize = load16 m (a + 42), e_phnum = load16 m (a + 44)\<rparr>"

definition phdr_at :: "(u32 \<Rightarrow> u8) \<Rightarrow> u32 \<Rightarrow> Elf32_Phdr" where
  "phdr_at m a =
     \<lparr>p_type = load32 m a, p_offset = load32 m (a + 4), p_vaddr = load32 m (a + 8), p_paddr = load32 m (a + 12),
      p_filesz = load32 m (a + 16), p_memsz = load32 m (a + 20)\<rparr>"

text \<open>Entry \<open>i\<close> of the table \<open>ph\<close>; the entries are as long as the structure.\<close>

definition ph_entry :: "(u32 \<Rightarrow> u8) \<Rightarrow> u32 \<Rightarrow> nat \<Rightarrow> Elf32_Phdr" where
  "ph_entry m ph i = phdr_at m (ph + of_nat i * 32)"

definition elf_validate :: "Elf32_Ehdr \<Rightarrow> bool" where
  "elf_validate eh \<longleftrightarrow>
     e_ident eh ! 0 = 0x7F \<and> e_ident eh ! 1 = 69 \<and> e_ident eh ! 2 = 76 \<and> e_ident eh ! 3 = 70
     \<and> e_ident eh ! 4 = 1 \<and> e_ident eh ! 5 = 1 \<and> e_type eh = 2"

definition seg_end_max :: "(u32 \<Rightarrow> u8) \<Rightarrow> u32 \<Rightarrow> nat \<Rightarrow> u32 \<Rightarrow> u32" where
  "seg_end_max m ph i max_end =
     (let p = ph_entry m ph i in
      if p_type p \<noteq> PT_LOAD then max_end
      else let e = p_offset p + p_filesz p in if max_end < e then e else max_end)"

definition elf_file_size :: "(u32 \<Rightarrow> u8) \<Rightarrow> u32 \<Rightarrow> u32" where
  "elf_file_size m eh =
     (let hd = ehdr_at m eh;
          max_end = fold (seg_end_max m (eh + e_phoff hd)) [0..<unat (e_phnum hd)] 0;
          hdr_end = e_phoff hd + ucast (e_phentsize hd) * ucast (e_phnum hd) in
      if max_end < hdr_end then hdr_end else max_end)"

section \<open>Reading the file\<close>

text \<open>The other threads take turn \<open>env k\<close> in the \<open>k\<close>-th round of the loop.\<close>

partial_function (option) disk_wait :: "(nat \<Rightarrow> vm \<Rightarrow> vm) \<Rightarrow> nat \<Rightarrow> vm \<Rightarrow> vm option" where
  "disk_wait env k v = (if pending v 0 2 then Some (clear_pending 0 2 v) else disk_wait env (Suc k) (env k v))"

definition disk_read_sectors :: "(nat \<Rightarrow> vm \<Rightarrow> vm) \<Rightarrow> u32 \<Rightarrow> u32 \<Rightarrow> u32 \<Rightarrow> vm \<Rightarrow> vm option" where
  "disk_read_sectors env lba count mem_addr v =
     (let v = out_io 0x11 lba v;
          v = out_io 0x12 mem_addr v;
          v = out_io 0x13 count v;
          v = out_io 0x10 1 v in
      disk_wait env 0 v)"

section \<open>Loading the segments\<close>

text \<open>The entry is read again after the copy, which may have changed it.\<close>

definition load_segment :: "u32 \<Rightarrow> u32 \<Rightarrow> nat \<Rightarrow> vm \<Rightarrow> vm_error + vm" where
  "load_segment eh ph i v =
     (let p = ph_entry (memory v) ph i in
      if p_type p \<noteq> PT_LOAD then Inr v
      else
        let dst = (if p_paddr p \<noteq> 0 then p_paddr p else p_vaddr p);
            src = eh + p_offset p in
        bind_res (if p_filesz p \<noteq> 0 then memcpy8 dst src (unat (p_filesz p)) v else Inr v) (\<lambda>v.
        let p = ph_entry (memory v) ph i in
        if p_filesz p < p_memsz p then memset8 (dst + p_filesz p) 0 (unat (p_memsz p - p_filesz p)) v else Inr v))"

function load_segments_from :: "u32 \<Rightarrow> u32 \<Rightarrow> nat \<Rightarrow> vm \<Rightarrow> vm_error + vm" where
  "load_segments_from eh ph i v =
     (if i < unat (e_phnum (ehdr_at (memory v) eh))
      then bind_res (load_segment eh ph i v) (\<lambda>v. load_segments_from eh ph (Suc i) v) else Inr v)"
  by pat_completeness auto

termination
proof (relation "measure (\<lambda>(eh, ph, i, v). 65536 - i)", goal_cases)
  case (2 eh ph i v)
  then show ?case using unsigned_less [of "e_phnum (ehdr_at (memory v) eh)", where ?'a = nat] by simp
qed simp

declare load_segments_from.simps [simp del]

datatype boot_end = Halt | Enter u32

definition elf_load_and_jump :: "(nat \<Rightarrow> vm \<Rightarrow> vm) \<Rightarrow> vm \<Rightarrow> (vm_error + boot_end \<times> vm) option" where
  "elf_load_and_jump env v =
     Option.bind (disk_read_sectors env KERNEL_LBA 8 KERNEL_ELF_BUF v) (\<lambda>v.
     let eh = KERNEL_ELF_BUF in
     if \<not> elf_validate (ehdr_at (memory v) eh) then Some (Inr (Halt, v))
     else
       let file_size = elf_file_size (memory v) eh in
       if file_size = 0 \<or> KERNEL_ELF_MAX < file_size then Some (Inr (Halt, v))
       else
         let total_sectors = (file_size + 511) div 512 in
         Option.bind (disk_read_sectors env KERNEL_LBA total_sectors KERNEL_ELF_BUF v) (\<lambda>v.
         Some (bind_res (load_segments_from eh (eh + e_phoff (ehdr_at (memory v) eh)) 0 v) (\<lambda>v.
           Inr (Enter (e_entry (ehdr_at (memory v) eh)), v)))))"

definition bios_main :: "(nat \<Rightarrow> vm \<Rightarrow> vm) \<Rightarrow> host \<Rightarrow> u32 \<Rightarrow> vm \<Rightarrow> (vm_error + boot_end \<times> vm) option" where
  "bios_main env h isr v =
     (case bind_res (bios_register_isr 2 isr v) (\<lambda>v. bios_publish_boot_info h v) of
        Inl e \<Rightarrow> Some (Inl e)
      | Inr v \<Rightarrow> elf_load_and_jump env v)"

section \<open>Copying\<close>

lemma addr_add: "unat (a :: u32) + i < 4294967296 \<Longrightarrow> unat (a + of_nat i) = unat a + i"
  by (simp add: unat_word_ariths unsigned_of_nat take_bit_nat_eq_self)

lemma addr_eq: "unat (d :: u32) + n < 4294967296 \<Longrightarrow> a = d + of_nat n \<longleftrightarrow> unat a = unat d + n"
  using addr_add [of d n] by (auto simp: word_unat_eq_iff)

lemma copy_loop:
  assumes "unat (d :: u32) + n \<le> 4294967296" "unat (s :: u32) + n \<le> 4294967296" "unat d + n \<le> unat s \<or> unat s + n \<le> unat d"
  shows "fold (\<lambda>i m. m(d + of_nat i := m (s + of_nat i))) [0..<n] m
         = (\<lambda>a. if unat d \<le> unat a \<and> unat a < unat d + n then m (s + of_nat (unat a - unat d)) else m a)"
  using assms
proof (induction n)
  case (Suc n)
  let ?m = "\<lambda>a. if unat d \<le> unat a \<and> unat a < unat d + n then m (s + of_nat (unat a - unat d)) else m a"
  have s: "unat (s + of_nat n) = unat s + n" using addr_add [of s n] Suc.prems by simp
  have "?m (s + of_nat n) = m (s + of_nat n)" using s Suc.prems by auto
  moreover have "fold (\<lambda>i m. m(d + of_nat i := m (s + of_nat i))) [0..<n] m = ?m" by (rule Suc.IH) (use Suc.prems in auto)
  ultimately have f: "fold (\<lambda>i m. m(d + of_nat i := m (s + of_nat i))) [0..<Suc n] m = ?m(d + of_nat n := m (s + of_nat n))" by simp
  have e: "a = d + of_nat n \<longleftrightarrow> unat a = unat d + n" for a using addr_eq [of d n a] Suc.prems by simp
  show ?case
  proof (rule ext)
    fix a
    show "fold (\<lambda>i m. m(d + of_nat i := m (s + of_nat i))) [0..<Suc n] m a
        = (if unat d \<le> unat a \<and> unat a < unat d + Suc n then m (s + of_nat (unat a - unat d)) else m a)"
    proof (cases "a = d + of_nat n")
      case True
      then have "unat a = unat d + n" using e by blast
      then show ?thesis unfolding f True by simp
    next
      case False
      then have "unat a \<noteq> unat d + n" using e by blast
      then show ?thesis unfolding f using False by (simp add: less_Suc_eq)
    qed
  qed
qed (auto simp: fun_eq_iff)

lemma fill_loop:
  assumes "unat (d :: u32) + n \<le> 4294967296"
  shows "fold (\<lambda>i m. m(d + of_nat i := x)) [0..<n] m = (\<lambda>a. if unat d \<le> unat a \<and> unat a < unat d + n then x else m a)"
  using assms
proof (induction n)
  case (Suc n)
  have "a = d + of_nat n \<longleftrightarrow> unat a = unat d + n" for a using addr_eq [of d n a] Suc.prems by simp
  then show ?case using Suc by (auto simp: fun_eq_iff)
qed (auto simp: fun_eq_iff)

text \<open>An address whose bytes are plain RAM on a machine with \<open>MEM_SIZE\<close> bytes: inside RAM and outside of the frame buffer
  window. There the byte loops of the machine are loops on the byte map.\<close>

definition ram_byte :: "u32 \<Rightarrow> bool" where
  "ram_byte a \<longleftrightarrow> unat a < MEM_SIZE \<and> (unat a < 0x620000 \<or> 0x74C000 \<le> unat a)"

lemma ram_byte_access:
  assumes "ram_byte a" "memory_size v = MEM_SIZE"
  shows "vm_read8 v a = Inr (memory v a)" "vm_write8 v a x = Inr (v\<lparr>memory := (memory v)(a := x)\<rparr>)"
proof -
  have "fb_byte_index v a = None" "in_ram v a 1"
    using assms by (auto simp: ram_byte_def fb_byte_index_def Let_def in_ram_def word_le_nat_alt word_less_nat_alt)
  then show "vm_read8 v a = Inr (memory v a)" "vm_write8 v a x = Inr (v\<lparr>memory := (memory v)(a := x)\<rparr>)"
    by (simp_all add: vm_read8_def vm_write8_def)
qed

lemma memcpy8_plain:
  assumes "\<forall>i<n. ram_byte (d + of_nat i) \<and> ram_byte (s + of_nat i)" "memory_size v = MEM_SIZE"
  shows "memcpy8 d s n v = Inr (v\<lparr>memory := fold (\<lambda>i m. m(d + of_nat i := m (s + of_nat i))) [0..<n] (memory v)\<rparr>)"
  using assms
proof (induction n)
  case (Suc n)
  then show ?case by (simp add: memcpy8_def ram_byte_access fun_upd_def)
qed (simp add: memcpy8_def)

lemma memset8_plain:
  assumes "\<forall>i<n. ram_byte (d + of_nat i)" "memory_size v = MEM_SIZE"
  shows "memset8 d x n v = Inr (v\<lparr>memory := fold (\<lambda>i m. m(d + of_nat i := x)) [0..<n] (memory v)\<rparr>)"
  using assms
proof (induction n)
  case (Suc n)
  then show ?case by (simp add: memset8_def ram_byte_access fun_upd_def)
qed (simp add: memset8_def)

lemma ram_byte_range:
  assumes "unat d + n \<le> MEM_SIZE" "unat d + n \<le> 0x620000 \<or> 0x74C000 \<le> unat d"
  shows "\<forall>i<n. ram_byte (d + of_nat i)"
  using assms by (auto simp: ram_byte_def addr_add)

section \<open>Headers in the buffer\<close>

text \<open>Two memories have the same first \<open>n\<close> bytes in the ELF buffer.\<close>

definition same_buf :: "nat \<Rightarrow> (u32 \<Rightarrow> u8) \<Rightarrow> (u32 \<Rightarrow> u8) \<Rightarrow> bool" where
  "same_buf n m m' \<longleftrightarrow> (\<forall>k<n. m' (KERNEL_ELF_BUF + of_nat k) = m (KERNEL_ELF_BUF + of_nat k))"

lemma same_buf_word:
  assumes "same_buf n m m'" "k + 4 \<le> n"
  shows "load32 m' (KERNEL_ELF_BUF + of_nat k) = load32 m (KERNEL_ELF_BUF + of_nat k)"
proof -
  have "m' (KERNEL_ELF_BUF + of_nat k + of_nat j) = m (KERNEL_ELF_BUF + of_nat k + of_nat j)" if "j < 4" for j
  proof -
    have "k + j < n" using assms(2) that by simp
    then have "m' (KERNEL_ELF_BUF + of_nat (k + j)) = m (KERNEL_ELF_BUF + of_nat (k + j))" using assms(1) by (simp only: same_buf_def)
    then show ?thesis by (simp add: ac_simps)
  qed
  from this [of 0] this [of 1] this [of 2] this [of 3] show ?thesis by (simp add: load32_def)
qed

lemma same_buf_ehdr:
  assumes "same_buf n m m'" "52 \<le> n"
  shows "ehdr_at m' KERNEL_ELF_BUF = ehdr_at m KERNEL_ELF_BUF"
proof -
  have b: "m' (KERNEL_ELF_BUF + of_nat k) = m (KERNEL_ELF_BUF + of_nat k)" if "k < 52" for k
    using assms that by (simp add: same_buf_def)
  then have "List.map (\<lambda>i. m' (KERNEL_ELF_BUF + of_nat i)) [0..<16] = List.map (\<lambda>i. m (KERNEL_ELF_BUF + of_nat i)) [0..<16]" by simp
  moreover have "load16 m' (KERNEL_ELF_BUF + 16) = load16 m (KERNEL_ELF_BUF + 16)" "load16 m' (KERNEL_ELF_BUF + 42) = load16 m (KERNEL_ELF_BUF + 42)"
    "load16 m' (KERNEL_ELF_BUF + 44) = load16 m (KERNEL_ELF_BUF + 44)"
    using b [of 16] b [of 17] b [of 42] b [of 43] b [of 44] b [of 45] by (simp_all add: load16_def)
  moreover have "load32 m' (KERNEL_ELF_BUF + 24) = load32 m (KERNEL_ELF_BUF + 24)" "load32 m' (KERNEL_ELF_BUF + 28) = load32 m (KERNEL_ELF_BUF + 28)"
    using same_buf_word [OF assms(1), of 24] same_buf_word [OF assms(1), of 28] assms(2) by simp_all
  ultimately show ?thesis by (simp only: ehdr_at_def)
qed

lemma same_buf_phdr:
  assumes "same_buf n m m'" "unat po + 32 * i + 32 \<le> n"
  shows "ph_entry m' (KERNEL_ELF_BUF + po) i = ph_entry m (KERNEL_ELF_BUF + po) i"
proof -
  let ?k = "unat po + 32 * i"
  have a: "KERNEL_ELF_BUF + po + of_nat i * 32 = KERNEL_ELF_BUF + of_nat ?k" by (simp add: ac_simps)
  have "load32 m' (KERNEL_ELF_BUF + of_nat ?k + of_nat j) = load32 m (KERNEL_ELF_BUF + of_nat ?k + of_nat j)" if "j \<le> 20" for j
    using same_buf_word [OF assms(1), of "?k + j"] assms(2) that by (simp add: ac_simps)
  from this [of 0] this [of 4] this [of 8] this [of 12] this [of 16] this [of 20]
  show ?thesis unfolding ph_entry_def a phdr_at_def by simp
qed

section \<open>One segment\<close>

definition seg_dst :: "Elf32_Phdr \<Rightarrow> u32" where
  "seg_dst p = (if p_paddr p \<noteq> 0 then p_paddr p else p_vaddr p)"

text \<open>A segment that lies in the file of \<open>n\<close> bytes and goes to RAM outside of the buffer and outside of the registers and
  frame buffer windows of the devices.\<close>

definition seg_ok :: "nat \<Rightarrow> Elf32_Phdr \<Rightarrow> bool" where
  "seg_ok n p \<longleftrightarrow> unat (p_offset p) + unat (p_filesz p) \<le> n \<and> p_filesz p \<le> p_memsz p
     \<and> unat (seg_dst p) + unat (p_memsz p) \<le> MEM_SIZE
     \<and> (unat (seg_dst p) + unat (p_memsz p) \<le> 0x300000 \<or> 0x300000 + n \<le> unat (seg_dst p))
     \<and> (unat (seg_dst p) + unat (p_memsz p) \<le> 0x620000 \<or> 0x74C05C \<le> unat (seg_dst p))
     \<and> (unat (seg_dst p) + unat (p_memsz p) \<le> 0x2000 \<or> 0x2018 \<le> unat (seg_dst p))"

definition in_seg :: "Elf32_Phdr \<Rightarrow> u32 \<Rightarrow> bool" where
  "in_seg p a \<longleftrightarrow> p_type p = PT_LOAD \<and> unat (seg_dst p) \<le> unat a \<and> unat a < unat (seg_dst p) + unat (p_memsz p)"

text \<open>The byte that belongs at address \<open>a\<close> of the segment.\<close>

definition seg_byte :: "(u32 \<Rightarrow> u8) \<Rightarrow> Elf32_Phdr \<Rightarrow> u32 \<Rightarrow> u8" where
  "seg_byte m p a =
     (if unat a < unat (seg_dst p) + unat (p_filesz p)
      then m (KERNEL_ELF_BUF + of_nat (unat (p_offset p) + (unat a - unat (seg_dst p)))) else 0)"

lemma buf_addr: "k < n \<Longrightarrow> n \<le> 0x1000000 \<Longrightarrow> unat (KERNEL_ELF_BUF + of_nat k :: u32) = 0x300000 + k"
  using addr_add [of KERNEL_ELF_BUF k] by simp

lemma copy_keeps_buf:
  assumes "seg_ok n p" "n \<le> 0x100000" "\<And>a. \<not> (unat (seg_dst p) \<le> unat a \<and> unat a < unat (seg_dst p) + unat (p_memsz p)) \<Longrightarrow> m' a = m a"
  shows "same_buf n m m'"
  using assms buf_addr [of _ n] by (auto simp: same_buf_def seg_ok_def)

lemma load_segment_skip:
  assumes "same_buf n m (memory v)" "unat po + 32 * i + 32 \<le> n" "p_type (ph_entry m (KERNEL_ELF_BUF + po) i) \<noteq> PT_LOAD"
  shows "load_segment KERNEL_ELF_BUF (KERNEL_ELF_BUF + po) i v = Inr v"
  using assms same_buf_phdr [OF assms(1,2)] by (simp add: load_segment_def Let_def)

lemma load_segment_memory:
  assumes same: "same_buf n m (memory v)" and tab: "unat po + 32 * i + 32 \<le> n" and n: "n \<le> 0x100000" and size: "memory_size v = MEM_SIZE"
    and p: "p = ph_entry m (KERNEL_ELF_BUF + po) i" "p_type p = PT_LOAD" "seg_ok n p"
  shows "load_segment KERNEL_ELF_BUF (KERNEL_ELF_BUF + po) i v
    = Inr (v\<lparr>memory := (\<lambda>a. if in_seg p a then seg_byte m p a else memory v a)\<rparr>)"
proof -
  let ?d = "unat (seg_dst p)" and ?f = "unat (p_filesz p)" and ?g = "unat (p_memsz p)"
  let ?src = "KERNEL_ELF_BUF + p_offset p"
  have k: "unat (p_offset p) + ?f \<le> n" "?f \<le> ?g" "?d + ?g \<le> MEM_SIZE" "?d + ?g \<le> 0x300000 \<or> 0x300000 + n \<le> ?d"
    "?d + ?g \<le> 0x620000 \<or> 0x74C000 \<le> ?d"
    using p(3) by (auto simp: seg_ok_def word_le_nat_alt)
  have src: "unat ?src = 0x300000 + unat (p_offset p)" using buf_addr [of "unat (p_offset p)" "Suc n"] k(1) n
    by (simp add: unat_word_ariths)
  let ?m1 = "\<lambda>a. if ?d \<le> unat a \<and> unat a < ?d + ?f then memory v (?src + of_nat (unat a - ?d)) else memory v a"
  have c: "(if p_filesz p \<noteq> 0 then memcpy8 (seg_dst p) ?src ?f v else Inr v) = Inr (v\<lparr>memory := ?m1\<rparr>)"
  proof (cases "p_filesz p = 0")
    case False
    have "fold (\<lambda>i m. m(seg_dst p + of_nat i := m (?src + of_nat i))) [0..<?f] (memory v) = ?m1"
      by (rule copy_loop) (use src k n in auto)
    moreover have "\<forall>i<?f. ram_byte (seg_dst p + of_nat i) \<and> ram_byte (?src + of_nat i)"
      using ram_byte_range [of "seg_dst p" ?f] ram_byte_range [of ?src ?f] k n by (auto simp: src)
    ultimately show ?thesis using False memcpy8_plain [OF _ size] by simp
  next
    case True
    then have "?m1 = memory v" by (auto simp: fun_eq_iff)
    then show ?thesis using True by simp
  qed
  have b: "memory v (?src + of_nat j) = m (KERNEL_ELF_BUF + of_nat (unat (p_offset p) + j))" if "j < ?f" for j
  proof -
    have "unat (p_offset p) + j < n" using that k(1) by simp
    then have "memory v (KERNEL_ELF_BUF + of_nat (unat (p_offset p) + j)) = m (KERNEL_ELF_BUF + of_nat (unat (p_offset p) + j))"
      using same by (simp only: same_buf_def)
    then show ?thesis by (simp add: ac_simps)
  qed
  have "same_buf n (memory v) ?m1" by (rule copy_keeps_buf [OF p(3) n]) (use k(2) in auto)
  then have "same_buf n m ?m1" using same by (simp add: same_buf_def)
  then have p1: "ph_entry ?m1 (KERNEL_ELF_BUF + po) i = p" using same_buf_phdr [OF _ tab] p(1) by blast
  have p0: "ph_entry (memory v) (KERNEL_ELF_BUF + po) i = p" using same_buf_phdr [OF same tab] p(1) by simp
  let ?m2 = "\<lambda>a. if ?d + ?f \<le> unat a \<and> unat a < ?d + ?g then 0 else ?m1 a"
  have z: "(if p_filesz p < p_memsz p then memset8 (seg_dst p + p_filesz p) 0 (unat (p_memsz p - p_filesz p)) (v\<lparr>memory := ?m1\<rparr>) else Inr (v\<lparr>memory := ?m1\<rparr>))
      = Inr (v\<lparr>memory := ?m2\<rparr>)"
  proof (cases "p_filesz p < p_memsz p")
    case True
    then have l: "?f < ?g" "unat (p_memsz p - p_filesz p) = ?g - ?f" by (simp_all add: word_less_nat_alt unat_sub word_le_nat_alt)
    have e: "unat (seg_dst p + p_filesz p) = ?d + ?f" using addr_add [of "seg_dst p" ?f] k(3) l(1) by simp
    have "fold (\<lambda>i m. m(seg_dst p + p_filesz p + of_nat i := 0)) [0..<?g - ?f] ?m1
        = (\<lambda>a. if unat (seg_dst p + p_filesz p) \<le> unat a \<and> unat a < unat (seg_dst p + p_filesz p) + (?g - ?f) then 0 else ?m1 a)"
      by (rule fill_loop) (use e k(3) l(1) in simp)
    also have "\<dots> = ?m2" using e l(1) by simp
    finally have w: "fold (\<lambda>i m. m(seg_dst p + p_filesz p + of_nat i := 0)) [0..<?g - ?f] ?m1 = ?m2" .
    have "\<forall>i<?g - ?f. ram_byte (seg_dst p + p_filesz p + of_nat i)"
      by (rule ram_byte_range) (use e k l(1) in auto)
    then show ?thesis using True w size l(2) memset8_plain [where v = "v\<lparr>memory := ?m1\<rparr>"] by simp
  next
    case False
    then have "?f = ?g" using k(2) by (simp add: word_less_nat_alt)
    then have "?m2 = ?m1" by (auto simp: fun_eq_iff)
    then show ?thesis using False by simp
  qed
  have "?m2 = (\<lambda>a. if in_seg p a then seg_byte m p a else memory v a)"
  proof (rule ext)
    fix a
    show "?m2 a = (if in_seg p a then seg_byte m p a else memory v a)"
    proof (cases "?d \<le> unat a \<and> unat a < ?d + ?f")
      case True
      then have f: "in_seg p a" "\<not> (?d + ?f \<le> unat a \<and> unat a < ?d + ?g)" "unat a < ?d + ?f" "unat a - ?d < ?f"
        using k(2) p(2) by (auto simp: in_seg_def)
      show ?thesis unfolding seg_byte_def by (simp only: f True if_True if_False simp_thms b)
    next
      case False
      then show ?thesis using p(2) k(2) by (auto simp: in_seg_def seg_byte_def)
    qed
  qed
  moreover have "load_segment KERNEL_ELF_BUF (KERNEL_ELF_BUF + po) i v = Inr (v\<lparr>memory := ?m2\<rparr>)"
  proof -
    have "memory (v\<lparr>memory := ?m1\<rparr>) = ?m1" by simp
    then show ?thesis unfolding load_segment_def Let_def p0 seg_dst_def [symmetric] c bind_res_simps using p(2) by (simp only: p1 z) simp
  qed
  ultimately show ?thesis by simp
qed

section \<open>All segments\<close>

lemma load_segments_memory:
  assumes same: "same_buf n m (memory v)" and n: "52 \<le> n" "n \<le> 0x100000" and size: "memory_size v = MEM_SIZE"
    and num: "num = unat (e_phnum (ehdr_at m KERNEL_ELF_BUF))" and tab: "unat po + 32 * num \<le> n"
    and e: "e = ph_entry m (KERNEL_ELF_BUF + po)"
    and ok: "\<And>j. j < num \<Longrightarrow> p_type (e j) = PT_LOAD \<Longrightarrow> seg_ok n (e j)"
    and dis: "\<forall>j k a. j < k \<longrightarrow> k < num \<longrightarrow> in_seg (e j) a \<longrightarrow> \<not> in_seg (e k) a"
    and i: "i \<le> num"
  shows "\<exists>w. load_segments_from KERNEL_ELF_BUF (KERNEL_ELF_BUF + po) i v = Inr (v\<lparr>memory := w\<rparr>) \<and> same_buf n m w
           \<and> (\<forall>j a. i \<le> j \<and> j < num \<and> in_seg (e j) a \<longrightarrow> w a = seg_byte m (e j) a)
           \<and> (\<forall>a. (\<forall>j. i \<le> j \<and> j < num \<longrightarrow> \<not> in_seg (e j) a) \<longrightarrow> w a = memory v a)"
  using same size i
proof (induction "num - i" arbitrary: i v)
  case 0
  have "e_phnum (ehdr_at (memory v) KERNEL_ELF_BUF) = e_phnum (ehdr_at m KERNEL_ELF_BUF)"
    using same_buf_ehdr [OF 0(2) n(1)] by simp
  then have "load_segments_from KERNEL_ELF_BUF (KERNEL_ELF_BUF + po) i v = Inr v"
    using 0 num by (subst load_segments_from.simps) simp
  then show ?case using 0 by (intro exI [of _ "memory v"]) auto
next
  case (Suc r)
  have i: "i < num" using Suc.hyps(2) by simp
  have t: "unat po + 32 * i + 32 \<le> n" using tab i by simp
  let ?u = "\<lambda>a. if in_seg (e i) a then seg_byte m (e i) a else memory v a"
  have u: "load_segment KERNEL_ELF_BUF (KERNEL_ELF_BUF + po) i v = Inr (v\<lparr>memory := ?u\<rparr>)"
  proof (cases "p_type (e i) = PT_LOAD")
    case True
    show ?thesis by (rule load_segment_memory [OF Suc.prems(1) t n(2) Suc.prems(2)]) (use True ok [OF i] e in auto)
  next
    case False
    then have "?u = memory v" by (auto simp: in_seg_def fun_eq_iff)
    then show ?thesis using load_segment_skip [OF Suc.prems(1) t] False e by simp
  qed
  have su: "same_buf n m ?u"
  proof (cases "p_type (e i) = PT_LOAD")
    case True
    have "same_buf n (memory v) ?u" by (rule copy_keeps_buf [OF ok [OF i True] n(2)]) (auto simp: in_seg_def)
    then show ?thesis using Suc.prems(1) by (simp add: same_buf_def)
  next
    case False
    then have "?u = memory v" by (auto simp: in_seg_def fun_eq_iff)
    then show ?thesis using Suc.prems(1) by simp
  qed
  have "r = num - Suc i" "Suc i \<le> num" using Suc.hyps(2) i by simp_all
  from Suc.hyps(1) [OF this(1) _ _ this(2), of "v\<lparr>memory := ?u\<rparr>"] su Suc.prems(2)
  obtain w where w: "load_segments_from KERNEL_ELF_BUF (KERNEL_ELF_BUF + po) (Suc i) (v\<lparr>memory := ?u\<rparr>) = Inr (v\<lparr>memory := w\<rparr>)" "same_buf n m w"
      "\<forall>j a. Suc i \<le> j \<and> j < num \<and> in_seg (e j) a \<longrightarrow> w a = seg_byte m (e j) a"
      "\<forall>a. (\<forall>j. Suc i \<le> j \<and> j < num \<longrightarrow> \<not> in_seg (e j) a) \<longrightarrow> w a = ?u a"
    by auto
  have "e_phnum (ehdr_at (memory v) KERNEL_ELF_BUF) = e_phnum (ehdr_at m KERNEL_ELF_BUF)"
    using same_buf_ehdr [OF Suc.prems(1) n(1)] by simp
  then have l: "load_segments_from KERNEL_ELF_BUF (KERNEL_ELF_BUF + po) i v = Inr (v\<lparr>memory := w\<rparr>)"
    using i num u w(1) by (subst load_segments_from.simps) simp
  have "w a = seg_byte m (e j) a" if "i \<le> j" "j < num" "in_seg (e j) a" for j a
  proof (cases "j = i")
    case True
    then have "\<forall>k. Suc i \<le> k \<and> k < num \<longrightarrow> \<not> in_seg (e k) a" using dis that by (metis Suc_le_lessD)
    then show ?thesis using w(4) True that(3) by simp
  next
    case False
    then show ?thesis using w(3) that by simp
  qed
  moreover have "w a = memory v a" if "\<forall>j. i \<le> j \<and> j < num \<longrightarrow> \<not> in_seg (e j) a" for a
  proof -
    have "w a = ?u a" using w(4) that by simp
    then show ?thesis using that i by simp
  qed
  ultimately show ?case using l w(2) by blast
qed

section \<open>Reading from the disk\<close>

text \<open>In each round of the waiting loop the disk worker and the device tick take a turn.\<close>

definition disk_turn :: "host \<Rightarrow> nat \<Rightarrow> vm \<Rightarrow> vm" where
  "disk_turn h k v = disk_tick (disk_worker h v)"

definition disk_idle :: "vm \<Rightarrow> bool" where
  "disk_idle v \<longleftrightarrow> dk_status (disk v) = DISK_STATUS_FREE \<and> dk_thread_running (disk v) \<and> 0 < smp_cores v \<and> \<not> pending v 0 2"

lemma out_disk:
  "out_io 0x11 x v = set_io 0x11 x (v\<lparr>disk := (disk v)\<lparr>dk_lba := x\<rparr>\<rparr>)"
  "out_io 0x12 x v = set_io 0x12 x (v\<lparr>disk := (disk v)\<lparr>dk_mem_addr := x\<rparr>\<rparr>)"
  "out_io 0x13 x v = set_io 0x13 x (v\<lparr>disk := (disk v)\<lparr>dk_count := x\<rparr>\<rparr>)"
  "out_io 0x10 1 v = disk_cmd 1 (set_io 0x10 1 v)"
  by (simp_all add: out_io_def accept_io_def Let_def)

lemma disk_read:
  assumes "disk_idle v" "unat addr + unat count * 512 \<le> memory_size v" "malloc_ok h (unat count * 512)"
  shows "\<exists>w. disk_read_sectors (disk_turn h) lba count addr v = Some w \<and> disk_idle w
           \<and> memory w = store_bytes (memory v) (unat addr) (file_read h (dk_image (disk v)) (unat lba * 512) (unat count * 512))
           \<and> dk_image (disk w) = dk_image (disk v) \<and> memory_size w = memory_size v"
proof -
  let ?u = "out_io 0x10 1 (out_io 0x13 count (out_io 0x12 addr (out_io 0x11 lba v)))"
  have i: "dk_status (disk v) = 0" "dk_thread_running (disk v)" "0 < smp_cores v" "\<not> pending v 0 2"
    using assms(1) by (simp_all add: disk_idle_def)
  have u: "\<not> pending ?u 0 2" "smp_cores ?u = smp_cores v" "memory ?u = memory v" "memory_size ?u = memory_size v"
    "dk_current_cmd (disk ?u) = 1" "dk_thread_running (disk ?u)" "dk_lba (disk ?u) = lba" "dk_mem_addr (disk ?u) = addr" "dk_count (disk ?u) = count"
    "dk_image (disk ?u) = dk_image (disk v)" "dk_status (disk ?u) = 1"
    using i by (simp_all add: out_disk disk_cmd_def set_io_def pending_def)
  define t where "t = disk_transfer h 1 (unat lba) (unat addr) (unat count) ?u"
  have t: "t = ?u\<lparr>memory := store_bytes (memory v) (unat addr) (file_read h (dk_image (disk v)) (unat lba * 512) (unat count * 512))\<rparr>"
    unfolding t_def disk_transfer_def is_valid_dma_def Let_def u using assms(2,3) by simp
  define x where "x = disk_worker h ?u"
  have x: "x = t\<lparr>disk := (disk t)\<lparr>dk_current_cmd := 0, dk_op_complete := True\<rparr>\<rparr>"
    using u(5-9) by (simp add: x_def disk_worker_def Let_def t_def)
  let ?y = "x\<lparr>disk := (disk x)\<lparr>dk_status := 0, dk_op_complete := False\<rparr>\<rparr>"
  have y: "disk_turn h 0 ?u = trigger_interrupt 2 ?y"
    using u(11) by (simp add: disk_turn_def disk_tick_def x_def [symmetric] x t)
  have s: "smp_cores ?y = smp_cores v" using u(2) by (simp add: x t)
  have p: "pending (trigger_interrupt 2 ?y) 0 2" using pending_trigger [of 0 ?y 2 2 0] s i(3) by (simp add: trigger_interrupt_def)
  let ?w = "clear_pending 0 2 (trigger_interrupt 2 ?y)"
  have "disk_read_sectors (disk_turn h) lba count addr v = Some ?w"
    unfolding disk_read_sectors_def Let_def using u(1) p y by (subst disk_wait.simps, subst disk_wait.simps) simp
  moreover have "memory ?w = memory t" "disk ?w = disk ?y" "smp_cores ?w = smp_cores v" "memory_size ?w = memory_size v"
    using s u(4) by (simp_all add: clear_pending_def trigger_interrupt_def trigger_interrupt_target_def Let_def x t)
  moreover have "\<not> pending ?w 0 2" by (simp add: clear_pending_def pending_def bit_simps)
  moreover have "dk_status (disk ?y) = 0" "dk_thread_running (disk ?y)" "dk_image (disk ?y) = dk_image (disk v)" using u(6,10) by (simp_all add: x t)
  ultimately show ?thesis using i(3) t by (intro exI [of _ ?w]) (simp add: disk_idle_def)
qed

section \<open>The kernel is loaded\<close>

text \<open>The file as it lies in the buffer, and what a file must satisfy: the header is valid, the program headers are in the
  first 4096 bytes, and the segments are in the file and go to disjoint places in RAM, outside of the buffer and of the
  windows of the devices.\<close>

definition elf_mem :: "u8 list \<Rightarrow> u32 \<Rightarrow> u8" where
  "elf_mem f = store_bytes (\<lambda>_. 0) 0x300000 f"

abbreviation (input) elf_header :: "u8 list \<Rightarrow> Elf32_Ehdr" where
  "elf_header f \<equiv> ehdr_at (elf_mem f) KERNEL_ELF_BUF"

definition elf_segment :: "u8 list \<Rightarrow> nat \<Rightarrow> Elf32_Phdr" where
  "elf_segment f = ph_entry (elf_mem f) (KERNEL_ELF_BUF + e_phoff (elf_header f))"

definition elf_num :: "u8 list \<Rightarrow> nat" where
  "elf_num f = unat (e_phnum (elf_header f))"

definition elf_file :: "u8 list \<Rightarrow> bool" where
  "elf_file f \<longleftrightarrow>
     (let size = unat (elf_file_size (elf_mem f) KERNEL_ELF_BUF); tab = unat (e_phoff (elf_header f)) + 32 * elf_num f in
      elf_validate (elf_header f) \<and> 52 \<le> size \<and> size \<le> length f \<and> size \<le> 524288 \<and> tab \<le> size \<and> tab \<le> 4096
      \<and> list_all (\<lambda>j. p_type (elf_segment f j) = PT_LOAD \<longrightarrow> seg_ok size (elf_segment f j)) [0..<elf_num f]
      \<and> (\<forall>j k a. j < k \<longrightarrow> k < elf_num f \<longrightarrow> in_seg (elf_segment f j) a \<longrightarrow> \<not> in_seg (elf_segment f k) a))"

lemma read_buf:
  assumes "length boot = 512" "k \<le> length f" "k \<le> cnt" "cnt \<le> 0x1000000"
  shows "same_buf k (elf_mem f) (store_bytes m 0x300000 (file_read h (boot @ f @ rest) 512 cnt))"
  unfolding same_buf_def
proof (intro allI impI)
  fix i assume i: "i < k"
  have a: "unat (KERNEL_ELF_BUF + of_nat i :: u32) = 0x300000 + i" using buf_addr [of i cnt] i assms(3,4) by simp
  have "file_read h (boot @ f @ rest) 512 cnt ! i = f ! i"
    using i assms by (simp add: file_read_def nth_append)
  then show "store_bytes m 0x300000 (file_read h (boot @ f @ rest) 512 cnt) (KERNEL_ELF_BUF + of_nat i) = elf_mem f (KERNEL_ELF_BUF + of_nat i)"
    unfolding elf_mem_def store_bytes_def a using i assms(2,3) by simp
qed

lemma same_buf_size:
  assumes "same_buf n m m'" "52 \<le> n" "unat (e_phoff (ehdr_at m KERNEL_ELF_BUF)) + 32 * unat (e_phnum (ehdr_at m KERNEL_ELF_BUF)) \<le> n"
  shows "elf_file_size m' KERNEL_ELF_BUF = elf_file_size m KERNEL_ELF_BUF"
proof -
  let ?hd = "ehdr_at m KERNEL_ELF_BUF"
  have h: "ehdr_at m' KERNEL_ELF_BUF = ?hd" using same_buf_ehdr [OF assms(1,2)] .
  have "seg_end_max m' (KERNEL_ELF_BUF + e_phoff ?hd) i = seg_end_max m (KERNEL_ELF_BUF + e_phoff ?hd) i" if "i < unat (e_phnum ?hd)" for i
    using same_buf_phdr [OF assms(1), of "e_phoff ?hd" i] assms(3) that by (simp add: fun_eq_iff seg_end_max_def)
  then have "fold (seg_end_max m' (KERNEL_ELF_BUF + e_phoff ?hd)) [0..<unat (e_phnum ?hd)] 0
      = fold (seg_end_max m (KERNEL_ELF_BUF + e_phoff ?hd)) [0..<unat (e_phnum ?hd)] 0"
    by (intro fold_cong) auto
  then show ?thesis unfolding elf_file_size_def h Let_def by simp
qed

lemma sectors:
  assumes "unat x \<le> 524288"
  shows "unat ((x + 511) div 512 :: u32) = (unat x + 511) div 512"
proof -
  have "unat (x + 511) = unat x + 511" using assms by (simp add: unat_word_ariths)
  then show ?thesis by (simp add: unat_div)
qed

lemma seg_byte_file:
  assumes "seg_ok n p" "in_seg p a" "n \<le> length f" "n \<le> 0x100000"
  shows "seg_byte (elf_mem f) p a =
     (if unat a - unat (seg_dst p) < unat (p_filesz p) then f ! (unat (p_offset p) + (unat a - unat (seg_dst p))) else 0)"
proof (cases "unat a - unat (seg_dst p) < unat (p_filesz p)")
  case True
  let ?k = "unat (p_offset p) + (unat a - unat (seg_dst p))"
  have k: "?k < n" using True assms(1) by (simp add: seg_ok_def)
  have a: "unat (KERNEL_ELF_BUF + of_nat ?k :: u32) = 0x300000 + ?k" using buf_addr [OF k] assms(4) by simp
  have "elf_mem f (KERNEL_ELF_BUF + of_nat ?k) = f ! ?k"
    unfolding elf_mem_def store_bytes_def a using k assms(3) by simp
  moreover have "unat a < unat (seg_dst p) + unat (p_filesz p)" using True assms(2) by (auto simp: in_seg_def)
  ultimately show ?thesis using True unfolding seg_byte_def by (simp only: if_True)
next
  case False
  then show ?thesis using assms(2) by (auto simp: seg_byte_def in_seg_def)
qed

text \<open>C9: The disk holds a well-formed ELF file behind its first sector; every loadable segment goes to plain RAM, outside
  of the ELF buffer and the device windows, and neither a segment nor the buffer touches the memory \<open>B\<close> of the BIOS itself
  (its code and data, its stacks, the interrupt vectors, the boot information). Then the BIOS reads the file and enters the
  kernel at the entry point of the file without a panic; every loadable segment is in memory, its bytes of the file at
  its destination and zeros up to its size in memory, and \<open>B\<close> is as it was.\<close>

theorem kernel_is_loaded:
  assumes "elf_file f" "dk_image (disk v) = boot @ f @ rest" "length boot = 512" "disk_idle v" "memory_size v = MEM_SIZE" "\<And>n. malloc_ok h n"
    and "\<forall>a\<in>B. (unat a < 0x300000 \<or> 0x380000 \<le> unat a) \<and> (\<forall>j<elf_num f. \<not> in_seg (elf_segment f j) a)"
  shows "\<exists>w. elf_load_and_jump (disk_turn h) v = Some (Inr (Enter (e_entry (elf_header f)), w))
     \<and> (\<forall>j a. j < elf_num f \<and> in_seg (elf_segment f j) a \<longrightarrow>
          memory w a = (let p = elf_segment f j; k = unat a - unat (seg_dst p) in
                        if k < unat (p_filesz p) then f ! (unat (p_offset p) + k) else 0))
     \<and> (\<forall>a\<in>B. memory w a = memory v a)"
proof -
  define size where "size = elf_file_size (elf_mem f) KERNEL_ELF_BUF"
  let ?po = "e_phoff (elf_header f)" and ?n = "unat size"
  let ?tab = "unat ?po + 32 * elf_num f"
  have f: "elf_validate (elf_header f)" "52 \<le> ?n" "?n \<le> length f" "?n \<le> 524288" "?tab \<le> ?n" "?tab \<le> 4096"
    "\<And>j. j < elf_num f \<Longrightarrow> p_type (elf_segment f j) = PT_LOAD \<Longrightarrow> seg_ok ?n (elf_segment f j)"
    "\<forall>j k a. j < k \<longrightarrow> k < elf_num f \<longrightarrow> in_seg (elf_segment f j) a \<longrightarrow> \<not> in_seg (elf_segment f k) a"
    using assms(1) by (simp_all add: elf_file_def Let_def size_def list_all_iff)
  obtain v1 where v1: "disk_read_sectors (disk_turn h) KERNEL_LBA 8 KERNEL_ELF_BUF v = Some v1" "disk_idle v1"
      "memory v1 = store_bytes (memory v) 0x300000 (file_read h (boot @ f @ rest) 512 4096)"
      "dk_image (disk v1) = boot @ f @ rest" "memory_size v1 = MEM_SIZE"
    using disk_read [OF assms(4), of KERNEL_ELF_BUF 8 h KERNEL_LBA] assms(2,5,6) by auto
  let ?T = "max 52 ?tab"
  have s1: "same_buf ?T (elf_mem f) (memory v1)" unfolding v1(3) by (rule read_buf [OF assms(3)]) (use f in auto)
  have h1: "ehdr_at (memory v1) KERNEL_ELF_BUF = elf_header f" using same_buf_ehdr [OF s1] by simp
  have z1: "elf_file_size (memory v1) KERNEL_ELF_BUF = size" using same_buf_size [OF s1] by (simp add: size_def elf_num_def)
  let ?c = "(size + 511) div 512"
  have c: "unat ?c = (?n + 511) div 512" using sectors f(4) by blast
  then have c': "?n \<le> unat ?c * 512" "unat ?c * 512 \<le> 0x80000" using f(4) by simp_all
  obtain v2 where v2: "disk_read_sectors (disk_turn h) KERNEL_LBA ?c KERNEL_ELF_BUF v1 = Some v2"
      "memory v2 = store_bytes (memory v1) 0x300000 (file_read h (boot @ f @ rest) 512 (unat ?c * 512))" "memory_size v2 = MEM_SIZE"
    using disk_read [OF v1(2), of KERNEL_ELF_BUF ?c h KERNEL_LBA] v1(4,5) c'(2) assms(6) by auto
  have s2: "same_buf ?n (elf_mem f) (memory v2)" unfolding v2(2) by (rule read_buf [OF assms(3) f(3)]) (use c' in auto)
  have h2: "ehdr_at (memory v2) KERNEL_ELF_BUF = elf_header f" using same_buf_ehdr [OF s2 f(2)] .
  have n': "?n \<le> 0x100000" using f(4) by simp
  obtain m where m: "load_segments_from KERNEL_ELF_BUF (KERNEL_ELF_BUF + ?po) 0 v2 = Inr (v2\<lparr>memory := m\<rparr>)" "same_buf ?n (elf_mem f) m"
      "\<forall>j a. 0 \<le> j \<and> j < elf_num f \<and> in_seg (elf_segment f j) a \<longrightarrow> m a = seg_byte (elf_mem f) (elf_segment f j) a"
      "\<forall>a. (\<forall>j. 0 \<le> j \<and> j < elf_num f \<longrightarrow> \<not> in_seg (elf_segment f j) a) \<longrightarrow> m a = memory v2 a"
    using load_segments_memory [where i = 0, OF s2 f(2) n' v2(3) elf_num_def f(5) elf_segment_def f(7) f(8)] by auto
  have h3: "ehdr_at m KERNEL_ELF_BUF = elf_header f" using same_buf_ehdr [OF m(2) f(2)] .
  have "size \<noteq> 0" "\<not> KERNEL_ELF_MAX < size" using f(2,4) by (auto simp: word_less_nat_alt)
  then have "elf_load_and_jump (disk_turn h) v = Some (Inr (Enter (e_entry (elf_header f)), v2\<lparr>memory := m\<rparr>))"
    by (simp add: elf_load_and_jump_def Let_def v1(1) h1 f(1) z1 v2(1) h2 m(1) h3)
  moreover have "m a = (let p = elf_segment f j; k = unat a - unat (seg_dst p) in if k < unat (p_filesz p) then f ! (unat (p_offset p) + k) else 0)"
    if "j < elf_num f" "in_seg (elf_segment f j) a" for j a
    using m(3) that seg_byte_file [OF f(7) that(2) f(3) n'] by (simp add: in_seg_def Let_def)
  moreover have "m a = memory v a" if "a \<in> B" for a
  proof -
    have "unat a < 0x300000 \<or> 0x380000 \<le> unat a" "m a = memory v2 a" using assms(7) m(4) that by simp_all
    then show ?thesis using c'(2) by (auto simp: v2(2) v1(3) store_bytes_def)
  qed
  ultimately show ?thesis by (intro exI [of _ "v2\<lparr>memory := m\<rparr>"]) simp
qed

text \<open>A file with one segment of four bytes that occupies six bytes at \<open>0x100000\<close>.\<close>

definition demo_elf :: "u8 list" where
  "demo_elf = [0x7F, 69, 76, 70, 1, 1, 1, 0, 0, 0, 0, 0, 0, 0, 0, 0, 2, 0, 0, 0, 1, 0, 0, 0, 0, 0, 0x10, 0, 52, 0, 0, 0,
     0, 0, 0, 0, 0, 0, 0, 0, 52, 0, 32, 0, 1, 0, 0, 0, 0, 0, 0, 0,
     1, 0, 0, 0, 84, 0, 0, 0, 0, 0, 0x10, 0, 0, 0, 0x10, 0, 4, 0, 0, 0, 6, 0, 0, 0, 7, 0, 0, 0, 4, 0, 0, 0, 0xAA, 0xBB, 0xCC, 0xDD]"

lemma demo_elf_byte:
  assumes "0x300000 \<le> unat a" "unat a < 0x300000 + 88"
  shows "elf_mem demo_elf a = demo_elf ! (unat a - 0x300000)"
  using assms by (simp add: elf_mem_def store_bytes_def demo_elf_def)

lemma demo_elf_header:
  "elf_header demo_elf = \<lparr>e_ident = [0x7F, 69, 76, 70, 1, 1, 1, 0, 0, 0, 0, 0, 0, 0, 0, 0], e_type = 2, e_entry = 0x100000,
     e_phoff = 52, e_phentsize = 32, e_phnum = 1\<rparr>"
  by (simp add: ehdr_at_def load16_def load32_def le32_def demo_elf_byte upt_rec) (simp add: demo_elf_def)

lemma demo_elf_segment:
  "elf_segment demo_elf 0 = \<lparr>p_type = 1, p_offset = 84, p_vaddr = 0x100000, p_paddr = 0x100000, p_filesz = 4, p_memsz = 6\<rparr>"
  "elf_num demo_elf = 1" "elf_file_size (elf_mem demo_elf) KERNEL_ELF_BUF = 88"
proof -
  show p: "elf_segment demo_elf 0 = \<lparr>p_type = 1, p_offset = 84, p_vaddr = 0x100000, p_paddr = 0x100000, p_filesz = 4, p_memsz = 6\<rparr>"
    unfolding elf_segment_def demo_elf_header
    by (simp add: ph_entry_def phdr_at_def load32_def le32_def demo_elf_byte) (simp add: demo_elf_def)
  show "elf_num demo_elf = 1" unfolding elf_num_def demo_elf_header by simp
  have "ph_entry (elf_mem demo_elf) 0x300034 0 = elf_segment demo_elf 0" unfolding elf_segment_def demo_elf_header by simp
  then show "elf_file_size (elf_mem demo_elf) KERNEL_ELF_BUF = 88"
    unfolding elf_file_size_def demo_elf_header Let_def by (simp add: seg_end_max_def p)
qed

lemma demo_elf_file: "elf_file demo_elf"
proof -
  have "length demo_elf = 88" by (simp add: demo_elf_def)
  moreover have "seg_ok 88 (elf_segment demo_elf 0)" by (simp add: demo_elf_segment seg_ok_def seg_dst_def)
  moreover have "elf_validate (elf_header demo_elf)" unfolding demo_elf_header elf_validate_def by simp
  ultimately show ?thesis unfolding elf_file_def demo_elf_segment(2,3) demo_elf_header Let_def by simp
qed

text \<open>The memory of the BIOS: vectors and stacks from 0 to \<open>0x2000\<close>, its image from \<open>0x201C\<close>, the boot information and the C
  stack below \<open>0x400000\<close>.\<close>

definition bios_memory :: "u32 set" where
  "bios_memory = {0..<0x2000} \<union> {0x201C..<0x8000} \<union> {0x2FF000..<0x2FF064} \<union> {0x3F0000..<0x400000}"

theorem kernel_is_loaded_witness:
  "\<exists>w. elf_load_and_jump (disk_turn host_zero)
       (demo_vm\<lparr>disk := disk_zero\<lparr>dk_thread_running := True, dk_image := replicate 512 0 @ demo_elf\<rparr>\<rparr>) = Some (Inr (Enter 0x100000, w))
     \<and> memory w 0x100001 = 0xBB \<and> memory w 0x100005 = 0 \<and> memory w 0x201C = 0"
proof -
  let ?v = "demo_vm\<lparr>disk := disk_zero\<lparr>dk_thread_running := True, dk_image := replicate 512 0 @ demo_elf\<rparr>\<rparr>"
  have i: "disk_idle ?v" by (simp add: disk_idle_def disk_zero_def pending_def)
  have m: "malloc_ok host_zero n" for n by (simp add: host_zero_def)
  have b: "\<forall>a\<in>bios_memory. (unat a < 0x300000 \<or> 0x380000 \<le> unat a) \<and> (\<forall>j<elf_num demo_elf. \<not> in_seg (elf_segment demo_elf j) a)"
    by (auto simp: bios_memory_def demo_elf_segment in_seg_def seg_dst_def word_le_nat_alt word_less_nat_alt)
  obtain w where w: "elf_load_and_jump (disk_turn host_zero) ?v = Some (Inr (Enter (e_entry (elf_header demo_elf)), w))"
      "\<forall>j a. j < elf_num demo_elf \<and> in_seg (elf_segment demo_elf j) a \<longrightarrow>
          memory w a = (let p = elf_segment demo_elf j; k = unat a - unat (seg_dst p) in
                        if k < unat (p_filesz p) then demo_elf ! (unat (p_offset p) + k) else 0)"
      "\<forall>a\<in>bios_memory. memory w a = memory ?v a"
    using kernel_is_loaded [OF demo_elf_file _ _ i _ m b, of "replicate 512 0" "[]"] by auto
  have "memory w 0x100001 = 0xBB" "memory w 0x100005 = 0"
    using w(2) [rule_format, of 0 "0x100001"] w(2) [rule_format, of 0 "0x100005"]
    by (simp_all add: demo_elf_segment in_seg_def seg_dst_def) (simp add: demo_elf_def)
  moreover have "memory w 0x201C = 0" using w(3) by (simp add: bios_memory_def)
  moreover have "e_entry (elf_header demo_elf) = 0x100000" unfolding demo_elf_header by simp
  ultimately show ?thesis using w(1) by auto
qed

end
