(* ===== verification/Calls.thy ===== *)
theory Calls
  imports Sysframe
begin

text \<open>
  Properties of single system calls: the result mailbox, setting and reading the clock, the length of a sleep, and the
  loop of \<open>SYS_WAITPID\<close>.
\<close>

section \<open>The mailbox\<close>

definition mbox :: "'a kernel_scheme \<Rightarrow> u32 \<Rightarrow> u32" where
  "mbox s k = load32 (umem s) (SYSCALL_ABI_ADDR + k)"

lemma mbox_write:
  "mbox (abi_write32 k x s) k = x"
  "off \<le> 0x2C \<Longrightarrow> k \<le> 0x2C \<Longrightarrow> unat k + 4 \<le> unat off \<or> unat off + 4 \<le> unat k
   \<Longrightarrow> mbox (abi_write32 off x s) k = mbox s k"
proof -
  show "mbox (abi_write32 k x s) k = x" by (simp add: mbox_def abi_write32_def)
  assume a: "off \<le> 0x2C" "k \<le> 0x2C" "unat k + 4 \<le> unat off \<or> unat off + 4 \<le> unat k"
  then have b: "unat off \<le> 44" "unat k \<le> 44" by (simp_all add: word_le_nat_alt)
  then have "unat (0x002FE000 + off) = 3137536 + unat off" "unat (0x002FE000 + k) = 3137536 + unat k"
    by (simp_all add: unat_word_ariths)
  then show "mbox (abi_write32 off x s) k = mbox s k"
    using a(3) b load32_store32_other [of "0x002FE000 + off" "0x002FE000 + k" "umem s" x]
    by (auto simp: mbox_def abi_write32_def)
qed

text \<open>C30: After every system call the mailbox in RAM holds the call number, the value that is returned, and the tick
  counter.\<close>

theorem mailbox_reports_result:
  assumes "syscall_dispatch run irq (Some r) s = Some (ret, s')"
  shows "load32 (umem s') (SYSCALL_ABI_ADDR + 0x00) = SYSCALL_ABI_MAGIC
         \<and> load32 (umem s') (SYSCALL_ABI_ADDR + 0x08) = nr r
         \<and> load32 (umem s') (SYSCALL_ABI_ADDR + 0x24) = ret
         \<and> load32 (umem s') (SYSCALL_ABI_ADDR + 0x2C) = sched_ticks s'"
proof -
  obtain err u where u: "s' = publish_result (Some r) ret err u" using assms by (auto simp: syscall_dispatch_def)
  have t: "sched_ticks (abi_write32 a b v) = sched_ticks v" for a b and v :: "'a kernel_scheme"
    by (simp add: sched_ticks_def abi_write32_def)
  show ?thesis
    unfolding mbox_def [symmetric] u publish_result_def Let_def option.case t by (simp add: mbox_write)
qed

theorem mailbox_reports_result_witness:
  "\<exists>s'. syscall_dispatch (\<lambda>e i ar s. s) (\<lambda>n k s. s)
       (Some \<lparr>nr = 99, arg0 = 3, arg1 = 0, arg2 = 0, arg3 = 0, arg4 = 0, arg5 = 0\<rparr>) demo_kernel = Some (- 1, s')
     \<and> load32 (umem s') (SYSCALL_ABI_ADDR + 0x08) = 99 \<and> load32 (umem s') (SYSCALL_ABI_ADDR + 0x24) = - 1"
proof -
  let ?r = "\<lparr>nr = 99, arg0 = 3, arg1 = 0, arg2 = 0, arg3 = 0, arg4 = 0, arg5 = 0\<rparr> :: syscall_regs"
  obtain s' where s: "syscall_dispatch (\<lambda>e i ar s. s) (\<lambda>n k s. s) (Some ?r) demo_kernel = Some (- 1, s')"
    by (simp add: syscall_dispatch_def syscall_case_def fail_def)
  then show ?thesis using mailbox_reports_result [OF s] by (intro exI [of _ s']) simp
qed

section \<open>The clock\<close>

lemma sint_nonneg:
  assumes "0 \<le> sint (x :: u32)"
  shows "sint x = int (unat x)" "unat x < 2147483648"
proof -
  have "sint x < 2147483648" using sint_less [of x] by simp
  then have "uint x = sint x" using assms uint_sint [of x] by (simp add: take_bit_eq_mod)
  then show "sint x = int (unat x)" "unat x < 2147483648" using \<open>sint x < 2147483648\<close> assms by (simp_all add: unat_eq_nat_uint)
qed

lemma sint_small: "unat (x :: u32) < 2147483648 \<Longrightarrow> sint x = int (unat x)"
proof -
  assume x: "unat x < 2147483648"
  have "0 \<le> sint x"
  proof (rule ccontr)
    assume "\<not> 0 \<le> sint x"
    then have "(sint x + 4294967296) mod 4294967296 = sint x + 4294967296"
      using sint_greater_eq [of x] by (intro mod_pos_pos_trivial) simp_all
    then have "take_bit 32 (sint x) = sint x + 4294967296" unfolding take_bit_eq_mod mod_add_self2 by simp
    then show False using uint_sint [of x] sint_greater_eq [of x] x by (simp add: unat_eq_nat_uint)
  qed
  then show ?thesis by (rule sint_nonneg)
qed

lemma unat_ucast64 [simp]: "unat (ucast (x :: u32) :: u64) = unat x"
proof -
  have "unat x < 2 ^ 64" using unsigned_less [of x] by (rule less_trans) simp
  then show ?thesis by (simp add: unsigned_ucast_eq take_bit_nat_eq_self)
qed

lemma timespec_round_trip:
  assumes "timespec_to_ns ts = Some ns"
  shows "time_ns_to_timespec ns = Some ts"
proof -
  obtain sec nsec where ts: "ts = (sec, nsec)" by (cases ts)
  have v: "0 \<le> sint sec" "0 \<le> sint nsec" "sint nsec < 1000000000"
    "ns = ucast sec * 1000000000 + ucast nsec"
    using assms by (auto simp: ts timespec_to_ns_def Let_def split: if_splits)
  have n: "unat sec < 2147483648" "unat nsec < 1000000000"
    using sint_nonneg(2) [OF v(1)] sint_nonneg(1) [OF v(2)] v(3) by linarith+
  have ns: "unat ns = unat sec * 1000000000 + unat nsec"
    using n by (simp add: v(4) unat_word_ariths)
  have d: "unat (ns div 1000000000) = unat sec" "unat (ns mod 1000000000) = unat nsec"
    using n(2) by (simp_all add: unat_div unat_mod ns)
  have c: "ucast w = x" if "unat w = unat x" for w :: u64 and x :: u32
  proof -
    have "unat (ucast w :: u32) = unat x" using that unsigned_less [of x, where ?'a = nat] by (simp add: unsigned_ucast_eq take_bit_nat_eq_self)
    then show ?thesis by (simp add: word_unat_eq_iff)
  qed
  have "\<not> 0x7FFFFFFF < ns div 1000000000" using d(1) n(1) by (simp add: word_less_nat_alt)
  then show ?thesis using c [OF d(1)] c [OF d(2)] by (simp add: time_ns_to_timespec_def ts)
qed

text \<open>Setting the real-time clock and reading it at the same instant gives back the seconds and nanoseconds that were set.\<close>

theorem clock_set_get_round_trip:
  assumes "abi_user_read_timespec tp_addr s = Some ts" "tp_addr \<noteq> 0" "timespec_to_ns ts \<noteq> None" "abi_ptr_range_ok ts_addr 8"
  shows "\<exists>s1 s2. sys_clock_settime 0 tp_addr s = (0, ERRNO_OK, s1) \<and> sys_clock_gettime 0 ts_addr s1 = (0, ERRNO_OK, s2)
           \<and> abi_user_read_timespec ts_addr s2 = Some ts"
proof -
  obtain ns where ns: "timespec_to_ns ts = Some ns" using assms(3) by blast
  define raw where "raw = mmio_read_time_ns 0x2004 0x2008 s"
  let ?s1 = "if raw \<le> ns then s\<lparr>g_realtime_offset_neg := False, g_realtime_offset_mag_ns := ns - raw\<rparr>
             else s\<lparr>g_realtime_offset_neg := True, g_realtime_offset_mag_ns := raw - ns\<rparr>"
  have set: "sys_clock_settime 0 tp_addr s = (0, 0, ?s1)"
    using assms(1,2) ns by (simp add: sys_clock_settime_def ok_ret_def raw_def Let_def)
  have r: "mmio_read_time_ns 0x2004 0x2008 ?s1 = raw" by (simp add: mmio_read_time_ns_def raw_def)
  have "\<not> NOT 0 - (ns - raw) < raw" if "raw \<le> ns"
  proof -
    have m: "unat (NOT 0 :: u64) = 2 ^ 64 - 1" by (simp add: unsigned_minus_1_eq_mask mask_eq_exp_minus_1)
    have "unat (ns - raw) = unat ns - unat raw" using that by (simp add: unat_sub word_le_nat_alt)
    moreover have "unat (NOT 0 - (ns - raw)) = unat (NOT 0 :: u64) - unat (ns - raw)"
      using word_order.extremum [of "ns - raw"] by (intro unat_sub) simp
    ultimately show ?thesis 
      using that unsigned_less [of ns, where ?'a = nat] m by (simp add: word_le_nat_alt word_less_nat_alt not_less)
  qed
  moreover have "ns = 0" if "ns < raw" "raw \<le> raw - ns"
  proof -
    have "unat (raw - ns) = unat raw - unat ns" using that(1) by (simp add: unat_sub order_less_imp_le)
    then show ?thesis using that by (simp add: word_le_nat_alt word_less_nat_alt word_unat_eq_iff)
  qed
  ultimately have "clock_apply_realtime_offset raw ?s1 = ns"
    by (auto simp: clock_apply_realtime_offset_def Let_def not_le)
  then have "clockid_read_time_ns 0 ?s1 = Some ns" using r by (simp add: clockid_read_time_ns_def)
  moreover have "ts_addr \<noteq> 0" using assms(4) by (auto simp: abi_ptr_range_ok_def)
  ultimately have get: "sys_clock_gettime 0 ts_addr ?s1
      = (0, 0, ?s1\<lparr>umem := store32 (store32 (umem ?s1) (ts_addr + 0) (fst ts)) (ts_addr + 4) (snd ts)\<rparr>)"
    using timespec_round_trip [OF ns] assms(4) by (simp add: sys_clock_gettime_def abi_user_write_timespec_def ok_ret_def)
  have u: "unat ts_addr + 8 \<le> 67108864" using range_ok_unat(1) [OF assms(4)] by simp
  then have "unat (ts_addr + 4) = unat ts_addr + 4" using unat_add_small [of ts_addr 4] by simp
  then have "load32 (store32 m (ts_addr + 4) y) ts_addr = load32 m ts_addr" for m y
    using u by (intro load32_store32_other) simp_all
  then show ?thesis using set get assms(4) by (simp add: abi_user_read_timespec_def)
qed

text \<open>A request of 5 s and 7 ns at address 256, read back at address 512.\<close>

theorem clock_set_get_round_trip_witness:
  "\<exists>s1 s2. sys_clock_settime 0 256 (demo_kernel\<lparr>umem := store32 (store32 (\<lambda>_. 0) 256 5) 260 7\<rparr>) = (0, ERRNO_OK, s1)
     \<and> sys_clock_gettime 0 512 s1 = (0, ERRNO_OK, s2) \<and> abi_user_read_timespec 512 s2 = Some (5, 7)"
proof -
  let ?s = "demo_kernel\<lparr>umem := store32 (store32 (\<lambda>_. 0) 256 5) 260 7\<rparr>"
  have "load32 (store32 m 260 7) 256 = load32 m 256" for m by (rule load32_store32_other) simp_all
  then have "abi_user_read_timespec 256 ?s = Some (5, 7)"
    by (simp add: abi_user_read_timespec_def abi_ptr_range_ok_def)
  moreover have "timespec_to_ns (5, 7) \<noteq> None" by (simp add: timespec_to_ns_def Let_def)
  ultimately show ?thesis
    using clock_set_get_round_trip [of 256 ?s "(5, 7)" 512] by (simp add: abi_ptr_range_ok_def)
qed

section \<open>Sleeping\<close>

lemma div_ceil:
  assumes "1 < unat (d :: u32)"
  shows "unat n \<le> unat (div_ceil_u32 n d) * unat d" "unat (div_ceil_u32 n d) * unat d < unat n + unat d"
proof -
  have b: "unat n div unat d < 2147483648"
    using unsigned_less [of n, where ?'a = nat] assms by (simp add: less_mult_imp_div_less)
  have d: "d \<noteq> 0" using assms by auto
  have z: "n mod d = 0 \<longleftrightarrow> unat n mod unat d = 0" by (simp add: word_unat_eq_iff unat_mod)
  have e: "unat (div_ceil_u32 n d) = unat n div unat d + (if unat n mod unat d = 0 then 0 else 1)"
    using d z b by (auto simp: div_ceil_u32_def unat_div unat_word_ariths)
  define q r where "q = unat n div unat d" and "r = unat n mod unat d"
  have n: "unat n = q * unat d + r" "r < unat d" using assms by (simp_all add: q_def r_def)
  show "unat n \<le> unat (div_ceil_u32 n d) * unat d" "unat (div_ceil_u32 n d) * unat d < unat n + unat d"
    unfolding e q_def [symmetric] r_def [symmetric] using n by (auto simp: algebra_simps)
qed



section \<open>Waiting for a child\<close>

text \<open>No slot changes its identity and none becomes a zombie.\<close>

definition no_exit :: "'a sched_scheme \<Rightarrow> 'a sched_scheme \<Rightarrow> bool" where
  "no_exit s s' \<longleftrightarrow> g_current_idx s' = g_current_idx s \<and> (sched_ok s \<longrightarrow> sched_ok s')
     \<and> (\<forall>j. slot_id (g_tasks s' j) = slot_id (g_tasks s j) \<and> (state (g_tasks s' j) = T_ZOMBIE \<longrightarrow> state (g_tasks s j) = T_ZOMBIE))"

lemma no_exit_refl [simp]: "no_exit s s"
  by (simp add: no_exit_def)

lemma no_exit_trans: "no_exit s s' \<Longrightarrow> no_exit s' s'' \<Longrightarrow> no_exit s s''"
  by (simp add: no_exit_def)

lemma no_exit_tick: "no_exit s (schedule_tick s)"
proof -
  have f: "g_current_idx (fold (wake_sleeper now) xs s) = g_current_idx s
      \<and> (\<forall>j. slot_id (g_tasks (fold (wake_sleeper now) xs s) j) = slot_id (g_tasks s j)
          \<and> (state (g_tasks (fold (wake_sleeper now) xs s) j) = T_ZOMBIE \<longrightarrow> state (g_tasks s j) = T_ZOMBIE))"
    for now xs and s :: "'a sched_scheme"
  proof (induction xs arbitrary: s)
    case (Cons i xs)
    have "g_current_idx (wake_sleeper now i s) = g_current_idx s"
      "slot_id (g_tasks (wake_sleeper now i s) j) = slot_id (g_tasks s j)"
      "state (g_tasks (wake_sleeper now i s) j) = T_ZOMBIE \<longrightarrow> state (g_tasks s j) = T_ZOMBIE" for j
      by (simp_all add: wake_sleeper_def Let_def)
        (simp_all add: make_runnable_def sched_detach_waitq_def waitq_clear_bit_def upd_task_def resched_def split: option.split)
    then show ?case using Cons.IH [of "wake_sleeper now i s"] by simp
  qed simp
  let ?s = "s\<lparr>g_ticks := g_ticks s + 1\<rparr>"
  let ?u = "sched_try_wake_sleepers (g_ticks s + 1) ?s"
  have u: "g_current_idx ?u = g_current_idx s" "slot_id (g_tasks ?u j) = slot_id (g_tasks s j)"
    "state (g_tasks ?u j) = T_ZOMBIE \<Longrightarrow> state (g_tasks s j) = T_ZOMBIE" for j
    using f [of "g_ticks s + 1" "[0..<16]" ?s] by (auto simp: sched_try_wake_sleepers_def)
  have c: "g_current_idx (schedule_tick s) = g_current_idx s" using u(1) by (simp add: schedule_tick_def Let_def)
  have "slot_id (g_tasks (schedule_tick s) j) = slot_id (g_tasks ?u j)
      \<and> state (g_tasks (schedule_tick s) j) = state (g_tasks ?u j)" for j
    by (simp add: schedule_tick_def Let_def upd_task_def resched_def slot_id_def)
  then show ?thesis using c u(2,3) tick_ok [of s] by (simp add: no_exit_def)
qed

lemma no_exit_ticks: "no_exit s ((schedule_tick ^^ n) s)"
  by (induction n) (auto intro: no_exit_trans no_exit_tick)

lemma no_exit_child:
  assumes "no_exit s s'"
  shows "sched_task_is_child_of (g_tasks s' j) par pid = sched_task_is_child_of (g_tasks s j) par pid"
    "tid (g_tasks s' j) = tid (g_tasks s j)" "is_idle (g_tasks s' j) = is_idle (g_tasks s j)"
    "sched_current_slot s' = sched_current_slot s"
proof -
  have "slot_id (g_tasks s' k) = slot_id (g_tasks s k)" for k using assms by (simp add: no_exit_def)
  then have f: "tid (g_tasks s' k) = tid (g_tasks s k)" "used (g_tasks s' k) = used (g_tasks s k)"
    "is_idle (g_tasks s' k) = is_idle (g_tasks s k)" "parent_tid (g_tasks s' k) = parent_tid (g_tasks s k)" for k
    by (simp_all add: slot_id_def)
  show "sched_task_is_child_of (g_tasks s' j) par pid = sched_task_is_child_of (g_tasks s j) par pid"
    "tid (g_tasks s' j) = tid (g_tasks s j)" "is_idle (g_tasks s' j) = is_idle (g_tasks s j)"
    by (simp_all add: sched_task_is_child_of_def f)
  show "sched_current_slot s' = sched_current_slot s"
    using assms f(2) by (simp add: sched_current_slot_def no_exit_def)
qed

text \<open>The current task has a child of the wanted kind, and none that has exited.\<close>

definition waits_for :: "nat \<Rightarrow> int \<Rightarrow> 'a sched_scheme \<Rightarrow> bool" where
  "waits_for p pid s \<longleftrightarrow> sched_ok s \<and> sched_current_slot s = Some p \<and> \<not> is_idle (g_tasks s p)
     \<and> list_ex (\<lambda>j. sched_task_is_child_of (g_tasks s j) (sint (tid (g_tasks s p))) pid) [1..<SCHED_MAX_TASKS]
     \<and> list_all (\<lambda>j. sched_task_is_child_of (g_tasks s j) (sint (tid (g_tasks s p))) pid
                      \<longrightarrow> state (g_tasks s j) \<noteq> T_ZOMBIE) [1..<SCHED_MAX_TASKS]"

lemma waits_for_no_exit: "waits_for p pid s \<Longrightarrow> no_exit s s' \<Longrightarrow> waits_for p pid s'"
  unfolding waits_for_def using no_exit_child [of s s'] by (auto simp: no_exit_def list_ex_iff list_all_iff)

lemma waits_for_step:
  assumes "waits_for p pid s"
  shows "sched_waitpid pid 0 s = (SCHED_WAITPID_BLOCKED, None, sched_waitq_sleep (Child_waitq p) 0 s)"
    "no_exit s (sched_waitq_sleep (Child_waitq p) 0 s)"
proof -
  have w: "sched_ok s" "sched_current_slot s = Some p" "\<not> is_idle (g_tasks s p)" using assms by (auto simp: waits_for_def)
  have "List.find (\<lambda>i. sched_task_is_child_of (g_tasks s i) (sint (tid (g_tasks s p))) pid \<and> state (g_tasks s i) = T_ZOMBIE)
      [1..<SCHED_MAX_TASKS] = None"
    using assms unfolding waits_for_def list_all_iff find_None_iff by blast
  then show "sched_waitpid pid 0 s = (SCHED_WAITPID_BLOCKED, None, sched_waitq_sleep (Child_waitq p) 0 s)"
    using assms w by (simp add: sched_waitpid_def sched_try_reap_child_def waits_for_def)
  have p: "p = g_current_idx s" using current_slot [OF w(2)] by blast
  have "sched_ok (sched_waitq_sleep (Child_waitq p) 0 s)" by (rule waitq_sleep_ok [OF w(1)]) (simp add: p)
  then show "no_exit s (sched_waitq_sleep (Child_waitq p) 0 s)"
    using waitq_sleep_upd [OF w, where q = "Child_waitq p" and n = 0] by (simp add: no_exit_def slot_upd_def slot_id_def)
qed

text \<open>C38: \<open>SYS_WAITPID\<close> without \<open>WNOHANG\<close> on a live child never returns, however many timer interrupts it
  receives: the wait puts the caller to sleep but does not give up the processor, so the child cannot run.\<close>

theorem waitpid_never_returns:
  assumes "waits_for p pid s"
  shows "waitpid_loop (\<lambda>k. schedule_tick ^^ n k) k pid 0 status_addr s = None"
proof (rule ccontr)
  assume "waitpid_loop (\<lambda>k. schedule_tick ^^ n k) k pid 0 status_addr s \<noteq> None"
  then obtain r where r: "waitpid_loop (\<lambda>k. schedule_tick ^^ n k) k pid 0 status_addr s = Some r" by blast
  have "tick = (\<lambda>k. schedule_tick ^^ n k) \<and> opt = 0 \<longrightarrow> \<not> waits_for p pid s"
    if "waitpid_loop tick k pid opt sa s = Some r" for tick k opt sa s r
  proof (rule waitpid_loop.raw_induct [OF _ that], goal_cases)
    case (1 f tick k pid opt sa s r)
    show ?case
    proof (intro impI notI)
      assume t: "tick = (\<lambda>k. schedule_tick ^^ n k) \<and> opt = 0" and w: "waits_for p pid s"
      let ?u = "sched_waitq_sleep (Child_waitq p) 0 s"
      have "waits_for p pid ((schedule_tick ^^ n k) ?u)"
        using waits_for_no_exit [OF w no_exit_trans [OF waits_for_step(2) [OF w] no_exit_ticks]] .
      moreover have "f tick (Suc k) pid opt sa ((schedule_tick ^^ n k) ?u) = Some r"
        using 1(2) t waits_for_step(1) [OF w] by simp
      ultimately show False using 1(1) t by blast
    qed
  qed
  then show False using r assms by blast
qed

definition demo_waiting :: kernel where
  "demo_waiting = sched.extend (demo_family\<lparr>g_current_idx := 1\<rparr>) (sched.more demo_kernel)"

lemma demo_waiting: "waits_for 1 2 demo_waiting"
proof -
  let ?s = "snd (sched_spawn ''child'' (Some 8) 0 (demo_sched 100))"
  have f: "g_tasks demo_waiting = g_tasks demo_family" "g_current_idx demo_waiting = 1"
    by (simp_all add: demo_waiting_def sched.defs)
  have al: "sched_alloc_slot (demo_sched 100) = 2"
    using demo_sched_slots(1) [of 100] demo_sched_slots(3) [of _ 100]
    by (simp add: sched_alloc_slot_def upt_rec slot_id_def slot_zero_def)
  have "state (g_tasks ?s 2) = T_RUNNABLE"
    using al by (simp add: sched_spawn_def Let_def upd_task_def sched_waitq_init_def resched_def sched_fd_table_init_stdio_def
        stdio_entry_def sched_fd_table_clear_def)
  then have z: "state (g_tasks demo_family 2) \<noteq> T_ZOMBIE"
    by (auto simp: demo_family_def sched_waitq_sleep_def Let_def sched_detach_waitq_def upd_task_def waitq_set_bit_def
        waitq_clear_bit_def resched_def split: option.split)
  have t: "tid (g_tasks demo_family 1) = 1" "tid (g_tasks demo_family 2) = 2" "parent_tid (g_tasks demo_family 2) = 1"
    "parent_tid (g_tasks demo_family 1) = 0"
    "used (g_tasks demo_family 1)" "used (g_tasks demo_family 2)" "\<not> is_idle (g_tasks demo_family 1)" "\<not> is_idle (g_tasks demo_family 2)"
    using demo_family(1,2) by (simp_all add: slot_id_def)
  have "sched_ok demo_waiting" using demo_family(6) by (simp add: sched_ok_def demo_waiting_def sched.defs)
  then show ?thesis
    using t z demo_family(4) f
    by (simp add: waits_for_def sched_current_slot_def sched_task_is_child_of_def upt_rec numeral_2_eq_2 [symmetric])
qed

theorem waitpid_never_returns_witness:
  "waitpid_loop (\<lambda>k. schedule_tick ^^ 5) 0 2 0 0 demo_waiting = None"
  by (rule waitpid_never_returns [OF demo_waiting, where n = "\<lambda>_. 5"])

end
