(* ===== verification/FdSelftest.thy ===== *)
theory FdSelftest
  imports Printk Calls "HOL-Library.Monad_Syntax"
begin

text \<open>
  The descriptor self test of the guest kernel (\<open>kernel/src/fd_selftest.c\<close>), the command \<open>fdtest\<close> of the init
  task: some thirty system calls whose results are read back from the mailbox.

  The static buffers and strings of the file are passed to the system calls by address, so they live in the memory that
  the calls see; their addresses are the record \<open>fdtest_data\<close>. The one C function is split into the groups of calls
  that it consists of; the counter \<open>fails\<close> and the state are passed along.
\<close>

section \<open>System calls of the test\<close>

record fdtest_data =
  d_buf :: u32
  d_pfd :: u32
  d_sel_read :: u32
  d_dev_null :: u32
  d_dev_zero :: u32
  d_dev_tty :: u32
  d_missing :: u32
  d_x :: u32

abbreviation (input) SYS_FD_CLOEXEC :: u32 where "SYS_FD_CLOEXEC \<equiv> 1"
abbreviation (input) ABI_OFF_LAST_NR :: u32 where "ABI_OFF_LAST_NR \<equiv> 0x08"
abbreviation (input) ABI_OFF_RET :: u32 where "ABI_OFF_RET \<equiv> 0x24"
abbreviation (input) ABI_OFF_ERRNO :: u32 where "ABI_OFF_ERRNO \<equiv> 0x28"
abbreviation (input) ABI_OFF_TICK :: u32 where "ABI_OFF_TICK \<equiv> 0x2C"

type_synonym 's runs = "nat \<Rightarrow> nat \<Rightarrow> nat \<Rightarrow> 's \<Rightarrow> 's"
type_synonym 's irqs = "nat \<Rightarrow> nat \<Rightarrow> 's \<Rightarrow> 's"

definition abi_read32 :: "u32 \<Rightarrow> 'a kernel_scheme \<Rightarrow> u32" where
  "abi_read32 off s = load32 (umem s) (SYSCALL_ABI_ADDR + off)"

definition fdtest_syscall ::
  "'a kernel_scheme runs \<Rightarrow> 'a kernel_scheme irqs \<Rightarrow> u32 \<Rightarrow> u32 \<Rightarrow> u32 \<Rightarrow> u32 \<Rightarrow> 'a kernel_scheme
   \<Rightarrow> (u32 \<times> u32 \<times> 'a kernel_scheme) option" where
  "fdtest_syscall run irq n a0 a1 a2 s =
     do {
       (_, s) \<leftarrow> syscall_dispatch run irq
                 (Some \<lparr>nr = n, arg0 = a0, arg1 = a1, arg2 = a2, arg3 = 0, arg4 = 0, arg5 = 0\<rparr>) s;
       let ret = abi_read32 ABI_OFF_RET s;
       let err = (if ret = - 1 then abi_read32 ABI_OFF_ERRNO s else 0);
       Some (ret, err, s)
     }"

partial_function (option) fdtest_drain_stdin :: "'a console_scheme \<Rightarrow> 'a console_scheme option" where
  "fdtest_drain_stdin s =
     (case console_read True 32 True s of (n, _, s) \<Rightarrow> if 0 < n then fdtest_drain_stdin s else Some s)"

definition fdtest_fail :: "string \<Rightarrow> u32 \<Rightarrow> u32 \<Rightarrow> u32 \<times> 'a klogs_scheme \<Rightarrow> u32 \<times> 'a klogs_scheme" where
  "fdtest_fail msg got want x =
     (case x of (fails, s) \<Rightarrow>
        let s = klog_prefix KLOG_LEVEL_ERROR (Some (cstr ''fdtest'')) s;
            s = kputs (cstr msg) s;
            s = kputs (cstr '' got='') s;
            s = kprint_hex32 got s;
            s = kputs (cstr '' want='') s;
            s = kprint_hex32 want s;
            s = kputc 10 s in
        (fails + 1, s))"

text \<open>The test reports a failure unless \<open>b\<close> holds.\<close>

definition expect :: "bool \<Rightarrow> string \<Rightarrow> u32 \<Rightarrow> u32 \<Rightarrow> u32 \<times> 'a klogs_scheme \<Rightarrow> u32 \<times> 'a klogs_scheme" where
  "expect b msg got want x = (if b then x else fdtest_fail msg got want x)"

section \<open>The duplicated standard input\<close>

text \<open>The first two calls: \<open>Inl\<close> where the test returns early.\<close>

definition fdtest_dup_failed :: "u32 \<Rightarrow> u32 \<Rightarrow> 'a klogs_scheme \<Rightarrow> 'a klogs_scheme" where
  "fdtest_dup_failed ret err s =
     (let (fails, s) = fdtest_fail ''dup(stdin) errno'' err 0 (0, s);
          (fails, s) = fdtest_fail ''dup(stdin) ret'' ret 0 (fails, s);
          s = klog_prefix KLOG_LEVEL_ERROR (Some (cstr ''fdtest'')) s;
          s = kputs (cstr ''dup(stdin) abi last_nr='') s;
          s = kprint_hex32 (abi_read32 ABI_OFF_LAST_NR s) s;
          s = kputs (cstr '' abi errno='') s;
          s = kprint_hex32 (abi_read32 ABI_OFF_ERRNO s) s;
          s = kputs (cstr '' abi ret='') s;
          s = kprint_hex32 (abi_read32 ABI_OFF_RET s) s;
          s = kputs (cstr '' abi tick='') s;
          s = kprint_hex32 (abi_read32 ABI_OFF_TICK s) s;
          s = kputc 10 s;
          s = (if 0 \<le> sint ret then snd (sched_fd_close (sint ret) s) else s);
          s = klog_prefix KLOG_LEVEL_ERROR (Some (cstr ''fdtest'')) s;
          s = kputs (cstr ''dup(stdin) fd0_open='') s;
          s = kprint_hex32 (if sched_fd_is_open 0 s then 1 else 0) s in
      kputc 10 s)"

definition fdtest_dup ::
  "'a klogs_scheme runs \<Rightarrow> 'a klogs_scheme irqs \<Rightarrow> 'a klogs_scheme
   \<Rightarrow> ('a klogs_scheme + u32 \<times> u32 \<times> u32 \<times> 'a klogs_scheme) option" where
  "fdtest_dup run irq s =
     do {
       (old_fl0, err, s) \<leftarrow> fdtest_syscall run irq 19 0 3 0 s;
       if err \<noteq> 0 then Some (Inl (snd (fdtest_fail ''fcntl(F_GETFL,0)'' err 0 (0, s))))
       else do {
         (ret, err, s) \<leftarrow> fdtest_syscall run irq 17 0 0 0 s;
         if err \<noteq> 0 \<or> sint ret < 0 then Some (Inl (fdtest_dup_failed ret err s))
         else do {
           let (fails, s) = expect (3 \<le> ret) ''dup(stdin) fd range'' ret 3 (0, s);
           Some (Inr (ret, old_fl0, fails, s))
         }
       }
     }"

definition fdtest_fcntl ::
  "'a klogs_scheme runs \<Rightarrow> 'a klogs_scheme irqs \<Rightarrow> u32 \<Rightarrow> u32 \<times> 'a klogs_scheme \<Rightarrow> (u32 \<times> 'a klogs_scheme) option" where
  "fdtest_fcntl run irq dupfd x =
     do {
       let (fails, s) = x;
       (ret, err, s) \<leftarrow> fdtest_syscall run irq 19 dupfd 1 0 s;
       let (fails, s) = expect (err = 0 \<and> ret = 0) ''fcntl(F_GETFD) initial'' ret 0 (fails, s);
       (ret, err, s) \<leftarrow> fdtest_syscall run irq 19 dupfd 2 SYS_FD_CLOEXEC s;
       let (fails, s) = expect (err = 0 \<and> ret = 0) ''fcntl(F_SETFD,FD_CLOEXEC)'' err 0 (fails, s);
       (ret, err, s) \<leftarrow> fdtest_syscall run irq 19 dupfd 1 0 s;
       let (fails, s) = expect (err = 0 \<and> ret AND SYS_FD_CLOEXEC \<noteq> 0) ''fcntl(F_GETFD) cloexec'' ret SYS_FD_CLOEXEC (fails, s);
       (ret, err, s) \<leftarrow> fdtest_syscall run irq 19 dupfd 4 SYS_O_NONBLOCK s;
       let (fails, s) = expect (err = 0 \<and> ret = 0) ''fcntl(F_SETFL,O_NONBLOCK)'' err 0 (fails, s);
       (ret, err, s) \<leftarrow> fdtest_syscall run irq 19 0 3 0 s;
       Some (expect (err = 0 \<and> ret AND SYS_O_NONBLOCK \<noteq> 0) ''fcntl(F_GETFL,stdin) shared'' ret SYS_O_NONBLOCK (fails, s))
     }"

definition fdtest_read ::
  "'a klogs_scheme runs \<Rightarrow> 'a klogs_scheme irqs \<Rightarrow> fdtest_data \<Rightarrow> u32 \<Rightarrow> u32 \<times> 'a klogs_scheme
   \<Rightarrow> (u32 \<times> 'a klogs_scheme) option" where
  "fdtest_read run irq d dupfd x =
     do {
       let (fails, s) = x;
       (ret, err, s) \<leftarrow> fdtest_syscall run irq 6 dupfd (d_buf d) 1 s;
       Some (if ret = - 1 then expect (err = ERRNO_EAGAIN) ''read(nonblock) errno'' err ERRNO_EAGAIN (fails, s)
             else expect (ret \<le> 1) ''read(nonblock) ret'' ret 1
                    (expect (err = 0) ''read(nonblock) err'' err 0 (fails, s)))
     }"

text \<open>The poll structure: \<open>int32_t fd\<close>, \<open>int16_t events\<close>, \<open>int16_t revents\<close>.\<close>

definition put_pfd :: "u32 \<Rightarrow> u32 \<Rightarrow> u16 \<Rightarrow> u16 \<Rightarrow> 'a kernel_scheme \<Rightarrow> 'a kernel_scheme" where
  "put_pfd a fd events revents s =
     s\<lparr>umem := (store32 (umem s) a fd)
         (a + 4 := ucast events, a + 5 := ucast (drop_bit 8 events),
          a + 6 := ucast revents, a + 7 := ucast (drop_bit 8 revents))\<rparr>"

definition pfd_revents :: "u32 \<Rightarrow> 'a kernel_scheme \<Rightarrow> u16" where
  "pfd_revents a s = ucast (umem s (a + 6)) OR push_bit 8 (ucast (umem s (a + 7)))"

definition fdtest_poll ::
  "'a klogs_scheme runs \<Rightarrow> 'a klogs_scheme irqs \<Rightarrow> fdtest_data \<Rightarrow> u32 \<Rightarrow> u32 \<times> 'a klogs_scheme
   \<Rightarrow> (u32 \<times> 'a klogs_scheme) option" where
  "fdtest_poll run irq d dupfd x =
     do {
       let (fails, s) = x;
       (ret, err, s) \<leftarrow> fdtest_syscall run irq 8 (d_pfd d) 1 0 (put_pfd (d_pfd d) dupfd SYS_POLLIN 0 s);
       let rev = pfd_revents (d_pfd d) s;
       let x = expect (err = 0) ''poll(stdin,timeout=0) errno'' err 0 (fails, s);
       Some (if 1 < ret then fdtest_fail ''poll(stdin,timeout=0) ret'' ret 1 x
             else if ret = 0 then expect (rev = 0) ''poll revents empty'' (ucast rev) 0 x
             else expect (rev AND SYS_POLLIN \<noteq> 0) ''poll revents ready'' (ucast rev) 1 x)
     }"

definition fdtest_poll_negative ::
  "'a klogs_scheme runs \<Rightarrow> 'a klogs_scheme irqs \<Rightarrow> fdtest_data \<Rightarrow> u32 \<times> 'a klogs_scheme
   \<Rightarrow> (u32 \<times> 'a klogs_scheme) option" where
  "fdtest_poll_negative run irq d x =
     do {
       let (fails, s) = x;
       (ret, err, s) \<leftarrow> fdtest_syscall run irq 8 (d_pfd d) 1 0 (put_pfd (d_pfd d) (- 1) SYS_POLLIN 0x7FFF s);
       let rev = pfd_revents (d_pfd d) s;
       let x = (if err \<noteq> 0 \<or> ret \<noteq> 0
                then fdtest_fail ''poll(fd<0) ret'' ret 0 (fdtest_fail ''poll(fd<0) ret/errno'' err 0 (fails, s))
                else (fails, s));
       Some (expect (rev = 0) ''poll(fd<0) revents'' (ucast rev) 0 x)
     }"

definition fdtest_select ::
  "'a klogs_scheme runs \<Rightarrow> 'a klogs_scheme irqs \<Rightarrow> fdtest_data \<Rightarrow> u32 \<Rightarrow> u32 \<times> 'a klogs_scheme
   \<Rightarrow> (u32 \<times> 'a klogs_scheme) option" where
  "fdtest_select run irq d dupfd x =
     do {
       let (fails, s) = expect (dupfd < 32) ''dupfd out of select range'' dupfd 31 x;
       let b = (if dupfd < 32 then push_bit (unat dupfd) 1 else 0 :: u32);
       let s = s\<lparr>umem := store32 (umem s) (d_sel_read d) b\<rparr>;
       (ret, err, s) \<leftarrow> fdtest_syscall run irq 9 (dupfd + 1) (d_sel_read d) 0 s;
       let sel = load32 (umem s) (d_sel_read d);
       let x = expect (err = 0) ''select(stdin,timeout=0) errno'' err 0 (fails, s);
       Some (if 1 < ret then fdtest_fail ''select(stdin,timeout=0) ret'' ret 1 x
             else if ret = 0 then expect (sel = 0) ''select readmask empty'' sel 0 x
             else if dupfd < 32 then expect (sel AND b \<noteq> 0) ''select readmask ready'' sel b x
             else x)
     }"

definition fdtest_close ::
  "'a klogs_scheme runs \<Rightarrow> 'a klogs_scheme irqs \<Rightarrow> u32 \<Rightarrow> u32 \<Rightarrow> u32 \<times> 'a klogs_scheme
   \<Rightarrow> (u32 \<times> 'a klogs_scheme) option" where
  "fdtest_close run irq dupfd old_fl0 x =
     do {
       let (fails, s) = x;
       (ret, err, s) \<leftarrow> fdtest_syscall run irq 16 dupfd 0 0 s;
       let (fails, s) = expect (err = 0 \<and> ret = 0) ''close(dupfd)'' err 0 (fails, s);
       (ret, err, s) \<leftarrow> fdtest_syscall run irq 16 dupfd 0 0 s;
       let (fails, s) = expect (ret = - 1 \<and> err = ERRNO_EBADF) ''close(dupfd) second'' err ERRNO_EBADF (fails, s);
       (ret, err, s) \<leftarrow> fdtest_syscall run irq 19 0 4 old_fl0 s;
       Some (expect (err = 0 \<and> ret = 0) ''restore stdin flags'' err 0 (fails, s))
     }"

section \<open>Devices and sockets\<close>

definition fdtest_null ::
  "'a klogs_scheme runs \<Rightarrow> 'a klogs_scheme irqs \<Rightarrow> fdtest_data \<Rightarrow> u32 \<times> 'a klogs_scheme
   \<Rightarrow> (u32 \<times> 'a klogs_scheme) option" where
  "fdtest_null run irq d x =
     do {
       let (fails, s) = x;
       (fd, err, s) \<leftarrow> fdtest_syscall run irq 20 (d_dev_null d) 2 0 s;
       if err \<noteq> 0 \<or> sint fd < 0 then Some (fdtest_fail ''open(/dev/null)'' err 0 (fails, s))
       else do {
         (ret, err, s) \<leftarrow> fdtest_syscall run irq 6 fd (d_buf d) 8 s;
         let (fails, s) = (if err \<noteq> 0 \<or> ret \<noteq> 0
              then fdtest_fail ''read(/dev/null) ret'' ret 0 (fdtest_fail ''read(/dev/null)'' err 0 (fails, s))
              else (fails, s));
         (ret, err, s) \<leftarrow> fdtest_syscall run irq 7 fd (d_x d) 1 s;
         let (fails, s) = (if err \<noteq> 0 \<or> ret \<noteq> 1
              then fdtest_fail ''write(/dev/null) ret'' ret 1 (fdtest_fail ''write(/dev/null)'' err 0 (fails, s))
              else (fails, s));
         (ret, err, s) \<leftarrow> fdtest_syscall run irq 16 fd 0 0 s;
         Some (expect (err = 0 \<and> ret = 0) ''close(/dev/null)'' err 0 (fails, s))
       }
     }"

definition fdtest_zero ::
  "'a klogs_scheme runs \<Rightarrow> 'a klogs_scheme irqs \<Rightarrow> fdtest_data \<Rightarrow> u32 \<times> 'a klogs_scheme
   \<Rightarrow> (u32 \<times> 'a klogs_scheme) option" where
  "fdtest_zero run irq d x =
     do {
       let (fails, s) = x;
       let s = s\<lparr>umem := write_at (d_buf d) (replicate 8 0xA5) (umem s)\<rparr>;
       (fd, err, s) \<leftarrow> fdtest_syscall run irq 20 (d_dev_zero d) 0 0 s;
       if err \<noteq> 0 \<or> sint fd < 0 then Some (fdtest_fail ''open(/dev/zero)'' err 0 (fails, s))
       else do {
         (ret, err, s) \<leftarrow> fdtest_syscall run irq 6 fd (d_buf d) 8 s;
         let bad = List.find (\<lambda>b. b \<noteq> 0) (List.map (\<lambda>i. umem s (d_buf d + of_nat i)) [0..<8]);
         let x = (if err \<noteq> 0 \<or> ret \<noteq> 8
              then fdtest_fail ''read(/dev/zero) ret'' ret 8 (fdtest_fail ''read(/dev/zero)'' err 0 (fails, s))
              else (fails, s));
         let (fails, s) = (case bad of None \<Rightarrow> x | Some b \<Rightarrow> fdtest_fail ''read(/dev/zero) byte'' (ucast b) 0 x);
         (ret, err, s) \<leftarrow> fdtest_syscall run irq 16 fd 0 0 s;
         Some (expect (err = 0 \<and> ret = 0) ''close(/dev/zero)'' err 0 (fails, s))
       }
     }"

definition fdtest_tty ::
  "'a klogs_scheme runs \<Rightarrow> 'a klogs_scheme irqs \<Rightarrow> fdtest_data \<Rightarrow> u32 \<times> 'a klogs_scheme
   \<Rightarrow> (u32 \<times> 'a klogs_scheme) option" where
  "fdtest_tty run irq d x =
     do {
       let (fails, s) = x;
       (fd, err, s) \<leftarrow> fdtest_syscall run irq 20 (d_dev_tty d) 2 0 s;
       if err \<noteq> 0 \<or> sint fd < 0 then Some (fdtest_fail ''open(/dev/tty)'' err 0 (fails, s))
       else do {
         (ret, err, s) \<leftarrow> fdtest_syscall run irq 16 fd 0 0 s;
         Some (expect (err = 0 \<and> ret = 0) ''close(/dev/tty)'' err 0 (fails, s))
       }
     }"

definition fdtest_missing ::
  "'a klogs_scheme runs \<Rightarrow> 'a klogs_scheme irqs \<Rightarrow> fdtest_data \<Rightarrow> u32 \<times> 'a klogs_scheme
   \<Rightarrow> (u32 \<times> 'a klogs_scheme) option" where
  "fdtest_missing run irq d x =
     do {
       let (fails, s) = x;
       (ret, err, s) \<leftarrow> fdtest_syscall run irq 20 (d_missing d) 0 0 s;
       let (fails, s) = expect (ret = - 1 \<and> err = ERRNO_ENOENT) ''open(/dev/missing) errno'' err ERRNO_ENOENT (fails, s);
       (ret, err, s) \<leftarrow> fdtest_syscall run irq 21 0xFFFF 1 0 s;
       Some (expect (ret = - 1 \<and> err = ERRNO_EAFNOSUPPORT) ''socket(bad domain)'' err ERRNO_EAFNOSUPPORT (fails, s))
     }"

definition fdtest_socket ::
  "'a klogs_scheme runs \<Rightarrow> 'a klogs_scheme irqs \<Rightarrow> fdtest_data \<Rightarrow> u32 \<times> 'a klogs_scheme
   \<Rightarrow> (u32 \<times> 'a klogs_scheme) option" where
  "fdtest_socket run irq d x =
     do {
       let (fails, s) = x;
       (fd, err, s) \<leftarrow> fdtest_syscall run irq 21 2 1 0 s;
       if err \<noteq> 0 \<or> sint fd < 0 then Some (fdtest_fail ''socket(AF_INET)'' err 0 (fails, s))
       else do {
         (ret, err, s) \<leftarrow> fdtest_syscall run irq 23 fd 0 0 s;
         let (fails, s) = expect (ret = - 1 \<and> err = ERRNO_EOPNOTSUPP) ''bind(socket)'' err ERRNO_EOPNOTSUPP (fails, s);
         (ret, err, s) \<leftarrow> fdtest_syscall run irq 26 fd (d_x d) 1 s;
         let (fails, s) = expect (ret = - 1 \<and> err = ERRNO_ENOTCONN) ''send(socket)'' err ERRNO_ENOTCONN (fails, s);
         (ret, err, s) \<leftarrow> fdtest_syscall run irq 27 fd (d_buf d) 1 s;
         let (fails, s) = expect (ret = - 1 \<and> err = ERRNO_ENOTCONN) ''recv(socket)'' err ERRNO_ENOTCONN (fails, s);
         (ret, err, s) \<leftarrow> fdtest_syscall run irq 16 fd 0 0 s;
         Some (expect (err = 0 \<and> ret = 0) ''close(socket)'' err 0 (fails, s))
       }
     }"

definition fdtest_bind ::
  "'a klogs_scheme runs \<Rightarrow> 'a klogs_scheme irqs \<Rightarrow> u32 \<times> 'a klogs_scheme \<Rightarrow> (u32 \<times> 'a klogs_scheme) option" where
  "fdtest_bind run irq x =
     do {
       let (fails, s) = x;
       (ret, err, s) \<leftarrow> fdtest_syscall run irq 23 0 0 0 s;
       Some (expect (ret = - 1 \<and> err = ERRNO_ENOTSOCK) ''bind(non-socket)'' err ERRNO_ENOTSOCK (fails, s))
     }"

section \<open>The whole test\<close>

definition fdtest_report :: "u32 \<times> 'a klogs_scheme \<Rightarrow> 'a klogs_scheme" where
  "fdtest_report x =
     (case x of (fails, s) \<Rightarrow>
        if fails = 0 then klog_line KLOG_LEVEL_INFO (Some (cstr ''fdtest'')) (Some (cstr ''pass'')) s
        else
          let s = klog_prefix KLOG_LEVEL_ERROR (Some (cstr ''fdtest'')) s;
              s = kputs (cstr ''fail count='') s;
              s = kprint_hex32 fails s in
          kputc 10 s)"

text \<open>The test up to the report.\<close>

definition fdtest_calls ::
  "'a klogs_scheme runs \<Rightarrow> 'a klogs_scheme irqs \<Rightarrow> fdtest_data \<Rightarrow> u32 \<Rightarrow> u32 \<Rightarrow> u32 \<times> 'a klogs_scheme
   \<Rightarrow> (u32 \<times> 'a klogs_scheme) option" where
  "fdtest_calls run irq d dupfd old_fl0 x =
     do {
       x \<leftarrow> fdtest_fcntl run irq dupfd x;
       x \<leftarrow> fdtest_read run irq d dupfd x;
       x \<leftarrow> fdtest_poll run irq d dupfd x;
       x \<leftarrow> fdtest_poll_negative run irq d x;
       x \<leftarrow> fdtest_select run irq d dupfd x;
       x \<leftarrow> fdtest_close run irq dupfd old_fl0 x;
       x \<leftarrow> fdtest_null run irq d x;
       x \<leftarrow> fdtest_zero run irq d x;
       x \<leftarrow> fdtest_tty run irq d x;
       x \<leftarrow> fdtest_missing run irq d x;
       x \<leftarrow> fdtest_socket run irq d x;
       fdtest_bind run irq x
     }"

definition fd_selftest_run ::
  "'a klogs_scheme runs \<Rightarrow> 'a klogs_scheme irqs \<Rightarrow> fdtest_data \<Rightarrow> 'a klogs_scheme \<Rightarrow> 'a klogs_scheme option" where
  "fd_selftest_run run irq d s =
     do {
       let s = klog_line KLOG_LEVEL_INFO (Some (cstr ''fdtest'')) (Some (cstr ''start v8'')) s;
       s \<leftarrow> fdtest_drain_stdin s;
       r \<leftarrow> fdtest_dup run irq s;
       case r of
         Inl s \<Rightarrow> Some s
       | Inr (dupfd, old_fl0, fails, s) \<Rightarrow> map_option fdtest_report (fdtest_calls run irq d dupfd old_fl0 (fails, s))
     }"

end
