(* ===== verification/FdPass.thy ===== *)
theory FdPass
  imports FdSelftest
begin

text \<open>
  The descriptor self test of the kernel passes: from every sound state in which the current task has a free descriptor
  and its standard input at descriptor 0, every call of the test returns what the test expects.

  \<open>rdy d i t s\<close> says that task \<open>i\<close> with slot \<open>t\<close> is the current one and that the strings of the test are in
  memory; each call is one lemma from \<open>rdy\<close> to \<open>rdy\<close>.
\<close>

section \<open>Memory of the test\<close>

definition area :: "u32 \<Rightarrow> nat \<Rightarrow> u32 set" where
  "area a n = {x. unat a \<le> unat x \<and> unat x < unat a + n}"

definition str_at :: "(u32 \<Rightarrow> u8) \<Rightarrow> u32 \<Rightarrow> u8 list \<Rightarrow> bool" where
  "str_at m a cs \<longleftrightarrow> (\<forall>i<length cs. m (a + of_nat i) = cs ! i) \<and> m (a + of_nat (length cs)) = 0"

definition strings :: "fdtest_data \<Rightarrow> (u32 \<times> u8 list) list" where
  "strings d = [(d_dev_null d, cstr ''/dev/null''), (d_dev_zero d, cstr ''/dev/zero''),
                (d_dev_tty d, cstr ''/dev/tty''), (d_missing d, cstr ''/dev/missing'')]"

definition writable :: "fdtest_data \<Rightarrow> (u32 \<times> nat) list" where
  "writable d = [(d_buf d, 64), (d_pfd d, 8), (d_sel_read d, 4)]"

definition in_user :: "u32 \<Rightarrow> nat \<Rightarrow> bool" where
  "in_user a n \<longleftrightarrow> a \<noteq> 0 \<and> unat a + n \<le> 67108864"

text \<open>The data of the test lies in RAM, apart from the mailbox, and its strings apart from what is written.\<close>

definition placed :: "fdtest_data \<Rightarrow> bool" where
  "placed d \<longleftrightarrow>
     (\<forall>(a, n)\<in>set (writable d). in_user a n \<and> area a n \<inter> area SYSCALL_ABI_ADDR 48 = {})
     \<and> (\<forall>(a, cs)\<in>set (strings d). in_user a (length cs + 1) \<and> area a (length cs + 1) \<inter> area SYSCALL_ABI_ADDR 48 = {}
          \<and> (\<forall>(b, n)\<in>set (writable d). area a (length cs + 1) \<inter> area b n = {}))
     \<and> in_user (d_x d) 1"

definition rdy :: "fdtest_data \<Rightarrow> nat \<Rightarrow> sched_task_slot \<Rightarrow> 'a kernel_scheme \<Rightarrow> bool" where
  "rdy d i t s \<longleftrightarrow> sched_current_slot s = Some i \<and> g_tasks s i = t \<and> (\<forall>(a, cs)\<in>set (strings d). str_at (umem s) a cs)"

lemma in_user_range:
  assumes "in_user a n" "0 < n" "unat k = n"
  shows "abi_ptr_range_ok a k"
proof -
  have a: "unat a < 67108864" using assms by (simp add: in_user_def)
  then have "unat (0x04000000 - a) = 67108864 - unat a" by (simp add: unat_sub word_le_nat_alt)
  moreover have "k \<noteq> 0" using assms(2,3) by auto
  moreover have "n \<le> 67108864 - unat a" using assms(1) by (simp add: in_user_def le_diff_conv2)
  ultimately show ?thesis using assms a by (simp add: abi_ptr_range_ok_def in_user_def word_le_nat_alt)
qed

lemma area_add: "unat a + n \<le> 67108864 \<Longrightarrow> k < n \<Longrightarrow> a + of_nat k \<in> area a n"
  using unat_add_small [of a k] by (simp add: area_def)

lemma str_at_keep:
  assumes "str_at m a cs" "\<forall>x\<in>area a (length cs + 1). m' x = m x" "unat a + length cs + 1 \<le> 67108864"
  shows "str_at m' a cs"
  using assms area_add [of a "length cs + 1"] by (auto simp: str_at_def)

text \<open>Writing outside of the strings keeps \<open>rdy\<close>.\<close>

lemma rdy_keep:
  assumes "rdy d i t s" "placed d" "sched_current_slot u = Some i" "g_tasks u i = t'"
    "\<forall>x. (\<forall>(a, n)\<in>set (writable d). x \<notin> area a n) \<longrightarrow> x \<notin> area SYSCALL_ABI_ADDR 48 \<longrightarrow> umem u x = umem s x"
  shows "rdy d i t' u"
proof -
  have "str_at (umem u) a cs" if c: "(a, cs) \<in> set (strings d)" for a cs
  proof (rule str_at_keep)
    show "str_at (umem s) a cs" using assms(1) c by (auto simp: rdy_def)
    have p: "in_user a (length cs + 1)" "area a (length cs + 1) \<inter> area SYSCALL_ABI_ADDR 48 = {}"
      "\<forall>(b, n)\<in>set (writable d). area a (length cs + 1) \<inter> area b n = {}"
      using bspec [OF conjunct1 [OF conjunct2 [OF assms(2) [unfolded placed_def]]] c] by simp_all
    show "unat a + length cs + 1 \<le> 67108864" using p(1) by (simp add: in_user_def)
    show "\<forall>x\<in>area a (length cs + 1). umem u x = umem s x"
      using p(2,3) assms(5) by (auto simp: disjoint_iff split: prod.splits)
  qed
  then show ?thesis using assms(3,4) by (auto simp: rdy_def)
qed

lemma current_same: "g_current_idx u = g_current_idx s \<Longrightarrow> g_tasks u = g_tasks s \<Longrightarrow> sched_current_slot u = sched_current_slot s"
  by (simp add: sched_current_slot_def)

lemma store32_area: "unat a + 4 \<le> 67108864 \<Longrightarrow> x \<notin> area a 4 \<Longrightarrow> store32 m a v x = m x"
  by (rule store32_other) (auto simp: area_def)

lemma write_at_area: "unat a + length bs \<le> 67108864 \<Longrightarrow> x \<notin> area a (length bs) \<Longrightarrow> write_at a bs m x = m x"
proof (induction bs arbitrary: a m)
  case (Cons b bs)
  have a: "unat (a + 1) = unat a + 1" using unat_add_small [of a 1] Cons.prems(1) by simp
  have "x \<notin> area (a + 1) (length bs)" "x \<noteq> a" using Cons.prems(2) by (auto simp: area_def a)
  then show ?case using Cons a by simp
qed simp

lemma abi_write32_area: "off \<le> 0x2C \<Longrightarrow> x \<notin> area SYSCALL_ABI_ADDR 48 \<Longrightarrow> umem (abi_write32 off v s) x = umem s x"
proof -
  assume o: "off \<le> 0x2C" and x: "x \<notin> area SYSCALL_ABI_ADDR 48"
  then have b: "unat off \<le> 44" by (simp add: word_le_nat_alt)
  then have "unat (0x002FE000 + off) = 3137536 + unat off" by (simp add: unat_word_ariths)
  moreover have "x \<notin> area (0x002FE000 + off) 4" using x b by (simp add: area_def calculation) linarith
  ultimately show ?thesis using b store32_area [of "0x002FE000 + off" x] by (simp add: abi_write32_def)
qed

lemma publish_fields:
  "sched_current_slot (publish_result rg ret err s) = sched_current_slot s"
  "g_tasks (publish_result rg ret err s) = g_tasks s"
  "x \<notin> area SYSCALL_ABI_ADDR 48 \<Longrightarrow> umem (publish_result rg ret err s) x = umem s x"
proof -
  have f: "g_tasks (abi_write32 a b v) = g_tasks v" "g_current_idx (abi_write32 a b v) = g_current_idx v"
    for a b and v :: "'a kernel_scheme" by (simp_all add: abi_write32_def)
  show "g_tasks (publish_result rg ret err s) = g_tasks s" by (simp add: publish_result_def Let_def f)
  then show "sched_current_slot (publish_result rg ret err s) = sched_current_slot s"
    by (intro current_same) (simp_all add: publish_result_def Let_def f)
  assume "x \<notin> area SYSCALL_ABI_ADDR 48"
  then show "umem (publish_result rg ret err s) x = umem s x"
    by (simp add: publish_result_def Let_def abi_write32_area)
qed

section \<open>One call\<close>

text \<open>A call returns to the test what its case returns, and changes nothing more than the mailbox.\<close>

lemma test_call:
  assumes "syscall_case run irq \<lparr>nr = n, arg0 = a0, arg1 = a1, arg2 = a2, arg3 = 0, arg4 = 0, arg5 = 0\<rparr> s = Some (ret, err, s1)"
    "rdy d i t s1" "placed d"
  shows "\<exists>u. fdtest_syscall run irq n a0 a1 a2 s = Some (ret, if ret = - 1 then err else 0, u) \<and> rdy d i t u
             \<and> (\<forall>x. x \<notin> area SYSCALL_ABI_ADDR 48 \<longrightarrow> umem u x = umem s1 x)"
proof -
  let ?r = "\<lparr>nr = n, arg0 = a0, arg1 = a1, arg2 = a2, arg3 = 0, arg4 = 0, arg5 = 0\<rparr>"
  define u where "u = publish_result (Some ?r) ret err s1"
  have m: "mbox u 0x24 = ret" "mbox u 0x28 = err" unfolding u_def publish_result_def Let_def by (simp_all add: mbox_write)
  have "fdtest_syscall run irq n a0 a1 a2 s = Some (ret, if ret = - 1 then err else 0, u)"
    using assms(1) m by (simp add: fdtest_syscall_def syscall_dispatch_def abi_read32_def mbox_def u_def [symmetric])
  moreover have "rdy d i t u"
  proof (rule rdy_keep [OF assms(2,3)])
    show "sched_current_slot u = Some i" "g_tasks u i = t" using assms(2) by (simp_all add: u_def publish_fields rdy_def)
  qed (simp add: u_def publish_fields)
  ultimately show ?thesis by (auto simp: u_def publish_fields)
qed

section \<open>Calls on descriptors\<close>

text \<open>An operation on the descriptors of the current task.\<close>

lemma on_current_rdy:
  assumes "rdy d i t s" "f t = (r, t')" "used t' = used t"
  shows "on_current bad f s = (r, upd_task i (\<lambda>_. t') s)" "rdy d i t' (upd_task i (\<lambda>_. t') s)"
  using assms by (auto simp: on_current_def rdy_def upd_task_def sched_current_slot_def split: if_splits)

lemma query_current_rdy: "rdy d i t s \<Longrightarrow> query_current bad f s = f t"
  by (simp add: query_current_def rdy_def)

lemma slot_used [simp]:
  "used (snd (sched_slot_close_fd t fd)) = used t" "used (snd (slot_fd_dup fd t)) = used t"
  "used (snd (slot_fd_open_special sp fl t)) = used t" "used (snd (slot_fcntl_setfd fd fl t)) = used t"
  "used (snd (slot_fcntl_setfl fd fl t)) = used t"
  by (auto simp: sched_slot_close_fd_def slot_fd_dup_def share_ofile_def slot_fd_open_special_def
      slot_fcntl_setfd_def slot_fcntl_setfl_def Let_def split: option.splits)

text \<open>Changing calls return the code of the operation on the slot, and \<open>fcntl\<close> readers what is stored there.\<close>

lemma test_close:
  assumes "rdy d i t s" "placed d" "sched_slot_close_fd t (sint fd) = (rc, t')"
  shows "\<exists>u. fdtest_syscall run irq 16 fd 0 0 s
           = Some (if rc = 0 then 0 else - 1, if rc = 0 then 0 else errno_from_sched_fd_rc rc, u) \<and> rdy d i t' u"
proof -
  have u: "used t' = used t" using slot_used(1) [of t "sint fd"] assms(3) by simp
  note o = on_current_rdy [where f = "\<lambda>t. sched_slot_close_fd t (sint fd)", OF assms(1,3) u]
  have "syscall_case run irq \<lparr>nr = 16, arg0 = fd, arg1 = 0, arg2 = 0, arg3 = 0, arg4 = 0, arg5 = 0\<rparr> s
      = Some (if rc = 0 then 0 else - 1, if rc = 0 then 0 else errno_from_sched_fd_rc rc, upd_task i (\<lambda>_. t') s)"
    by (simp add: syscall_case_def sys_close_def sched_fd_close_def o ok_ret_def fail_def)
  from test_call [OF this o(2) assms(2)] show ?thesis by (auto split: if_splits)
qed

lemma test_dup:
  assumes "rdy d i t s" "placed d" "slot_fd_dup (sint fd) t = (n, t')" "0 \<le> n" "n < 32"
  shows "\<exists>u. fdtest_syscall run irq 17 fd 0 0 s = Some (of_int n, 0, u) \<and> rdy d i t' u"
proof -
  have u: "used t' = used t" using slot_used(2) [of "sint fd" t] assms(3) by simp
  note o = on_current_rdy [where f = "slot_fd_dup (sint fd)", OF assms(1,3) u]
  have "syscall_case run irq \<lparr>nr = 17, arg0 = fd, arg1 = 0, arg2 = 0, arg3 = 0, arg4 = 0, arg5 = 0\<rparr> s
      = Some (of_int n, 0, upd_task i (\<lambda>_. t') s)"
    using assms(4) by (simp add: syscall_case_def sys_dup_def fd_result_def sched_fd_dup_def o ok_ret_def)
  from test_call [OF this o(2) assms(2)] show ?thesis by auto
qed

lemma test_getfd:
  assumes "rdy d i t s" "placed d" "sched_slot_ofile_by_fd t (sint fd) = Some j"
  shows "\<exists>u. fdtest_syscall run irq 19 fd 1 0 s = Some (fe_fd_flags (fdtab t (nat (sint fd))), 0, u) \<and> rdy d i t u"
proof -
  have "syscall_case run irq \<lparr>nr = 19, arg0 = fd, arg1 = 1, arg2 = 0, arg3 = 0, arg4 = 0, arg5 = 0\<rparr> s
      = Some (fe_fd_flags (fdtab t (nat (sint fd))), 0, s)"
    using assms(3) by (simp add: syscall_case_def sys_fcntl_def Let_def flags_result_def sched_fd_fcntl_getfd_def
        query_current_rdy [OF assms(1)] slot_fcntl_getfd_def ok_ret_def)
  from test_call [OF this assms(1,2)] show ?thesis by auto
qed

lemma test_getfl:
  assumes "rdy d i t s" "placed d" "sched_slot_ofile_by_fd t (sint fd) = Some j"
  shows "\<exists>u. fdtest_syscall run irq 19 fd 3 0 s = Some (of_status_flags (ofiles t j), 0, u) \<and> rdy d i t u"
proof -
  have "syscall_case run irq \<lparr>nr = 19, arg0 = fd, arg1 = 3, arg2 = 0, arg3 = 0, arg4 = 0, arg5 = 0\<rparr> s
      = Some (of_status_flags (ofiles t j), 0, s)"
    using assms(3) by (simp add: syscall_case_def sys_fcntl_def Let_def flags_result_def sched_fd_fcntl_getfl_def
        query_current_rdy [OF assms(1)] slot_fcntl_getfl_def ok_ret_def)
  from test_call [OF this assms(1,2)] show ?thesis by auto
qed

lemma test_setfd:
  assumes "rdy d i t s" "placed d" "slot_fcntl_setfd (sint fd) fl t = (0, t')"
  shows "\<exists>u. fdtest_syscall run irq 19 fd 2 fl s = Some (0, 0, u) \<and> rdy d i t' u"
proof -
  have u: "used t' = used t" using slot_used(4) [of "sint fd" fl t] assms(3) by simp
  note o = on_current_rdy [where f = "slot_fcntl_setfd (sint fd) fl", OF assms(1,3) u]
  have "syscall_case run irq \<lparr>nr = 19, arg0 = fd, arg1 = 2, arg2 = fl, arg3 = 0, arg4 = 0, arg5 = 0\<rparr> s
      = Some (0, 0, upd_task i (\<lambda>_. t') s)"
    by (simp add: syscall_case_def sys_fcntl_def Let_def zero_result_def sched_fd_fcntl_setfd_def o ok_ret_def)
  from test_call [OF this o(2) assms(2)] show ?thesis by auto
qed

lemma test_setfl:
  assumes "rdy d i t s" "placed d" "slot_fcntl_setfl (sint fd) fl t = (0, t')"
  shows "\<exists>u. fdtest_syscall run irq 19 fd 4 fl s = Some (0, 0, u) \<and> rdy d i t' u"
proof -
  have u: "used t' = used t" using slot_used(5) [of "sint fd" fl t] assms(3) by simp
  note o = on_current_rdy [where f = "slot_fcntl_setfl (sint fd) fl", OF assms(1,3) u]
  have "syscall_case run irq \<lparr>nr = 19, arg0 = fd, arg1 = 4, arg2 = fl, arg3 = 0, arg4 = 0, arg5 = 0\<rparr> s
      = Some (0, 0, upd_task i (\<lambda>_. t') s)"
    by (simp add: syscall_case_def sys_fcntl_def Let_def zero_result_def sched_fd_fcntl_setfl_def o ok_ret_def)
  from test_call [OF this o(2) assms(2)] show ?thesis by auto
qed

section \<open>Opening\<close>

lemma cstr_loop_str:
  assumes "str_at (umem s) a cs" "0 \<notin> set cs" "length cs < k" "in_user a (length cs + 1)"
  shows "cstr_loop k a s = Some cs"
  using assms
proof (induction cs arbitrary: a k)
  case Nil
  then obtain k' where "k = Suc k'" by (cases k) auto
  moreover have "abi_ptr_range_ok a 1" using in_user_range [of a 1 1] Nil.prems(4) by simp
  ultimately show ?case using Nil.prems by (simp add: str_at_def)
next
  case (Cons c cs)
  then obtain k' where k: "k = Suc k'" by (cases k) auto
  have u: "unat (a + 1) = unat a + 1" using Cons.prems(4) unat_add_small [of a 1] by (simp add: in_user_def)
  have r: "abi_ptr_range_ok a 1" using in_user_range [of a 1 1] Cons.prems(4) by (simp add: in_user_def)
  have "umem s (a + 1 + of_nat i) = cs ! i" if "i < length cs" for i
    using Cons.prems(1) that by (auto simp: str_at_def algebra_simps dest: spec [of _ "Suc i"])
  moreover have "umem s (a + 1 + of_nat (length cs)) = 0" using Cons.prems(1) by (simp add: str_at_def algebra_simps)
  ultimately have "str_at (umem s) (a + 1) cs" by (simp add: str_at_def)
  moreover have "in_user (a + 1) (length cs + 1)"
    using Cons.prems(4) u by (auto simp: in_user_def word_unat_eq_iff)
  ultimately have "cstr_loop k' (a + 1) s = Some cs" using Cons k by simp
  moreover have "umem s a = c" using Cons.prems(1) by (auto simp: str_at_def dest: spec [of _ 0])
  ultimately show ?case using Cons.prems(2) r by (simp add: k)
qed

lemma read_path:
  assumes "rdy d i t s" "placed d" "(a, cs) \<in> set (strings d)"
  shows "abi_user_read_cstr a 64 s = Some cs"
proof -
  have p: "in_user a (length cs + 1)"
    using bspec [OF conjunct1 [OF conjunct2 [OF assms(2) [unfolded placed_def]]] assms(3)] by simp
  have m: "str_at (umem s) a cs" using assms(1,3) by (auto simp: rdy_def)
  have "length cs < 63" "0 \<notin> set cs" using assms(3) by (auto simp: strings_def cstr_def)
  then show ?thesis using cstr_loop_str [OF m _ _ p, of 63] p by (simp add: abi_user_read_cstr_def in_user_def)
qed

text \<open>An opened descriptor: it is the lowest free one, refers to a fresh open file, and closing it restores the slot.\<close>

definition opened :: "nat \<Rightarrow> nat \<Rightarrow> u32 \<Rightarrow> u32 \<Rightarrow> 'a fdtable_scheme \<Rightarrow> 'a fdtable_scheme" where
  "opened n j kd fl t =
     t\<lparr>ofiles := (ofiles t)(j := \<lparr>of_used = True, of_refs = 1, of_type = kd, of_status_flags = fl\<rparr>),
       fdtab := (fdtab t)(n := \<lparr>fe_used = True, fe_ofile_idx = of_nat j, fe_fd_flags = 0\<rparr>)\<rparr>"

lemma open_special:
  assumes "fd_ok t" "k < 32" "\<not> fe_used (fdtab t k)" "special_type_of sp = Some kd" "fl AND 0x803 = fl"
  obtains n j where "slot_fd_open_special sp fl t = (int n, opened n j kd fl t)" "n < 32" "j < 32"
    "\<not> fe_used (fdtab t n)" "\<not> of_used (ofiles t j)"
proof -
  let ?n = "sched_slot_find_free_fd t 0" and ?j = "sched_slot_find_free_ofile t"
  have n: "0 \<le> ?n" "nat ?n < 32 \<and> \<not> fe_used (fdtab t (nat ?n))"
    using find_free_fd [of t] assms(2,3) by (auto simp: not_less [symmetric])
  have j: "0 \<le> ?j" "nat ?j < 32 \<and> \<not> of_used (ofiles t (nat ?j))"
    using find_free_ofile [of t] free_fd_free_ofile [OF assms(1-3)] by (auto simp: not_less [symmetric])
  have "slot_fd_open_special sp fl t = (int (nat ?n), opened (nat ?n) (nat ?j) kd fl t)"
    using n(1) j(1) assms(4,5) by (simp add: slot_fd_open_special_def opened_def Let_def of_nat_nat)
  then show ?thesis using n j that by blast
qed

lemma opened_fields:
  "of_type (ofiles (opened n j kd fl t) j) = kd" "of_status_flags (ofiles (opened n j kd fl t) j) = fl"
  "fe_used (fdtab (opened n j kd fl t) n)"
  by (simp_all add: opened_def)

lemma opened_lookup:
  assumes "n < 32" "j < 32"
  shows "sched_slot_ofile_by_fd (opened n j kd fl t) (int n) = Some j"
proof -
  have "unat (of_nat j :: u32) = j" using assms(2) by (simp add: unat_of_nat)
  then show ?thesis using assms by (simp add: sched_slot_ofile_by_fd_def opened_def)
qed

lemma close_opened:
  assumes "fd_ok t" "n < 32" "j < 32" "\<not> fe_used (fdtab t n)" "\<not> of_used (ofiles t j)"
  shows "sched_slot_close_fd (opened n j kd fl t) (int n) = (0, t)"
proof -
  have "fdtab t n = fdent_free" "ofiles t j = ofile_free"
    using fd_okD(2) [OF assms(1,2,4)] fd_okD(4,5) [OF assms(1,3)] assms(5) by auto
  then have "(fdtab t)(n := fdent_free) = fdtab t" "(ofiles t)(j := ofile_free) = ofiles t"
    by (simp_all add: fun_upd_idem)
  moreover have "drop_ref \<lparr>of_used = True, of_refs = 1, of_type = kd, of_status_flags = fl\<rparr> = ofile_free"
    by (simp add: drop_ref_def ofile_free_def)
  ultimately show ?thesis
    using opened_lookup [OF assms(2,3), of kd fl t] by (simp add: sched_slot_close_fd_def opened_def)
qed

lemma open_result:
  assumes "rdy d i t s" "slot_fd_open_special sp fl t = (int n, t')" "n < 32"
  shows "fd_result (sched_fd_open_special sp fl s) = (of_nat n, 0, upd_task i (\<lambda>_. t') s)"
    "rdy d i t' (upd_task i (\<lambda>_. t') s)"
proof -
  have u: "used t' = used t" using slot_used(3) [of sp fl t] assms(2) by simp
  note o = on_current_rdy [where f = "slot_fd_open_special sp fl", OF assms(1,2) u]
  show "fd_result (sched_fd_open_special sp fl s) = (of_nat n, 0, upd_task i (\<lambda>_. t') s)" "rdy d i t' (upd_task i (\<lambda>_. t') s)"
    using o by (simp_all add: fd_result_def sched_fd_open_special_def ok_ret_def)
qed

lemma small_fd: "n < 32 \<Longrightarrow> sint (of_nat n :: u32) = int n" "n < 32 \<Longrightarrow> unat (of_nat n :: u32) = n"
proof -
  assume n: "n < 32"
  show u: "unat (of_nat n :: u32) = n" using n by (simp add: unat_of_nat)
  show "sint (of_nat n :: u32) = int n" using sint_small [of "of_nat n"] u n by simp
qed

lemma small_fd_not_minus: "n < 32 \<Longrightarrow> (of_nat n :: u32) \<noteq> - 1"
  using small_fd(1) [of n] by auto

lemma test_open:
  assumes "rdy d i t s" "placed d" "(a, cs) \<in> set (strings d)" "open_path_to_special cs = Some sp"
    "special_type_of sp = Some kd" "fl = 0 \<or> fl = 2" "fd_ok t" "k < 32" "\<not> fe_used (fdtab t k)"
  shows "\<exists>n j u. fdtest_syscall run irq 20 a fl 0 s = Some (of_nat n, 0, u) \<and> rdy d i (opened n j kd fl t) u
           \<and> n < 32 \<and> j < 32 \<and> sched_slot_close_fd (opened n j kd fl t) (int n) = (0, t)"
proof -
  have fl: "fl AND 0x803 = fl" using assms(6) by auto
  obtain n j where o: "slot_fd_open_special sp fl t = (int n, opened n j kd fl t)" "n < 32" "j < 32"
    "\<not> fe_used (fdtab t n)" "\<not> of_used (ofiles t j)"
    by (rule open_special [OF assms(7-9,5) fl])
  have "syscall_case run irq \<lparr>nr = 20, arg0 = a, arg1 = fl, arg2 = 0, arg3 = 0, arg4 = 0, arg5 = 0\<rparr> s
      = Some (of_nat n, 0, upd_task i (\<lambda>_. opened n j kd fl t) s)"
    using open_result [OF assms(1) o(1,2)] assms(4,6) read_path [OF assms(1-3)]
    by (auto simp: syscall_case_def sys_open_def)
  from test_call [OF this open_result(2) [OF assms(1) o(1,2)] assms(2)] obtain u where
    "fdtest_syscall run irq 20 a fl 0 s = Some (of_nat n, 0, u)" "rdy d i (opened n j kd fl t) u"
    using small_fd_not_minus [OF o(2)] by auto
  then show ?thesis using o close_opened [OF assms(7) o(2-5)] by blast
qed

section \<open>Reading and writing\<close>

lemma read_loop_fields:
  "read_loop k c s = (bs, e, s') \<Longrightarrow> g_tasks s' = g_tasks s \<and> g_current_idx s' = g_current_idx s \<and> wq s' = wq s \<and> umem s' = umem s \<and> length bs \<le> k"
  for s :: "'a kernel_scheme"
proof (induction k arbitrary: s bs e)
  case (Suc k)
  then show ?case by (fastforce simp: Let_def split: prod.splits if_splits)
qed simp

lemma read_nonblock:
  fixes s :: "'a kernel_scheme"
  assumes "console_read True n True s = (r, bs, s')" "n \<noteq> 0"
  shows "r = int (length bs) \<and> length bs \<le> unat n \<and> g_tasks s' = g_tasks s \<and> g_current_idx s' = g_current_idx s
         \<and> wq s' = wq s \<and> umem s' = umem s"
proof -
  obtain cs e u where l: "read_loop (unat n) (lflag 2 s) s = (cs, e, u)" by (cases "read_loop (unat n) (lflag 2 s) s") auto
  show ?thesis
    using assms l read_loop_fields [OF l] by (auto simp: console_read_def Let_def split: if_splits)
qed

lemma rdy_same:
  "rdy d i t s \<Longrightarrow> g_tasks u = g_tasks s \<Longrightarrow> g_current_idx u = g_current_idx s \<Longrightarrow> umem u = umem s \<Longrightarrow> rdy d i t u"
  using current_same [of u s] by (simp add: rdy_def)

lemma rdy_mem:
  assumes "rdy d i t s" "placed d" "(a, n) \<in> set (writable d)" "\<forall>x. x \<notin> area a n \<longrightarrow> m x = umem s x"
  shows "rdy d i t (s\<lparr>umem := m\<rparr>)"
  using assms current_same [of "s\<lparr>umem := m\<rparr>" s] by (intro rdy_keep [OF assms(1,2)]) (auto simp: rdy_def)

lemma write_in_area:
  assumes "rdy d i t s" "placed d" "(a, n) \<in> set (writable d)" "length bs \<le> n"
  shows "\<exists>u. abi_user_write_bytes a bs s = Some u \<and> rdy d i t u \<and> umem u = write_at a bs (umem s)"
proof (cases "bs = []")
  case True
  then show ?thesis using assms(1) by (simp add: abi_user_write_bytes_def)
next
  case False
  have b: "in_user a n" using assms(2,3) by (auto simp: placed_def)
  have "n \<le> 64" using assms(3) by (auto simp: writable_def)
  then have l: "unat (of_nat (length bs) :: u32) = length bs" using assms(4) by (simp add: unat_of_nat)
  have "abi_ptr_range_ok a (of_nat (length bs))"
    using in_user_range [of a "length bs"] l False assms(4) b by (simp add: in_user_def)
  moreover have "rdy d i t (s\<lparr>umem := write_at a bs (umem s)\<rparr>)"
  proof (rule rdy_mem [OF assms(1-3)])
    show "\<forall>x. x \<notin> area a n \<longrightarrow> write_at a bs (umem s) x = umem s x"
      using assms(4) b write_at_area [of a bs] by (auto simp: area_def in_user_def)
  qed
  ultimately show ?thesis using False by (simp add: abi_user_write_bytes_def)
qed

lemma writable_mem: "(d_buf d, 64) \<in> set (writable d)" "(d_pfd d, 8) \<in> set (writable d)" "(d_sel_read d, 4) \<in> set (writable d)"
  by (simp_all add: writable_def)

lemma test_read_console:
  assumes "rdy d i t s" "placed d" "sched_slot_ofile_by_fd t (sint fd) = Some j" "of_type (ofiles t j) = SCHED_FD_TYPE_STDIN"
    "of_status_flags (ofiles t j) AND 3 = 0" "of_status_flags (ofiles t j) AND 0x800 \<noteq> 0"
  shows "\<exists>ret err u. fdtest_syscall run irq 6 fd (d_buf d) 1 s = Some (ret, err, u) \<and> rdy d i t u
           \<and> (if ret = - 1 then err = ERRNO_EAGAIN else err = 0 \<and> ret \<le> 1)"
proof -
  note q = query_current_rdy [OF assms(1)]
  have b: "d_buf d \<noteq> 0" "abi_ptr_range_ok (d_buf d) 1"
    using assms(2) in_user_range [of "d_buf d" 1 1] by (auto simp: placed_def writable_def in_user_def)
  obtain r bs s1 where c: "console_read True 1 True s = (r, bs, s1)" by (cases "console_read True 1 True s") auto
  have f: "r = int (length bs)" "length bs \<le> 1" "g_tasks s1 = g_tasks s" "g_current_idx s1 = g_current_idx s" "umem s1 = umem s"
    using read_nonblock [OF c] by simp_all
  have r1: "rdy d i t s1" using rdy_same [OF assms(1)] f by simp
  have k: "syscall_case run irq \<lparr>nr = 6, arg0 = fd, arg1 = d_buf d, arg2 = 1, arg3 = 0, arg4 = 0, arg5 = 0\<rparr> s
      = Some (read_chunks (d_buf d) 1 0 True s)"
    using assms(3-6) b by (simp add: syscall_case_def sys_read_def Let_def fd_is_nonblock_def sched_fd_is_nonblock_def
        slot_fd_is_nonblock_def fd_type_def sched_fd_get_type_def slot_fd_get_type_def fd_supports_read_def
        sched_fd_can_read_def slot_fd_can_read_def q)
  obtain ret err u where rc: "read_chunks (d_buf d) 1 0 True s = (ret, err, u)" "rdy d i t u"
    "ret = - 1 \<and> err = ERRNO_EAGAIN \<or> ret = 1 \<and> err = 0"
  proof (cases bs)
    case Nil
    then have "read_chunks (d_buf d) 1 0 True s = (- 1, 11, s1)"
      using c f(1) by (simp add: read_chunks.simps [of _ "Suc 0"] fail_def)
    then show ?thesis using that r1 by blast
  next
    case (Cons x xs)
    then have l: "length bs = 1" using f(2) by simp
    obtain u where u: "abi_user_write_bytes (d_buf d) bs s1 = Some u" "rdy d i t u"
      using write_in_area [OF r1 assms(2) writable_mem(1), of bs] l by auto
    have "read_chunks (d_buf d) 1 0 True s = (1, 0, u)"
      using c f(1) l u(1) by (simp add: read_chunks.simps [of _ "Suc 0"] read_chunks.simps [of _ 0] ok_ret_def)
    then show ?thesis using that u(2) by blast
  qed
  from test_call [OF k [unfolded rc(1)] rc(2) assms(2)] obtain v where
    "fdtest_syscall run irq 6 fd (d_buf d) 1 s = Some (ret, if ret = - 1 then err else 0, v)" "rdy d i t v" by blast
  then show ?thesis
    using rc(3) by (intro exI [of _ ret] exI [of _ "if ret = - 1 then err else 0"] exI [of _ v]) auto
qed

lemma opened_query:
  assumes "rdy d i (opened n j kd fl t) s" "n < 32" "j < 32"
  shows "fd_type (int n) s = kd" "fd_is_valid (int n) s"
    "fl = 0 \<or> fl = 2 \<Longrightarrow> kd = 4 \<or> kd = 5 \<or> kd = 7 \<Longrightarrow> fd_supports_read (int n) s"
    "fl = 2 \<Longrightarrow> kd = 4 \<or> kd = 5 \<or> kd = 7 \<Longrightarrow> fd_supports_write (int n) s"
    "fl = 0 \<or> fl = 2 \<Longrightarrow> \<not> fd_is_nonblock (int n) s"
  using opened_lookup [OF assms(2,3), of kd fl t] assms(2)
  by (auto simp: query_current_rdy [OF assms(1)] opened_fields fd_type_def sched_fd_get_type_def slot_fd_get_type_def fd_supports_read_def sched_fd_can_read_def
      slot_fd_can_read_def fd_supports_write_def sched_fd_can_write_def slot_fd_can_write_def fd_is_nonblock_def
      sched_fd_is_nonblock_def slot_fd_is_nonblock_def fd_is_valid_def sched_fd_is_open_def slot_fd_is_open_def Let_def)

lemma test_read_null:
  assumes "rdy d i (opened n j SCHED_FD_TYPE_DEV_NULL 2 t) s" "placed d" "n < 32" "j < 32"
  shows "\<exists>u. fdtest_syscall run irq 6 (of_nat n) (d_buf d) 8 s = Some (0, 0, u) \<and> rdy d i (opened n j SCHED_FD_TYPE_DEV_NULL 2 t) u"
proof -
  have b: "d_buf d \<noteq> 0" "abi_ptr_range_ok (d_buf d) 8"
    using assms(2) in_user_range [of "d_buf d" 8 8] by (auto simp: placed_def writable_def in_user_def)
  have "syscall_case run irq \<lparr>nr = 6, arg0 = of_nat n, arg1 = d_buf d, arg2 = 8, arg3 = 0, arg4 = 0, arg5 = 0\<rparr> s = Some (0, 0, s)"
    using b opened_query [OF assms(1,3,4)] by (simp add: syscall_case_def sys_read_def Let_def small_fd(1) [OF assms(3)] ok_ret_def)
  from test_call [OF this assms(1,2)] show ?thesis by auto
qed

lemma test_write_null:
  assumes "rdy d i (opened n j SCHED_FD_TYPE_DEV_NULL 2 t) s" "placed d" "n < 32" "j < 32"
  shows "\<exists>u. fdtest_syscall run irq 7 (of_nat n) (d_x d) 1 s = Some (1, 0, u) \<and> rdy d i (opened n j SCHED_FD_TYPE_DEV_NULL 2 t) u"
proof -
  have b: "d_x d \<noteq> 0" "abi_ptr_range_ok (d_x d) 1"
    using assms(2) in_user_range [of "d_x d" 1 1] by (auto simp: placed_def in_user_def)
  have "syscall_case run irq \<lparr>nr = 7, arg0 = of_nat n, arg1 = d_x d, arg2 = 1, arg3 = 0, arg4 = 0, arg5 = 0\<rparr> s = Some (1, 0, s)"
    using b opened_query [OF assms(1,3,4)] by (simp add: syscall_case_def sys_write_def Let_def small_fd(1) [OF assms(3)] ok_ret_def)
  from test_call [OF this assms(1,2)] show ?thesis by auto
qed

lemma write_at_nth:
  "unat a + length bs \<le> 67108864 \<Longrightarrow> k < length bs \<Longrightarrow> write_at a bs m (a + of_nat k) = bs ! k"
proof (induction bs arbitrary: a k m)
  case (Cons b bs)
  have a: "unat (a + 1) = unat a + 1" using unat_add_small [of a 1] Cons.prems(1) by simp
  show ?case
  proof (cases k)
    case 0
    have "a \<notin> area (a + 1) (length bs)" by (simp add: area_def a)
    then show ?thesis using write_at_area [of "a + 1" bs a] a Cons.prems(1) 0 by simp
  next
    case (Suc k')
    have "write_at (a + 1) bs (m(a := b)) (a + 1 + of_nat k') = bs ! k'"
      using Cons.IH [of "a + 1" k'] Cons.prems a Suc by simp
    then show ?thesis by (simp add: Suc algebra_simps)
  qed
qed simp

lemma test_read_zero:
  assumes "rdy d i (opened n j SCHED_FD_TYPE_DEV_ZERO 0 t) s" "placed d" "n < 32" "j < 32"
  shows "\<exists>u. fdtest_syscall run irq 6 (of_nat n) (d_buf d) 8 s = Some (8, 0, u) \<and> rdy d i (opened n j SCHED_FD_TYPE_DEV_ZERO 0 t) u
           \<and> (\<forall>k<8. umem u (d_buf d + of_nat k) = 0)"
proof -
  have p: "in_user (d_buf d) 64" "area (d_buf d) 64 \<inter> area SYSCALL_ABI_ADDR 48 = {}"
    using assms(2) by (simp_all add: placed_def writable_def)
  have b: "d_buf d \<noteq> 0" "abi_ptr_range_ok (d_buf d) 8"
    using in_user_range [of "d_buf d" 8 8] p(1) by (auto simp: in_user_def)
  obtain u where u: "abi_user_write_bytes (d_buf d) (replicate 8 0) s = Some u" "rdy d i (opened n j 5 0 t) u"
    "umem u = write_at (d_buf d) (replicate 8 0) (umem s)"
    using write_in_area [OF assms(1,2) writable_mem(1), of "replicate 8 0"] by auto
  have "syscall_case run irq \<lparr>nr = 6, arg0 = of_nat n, arg1 = d_buf d, arg2 = 8, arg3 = 0, arg4 = 0, arg5 = 0\<rparr> s = Some (8, 0, u)"
    using b opened_query [OF assms(1,3,4)] u(1)
    by (simp add: syscall_case_def sys_read_def Let_def small_fd(1) [OF assms(3)] zero_chunks.simps [of _ 8] zero_chunks.simps [of _ 0] ok_ret_def)
  from test_call [OF this u(2) assms(2)] obtain v where v:
    "fdtest_syscall run irq 6 (of_nat n) (d_buf d) 8 s = Some (8, 0, v)" "rdy d i (opened n j 5 0 t) v"
    "\<forall>x. x \<notin> area SYSCALL_ABI_ADDR 48 \<longrightarrow> umem v x = umem u x" by auto
  have "umem v (d_buf d + of_nat k) = 0" if "k < 8" for k
  proof -
    have "d_buf d + of_nat k \<notin> area SYSCALL_ABI_ADDR 48"
      using area_add [of "d_buf d" 64 k] p that by (auto simp: in_user_def)
    then show ?thesis using v(3) u(3) write_at_nth [of "d_buf d" "replicate 8 0" k "umem s"] p(1) that by (simp add: in_user_def)
  qed
  then show ?thesis using v by blast
qed

section \<open>Polling\<close>

lemma put_pfd_bytes:
  "List.map (\<lambda>k. umem (put_pfd a fd ev rv s) (a + of_nat k)) [0..<8]
   = [byte_of 0 fd, byte_of 1 fd, byte_of 2 fd, byte_of 3 fd,
      ucast ev, ucast (drop_bit 8 ev), ucast rv, ucast (drop_bit 8 rv)]"
  by (simp add: put_pfd_def store32_def upt_rec)

lemma u16_bytes: "ucast (ucast x :: u8) OR push_bit 8 (ucast (ucast (drop_bit 8 x) :: u8)) = (x :: u16)"
proof (rule bit_word_eqI)
  fix n assume "n < LENGTH(16)"
  then consider "n < 8" | "8 \<le> n" "n < 16" by force
  then show "bit (ucast (ucast x :: u8) OR push_bit 8 (ucast (ucast (drop_bit 8 x) :: u8)) :: u16) n = bit x n"
    by cases (auto simp: bit_simps)
qed

lemma put_pfd_rdy:
  assumes "rdy d i t s" "placed d"
  shows "rdy d i t (put_pfd (d_pfd d) fd ev rv s)"
proof -
  have "in_user (d_pfd d) 8" using assms(2) by (simp add: placed_def writable_def)
  then have a: "unat (d_pfd d) + 8 \<le> 67108864" by (simp add: in_user_def)
  have k: "d_pfd d + 4 \<in> area (d_pfd d) 8" "d_pfd d + 5 \<in> area (d_pfd d) 8" "d_pfd d + 6 \<in> area (d_pfd d) 8" "d_pfd d + 7 \<in> area (d_pfd d) 8"
    using area_add [OF a, of 4] area_add [OF a, of 5] area_add [OF a, of 6] area_add [OF a, of 7] by simp_all
  have "x \<notin> area (d_pfd d) 4 \<and> x \<noteq> d_pfd d + 4 \<and> x \<noteq> d_pfd d + 5 \<and> x \<noteq> d_pfd d + 6 \<and> x \<noteq> d_pfd d + 7"
    if x: "x \<notin> area (d_pfd d) 8" for x
  proof -
    have "x \<notin> area (d_pfd d) 4" using x by (auto simp: area_def)
    then show ?thesis using x k by auto
  qed
  then show ?thesis
    unfolding put_pfd_def using store32_area [of "d_pfd d"] a by (intro rdy_mem [OF assms writable_mem(2)]) auto
qed

lemma test_poll:
  assumes "rdy d i t s0" "placed d" and s_def: "s = put_pfd (d_pfd d) fd SYS_POLLIN rv s0"
  shows "\<exists>u. fdtest_syscall run irq 8 (d_pfd d) 1 0 s = Some (if fst (poll_revents (sint fd) 1 s) \<noteq> 0 then 1 else 0, 0, u)
           \<and> rdy d i t u \<and> pfd_revents (d_pfd d) u = fst (poll_revents (sint fd) 1 s)"
proof -
  let ?a = "d_pfd d"
  have p: "in_user ?a 8" "area ?a 8 \<inter> area SYSCALL_ABI_ADDR 48 = {}" using assms(2) by (simp_all add: placed_def writable_def)
  have rng: "?a \<noteq> 0" "abi_ptr_range_ok ?a 8" using p(1) in_user_range [of ?a 8 8] by (simp_all add: in_user_def)
  have r0: "rdy d i t s" unfolding s_def by (rule put_pfd_rdy [OF assms(1,2)])
  obtain rev w where rev: "poll_revents (sint fd) 1 s = (rev, w)" by (cases "poll_revents (sint fd) 1 s")
  define bs where "bs = List.map (\<lambda>k. umem s (?a + of_nat k)) [0..<8]"
  have bs: "bs = [byte_of 0 fd, byte_of 1 fd, byte_of 2 fd, byte_of 3 fd,
      ucast (SYS_POLLIN), ucast (drop_bit 8 SYS_POLLIN), ucast rv, ucast (drop_bit 8 rv)]"
    unfolding bs_def s_def by (rule put_pfd_bytes)
  have rd: "abi_user_read_bytes ?a 8 s = Some bs" using rng by (simp add: abi_user_read_bytes_def bs_def)
  have fd: "le32 (bs ! 0) (bs ! 1) (bs ! 2) (bs ! 3) = fd" by (simp add: bs)
  have ev: "ucast (bs ! 4) OR push_bit 8 (ucast (bs ! 5)) = (1 :: u16)" by (simp add: bs)
  let ?out = "take 6 bs @ [ucast rev, ucast (drop_bit 8 rev)]"
  obtain u where u: "abi_user_write_bytes ?a ?out s = Some u" "rdy d i t u" "umem u = write_at ?a ?out (umem s)"
    using write_in_area [OF r0 assms(2) writable_mem(2), of ?out] by (auto simp: bs)
  have "poll_scan ?a [0] 0 False s = Inr (if rev \<noteq> 0 then 1 else 0, w, u)"
    using rd u(1) rev by (simp add: Let_def fd [unfolded One_nat_def] ev)
  then have "syscall_case run irq \<lparr>nr = 8, arg0 = ?a, arg1 = 1, arg2 = 0, arg3 = 0, arg4 = 0, arg5 = 0\<rparr> s
      = Some (if rev \<noteq> 0 then 1 else 0, 0, u)"
    using rng by (simp add: syscall_case_def sys_poll_def Let_def poll_loop.simps ok_ret_def)
  from test_call [OF this u(2) assms(2)] obtain v where v:
    "fdtest_syscall run irq 8 ?a 1 0 s = Some (if rev \<noteq> 0 then 1 else 0, 0, v)" "rdy d i t v"
    "\<forall>x. x \<notin> area SYSCALL_ABI_ADDR 48 \<longrightarrow> umem v x = umem u x" by (auto split: if_splits)
  have "umem v (?a + of_nat k) = ?out ! k" if "k < 8" for k
  proof -
    have "?a + of_nat k \<notin> area SYSCALL_ABI_ADDR 48" using area_add [of ?a 8 k] p that by (auto simp: in_user_def)
    then show ?thesis using v(3) u(3) write_at_nth [of ?a ?out k "umem s"] p(1) that by (simp add: in_user_def bs)
  qed
  from this [of 6] this [of 7] have "pfd_revents ?a v = rev" by (simp add: pfd_revents_def bs u16_bytes)
  then show ?thesis using v(1,2) rev by auto
qed

section \<open>Selecting\<close>

lemma bit_pair: "n < 32 \<Longrightarrow> (push_bit n 1 :: u32) AND push_bit i 1 = (if i = n then push_bit n 1 else 0)"
  by (rule bit_word_eqI) (auto simp: bit_simps)

lemma bit_nonzero: "n < 32 \<Longrightarrow> (push_bit n 1 :: u32) \<noteq> 0"
proof
  assume n: "n < 32" and z: "(push_bit n 1 :: u32) = 0"
  have "bit (push_bit n 1 :: u32) n" using n by (simp add: bit_simps)
  then show False by (simp only: z) simp
qed

lemma count_one: "n < 32 \<Longrightarrow> count_bits_u32 (push_bit n 1) = 1"
proof (induction n)
  case 0
  then show ?case by (simp add: count_bits_u32.simps [of 1] count_bits_u32.simps [of 0])
next
  case (Suc n)
  have a: "(push_bit (Suc n) 1 :: u32) AND 1 = 0" using bit_pair [OF Suc.prems, of 0] by simp
  have b: "drop_bit 1 (push_bit (Suc n) 1 :: u32) = push_bit n 1"
    using Suc.prems by (intro bit_word_eqI) (auto simp: bit_simps)
  have c: "count_bits_u32 (push_bit n 1) = 1" using Suc by simp
  show ?case by (simp only: count_bits_u32.simps [of "push_bit (Suc n) 1"] bit_nonzero [OF Suc.prems] if_False a b c) simp
qed

lemma select_one:
  assumes "n < 32" "fd_is_valid (int n) s"
  shows "\<forall>i\<in>set is. i \<noteq> n \<Longrightarrow> \<exists>w. select_scan (is @ [n]) (push_bit n 1) 0 0 0 0 wt s
           = Some (if fd_read_ready (int n) s then push_bit n 1 else 0, 0, w)"
proof (induction "is")
  case Nil
  show ?case using assms bit_nonzero [OF assms(1)] by (simp add: Let_def bit_pair)
next
  case (Cons i "is")
  then show ?case using bit_pair [OF assms(1)] by (simp add: Let_def)
qed

lemma test_select:
  assumes "rdy d i t s0" "placed d" "s = s0\<lparr>umem := store32 (umem s0) (d_sel_read d) (push_bit n 1)\<rparr>"
    "n < 32" "fd_is_valid (int n) s"
  shows "\<exists>u. fdtest_syscall run irq 9 (of_nat n + 1) (d_sel_read d) 0 s = Some (if fd_read_ready (int n) s then 1 else 0, 0, u)
           \<and> rdy d i t u \<and> load32 (umem u) (d_sel_read d) = (if fd_read_ready (int n) s then push_bit n 1 else 0)"
proof -
  let ?a = "d_sel_read d" and ?out = "if fd_read_ready (int n) s then push_bit n 1 else 0 :: u32"
  have p: "in_user ?a 4" "area ?a 4 \<inter> area SYSCALL_ABI_ADDR 48 = {}" using assms(2) by (simp_all add: placed_def writable_def)
  have a: "unat ?a + 4 \<le> 67108864" using p(1) by (simp add: in_user_def)
  have rng: "?a \<noteq> 0" "abi_ptr_range_ok ?a 4" using p(1) in_user_range [of ?a 4 4] by (simp_all add: in_user_def)
  have m: "rdy d i t (v\<lparr>umem := store32 (umem v) ?a x\<rparr>)" if "rdy d i t v" for v :: "'a kernel_scheme" and x
    using store32_area [OF a] by (intro rdy_mem [OF that assms(2) writable_mem(3)]) auto
  have r0: "rdy d i t s" using m [OF assms(1)] by (simp add: assms(3))
  have u: "unat (of_nat n + 1 :: u32) = n + 1" "\<not> 32 < (of_nat n + 1 :: u32)"
    using assms(4) small_fd(2) [OF assms(4)] by (simp_all add: unat_word_ariths word_less_nat_alt)
  obtain w where sc: "select_scan [0..<n + 1] (push_bit n 1) 0 0 0 0 False s = Some (?out, 0, w)"
    using select_one [OF assms(4,5), of "[0..<n]" False] by auto
  have c0: "count_bits_u32 0 = 0" by (simp add: count_bits_u32.simps)
  let ?s1 = "s\<lparr>umem := store32 (umem s) ?a ?out\<rparr>"
  have "syscall_case run irq \<lparr>nr = 9, arg0 = of_nat n + 1, arg1 = ?a, arg2 = 0, arg3 = 0, arg4 = 0, arg5 = 0\<rparr> s
      = Some (if fd_read_ready (int n) s then 1 else 0, 0, ?s1)"
    using rng u sc assms(3) count_one [OF assms(4)]
    by (simp add: syscall_case_def sys_select_def Let_def get_set_def select_loop.simps put_sets_def put_set_def
        abi_user_write32_def c0 ok_ret_def)
  from test_call [OF this m [OF r0] assms(2)] obtain v where v:
    "fdtest_syscall run irq 9 (of_nat n + 1) ?a 0 s = Some (if fd_read_ready (int n) s then 1 else 0, 0, v)" "rdy d i t v"
    "\<forall>x. x \<notin> area SYSCALL_ABI_ADDR 48 \<longrightarrow> umem v x = umem ?s1 x" by (auto split: if_splits)
  have "umem v (?a + of_nat k) = umem ?s1 (?a + of_nat k)" if "k < 4" for k
    using v(3) area_add [OF a that] p(2) by auto
  from this [of 0] this [of 1] this [of 2] this [of 3] have "load32 (umem v) ?a = load32 (umem ?s1) ?a"
    by (simp add: load32_def)
  then show ?thesis using v(1,2) by auto
qed

section \<open>Sockets\<close>

lemma test_socket:
  assumes "rdy d i t s" "placed d" "fd_ok t" "k < 32" "\<not> fe_used (fdtab t k)"
  shows "\<exists>n j u. fdtest_syscall run irq 21 2 1 0 s = Some (of_nat n, 0, u) \<and> rdy d i (opened n j SCHED_FD_TYPE_SOCKET 2 t) u
           \<and> n < 32 \<and> j < 32 \<and> sched_slot_close_fd (opened n j SCHED_FD_TYPE_SOCKET 2 t) (int n) = (0, t)"
proof -
  have sp: "special_type_of 4 = Some 7" and fl: "2 AND 0x803 = (2 :: u32)" by (simp_all add: special_type_of_def)
  obtain n j where o: "slot_fd_open_special 4 2 t = (int n, opened n j 7 2 t)" "n < 32" "j < 32"
    "\<not> fe_used (fdtab t n)" "\<not> of_used (ofiles t j)"
    by (rule open_special [OF assms(3-5) sp fl])
  have "syscall_case run irq \<lparr>nr = 21, arg0 = 2, arg1 = 1, arg2 = 0, arg3 = 0, arg4 = 0, arg5 = 0\<rparr> s
      = Some (of_nat n, 0, upd_task i (\<lambda>_. opened n j 7 2 t) s)"
    using open_result [OF assms(1) o(1,2)] by (simp add: syscall_case_def sys_socket_def Let_def)
  from test_call [OF this open_result(2) [OF assms(1) o(1,2)] assms(2)] obtain u where
    "fdtest_syscall run irq 21 2 1 0 s = Some (of_nat n, 0, u)" "rdy d i (opened n j 7 2 t) u"
    using small_fd_not_minus [OF o(2)] by auto
  then show ?thesis using o close_opened [OF assms(3) o(2-5)] by blast
qed

lemma test_socket_op:
  assumes "rdy d i (opened n j SCHED_FD_TYPE_SOCKET 2 t) s" "placed d" "n < 32" "j < 32" "op = 23 \<or> op = 26 \<or> op = 27"
  shows "\<exists>u. fdtest_syscall run irq op (of_nat n) a1 a2 s
           = Some (- 1, if op = 23 then ERRNO_EOPNOTSUPP else ERRNO_ENOTCONN, u) \<and> rdy d i (opened n j SCHED_FD_TYPE_SOCKET 2 t) u"
proof -
  have "syscall_case run irq \<lparr>nr = op, arg0 = of_nat n, arg1 = a1, arg2 = a2, arg3 = 0, arg4 = 0, arg5 = 0\<rparr> s
      = Some (- 1, if op = 23 then 95 else 107, s)"
    using assms(5) opened_query(1,2) [OF assms(1,3,4)]
    by (auto simp: syscall_case_def sys_socket_op_def Let_def small_fd(1) [OF assms(3)] fail_def)
  from test_call [OF this assms(1,2)] show ?thesis by auto
qed

lemma test_fail:
  assumes "syscall_case run irq \<lparr>nr = n, arg0 = a0, arg1 = a1, arg2 = a2, arg3 = 0, arg4 = 0, arg5 = 0\<rparr> s = Some (- 1, err, s)"
    "rdy d i t s" "placed d"
  shows "\<exists>u. fdtest_syscall run irq n a0 a1 a2 s = Some (- 1, err, u) \<and> rdy d i t u"
  using test_call [OF assms] by auto

section \<open>The slot during the test\<close>

text \<open>A task with its standard input at descriptor 0 and \<open>n\<close> as its lowest free descriptor.\<close>

definition stdin_slot :: "sched_task_slot \<Rightarrow> nat \<Rightarrow> nat \<Rightarrow> bool" where
  "stdin_slot t j n \<longleftrightarrow> fd_ok t \<and> sched_slot_ofile_by_fd t 0 = Some j \<and> of_type (ofiles t j) = SCHED_FD_TYPE_STDIN
     \<and> of_status_flags (ofiles t j) AND 3 = 0 \<and> 3 \<le> n \<and> n < 32 \<and> \<not> fe_used (fdtab t n) \<and> (\<forall>k<n. fe_used (fdtab t k))"

text \<open>The slot while the test works with the second descriptor, with the flags of the descriptor and of the open file.\<close>

definition dup_slot :: "sched_task_slot \<Rightarrow> nat \<Rightarrow> nat \<Rightarrow> u32 \<Rightarrow> u32 \<Rightarrow> sched_task_slot" where
  "dup_slot t j n g f =
     t\<lparr>fdtab := (fdtab t)(n := \<lparr>fe_used = True, fe_ofile_idx = of_nat j, fe_fd_flags = g\<rparr>),
       ofiles := (ofiles t)(j := (ofiles t j)\<lparr>of_refs := of_refs (ofiles t j) + 1, of_status_flags := f\<rparr>)\<rparr>"

definition flag_slot :: "sched_task_slot \<Rightarrow> nat \<Rightarrow> u32 \<Rightarrow> sched_task_slot" where
  "flag_slot t j f = t\<lparr>ofiles := (ofiles t)(j := (ofiles t j)\<lparr>of_status_flags := f\<rparr>)\<rparr>"

abbreviation (input) nb :: "u32 \<Rightarrow> u32" where "nb f \<equiv> (f AND NOT 0x800) OR 0x800"

lemma stdin_slotD:
  assumes "stdin_slot t j n"
  shows "j < 32" "of_used (ofiles t j)" "of_refs (ofiles t j) \<noteq> 0" "of_refs (ofiles t j) + 1 \<noteq> 0"
    "fe_used (fdtab t 0)" "unat (fe_ofile_idx (fdtab t 0)) = j" "unat (of_nat j :: u32) = j" "fdtab t n = fdent_free"
proof -
  have l: "sched_slot_ofile_by_fd t 0 = Some j" and ok: "fd_ok t" using assms by (simp_all add: stdin_slot_def)
  show j: "j < 32" and u: "of_used (ofiles t j)" "of_refs (ofiles t j) \<noteq> 0"
    "fe_used (fdtab t 0)" "unat (fe_ofile_idx (fdtab t 0)) = j"
    using l by (auto simp: sched_slot_ofile_by_fd_def Let_def split: if_splits)
  show "unat (of_nat j :: u32) = j" using j by (simp add: unat_of_nat)
  show "fdtab t n = fdent_free" using fd_okD(2) [OF ok] assms by (simp add: stdin_slot_def)
  show "of_refs (ofiles t j) + 1 \<noteq> 0"
  proof
    assume "of_refs (ofiles t j) + 1 = 0"
    then have "of_refs (ofiles t j) = - 1" by (simp add: eq_neg_iff_add_eq_0)
    then show False using fd_okD(3) [OF ok j] card_refs_to [of t j]
      by (simp add: unsigned_minus_1_eq_mask mask_eq_exp_minus_1)
  qed
qed

lemma dup_slot_lookup:
  assumes "stdin_slot t j n"
  shows "sched_slot_ofile_by_fd (dup_slot t j n g f) (int n) = Some j" "sched_slot_ofile_by_fd (dup_slot t j n g f) 0 = Some j"
    "fe_fd_flags (fdtab (dup_slot t j n g f) n) = g" "of_status_flags (ofiles (dup_slot t j n g f) j) = f"
    "of_type (ofiles (dup_slot t j n g f) j) = SCHED_FD_TYPE_STDIN" "fe_used (fdtab (dup_slot t j n g f) n)"
  using stdin_slotD [OF assms] assms
  by (auto simp: dup_slot_def sched_slot_ofile_by_fd_def Let_def stdin_slot_def)

lemma dup_slot_changes:
  assumes "stdin_slot t j n"
  shows "slot_fd_dup 0 t = (int n, dup_slot t j n 0 (of_status_flags (ofiles t j)))"
    "slot_fcntl_setfd (int n) 1 (dup_slot t j n g f) = (0, dup_slot t j n 1 f)"
    "slot_fcntl_setfl (int n) 0x800 (dup_slot t j n g f) = (0, dup_slot t j n g (nb f))"
    "sched_slot_close_fd (dup_slot t j n g f) (int n) = (0, flag_slot t j f)"
    "sched_slot_close_fd (flag_slot t j f) (int n) = (- 1, flag_slot t j f)"
proof -
  note l = dup_slot_lookup [OF assms] and s = stdin_slotD [OF assms]
  have ff: "sched_slot_find_free_fd t 0 = int n"
  proof -
    let ?m = "sched_slot_find_free_fd t 0"
    have n: "\<not> fe_used (fdtab t n)" "\<forall>k<n. fe_used (fdtab t k)" "n < 32" using assms by (simp_all add: stdin_slot_def)
    have "\<not> ?m < 0" unfolding find_free_fd(1) using n(1,3) by blast
    then have m: "0 \<le> ?m" by simp
    then have "\<not> nat ?m < n" "\<not> n < nat ?m" using find_free_fd(2) [OF m] n(1,2) by blast+
    then show ?thesis using m by linarith
  qed
  have "\<lparr>of_used = a, of_refs = b, of_type = c, of_status_flags = e\<rparr>\<lparr>of_refs := b + 1\<rparr>
      = \<lparr>of_used = a, of_refs = b + 1, of_type = c, of_status_flags = e\<rparr>" for a b c e by simp
  then show "slot_fd_dup 0 t = (int n, dup_slot t j n 0 (of_status_flags (ofiles t j)))"
    using assms ff by (cases "ofiles t j") (simp add: slot_fd_dup_def stdin_slot_def share_ofile_def dup_slot_def)
  show "slot_fcntl_setfd (int n) 1 (dup_slot t j n g f) = (0, dup_slot t j n 1 f)"
    using l(1) [of g f] by (simp add: slot_fcntl_setfd_def dup_slot_def)
  show "slot_fcntl_setfl (int n) 0x800 (dup_slot t j n g f) = (0, dup_slot t j n g (nb f))"
    using l(1) [of g f] by (simp add: slot_fcntl_setfl_def dup_slot_def)
  have "drop_ref (ofiles (dup_slot t j n g f) j) = (ofiles t j)\<lparr>of_status_flags := f\<rparr>"
    using s(3,4) by (simp add: dup_slot_def drop_ref_def Let_def)
  moreover have "(fdtab t)(n := fdent_free) = fdtab t" using s(8) by (simp add: fun_upd_idem)
  ultimately show "sched_slot_close_fd (dup_slot t j n g f) (int n) = (0, flag_slot t j f)"
    using l(1) [of g f] by (simp add: sched_slot_close_fd_def) (simp add: dup_slot_def flag_slot_def)
  show "sched_slot_close_fd (flag_slot t j f) (int n) = (- 1, flag_slot t j f)"
    using assms by (simp add: sched_slot_close_fd_def sched_slot_ofile_by_fd_def flag_slot_def stdin_slot_def)
qed

lemma restore_flags: "(nb f AND NOT 0x800) OR (f AND 0x800) = f" for f :: u32
  by (rule bit_word_eqI) (auto simp: bit_simps)

lemma nb_flags: "nb f AND 0x800 \<noteq> 0" "nb f AND 3 = f AND 3" for f :: u32
proof -
  have "bit (nb f AND 0x800) 11" by (simp add: bit_simps)
  then show "nb f AND 0x800 \<noteq> 0" by (metis bit_0_eq bot_apply bot_bool_def)
  have "0x800 AND (3 :: u32) = 0" "NOT 0x800 AND (3 :: u32) = 3" by simp_all
  then show "nb f AND 3 = f AND 3" by (simp add: bit.conj_disj_distrib2 and.assoc)
qed

lemma flag_slot_restore:
  assumes "stdin_slot t j n"
  shows "slot_fcntl_setfl 0 (of_status_flags (ofiles t j)) (flag_slot t j (nb (of_status_flags (ofiles t j)))) = (0, t)"
proof -
  let ?f = "of_status_flags (ofiles t j)"
  have "sched_slot_ofile_by_fd (flag_slot t j (nb ?f)) 0 = Some j"
    using stdin_slotD [OF assms] by (simp add: sched_slot_ofile_by_fd_def flag_slot_def Let_def)
  then show ?thesis
    using restore_flags [of ?f] by (cases "ofiles t j") (simp add: slot_fcntl_setfl_def flag_slot_def fun_upd_idem)
qed

section \<open>The groups of calls\<close>

lemma dup_passes:
  assumes "rdy d i t s" "placed d" "stdin_slot t j n"
  shows "\<exists>u. fdtest_dup run irq s = Some (Inr (of_nat n, of_status_flags (ofiles t j), 0, u))
           \<and> rdy d i (dup_slot t j n 0 (of_status_flags (ofiles t j))) u"
proof -
  have n: "n < 32" "3 \<le> n" and l: "sched_slot_ofile_by_fd t (sint 0) = Some j" using assms(3) by (simp_all add: stdin_slot_def)
  obtain u1 where u1: "fdtest_syscall run irq 19 0 3 0 s = Some (of_status_flags (ofiles t j), 0, u1)" "rdy d i t u1"
    using test_getfl [OF assms(1,2) l] by blast
  obtain u2 where u2: "fdtest_syscall run irq 17 0 0 0 u1 = Some (of_nat n, 0, u2)"
    "rdy d i (dup_slot t j n 0 (of_status_flags (ofiles t j))) u2"
    using test_dup [OF u1(2) assms(2), of 0 "int n" _ run irq] dup_slot_changes(1) [OF assms(3)] n(1) by auto
  have "3 \<le> (of_nat n :: u32)" using n small_fd(2) [OF n(1)] by (simp add: word_le_nat_alt)
  then show ?thesis using u1(1) u2 n by (simp add: fdtest_dup_def small_fd(1) expect_def)
qed

lemma fcntl_passes:
  assumes "rdy d i (dup_slot t j n 0 f) s" "placed d" "stdin_slot t j n"
  shows "\<exists>u. fdtest_fcntl run irq (of_nat n) (0, s) = Some (0, u) \<and> rdy d i (dup_slot t j n 1 (nb f)) u"
proof -
  have n: "n < 32" using assms(3) by (simp add: stdin_slot_def)
  note sn = small_fd(1) [OF n] and l = dup_slot_lookup [OF assms(3)]
    and l1 = dup_slot_lookup(1) [OF assms(3), folded small_fd(1) [OF n]]
    and c2 = dup_slot_changes(2) [OF assms(3), folded small_fd(1) [OF n]]
    and c3 = dup_slot_changes(3) [OF assms(3), folded small_fd(1) [OF n]]
  obtain u1 where u1: "fdtest_syscall run irq 19 (of_nat n) 1 0 s = Some (0, 0, u1)" "rdy d i (dup_slot t j n 0 f) u1"
    using test_getfd [OF assms(1,2) l1, of run irq] l(3) by (auto simp: sn)
  obtain u2 where u2: "fdtest_syscall run irq 19 (of_nat n) 2 1 u1 = Some (0, 0, u2)" "rdy d i (dup_slot t j n 1 f) u2"
    using test_setfd [OF u1(2) assms(2) c2, of run irq] by auto
  obtain u3 where u3: "fdtest_syscall run irq 19 (of_nat n) 1 0 u2 = Some (1, 0, u3)" "rdy d i (dup_slot t j n 1 f) u3"
    using test_getfd [OF u2(2) assms(2) l1, of run irq] l(3) by (auto simp: sn)
  obtain u4 where u4: "fdtest_syscall run irq 19 (of_nat n) 4 0x800 u3 = Some (0, 0, u4)" "rdy d i (dup_slot t j n 1 (nb f)) u4"
    using test_setfl [OF u3(2) assms(2) c3, of run irq] by auto
  obtain u5 where u5: "fdtest_syscall run irq 19 0 3 0 u4 = Some (nb f, 0, u5)" "rdy d i (dup_slot t j n 1 (nb f)) u5"
    using test_getfl [OF u4(2) assms(2), of 0 j run irq] l(2,4) by auto
  show ?thesis
    using u1(1) u2(1) u3(1) u4(1) u5 nb_flags(1) [of f] by (simp add: fdtest_fcntl_def expect_def)
qed

lemma read_passes:
  assumes "rdy d i (dup_slot t j n 1 (nb f)) s" "placed d" "stdin_slot t j n" "f AND 3 = 0"
  shows "\<exists>u. fdtest_read run irq d (of_nat n) (0, s) = Some (0, u) \<and> rdy d i (dup_slot t j n 1 (nb f)) u"
proof -
  have n: "n < 32" using assms(3) by (simp add: stdin_slot_def)
  note l = dup_slot_lookup [OF assms(3), of 1 "nb f"]
  obtain ret err u where u: "fdtest_syscall run irq 6 (of_nat n) (d_buf d) 1 s = Some (ret, err, u)"
    "rdy d i (dup_slot t j n 1 (nb f)) u" "if ret = - 1 then err = ERRNO_EAGAIN else err = 0 \<and> ret \<le> 1"
    using test_read_console [OF assms(1,2) l(1) [folded small_fd(1) [OF n]] l(5), of run irq]
    unfolding l(4) nb_flags(2) using nb_flags(1) assms(4) by blast
  then show ?thesis by (auto simp: fdtest_read_def expect_def split: if_splits)
qed

lemma poll_passes:
  assumes "rdy d i (dup_slot t j n 1 f) s" "placed d" "stdin_slot t j n"
  shows "\<exists>u. fdtest_poll run irq d (of_nat n) (0, s) = Some (0, u) \<and> rdy d i (dup_slot t j n 1 f) u"
    "\<exists>u. fdtest_poll_negative run irq d (0, s) = Some (0, u) \<and> rdy d i (dup_slot t j n 1 f) u"
proof -
  have n: "n < 32" using assms(3) by (simp add: stdin_slot_def)
  let ?s = "put_pfd (d_pfd d) (of_nat n) 1 0 s"
  have r: "rdy d i (dup_slot t j n 1 f) ?s" by (rule put_pfd_rdy [OF assms(1,2)])
  have v: "fd_is_valid (int n) ?s"
    using n dup_slot_lookup(6) [OF assms(3)]
    by (simp add: fd_is_valid_def sched_fd_is_open_def query_current_rdy [OF r] slot_fd_is_open_def)
  let ?rev = "if fd_read_ready (int n) ?s then 1 else 0 :: u16"
  have rev: "fst (poll_revents (sint (of_nat n :: u32)) 1 ?s) = ?rev" using v by (simp add: poll_revents_def small_fd(1) [OF n])
  obtain u where u: "fdtest_syscall run irq 8 (d_pfd d) 1 0 ?s = Some (if ?rev \<noteq> 0 then 1 else 0, 0, u)"
    "rdy d i (dup_slot t j n 1 f) u" "pfd_revents (d_pfd d) u = ?rev"
    using test_poll [OF assms(1,2) refl, of run irq "of_nat n" 0] unfolding rev by blast
  then show "\<exists>u. fdtest_poll run irq d (of_nat n) (0, s) = Some (0, u) \<and> rdy d i (dup_slot t j n 1 f) u"
    by (auto simp: fdtest_poll_def expect_def)
  have z: "fst (poll_revents (sint (- 1 :: u32)) 1 (put_pfd (d_pfd d) (- 1) 1 0x7FFF s)) = 0" by (simp add: poll_revents_def)
  obtain u where "fdtest_syscall run irq 8 (d_pfd d) 1 0 (put_pfd (d_pfd d) (- 1) 1 0x7FFF s) = Some (0, 0, u)"
    "rdy d i (dup_slot t j n 1 f) u" "pfd_revents (d_pfd d) u = 0"
    using test_poll [OF assms(1,2) refl, of run irq "- 1" "0x7FFF"] unfolding z by auto
  then show "\<exists>u. fdtest_poll_negative run irq d (0, s) = Some (0, u) \<and> rdy d i (dup_slot t j n 1 f) u"
    by (auto simp: fdtest_poll_negative_def expect_def)
qed

lemma select_passes:
  assumes "rdy d i (dup_slot t j n 1 f) s" "placed d" "stdin_slot t j n"
  shows "\<exists>u. fdtest_select run irq d (of_nat n) (0, s) = Some (0, u) \<and> rdy d i (dup_slot t j n 1 f) u"
proof -
  have n: "n < 32" "unat (of_nat n :: u32) = n" "(of_nat n :: u32) < 32"
    using assms(3) small_fd(2) [of n] by (simp_all add: stdin_slot_def word_less_nat_alt)
  let ?s = "s\<lparr>umem := store32 (umem s) (d_sel_read d) (push_bit n 1)\<rparr>"
  have "sched_current_slot ?s = Some i" "g_tasks ?s i = dup_slot t j n 1 f"
    using assms(1) current_same [of ?s s] by (simp_all add: rdy_def)
  then have v: "fd_is_valid (int n) ?s"
    using n dup_slot_lookup(6) [OF assms(3)] by (simp add: fd_is_valid_def sched_fd_is_open_def query_current_def slot_fd_is_open_def)
  obtain u where "fdtest_syscall run irq 9 (of_nat n + 1) (d_sel_read d) 0 ?s = Some (if fd_read_ready (int n) ?s then 1 else 0, 0, u)"
    "rdy d i (dup_slot t j n 1 f) u" "load32 (umem u) (d_sel_read d) = (if fd_read_ready (int n) ?s then push_bit n 1 else 0)"
    using test_select [OF assms(1,2) refl n(1) v] by blast
  then show ?thesis
    using n bit_nonzero [OF n(1)] by (cases "fd_read_ready (int n) ?s") (simp_all add: fdtest_select_def expect_def)
qed

lemma close_passes:
  assumes "rdy d i (dup_slot t j n 1 (nb (of_status_flags (ofiles t j)))) s" "placed d" "stdin_slot t j n"
  shows "\<exists>u. fdtest_close run irq (of_nat n) (of_status_flags (ofiles t j)) (0, s) = Some (0, u) \<and> rdy d i t u"
proof -
  let ?f = "of_status_flags (ofiles t j)"
  have n: "n < 32" using assms(3) by (simp add: stdin_slot_def)
  note c4 = dup_slot_changes(4) [OF assms(3), folded small_fd(1) [OF n]]
    and c5 = dup_slot_changes(5) [OF assms(3), folded small_fd(1) [OF n]]
  obtain u1 where u1: "fdtest_syscall run irq 16 (of_nat n) 0 0 s = Some (0, 0, u1)" "rdy d i (flag_slot t j (nb ?f)) u1"
    using test_close [OF assms(1,2) c4, of run irq] by auto
  obtain u2 where u2: "fdtest_syscall run irq 16 (of_nat n) 0 0 u1 = Some (- 1, 9, u2)" "rdy d i (flag_slot t j (nb ?f)) u2"
    using test_close [OF u1(2) assms(2) c5, of run irq] by (auto simp: errno_from_sched_fd_rc_def)
  obtain u3 where u3: "fdtest_syscall run irq 19 0 4 ?f u2 = Some (0, 0, u3)" "rdy d i t u3"
    using test_setfl [OF u2(2) assms(2), of 0 ?f t run irq] flag_slot_restore [OF assms(3)] by auto
  show ?thesis using u1(1) u2(1) u3 by (simp add: fdtest_close_def expect_def)
qed

lemma null_passes:
  assumes "rdy d i t s" "placed d" "fd_ok t" "k < 32" "\<not> fe_used (fdtab t k)"
  shows "\<exists>u. fdtest_null run irq d (0, s) = Some (0, u) \<and> rdy d i t u"
proof -
  have pa: "(d_dev_null d, cstr ''/dev/null'') \<in> set (strings d)" "open_path_to_special (cstr ''/dev/null'') = Some 1"
    "special_type_of 1 = Some 4"
    by (simp_all add: strings_def open_path_to_special_def cstr_def special_type_of_def)
  obtain n j u1 where u1: "fdtest_syscall run irq 20 (d_dev_null d) 2 0 s = Some (of_nat n, 0, u1)"
    "rdy d i (opened n j 4 2 t) u1" "n < 32" "j < 32" "sched_slot_close_fd (opened n j 4 2 t) (int n) = (0, t)"
    using test_open [OF assms(1,2) pa _ assms(3-5), of 2 run irq] by auto
  obtain u2 where u2: "fdtest_syscall run irq 6 (of_nat n) (d_buf d) 8 u1 = Some (0, 0, u2)" "rdy d i (opened n j 4 2 t) u2"
    using test_read_null [OF u1(2) assms(2) u1(3,4), of run irq] by blast
  obtain u3 where u3: "fdtest_syscall run irq 7 (of_nat n) (d_x d) 1 u2 = Some (1, 0, u3)" "rdy d i (opened n j 4 2 t) u3"
    using test_write_null [OF u2(2) assms(2) u1(3,4), of run irq] by blast
  obtain u4 where u4: "fdtest_syscall run irq 16 (of_nat n) 0 0 u3 = Some (0, 0, u4)" "rdy d i t u4"
    using test_close [OF u3(2) assms(2) u1(5) [folded small_fd(1) [OF u1(3)]], of run irq] by auto
  show ?thesis using u1(1) u2(1) u3(1) u4 by (simp add: fdtest_null_def expect_def small_fd(1) [OF u1(3)])
qed

lemma zero_passes:
  assumes "rdy d i t s" "placed d" "fd_ok t" "k < 32" "\<not> fe_used (fdtab t k)"
  shows "\<exists>u. fdtest_zero run irq d (0, s) = Some (0, u) \<and> rdy d i t u"
proof -
  have pa: "(d_dev_zero d, cstr ''/dev/zero'') \<in> set (strings d)" "open_path_to_special (cstr ''/dev/zero'') = Some 2"
    "special_type_of 2 = Some 5"
    by (simp_all add: strings_def open_path_to_special_def cstr_def special_type_of_def)
  have b: "in_user (d_buf d) 64" using assms(2) by (simp add: placed_def writable_def)
  let ?s = "s\<lparr>umem := write_at (d_buf d) (replicate 8 0xA5) (umem s)\<rparr>"
  have r: "rdy d i t ?s"
    using write_at_area [of "d_buf d" "replicate 8 0xA5"] b
    by (intro rdy_mem [OF assms(1,2) writable_mem(1)]) (auto simp: area_def in_user_def)
  obtain n j u1 where u1: "fdtest_syscall run irq 20 (d_dev_zero d) 0 0 ?s = Some (of_nat n, 0, u1)"
    "rdy d i (opened n j 5 0 t) u1" "n < 32" "j < 32" "sched_slot_close_fd (opened n j 5 0 t) (int n) = (0, t)"
    using test_open [OF r assms(2) pa _ assms(3-5), of 0 run irq] by auto
  obtain u2 where u2: "fdtest_syscall run irq 6 (of_nat n) (d_buf d) 8 u1 = Some (8, 0, u2)" "rdy d i (opened n j 5 0 t) u2"
    "\<forall>k<8. umem u2 (d_buf d + of_nat k) = 0"
    using test_read_zero [OF u1(2) assms(2) u1(3,4), of run irq] by blast
  have z: "List.find (\<lambda>b. b \<noteq> 0) (List.map (\<lambda>i. umem u2 (d_buf d + of_nat i)) [0..<8]) = None"
    using u2(3) by (auto simp: find_None_iff)
  obtain u3 where u3: "fdtest_syscall run irq 16 (of_nat n) 0 0 u2 = Some (0, 0, u3)" "rdy d i t u3"
    using test_close [OF u2(2) assms(2) u1(5) [folded small_fd(1) [OF u1(3)]], of run irq] by auto
  show ?thesis
    unfolding fdtest_zero_def using u1(1) u2(1) u3 z by (simp add: expect_def small_fd(1) [OF u1(3)] del: upt_rec_numeral)
qed

lemma tty_passes:
  assumes "rdy d i t s" "placed d" "fd_ok t" "k < 32" "\<not> fe_used (fdtab t k)"
  shows "\<exists>u. fdtest_tty run irq d (0, s) = Some (0, u) \<and> rdy d i t u"
proof -
  have pa: "(d_dev_tty d, cstr ''/dev/tty'') \<in> set (strings d)" "open_path_to_special (cstr ''/dev/tty'') = Some 3"
    "special_type_of 3 = Some 6"
    by (simp_all add: strings_def open_path_to_special_def cstr_def special_type_of_def)
  obtain n j u1 where u1: "fdtest_syscall run irq 20 (d_dev_tty d) 2 0 s = Some (of_nat n, 0, u1)"
    "rdy d i (opened n j 6 2 t) u1" "n < 32" "j < 32" "sched_slot_close_fd (opened n j 6 2 t) (int n) = (0, t)"
    using test_open [OF assms(1,2) pa _ assms(3-5), of 2 run irq] by auto
  obtain u2 where u2: "fdtest_syscall run irq 16 (of_nat n) 0 0 u1 = Some (0, 0, u2)" "rdy d i t u2"
    using test_close [OF u1(2) assms(2) u1(5) [folded small_fd(1) [OF u1(3)]], of run irq] by auto
  show ?thesis using u1(1) u2 by (simp add: fdtest_tty_def expect_def small_fd(1) [OF u1(3)])
qed

lemma missing_passes:
  assumes "rdy d i t s" "placed d"
  shows "\<exists>u. fdtest_missing run irq d (0, s) = Some (0, u) \<and> rdy d i t u"
proof -
  have pa: "(d_missing d, cstr ''/dev/missing'') \<in> set (strings d)" "open_path_to_special (cstr ''/dev/missing'') = None"
    by (simp_all add: strings_def open_path_to_special_def cstr_def)
  have "syscall_case run irq \<lparr>nr = 20, arg0 = d_missing d, arg1 = 0, arg2 = 0, arg3 = 0, arg4 = 0, arg5 = 0\<rparr> s = Some (- 1, 2, s)"
    using read_path [OF assms pa(1)] pa(2) by (simp add: syscall_case_def sys_open_def fail_def)
  from test_fail [OF this assms] obtain u1 where u1: "fdtest_syscall run irq 20 (d_missing d) 0 0 s = Some (- 1, 2, u1)" "rdy d i t u1"
    by blast
  have "syscall_case run irq \<lparr>nr = 21, arg0 = 0xFFFF, arg1 = 1, arg2 = 0, arg3 = 0, arg4 = 0, arg5 = 0\<rparr> u1 = Some (- 1, 97, u1)"
    by (simp add: syscall_case_def sys_socket_def fail_def)
  from test_fail [OF this u1(2) assms(2)] u1(1) show ?thesis by (auto simp: fdtest_missing_def expect_def)
qed

lemma socket_passes:
  assumes "rdy d i t s" "placed d" "fd_ok t" "k < 32" "\<not> fe_used (fdtab t k)"
  shows "\<exists>u. fdtest_socket run irq d (0, s) = Some (0, u) \<and> rdy d i t u"
proof -
  obtain n j u1 where u1: "fdtest_syscall run irq 21 2 1 0 s = Some (of_nat n, 0, u1)"
    "rdy d i (opened n j 7 2 t) u1" "n < 32" "j < 32" "sched_slot_close_fd (opened n j 7 2 t) (int n) = (0, t)"
    using test_socket [OF assms, of run irq] by blast
  note op = test_socket_op [OF _ assms(2) u1(3,4), of i t, where run = run and irq = irq]
  obtain u2 where u2: "fdtest_syscall run irq 23 (of_nat n) 0 0 u1 = Some (- 1, 95, u2)" "rdy d i (opened n j 7 2 t) u2"
    using op [OF u1(2), of 23 0 0] by auto
  obtain u3 where u3: "fdtest_syscall run irq 26 (of_nat n) (d_x d) 1 u2 = Some (- 1, 107, u3)" "rdy d i (opened n j 7 2 t) u3"
    using op [OF u2(2), of 26 "d_x d" 1] by auto
  obtain u4 where u4: "fdtest_syscall run irq 27 (of_nat n) (d_buf d) 1 u3 = Some (- 1, 107, u4)" "rdy d i (opened n j 7 2 t) u4"
    using op [OF u3(2), of 27 "d_buf d" 1] by auto
  obtain u5 where u5: "fdtest_syscall run irq 16 (of_nat n) 0 0 u4 = Some (0, 0, u5)" "rdy d i t u5"
    using test_close [OF u4(2) assms(2) u1(5) [folded small_fd(1) [OF u1(3)]], of run irq] by auto
  show ?thesis using u1(1) u2(1) u3(1) u4(1) u5 by (simp add: fdtest_socket_def expect_def small_fd(1) [OF u1(3)])
qed

lemma bind_passes:
  assumes "rdy d i t s" "placed d" "stdin_slot t j n"
  shows "\<exists>u. fdtest_bind run irq (0, s) = Some (0, u) \<and> rdy d i t u"
proof -
  have l: "sched_slot_ofile_by_fd t 0 = Some j" "of_type (ofiles t j) = 1" "fe_used (fdtab t 0)"
    using assms(3) stdin_slotD(5) [OF assms(3)] by (simp_all add: stdin_slot_def)
  have "syscall_case run irq \<lparr>nr = 23, arg0 = 0, arg1 = 0, arg2 = 0, arg3 = 0, arg4 = 0, arg5 = 0\<rparr> s = Some (- 1, 88, s)"
    using l by (simp add: syscall_case_def sys_socket_op_def Let_def fd_is_valid_def sched_fd_is_open_def fd_type_def
        sched_fd_get_type_def query_current_rdy [OF assms(1)] slot_fd_is_open_def slot_fd_get_type_def fail_def)
  from test_fail [OF this assms(1,2)] show ?thesis by (auto simp: fdtest_bind_def expect_def)
qed

lemma calls_pass:
  assumes "rdy d i (dup_slot t j n 0 (of_status_flags (ofiles t j))) s" "placed d" "stdin_slot t j n"
  shows "\<exists>u. fdtest_calls run irq d (of_nat n) (of_status_flags (ofiles t j)) (0, s) = Some (0, u) \<and> rdy d i t u"
proof -
  have st: "fd_ok t" "n < 32" "\<not> fe_used (fdtab t n)" "of_status_flags (ofiles t j) AND 3 = 0"
    using assms(3) by (simp_all add: stdin_slot_def)
  obtain u1 where u1: "fdtest_fcntl run irq (of_nat n) (0, s) = Some (0, u1)" "rdy d i (dup_slot t j n 1 (nb (of_status_flags (ofiles t j)))) u1"
    using fcntl_passes [OF assms] by blast
  obtain u2 where u2: "fdtest_read run irq d (of_nat n) (0, u1) = Some (0, u2)" "rdy d i (dup_slot t j n 1 (nb (of_status_flags (ofiles t j)))) u2"
    using read_passes [OF u1(2) assms(2,3) st(4)] by blast
  obtain u3 where u3: "fdtest_poll run irq d (of_nat n) (0, u2) = Some (0, u3)" "rdy d i (dup_slot t j n 1 (nb (of_status_flags (ofiles t j)))) u3"
    using poll_passes(1) [OF u2(2) assms(2,3)] by blast
  obtain u4 where u4: "fdtest_poll_negative run irq d (0, u3) = Some (0, u4)" "rdy d i (dup_slot t j n 1 (nb (of_status_flags (ofiles t j)))) u4"
    using poll_passes(2) [OF u3(2) assms(2,3)] by blast
  obtain u5 where u5: "fdtest_select run irq d (of_nat n) (0, u4) = Some (0, u5)" "rdy d i (dup_slot t j n 1 (nb (of_status_flags (ofiles t j)))) u5"
    using select_passes [OF u4(2) assms(2,3)] by blast
  obtain u6 where u6: "fdtest_close run irq (of_nat n) (of_status_flags (ofiles t j)) (0, u5) = Some (0, u6)" "rdy d i t u6"
    using close_passes [OF u5(2) assms(2,3)] by blast
  obtain u7 where u7: "fdtest_null run irq d (0, u6) = Some (0, u7)" "rdy d i t u7" using null_passes [OF u6(2) assms(2) st(1-3)] by blast
  obtain u8 where u8: "fdtest_zero run irq d (0, u7) = Some (0, u8)" "rdy d i t u8" using zero_passes [OF u7(2) assms(2) st(1-3)] by blast
  obtain u9 where u9: "fdtest_tty run irq d (0, u8) = Some (0, u9)" "rdy d i t u9" using tty_passes [OF u8(2) assms(2) st(1-3)] by blast
  obtain u10 where u10: "fdtest_missing run irq d (0, u9) = Some (0, u10)" "rdy d i t u10" using missing_passes [OF u9(2) assms(2)] by blast
  obtain u11 where u11: "fdtest_socket run irq d (0, u10) = Some (0, u11)" "rdy d i t u11" using socket_passes [OF u10(2) assms(2) st(1-3)] by blast
  obtain u12 where u12: "fdtest_bind run irq (0, u11) = Some (0, u12)" "rdy d i t u12" using bind_passes [OF u11(2) assms(2,3)] by blast
  show ?thesis using u12(2) by (simp add: fdtest_calls_def u1(1) u2(1) u3(1) u4(1) u5(1) u6(1) u7(1) u8(1) u9(1) u10(1) u11(1) u12(1))
qed

section \<open>The drain and the whole test\<close>

lemma read_loop_shrinks:
  "console_ok s \<Longrightarrow> read_loop k c s = (bs, e, s') \<Longrightarrow> console_ok s' \<and> length (rx_content s') + length bs \<le> length (rx_content s)"
proof (induction k arbitrary: s bs e s')
  case (Suc k)
  have ht: "unat (g_rx_head s) < 256" "unat (g_rx_tail s) < 256" "unat (g_rx_lines s) = count_list (rx_content s) 10"
    using Suc.prems(1) by (simp_all add: console_ok_def)
  show ?case
  proof (cases "rx_content s")
    case Nil
    then show ?thesis using rx_empty [OF Suc.prems(1)] Suc.prems by simp
  next
    case (Cons x xs)
    note q = rx_deq [OF ht(1,2) Cons]
    show ?thesis
    proof (cases "editable x \<or> \<not> c")
      case True
      obtain u where u: "read_loop (Suc k) c s = (case read_loop k c u of (bs, eof, s') \<Rightarrow> (x # bs, eof, s'))"
        "console_ok u" "rx_content u = xs"
        using read_loop_plain [OF Suc.prems(1) Cons True] by blast
      obtain cs f v where v: "read_loop k c u = (cs, f, v)" by (cases "read_loop k c u") auto
      have "bs = x # cs" "s' = v" using Suc.prems(2) [unfolded u(1) v] by simp_all
      then show ?thesis using Suc.IH [OF u(2) v] u(3) Cons by simp
    next
      case False
      have l: "x = 10 \<Longrightarrow> 0 < unat (g_rx_lines s)" using ht(3) Cons by simp
      then have l0: "x = 10 \<Longrightarrow> g_rx_lines s \<noteq> 0" by auto
      show ?thesis
        using False Suc.prems(2) q ht l l0 unat_dec [of "g_rx_lines s"] Cons
        by (auto simp: editable_def Let_def console_ok_def rx_next)
    qed
  qed
qed simp

lemma drain_ends:
  fixes s :: "'a kernel_scheme"
  shows "console_ok s \<Longrightarrow> \<exists>u. fdtest_drain_stdin s = Some u \<and> console_ok u \<and> g_tasks u = g_tasks s
           \<and> g_current_idx u = g_current_idx s \<and> wq u = wq s \<and> umem u = umem s"
proof (induction "length (rx_content s)" arbitrary: s rule: less_induct)
  case less
  obtain r bs u where c: "console_read True 32 True s = (r, bs, u)" by (cases "console_read True 32 True s") auto
  have f: "r = int (length bs)" "g_tasks u = g_tasks s" "g_current_idx u = g_current_idx s" "wq u = wq s" "umem u = umem s"
    using read_nonblock [OF c] by simp_all
  obtain cs e v where l: "read_loop 32 (lflag 2 s) s = (cs, e, v)" by (cases "read_loop 32 (lflag 2 s) s") auto
  have k: "console_ok u \<and> length (rx_content u) + length bs \<le> length (rx_content s)"
    using c l read_loop_shrinks [OF less.prems l] less.prems by (auto simp: console_read_def Let_def split: if_splits)
  show ?case
  proof (cases "bs = []")
    case True
    then have "fdtest_drain_stdin s = Some u" using c f(1) by (simp add: fdtest_drain_stdin.simps [of s])
    then show ?thesis using f k by blast
  next
    case False
    then have "length (rx_content u) < length (rx_content s)" using k by (cases bs) auto
    from less.hyps [OF this] k obtain w where w: "fdtest_drain_stdin u = Some w" "console_ok w" "g_tasks w = g_tasks u"
      "g_current_idx w = g_current_idx u" "wq w = wq u" "umem w = umem u" by blast
    then have "fdtest_drain_stdin s = Some w" using c f(1) False by (simp add: fdtest_drain_stdin.simps [of s])
    then show ?thesis using w f by auto
  qed
qed

text \<open>A task with the standard table is such a task.\<close>

lemma stdio_slot: "stdin_slot (sched_fd_table_init_stdio t) 0 3"
  unfolding stdin_slot_def using init_stdio_ok [of t]
  by (auto simp: sched_slot_ofile_by_fd_def sched_fd_table_init_stdio_def stdio_entry_def sched_fd_table_clear_def fdent_free_def
      less_Suc_eq numeral_3_eq_3)

text \<open>C13: The descriptor self test of the kernel passes. In a task whose descriptor 0 is the readable standard input and
  which has a free descriptor at or above 3, with the data of the test placed in RAM apart from the mailbox, the
  test returns, reports no failure, and leaves the descriptor table of the task as it was. It does so whatever is in the
  input queue and whatever other tasks and interrupts would do.\<close>

theorem fdtest_passes:
  assumes "console_ok s" "sched_current_slot s = Some i" "stdin_slot (g_tasks s i) j n" "placed d"
    "\<forall>(a, cs)\<in>set (strings d). str_at (umem s) a cs"
  shows "\<exists>u. fd_selftest_run run irq d s = Some (fdtest_report (0, u)) \<and> sched_current_slot u = Some i \<and> g_tasks u i = g_tasks s i"
proof -
  obtain x where x: "klog_line 3 (Some (cstr ''fdtest'')) (Some (cstr ''start v8'')) s = s\<lparr>screen := x\<rparr>"
    using drawn_klog(2) [OF drawn_refl] unfolding drawn_def by blast
  have "console_ok (s\<lparr>screen := x\<rparr>)" using assms(1) by (simp add: console_ok_def rx_content_def)
  from drain_ends [OF this] obtain u1 where u1: "fdtest_drain_stdin (s\<lparr>screen := x\<rparr>) = Some u1" "g_tasks u1 = g_tasks s"
    "g_current_idx u1 = g_current_idx s" "umem u1 = umem s" by auto
  have r1: "rdy d i (g_tasks s i) u1"
    using rdy_same [of d i "g_tasks s i" s u1] u1(2-4) assms(2,5) by (simp add: rdy_def)
  obtain u2 where u2: "fdtest_dup run irq u1 = Some (Inr (of_nat n, of_status_flags (ofiles (g_tasks s i) j), 0, u2))"
    "rdy d i (dup_slot (g_tasks s i) j n 0 (of_status_flags (ofiles (g_tasks s i) j))) u2"
    using dup_passes [OF r1 assms(4,3)] by blast
  obtain u3 where u3: "fdtest_calls run irq d (of_nat n) (of_status_flags (ofiles (g_tasks s i) j)) (0, u2) = Some (0, u3)"
    "rdy d i (g_tasks s i) u3"
    using calls_pass [OF u2(2) assms(4,3)] by blast
  have "fd_selftest_run run irq d s = Some (fdtest_report (0, u3))"
    by (simp add: fd_selftest_run_def x u1(1) u2(1) u3(1))
  then show ?thesis using u3(2) by (auto simp: rdy_def)
qed

section \<open>A concrete run\<close>

lemma str_at_write: "unat a + length cs + 1 \<le> 67108864 \<Longrightarrow> str_at (write_at a (cs @ [0]) m) a cs"
proof -
  assume "unat a + length cs + 1 \<le> 67108864"
  then have "write_at a (cs @ [0]) m (a + of_nat k) = (cs @ [0]) ! k" if "k < length cs + 1" for k
    using write_at_nth [of a "cs @ [0]" k m] that by simp
  then show ?thesis by (simp add: str_at_def nth_append)
qed

lemma str_at_write_other:
  assumes "str_at m a cs" "unat a + length cs + 1 \<le> 67108864" "unat b + length bs \<le> 67108864"
    "area a (length cs + 1) \<inter> area b (length bs) = {}"
  shows "str_at (write_at b bs m) a cs"
proof (rule str_at_keep [OF assms(1) _ assms(2)])
  show "\<forall>x\<in>area a (length cs + 1). write_at b bs m x = m x"
    using assms(4) write_at_area [OF assms(3)] by blast
qed

definition demo_data :: fdtest_data where
  "demo_data = \<lparr>d_buf = 0x2000, d_pfd = 0x2040, d_sel_read = 0x2048, d_dev_null = 0x1000, d_dev_zero = 0x1020,
                d_dev_tty = 0x1040, d_missing = 0x1060, d_x = 0x1080\<rparr>"

definition demo_strings :: "u32 \<Rightarrow> u8" where
  "demo_strings = write_at 0x1060 (cstr ''/dev/missing'' @ [0]) (write_at 0x1040 (cstr ''/dev/tty'' @ [0])
     (write_at 0x1020 (cstr ''/dev/zero'' @ [0]) (write_at 0x1000 (cstr ''/dev/null'' @ [0]) (\<lambda>_. 0))))"

definition demo_test :: klogs where
  "demo_test = (kernel.extend demo_kernel \<lparr>g_klog_level = 3\<rparr>)
     \<lparr>g_current_idx := 1, g_tasks := (\<lambda>_. sched_fd_table_init_stdio (slot_zero\<lparr>used := True\<rparr>)), umem := demo_strings\<rparr>"

lemma demo_strings_at: "\<forall>(a, cs)\<in>set (strings demo_data). str_at demo_strings a cs"
proof -
  have d: "area a k \<inter> area b l = {}" if "unat a + k \<le> unat b" for a b k l using that by (auto simp: area_def)
  note w = str_at_write and o = str_at_write_other [OF _ _ _ d]
  have n1: "str_at (write_at 0x1000 (cstr ''/dev/null'' @ [0]) (\<lambda>_. 0)) 0x1000 (cstr ''/dev/null'')" (is "str_at ?m1 _ _")
    by (rule w) (simp add: cstr_def)
  have n2: "str_at (write_at 0x1020 (cstr ''/dev/zero'' @ [0]) ?m1) a cs"
    if "str_at ?m1 a cs" "unat a + length cs + 1 \<le> 0x1020" for a cs
    by (rule o [OF that(1)]) (use that(2) in \<open>simp_all add: cstr_def\<close>)
  let ?m2 = "write_at 0x1020 (cstr ''/dev/zero'' @ [0]) ?m1"
  have z: "str_at ?m2 0x1020 (cstr ''/dev/zero'')" by (rule w) (simp add: cstr_def)
  have n3: "str_at (write_at 0x1040 (cstr ''/dev/tty'' @ [0]) ?m2) a cs"
    if "str_at ?m2 a cs" "unat a + length cs + 1 \<le> 0x1040" for a cs
    by (rule o [OF that(1)]) (use that(2) in \<open>simp_all add: cstr_def\<close>)
  let ?m3 = "write_at 0x1040 (cstr ''/dev/tty'' @ [0]) ?m2"
  have y: "str_at ?m3 0x1040 (cstr ''/dev/tty'')" by (rule w) (simp add: cstr_def)
  have n4: "str_at demo_strings a cs" if "str_at ?m3 a cs" "unat a + length cs + 1 \<le> 0x1060" for a cs
    unfolding demo_strings_def by (rule o [OF that(1)]) (use that(2) in \<open>simp_all add: cstr_def\<close>)
  have "str_at demo_strings 0x1000 (cstr ''/dev/null'')" by (intro n4 n3 n2 n1) (simp_all add: cstr_def)
  moreover have "str_at demo_strings 0x1020 (cstr ''/dev/zero'')" by (intro n4 n3 z) (simp_all add: cstr_def)
  moreover have "str_at demo_strings 0x1040 (cstr ''/dev/tty'')" by (intro n4 y) (simp_all add: cstr_def)
  moreover have "str_at demo_strings 0x1060 (cstr ''/dev/missing'')" unfolding demo_strings_def by (rule w) (simp add: cstr_def)
  ultimately show ?thesis by (simp add: strings_def demo_data_def)
qed

theorem fdtest_passes_witness:
  "\<exists>u. fd_selftest_run (\<lambda>e i ar s. s) (\<lambda>n k s. s) demo_data demo_test = Some (fdtest_report (0, u))"
proof -
  have c: "console_ok demo_test" "sched_current_slot demo_test = Some 1"
    by (simp_all add: demo_test_def demo_kernel_def kernel.defs sched.defs console_ok_def rx_content_def ring_content_def
        sched_current_slot_def sched_fd_table_init_stdio_def stdio_entry_def sched_fd_table_clear_def)
  have "stdin_slot (g_tasks demo_test 1) 0 3" by (simp add: demo_test_def stdio_slot)
  moreover have "placed demo_data"
    by (auto simp: placed_def writable_def strings_def demo_data_def in_user_def area_def cstr_def)
  moreover have "\<forall>(a, cs)\<in>set (strings demo_data). str_at (umem demo_test) a cs"
    using demo_strings_at by (simp add: demo_test_def)
  ultimately show ?thesis using fdtest_passes [OF c, of 0 3 demo_data] by blast
qed

end
