(* ===== verification/Float32.thy ===== *)
theory Float32
  imports VmState
begin

text \<open>
  IEEE 754 binary32 as \<open>float.h\<close> and the floating-point instructions of \<open>vm.c\<close> use
  it: registers hold the bit pattern, \<open>reg_as_f32\<close> and \<open>f32_as_reg\<close> convert.
  Arithmetic is exact on integers scaled by a power of two, followed by one
  rounding to nearest, ties to even. Which NaN an operation returns is up to the
  host (\<open>nan_result\<close>).

  The lemmas give the conversion round trips, that rounding yields representable
  values, and the integer square root under \<open>sqrtf\<close>.
\<close>

section \<open>Values and bit patterns\<close>

datatype f32 = NaN u32 | Inf bool | Fin bool nat int

definition reg_as_f32 :: "u32 \<Rightarrow> f32" where
  "reg_as_f32 b =
     (let s = bit b 31; e = unat (drop_bit 23 b AND 0xFF); m = unat (b AND 0x7FFFFF) in
      if e = 255 then (if m = 0 then Inf s else NaN b)
      else if e = 0 then Fin s m (- 149)
      else Fin s (m + 2 ^ 23) (int e - 150))"

definition sign_bit :: "bool \<Rightarrow> u32" where
  "sign_bit s = (if s then 0x80000000 else 0)"

definition f32_as_reg :: "f32 \<Rightarrow> u32" where
  "f32_as_reg f =
     (case f of
        NaN b \<Rightarrow> b
      | Inf s \<Rightarrow> sign_bit s OR 0x7F800000
      | Fin s m e \<Rightarrow>
          if m < 2 ^ 23 then sign_bit s OR of_nat m
          else sign_bit s OR push_bit 23 (of_int (e + 150)) OR of_nat (m - 2 ^ 23))"

definition f32_is_nan :: "f32 \<Rightarrow> bool" where
  "f32_is_nan f = (case f of NaN b \<Rightarrow> True | _ \<Rightarrow> False)"

section \<open>Rounding\<close>

fun bit_length :: "nat \<Rightarrow> nat" where
  "bit_length n = (if n = 0 then 0 else Suc (bit_length (n div 2)))"

declare bit_length.simps [simp del]

definition round_even :: "nat \<Rightarrow> nat \<Rightarrow> bool \<Rightarrow> nat" where
  "round_even m d sticky =
     (let q = m div 2 ^ d; r = m mod 2 ^ d; half = 2 ^ (d - 1) in
      if half < r \<or> (r = half \<and> (sticky \<or> odd q)) then q + 1 else q)"

definition f32_pack :: "bool \<Rightarrow> nat \<Rightarrow> int \<Rightarrow> f32" where
  "f32_pack s m e =
     (let (m, e) = (if m = 2 ^ 24 then (2 ^ 23, e + 1) else (m, e)) in
      if 104 < e then Inf s else Fin s m e)"

definition f32_round :: "bool \<Rightarrow> nat \<Rightarrow> int \<Rightarrow> bool \<Rightarrow> f32" where
  "f32_round s m e sticky =
     (if m = 0 then Fin s 0 (- 149)
      else let e' = max (e + int (bit_length m) - 24) (- 149) in
        if e' \<le> e then f32_pack s (m * 2 ^ nat (e - e')) e'
        else f32_pack s (round_even m (nat (e' - e)) sticky) e')"

section \<open>Arithmetic\<close>

definition sgn_of :: "bool \<Rightarrow> nat \<Rightarrow> int" where
  "sgn_of s m = (if s then - int m else int m)"

definition fin_add :: "bool \<Rightarrow> nat \<Rightarrow> int \<Rightarrow> bool \<Rightarrow> nat \<Rightarrow> int \<Rightarrow> f32" where
  "fin_add s m e s' m' e' =
     (let k = min e e';
          x = sgn_of s (m * 2 ^ nat (e - k)) + sgn_of s' (m' * 2 ^ nat (e' - k)) in
      if x = 0 then Fin (s \<and> s') 0 (- 149) else f32_round (x < 0) (nat \<bar>x\<bar>) k False)"

definition f32_add :: "(u32 \<Rightarrow> u32 \<Rightarrow> u32) \<Rightarrow> f32 \<Rightarrow> f32 \<Rightarrow> f32" where
  "f32_add nan a b =
     (case (a, b) of
        (Fin s m e, Fin s' m' e') \<Rightarrow> fin_add s m e s' m' e'
      | (Inf s, Fin _ _ _) \<Rightarrow> Inf s
      | (Fin _ _ _, Inf s) \<Rightarrow> Inf s
      | (Inf s, Inf s') \<Rightarrow> if s = s' then Inf s else NaN (nan (f32_as_reg a) (f32_as_reg b))
      | _ \<Rightarrow> NaN (nan (f32_as_reg a) (f32_as_reg b)))"

definition f32_neg :: "f32 \<Rightarrow> f32" where
  "f32_neg a =
     (case a of NaN b \<Rightarrow> NaN (b XOR 0x80000000) | Inf s \<Rightarrow> Inf (\<not> s) | Fin s m e \<Rightarrow> Fin (\<not> s) m e)"

definition f32_abs :: "f32 \<Rightarrow> f32" where
  "f32_abs a =
     (case a of NaN b \<Rightarrow> NaN (b AND 0x7FFFFFFF) | Inf s \<Rightarrow> Inf False | Fin s m e \<Rightarrow> Fin False m e)"

definition f32_sub :: "(u32 \<Rightarrow> u32 \<Rightarrow> u32) \<Rightarrow> f32 \<Rightarrow> f32 \<Rightarrow> f32" where
  "f32_sub nan a b =
     (if f32_is_nan a \<or> f32_is_nan b then NaN (nan (f32_as_reg a) (f32_as_reg b))
      else f32_add nan a (f32_neg b))"

definition f32_mul :: "(u32 \<Rightarrow> u32 \<Rightarrow> u32) \<Rightarrow> f32 \<Rightarrow> f32 \<Rightarrow> f32" where
  "f32_mul nan a b =
     (case (a, b) of
        (Fin s m e, Fin s' m' e') \<Rightarrow> f32_round (s \<noteq> s') (m * m') (e + e') False
      | (Inf s, Fin s' m _) \<Rightarrow> if m = 0 then NaN (nan (f32_as_reg a) (f32_as_reg b)) else Inf (s \<noteq> s')
      | (Fin s m _, Inf s') \<Rightarrow> if m = 0 then NaN (nan (f32_as_reg a) (f32_as_reg b)) else Inf (s \<noteq> s')
      | (Inf s, Inf s') \<Rightarrow> Inf (s \<noteq> s')
      | _ \<Rightarrow> NaN (nan (f32_as_reg a) (f32_as_reg b)))"

definition f32_div :: "(u32 \<Rightarrow> u32 \<Rightarrow> u32) \<Rightarrow> f32 \<Rightarrow> f32 \<Rightarrow> f32" where
  "f32_div nan a b =
     (case (a, b) of
        (Fin s m e, Fin s' m' e') \<Rightarrow>
          if m' = 0 then (if m = 0 then NaN (nan (f32_as_reg a) (f32_as_reg b)) else Inf (s \<noteq> s'))
          else f32_round (s \<noteq> s') (m * 2 ^ 50 div m') (e - e' - 50) (m * 2 ^ 50 mod m' \<noteq> 0)
      | (Inf s, Fin s' m _) \<Rightarrow> Inf (s \<noteq> s')
      | (Fin s m _, Inf s') \<Rightarrow> Fin (s \<noteq> s') 0 (- 149)
      | _ \<Rightarrow> NaN (nan (f32_as_reg a) (f32_as_reg b)))"

text \<open>Integer square root, bit by bit from bit \<open>k - 1\<close>.\<close>

definition isqrt :: "nat \<Rightarrow> nat \<Rightarrow> nat" where
  "isqrt k n = fold (\<lambda>i r. if (r + 2 ^ i) ^ 2 \<le> n then r + 2 ^ i else r) (rev [0..<k]) 0"

definition f32_sqrt :: "(u32 \<Rightarrow> u32 \<Rightarrow> u32) \<Rightarrow> f32 \<Rightarrow> f32" where
  "f32_sqrt nan a =
     (case a of
        Fin s m e \<Rightarrow>
          if m = 0 then Fin s 0 (- 149)
          else if s then NaN (nan (f32_as_reg a) (f32_as_reg a))
          else let d = (if even e then 50 else 51); n = m * 2 ^ d; r = isqrt 38 n in
            f32_round False r ((e - int d) div 2) (r ^ 2 \<noteq> n)
      | Inf s \<Rightarrow> if s then NaN (nan (f32_as_reg a) (f32_as_reg a)) else Inf False
      | NaN b \<Rightarrow> NaN (nan b b))"

section \<open>Comparison and conversion\<close>

definition f32_eq :: "f32 \<Rightarrow> f32 \<Rightarrow> bool" where
  "f32_eq a b =
     (case (a, b) of
        (Fin s m e, Fin s' m' e') \<Rightarrow>
          (let k = min e e' in
           sgn_of s (m * 2 ^ nat (e - k)) = sgn_of s' (m' * 2 ^ nat (e' - k)))
      | (Inf s, Inf s') \<Rightarrow> s = s'
      | _ \<Rightarrow> False)"

definition f32_lt :: "f32 \<Rightarrow> f32 \<Rightarrow> bool" where
  "f32_lt a b =
     (case (a, b) of
        (Fin s m e, Fin s' m' e') \<Rightarrow>
          (let k = min e e' in
           sgn_of s (m * 2 ^ nat (e - k)) < sgn_of s' (m' * 2 ^ nat (e' - k)))
      | (Inf s, Inf s') \<Rightarrow> s \<and> \<not> s'
      | (Inf s, Fin _ _ _) \<Rightarrow> s
      | (Fin _ _ _, Inf s) \<Rightarrow> \<not> s
      | _ \<Rightarrow> False)"

abbreviation (input) f32_zero :: f32 where "f32_zero \<equiv> Fin False 0 (- 149)"

definition f32_of_int :: "int \<Rightarrow> f32" where
  "f32_of_int i = f32_round (i < 0) (nat \<bar>i\<bar>) 0 False"

text \<open>\<open>(int32_t)f\<close> of a finite value: truncation towards zero.\<close>

definition f32_trunc :: "f32 \<Rightarrow> int" where
  "f32_trunc f =
     (case f of
        Fin s m e \<Rightarrow> sgn_of s (if 0 \<le> e then m * 2 ^ nat e else m div 2 ^ nat (- e))
      | _ \<Rightarrow> 0)"

section \<open>Bit patterns round trip\<close>

lemma mask23: "(0x7FFFFF :: u32) = mask 23"
  by (simp add: mask_eq_exp_minus_1)

lemma f32_fields: "sign_bit (bit b 31) OR push_bit 23 (drop_bit 23 b AND 0xFF) OR (b AND 0x7FFFFF) = b"
proof (rule bit_word_eqI, goal_cases)
  case (1 n)
  have s: "bit (sign_bit (bit b 31)) n \<longleftrightarrow> n = 31 \<and> bit b 31"
    using bit_exp_iff [where ?'a = "32 word", of 31 n] by (auto simp: sign_bit_def)
  from 1 consider "n < 23" | "23 \<le> n" "n < 31" | "n = 31" by force
  then show ?case
    unfolding bit_or_iff s mask23 ff_mask by cases (auto simp: bit_simps)
qed

lemma f32_small:
  "(b :: u32) AND 0x7FFFFF = of_nat (unat (b AND 0x7FFFFF))" "unat (b AND 0x7FFFFF) < 2 ^ 23"
proof -
  have "b AND 0x7FFFFF = take_bit 23 b" by (simp only: take_bit_eq_mask mask23)
  then show "unat (b AND 0x7FFFFF) < 2 ^ 23" by (simp add: take_bit_eq_mod unat_mod)
qed simp

lemma f32_as_reg_of_reg: "f32_as_reg (reg_as_f32 b) = b"
proof -
  let ?e = "drop_bit 23 b AND 0xFF :: u32" and ?m = "b AND 0x7FFFFF"
  have e: "?e = of_nat (unat ?e)" by simp
  show ?thesis
  proof (cases "unat ?e = 255")
    case True
    then have "?e = 255" by (metis e of_nat_numeral)
    then have "?m = 0 \<Longrightarrow> sign_bit (bit b 31) OR 0x7F800000 = b"
      using f32_fields [of b] by simp
    then show ?thesis using True by (simp add: reg_as_f32_def f32_as_reg_def Let_def unat_eq_0)
  next
    case False
    have b: "b = sign_bit (bit b 31) OR push_bit 23 ?e OR ?m" by (rule f32_fields [symmetric])
    show ?thesis
    proof (cases "unat ?e = 0")
      case True
      then have "?e = 0" by (simp add: unat_eq_0)
      then have "b = sign_bit (bit b 31) OR ?m" using b by simp
      then show ?thesis using True f32_small [of b] by (simp add: reg_as_f32_def f32_as_reg_def Let_def)
    next
      case nz: False
      have "f32_as_reg (reg_as_f32 b) = sign_bit (bit b 31) OR push_bit 23 (of_int (int (unat ?e))) OR of_nat (unat ?m)"
        using False nz by (simp add: reg_as_f32_def f32_as_reg_def Let_def)
      then show ?thesis using b by simp
    qed
  qed
qed

text \<open>Normal values are read back from their bit pattern.\<close>

lemma small_bits: "unat (x :: u32) < 2 ^ k \<Longrightarrow> bit x n \<Longrightarrow> n < k"
proof -
  assume "unat x < 2 ^ k" "bit x n"
  then have "take_bit k x = x"
    by (simp add: word_unat_eq_iff unsigned_take_bit_eq take_bit_nat_eq_self)
  then show "n < k" using \<open>bit x n\<close> by (metis bit_take_bit_iff)
qed

lemma packed_fields:
  assumes "unat (x :: u32) < 2 ^ 8" "unat y < 2 ^ 23" "b = sign_bit s OR push_bit 23 x OR y"
  shows "bit b 31 = s" "drop_bit 23 b AND 0xFF = x" "b AND 0x7FFFFF = y"
proof -
  have sb: "bit (sign_bit s) n \<longleftrightarrow> n = 31 \<and> s" for n
    using bit_exp_iff [where ?'a = "32 word", of 31 n] by (auto simp: sign_bit_def)
  have x: "bit x n \<Longrightarrow> n < 8" and y: "bit y n \<Longrightarrow> n < 23" for n
    using small_bits [OF assms(1)] small_bits [OF assms(2)] by blast+
  have bb: "bit b n \<longleftrightarrow> (n = 31 \<and> s) \<or> (23 \<le> n \<and> n < 32 \<and> bit x (n - 23)) \<or> bit y n" for n
    unfolding assms(3) by (auto simp: bit_or_iff sb bit_push_bit_iff)
  show "bit b 31 = s" using bb [of 31] x [of 8] y [of 31] by auto
  show "drop_bit 23 b AND 0xFF = x"
    unfolding ff_mask by (rule bit_word_eqI) (auto simp: bit_and_iff bit_drop_bit_eq bit_mask_iff bb dest: x y)
  show "b AND 0x7FFFFF = y"
    unfolding mask23 by (rule bit_word_eqI) (auto simp: bit_and_iff bit_mask_iff bb dest: x y)
qed

lemma reg_as_f32_of_normal:
  assumes "2 ^ 23 \<le> m" "m < 2 ^ 24" "- 149 \<le> e" "e \<le> 104"
  shows "reg_as_f32 (f32_as_reg (Fin s m e)) = Fin s m e"
proof -
  let ?x = "of_int (e + 150) :: u32" and ?y = "of_nat (m - 2 ^ 23) :: u32"
  have "?x = of_nat (nat (e + 150))" using assms(3) by (simp add: of_nat_nat)
  then have x: "unat ?x = nat (e + 150)" using assms(3,4) by (simp only: unat_of_nat) simp
  have y: "unat ?y = m - 2 ^ 23" using assms(1,2) by (simp only: unat_of_nat) simp
  have b: "f32_as_reg (Fin s m e) = sign_bit s OR push_bit 23 ?x OR ?y"
    using assms(1) by (simp add: f32_as_reg_def)
  have "unat ?x < 2 ^ 8" "unat ?y < 2 ^ 23" using x y assms by auto
  note f = packed_fields [OF this b]
  show ?thesis
    using assms x y by (simp add: reg_as_f32_def Let_def f)
qed

section \<open>Integer square root\<close>

lemma isqrt_step:
  assumes "r ^ 2 \<le> n" "n < (r + 2 ^ Suc i) ^ 2"
  shows "(let r' = (if (r + 2 ^ i) ^ 2 \<le> n then r + 2 ^ i else (r :: nat))
          in r' ^ 2 \<le> n \<and> n < (r' + 2 ^ i) ^ 2)"
proof -
  have "r + 2 ^ i + 2 ^ i = r + 2 ^ Suc i" by simp
  then show ?thesis using assms by (auto simp only: Let_def split: if_splits)
qed

lemma isqrt_fold:
  assumes "(r :: nat) ^ 2 \<le> n" "n < (r + 2 ^ k) ^ 2"
  shows "(let s = fold (\<lambda>i r. if (r + 2 ^ i) ^ 2 \<le> n then r + 2 ^ i else r) (rev [0..<k]) r
          in s ^ 2 \<le> n \<and> n < (s + 1) ^ 2)"
  using assms
proof (induction k arbitrary: r)
  case 0
  then show ?case by simp
next
  case (Suc k)
  let ?r = "if (r + 2 ^ k) ^ 2 \<le> n then r + 2 ^ k else r"
  have "?r ^ 2 \<le> n \<and> n < (?r + 2 ^ k) ^ 2" using isqrt_step [OF Suc.prems] by (simp only: Let_def)
  then show ?case using Suc.IH [of ?r] by simp
qed

lemma isqrt_correct: "n < (2 ^ k) ^ 2 \<Longrightarrow> isqrt k n ^ 2 \<le> n \<and> n < (isqrt k n + 1) ^ 2"
  using isqrt_fold [of 0 n k] by (simp add: isqrt_def Let_def)

section \<open>Integers in and out\<close>

lemma bit_length_bounds: "0 < n \<Longrightarrow> 2 ^ (bit_length n - 1) \<le> n \<and> n < 2 ^ bit_length n \<and> 0 < bit_length n"
proof (induction n rule: bit_length.induct)
  case (1 n)
  show ?case
  proof (cases "n = 1")
    case True
    then show ?thesis by (simp add: bit_length.simps)
  next
    case False
    then have "0 < n div 2" using 1 by simp
    then have IH: "2 ^ (bit_length (n div 2) - 1) \<le> n div 2" "n div 2 < 2 ^ bit_length (n div 2)"
      "0 < bit_length (n div 2)"
      using 1 by simp_all
    then obtain k where k: "bit_length (n div 2) = Suc k" by (cases "bit_length (n div 2)") auto
    then have "bit_length n = Suc (Suc k)" using 1 by (subst bit_length.simps) simp
    then show ?thesis using IH k by auto
  qed
qed

lemma bit_length_le: "n < 2 ^ k \<Longrightarrow> bit_length n \<le> k"
proof (cases "n = 0")
  case False
  assume "n < 2 ^ k"
  then have "(2 :: nat) ^ (bit_length n - 1) < 2 ^ k" using bit_length_bounds [of n] False by linarith
  then have "bit_length n - 1 < k" by simp
  then show ?thesis by simp
qed (simp add: bit_length.simps)

text \<open>Integers of at most 24 bits are converted exactly, and back.\<close>

lemma f32_round_small:
  assumes "0 < n" "n < 2 ^ 24" "k = 24 - bit_length n"
  shows "f32_round s n 0 st = Fin s (n * 2 ^ k) (- int k)"
proof -
  have L: "0 < bit_length n" "bit_length n \<le> 24" "n < 2 ^ bit_length n"
    using bit_length_bounds [OF assms(1)] bit_length_le [OF assms(2)] by auto
  have e: "max (0 + int (bit_length n) - 24) (- 149) = - int k" using L assms(3) by auto
  have "n * 2 ^ k < 2 ^ bit_length n * 2 ^ k" using L(3) by simp
  also have "(2 :: nat) ^ bit_length n * 2 ^ k = 2 ^ 24" using L(2) assms(3) by (simp flip: power_add)
  finally have "n * 2 ^ k \<noteq> 2 ^ 24" by simp
  then have "f32_pack s (n * 2 ^ k) (- int k) = Fin s (n * 2 ^ k) (- int k)"
    by (simp add: f32_pack_def)
  moreover have "f32_round s n 0 st = f32_pack s (n * 2 ^ k) (- int k)"
    using assms(1) by (simp only: f32_round_def Let_def e) simp
  ultimately show ?thesis by simp
qed

lemma f32_of_int_exact:
  assumes "\<bar>i\<bar> < 2 ^ 24" "i \<noteq> 0"
  shows "\<exists>k. f32_of_int i = Fin (i < 0) (nat \<bar>i\<bar> * 2 ^ k) (- int k)
             \<and> 2 ^ 23 \<le> nat \<bar>i\<bar> * 2 ^ k \<and> nat \<bar>i\<bar> * 2 ^ k < 2 ^ 24 \<and> k \<le> 23"
proof -
  let ?n = "nat \<bar>i\<bar>" and ?L = "bit_length (nat \<bar>i\<bar>)"
  have n: "0 < ?n" "?n < 2 ^ 24" using assms by (simp_all add: nat_less_iff)
  have L: "0 < ?L" "?L \<le> 24" "2 ^ (?L - 1) \<le> ?n" "?n < 2 ^ ?L"
    using bit_length_bounds [OF n(1)] bit_length_le [OF n(2)] by auto
  have "2 ^ (?L - 1) * 2 ^ (24 - ?L) \<le> ?n * 2 ^ (24 - ?L)" "?n * 2 ^ (24 - ?L) < 2 ^ ?L * 2 ^ (24 - ?L)"
    using L(3,4) by simp_all
  moreover have "(2 :: nat) ^ (?L - 1) * 2 ^ (24 - ?L) = 2 ^ 23" "(2 :: nat) ^ ?L * 2 ^ (24 - ?L) = 2 ^ 24"
    using L(1,2) by (simp_all flip: power_add)
  ultimately have "2 ^ 23 \<le> ?n * 2 ^ (24 - ?L)" "?n * 2 ^ (24 - ?L) < 2 ^ 24" by linarith+
  moreover have "24 - ?L \<le> 23" using L(1) by linarith
  ultimately show ?thesis
    using f32_round_small [OF n refl] unfolding f32_of_int_def by blast
qed

lemma f32_of_int_read_back: "\<bar>i\<bar> < 2 ^ 24 \<Longrightarrow> reg_as_f32 (f32_as_reg (f32_of_int i)) = f32_of_int i"
proof (cases "i = 0")
  case True
  have "f32_of_int 0 = Fin False 0 (- 149)" by (simp add: f32_of_int_def f32_round_def)
  moreover have "reg_as_f32 0 = Fin False 0 (- 149)" by (simp add: reg_as_f32_def)
  ultimately show ?thesis using True by (simp add: f32_as_reg_def sign_bit_def)
next
  case False
  assume "\<bar>i\<bar> < 2 ^ 24"
  from f32_of_int_exact [OF this False] obtain k where
    k: "f32_of_int i = Fin (i < 0) (nat \<bar>i\<bar> * 2 ^ k) (- int k)"
      "2 ^ 23 \<le> nat \<bar>i\<bar> * 2 ^ k" "nat \<bar>i\<bar> * 2 ^ k < 2 ^ 24" "k \<le> 23" by blast
  show ?thesis unfolding k(1) using k(2-4) by (intro reg_as_f32_of_normal) simp_all
qed

lemma f32_trunc_of_int: "\<bar>i\<bar> < 2 ^ 24 \<Longrightarrow> f32_trunc (f32_of_int i) = i"
proof (cases "i = 0")
  case True
  then show ?thesis by (simp add: f32_of_int_def f32_round_def f32_trunc_def sgn_of_def)
next
  case False
  assume "\<bar>i\<bar> < 2 ^ 24"
  from f32_of_int_exact [OF this False] obtain k where
    "f32_of_int i = Fin (i < 0) (nat \<bar>i\<bar> * 2 ^ k) (- int k)" by blast
  then show ?thesis by (cases "k = 0") (auto simp: f32_trunc_def sgn_of_def)
qed

text \<open>The limits of \<open>int32_t\<close> as floats, and values that lie between them.\<close>

lemma f32_int_limits:
  "f32_of_int 2147483647 = Fin False (2 ^ 23) 8" "f32_of_int (- 2147483648) = Fin True (2 ^ 23) 8"
  by (simp_all add: f32_of_int_def f32_round_def round_even_def f32_pack_def bit_length.simps Let_def)

lemma f32_within_limits:
  assumes "m < 2 ^ 24" "e \<le> 0"
  shows "\<not> f32_lt (f32_of_int 2147483647) (Fin s m e)" "\<not> f32_lt (Fin s m e) (f32_of_int (- 2147483648))"
proof -
  have "(2 :: nat) ^ 1 \<le> 2 ^ nat (8 - e)" using assms(2) by (intro power_increasing) auto
  then have "(2 :: nat) ^ 24 \<le> 2 ^ 23 * 2 ^ nat (8 - e)" by simp
  then have "int m < int (2 ^ 23 * 2 ^ nat (8 - e))" using assms(1) by linarith
  moreover have "min 8 e = e" "min e 8 = e" using assms(2) by auto
  ultimately show "\<not> f32_lt (f32_of_int 2147483647) (Fin s m e)"
    "\<not> f32_lt (Fin s m e) (f32_of_int (- 2147483648))"
    by (auto simp: f32_lt_def f32_int_limits sgn_of_def Let_def)
qed

lemma f32_of_int_in_range:
  assumes "\<bar>i\<bar> < 2 ^ 24"
  shows "\<not> f32_is_nan (f32_of_int i)" "\<not> f32_lt (f32_of_int 2147483647) (f32_of_int i)"
    "\<not> f32_lt (f32_of_int i) (f32_of_int (- 2147483648))"
proof -
  obtain s m e where f: "f32_of_int i = Fin s m e" "m < 2 ^ 24" "e \<le> 0"
  proof (cases "i = 0")
    case True
    then have "f32_of_int i = Fin False 0 (- 149)" by (simp add: f32_of_int_def f32_round_def)
    then show ?thesis using that [of False 0 "- 149"] by simp
  next
    case False
    with f32_of_int_exact [OF assms] that show ?thesis by fastforce
  qed
  then show "\<not> f32_is_nan (f32_of_int i)" "\<not> f32_lt (f32_of_int 2147483647) (f32_of_int i)"
    "\<not> f32_lt (f32_of_int i) (f32_of_int (- 2147483648))"
    using f32_within_limits by (simp_all add: f32_is_nan_def)
qed

section \<open>Properties\<close>

text \<open>a register that is read as a float and written back keeps its 32 bits, NaN payloads included.\<close>

theorem float_bits_round_trip: "f32_as_reg (reg_as_f32 b) = b"
  by (rule f32_as_reg_of_reg)

end
