(* ===== verification/Cpu.thy ===== *)
theory Cpu
  imports Io Float32
begin

text \<open>
  The instruction interpreter of \<open>vm.c\<close>: flag updates, one definition per case of
  the switch in \<open>vm_instruction_case\<close>, the dispatcher, and one turn of a core's loop
  (\<open>vm_thread\<close>). Register numbers are bytes of the instruction word and the code
  does not compare them with \<open>REG_COUNT\<close>: \<open>rd_reg\<close> and \<open>wr_reg\<close> abort with
  \<open>Host_out_of_bounds\<close> where the C array would be overrun. \<open>int32_t\<close> sums and
  differences wrap. \<open>vm_debug_*\<close> calls are empty in the default build.
\<close>

section \<open>Registers and flags\<close>

definition rd_reg :: "nat \<Rightarrow> u8 \<Rightarrow> vm \<Rightarrow> vm_error + u32" where
  "rd_reg c i v =
     (if unat i < REG_COUNT then Inr (regs (cpus v c) (unat i)) else Inl (Host_out_of_bounds ''regs''))"

definition wr_reg :: "nat \<Rightarrow> u8 \<Rightarrow> u32 \<Rightarrow> vm \<Rightarrow> vm_error + vm" where
  "wr_reg c i x v =
     (if unat i < REG_COUNT
      then Inr (upd_cpu c (\<lambda>r. r\<lparr>regs := (regs r)(unat i := x)\<rparr>) v)
      else Inl (Host_out_of_bounds ''regs''))"

definition put_flag :: "u32 \<Rightarrow> bool \<Rightarrow> u32 \<Rightarrow> u32" where
  "put_flag m b f = (if b then f OR m else f AND NOT m)"

definition upd_flags :: "nat \<Rightarrow> (u32 \<Rightarrow> u32) \<Rightarrow> vm \<Rightarrow> vm" where
  "upd_flags c f = upd_cpu c (\<lambda>r. r\<lparr>flags := f (flags r)\<rparr>)"

definition set_ip :: "nat \<Rightarrow> u32 \<Rightarrow> vm \<Rightarrow> vm" where
  "set_ip c a = upd_cpu c (\<lambda>r. r\<lparr>ip := a\<rparr>)"

definition update_zf_sf :: "nat \<Rightarrow> u32 \<Rightarrow> vm \<Rightarrow> vm" where
  "update_zf_sf c res =
     upd_flags c (\<lambda>f. put_flag FLAG_SF (sint res < 0) (put_flag FLAG_ZF (res = 0) f))"

definition update_add_flags :: "nat \<Rightarrow> u32 \<Rightarrow> u32 \<Rightarrow> u32 \<Rightarrow> vm \<Rightarrow> vm" where
  "update_add_flags c a b res v =
     update_zf_sf c res
       (upd_flags c (\<lambda>f. put_flag FLAG_OF
            ((0 < sint a \<and> 0 < sint b \<and> sint res < 0) \<or> (sint a < 0 \<and> sint b < 0 \<and> 0 < sint res))
            (put_flag FLAG_CF (a + b < a) f)) v)"

definition update_sub_flags :: "nat \<Rightarrow> u32 \<Rightarrow> u32 \<Rightarrow> u32 \<Rightarrow> vm \<Rightarrow> vm" where
  "update_sub_flags c a b res v =
     update_zf_sf c res
       (upd_flags c (\<lambda>f. put_flag FLAG_OF
            ((0 < sint a \<and> sint b < 0 \<and> sint res < 0) \<or> (sint a < 0 \<and> 0 < sint b \<and> 0 < sint res))
            (put_flag FLAG_CF (a < b) f)) v)"

definition clear_cf_of :: "nat \<Rightarrow> vm \<Rightarrow> vm" where
  "clear_cf_of c = upd_flags c (\<lambda>f. f AND NOT (FLAG_CF OR FLAG_OF))"

definition update_logic_flags :: "nat \<Rightarrow> u32 \<Rightarrow> vm \<Rightarrow> vm" where
  "update_logic_flags c res v = update_zf_sf c res (clear_cf_of c v)"

definition set_cas_flags :: "nat \<Rightarrow> bool \<Rightarrow> vm \<Rightarrow> vm" where
  "set_cas_flags c success =
     upd_flags c (\<lambda>f. let f = f AND NOT (FLAG_ZF OR FLAG_SF OR FLAG_CF OR FLAG_OF) in
       if success then f OR FLAG_ZF else f)"

definition clear_all_flags :: "nat \<Rightarrow> vm \<Rightarrow> vm" where
  "clear_all_flags c = upd_flags c (\<lambda>f. f AND NOT (FLAG_ZF OR FLAG_SF OR FLAG_CF OR FLAG_OF))"

definition update_fcmp_flags :: "nat \<Rightarrow> f32 \<Rightarrow> f32 \<Rightarrow> vm \<Rightarrow> vm" where
  "update_fcmp_flags c a b v =
     (let v = clear_all_flags c v in
      if f32_is_nan a \<or> f32_is_nan b then upd_flags c (\<lambda>f. f OR FLAG_OF) v
      else
        let v = (if f32_eq a b then upd_flags c (\<lambda>f. f OR FLAG_ZF) v else v);
            v = (if f32_lt a b then upd_flags c (\<lambda>f. f OR FLAG_SF) v else v) in
        if f32_lt b a then upd_flags c (\<lambda>f. f OR FLAG_CF) v else v)"

definition ensure_atomic_aligned_or_panic :: "vm \<Rightarrow> u32 \<Rightarrow> string \<Rightarrow> vm_error + vm" where
  "ensure_atomic_aligned_or_panic v addr op_name =
     (if addr AND 3 \<noteq> 0 then Inl (Panic_atomic_unaligned op_name addr) else Inr v)"

definition rel_target_from_last_ip :: "vcpu \<Rightarrow> u32 \<Rightarrow> u32" where
  "rel_target_from_last_ip r imm = of_int (int (unat (last_ip r)) + sint imm)"

definition rotl32 :: "u32 \<Rightarrow> u32 \<Rightarrow> u32" where
  "rotl32 x sh =
     (let sh = sh AND 31 in
      if sh = 0 then x else push_bit (unat sh) x OR drop_bit (unat (32 - sh)) x)"

definition rotr32 :: "u32 \<Rightarrow> u32 \<Rightarrow> u32" where
  "rotr32 x sh =
     (let sh = sh AND 31 in
      if sh = 0 then x else drop_bit (unat sh) x OR push_bit (unat (32 - sh)) x)"

section \<open>Integer instructions\<close>

definition op_add :: "nat \<Rightarrow> inst \<Rightarrow> vm \<Rightarrow> vm_error + vm" where
  "op_add c i v =
     bind_res (rd_reg c (i_rs1 i) v) (\<lambda>a. bind_res (rd_reg c (i_rs2 i) v) (\<lambda>b.
     let res = a + b in
     bind_res (wr_reg c (i_rd i) res v) (\<lambda>v. Inr (update_add_flags c a b res v))))"

definition op_sub :: "nat \<Rightarrow> inst \<Rightarrow> vm \<Rightarrow> vm_error + vm" where
  "op_sub c i v =
     bind_res (rd_reg c (i_rs1 i) v) (\<lambda>a. bind_res (rd_reg c (i_rs2 i) v) (\<lambda>b.
     let res = a - b in
     bind_res (wr_reg c (i_rd i) res v) (\<lambda>v. Inr (update_sub_flags c a b res v))))"

text \<open>\<open>regs[rd] = f(regs[rs1], regs[rs2])\<close>, then \<open>update_logic_flags\<close> on the result.\<close>

definition alu_rr :: "(u32 \<Rightarrow> u32 \<Rightarrow> u32) \<Rightarrow> nat \<Rightarrow> inst \<Rightarrow> vm \<Rightarrow> vm_error + vm" where
  "alu_rr f c i v =
     bind_res (rd_reg c (i_rs1 i) v) (\<lambda>a. bind_res (rd_reg c (i_rs2 i) v) (\<lambda>b.
     bind_res (wr_reg c (i_rd i) (f a b) v) (\<lambda>v. Inr (update_logic_flags c (f a b) v))))"

definition alu_ri :: "(u32 \<Rightarrow> u32 \<Rightarrow> u32) \<Rightarrow> nat \<Rightarrow> inst \<Rightarrow> vm \<Rightarrow> vm_error + vm" where
  "alu_ri f c i v =
     bind_res (rd_reg c (i_rs1 i) v) (\<lambda>a.
     bind_res (wr_reg c (i_rd i) (f a (i_imm i)) v) (\<lambda>v. Inr (update_logic_flags c (f a (i_imm i)) v)))"

definition shl32 :: "u32 \<Rightarrow> u32 \<Rightarrow> u32" where
  "shl32 a b = push_bit (unat (b AND 31)) a"

definition shr32 :: "u32 \<Rightarrow> u32 \<Rightarrow> u32" where
  "shr32 a b = drop_bit (unat (b AND 31)) a"

definition op_mul :: "nat \<Rightarrow> inst \<Rightarrow> vm \<Rightarrow> vm_error + vm" where "op_mul = alu_rr (*)"
definition op_and :: "nat \<Rightarrow> inst \<Rightarrow> vm \<Rightarrow> vm_error + vm" where "op_and = alu_rr (AND)"
definition op_or :: "nat \<Rightarrow> inst \<Rightarrow> vm \<Rightarrow> vm_error + vm" where "op_or = alu_rr (OR)"
definition op_xor :: "nat \<Rightarrow> inst \<Rightarrow> vm \<Rightarrow> vm_error + vm" where "op_xor = alu_rr (XOR)"
definition op_shl :: "nat \<Rightarrow> inst \<Rightarrow> vm \<Rightarrow> vm_error + vm" where "op_shl = alu_rr shl32"
definition op_shr :: "nat \<Rightarrow> inst \<Rightarrow> vm \<Rightarrow> vm_error + vm" where "op_shr = alu_rr shr32"

text \<open>\<open>regs\<close> is an array of \<open>uint32_t\<close>, so the shift of \<open>OP_SAR\<close> is a logical one.\<close>

definition op_sar :: "nat \<Rightarrow> inst \<Rightarrow> vm \<Rightarrow> vm_error + vm" where
  "op_sar = alu_rr (\<lambda>a b. drop_bit (unat (b AND 31)) a)"

definition op_rol :: "nat \<Rightarrow> inst \<Rightarrow> vm \<Rightarrow> vm_error + vm" where
  "op_rol = alu_rr (\<lambda>a b. rotl32 a (b AND 31))"

definition op_ror :: "nat \<Rightarrow> inst \<Rightarrow> vm \<Rightarrow> vm_error + vm" where
  "op_ror = alu_rr (\<lambda>a b. rotr32 a (b AND 31))"

definition op_not :: "nat \<Rightarrow> inst \<Rightarrow> vm \<Rightarrow> vm_error + vm" where
  "op_not c i v =
     bind_res (rd_reg c (i_rs1 i) v) (\<lambda>a.
     bind_res (wr_reg c (i_rd i) (NOT a) v) (\<lambda>v. Inr (update_logic_flags c (NOT a) v)))"

definition op_div :: "nat \<Rightarrow> inst \<Rightarrow> vm \<Rightarrow> vm_error + vm" where
  "op_div c i v =
     bind_res (rd_reg c (i_rs2 i) v) (\<lambda>b.
     if b \<noteq> 0 then
       bind_res (rd_reg c (i_rs1 i) v) (\<lambda>a.
       bind_res (wr_reg c (i_rd i) (a div b) v) (\<lambda>v. Inr (update_logic_flags c (a div b) v)))
     else Inr (trigger_interrupt INT_DIVIDE_BY_ZERO v))"

definition op_mod :: "nat \<Rightarrow> inst \<Rightarrow> vm \<Rightarrow> vm_error + vm" where
  "op_mod c i v =
     bind_res (rd_reg c (i_rs2 i) v) (\<lambda>b.
     if b \<noteq> 0 then
       bind_res (rd_reg c (i_rs1 i) v) (\<lambda>a.
       bind_res (wr_reg c (i_rd i) (a mod b) v) (\<lambda>v. Inr (update_logic_flags c (a mod b) v)))
     else Inr (trigger_interrupt INT_DIVIDE_BY_ZERO v))"

definition op_inc :: "nat \<Rightarrow> inst \<Rightarrow> vm \<Rightarrow> vm_error + vm" where
  "op_inc c i v =
     bind_res (rd_reg c (i_rd i) v) (\<lambda>a.
     bind_res (wr_reg c (i_rd i) (a + 1) v) (\<lambda>v. Inr (update_add_flags c a 1 (a + 1) v)))"

definition op_cmp :: "nat \<Rightarrow> inst \<Rightarrow> vm \<Rightarrow> vm_error + vm" where
  "op_cmp c i v =
     bind_res (rd_reg c (i_rd i) v) (\<lambda>a. bind_res (rd_reg c (i_rs1 i) v) (\<lambda>b.
     Inr (update_sub_flags c a b (a - b) v)))"

definition op_cmpi :: "nat \<Rightarrow> inst \<Rightarrow> vm \<Rightarrow> vm_error + vm" where
  "op_cmpi c i v =
     bind_res (rd_reg c (i_rd i) v) (\<lambda>a. Inr (update_sub_flags c a (i_imm i) (a - i_imm i) v))"

definition op_mov :: "nat \<Rightarrow> inst \<Rightarrow> vm \<Rightarrow> vm_error + vm" where
  "op_mov c i v =
     bind_res (rd_reg c (i_rs1 i) v) (\<lambda>a.
     bind_res (wr_reg c (i_rd i) a v) (\<lambda>v. Inr (update_logic_flags c a v)))"

definition op_movi :: "nat \<Rightarrow> inst \<Rightarrow> vm \<Rightarrow> vm_error + vm" where
  "op_movi c i v = bind_res (wr_reg c (i_rd i) (i_imm i) v) (\<lambda>v. Inr (update_logic_flags c (i_imm i) v))"

definition op_addi :: "nat \<Rightarrow> inst \<Rightarrow> vm \<Rightarrow> vm_error + vm" where
  "op_addi c i v =
     bind_res (rd_reg c (i_rs1 i) v) (\<lambda>a. let res = a + i_imm i in
     bind_res (wr_reg c (i_rd i) res v) (\<lambda>v. Inr (update_add_flags c a (i_imm i) res v)))"

definition op_subi :: "nat \<Rightarrow> inst \<Rightarrow> vm \<Rightarrow> vm_error + vm" where
  "op_subi c i v =
     bind_res (rd_reg c (i_rs1 i) v) (\<lambda>a. let res = a - i_imm i in
     bind_res (wr_reg c (i_rd i) res v) (\<lambda>v. Inr (update_sub_flags c a (i_imm i) res v)))"

definition op_andi :: "nat \<Rightarrow> inst \<Rightarrow> vm \<Rightarrow> vm_error + vm" where "op_andi = alu_ri (AND)"
definition op_ori :: "nat \<Rightarrow> inst \<Rightarrow> vm \<Rightarrow> vm_error + vm" where "op_ori = alu_ri (OR)"
definition op_xori :: "nat \<Rightarrow> inst \<Rightarrow> vm \<Rightarrow> vm_error + vm" where "op_xori = alu_ri (XOR)"
definition op_shli :: "nat \<Rightarrow> inst \<Rightarrow> vm \<Rightarrow> vm_error + vm" where "op_shli = alu_ri shl32"
definition op_shri :: "nat \<Rightarrow> inst \<Rightarrow> vm \<Rightarrow> vm_error + vm" where "op_shri = alu_ri shr32"

definition op_roli :: "nat \<Rightarrow> inst \<Rightarrow> vm \<Rightarrow> vm_error + vm" where
  "op_roli = alu_ri (\<lambda>a b. rotl32 a (b AND 31))"

definition op_rori :: "nat \<Rightarrow> inst \<Rightarrow> vm \<Rightarrow> vm_error + vm" where
  "op_rori = alu_ri (\<lambda>a b. rotr32 a (b AND 31))"

section \<open>Control flow\<close>

definition op_halt :: "vm \<Rightarrow> vm_error + vm" where
  "op_halt v = Inr (v\<lparr>halted := True\<rparr>)"

definition op_jmp :: "nat \<Rightarrow> inst \<Rightarrow> vm \<Rightarrow> vm_error + vm" where
  "op_jmp c i v = Inr (set_ip c (i_imm i) v)"

definition op_rjmp :: "nat \<Rightarrow> inst \<Rightarrow> vm \<Rightarrow> vm_error + vm" where
  "op_rjmp c i v = Inr (set_ip c (rel_target_from_last_ip (cpus v c) (i_imm i)) v)"

definition jump_if :: "bool \<Rightarrow> nat \<Rightarrow> u32 \<Rightarrow> vm \<Rightarrow> vm_error + vm" where
  "jump_if b c a v = Inr (if b then set_ip c a v else v)"

definition op_jz :: "nat \<Rightarrow> inst \<Rightarrow> vm \<Rightarrow> vm_error + vm" where
  "op_jz c i v = jump_if (flags (cpus v c) AND FLAG_ZF \<noteq> 0) c (i_imm i) v"

definition op_rjz :: "nat \<Rightarrow> inst \<Rightarrow> vm \<Rightarrow> vm_error + vm" where
  "op_rjz c i v =
     jump_if (flags (cpus v c) AND FLAG_ZF \<noteq> 0) c (rel_target_from_last_ip (cpus v c) (i_imm i)) v"

definition op_jnz :: "nat \<Rightarrow> inst \<Rightarrow> vm \<Rightarrow> vm_error + vm" where
  "op_jnz c i v = jump_if (\<not> (flags (cpus v c) AND FLAG_ZF \<noteq> 0)) c (i_imm i) v"

definition op_rjnz :: "nat \<Rightarrow> inst \<Rightarrow> vm \<Rightarrow> vm_error + vm" where
  "op_rjnz c i v =
     jump_if (\<not> (flags (cpus v c) AND FLAG_ZF \<noteq> 0)) c (rel_target_from_last_ip (cpus v c) (i_imm i)) v"

text \<open>The conditions compare the masked words, not the truth values of the two flags.\<close>

definition op_jg :: "nat \<Rightarrow> inst \<Rightarrow> vm \<Rightarrow> vm_error + vm" where
  "op_jg c i v = (let f = flags (cpus v c) in
     jump_if (\<not> (f AND FLAG_ZF \<noteq> 0) \<and> f AND FLAG_SF = f AND FLAG_OF) c (i_imm i) v)"

definition op_jge :: "nat \<Rightarrow> inst \<Rightarrow> vm \<Rightarrow> vm_error + vm" where
  "op_jge c i v = (let f = flags (cpus v c) in
     jump_if (f AND FLAG_SF = f AND FLAG_OF) c (i_imm i) v)"

definition op_jl :: "nat \<Rightarrow> inst \<Rightarrow> vm \<Rightarrow> vm_error + vm" where
  "op_jl c i v = (let f = flags (cpus v c) in
     jump_if (f AND FLAG_SF \<noteq> f AND FLAG_OF) c (i_imm i) v)"

definition op_jle :: "nat \<Rightarrow> inst \<Rightarrow> vm \<Rightarrow> vm_error + vm" where
  "op_jle c i v = (let f = flags (cpus v c) in
     jump_if (f AND FLAG_ZF \<noteq> 0 \<or> f AND FLAG_SF \<noteq> f AND FLAG_OF) c (i_imm i) v)"

definition op_jc :: "nat \<Rightarrow> inst \<Rightarrow> vm \<Rightarrow> vm_error + vm" where
  "op_jc c i v = jump_if (flags (cpus v c) AND FLAG_CF \<noteq> 0) c (i_imm i) v"

definition op_jnc :: "nat \<Rightarrow> inst \<Rightarrow> vm \<Rightarrow> vm_error + vm" where
  "op_jnc c i v = jump_if (\<not> (flags (cpus v c) AND FLAG_CF \<noteq> 0)) c (i_imm i) v"

definition op_push :: "nat \<Rightarrow> inst \<Rightarrow> vm \<Rightarrow> vm_error + vm" where
  "op_push c i v = bind_res (rd_reg c (i_rd i) v) (\<lambda>x. data_push c x v)"

definition op_pop :: "host \<Rightarrow> nat \<Rightarrow> inst \<Rightarrow> vm \<Rightarrow> vm_error + vm" where
  "op_pop h c i v =
     bind_res (data_pop h c v) (\<lambda>(x, v).
     bind_res (wr_reg c (i_rd i) x v) (\<lambda>v. Inr (update_logic_flags c x v)))"

definition op_call :: "nat \<Rightarrow> inst \<Rightarrow> vm \<Rightarrow> vm_error + vm" where
  "op_call c i v = bind_res (call_push c (ucast (ip (cpus v c))) v) (\<lambda>v. Inr (set_ip c (i_imm i) v))"

definition op_rcall :: "nat \<Rightarrow> inst \<Rightarrow> vm \<Rightarrow> vm_error + vm" where
  "op_rcall c i v =
     bind_res (call_push c (ucast (ip (cpus v c))) v)
       (\<lambda>v. Inr (set_ip c (rel_target_from_last_ip (cpus v c) (i_imm i)) v))"

definition op_callr :: "nat \<Rightarrow> inst \<Rightarrow> vm \<Rightarrow> vm_error + vm" where
  "op_callr c i v =
     bind_res (call_push c (ucast (ip (cpus v c))) v)
       (\<lambda>v. bind_res (rd_reg c (i_rd i) v) (\<lambda>a. Inr (set_ip c a v)))"

definition op_ret :: "host \<Rightarrow> nat \<Rightarrow> vm \<Rightarrow> vm_error + vm" where
  "op_ret h c v = bind_res (call_pop h c v) (\<lambda>(a, v). Inr (set_ip c (ucast a) v))"

section \<open>Signed arithmetic on 32-bit words\<close>

lemma sint_bounds: "- 2147483648 \<le> sint (x :: u32)" "sint (x :: u32) < 2147483648"
  using sint_greater_eq [of x] sint_less [of x] by simp_all

lemma wrap32:
  assumes "- 4294967296 \<le> k" "k < 4294967296"
  shows "signed_take_bit 31 k = (if k < - 2147483648 then k + 4294967296
           else if 2147483648 \<le> k then k - 4294967296 else (k :: int))"
proof -
  have "signed_take_bit 31 k = (k + 2147483648) mod 4294967296 - 2147483648"
    by (simp add: signed_take_bit_eq_take_bit_shift take_bit_eq_mod)
  moreover have "(k + 2147483648) mod 4294967296 = k + 2147483648" if "- 2147483648 \<le> k" "k < 2147483648"
    using that by (simp add: mod_pos_pos_trivial)
  moreover have "(k + 2147483648) mod 4294967296 = k + 6442450944" if "k < - 2147483648"
    using that assms mod_add_self2 [of "k + 2147483648" 4294967296]
      mod_pos_pos_trivial [of "k + 6442450944" 4294967296] by simp
  moreover have "(k + 2147483648) mod 4294967296 = k - 2147483648" if "2147483648 \<le> k"
    using that assms minus_mod_self2 [of "k + 2147483648" 4294967296]
      mod_pos_pos_trivial [of "k - 2147483648" 4294967296] by simp
  ultimately show ?thesis by auto
qed

lemma sint_add: "sint (a + b :: u32) = (let k = sint a + sint b in
    if k < - 2147483648 then k + 4294967296 else if 2147483648 \<le> k then k - 4294967296 else k)"
  using wrap32 [of "sint a + sint b"] sint_bounds [of a] sint_bounds [of b]
  by (simp add: sint_word_ariths Let_def)

lemma sint_sub: "sint (a - b :: u32) = (let k = sint a - sint b in
    if k < - 2147483648 then k + 4294967296 else if 2147483648 \<le> k then k - 4294967296 else k)"
  using wrap32 [of "sint a - sint b"] sint_bounds [of a] sint_bounds [of b]
  by (simp add: sint_word_ariths Let_def)

section \<open>Flag bits\<close>

lemma flags_upd_flags [simp]: "flags (cpus (upd_flags c f v) c) = f (flags (cpus v c))"
  by (simp add: upd_flags_def)

lemma flag_mask_bits:
  "bit (0x01 :: u32) n \<longleftrightarrow> n = 0" "bit (0x08 :: u32) n \<longleftrightarrow> n = 3"
  "bit (0x10 :: u32) n \<longleftrightarrow> n = 4" "bit (0x20 :: u32) n \<longleftrightarrow> n = 5"
  using bit_exp_iff [where ?'a = "32 word", of 3 n] bit_exp_iff [where ?'a = "32 word", of 4 n]
    bit_exp_iff [where ?'a = "32 word", of 5 n]
  by (auto simp: bit_1_iff)

lemma bit_put_mask:
  assumes "\<And>n. bit m n \<longleftrightarrow> n = k"
  shows "bit (put_flag m b f) n \<longleftrightarrow> (if n = k then b else bit f n)"
proof -
  have "bit f n \<Longrightarrow> n < 32" "bit m n \<Longrightarrow> n < 32" using bit_imp_le_length [of f n] bit_imp_le_length [of m n] by auto
  then show ?thesis
    using assms [of n] by (auto simp: put_flag_def bit_and_iff bit_or_iff bit_not_iff)
qed

lemmas bit_put_flag =
  bit_put_mask [OF flag_mask_bits(1)] bit_put_mask [OF flag_mask_bits(2)]
  bit_put_mask [OF flag_mask_bits(3)] bit_put_mask [OF flag_mask_bits(4)]

text \<open>The flags after an addition and a subtraction, bit by bit.\<close>

lemma add_flag_bits:
  "bit (flags (cpus (update_add_flags c a b r v) c)) n \<longleftrightarrow>
     (if n = 0 then a + b < a
      else if n = 3 then r = 0
      else if n = 4 then sint r < 0
      else if n = 5 then (0 < sint a \<and> 0 < sint b \<and> sint r < 0) \<or> (sint a < 0 \<and> sint b < 0 \<and> 0 < sint r)
      else bit (flags (cpus v c)) n)"
  by (simp add: update_add_flags_def update_zf_sf_def bit_put_flag)

lemma sub_flag_bits:
  "bit (flags (cpus (update_sub_flags c a b r v) c)) n \<longleftrightarrow>
     (if n = 0 then a < b
      else if n = 3 then r = 0
      else if n = 4 then sint r < 0
      else if n = 5 then (0 < sint a \<and> sint b < 0 \<and> sint r < 0) \<or> (sint a < 0 \<and> 0 < sint b \<and> 0 < sint r)
      else bit (flags (cpus v c)) n)"
  by (simp add: update_sub_flags_def update_zf_sf_def bit_put_flag)

section \<open>Properties\<close>

lemma carry_add: "(a + b < (a :: u32)) \<longleftrightarrow> 4294967296 \<le> unat a + unat b"
proof -
  have "unat a < 4294967296" "unat b < 4294967296"
    using unsigned_less [of a, where ?'a = nat] unsigned_less [of b, where ?'a = nat] by simp_all
  moreover have "unat (a + b) = (unat a + unat b) mod 4294967296" by (simp add: unat_word_ariths)
  moreover have "(unat a + unat b) mod 4294967296 =
      (if unat a + unat b < 4294967296 then unat a + unat b else unat a + unat b - 4294967296)"
    using calculation(1,2) by (simp add: mod_if)
  ultimately show ?thesis unfolding word_less_nat_alt by (simp split: if_splits)
qed

lemma sint_eq_min: "(x :: u32) = 0x80000000 \<longleftrightarrow> sint x = - 2147483648"
proof -
  have "sint (0x80000000 :: u32) = - 2147483648" by simp
  then show ?thesis by (metis signed_word_eqI)
qed

text \<open>after an addition the carry flag is the unsigned carry, the zero and sign flags describe the
  result, and the overflow flag is the signed overflow except for the sum of two \<open>INT_MIN\<close>, which the code
  does not report.\<close>

theorem add_flags_exact:
  "let f = flags (cpus (update_add_flags c a b (a + b) v) c) in
     (f AND FLAG_CF \<noteq> 0 \<longleftrightarrow> 2 ^ 32 \<le> unat a + unat b)
     \<and> (f AND FLAG_ZF \<noteq> 0 \<longleftrightarrow> a + b = 0)
     \<and> (f AND FLAG_SF \<noteq> 0 \<longleftrightarrow> sint (a + b) < 0)
     \<and> (f AND FLAG_OF \<noteq> 0 \<longleftrightarrow> (sint a + sint b < - (2 ^ 31) \<or> 2 ^ 31 \<le> sint a + sint b)
                            \<and> \<not> (a = 0x80000000 \<and> b = 0x80000000))"
proof -
  have "(0 < sint a \<and> 0 < sint b \<and> sint (a + b) < 0) \<or> (sint a < 0 \<and> sint b < 0 \<and> 0 < sint (a + b))
    \<longleftrightarrow> (sint a + sint b < - 2147483648 \<or> 2147483648 \<le> sint a + sint b)
       \<and> \<not> (sint a = - 2147483648 \<and> sint b = - 2147483648)"
    using sint_bounds [of a] sint_bounds [of b] by (auto simp: sint_add Let_def)
  then show ?thesis by (simp add: Let_def add_flag_bits carry_add sint_eq_min)
qed

text \<open>C36: after a comparison \<open>CMP a, b\<close> the zero flag is equality and the carry flag is \<open>a < b\<close> unsigned;
  the signed jumps decide \<open>a < b\<close> correctly except when \<open>a - b\<close> overflows upwards, where \<open>JL\<close> and \<open>JLE\<close> jump
  although \<open>a > b\<close>, and \<open>JG\<close> and \<open>JGE\<close> do not.\<close>

theorem jumps_after_cmp:
  assumes "unat (i_rd i) < REG_COUNT" "unat (i_rs1 i) < REG_COUNT"
    and "a = regs (cpus v c) (unat (i_rd i))" "b = regs (cpus v c) (unat (i_rs1 i))"
    and "w = update_sub_flags c a b (a - b) v"
    and "lt = (sint a < sint b \<or> 2 ^ 31 \<le> sint a - sint b)"
  shows "bind_res (op_cmp c i v) (op_jl c j) = Inr (if lt then set_ip c (i_imm j) w else w)
     \<and> bind_res (op_cmp c i v) (op_jge c j) = Inr (if \<not> lt then set_ip c (i_imm j) w else w)
     \<and> bind_res (op_cmp c i v) (op_jle c j) = Inr (if lt \<or> a = b then set_ip c (i_imm j) w else w)
     \<and> bind_res (op_cmp c i v) (op_jg c j) = Inr (if \<not> lt \<and> a \<noteq> b then set_ip c (i_imm j) w else w)
     \<and> bind_res (op_cmp c i v) (op_jz c j) = Inr (if a = b then set_ip c (i_imm j) w else w)
     \<and> bind_res (op_cmp c i v) (op_jc c j) = Inr (if a < b then set_ip c (i_imm j) w else w)"
proof -
  let ?f = "flags (cpus w c)"
  have cmp: "op_cmp c i v = Inr w" using assms by (simp add: op_cmp_def rd_reg_def)
  have "?f AND FLAG_SF = ?f AND FLAG_OF \<longleftrightarrow> \<not> bit ?f 4 \<and> \<not> bit ?f 5"
  proof -
    have "?f AND FLAG_SF = ?f AND FLAG_OF \<longleftrightarrow> ?f AND FLAG_SF = 0 \<and> ?f AND FLAG_OF = 0"
    proof
      assume eq: "?f AND FLAG_SF = ?f AND FLAG_OF"
      have "(?f AND FLAG_OF) AND FLAG_OF = (?f AND FLAG_SF) AND FLAG_OF" by (simp only: eq)
      then have "?f AND FLAG_OF = 0" by (simp add: and.assoc)
      then show "?f AND FLAG_SF = 0 \<and> ?f AND FLAG_OF = 0" using eq by (simp add: and.assoc)
    next
      assume z: "?f AND FLAG_SF = 0 \<and> ?f AND FLAG_OF = 0"
      show "?f AND FLAG_SF = ?f AND FLAG_OF" by (rule trans [OF conjunct1 [OF z] conjunct2 [OF z, symmetric]])
    qed
    then show ?thesis by simp
  qed
  moreover have "bit ?f 4 \<or> bit ?f 5 \<longleftrightarrow> lt"
    unfolding assms(5,6) sub_flag_bits using sint_bounds [of a] sint_bounds [of b]
    by (auto simp: sint_sub Let_def)
  ultimately have sl: "?f AND FLAG_SF = ?f AND FLAG_OF \<longleftrightarrow> \<not> lt" by blast
  have z: "?f AND FLAG_ZF \<noteq> 0 \<longleftrightarrow> a = b" and cf: "?f AND FLAG_CF \<noteq> 0 \<longleftrightarrow> a < b"
    unfolding assms(5) by (simp_all add: sub_flag_bits)
  show ?thesis
    unfolding cmp bind_res_simps op_jl_def op_jge_def op_jle_def op_jg_def op_jz_def op_jc_def Let_def
      jump_if_def sl z cf by auto
qed

abbreviation (input) demo_cmp :: "u32 \<Rightarrow> u32 \<Rightarrow> vm" where
  "demo_cmp x y \<equiv> demo_vm\<lparr>cpus := \<lambda>_. vcpu_zero\<lparr>regs := (\<lambda>_. 0)(1 := x, 2 := y)\<rparr>\<rparr>"

abbreviation (input) inst_12 :: "u32 \<Rightarrow> inst" where
  "inst_12 a \<equiv> \<lparr>i_op = 0, i_rd = 1, i_rs1 = 2, i_rs2 = 0, i_imm = a\<rparr>"

theorem jumps_after_cmp_witness:
  "bind_res (op_cmp 0 (inst_12 0) (demo_cmp 0x7FFFFFFF 0xFFFFFFFF)) (op_jl 0 (inst_12 64))
     = Inr (set_ip 0 64 (update_sub_flags 0 0x7FFFFFFF 0xFFFFFFFF (0x7FFFFFFF - 0xFFFFFFFF) (demo_cmp 0x7FFFFFFF 0xFFFFFFFF)))
   \<and> bind_res (op_cmp 0 (inst_12 0) (demo_cmp 3 5)) (op_jl 0 (inst_12 64))
     = Inr (set_ip 0 64 (update_sub_flags 0 3 5 (3 - 5) (demo_cmp 3 5)))"
  using jumps_after_cmp [of "inst_12 0" "0x7FFFFFFF" "demo_cmp 0x7FFFFFFF 0xFFFFFFFF" 0 "0xFFFFFFFF" _ True "inst_12 64", OF _ _ _ _ refl]
    jumps_after_cmp [of "inst_12 0" 3 "demo_cmp 3 5" 0 5 _ True "inst_12 64", OF _ _ _ _ refl]
  by simp

lemma and_31: "unat ((s :: u32) AND 31) = unat s mod 32"
proof -
  have "(31 :: u32) = mask 5" by (simp add: mask_eq_exp_minus_1)
  then have "s AND 31 = take_bit 5 s" by (simp only: take_bit_eq_mask)
  then show ?thesis by (simp add: take_bit_eq_mod unat_mod)
qed

lemma shift_complement:
  assumes "s AND 31 \<noteq> (0 :: u32)"
  shows "unat (32 - (s AND 31)) = 32 - unat s mod 32" "0 < unat s mod 32"
proof -
  show "0 < unat s mod 32" using assms and_31 [of s] by (metis gr0I unat_eq_0)
  have "s AND 31 \<le> 32" using and_31 [of s] by (simp add: word_le_nat_alt less_imp_le)
  then show "unat (32 - (s AND 31)) = 32 - unat s mod 32" using and_31 [of s] by (simp add: unat_sub)
qed

lemma rotl32_word_rotl: "rotl32 x s = word_rotl (unat s) x"
proof (rule bit_word_eqI, goal_cases)
  case (1 n)
  then have n: "n < 32" by simp
  let ?k = "unat s mod 32"
  have rot: "bit (word_rotl (unat s) x) n \<longleftrightarrow> bit x ((n + (32 - ?k)) mod 32)"
    using n by (simp add: bit_word_rotl_iff)
  show ?case
  proof (cases "s AND 31 = 0")
    case True
    then have "?k = 0" using and_31 [of s] by simp
    then show ?thesis using True n rot by (simp add: rotl32_def)
  next
    case False
    note k = shift_complement [OF False]
    have "rotl32 x s = push_bit ?k x OR drop_bit (32 - ?k) x"
      using False by (simp add: rotl32_def Let_def k and_31)
    moreover have "(n + (32 - ?k)) mod 32 = (if ?k \<le> n then n - ?k else n + (32 - ?k))"
      using n k(2) mod_wrap [of "n + (32 - ?k)" 32] by auto
    ultimately show ?thesis using n rot by (auto simp: bit_simps add.commute dest: bit_imp_le_length)
  qed
qed

lemma rotr32_word_rotr: "rotr32 x s = word_rotr (unat s) x"
proof (rule bit_word_eqI, goal_cases)
  case (1 n)
  then have n: "n < 32" by simp
  let ?k = "unat s mod 32"
  have "bit (word_rotr (unat s) x) n \<longleftrightarrow> bit x ((n + unat s) mod 32)"
    using n by (simp add: bit_word_rotr_iff)
  then have rot: "bit (word_rotr (unat s) x) n \<longleftrightarrow> bit x ((n + ?k) mod 32)"
    by (simp add: mod_simps)
  show ?case
  proof (cases "s AND 31 = 0")
    case True
    then have "?k = 0" using and_31 [of s] by simp
    then show ?thesis using True n rot by (simp add: rotr32_def)
  next
    case False
    note k = shift_complement [OF False]
    have "rotr32 x s = drop_bit ?k x OR push_bit (32 - ?k) x"
      using False by (simp add: rotr32_def Let_def k and_31)
    moreover have "?k < 32" by simp
    then have "(n + ?k) mod 32 = (if n + ?k < 32 then n + ?k else n - (32 - ?k))"
      using n mod_wrap [of "n + ?k" 32] by auto
    ultimately show ?thesis using n rot by (auto simp: bit_simps add.commute dest: bit_imp_le_length)
  qed
qed

text \<open>the rotations are the word rotations by the shift amount, and inverse to each other.\<close>

theorem rotations_correct:
  "rotl32 x s = word_rotl (unat s) x \<and> rotr32 x s = word_rotr (unat s) x
   \<and> rotr32 (rotl32 x s) s = x \<and> rotl32 (rotr32 x s) s = x"
  by (simp add: rotl32_word_rotl rotr32_word_rotr)

text \<open>\<open>SAR\<close> does what \<open>SHR\<close> does for every machine state: the shift of a negative register is a
  logical one, and differs from the arithmetic shift that the instruction set document promises.\<close>

theorem sar_is_logical:
  "op_sar c i v = op_shr c i v \<and> drop_bit 1 (0x80000000 :: u32) \<noteq> signed_drop_bit 1 0x80000000"
proof -
  have "bit (0x80000000 :: u32) 31" using bit_exp_iff [where ?'a = "32 word", of 31 31] by simp
  then have "bit (signed_drop_bit 1 (0x80000000 :: u32)) 31" "\<not> bit (drop_bit 1 (0x80000000 :: u32)) 31"
    by (simp_all add: bit_signed_drop_bit_iff bit_drop_bit_eq)
  then have ne: "drop_bit 1 (0x80000000 :: u32) \<noteq> signed_drop_bit 1 0x80000000" by metis
  have eq: "op_sar = op_shr" by (simp add: op_sar_def op_shr_def shr32_def [abs_def])
  show ?thesis unfolding eq by (rule conjI [OF refl ne])
qed

text \<open>division by zero changes no register and no flag; it makes interrupt 1 pending on core 0,
  whichever core divides.\<close>

theorem division_by_zero_interrupts_core_0:
  assumes "unat (i_rs2 i) < REG_COUNT" "regs (cpus v c) (unat (i_rs2 i)) = 0" "0 < smp_cores v"
  shows "op_div c i v = op_mod c i v
     \<and> (\<exists>w. op_div c i v = Inr w \<and> cpus w = cpus v \<and> memory w = memory v \<and> pending w 0 1
            \<and> (\<forall>k n. n < 256 \<and> \<not> (k = 0 \<and> n = 1) \<longrightarrow> pending w k n = pending v k n))"
  using assms pending_trigger [of 0 v 1]
  by (auto simp: op_div_def op_mod_def rd_reg_def trigger_interrupt_def)

theorem division_by_zero_interrupts_core_0_witness:
  "\<exists>w. op_div 3 (inst_12 0) demo_vm = Inr w \<and> pending w 0 1 \<and> \<not> pending w 3 1"
proof -
  have "unat (i_rs2 (inst_12 0)) < 32" "regs (cpus demo_vm 3) (unat (i_rs2 (inst_12 0))) = 0" "0 < smp_cores demo_vm"
    by (simp_all add: vcpu_zero_def)
  from division_by_zero_interrupts_core_0 [OF this] obtain w where
    w: "op_div 3 (inst_12 0) demo_vm = Inr w" "pending w 0 1"
      "\<forall>k n. n < 256 \<and> \<not> (k = 0 \<and> n = 1) \<longrightarrow> pending w k n = pending demo_vm k n" by blast
  moreover have "pending w 3 1 = pending demo_vm 3 1" using w(3) by simp
  ultimately have "op_div 3 (inst_12 0) demo_vm = Inr w \<and> pending w 0 1 \<and> pending w 3 1 = pending demo_vm 3 1" by blast
  then show ?thesis by (simp add: pending_def)
qed

end
