(* ===== verification/Exec.thy ===== *)
theory Exec
  imports Cpu
begin

text \<open>
  The rest of the switch of \<open>vm_instruction_case\<close> (memory, port, interrupt, floating
  point, atomic and multi-core instructions), the instruction fetch of \<open>fetch.h\<close>,
  the dispatcher, and one turn of the loop of \<open>vm_thread\<close> for a core. The batched
  cycle counter of \<open>vm_thread\<close> is kept per core beside the machine.
\<close>

section \<open>Memory instructions\<close>

definition op_load :: "nat \<Rightarrow> inst \<Rightarrow> vm \<Rightarrow> vm_error + vm" where
  "op_load c i v =
     bind_res (rd_reg c (i_rs1 i) v) (\<lambda>a.
     bind_res (vm_read8 v (a + i_imm i)) (\<lambda>x.
     bind_res (wr_reg c (i_rd i) (ucast x) v) (\<lambda>v. Inr (update_zf_sf c (ucast x) v))))"

definition op_load32 :: "host \<Rightarrow> nat \<Rightarrow> inst \<Rightarrow> vm \<Rightarrow> vm_error + vm" where
  "op_load32 h c i v =
     bind_res (rd_reg c (i_rs1 i) v) (\<lambda>a.
     bind_res (vm_read32 h v (a + i_imm i)) (\<lambda>(x, v).
     bind_res (wr_reg c (i_rd i) x v) (\<lambda>v. Inr (update_logic_flags c x v))))"

definition op_loadx32 :: "host \<Rightarrow> nat \<Rightarrow> inst \<Rightarrow> vm \<Rightarrow> vm_error + vm" where
  "op_loadx32 h c i v =
     bind_res (rd_reg c (i_rs1 i) v) (\<lambda>a. bind_res (rd_reg c (i_rs2 i) v) (\<lambda>b.
     bind_res (vm_read32 h v (a + b + i_imm i)) (\<lambda>(x, v).
     bind_res (wr_reg c (i_rd i) x v) (\<lambda>v. Inr (update_logic_flags c x v)))))"

definition op_store :: "nat \<Rightarrow> inst \<Rightarrow> vm \<Rightarrow> vm_error + vm" where
  "op_store c i v =
     bind_res (rd_reg c (i_rs1 i) v) (\<lambda>a. bind_res (rd_reg c (i_rd i) v) (\<lambda>x.
     vm_write8 v (a + i_imm i) (ucast x)))"

definition op_store32 :: "nat \<Rightarrow> inst \<Rightarrow> vm \<Rightarrow> vm_error + vm" where
  "op_store32 c i v =
     bind_res (rd_reg c (i_rs1 i) v) (\<lambda>a. bind_res (rd_reg c (i_rd i) v) (\<lambda>x.
     vm_write32 v (a + i_imm i) x))"

definition op_storex32 :: "nat \<Rightarrow> inst \<Rightarrow> vm \<Rightarrow> vm_error + vm" where
  "op_storex32 c i v =
     bind_res (rd_reg c (i_rs1 i) v) (\<lambda>a. bind_res (rd_reg c (i_rs2 i) v) (\<lambda>b.
     bind_res (rd_reg c (i_rd i) v) (\<lambda>x. vm_write32 v (a + b + i_imm i) x)))"

fun memset_loop :: "nat \<Rightarrow> u32 \<Rightarrow> u8 \<Rightarrow> vm \<Rightarrow> vm_error + vm" where
  "memset_loop 0 a x v = Inr v"
| "memset_loop (Suc n) a x v = bind_res (vm_write8 v a x) (memset_loop n (a + 1) x)"

definition op_memset :: "nat \<Rightarrow> inst \<Rightarrow> vm \<Rightarrow> vm_error + vm" where
  "op_memset c i v =
     bind_res (rd_reg c (i_rd i) v) (\<lambda>base. bind_res (rd_reg c (i_rs1 i) v) (\<lambda>x.
     memset_loop (unat (i_imm i)) base (ucast x) v))"

fun memcpy_loop :: "nat \<Rightarrow> u32 \<Rightarrow> u32 \<Rightarrow> vm \<Rightarrow> vm_error + vm" where
  "memcpy_loop 0 d s v = Inr v"
| "memcpy_loop (Suc n) d s v =
     bind_res (vm_read8 v s) (\<lambda>x. bind_res (vm_write8 v d x) (memcpy_loop n (d + 1) (s + 1)))"

definition op_memcpy :: "nat \<Rightarrow> inst \<Rightarrow> vm \<Rightarrow> vm_error + vm" where
  "op_memcpy c i v =
     bind_res (rd_reg c (i_rd i) v) (\<lambda>dest. bind_res (rd_reg c (i_rs1 i) v) (\<lambda>src.
     memcpy_loop (unat (i_imm i)) dest src v))"

section \<open>Ports and interrupts\<close>

definition op_in :: "nat \<Rightarrow> inst \<Rightarrow> vm \<Rightarrow> vm_error + vm" where
  "op_in c i v =
     bind_res (rd_reg c (i_rs1 i) v) (\<lambda>a.
     let addr = sint a in
     if 0 \<le> addr \<and> addr < int IO_SIZE then
       let p = nat addr in
       if p = CPU_CTX_CSP then wr_reg c (i_rd i) (of_int (csp (cpus v c))) v
       else if p = CPU_CTX_DSP then wr_reg c (i_rd i) (of_int (dsp (cpus v c))) v
       else if p = CPU_CTX_IRQ_MASK then wr_reg c (i_rd i) (if irq_masked (cpus v c) then 1 else 0) v
       else if p = KEYBOARD then (case serial_rx_read v of (x, v) \<Rightarrow> wr_reg c (i_rd i) x v)
       else if p = SCREEN_ATTRIBUTE then wr_reg c (i_rd i) (io v SCREEN_ATTRIBUTE AND 0xFF) v
       else wr_reg c (i_rd i) (io v p) v
     else Inl (Panic_in addr))"

definition op_out :: "nat \<Rightarrow> inst \<Rightarrow> vm \<Rightarrow> vm_error + vm" where
  "op_out c i v =
     bind_res (rd_reg c (i_rs1 i) v) (\<lambda>a.
     let addr = sint a in
     if 0 \<le> addr \<and> addr < int IO_SIZE then
       bind_res (rd_reg c (i_rd i) v) (\<lambda>x.
       let p = nat addr; y = sint x in
       if p = CPU_CTX_CSP then
         Inr (if 0 \<le> y \<and> y \<le> CALL_STACK_SIZE then upd_cpu c (\<lambda>r. r\<lparr>csp := y\<rparr>) v else v)
       else if p = CPU_CTX_DSP then
         Inr (if 0 \<le> y \<and> y \<le> DATA_STACK_SIZE then upd_cpu c (\<lambda>r. r\<lparr>dsp := y\<rparr>) v else v)
       else if p = CPU_CTX_IRQ_MASK then Inr (upd_cpu c (\<lambda>r. r\<lparr>irq_masked := x \<noteq> 0\<rparr>) v)
       else Inr (accept_io addr x v))
     else Inl (Panic_out addr))"

definition op_int :: "host \<Rightarrow> nat \<Rightarrow> inst \<Rightarrow> vm \<Rightarrow> vm_error + vm" where
  "op_int h c i v = bind_res (rd_reg c (i_rd i) v) (\<lambda>n. vm_enter_interrupt h c n v)"

definition op_iret :: "host \<Rightarrow> nat \<Rightarrow> vm \<Rightarrow> vm_error + vm" where
  "op_iret h c v = vm_iret h c v"

section \<open>Floating point\<close>

definition float_sign_arg :: "f32 \<Rightarrow> u32" where
  "float_sign_arg r = (if f32_eq r f32_zero then 0 else if f32_lt r f32_zero then - 1 else 1)"

definition op_f2 :: "(f32 \<Rightarrow> f32 \<Rightarrow> f32) \<Rightarrow> nat \<Rightarrow> inst \<Rightarrow> vm \<Rightarrow> vm_error + vm" where
  "op_f2 f c i v =
     bind_res (rd_reg c (i_rs1 i) v) (\<lambda>a. bind_res (rd_reg c (i_rs2 i) v) (\<lambda>b.
     let r = f (reg_as_f32 a) (reg_as_f32 b) in
     bind_res (wr_reg c (i_rd i) (f32_as_reg r) v) (\<lambda>v. Inr (update_logic_flags c (float_sign_arg r) v))))"

definition op_fadd :: "host \<Rightarrow> nat \<Rightarrow> inst \<Rightarrow> vm \<Rightarrow> vm_error + vm" where
  "op_fadd h = op_f2 (f32_add (nan_result h))"
definition op_fsub :: "host \<Rightarrow> nat \<Rightarrow> inst \<Rightarrow> vm \<Rightarrow> vm_error + vm" where
  "op_fsub h = op_f2 (f32_sub (nan_result h))"
definition op_fmul :: "host \<Rightarrow> nat \<Rightarrow> inst \<Rightarrow> vm \<Rightarrow> vm_error + vm" where
  "op_fmul h = op_f2 (f32_mul (nan_result h))"
definition op_fdiv :: "host \<Rightarrow> nat \<Rightarrow> inst \<Rightarrow> vm \<Rightarrow> vm_error + vm" where
  "op_fdiv h = op_f2 (f32_div (nan_result h))"

definition op_fneg :: "nat \<Rightarrow> inst \<Rightarrow> vm \<Rightarrow> vm_error + vm" where
  "op_fneg c i v =
     bind_res (rd_reg c (i_rs1 i) v) (\<lambda>a. let r = f32_neg (reg_as_f32 a) in
     bind_res (wr_reg c (i_rd i) (f32_as_reg r) v) (\<lambda>v. Inr (update_logic_flags c (float_sign_arg r) v)))"

definition op_fabs :: "nat \<Rightarrow> inst \<Rightarrow> vm \<Rightarrow> vm_error + vm" where
  "op_fabs c i v =
     bind_res (rd_reg c (i_rs1 i) v) (\<lambda>a. let r = f32_abs (reg_as_f32 a) in
     bind_res (wr_reg c (i_rd i) (f32_as_reg r) v)
       (\<lambda>v. Inr (update_logic_flags c (if f32_eq r f32_zero then 0 else 1) v)))"

definition op_fsqrt :: "host \<Rightarrow> nat \<Rightarrow> inst \<Rightarrow> vm \<Rightarrow> vm_error + vm" where
  "op_fsqrt h c i v =
     bind_res (rd_reg c (i_rs1 i) v) (\<lambda>a. let r = f32_sqrt (nan_result h) (reg_as_f32 a) in
     bind_res (wr_reg c (i_rd i) (f32_as_reg r) v) (\<lambda>v. Inr (update_logic_flags c (float_sign_arg r) v)))"

definition op_itof :: "nat \<Rightarrow> inst \<Rightarrow> vm \<Rightarrow> vm_error + vm" where
  "op_itof c i v =
     bind_res (rd_reg c (i_rs1 i) v) (\<lambda>a. let f = f32_of_int (sint a) in
     bind_res (wr_reg c (i_rd i) (f32_as_reg f) v) (\<lambda>v. Inr (update_logic_flags c (float_sign_arg f) v)))"

text \<open>The constant \<open>2147483647.0f\<close> is the nearest float, \<open>2\<^sup>3\<^sup>1\<close>; a value outside \<open>int32_t\<close> that
  passes the test is undefined behaviour of the conversion.\<close>

definition op_ftoi :: "nat \<Rightarrow> inst \<Rightarrow> vm \<Rightarrow> vm_error + vm" where
  "op_ftoi c i v =
     bind_res (rd_reg c (i_rs1 i) v) (\<lambda>a. let f = reg_as_f32 a in
     if f32_is_nan f \<or> f32_lt (f32_of_int 2147483647) f \<or> f32_lt f (f32_of_int (- 2147483648)) then
       bind_res (wr_reg c (i_rd i) 0 v) (\<lambda>v.
       Inr (upd_flags c (\<lambda>f. (f OR FLAG_OF) AND NOT (FLAG_ZF OR FLAG_SF OR FLAG_CF)) v))
     else
       let n = f32_trunc f in
       if n < - 2147483648 \<or> 2147483647 < n then Inl (Host_out_of_bounds ''float to int32'')
       else bind_res (wr_reg c (i_rd i) (of_int n) v) (\<lambda>v. Inr (update_logic_flags c (of_int n) v)))"

definition op_fload32 :: "host \<Rightarrow> nat \<Rightarrow> inst \<Rightarrow> vm \<Rightarrow> vm_error + vm" where
  "op_fload32 h c i v =
     bind_res (rd_reg c (i_rs1 i) v) (\<lambda>a.
     bind_res (vm_read32 h v (a + i_imm i)) (\<lambda>(x, v).
     bind_res (wr_reg c (i_rd i) x v) (\<lambda>v. Inr (update_logic_flags c (float_sign_arg (reg_as_f32 x)) v))))"

definition op_fstore32 :: "nat \<Rightarrow> inst \<Rightarrow> vm \<Rightarrow> vm_error + vm" where
  "op_fstore32 c i v =
     bind_res (rd_reg c (i_rs1 i) v) (\<lambda>a. bind_res (rd_reg c (i_rd i) v) (\<lambda>x.
     vm_write32 v (a + i_imm i) x))"

definition op_fcmp :: "nat \<Rightarrow> inst \<Rightarrow> vm \<Rightarrow> vm_error + vm" where
  "op_fcmp c i v =
     bind_res (rd_reg c (i_rd i) v) (\<lambda>a. bind_res (rd_reg c (i_rs1 i) v) (\<lambda>b.
     Inr (update_fcmp_flags c (reg_as_f32 a) (reg_as_f32 b) v)))"

section \<open>Atomic instructions\<close>

definition op_cas :: "nat \<Rightarrow> inst \<Rightarrow> vm \<Rightarrow> vm_error + vm" where
  "op_cas c i v =
     bind_res (rd_reg c (i_rs1 i) v) (\<lambda>a.
     bind_res (ensure_atomic_aligned_or_panic v (a + i_imm i) ''CAS'') (\<lambda>v.
     bind_res (rd_reg c (i_rd i) v) (\<lambda>expected. bind_res (rd_reg c (i_rs2 i) v) (\<lambda>desired.
     bind_res (vm_atomic_compare_exchange32_seqcst v (a + i_imm i) expected desired) (\<lambda>((old, success), v).
     wr_reg c (i_rd i) old (set_cas_flags c success v))))))"

definition op_xadd :: "nat \<Rightarrow> inst \<Rightarrow> vm \<Rightarrow> vm_error + vm" where
  "op_xadd c i v =
     bind_res (rd_reg c (i_rs1 i) v) (\<lambda>a.
     bind_res (ensure_atomic_aligned_or_panic v (a + i_imm i) ''XADD'') (\<lambda>v.
     bind_res (rd_reg c (i_rs2 i) v) (\<lambda>addend.
     bind_res (vm_atomic_fetch_add32_seqcst v (a + i_imm i) addend) (\<lambda>(old, v).
     bind_res (wr_reg c (i_rd i) old v) (\<lambda>v. Inr (update_add_flags c old addend (old + addend) v))))))"

definition op_xchg :: "nat \<Rightarrow> inst \<Rightarrow> vm \<Rightarrow> vm_error + vm" where
  "op_xchg c i v =
     bind_res (rd_reg c (i_rs1 i) v) (\<lambda>a.
     bind_res (ensure_atomic_aligned_or_panic v (a + i_imm i) ''XCHG'') (\<lambda>v.
     bind_res (rd_reg c (i_rs2 i) v) (\<lambda>newv.
     bind_res (vm_atomic_exchange32_seqcst v (a + i_imm i) newv) (\<lambda>(old, v).
     bind_res (wr_reg c (i_rd i) old v) (\<lambda>v. Inr (update_logic_flags c old v))))))"

definition op_ldar :: "nat \<Rightarrow> inst \<Rightarrow> vm \<Rightarrow> vm_error + vm" where
  "op_ldar c i v =
     bind_res (rd_reg c (i_rs1 i) v) (\<lambda>a.
     bind_res (ensure_atomic_aligned_or_panic v (a + i_imm i) ''LDAR'') (\<lambda>v.
     bind_res (vm_atomic_load32_acquire v (a + i_imm i)) (\<lambda>(x, v).
     bind_res (wr_reg c (i_rd i) x v) (\<lambda>v. Inr (update_logic_flags c x v)))))"

definition op_stlr :: "nat \<Rightarrow> inst \<Rightarrow> vm \<Rightarrow> vm_error + vm" where
  "op_stlr c i v =
     bind_res (rd_reg c (i_rs1 i) v) (\<lambda>a.
     bind_res (ensure_atomic_aligned_or_panic v (a + i_imm i) ''STLR'') (\<lambda>v.
     bind_res (rd_reg c (i_rd i) v) (\<lambda>x. vm_atomic_store32_release v (a + i_imm i) x)))"

section \<open>Cores\<close>

definition op_startap :: "nat \<Rightarrow> inst \<Rightarrow> vm \<Rightarrow> vm_error + vm" where
  "op_startap c i v =
     (if \<not> is_bsp (cpus v c) then Inr v
      else
        bind_res (rd_reg c (i_rd i) v) (\<lambda>t. bind_res (rd_reg c (i_rs1 i) v) (\<lambda>a.
        let target = sint t; entry = a + i_imm i in
        if target \<le> 0 \<or> int (smp_cores v) \<le> target then Inr v
        else
          let v = upd_cpu (nat target) (\<lambda>r. r\<lparr>ip := entry, last_ip := entry\<rparr>) v in
          Inr (v\<lparr>core_released := (core_released v)(nat target := True)\<rparr>))))"

definition op_ipi :: "nat \<Rightarrow> inst \<Rightarrow> vm \<Rightarrow> vm_error + vm" where
  "op_ipi c i v =
     bind_res (rd_reg c (i_rd i) v) (\<lambda>t. bind_res (rd_reg c (i_rs1 i) v) (\<lambda>n.
     Inr (trigger_interrupt_target (sint t) n v)))"

definition op_cpuid :: "nat \<Rightarrow> inst \<Rightarrow> vm \<Rightarrow> vm_error + vm" where
  "op_cpuid c i v =
     (let x = of_int (core_id (cpus v c)) in
      bind_res (wr_reg c (i_rd i) x v) (\<lambda>v. Inr (update_logic_flags c x v)))"

section \<open>Fetch and dispatch\<close>

definition fetch64 :: "nat \<Rightarrow> vm \<Rightarrow> vm_error + inst \<times> vm" where
  "fetch64 c v =
     (let a = ip (cpus v c) in
      if memory_size v < unat a + 8 then Inl Panic_no_ip
      else Inr (decode (load64 (memory v) a), upd_cpu c (\<lambda>r. r\<lparr>last_ip := a, ip := a + 8\<rparr>) v))"

definition dispatch :: "host \<Rightarrow> nat \<Rightarrow> inst \<Rightarrow> vm \<Rightarrow> vm_error + vm" where
  "dispatch h c i v =
     (let op = i_op i in
      if op = OP_ADD then op_add c i v
      else if op = OP_SUB then op_sub c i v
      else if op = OP_MUL then op_mul c i v
      else if op = OP_HALT then op_halt v
      else if op = OP_JMP then op_jmp c i v
      else if op = OP_RJMP then op_rjmp c i v
      else if op = OP_PUSH then op_push c i v
      else if op = OP_POP then op_pop h c i v
      else if op = OP_CALL then op_call c i v
      else if op = OP_RCALL then op_rcall c i v
      else if op = OP_CALLR then op_callr c i v
      else if op = OP_RET then op_ret h c v
      else if op = OP_LOAD then op_load c i v
      else if op = OP_LOAD32 then op_load32 h c i v
      else if op = OP_LOADX32 then op_loadx32 h c i v
      else if op = OP_STORE then op_store c i v
      else if op = OP_STORE32 then op_store32 c i v
      else if op = OP_STOREX32 then op_storex32 c i v
      else if op = OP_CMP then op_cmp c i v
      else if op = OP_CMPI then op_cmpi c i v
      else if op = OP_MOV then op_mov c i v
      else if op = OP_MOVI then op_movi c i v
      else if op = OP_MEMSET then op_memset c i v
      else if op = OP_MEMCPY then op_memcpy c i v
      else if op = OP_IN then op_in c i v
      else if op = OP_OUT then op_out c i v
      else if op = OP_INT then op_int h c i v
      else if op = OP_IRET then op_iret h c v
      else if op = OP_AND then op_and c i v
      else if op = OP_OR then op_or c i v
      else if op = OP_XOR then op_xor c i v
      else if op = OP_NOT then op_not c i v
      else if op = OP_SHL then op_shl c i v
      else if op = OP_SHR then op_shr c i v
      else if op = OP_SAR then op_sar c i v
      else if op = OP_ROL then op_rol c i v
      else if op = OP_ROR then op_ror c i v
      else if op = OP_DIV then op_div c i v
      else if op = OP_MOD then op_mod c i v
      else if op = OP_INC then op_inc c i v
      else if op = OP_JZ then op_jz c i v
      else if op = OP_RJZ then op_rjz c i v
      else if op = OP_JNZ then op_jnz c i v
      else if op = OP_RJNZ then op_rjnz c i v
      else if op = OP_JG then op_jg c i v
      else if op = OP_JGE then op_jge c i v
      else if op = OP_JL then op_jl c i v
      else if op = OP_JLE then op_jle c i v
      else if op = OP_JC then op_jc c i v
      else if op = OP_JNC then op_jnc c i v
      else if op = OP_FADD then op_fadd h c i v
      else if op = OP_FSUB then op_fsub h c i v
      else if op = OP_FMUL then op_fmul h c i v
      else if op = OP_FDIV then op_fdiv h c i v
      else if op = OP_FNEG then op_fneg c i v
      else if op = OP_FABS then op_fabs c i v
      else if op = OP_FSQRT then op_fsqrt h c i v
      else if op = OP_ITOF then op_itof c i v
      else if op = OP_FTOI then op_ftoi c i v
      else if op = OP_FLOAD32 then op_fload32 h c i v
      else if op = OP_FSTORE32 then op_fstore32 c i v
      else if op = OP_FCMP then op_fcmp c i v
      else if op = OP_ADDI then op_addi c i v
      else if op = OP_SUBI then op_subi c i v
      else if op = OP_ANDI then op_andi c i v
      else if op = OP_ORI then op_ori c i v
      else if op = OP_XORI then op_xori c i v
      else if op = OP_SHLI then op_shli c i v
      else if op = OP_SHRI then op_shri c i v
      else if op = OP_ROLI then op_roli c i v
      else if op = OP_RORI then op_rori c i v
      else if op = OP_CAS then op_cas c i v
      else if op = OP_XADD then op_xadd c i v
      else if op = OP_XCHG then op_xchg c i v
      else if op = OP_LDAR then op_ldar c i v
      else if op = OP_STLR then op_stlr c i v
      else if op = OP_FENCE then Inr v
      else if op = OP_PAUSE then Inr v
      else if op = OP_STARTAP then op_startap c i v
      else if op = OP_IPI then op_ipi c i v
      else if op = OP_CPUID then op_cpuid c i v
      else Inl (Panic_opcode op))"

definition vm_instruction_case :: "host \<Rightarrow> nat \<Rightarrow> vm \<Rightarrow> vm_error + vm" where
  "vm_instruction_case h c v = bind_res (fetch64 c v) (\<lambda>(i, v). dispatch h c i v)"

section \<open>The loop of a core\<close>

text \<open>\<open>local_cycles\<close> is the thread's own counter, flushed into the core every 1024 instructions.\<close>

definition vm_flush_execution_times :: "nat \<Rightarrow> u64 \<Rightarrow> vm \<Rightarrow> u64 \<times> vm" where
  "vm_flush_execution_times c n v =
     (if n = 0 then (n, v)
      else (0, upd_cpu c (\<lambda>r. r\<lparr>execution_times := execution_times r + n\<rparr>) v))"

datatype thread_result = T_stop vm | T_run u64 vm

definition vm_thread_turn :: "host \<Rightarrow> nat \<Rightarrow> u64 \<Rightarrow> vm \<Rightarrow> vm_error + thread_result" where
  "vm_thread_turn h c n v =
     (if halted v then Inr (T_stop (snd (vm_flush_execution_times c n v)))
      else if c \<noteq> 0 \<and> \<not> core_released v c then Inr (T_run n v)
      else
        bind_res (vm_handle_interrupts h c v) (\<lambda>v.
        bind_res (vm_instruction_case h c v) (\<lambda>v.
        let n = n + 1;
            (n, v) = (if 1024 \<le> n then vm_flush_execution_times c n v else (n, v));
            v = (if c = 0 then disk_tick v else v) in
        Inr (T_run n v))))"

section \<open>Executing stored code\<close>

definition code_at :: "vm \<Rightarrow> u32 \<Rightarrow> u64 \<Rightarrow> bool" where
  "code_at v a x \<longleftrightarrow> unat a + 8 \<le> memory_size v \<and> unat a + 8 \<le> 2 ^ 32 \<and> load64 (memory v) a = x"

lemma fetch64_code:
  assumes "code_at v (ip (cpus v c)) (INST op rd rs1 rs2 imm)"
  shows "fetch64 c v = Inr (\<lparr>i_op = op, i_rd = rd, i_rs1 = rs1, i_rs2 = rs2, i_imm = imm\<rparr>,
                            upd_cpu c (\<lambda>r. r\<lparr>last_ip := ip r, ip := ip r + 8\<rparr>) v)"
  using assms by (simp add: fetch64_def code_at_def Let_def decode_INST upd_cpu_def)

lemma instruction_code:
  "code_at v (ip (cpus v c)) (INST op rd rs1 rs2 imm)
   \<Longrightarrow> vm_instruction_case h c v
       = dispatch h c \<lparr>i_op = op, i_rd = rd, i_rs1 = rs1, i_rs2 = rs2, i_imm = imm\<rparr>
           (upd_cpu c (\<lambda>r. r\<lparr>last_ip := ip r, ip := ip r + 8\<rparr>) v)"
  by (simp add: vm_instruction_case_def fetch64_code)

lemma load64_cong:
  assumes "unat a + 8 \<le> 2 ^ 32" "\<And>b. unat a \<le> unat b \<Longrightarrow> unat b < unat a + 8 \<Longrightarrow> m b = m' b"
  shows "load64 m a = load64 m' a"
proof -
  have at: "m (a + i) = m' (a + i)" if "unat i < 8" for i
    using unat_plus_small [of a i] assms that by simp
  have "m (a + 4 + i) = m' (a + 4 + i)" if "unat i < 4" for i
    using at [of "4 + i"] unat_plus_small [of 4 i] that by (simp add: add.assoc)
  then have "load32 m (a + 4) = load32 m' (a + 4)" by (intro load32_cong) simp
  moreover have "load32 m a = load32 m' a" using at by (intro load32_cong) simp
  ultimately show ?thesis by (simp add: load64_def)
qed

lemma code_at_outside:
  assumes "code_at v a x" "memory_size w = memory_size v"
    "\<forall>b. unat b < lo \<or> hi \<le> unat b \<longrightarrow> memory w b = memory v b" "unat a + 8 \<le> lo \<or> hi \<le> unat a"
  shows "code_at w a x"
proof -
  have "load64 (memory w) a = load64 (memory v) a"
    using assms unfolding code_at_def by (intro load64_cong) auto
  then show ?thesis using assms(1,2) by (simp add: code_at_def)
qed

lemma call_sp_content: "call.ok c v \<Longrightarrow> csp (cpus v c) = 256 - int (length (call.content c v))"
  by (auto simp: stack_ok_def stack_content_def)

lemma stack_ok_upd_cpu [simp]: "stack_ok (upd_cpu c f v) b s k = stack_ok v b s k"
  by (simp add: stack_ok_def region_free_def bus_ok_def cache_ok_def split: option.split)

lemma stack_fr_size: "stack_fr upd sp base k c v w \<Longrightarrow> memory_size w = memory_size v"
proof -
  assume "stack_fr upd sp base k c v w"
  then have "w = v\<lparr>memory := memory w, mmio_cache_dev := mmio_cache_dev w,
      cpus := (cpus v)(c := upd (\<lambda>_. sp (cpus w c)) (cpus v c))\<rparr>" (is "w = ?w")
    unfolding stack_fr_def by blast
  then have "memory_size w = memory_size ?w" by (rule arg_cong)
  then show ?thesis by simp
qed

text \<open>\<open>CALL\<close> of a routine whose first instruction is \<open>RET\<close>, one instruction at a time.\<close>

lemma call_step:
  assumes "call.ok c v" "0 < csp (cpus v c)"
  shows "\<exists>u. op_call c i v = Inr u \<and> call.ok c u
    \<and> call.content c u = ucast (ip (cpus v c)) # call.content c v
    \<and> cpus u = (cpus v)(c := (cpus v c)\<lparr>csp := csp (cpus v c) - 1, ip := i_imm i\<rparr>)
    \<and> memory_size u = memory_size v
    \<and> (\<forall>b. unat b < unat (call_stack_base (cpus v c)) \<or> unat (call_stack_base (cpus v c)) + 2048 \<le> unat b
           \<longrightarrow> memory u b = memory v b)"
proof -
  have "length (call.content c v) < 256" using call_sp_content [OF assms(1)] assms(2) by simp
  then obtain u where u: "call_push c (ucast (ip (cpus v c))) v = Inr u" "call.ok c u"
    "call.content c u = ucast (ip (cpus v c)) # call.content c v"
    "stack_fr csp_update csp call_stack_base 8 c v u"
    using call.push_room [OF assms(1)] by blast
  have "csp (cpus u c) = csp (cpus v c) - 1"
    using call_sp_content [OF assms(1)] call_sp_content [OF u(2)] u(3) by simp
  then show ?thesis
    using u stack_fr_cpus [OF u(4)] stack_fr_size [OF u(4)] stack_fr_mem [OF u(4)]
    by (simp add: op_call_def set_ip_def) (simp add: upd_cpu_def)
qed

lemma ret_step:
  assumes "call.ok c v" "call.content c v = x # xs"
  shows "\<exists>u. op_ret h c v = Inr u
    \<and> cpus u = (cpus v)(c := (cpus v c)\<lparr>csp := csp (cpus v c) + 1, ip := ucast x\<rparr>)
    \<and> (\<forall>b. unat b < unat (call_stack_base (cpus v c)) \<or> unat (call_stack_base (cpus v c)) + 2048 \<le> unat b
           \<longrightarrow> memory u b = memory v b)"
proof -
  obtain u where u: "call_pop h c v = Inr (x, u)" "call.ok c u" "call.content c u = xs"
    "stack_fr csp_update csp call_stack_base 8 c v u"
    using call.pop_cons [OF assms] by blast
  have "csp (cpus u c) = csp (cpus v c) + 1"
    using call_sp_content [OF assms(1)] call_sp_content [OF u(2)] u(3) assms(2) by simp
  then show ?thesis
    using u stack_fr_cpus [OF u(4)] stack_fr_mem [OF u(4)]
    by (simp add: op_ret_def set_ip_def) (simp add: upd_cpu_def)
qed

section \<open>Block operations on plain RAM\<close>

text \<open>A range of RAM that the framebuffer's legacy window does not shadow.\<close>

definition plain_ram :: "vm \<Rightarrow> u32 \<Rightarrow> nat \<Rightarrow> bool" where
  "plain_ram v a n \<longleftrightarrow> unat a + n \<le> memory_size v \<and> unat a + n < 2 ^ 32
     \<and> (unat a + n \<le> 0x620000 \<or> 0x74C000 \<le> unat a)"

lemma plain_ram_byte:
  assumes "plain_ram v a (Suc n)"
  shows "vm_read8 v a = Inr (memory v a)" "vm_write8 v a x = Inr (v\<lparr>memory := (memory v)(a := x)\<rparr>)"
proof -
  have "fb_byte_index v a = None" "in_ram v a 1"
    using assms by (auto simp: plain_ram_def fb_byte_index_def in_ram_def Let_def word_le_nat_alt word_less_nat_alt)
  then show "vm_read8 v a = Inr (memory v a)" "vm_write8 v a x = Inr (v\<lparr>memory := (memory v)(a := x)\<rparr>)"
    by (simp_all add: vm_read8_def vm_write8_def)
qed

lemma plain_ram_next:
  assumes "plain_ram v a (Suc n)"
  shows "unat (a + 1) = Suc (unat a)" "plain_ram (v\<lparr>memory := m\<rparr>) (a + 1) n"
proof -
  show u: "unat (a + 1) = Suc (unat a)" using assms unat_plus_small [of a 1] by (simp add: plain_ram_def)
  show "plain_ram (v\<lparr>memory := m\<rparr>) (a + 1) n" using assms u by (auto simp: plain_ram_def)
qed

lemma store_bytes_Nil [simp]: "store_bytes m a [] = m"
  by (rule ext) (auto simp: store_bytes_def)

lemma store_bytes_Cons: "store_bytes m (unat a) (x # xs) = store_bytes (m(a := x)) (Suc (unat a)) xs"
proof (rule ext)
  fix b :: u32
  show "store_bytes m (unat a) (x # xs) b = store_bytes (m(a := x)) (Suc (unat a)) xs b"
    using word_unat_eq_iff [of b a] by (cases "b = a") (auto simp: store_bytes_def nth_Cons')
qed

lemma load_bytes_Suc: "load_bytes m (unat a) (Suc n) = m a # load_bytes m (Suc (unat a)) n"
  by (simp add: load_bytes_def upt_conv_Cons del: upt_Suc)
     (simp add: algebra_simps flip: map_Suc_upt del: upt_Suc)

lemma load_bytes_upd:
  assumes "unat d < a \<or> a + n \<le> unat d" "a + n < 2 ^ 32"
  shows "load_bytes (m(d := x)) a n = load_bytes m a n"
proof -
  have "of_nat (a + i) \<noteq> d" if "i < n" for i
  proof -
    have "unat (of_nat (a + i) :: u32) = a + i" using assms(2) that by (simp only: unat_of_nat) simp
    then show ?thesis using assms(1) that by auto
  qed
  then show ?thesis by (simp add: load_bytes_def)
qed

lemma memset_loop_ram:
  "plain_ram v a n
   \<Longrightarrow> memset_loop n a x v = Inr (v\<lparr>memory := store_bytes (memory v) (unat a) (replicate n x)\<rparr>)"
proof (induction n arbitrary: a v)
  case (Suc n)
  let ?v = "v\<lparr>memory := (memory v)(a := x)\<rparr>"
  have "memset_loop n (a + 1) x ?v
      = Inr (?v\<lparr>memory := store_bytes (memory ?v) (unat (a + 1)) (replicate n x)\<rparr>)"
    using Suc.prems by (intro Suc.IH plain_ram_next)
  then show ?case
    using plain_ram_byte [OF Suc.prems] plain_ram_next [OF Suc.prems] by (simp add: store_bytes_Cons)
qed simp

lemma memcpy_loop_ram:
  "plain_ram v d n \<Longrightarrow> plain_ram v s n \<Longrightarrow> unat d \<le> unat s \<or> unat s + n \<le> unat d
   \<Longrightarrow> memcpy_loop n d s v
       = Inr (v\<lparr>memory := store_bytes (memory v) (unat d) (load_bytes (memory v) (unat s) n)\<rparr>)"
proof (induction n arbitrary: d s v)
  case 0
  then show ?case by (simp add: load_bytes_def)
next
  case (Suc n)
  let ?v = "v\<lparr>memory := (memory v)(d := memory v s)\<rparr>"
  note d = plain_ram_next [OF Suc.prems(1)] and s = plain_ram_next [OF Suc.prems(2)]
  have "memcpy_loop n (d + 1) (s + 1) ?v
      = Inr (?v\<lparr>memory := store_bytes (memory ?v) (unat (d + 1)) (load_bytes (memory ?v) (unat (s + 1)) n)\<rparr>)"
    using Suc.prems(3) d s by (intro Suc.IH) auto
  moreover have "load_bytes (memory ?v) (unat (s + 1)) n = load_bytes (memory v) (unat (s + 1)) n"
    using load_bytes_upd [of d "unat (s + 1)" n "memory v" "memory v s"] Suc.prems(2,3) s(1)
    by (auto simp: plain_ram_def)
  ultimately show ?case
    using plain_ram_byte [OF Suc.prems(1)] plain_ram_byte [OF Suc.prems(2)] d s
    by (simp add: store_bytes_Cons load_bytes_Suc)
qed

section \<open>Properties\<close>

text \<open>C17: an executed \<open>CALL\<close> followed by the callee's \<open>RET\<close> continues after the call with every
  register, flag and stack pointer of the core as it was, and no byte outside the call stack changed.\<close>

theorem call_ret_round_trip:
  assumes "stack_ok v (call_stack_base (cpus v c)) (csp (cpus v c)) 8" "0 < csp (cpus v c)"
    and "code_at v (ip (cpus v c)) (INST OP_CALL rd rs1 rs2 t)"
    and "code_at v t (INST OP_RET rd' rs1' rs2' imm')"
    and "unat t + 8 \<le> unat (call_stack_base (cpus v c)) \<or> unat (call_stack_base (cpus v c)) + 2048 \<le> unat t"
  shows "\<exists>u w. vm_instruction_case h c v = Inr u \<and> ip (cpus u c) = t \<and> csp (cpus u c) = csp (cpus v c) - 1
     \<and> vm_instruction_case h c u = Inr w
     \<and> cpus w = (cpus v)(c := (cpus v c)\<lparr>last_ip := t, ip := ip (cpus v c) + 8\<rparr>)
     \<and> (\<forall>b. unat b < unat (call_stack_base (cpus v c)) \<or> unat (call_stack_base (cpus v c)) + 2048 \<le> unat b
            \<longrightarrow> memory w b = memory v b)"
proof -
  let ?f = "\<lambda>r. r\<lparr>last_ip := ip r, ip := ip r + 8\<rparr>" and ?base = "call_stack_base (cpus v c)"
  let ?i = "\<lparr>i_op = OP_CALL, i_rd = rd, i_rs1 = rs1, i_rs2 = rs2, i_imm = t\<rparr>"
  obtain u where u: "op_call c ?i (upd_cpu c ?f v) = Inr u" "call.ok c u"
    "call.content c u = ucast (ip (cpus v c) + 8) # call.content c v" "memory_size u = memory_size v"
    "cpus u = (cpus (upd_cpu c ?f v))(c := (?f (cpus v c))\<lparr>csp := csp (cpus v c) - 1, ip := t\<rparr>)"
    "\<forall>b. unat b < unat ?base \<or> unat ?base + 2048 \<le> unat b \<longrightarrow> memory u b = memory v b"
    using call_step [of "upd_cpu c ?f v" c ?i] assms(1,2) by auto
  have ret: "code_at u t (INST OP_RET rd' rs1' rs2' imm')"
    by (rule code_at_outside [OF assms(4) u(4,6) assms(5)])
  obtain w where w: "op_ret h c (upd_cpu c ?f u) = Inr w"
    "cpus w = (cpus (upd_cpu c ?f u))(c := (?f (cpus u c))\<lparr>csp := csp (cpus u c) + 1, ip := ip (cpus v c) + 8\<rparr>)"
    "\<forall>b. unat b < unat ?base \<or> unat ?base + 2048 \<le> unat b \<longrightarrow> memory w b = memory u b"
    using ret_step [of "upd_cpu c ?f u" c "ucast (ip (cpus v c) + 8)" "call.content c v" h] u(2,3,5) by auto
  have "vm_instruction_case h c v = Inr u"
    using instruction_code [OF assms(3), of h] u(1) by (simp add: dispatch_def)
  moreover have "vm_instruction_case h c u = Inr w"
    using instruction_code [of u c OP_RET rd' rs1' rs2' imm' h] ret w(1) u(5) by (simp add: dispatch_def)
  moreover have "cpus w = (cpus v)(c := (cpus v c)\<lparr>last_ip := t, ip := ip (cpus v c) + 8\<rparr>)"
    unfolding w(2) using u(5) by (simp add: upd_cpu_def)
  ultimately show ?thesis using u(5,6) w(3) by auto
qed

definition demo_code :: vm where
  "demo_code = upd_cpu 0 (\<lambda>r. r\<lparr>ip := 0x3000\<rparr>) (demo_vm\<lparr>memory :=
     store64 (store64 (\<lambda>_. 0) 0x3000 (INST OP_CALL 0 0 0 0x4000)) 0x4000 (INST OP_RET 0 0 0 0)\<rparr>)"

lemma demo_code_at:
  "code_at demo_code 0x3000 (INST OP_CALL 0 0 0 0x4000)" "code_at demo_code 0x4000 (INST OP_RET 0 0 0 0)"
  by (simp_all add: code_at_def demo_code_def load64_store64_other)

theorem call_ret_round_trip_witness:
  "\<exists>u w. vm_instruction_case host_zero 0 demo_code = Inr u \<and> ip (cpus u 0) = 0x4000
         \<and> vm_instruction_case host_zero 0 u = Inr w \<and> ip (cpus w 0) = 0x3008 \<and> csp (cpus w 0) = 256"
proof -
  have st: "stack_ok demo_code (call_stack_base (cpus demo_code 0)) (csp (cpus demo_code 0)) 8"
    using demo_stacks_ok(2) by (simp add: demo_code_def stack_ok_def region_free_def bus_ok_def cache_ok_def)
  have "0 < csp (cpus demo_code 0)" "ip (cpus demo_code 0) = 0x3000"
    "unat (0x4000 :: u32) + 8 \<le> unat (call_stack_base (cpus demo_code 0))
       \<or> unat (call_stack_base (cpus demo_code 0)) + 2048 \<le> unat (0x4000 :: u32)"
    "csp (cpus demo_code 0) = 256"
    by (simp_all add: demo_code_def)
  then show ?thesis
    using call_ret_round_trip [OF st, of 0 0 0 "0x4000" 0 0 0 0 host_zero] demo_code_at by auto
qed

lemma regs_update_logic_flags [simp]: "regs (cpus (update_logic_flags c x v) c) = regs (cpus v c)"
  by (simp add: update_logic_flags_def update_zf_sf_def clear_cf_of_def upd_flags_def)

text \<open>\<open>ITOF\<close> and then \<open>FTOI\<close> give back every integer of magnitude below \<open>2\<^sup>2\<^sup>4\<close>.\<close>

theorem itof_ftoi_round_trip:
  assumes "\<bar>sint (regs (cpus v c) (unat s))\<bar> < 2 ^ 24" "unat s < REG_COUNT" "unat t < REG_COUNT" "unat d < REG_COUNT"
  shows "\<exists>w. bind_res (op_itof c \<lparr>i_op = OP_ITOF, i_rd = t, i_rs1 = s, i_rs2 = 0, i_imm = 0\<rparr> v)
               (op_ftoi c \<lparr>i_op = OP_FTOI, i_rd = d, i_rs1 = t, i_rs2 = 0, i_imm = 0\<rparr>) = Inr w
         \<and> regs (cpus w c) (unat d) = regs (cpus v c) (unat s)"
proof -
  let ?x = "regs (cpus v c) (unat s)"
  obtain u where u: "op_itof c \<lparr>i_op = OP_ITOF, i_rd = t, i_rs1 = s, i_rs2 = 0, i_imm = 0\<rparr> v = Inr u"
    "regs (cpus u c) (unat t) = f32_as_reg (f32_of_int (sint ?x))"
    using assms(2,3) by (simp add: op_itof_def rd_reg_def wr_reg_def Let_def)
  have "reg_as_f32 (regs (cpus u c) (unat t)) = f32_of_int (sint ?x)"
    using u(2) f32_of_int_read_back [OF assms(1)] by simp
  then show ?thesis
    using u(1) assms(3,4) sint_bounds [of ?x] f32_of_int_in_range [OF assms(1)] f32_trunc_of_int [OF assms(1)]
    by (simp add: op_ftoi_def rd_reg_def wr_reg_def Let_def)
qed

definition demo_reg :: "u32 \<Rightarrow> vm" where
  "demo_reg x = upd_cpu 0 (\<lambda>r. r\<lparr>regs := (regs r)(2 := x)\<rparr>) demo_vm"

theorem itof_ftoi_round_trip_witness:
  "\<exists>w. bind_res (op_itof 0 \<lparr>i_op = OP_ITOF, i_rd = 3, i_rs1 = 2, i_rs2 = 0, i_imm = 0\<rparr> (demo_reg 1000))
         (op_ftoi 0 \<lparr>i_op = OP_FTOI, i_rd = 4, i_rs1 = 3, i_rs2 = 0, i_imm = 0\<rparr>) = Inr w
       \<and> regs (cpus w 0) 4 = 1000"
  using itof_ftoi_round_trip [of "demo_reg 1000" 0 2 3 4] by (simp add: demo_reg_def)

text \<open>\<open>FTOI\<close> of \<open>2\<^sup>3\<^sup>1\<close> passes the range test, whose upper limit rounds to \<open>2\<^sup>3\<^sup>1\<close>, and reaches a
  conversion that C leaves undefined; infinities and NaNs give 0 with the overflow flag set.\<close>

theorem ftoi_limits:
  assumes "unat (i_rs1 i) < REG_COUNT" "unat (i_rd i) < REG_COUNT" "x = regs (cpus v c) (unat (i_rs1 i))"
  shows "(x = 0x4F000000 \<longrightarrow> op_ftoi c i v = Inl (Host_out_of_bounds ''float to int32''))
    \<and> (drop_bit 23 x AND 0xFF = 0xFF \<longrightarrow>
         (\<exists>w. op_ftoi c i v = Inr w \<and> regs (cpus w c) (unat (i_rd i)) = 0 \<and> bit (flags (cpus w c)) 5))"
proof -
  have "\<not> bit (0x4F000000 :: u32) 31" by (simp add: bit_iff_odd)
  then have big: "reg_as_f32 0x4F000000 = Fin False (2 ^ 23) 8"
    by (simp add: reg_as_f32_def drop_bit_eq_div)
  have "op_ftoi c i v = Inl (Host_out_of_bounds ''float to int32'')" if "x = 0x4F000000"
    using assms that [symmetric] big
    by (simp add: op_ftoi_def rd_reg_def f32_int_limits f32_is_nan_def f32_lt_def f32_trunc_def sgn_of_def)
  moreover have "f32_is_nan (reg_as_f32 x) \<or> f32_lt (f32_of_int 2147483647) (reg_as_f32 x)
      \<or> f32_lt (reg_as_f32 x) (f32_of_int (- 2147483648))" if "drop_bit 23 x AND 0xFF = 0xFF"
    using that by (auto simp: reg_as_f32_def f32_is_nan_def f32_lt_def f32_int_limits Let_def)
  ultimately show ?thesis
    using assms by (auto simp: op_ftoi_def rd_reg_def wr_reg_def upd_flags_def Let_def bit_simps)
qed

theorem ftoi_limits_witness:
  "op_ftoi 0 \<lparr>i_op = OP_FTOI, i_rd = 4, i_rs1 = 2, i_rs2 = 0, i_imm = 0\<rparr> (demo_reg 0x4F000000)
   = Inl (Host_out_of_bounds ''float to int32'')"
  using ftoi_limits [of "\<lparr>i_op = OP_FTOI, i_rd = 4, i_rs1 = 2, i_rs2 = 0, i_imm = 0\<rparr>" "0x4F000000" "demo_reg 0x4F000000" 0]
  by (simp add: demo_reg_def)

text \<open>\<open>MEMCPY\<close> between ranges of plain RAM copies the source as it was before, when the target
  starts below the source or behind its end, and changes nothing else.\<close>

theorem memcpy_copies:
  assumes "unat (i_rd i) < REG_COUNT" "unat (i_rs1 i) < REG_COUNT"
    and "d = regs (cpus v c) (unat (i_rd i))" "s = regs (cpus v c) (unat (i_rs1 i))" "n = unat (i_imm i)"
    and "plain_ram v d n" "plain_ram v s n" "unat d \<le> unat s \<or> unat s + n \<le> unat d"
  shows "\<exists>m. op_memcpy c i v = Inr (v\<lparr>memory := m\<rparr>)
     \<and> load_bytes m (unat d) n = load_bytes (memory v) (unat s) n
     \<and> (\<forall>b. unat b < unat d \<or> unat d + n \<le> unat b \<longrightarrow> m b = memory v b)"
proof -
  let ?bs = "load_bytes (memory v) (unat s) n"
  let ?m = "store_bytes (memory v) (unat d) ?bs"
  have "op_memcpy c i v = Inr (v\<lparr>memory := ?m\<rparr>)"
    using assms(1-5) memcpy_loop_ram [OF assms(6-8)] by (simp add: op_memcpy_def rd_reg_def)
  moreover have "load_bytes ?m (unat d) n = ?bs"
    using load_store_bytes [of "unat d" ?bs "memory v"] assms(6) by (simp add: plain_ram_def)
  ultimately show ?thesis using store_bytes_other [of _ "unat d" ?bs "memory v"] by auto
qed

theorem memcpy_copies_witness:
  "\<exists>m. op_memcpy 0 \<lparr>i_op = OP_MEMCPY, i_rd = 1, i_rs1 = 2, i_rs2 = 0, i_imm = 64\<rparr> (demo_reg 0x3000)
       = Inr ((demo_reg 0x3000)\<lparr>memory := m\<rparr>)"
  using memcpy_copies [of "\<lparr>i_op = OP_MEMCPY, i_rd = 1, i_rs1 = 2, i_rs2 = 0, i_imm = 64\<rparr>" 0 "demo_reg 0x3000" 0
      "0x3000" 64]
  by (auto simp: demo_reg_def plain_ram_def vcpu_zero_def)

end
