(* ===== verification/Display.thy ===== *)
theory Display
  imports Io
begin

text \<open>
  The host window (\<open>io_devices/vga_display/display.c\<close>) and the loop that serves it (\<open>display_loop\<close> in \<open>vm.c\<close>): keys and text
  of the window go to the serial line of the machine, closing it halts the machine, and the frame buffer is
  copied row by row to the picture that is shown.

  The SDL library is not part of the program: the events it delivers are the argument of the operations, and
  its key codes are the record \<open>sdl_keys\<close>. The text of an event is the list of its bytes up to the final
  zero. Creating, presenting and closing the window have no effect on the machine.
\<close>

section \<open>Keys\<close>

record sdl_keys =
  SDLK_a :: int
  SDLK_z :: int
  SDLK_RETURN :: int
  SDLK_KP_ENTER :: int
  SDLK_RETURN2 :: int
  SDLK_BACKSPACE :: int
  SDLK_TAB :: int

text \<open>\<open>SDL_KEYDOWN\<close> carries whether a control key is held and the key code.\<close>

datatype sdl_event = SDL_QUIT | SDL_TEXTINPUT "u8 list" | SDL_KEYDOWN bool int | SDL_other

definition serial_rx_push :: "u8 \<Rightarrow> vm \<Rightarrow> vm" where
  "serial_rx_push c v = snd (vm_serial_rx_enqueue c v)"

definition serial_rx_push_normalized :: "u8 \<Rightarrow> vm \<Rightarrow> vm" where
  "serial_rx_push_normalized c v = serial_rx_push (if c = 13 then 10 else c) v"

definition display_event :: "sdl_keys \<Rightarrow> sdl_event \<Rightarrow> vm \<Rightarrow> vm" where
  "display_event k e v =
     (case e of
        SDL_QUIT \<Rightarrow> v\<lparr>halted := True\<rparr>
      | SDL_TEXTINPUT cs \<Rightarrow> fold serial_rx_push_normalized cs v
      | SDL_KEYDOWN ctrl key \<Rightarrow>
          if ctrl \<and> SDLK_a k \<le> key \<and> key \<le> SDLK_z k then serial_rx_push_normalized (of_int (key - SDLK_a k + 1)) v
          else if key = SDLK_RETURN k \<or> key = SDLK_KP_ENTER k \<or> key = SDLK_RETURN2 k then serial_rx_push_normalized 10 v
          else if key = SDLK_BACKSPACE k then serial_rx_push 8 v
          else if key = SDLK_TAB k then serial_rx_push 9 v
          else v
      | SDL_other \<Rightarrow> v)"

text \<open>\<open>es\<close> are the events that \<open>SDL_PollEvent\<close> delivers until it reports that there are no more.\<close>

definition display_poll_events :: "sdl_keys \<Rightarrow> sdl_event list \<Rightarrow> vm \<Rightarrow> vm" where
  "display_poll_events k es v = fold (display_event k) es v"

section \<open>The picture\<close>

text \<open>The rows are copied one after the other, each under its lock; \<open>back row\<close> is the frame buffer when row \<open>row\<close> is
  copied.\<close>

definition ROW_BYTES :: nat where
  "ROW_BYTES = FB_WIDTH * FB_BPP"

definition copy_row :: "(nat \<Rightarrow> nat \<Rightarrow> u8) \<Rightarrow> nat \<Rightarrow> (nat \<Rightarrow> u8) \<Rightarrow> nat \<Rightarrow> u8" where
  "copy_row back row front =
     fold (\<lambda>i front. front(row * ROW_BYTES + i := back row (row * ROW_BYTES + i))) [0..<ROW_BYTES] front"

definition display_update :: "(nat \<Rightarrow> nat \<Rightarrow> u8) \<Rightarrow> (nat \<Rightarrow> u8) \<Rightarrow> nat \<Rightarrow> u8" where
  "display_update back front = fold (copy_row back) [0..<FB_HEIGHT] front"

text \<open>One turn of the loop; \<open>None\<close> when the loop is left.\<close>

definition display_loop_turn ::
  "sdl_keys \<Rightarrow> sdl_event list \<Rightarrow> (nat \<Rightarrow> nat \<Rightarrow> u8) \<Rightarrow> vm \<times> (nat \<Rightarrow> u8) \<Rightarrow> (vm \<times> (nat \<Rightarrow> u8)) option" where
  "display_loop_turn k es back x =
     (case x of (v, front) \<Rightarrow>
        if halted v then None else Some (display_poll_events k es v, display_update back front))"

section \<open>What is typed\<close>

text \<open>The bytes that an event puts on the serial line.\<close>

definition event_bytes :: "sdl_keys \<Rightarrow> sdl_event \<Rightarrow> u8 list" where
  "event_bytes k e =
     (case e of
        SDL_TEXTINPUT cs \<Rightarrow> List.map (\<lambda>c. if c = 13 then 10 else c) cs
      | SDL_KEYDOWN ctrl key \<Rightarrow>
          if ctrl \<and> SDLK_a k \<le> key \<and> key \<le> SDLK_z k
          then [if of_int (key - SDLK_a k + 1) = (13 :: u8) then 10 else of_int (key - SDLK_a k + 1)]
          else if key = SDLK_RETURN k \<or> key = SDLK_KP_ENTER k \<or> key = SDLK_RETURN2 k then [10]
          else if key = SDLK_BACKSPACE k then [8]
          else if key = SDLK_TAB k then [9]
          else []
      | _ \<Rightarrow> [])"

definition typed :: "sdl_keys \<Rightarrow> sdl_event list \<Rightarrow> u8 list" where
  "typed k es = concat (List.map (event_bytes k) es)"

lemma push_text: "fold serial_rx_push_normalized cs v = fold (\<lambda>x v. snd (vm_serial_rx_enqueue x v)) (List.map (\<lambda>c. if c = 13 then 10 else c) cs) v"
  by (induction cs arbitrary: v) (simp_all add: serial_rx_push_normalized_def serial_rx_push_def)

lemma enqueue_halted:
  "halted (snd (vm_serial_rx_enqueue x v)) = halted v"
  "(snd (vm_serial_rx_enqueue x v))\<lparr>halted := b\<rparr> = snd (vm_serial_rx_enqueue x (v\<lparr>halted := b\<rparr>))"
  by (simp_all add: vm_serial_rx_enqueue_def Let_def trigger_interrupt_def trigger_interrupt_target_def set_io_def)

lemma enqueues_halted:
  "halted (fold (\<lambda>x v. snd (vm_serial_rx_enqueue x v)) xs v) = halted v"
  "(fold (\<lambda>x v. snd (vm_serial_rx_enqueue x v)) xs v)\<lparr>halted := b\<rparr> = fold (\<lambda>x v. snd (vm_serial_rx_enqueue x v)) xs (v\<lparr>halted := b\<rparr>)"
  by (induction xs arbitrary: v) (simp_all add: enqueue_halted)

lemma event_enqueues:
  "display_event k e v = fold (\<lambda>x v. snd (vm_serial_rx_enqueue x v)) (event_bytes k e) (v\<lparr>halted := halted v \<or> e = SDL_QUIT\<rparr>)"
proof (cases e)
  case (SDL_KEYDOWN ctrl key)
  define c :: u8 where "c = of_int (key - SDLK_a k + 1)"
  have d: "fold f (if A then [x] else if B then [y] else if C then [z] else if D then [w] else []) v
      = (if A then f x v else if B then f y v else if C then f z v else if D then f w v else v)" for A B C D x y z w and f :: "u8 \<Rightarrow> vm \<Rightarrow> vm" by simp
  have p: "serial_rx_push_normalized 10 v = snd (vm_serial_rx_enqueue 10 v)" by (simp add: serial_rx_push_normalized_def serial_rx_push_def)
  have q: "v\<lparr>halted := halted v \<or> e = SDL_QUIT\<rparr> = v" using SDL_KEYDOWN by simp
  show ?thesis
    unfolding q unfolding display_event_def event_bytes_def SDL_KEYDOWN sdl_event.case c_def [symmetric] d p
    unfolding serial_rx_push_normalized_def serial_rx_push_def by (simp only:)
qed (simp_all add: display_event_def event_bytes_def push_text)

lemma poll_enqueues:
  "display_poll_events k es v
   = (fold (\<lambda>x v. snd (vm_serial_rx_enqueue x v)) (typed k es) v)\<lparr>halted := halted v \<or> SDL_QUIT \<in> set es\<rparr>"
proof (induction es arbitrary: v)
  case (Cons e es)
  have "display_poll_events k (e # es) v = display_poll_events k es (display_event k e v)" by (simp add: display_poll_events_def)
  also have "\<dots> = (fold (\<lambda>x v. snd (vm_serial_rx_enqueue x v)) (typed k es) (display_event k e v))
      \<lparr>halted := halted (display_event k e v) \<or> SDL_QUIT \<in> set es\<rparr>" by (rule Cons.IH)
  finally show ?case by (simp add: event_enqueues enqueues_halted typed_def disj_assoc eq_commute [of e])
qed (simp add: display_poll_events_def typed_def)

lemma poll_serial:
  assumes "serial_ok v"
  shows "serial_ok (display_poll_events k es v)"
    "serial_content (display_poll_events k es v) = serial_content v @ take (255 - length (serial_content v)) (typed k es)"
  using serial.enq_burst [OF assms, of "typed k es"] by (simp_all add: poll_enqueues serial_ok_def serial_content_def)

section \<open>Properties\<close>

text \<open>C24: What is typed in the window arrives, in order, on the serial line: carriage returns and the return keys as newlines, a
  letter with the control key as its control character, backspace and tab as themselves; other keys and
  events add nothing. Bytes beyond the 255 that can wait are dropped, the ready bit says whether bytes wait, and
  exactly a request to close the window halts the machine.\<close>

theorem window_keys_queued:
  assumes "serial_ok v"
  shows "let w = display_poll_events k es v in
         serial_ok w \<and> serial_content w = serial_content v @ take (255 - length (serial_content v)) (typed k es)
         \<and> (bit (io w SCREEN_ATTRIBUTE) 0 \<longleftrightarrow> serial_content w \<noteq> []) \<and> (halted w \<longleftrightarrow> halted v \<or> SDL_QUIT \<in> set es)"
  using poll_serial [OF assms, of k es] serial_ready_content [of "display_poll_events k es v"] by (simp add: poll_enqueues)

text \<open>After an update of the window each row of the picture is that row of the frame buffer as it was while the row
  was copied, so a row is never torn; when nothing is drawn meanwhile the picture is the frame buffer. Nothing beyond the
  picture is written.\<close>

theorem window_shows_rows:
  "display_update back front i = (if i < FB_SIZE then back (i div ROW_BYTES) i else front i)"
proof -
  have c: "copy_row back row front j = (if row * ROW_BYTES \<le> j \<and> j < row * ROW_BYTES + ROW_BYTES then back row j else front j)" for row front j
  proof -
    have "fold (\<lambda>i front. front(b + i := f (b + i))) [0..<n] front j = (if b \<le> j \<and> j < b + n then f j else front j)" for b n and f :: "nat \<Rightarrow> u8"
      by (induction n) auto
    then show ?thesis unfolding copy_row_def .
  qed
  have "fold (copy_row back) [0..<n] front i = (if i < n * ROW_BYTES then back (i div ROW_BYTES) i else front i)" for n
  proof (induction n)
    case (Suc n)
    have "i div ROW_BYTES = n" if "n * ROW_BYTES \<le> i" "i < n * ROW_BYTES + ROW_BYTES"
      using that by (intro div_nat_eqI) (simp_all add: ac_simps)
    then show ?case using Suc by (auto simp: c)
  qed simp
  then show ?thesis by (simp add: display_update_def ROW_BYTES_def)
qed

definition demo_keys :: sdl_keys where
  "demo_keys = \<lparr>SDLK_a = 97, SDLK_z = 122, SDLK_RETURN = 13, SDLK_KP_ENTER = 0x40000058, SDLK_RETURN2 = 0x4000009E,
               SDLK_BACKSPACE = 8, SDLK_TAB = 9\<rparr>"

theorem window_keys_queued_witness:
  "serial_ok demo_vm
   \<and> serial_content (display_poll_events demo_keys [SDL_TEXTINPUT [104, 105], SDL_KEYDOWN True 99, SDL_KEYDOWN False 13, SDL_QUIT] demo_vm)
     = [104, 105, 3, 10]"
proof -
  have "typed demo_keys [SDL_TEXTINPUT [104, 105], SDL_KEYDOWN True 99, SDL_KEYDOWN False 13, SDL_QUIT] = [104, 105, 3, 10]"
    by (simp add: typed_def event_bytes_def demo_keys_def)
  moreover have "serial_content demo_vm = []" by (simp add: serial_content_def ring_content_def)
  ultimately show ?thesis
    using window_keys_queued [OF demo_serial_ok, of demo_keys "[SDL_TEXTINPUT [104, 105], SDL_KEYDOWN True 99, SDL_KEYDOWN False 13, SDL_QUIT]"]
      demo_serial_ok by (simp add: Let_def)
qed

end
