(* ===== verification/Trap.thy ===== *)
theory Trap
  imports Printk Calls Exec Display
begin

text \<open>
  Interrupt handling of the guest kernel: the dispatch table (\<open>kernel/src/trap.c\<close>), the handlers
  (\<open>kernel/src/irq.c\<close>) and the panic screen (\<open>kernel/src/panic.c\<close>).

  The field \<open>machine\<close> is the virtual machine as the port instructions of the kernel reach it. A handler
  ends with an outcome: it is done, the kernel stands in the endless loop of a panic, a loop inside it never
  ends, or a null function pointer is called. The assembly stub is modelled by what it does: it saves
  the number from register 31 and the registers 0 to 6 and calls the common entry. Bytes that arrive on the line while the receive ring is being
  drained are not modelled.
\<close>

section \<open>State\<close>

abbreviation (input) KERNEL_IVT_SIZE :: u32 where "KERNEL_IVT_SIZE \<equiv> 256"
abbreviation (input) KERNEL_IVT_BASE :: u32 where "KERNEL_IVT_BASE \<equiv> 0"
abbreviation (input) KERNEL_IVT_ENTRY_SIZE :: u32 where "KERNEL_IVT_ENTRY_SIZE \<equiv> 8"
abbreviation (input) IO_SERIAL_STATUS :: u32 where "IO_SERIAL_STATUS \<equiv> 2"
abbreviation (input) IO_SERIAL_RX :: u32 where "IO_SERIAL_RX \<equiv> 3"
abbreviation (input) IRQ_KEYBOARD :: u32 where "IRQ_KEYBOARD \<equiv> 0"
abbreviation (input) IRQ_DIVIDE_BY_ZERO :: u32 where "IRQ_DIVIDE_BY_ZERO \<equiv> 1"
abbreviation (input) IRQ_DISK_COMPLETE :: u32 where "IRQ_DISK_COMPLETE \<equiv> 2"
abbreviation (input) IRQ_SERIAL :: u32 where "IRQ_SERIAL \<equiv> 3"
abbreviation (input) IRQ_TIMER :: u32 where "IRQ_TIMER \<equiv> 4"
abbreviation (input) IRQ_SYSCALL :: u32 where "IRQ_SYSCALL \<equiv> 0x80"

datatype trap_handler =
  Irq_default | Irq_divide_by_zero | Irq_disk_complete | Irq_serial | Irq_keyboard | Irq_timer | Irq_syscall

record trap_frame =
  frame_irq_no :: u32
  dispatch_count :: u32
  tick_snapshot :: u32

record traps = klogs +
  g_trap_table :: "nat \<Rightarrow> trap_handler option"
  g_trap_ready :: bool
  g_irq_mask :: "nat \<Rightarrow> u32"
  g_irq_counts :: "nat \<Rightarrow> u32"
  g_last_trap_frame :: trap_frame
  g_fault_div0 :: bool
  g_irq_stub_no :: u32
  g_irq_stub_r :: "nat \<Rightarrow> u32"
  machine :: vm

datatype 's outcome = Done 's | Panicked 's | Hangs | Wild_call 's

section \<open>Ports\<close>

definition io_in32 :: "u32 \<Rightarrow> vm \<Rightarrow> u32 \<times> vm" where
  "io_in32 addr v =
     (if addr = IO_SERIAL_RX then serial_rx_read v
      else if addr = IO_SERIAL_STATUS then (io v SCREEN_ATTRIBUTE AND 0xFF, v)
      else (io v (unat addr), v))"

definition io_out32 :: "u32 \<Rightarrow> u32 \<Rightarrow> vm \<Rightarrow> vm" where
  "io_out32 addr value v = accept_io (sint addr) value v"

definition port_in :: "u32 \<Rightarrow> 'a traps_scheme \<Rightarrow> u32 \<times> 'a traps_scheme" where
  "port_in addr s = (case io_in32 addr (machine s) of (x, v) \<Rightarrow> (x, s\<lparr>machine := v\<rparr>))"

partial_function (option) serial_drain_rx :: "'a traps_scheme \<Rightarrow> 'a traps_scheme option" where
  "serial_drain_rx s =
     (case port_in IO_SERIAL_STATUS s of (st, s) \<Rightarrow>
        if st AND SERIAL_STATUS_RX_READY \<noteq> 0 then
          (case port_in IO_SERIAL_RX s of (v, s) \<Rightarrow>
             Option.bind (console_rx_feed (ucast (v AND 0xFF)) s) serial_drain_rx)
        else Some s)"

definition irq_input_init :: "'a traps_scheme \<Rightarrow> 'a traps_scheme" where
  "irq_input_init s = s\<lparr>machine := io_out32 IO_SERIAL_STATUS SERIAL_CTRL_RX_INT_ENABLE (machine s)\<rparr>"

definition irq_input_dropped :: "'a traps_scheme \<Rightarrow> u32" where
  "irq_input_dropped s = console_rx_dropped s"

definition irq_last_trap_frame :: "'a traps_scheme \<Rightarrow> trap_frame" where
  "irq_last_trap_frame s = g_last_trap_frame s"

section \<open>Panic\<close>

definition kpanic_emit_prefix :: "'a traps_scheme \<Rightarrow> 'a traps_scheme" where
  "kpanic_emit_prefix s =
     (let s = s\<lparr>screen := console_fb_clear (console_fb_set_colors 0x00FFFFFF 0x00800000 (screen s))\<rparr> in
      klog_line KLOG_LEVEL_ERROR (Some (cstr ''panic'')) (Some (cstr ''kernel panic'')) s)"

definition kpanic :: "u8 list option \<Rightarrow> 'a traps_scheme \<Rightarrow> 'a traps_scheme outcome" where
  "kpanic msg s =
     (let tf = irq_last_trap_frame s;
          tag = Some (cstr ''panic'');
          s = kpanic_emit_prefix s;
          s = klog_prefix KLOG_LEVEL_ERROR tag s;
          s = kputs (cstr ''reason='') s;
          s = kputs (case msg of Some m \<Rightarrow> m | None \<Rightarrow> cstr ''<null>'') s;
          s = kputs [10] s;
          s = klog_prefix KLOG_LEVEL_ERROR tag s;
          s = kputs (cstr ''last_irq='') s;
          s = kprint_u32 (frame_irq_no tf) s;
          s = kputs (cstr '' dispatch_count='') s;
          s = kprint_u32 (dispatch_count tf) s;
          s = kputs (cstr '' ticks='') s;
          s = kprint_u32 (tick_snapshot tf) s;
          s = kputs [10] s;
          s = klog_prefix KLOG_LEVEL_ERROR tag s;
          s = kputs (cstr ''rx_dropped='') s;
          s = kprint_u32 (irq_input_dropped s) s;
          s = kputs [10] s in
      Panicked s)"

section \<open>Handlers\<close>

definition count_irq :: "u32 \<Rightarrow> 'a traps_scheme \<Rightarrow> 'a traps_scheme" where
  "count_irq n s =
     (if n < KERNEL_IVT_SIZE then s\<lparr>g_irq_counts := (g_irq_counts s)(unat n := g_irq_counts s (unat n) + 1)\<rparr> else s)"

definition irq_default :: "u32 \<Rightarrow> 'a traps_scheme \<Rightarrow> 'a traps_scheme outcome" where
  "irq_default n s = Done (count_irq n s)"

definition irq_divide_by_zero :: "u32 \<Rightarrow> 'a traps_scheme \<Rightarrow> 'a traps_scheme outcome" where
  "irq_divide_by_zero n s = kpanic (Some (cstr ''divide by zero'')) (s\<lparr>g_fault_div0 := True\<rparr>)"

definition irq_disk_complete :: "u32 \<Rightarrow> 'a traps_scheme \<Rightarrow> 'a traps_scheme outcome" where
  "irq_disk_complete n s = Done (count_irq n s)"

definition returned :: "'s option \<Rightarrow> 's outcome" where
  "returned r = (case r of Some s \<Rightarrow> Done s | None \<Rightarrow> Hangs)"

definition irq_serial :: "u32 \<Rightarrow> 'a traps_scheme \<Rightarrow> 'a traps_scheme outcome" where
  "irq_serial n s = returned (serial_drain_rx (count_irq n s))"

definition irq_keyboard :: "u32 \<Rightarrow> 'a traps_scheme \<Rightarrow> 'a traps_scheme outcome" where
  "irq_keyboard n s = returned (serial_drain_rx (count_irq n s))"

definition irq_timer :: "u32 \<Rightarrow> 'a traps_scheme \<Rightarrow> 'a traps_scheme outcome" where
  "irq_timer n s = Done (schedule_tick (count_irq n s))"

definition stub_regs :: "'a traps_scheme \<Rightarrow> syscall_regs" where
  "stub_regs s =
     \<lparr>nr = g_irq_stub_r s 0, arg0 = g_irq_stub_r s 1, arg1 = g_irq_stub_r s 2, arg2 = g_irq_stub_r s 3,
      arg3 = g_irq_stub_r s 4, arg4 = g_irq_stub_r s 5, arg5 = g_irq_stub_r s 6\<rparr>"

definition irq_syscall ::
  "(nat \<Rightarrow> nat \<Rightarrow> nat \<Rightarrow> 'a traps_scheme \<Rightarrow> 'a traps_scheme) \<Rightarrow> (nat \<Rightarrow> nat \<Rightarrow> 'a traps_scheme \<Rightarrow> 'a traps_scheme)
   \<Rightarrow> u32 \<Rightarrow> 'a traps_scheme \<Rightarrow> 'a traps_scheme outcome" where
  "irq_syscall run irq n s =
     (let s = count_irq n s in returned (map_option snd (syscall_dispatch run irq (Some (stub_regs s)) s)))"

fun call_handler ::
  "(nat \<Rightarrow> nat \<Rightarrow> nat \<Rightarrow> 'a traps_scheme \<Rightarrow> 'a traps_scheme) \<Rightarrow> (nat \<Rightarrow> nat \<Rightarrow> 'a traps_scheme \<Rightarrow> 'a traps_scheme)
   \<Rightarrow> trap_handler \<Rightarrow> u32 \<Rightarrow> 'a traps_scheme \<Rightarrow> 'a traps_scheme outcome" where
  "call_handler run irq Irq_default n s = irq_default n s"
| "call_handler run irq Irq_divide_by_zero n s = irq_divide_by_zero n s"
| "call_handler run irq Irq_disk_complete n s = irq_disk_complete n s"
| "call_handler run irq Irq_serial n s = irq_serial n s"
| "call_handler run irq Irq_keyboard n s = irq_keyboard n s"
| "call_handler run irq Irq_timer n s = irq_timer n s"
| "call_handler run irq Irq_syscall n s = irq_syscall run irq n s"

section \<open>The dispatch table\<close>

definition ivt_write_entry :: "u32 \<Rightarrow> u32 \<Rightarrow> 'a traps_scheme \<Rightarrow> 'a traps_scheme" where
  "ivt_write_entry irq_no handler_addr s =
     (let slot = KERNEL_IVT_BASE + irq_no * KERNEL_IVT_ENTRY_SIZE in
      s\<lparr>umem := store32 (store32 (umem s) (slot + 0) handler_addr) (slot + 4) 0\<rparr>)"

definition trap_register :: "u32 \<Rightarrow> trap_handler option \<Rightarrow> 'a traps_scheme \<Rightarrow> 'a traps_scheme" where
  "trap_register irq_no handler s =
     (if KERNEL_IVT_SIZE \<le> irq_no then s
      else s\<lparr>g_trap_table := (g_trap_table s)(unat irq_no :=
                (case handler of Some h \<Rightarrow> Some h | None \<Rightarrow> Some Irq_default))\<rparr>)"

definition unmask_irq :: "u32 \<Rightarrow> 'a traps_scheme \<Rightarrow> 'a traps_scheme" where
  "unmask_irq n s =
     s\<lparr>g_irq_mask := (g_irq_mask s)(unat (n div 32) := g_irq_mask s (unat (n div 32)) OR push_bit (unat (n mod 32)) 1)\<rparr>"

definition init_vector :: "u32 \<Rightarrow> nat \<Rightarrow> 'a traps_scheme \<Rightarrow> 'a traps_scheme" where
  "init_vector stub i s =
     ivt_write_entry (of_nat i) stub (s\<lparr>g_trap_table := (g_trap_table s)(i := Some Irq_default)\<rparr>)"

definition trap_init :: "u32 \<Rightarrow> 'a traps_scheme \<Rightarrow> 'a traps_scheme" where
  "trap_init stub s =
     (let s = fold (init_vector stub) [0..<256] s;
          s = fold (\<lambda>i s. s\<lparr>g_irq_mask := (g_irq_mask s)(i := 0)\<rparr>) [0..<8] s;
          s = trap_register IRQ_DIVIDE_BY_ZERO (Some Irq_divide_by_zero) s;
          s = trap_register IRQ_DISK_COMPLETE (Some Irq_disk_complete) s;
          s = trap_register IRQ_SERIAL (Some Irq_serial) s;
          s = trap_register IRQ_KEYBOARD (Some Irq_keyboard) s;
          s = trap_register IRQ_TIMER (Some Irq_timer) s;
          s = trap_register IRQ_SYSCALL (Some Irq_syscall) s;
          s = unmask_irq IRQ_DIVIDE_BY_ZERO s;
          s = unmask_irq IRQ_DISK_COMPLETE s;
          s = unmask_irq IRQ_SERIAL s;
          s = unmask_irq IRQ_KEYBOARD s;
          s = unmask_irq IRQ_TIMER s;
          s = unmask_irq IRQ_SYSCALL s in
      s\<lparr>g_trap_ready := True\<rparr>)"

definition trap_dispatch ::
  "(nat \<Rightarrow> nat \<Rightarrow> nat \<Rightarrow> 'a traps_scheme \<Rightarrow> 'a traps_scheme) \<Rightarrow> (nat \<Rightarrow> nat \<Rightarrow> 'a traps_scheme \<Rightarrow> 'a traps_scheme)
   \<Rightarrow> u32 \<Rightarrow> 'a traps_scheme \<Rightarrow> 'a traps_scheme outcome" where
  "trap_dispatch run irq irq_no s =
     (if \<not> g_trap_ready s \<or> KERNEL_IVT_SIZE \<le> irq_no then Done s
      else if g_irq_mask s (unat (irq_no div 32)) AND push_bit (unat (irq_no mod 32)) 1 = 0 then Done s
      else (case g_trap_table s (unat irq_no) of
              None \<Rightarrow> Wild_call s
            | Some h \<Rightarrow> call_handler run irq h irq_no s))"

definition irq_common_entry ::
  "(nat \<Rightarrow> nat \<Rightarrow> nat \<Rightarrow> 'a traps_scheme \<Rightarrow> 'a traps_scheme) \<Rightarrow> (nat \<Rightarrow> nat \<Rightarrow> 'a traps_scheme \<Rightarrow> 'a traps_scheme)
   \<Rightarrow> u32 \<Rightarrow> 'a traps_scheme \<Rightarrow> 'a traps_scheme outcome" where
  "irq_common_entry run irq irq_no s =
     trap_dispatch run irq irq_no
       (s\<lparr>g_last_trap_frame := \<lparr>frame_irq_no = irq_no, dispatch_count = dispatch_count (g_last_trap_frame s) + 1,
                               tick_snapshot = sched_ticks s\<rparr>\<rparr>)"

definition irq_common_entry_from_stub ::
  "(nat \<Rightarrow> nat \<Rightarrow> nat \<Rightarrow> 'a traps_scheme \<Rightarrow> 'a traps_scheme) \<Rightarrow> (nat \<Rightarrow> nat \<Rightarrow> 'a traps_scheme \<Rightarrow> 'a traps_scheme)
   \<Rightarrow> 'a traps_scheme \<Rightarrow> 'a traps_scheme outcome" where
  "irq_common_entry_from_stub run irq s = irq_common_entry run irq (g_irq_stub_no s) s"

definition irq_stub_entry ::
  "(nat \<Rightarrow> nat \<Rightarrow> nat \<Rightarrow> 'a traps_scheme \<Rightarrow> 'a traps_scheme) \<Rightarrow> (nat \<Rightarrow> nat \<Rightarrow> 'a traps_scheme \<Rightarrow> 'a traps_scheme)
   \<Rightarrow> (nat \<Rightarrow> u32) \<Rightarrow> 'a traps_scheme \<Rightarrow> 'a traps_scheme outcome" where
  "irq_stub_entry run irq r s =
     irq_common_entry_from_stub run irq
       (s\<lparr>g_irq_stub_no := r 31, g_irq_stub_r := (\<lambda>i. if i \<le> 6 then r i else g_irq_stub_r s i)\<rparr>)"

section \<open>Ports and instructions\<close>

text \<open>The port functions are the \<open>IN\<close> and \<open>OUT\<close> instructions of the machine.\<close>

lemma port_number:
  assumes "addr < (0xF0 :: u32)"
  obtains n where "unat addr = n" "n < 240" "sint addr = int n" "\<forall>k<240. addr = of_nat k \<longleftrightarrow> n = k"
proof -
  have n: "unat addr < 240" using assms by (simp add: word_less_nat_alt)
  then have "sint addr = int (unat addr)" by (intro sint_small) simp
  moreover have "addr = of_nat k \<longleftrightarrow> unat addr = k" if "k < 240" for k
    using that by (auto simp: unsigned_of_nat take_bit_nat_eq_self)
  ultimately show ?thesis using n that by blast
qed

lemma io_in32_is_in:
  assumes "rd_reg c (i_rs1 i) v = Inr addr" "addr < 0xF0"
  shows "op_in c i v = (case io_in32 addr v of (x, v) \<Rightarrow> wr_reg c (i_rd i) x v)"
proof -
  obtain n where n: "unat addr = n" "n < 240" "sint addr = int n" "\<forall>k<240. addr = of_nat k \<longleftrightarrow> n = k"
    by (rule port_number [OF assms(2)])
  show ?thesis
    using assms(1) n(1-3) n(4) [THEN spec, of 2] n(4) [THEN spec, of 3] by (simp add: op_in_def io_in32_def Let_def split: prod.split)
qed

lemma io_out32_is_out:
  assumes "rd_reg c (i_rs1 i) v = Inr addr" "rd_reg c (i_rd i) v = Inr x" "addr < 0xF0"
  shows "op_out c i v = Inr (io_out32 addr x v)"
proof -
  obtain n where "n < 240" "sint addr = int n" by (rule port_number [OF assms(3)])
  then show ?thesis using assms(1,2) by (simp add: op_out_def io_out32_def Let_def)
qed

section \<open>Draining the serial line\<close>

lemma console_more_same:
  assumes "sched.more s' = sched.more (s :: 'a console_scheme)"
  shows "console.more s' = console.more s"
  using assms by (cases s'; cases s; simp)

lemma echo_more [simp]:
  "console.more (console_echo_data_char c s) = console.more s" "console.more (console_echo_backspace s) = console.more s"
  "console.more (console_echo_intr s) = console.more s"
  by (simp_all add: console_echo_data_char_def console_echo_backspace_def console_echo_intr_def fb_putc_def)

lemma enqueue_more [simp]: "console.more (console_rx_enqueue_char c e s) = console.more s"
  by (simp add: console_rx_enqueue_char_def Let_def console_more_same [OF sched_more(1)])

lemma pop_more [simp]: "console.more (snd (console_rx_pop_last_editable s)) = console.more s"
  by (simp add: console_rx_pop_last_editable_def Let_def)

lemma kill_more:
  assumes "kill_loop s = Some s'"
  shows "console.more s' = console.more s"
proof (rule kill_loop.raw_induct [OF _ assms], goal_cases)
  case (1 f s s')
  obtain b u where u: "console_rx_pop_last_editable s = (b, u)" by (cases "console_rx_pop_last_editable s")
  have "console.more u = console.more s" using pop_more [of s] u by simp
  then show ?case using 1(1) [of "console_echo_backspace u" s'] 1(2) u by (cases b) simp_all
qed

lemma feed_more:
  assumes "console_rx_feed c s = Some s'"
  shows "console.more s' = console.more s"
proof -
  obtain b u where u: "console_rx_pop_last_editable s = (b, u)" by (cases "console_rx_pop_last_editable s")
  have "console.more u = console.more s" using pop_more [of s] u by simp
  then show ?thesis
    using assms u kill_more [of s] by (auto simp: console_rx_feed_def Let_def split: if_splits)
qed

lemma machine_same:
  assumes "console.more s' = console.more (s :: 'a traps_scheme)"
  shows "machine s' = machine s" "g_trap_ready s' = g_trap_ready s" "g_trap_table s' = g_trap_table s" "g_irq_mask s' = g_irq_mask s"
  using assms by (cases s'; cases s; simp)+

lemma machine_upd [simp]:
  "console_ok (s\<lparr>machine := v\<rparr>) = console_ok s" "rx_content (s\<lparr>machine := v\<rparr>) = rx_content s"
  "rx_becomes (s\<lparr>machine := v\<rparr>) xs s' = rx_becomes s xs s'"
  by (simp_all add: console_ok_def rx_content_def rx_becomes_def eofs_ok_def)

lemma ready_bit: "(x AND 0xFF) AND 1 \<noteq> (0 :: u32) \<longleftrightarrow> bit x 0"
proof -
  have "(x AND 0xFF) AND 1 = x AND 1" by (simp add: and.assoc)
  then show ?thesis by (simp add: and_one_eq odd_iff_mod_2_eq_one bit_0)
qed

lemma drain_becomes:
  assumes "console_ok s" "serial_ok (machine s)"
  shows "\<exists>s'. serial_drain_rx s = Some s' \<and> serial_ok (machine s') \<and> serial_content (machine s') = []
           \<and> rx_becomes s (fold (tty_feed (g_tty_lflag s)) (serial_content (machine s)) (rx_content s)) s'"
  using assms
proof (induction "serial_content (machine s)" arbitrary: s)
  case Nil
  have "\<not> bit (io (machine s) 2) 0" using serial_ready_content [OF Nil.prems(2)] Nil.hyps by simp
  then have "serial_drain_rx s = Some (s\<lparr>machine := machine s\<rparr>)"
    by (subst serial_drain_rx.simps) (simp add: port_in_def io_in32_def ready_bit del: traps.surjective)
  then show ?case using Nil rx_becomes_simps(3) [OF Nil.prems(1)] by simp
next
  case (Cons x xs)
  let ?v = "snd (serial_rx_read (machine s))"
  have d: "ucast (fst (serial_rx_read (machine s))) = x" "serial_ok ?v" "serial_content ?v = xs"
    using serial.deq_cons [OF Cons.prems(2) Cons.hyps(2) [symmetric]] by (auto simp: serial_deq_def split: if_splits)
  obtain u where u: "console_rx_feed x (s\<lparr>machine := ?v\<rparr>) = Some u"
      "rx_becomes s (tty_feed (g_tty_lflag s) x (rx_content s)) u"
    using feed_becomes [of "s\<lparr>machine := ?v\<rparr>" x] Cons.prems(1) by auto
  have m: "machine u = ?v" using machine_same(1) [OF feed_more [OF u(1)]] by simp
  have "bit (io (machine s) 2) 0" using serial_ready_content [OF Cons.prems(2)] Cons.hyps(2) by (metis list.distinct(1))
  then have "serial_drain_rx s = serial_drain_rx u"
    using d(1) u(1) by (subst serial_drain_rx.simps) (simp add: port_in_def io_in32_def ready_bit case_prod_unfold)
  moreover obtain s' where "serial_drain_rx u = Some s'" "serial_ok (machine s')" "serial_content (machine s') = []"
      "rx_becomes u (fold (tty_feed (g_tty_lflag u)) xs (rx_content u)) s'"
    using Cons.hyps(1) [of u] d(2,3) m u(2) by (auto simp: rx_becomes_def)
  ultimately show ?case
    using rx_becomes_trans [OF u(2)] u(2) by (auto simp: rx_becomes_def Cons.hyps(2) [symmetric])
qed

lemma traps_more_same:
  assumes "console.more s' = console.more (s :: 'a traps_scheme)"
  shows "traps.more s' = traps.more s"
  using assms by (cases s'; cases s; simp)

lemma drain_more:
  assumes "serial_drain_rx s = Some s'"
  shows "traps.more s' = traps.more s"
proof (rule serial_drain_rx.raw_induct [OF _ assms], goal_cases)
  case (1 f s s')
  have "traps.more v = traps.more u" if "console_rx_feed c u = Some v" for c u and v :: "'a traps_scheme"
    using traps_more_same [OF feed_more [OF that]] .
  then show ?case using 1 by (auto simp: port_in_def case_prod_unfold Option.bind_eq_Some_conv split: if_splits)
qed

section \<open>The table after initialisation\<close>

lemma ivt_entry_fields [simp]:
  "g_trap_table (ivt_write_entry n a s) = g_trap_table s" "g_irq_mask (ivt_write_entry n a s) = g_irq_mask s"
  by (simp_all add: ivt_write_entry_def Let_def)

definition vector_at :: "(u32 \<Rightarrow> u8) \<Rightarrow> nat \<Rightarrow> u64" where
  "vector_at m n = join64 (load32 m (of_nat (8 * n))) (load32 m (of_nat (8 * n + 4)))"

lemma ivt_entry_written:
  assumes "k < 256" "n < 256"
  shows "vector_at (umem (ivt_write_entry (of_nat k) a s)) n = (if n = k then join64 a 0 else vector_at (umem s) n)"
proof -
  have u: "unat (of_nat m :: u32) = m" if "m < 4096" for m using that by (simp add: unsigned_of_nat take_bit_nat_eq_self)
  have e: "umem (ivt_write_entry (of_nat k) a s) = store32 (store32 (umem s) (of_nat (8 * k)) a) (of_nat (8 * k + 4)) 0"
    by (simp add: ivt_write_entry_def Let_def ac_simps)
  have o: "load32 (store32 m (of_nat p) x) (of_nat q) = load32 m (of_nat q)"
    if "p < 4096" "q < 4096" "p + 4 \<le> q \<or> q + 4 \<le> p" for m p q x
    using that u [of p] u [of q] by (intro load32_store32_other) auto
  show ?thesis
  proof (cases "n = k")
    case True
    then show ?thesis using assms o [of "8 * k + 4" "8 * k"] unfolding e vector_at_def by simp
  next
    case False
    then have "n < k \<or> k < n" by auto
    then show ?thesis
      using False assms o [of "8 * k + 4" "8 * n"] o [of "8 * k + 4" "8 * n + 4"] o [of "8 * k" "8 * n"] o [of "8 * k" "8 * n + 4"]
      unfolding e vector_at_def by auto
  qed
qed

lemma ivt_loop:
  assumes "m \<le> 256"
  shows "let s' = fold (init_vector stub) [0..<m] s in
           (\<forall>n<256. vector_at (umem s') n = (if n < m then join64 stub 0 else vector_at (umem s) n))
           \<and> (\<forall>n<m. g_trap_table s' n = Some Irq_default)"
  using assms
proof (induction m)
  case (Suc m)
  let ?s = "fold (init_vector stub) [0..<m] s"
  have "vector_at (umem (init_vector stub m ?s)) n = (if n = m then join64 stub 0 else vector_at (umem ?s) n)" if "n < 256" for n
    using ivt_entry_written [of m n stub "?s\<lparr>g_trap_table := (g_trap_table ?s)(m := Some Irq_default)\<rparr>"] that Suc.prems
    by (simp add: init_vector_def)
  moreover have "g_trap_table (init_vector stub m ?s) = (g_trap_table ?s)(m := Some Irq_default)" by (simp add: init_vector_def)
  moreover have "\<forall>n<256. vector_at (umem ?s) n = (if n < m then join64 stub 0 else vector_at (umem s) n)"
    "\<forall>n<m. g_trap_table ?s n = Some Irq_default"
    using Suc by (simp_all add: Let_def)
  moreover have "m < 256" using Suc.prems by simp
  ultimately show ?case by (simp add: Let_def less_Suc_eq)
qed simp

lemma mask_loop: "g_irq_mask (fold (\<lambda>i s. s\<lparr>g_irq_mask := (g_irq_mask s)(i := 0)\<rparr>) [0..<m] s) = (\<lambda>i. if i < m then 0 else g_irq_mask s i)"
  by (induction m) auto

lemma mask_loop_fields [simp]:
  "g_trap_table (fold (\<lambda>i s. s\<lparr>g_irq_mask := (g_irq_mask s)(i := 0)\<rparr>) [0..<m] s) = g_trap_table s"
  "umem (fold (\<lambda>i s. s\<lparr>g_irq_mask := (g_irq_mask s)(i := 0)\<rparr>) [0..<m] s) = umem s"
  by (induction m) auto

lemma register_fields [simp]:
  "umem (trap_register n hh s) = umem s" "g_irq_mask (trap_register n hh s) = g_irq_mask s"
  "n < 256 \<Longrightarrow> g_trap_table (trap_register n (Some h) s) = (g_trap_table s)(unat n := Some h)"
  "umem (unmask_irq n s) = umem s" "g_trap_table (unmask_irq n s) = g_trap_table s"
  by (auto simp: trap_register_def unmask_irq_def word_le_nat_alt word_less_nat_alt)

lemma trap_init_table:
  "g_trap_ready (trap_init stub s)"
  "n < 256 \<Longrightarrow> vector_at (umem (trap_init stub s)) n = join64 stub 0"
  "n < 256 \<Longrightarrow> g_trap_table (trap_init stub s) n =
     Some (if n = 0 then Irq_keyboard else if n = 1 then Irq_divide_by_zero else if n = 2 then Irq_disk_complete
           else if n = 3 then Irq_serial else if n = 4 then Irq_timer else if n = 128 then Irq_syscall else Irq_default)"
  "w < 8 \<Longrightarrow> g_irq_mask (trap_init stub s) w = (if w = 0 then 0x1F else if w = 4 then 1 else 0)"
proof -
  let ?s = "fold (init_vector stub) [0..<256] s"
  note f = ivt_loop [of 256, simplified Let_def, OF order.refl]
  show "g_trap_ready (trap_init stub s)" by (simp add: trap_init_def Let_def)
  show "n < 256 \<Longrightarrow> vector_at (umem (trap_init stub s)) n = join64 stub 0"
    using f [of stub s] by (simp add: trap_init_def Let_def)
  show "n < 256 \<Longrightarrow> g_trap_table (trap_init stub s) n =
     Some (if n = 0 then Irq_keyboard else if n = 1 then Irq_divide_by_zero else if n = 2 then Irq_disk_complete
           else if n = 3 then Irq_serial else if n = 4 then Irq_timer else if n = 128 then Irq_syscall else Irq_default)"
    using f [of stub s] by (simp add: trap_init_def Let_def)
  show "w < 8 \<Longrightarrow> g_irq_mask (trap_init stub s) w = (if w = 0 then 0x1F else if w = 4 then 1 else 0)"
    by (simp add: trap_init_def Let_def mask_loop unmask_irq_def)
qed

lemma unmasked:
  assumes "n < (256 :: u32)"
  shows "g_irq_mask (trap_init stub s) (unat (n div 32)) AND push_bit (unat (n mod 32)) 1 = 0 \<longleftrightarrow> \<not> (n < 5 \<or> n = 128)"
proof -
  define m where "m = unat n"
  have m: "m < 256" using assms by (simp add: m_def word_less_nat_alt)
  have d: "unat (n div 32) = m div 32" "unat (n mod 32) = m mod 32" by (simp_all add: m_def unat_div unat_mod)
  have "g_irq_mask (trap_init stub s) (m div 32) AND push_bit (m mod 32) 1 = 0
        \<longleftrightarrow> \<not> bit (g_irq_mask (trap_init stub s) (m div 32)) (m mod 32)"
    using and_exp_eq_0_iff_not_bit [of _ "m mod 32"] by (simp add: push_bit_eq_mult)
  also have "bit (g_irq_mask (trap_init stub s) (m div 32)) (m mod 32) \<longleftrightarrow> m < 5 \<or> m = 128"
  proof -
    have "(0x1F :: u32) = mask 5" by (simp add: mask_eq_exp_minus_1)
    then have "bit (0x1F :: u32) k \<longleftrightarrow> k < 5" if "k < 32" for k using that by (simp only: bit_mask_iff) simp
    moreover have "bit (1 :: u32) k \<longleftrightarrow> k = 0" for k by (simp add: bit_1_iff)
    ultimately show ?thesis using trap_init_table(4) [of "m div 32" stub s] m by (auto split: if_splits)
  qed
  finally show ?thesis unfolding d by (simp add: m_def word_less_nat_alt word_unat_eq_iff)
qed

lemma dispatch_to:
  assumes "g_trap_ready t" "n < 256" "g_irq_mask t (unat (n div 32)) AND push_bit (unat (n mod 32)) 1 \<noteq> 0" "g_trap_table t (unat n) = Some h"
  shows "trap_dispatch run irq n t = call_handler run irq h n t"
  using assms leD [of 256 n] by (auto simp: trap_dispatch_def)

text \<open>C27: After \<open>trap_init\<close> every vector of the machine's interrupt table leads to the kernel's stub, and the dispatcher
  runs for each interrupt number exactly its handler: keyboard, division, disk, serial, timer and system call; every other
  number is masked and changes nothing.\<close>

theorem traps_are_routed:
  "list_all (\<lambda>k. vector_at (umem (trap_init stub s)) k = ucast stub) [0..<256]
   \<and> trap_dispatch run irq n (trap_init stub s) =
       (if n = IRQ_KEYBOARD then irq_keyboard n (trap_init stub s)
        else if n = IRQ_DIVIDE_BY_ZERO then irq_divide_by_zero n (trap_init stub s)
        else if n = IRQ_DISK_COMPLETE then irq_disk_complete n (trap_init stub s)
        else if n = IRQ_SERIAL then irq_serial n (trap_init stub s)
        else if n = IRQ_TIMER then irq_timer n (trap_init stub s)
        else if n = IRQ_SYSCALL then irq_syscall run irq n (trap_init stub s)
        else Done (trap_init stub s))"
proof
  have "join64 stub 0 = ucast stub" by (simp add: join64_def)
  then show "list_all (\<lambda>k. vector_at (umem (trap_init stub s)) k = ucast stub) [0..<256]"
    by (simp add: list_all_iff trap_init_table(2))
  show "trap_dispatch run irq n (trap_init stub s) =
       (if n = IRQ_KEYBOARD then irq_keyboard n (trap_init stub s)
        else if n = IRQ_DIVIDE_BY_ZERO then irq_divide_by_zero n (trap_init stub s)
        else if n = IRQ_DISK_COMPLETE then irq_disk_complete n (trap_init stub s)
        else if n = IRQ_SERIAL then irq_serial n (trap_init stub s)
        else if n = IRQ_TIMER then irq_timer n (trap_init stub s)
        else if n = IRQ_SYSCALL then irq_syscall run irq n (trap_init stub s)
        else Done (trap_init stub s))"
  proof (cases "n < 256 \<and> (n < 5 \<or> n = 128)")
    case True
    have u: "g_irq_mask (trap_init stub s) (unat (n div 32)) AND push_bit (unat (n mod 32)) 1 \<noteq> 0"
      using True unmasked [of n stub s] by blast
    have k: "unat n < 256" using True by (simp add: word_less_nat_alt)
    have "unat n < 5 \<or> unat n = 128" using True by (auto simp: word_less_nat_alt)
    then have "unat n = 0 \<or> unat n = 1 \<or> unat n = 2 \<or> unat n = 3 \<or> unat n = 4 \<or> unat n = 128" by linarith
    then have "n = 0 \<or> n = 1 \<or> n = 2 \<or> n = 3 \<or> n = 4 \<or> n = 128" by (simp add: word_unat_eq_iff)
    then consider "n = 0" | "n = 1" | "n = 2" | "n = 3" | "n = 4" | "n = 128" by blast
    then show ?thesis
      by cases (use dispatch_to [OF trap_init_table(1) _ u trap_init_table(3) [OF k]] in simp_all)
  next
    case False
    then have n: "n \<notin> {0, 1, 2, 3, 4, 128}" by auto
    have "\<not> n < 256 \<or> g_irq_mask (trap_init stub s) (unat (n div 32)) AND push_bit (unat (n mod 32)) 1 = 0"
      using False unmasked [of n stub s] by blast
    then have "trap_dispatch run irq n (trap_init stub s) = Done (trap_init stub s)"
      by (auto simp: trap_dispatch_def)
    then show ?thesis using n by simp
  qed
qed

section \<open>From the keyboard to a reader\<close>

lemma count_irq_fields [simp]:
  "console_ok (count_irq n s) = console_ok s" "rx_content (count_irq n s) = rx_content s" "machine (count_irq n s) = machine s"
  "g_tty_lflag (count_irq n s) = g_tty_lflag s" "rx_becomes (count_irq n s) xs s' = rx_becomes s xs s'"
  by (simp_all add: count_irq_def console_ok_def rx_content_def rx_becomes_def eofs_ok_def)

lemma irq_serial_becomes:
  assumes "console_ok s" "serial_ok (machine s)"
  shows "\<exists>s'. irq_serial n s = Done s' \<and> serial_ok (machine s') \<and> serial_content (machine s') = []
           \<and> rx_becomes s (fold (tty_feed (g_tty_lflag s)) (serial_content (machine s)) (rx_content s)) s'
           \<and> traps.more s' = traps.more s"
proof -
  have "traps.more (count_irq n s) = traps.more s" by (simp add: count_irq_def)
  then show ?thesis
    using drain_becomes [of "count_irq n s"] drain_more [of "count_irq n s"] assms by (auto simp: irq_serial_def returned_def)
qed

text \<open>C28: The handler of the serial interrupt always ends. It empties the receive ring of the machine and passes every
  byte, in order, through the line editor of the console, and the serial status says that nothing waits.\<close>

theorem serial_interrupt_drains:
  assumes "console_ok s" "serial_ok (machine s)"
  shows "\<exists>s'. irq_serial n s = Done s' \<and> serial_content (machine s') = [] \<and> fst (port_in IO_SERIAL_STATUS s') AND SERIAL_STATUS_RX_READY = 0
           \<and> console_ok s' \<and> rx_content s' = fold (tty_feed (g_tty_lflag s)) (serial_content (machine s)) (rx_content s)"
proof -
  obtain s' where s': "irq_serial n s = Done s'" "serial_ok (machine s')" "serial_content (machine s') = []"
      "rx_becomes s (fold (tty_feed (g_tty_lflag s)) (serial_content (machine s)) (rx_content s)) s'"
    using irq_serial_becomes [OF assms] by blast
  then have "fst (port_in IO_SERIAL_STATUS s') AND SERIAL_STATUS_RX_READY = 0"
    using serial_ready_content [OF s'(2)] ready_bit [of "io (machine s') 2"] by (auto simp: port_in_def io_in32_def)
  then show ?thesis using s' by (auto simp: rx_becomes_def)
qed

definition serial_routed :: "'a traps_scheme \<Rightarrow> bool" where
  "serial_routed s \<longleftrightarrow> g_trap_ready s \<and> g_trap_table s 3 = Some Irq_serial \<and> bit (g_irq_mask s 0) 3"

lemma serial_routed_entry:
  assumes "serial_routed s"
  shows "\<exists>u. irq_common_entry run irq IRQ_SERIAL s = irq_serial IRQ_SERIAL u \<and> machine u = machine s \<and> console_ok u = console_ok s
           \<and> rx_content u = rx_content s \<and> g_tty_lflag u = g_tty_lflag s \<and> traps.more u = traps.more s"
proof -
  let ?u = "s\<lparr>g_last_trap_frame := \<lparr>frame_irq_no = IRQ_SERIAL, dispatch_count = dispatch_count (g_last_trap_frame s) + 1,
                                  tick_snapshot = sched_ticks s\<rparr>\<rparr>"
  have "g_irq_mask s 0 AND 8 \<noteq> 0"
    using assms and_exp_eq_0_iff_not_bit [of "g_irq_mask s 0" 3] by (simp add: serial_routed_def)
  then have "irq_common_entry run irq IRQ_SERIAL s = irq_serial IRQ_SERIAL ?u"
    using assms by (simp add: irq_common_entry_def trap_dispatch_def serial_routed_def)
  then show ?thesis by (intro exI [of _ ?u]) (simp add: console_ok_def rx_content_def)
qed

text \<open>The keys of a line, from the events of the window to the input queue of the console.\<close>

lemma keys_arrive:
  assumes "console_ok s" "rx_content s = []" "serial_ok (machine s)" "serial_content (machine s) = []" "serial_routed s"
    "list_all plain_byte line" "length line < 255" "typed k es = line @ [10]"
  shows "\<exists>s'. irq_common_entry run irq IRQ_SERIAL (s\<lparr>machine := display_poll_events k es (machine s)\<rparr>) = Done s'
           \<and> serial_content (machine s') = [] \<and> console_ok s' \<and> rx_content s' = line @ [10] \<and> g_tty_lflag s' = g_tty_lflag s
           \<and> traps.more s' = traps.more s"
proof -
  let ?v = "display_poll_events k es (machine s)"
  have v: "serial_ok ?v" "serial_content ?v = line @ [10]"
    using poll_serial [OF assms(3), of k es] assms(4,7,8) by simp_all
  obtain u where u: "irq_common_entry run irq IRQ_SERIAL (s\<lparr>machine := ?v\<rparr>) = irq_serial IRQ_SERIAL u" "machine u = ?v" "console_ok u"
      "rx_content u = []" "g_tty_lflag u = g_tty_lflag s" "traps.more u = traps.more s"
    using serial_routed_entry [of "s\<lparr>machine := ?v\<rparr>"] assms(1,2,5) by (auto simp: serial_routed_def)
  have "fold (tty_feed (g_tty_lflag s)) (line @ [10]) [] = line @ [10]"
    using fold_plain [of line "[]"] assms(6,7) by (simp add: tty_feed_def)
  then obtain s' where "irq_serial IRQ_SERIAL u = Done s'" "serial_content (machine s') = []" "rx_becomes u (line @ [10]) s'"
      "traps.more s' = traps.more u"
    using irq_serial_becomes [of u IRQ_SERIAL] u(2-5) v by auto
  then show ?thesis using u by (auto simp: rx_becomes_def)
qed

text \<open>With the receive interrupt enabled, the first key raises the serial interrupt on core 0.\<close>

lemma keys_ring:
  assumes "serial_ok v" "serial_content v = []" "bit (io v SCREEN_ATTRIBUTE) 8" "0 < smp_cores v" "typed k es \<noteq> []"
  shows "pending (display_poll_events k es v) 0 3"
proof -
  let ?e = "\<lambda>x v. snd (vm_serial_rx_enqueue x v)"
  obtain x xs where x: "typed k es = x # xs" using assms(5) by (cases "typed k es") auto
  have kept: "pending (?e q w) 0 3" if "pending w 0 3" for q w
    using that by (auto simp: vm_serial_rx_enqueue_def Let_def trigger_interrupt_def trigger_interrupt_target_def
        set_io_def pending_def bit_simps)
  have "serial_rx_head v = serial_rx_tail v" using assms(1,2) serial_ready_content [OF assms(1)] by (simp add: serial_ok_def)
  moreover have "(serial_rx_tail v + 1) AND 0xFF \<noteq> serial_rx_tail v"
    using assms(1) unat_next [of "serial_rx_tail v"] by (auto simp: serial_ok_def mod_Suc word_unat_eq_iff split: if_splits)
  moreover have "drop_bit 8 (io v SCREEN_ATTRIBUTE OR 1) AND 1 \<noteq> 0"
    using assms(3) by (simp add: and_one_eq odd_iff_mod_2_eq_one [symmetric] bit_0 [symmetric] bit_simps)
  moreover have "pending (trigger_interrupt 3 w) 0 3" if "0 < smp_cores w" for w
    using pending_trigger [of 0 w 3 3 0] that by (simp add: trigger_interrupt_def)
  ultimately have "pending (?e x v) 0 3" using assms(4) by (simp add: vm_serial_rx_enqueue_def Let_def set_io_def)
  moreover have "pending (fold ?e xs w) 0 3" if "pending w 0 3" for w
    using that by (induction xs arbitrary: w) (simp_all add: kept)
  ultimately show ?thesis by (simp add: poll_enqueues x pending_def)
qed

text \<open>C8: A line typed in the window of the host reaches a reader in the guest: the text and keys, whatever
  events they come in, go through the serial line of the machine; the serial interrupt moves them to the console; and a read of the console in
  canonical mode returns the line with a newline.\<close>

theorem typed_line_is_read:
  assumes "console_ok s" "rx_content s = []" "bit (g_tty_lflag s) 1"
    "serial_ok (machine s)" "serial_content (machine s) = []" "serial_routed s"
    "list_all plain_byte line" "length line < 255" "length line < unat len" "typed k es = line @ [10]"
  shows "\<exists>s' s''. irq_common_entry run irq IRQ_SERIAL (s\<lparr>machine := display_poll_events k es (machine s)\<rparr>) = Done s'
           \<and> serial_content (machine s') = [] \<and> console_can_read s'
           \<and> console_read True len nonblock s' = (int (length line + 1), line @ [10], s'')"
proof -
  obtain s' where s': "irq_common_entry run irq IRQ_SERIAL (s\<lparr>machine := display_poll_events k es (machine s)\<rparr>) = Done s'"
      "serial_content (machine s') = []" "console_ok s'" "rx_content s' = line @ [10]" "bit (g_tty_lflag s') 1"
    using keys_arrive [OF assms(1,2,4-8,10)] assms(3) by metis
  from canonical_read [OF s'(3-5) assms(7,9)] show ?thesis using s'(1,2) by fastforce
qed

definition demo_traps :: traps where
  "demo_traps = trap_init 0x1000 (kernel.extend demo_kernel
     \<lparr>g_klog_level = 3, g_trap_table = \<lambda>_. None, g_trap_ready = False, g_irq_mask = \<lambda>_. 0, g_irq_counts = \<lambda>_. 0,
      g_last_trap_frame = \<lparr>frame_irq_no = 0, dispatch_count = 0, tick_snapshot = 0\<rparr>, g_fault_div0 = False,
      g_irq_stub_no = 0, g_irq_stub_r = \<lambda>_. 0, machine = demo_vm\<rparr>)"

lemma fold_keeps: "(\<And>i s. f (g i s) = f s) \<Longrightarrow> f (fold g xs s) = f s"
  by (induction xs arbitrary: s) auto

lemma trap_init_keeps:
  assumes "\<And>i a s. f (ivt_write_entry i a s) = f s" "\<And>s g. f (s\<lparr>g_trap_table := g\<rparr>) = f s" "\<And>s g. f (s\<lparr>g_irq_mask := g\<rparr>) = f s"
    "\<And>s. f (s\<lparr>g_trap_ready := True\<rparr>) = f s"
  shows "f (trap_init stub s) = f s"
proof -
  have "f (trap_register n h s) = f s" "f (unmask_irq n s) = f s" "f (init_vector stub i s) = f s" for n h i s
    by (simp_all add: trap_register_def unmask_irq_def init_vector_def assms)
  moreover have "f (fold (init_vector stub) xs s) = f s" for xs s by (rule fold_keeps) fact
  moreover have "f (fold (\<lambda>i s. s\<lparr>g_irq_mask := (g_irq_mask s)(i := 0)\<rparr>) xs s) = f s" for xs s
    by (rule fold_keeps) (rule assms)
  ultimately show ?thesis by (simp add: trap_init_def Let_def assms)
qed

lemma demo_traps:
  "console_ok demo_traps" "rx_content demo_traps = []" "g_tty_lflag demo_traps = 7" "machine demo_traps = demo_vm" "serial_routed demo_traps"
proof -
  let ?k = "kernel.extend demo_kernel
     \<lparr>g_klog_level = 3, g_trap_table = \<lambda>_. None, g_trap_ready = False, g_irq_mask = \<lambda>_. 0, g_irq_counts = \<lambda>_. 0,
      g_last_trap_frame = \<lparr>frame_irq_no = 0, dispatch_count = 0, tick_snapshot = 0\<rparr>, g_fault_div0 = False,
      g_irq_stub_no = 0, g_irq_stub_r = \<lambda>_. 0, machine = demo_vm\<rparr> :: traps"
  note keep = trap_init_keeps [where stub = "0x1000" and s = ?k, folded demo_traps_def]
  have f: "g_rx_head demo_traps = 0" "g_rx_tail demo_traps = 0" "g_rx_lines demo_traps = 0" "g_tty_lflag demo_traps = 7" "machine demo_traps = demo_vm"
    using keep [where f = g_rx_head] keep [where f = g_rx_tail] keep [where f = g_rx_lines] keep [where f = g_tty_lflag] keep [where f = machine]
    by (simp_all add: ivt_write_entry_def Let_def demo_kernel_def kernel.defs sched.defs)
  then show "console_ok demo_traps" "rx_content demo_traps = []" "g_tty_lflag demo_traps = 7" "machine demo_traps = demo_vm"
    by (simp_all add: console_ok_def rx_content_def ring_content_def)
  show "serial_routed demo_traps"
    using trap_init_table(1) [where stub = "0x1000" and s = ?k, folded demo_traps_def]
      trap_init_table(3) [where n = 3 and stub = "0x1000" and s = ?k, folded demo_traps_def]
      trap_init_table(4) [where w = 0 and stub = "0x1000" and s = ?k, folded demo_traps_def] by (simp add: serial_routed_def)
qed

theorem serial_interrupt_drains_witness:
  "\<exists>s'. irq_serial 3 demo_traps = Done s' \<and> serial_content (machine s') = []"
  using serial_interrupt_drains [OF demo_traps(1), of 3] demo_traps(4) demo_serial_ok by auto

theorem typed_line_is_read_witness:
  "\<exists>s' s''. irq_common_entry (\<lambda>e i a s. s) (\<lambda>n k s. s) 3
       (demo_traps\<lparr>machine := display_poll_events demo_keys [SDL_TEXTINPUT [108, 115], SDL_KEYDOWN False 13] (machine demo_traps)\<rparr>) = Done s'
     \<and> console_read True 64 False s' = (3, [108, 115, 10], s'')"
proof -
  have "list_all plain_byte [108, 115]" "bit (g_tty_lflag demo_traps) 1" "serial_content (machine demo_traps) = []"
    using demo_traps(3,4) by (simp_all add: plain_byte_def serial_content_def ring_content_def)
  moreover have "typed demo_keys [SDL_TEXTINPUT [108, 115], SDL_KEYDOWN False 13] = [108, 115] @ [10]"
    by (simp add: typed_def event_bytes_def demo_keys_def)
  ultimately show ?thesis
    using typed_line_is_read [OF demo_traps(1,2) _ _ _ demo_traps(5), of "[108, 115]" 64 demo_keys
        "[SDL_TEXTINPUT [108, 115], SDL_KEYDOWN False 13]"] demo_traps(4) demo_serial_ok by fastforce
qed

end
