(* ===== verification/InitTask.thy ===== *)
theory InitTask
  imports FdPass Trap
begin

text \<open>
  The init task of the guest kernel (\<open>kernel/src/init_task.c\<close>): a command line on the console. Each time the scheduler
  calls the task it takes at most one byte of input; a line is collected in a buffer of 128 bytes and a newline runs
  it as a command.

  C strings are byte lists without the final zero, and the null checks of the string functions are never taken. The
  buffer is an array of bytes; \<open>line_string\<close> reads it up to its first zero.
\<close>

section \<open>State and strings\<close>

record inits = traps +
  init_line :: "nat \<Rightarrow> u8"
  init_len :: u32
  init_started :: u32

abbreviation (input) INIT_LINE_CAP :: u32 where "INIT_LINE_CAP \<equiv> 128"

definition init_puts :: "u8 list \<Rightarrow> 'a console_scheme \<Rightarrow> 'a console_scheme" where
  "init_puts str s = (if length str \<noteq> 0 then snd (console_write (Some str) s) else s)"

fun init_streq :: "u8 list \<Rightarrow> u8 list \<Rightarrow> bool" where
  "init_streq (a # as) (b # bs) = (if a \<noteq> b then False else init_streq as bs)"
| "init_streq as bs = (as = [] \<and> bs = [])"

fun init_starts_with :: "u8 list \<Rightarrow> u8 list \<Rightarrow> bool" where
  "init_starts_with str [] = True"
| "init_starts_with [] (p # ps) = False"
| "init_starts_with (c # cs) (p # ps) = (if c \<noteq> p then False else init_starts_with cs ps)"

definition line_string :: "'a inits_scheme \<Rightarrow> u8 list" where
  "line_string s = takeWhile (\<lambda>c. c \<noteq> 0) (List.map (init_line s) [0..<128])"

section \<open>Commands\<close>

definition init_prompt :: "'a console_scheme \<Rightarrow> 'a console_scheme" where
  "init_prompt = init_puts (cstr ''init$ '')"

definition init_show_tty_mode :: "'a console_scheme \<Rightarrow> 'a console_scheme" where
  "init_show_tty_mode s =
     (let s = init_puts (cstr ''tty lflag='') s;
          s = kprint_hex32 (console_tty_get_lflag s) s;
          s = init_puts (cstr '' ['') s;
          s = (if console_tty_get_lflag s AND TTY_LFLAG_ECHO \<noteq> 0 then init_puts (cstr ''ECHO '') s else s);
          s = (if console_tty_get_lflag s AND TTY_LFLAG_ICANON \<noteq> 0 then init_puts (cstr ''ICANON '') s else s);
          s = (if console_tty_get_lflag s AND TTY_LFLAG_ISIG \<noteq> 0 then init_puts (cstr ''ISIG '') s else s) in
      init_puts (cstr '']'' @ [10]) s)"

definition init_set_flag :: "u32 \<Rightarrow> bool \<Rightarrow> 'a console_scheme \<Rightarrow> 'a console_scheme" where
  "init_set_flag flag on s =
     (let v = console_tty_get_lflag s;
          v = (if on then v OR flag else v AND NOT flag);
          (_, s) = console_tty_set_lflag v s in
      init_show_tty_mode s)"

definition init_show_poll_state :: "'a console_scheme \<Rightarrow> 'a console_scheme" where
  "init_show_poll_state s =
     (let s = init_puts (cstr ''stdin can_read='') s;
          s = kprint_hex32 (if console_can_read s then 1 else 0) s;
          s = init_puts (cstr '' lines='') s;
          s = kprint_hex32 (console_rx_lines s) s;
          s = init_puts (cstr '' dropped='') s;
          s = kprint_hex32 (console_rx_dropped s) s in
      init_puts [10] s)"

definition init_set_log_level :: "u8 list \<Rightarrow> 'a klogs_scheme \<Rightarrow> 'a klogs_scheme" where
  "init_set_log_level lvl s =
     (let show_level = (\<lambda>s. init_puts [10] (kprint_hex32 (klog_get_level s) (init_puts (cstr ''log level='') s))) in
      if init_streq lvl (cstr ''err'') then show_level (klog_set_level KLOG_LEVEL_ERROR s)
      else if init_streq lvl (cstr ''warn'') then show_level (klog_set_level KLOG_LEVEL_WARN s)
      else if init_streq lvl (cstr ''info'') then show_level (klog_set_level KLOG_LEVEL_INFO s)
      else if init_streq lvl (cstr ''debug'') then show_level (klog_set_level KLOG_LEVEL_DEBUG s)
      else init_puts (cstr ''usage: log <err|warn|info|debug>'' @ [10]) s)"

definition init_help :: "'a console_scheme \<Rightarrow> 'a console_scheme" where
  "init_help s =
     fold (\<lambda>l. init_puts (cstr l @ [10]))
       [''commands:'', ''  help'', ''  tty'', ''  tty echo <on|off>'', ''  tty canon <on|off>'', ''  tty isig <on|off>'',
        ''  log <err|warn|info|debug>'', ''  poll'', ''  clear'', ''  fdtest''] s"

definition init_handle_cmd ::
  "'a klogs_scheme runs \<Rightarrow> 'a klogs_scheme irqs \<Rightarrow> fdtest_data \<Rightarrow> u8 list \<Rightarrow> 'a klogs_scheme \<Rightarrow> 'a klogs_scheme option" where
  "init_handle_cmd run irq d line s =
     (let line = dropWhile (\<lambda>c. c = 32) line in
      if line = [] then Some s
      else if init_streq line (cstr ''help'') then Some (init_help s)
      else if init_streq line (cstr ''tty'') then Some (init_show_tty_mode s)
      else if init_streq line (cstr ''poll'') then Some (init_show_poll_state s)
      else if init_streq line (cstr ''clear'') then Some (s\<lparr>screen := console_fb_clear (screen s)\<rparr>)
      else if init_streq line (cstr ''fdtest'') then fd_selftest_run run irq d s
      else if init_starts_with line (cstr ''log '') then Some (init_set_log_level (drop 4 line) s)
      else if init_streq line (cstr ''tty echo on'') then Some (init_set_flag TTY_LFLAG_ECHO True s)
      else if init_streq line (cstr ''tty echo off'') then Some (init_set_flag TTY_LFLAG_ECHO False s)
      else if init_streq line (cstr ''tty canon on'') then Some (init_set_flag TTY_LFLAG_ICANON True s)
      else if init_streq line (cstr ''tty canon off'') then Some (init_set_flag TTY_LFLAG_ICANON False s)
      else if init_streq line (cstr ''tty isig on'') then Some (init_set_flag TTY_LFLAG_ISIG True s)
      else if init_streq line (cstr ''tty isig off'') then Some (init_set_flag TTY_LFLAG_ISIG False s)
      else Some (init_puts [10] (init_puts line (init_puts (cstr ''unknown command: '') s))))"

section \<open>The task\<close>

text \<open>The greeting on the first call.\<close>

definition init_start :: "'a inits_scheme \<Rightarrow> 'a inits_scheme" where
  "init_start s =
     (if init_started s = 0
      then init_prompt (init_puts (cstr ''init task online (type '' @ [39] @ cstr ''help'' @ [39] @ cstr '')'' @ [10])
             (s\<lparr>init_started := 1\<rparr>))
      else s)"

definition init_task_entry ::
  "'a inits_scheme runs \<Rightarrow> 'a inits_scheme irqs \<Rightarrow> fdtest_data \<Rightarrow> 'a inits_scheme \<Rightarrow> 'a inits_scheme option" where
  "init_task_entry run irq d s =
     (case console_read True 1 True (init_start s) of (n, bs, s) \<Rightarrow>
        if n \<le> 0 then Some s
        else
          let c = hd bs in
          if c = 10 then
            let s = s\<lparr>init_line := (init_line s)(unat (init_len s) := 0)\<rparr> in
            map_option (\<lambda>s. init_prompt (s\<lparr>init_len := 0\<rparr>)) (init_handle_cmd run irq d (line_string s) s)
          else
            let c = (if c = 9 \<or> c = 11 \<or> c = 12 then 32 else c) in
            Some (if 32 \<le> c \<and> c \<le> 126 \<and> init_len s + 1 < INIT_LINE_CAP
                  then s\<lparr>init_line := (init_line s)(unat (init_len s) := c), init_len := init_len s + 1\<rparr>
                  else s))"

definition init_task_spawn :: "nat \<Rightarrow> nat \<Rightarrow> 'a inits_scheme \<Rightarrow> 'a inits_scheme" where
  "init_task_spawn ent ar s =
     (case sched_spawn ''init'' (Some ent) ar (s\<lparr>init_len := 0, init_started := 0\<rparr>) of (rc, s) \<Rightarrow>
        if rc < 0 then klog_line KLOG_LEVEL_WARN (Some (cstr ''init'')) (Some (cstr ''spawn failed'')) s
        else klog_line KLOG_LEVEL_INFO (Some (cstr ''init'')) (Some (cstr ''spawned'')) s)"

text \<open>Consecutive calls of the task.\<close>

primrec init_turns ::
  "'a inits_scheme runs \<Rightarrow> 'a inits_scheme irqs \<Rightarrow> fdtest_data \<Rightarrow> nat \<Rightarrow> 'a inits_scheme \<Rightarrow> 'a inits_scheme option" where
  "init_turns run irq d 0 s = Some s"
| "init_turns run irq d (Suc n) s = Option.bind (init_task_entry run irq d s) (init_turns run irq d n)"

section \<open>Collecting a line\<close>

definition printable :: "u8 \<Rightarrow> bool" where
  "printable c \<longleftrightarrow> 32 \<le> c \<and> c \<le> 126"

lemma printable_plain:
  assumes "printable c"
  shows "c \<noteq> 0" "c \<noteq> 4" "c \<noteq> 9" "c \<noteq> 10" "c \<noteq> 11" "c \<noteq> 12"
  using assms by (auto simp: printable_def)

text \<open>What the task has read is gone from the ring; it is in its own buffer.\<close>

definition took :: "'a inits_scheme \<Rightarrow> 'a inits_scheme \<Rightarrow> bool" where
  "took s u \<longleftrightarrow> (\<exists>t l f n. u = s\<lparr>g_rx_tail := t, g_rx_lines := l, init_line := f, init_len := n\<rparr>)"

lemma took_trans: "took s u \<Longrightarrow> took u v \<Longrightarrow> took s v"
  unfolding took_def by (elim exE, rule exI, rule exI, rule exI, rule exI, simp)

lemma read_one:
  assumes "console_ok s" "rx_content s = x # xs" "10 \<in> set (x # xs)" "x \<noteq> 4" "bit (g_tty_lflag s) 1"
    "u = (if x = 10 then s\<lparr>g_rx_tail := (g_rx_tail s + 1) AND 255, g_rx_lines := g_rx_lines s - 1\<rparr>
          else s\<lparr>g_rx_tail := (g_rx_tail s + 1) AND 255\<rparr>)"
  shows "console_read True 1 True s = (1, [x], u)" "console_ok u" "rx_content u = xs"
proof -
  have ht: "unat (g_rx_head s) < 256" "unat (g_rx_tail s) < 256" "unat (g_rx_lines s) = count_list (x # xs) 10"
    using assms(1,2) by (simp_all add: console_ok_def)
  note q = rx_deq [OF ht(1,2) assms(2)]
  have "0 < count_list (x # xs) 10" using assms(3) by (metis count_notin gr0I count_list_0_iff)
  then have l: "0 < unat (g_rx_lines s)" using ht(3) by simp
  then have l0: "g_rx_lines s \<noteq> 0" by auto
  have "read_loop 1 True s = ([x], False, u)" using q l0 assms(4,6) by (auto simp: Let_def)
  then show "console_read True 1 True s = (1, [x], u)" using assms(5) l0 by (simp add: console_read_def lflag_bit)
  show "console_ok u" "rx_content u = xs"
    using ht q(3) l unat_dec [OF l] assms(6) by (auto simp: console_ok_def rx_next)
qed

lemma line_string_eq:
  assumes "\<forall>i<length l. init_line s i = l ! i" "init_line s (length l) = 0" "list_all printable l" "length l < 128"
  shows "line_string s = l"
proof -
  have m: "List.map (init_line s) [0..<128] = l @ 0 # List.map (init_line s) [length l + 1..<128]"
  proof (rule nth_equalityI)
    show "length (List.map (init_line s) [0..<128]) = length (l @ 0 # List.map (init_line s) [length l + 1..<128])"
      using assms(4) by simp
    fix i assume "i < length (List.map (init_line s) [0..<128])"
    then show "List.map (init_line s) [0..<128] ! i = (l @ 0 # List.map (init_line s) [length l + 1..<128]) ! i"
      using assms(1,2,4) by (auto simp: nth_append nth_Cons' not_less le_less intro: arg_cong [of _ _ "init_line s"])
  qed
  have "\<forall>c\<in>set l. c \<noteq> 0" using assms(3) printable_plain(1) by (auto simp: list_all_iff)
  then show ?thesis unfolding line_string_def m by (simp add: takeWhile_append2)
qed

lemma turns_collect:
  assumes "console_ok s" "rx_content s = l @ 10 # rest" "bit (g_tty_lflag s) 1" "init_started s \<noteq> 0" "list_all printable l"
    "list_all printable pre" "unat (init_len s) = length pre" "\<forall>i<length pre. init_line s i = pre ! i" "length pre + length l < 128"
  shows "\<exists>u. init_turns run irq d (length l + 1) s = map_option (\<lambda>s. init_prompt (s\<lparr>init_len := 0\<rparr>)) (init_handle_cmd run irq d (pre @ l) u)
           \<and> console_ok u \<and> rx_content u = rest \<and> took s u"
  using assms
proof (induction l arbitrary: s pre)
  case Nil
  let ?u = "s\<lparr>g_rx_tail := (g_rx_tail s + 1) AND 255, g_rx_lines := g_rx_lines s - 1\<rparr>"
  have c: "rx_content s = 10 # rest" using Nil.prems(2) by simp
  have r: "console_read True 1 True s = (1, [10], ?u)" "console_ok ?u" "rx_content ?u = rest"
    using read_one [OF Nil.prems(1) c _ _ Nil.prems(3) refl] by simp_all
  let ?v = "?u\<lparr>init_line := (init_line s)(unat (init_len s) := 0)\<rparr>"
  have "line_string ?v = pre" using Nil.prems(6-9) by (intro line_string_eq) simp_all
  then have "init_task_entry run irq d s = map_option (\<lambda>s. init_prompt (s\<lparr>init_len := 0\<rparr>)) (init_handle_cmd run irq d pre ?v)"
    using r(1) Nil.prems(4) by (simp add: init_task_entry_def init_start_def Let_def)
  moreover have "console_ok ?v" "rx_content ?v = rest" using r(2,3) by (simp_all add: console_ok_def rx_content_def)
  moreover have "took s ?v" unfolding took_def by (intro exI [of _ "(g_rx_tail s + 1) AND 255"] exI [of _ "g_rx_lines s - 1"]
      exI [of _ "(init_line s)(unat (init_len s) := 0)"] exI [of _ "init_len s"]) simp
  ultimately show ?case by (intro exI [of _ ?v]) (simp add: bind_option_cong)
next
  case (Cons x l)
  let ?u = "s\<lparr>g_rx_tail := (g_rx_tail s + 1) AND 255\<rparr>"
  have x: "printable x" using Cons.prems(5) by simp
  note px = printable_plain [OF x]
  have r: "console_read True 1 True s = (1, [x], ?u)" "console_ok ?u" "rx_content ?u = l @ 10 # rest"
    using read_one [OF Cons.prems(1) _ _ px(2) Cons.prems(3) refl, of "l @ 10 # rest"] Cons.prems(2) px(4) by simp_all
  let ?v = "?u\<lparr>init_line := (init_line s)(unat (init_len s) := x), init_len := init_len s + 1\<rparr>"
  have n: "unat (init_len s + 1) = length pre + 1" using Cons.prems(7,9) by (simp add: unat_word_ariths)
  have e: "init_task_entry run irq d s = Some ?v"
    using r(1) Cons.prems(4,9) px x n by (simp add: init_task_entry_def init_start_def Let_def printable_def word_less_nat_alt)
  have "\<exists>u. init_turns run irq d (length l + 1) ?v
        = map_option (\<lambda>s. init_prompt (s\<lparr>init_len := 0\<rparr>)) (init_handle_cmd run irq d ((pre @ [x]) @ l) u)
        \<and> console_ok u \<and> rx_content u = rest \<and> took ?v u"
    using r(2,3) Cons.prems(3-9) x n
    by (intro Cons.IH) (auto simp: console_ok_def rx_content_def nth_append less_Suc_eq)
  moreover have "took s ?v" unfolding took_def by (intro exI [of _ "(g_rx_tail s + 1) AND 255"] exI [of _ "g_rx_lines s"]
      exI [of _ "(init_line s)(unat (init_len s) := x)"] exI [of _ "init_len s + 1"]) simp
  ultimately show ?case using e took_trans by fastforce
qed

section \<open>What commands change\<close>

lemma drawn_puts [drawn_rules]: "drawn s u \<Longrightarrow> drawn s (init_puts str u)"
  unfolding init_puts_def by (intro drawn_rules)

lemma drawn_cmds [drawn_rules]:
  "drawn s u \<Longrightarrow> drawn s (init_prompt u)" "drawn s u \<Longrightarrow> drawn s (init_show_tty_mode u)"
  "drawn s u \<Longrightarrow> drawn s (init_show_poll_state u)" "drawn s u \<Longrightarrow> drawn s (init_help u)"
  unfolding init_prompt_def init_show_tty_mode_def init_show_poll_state_def init_help_def Let_def
  by (intro drawn_rules drawn_fold; assumption)+

section \<open>The contract of a task\<close>

lemma drawn_frame: "drawn s u \<Longrightarrow> kframe s u"
  by (auto simp: drawn_def intro: kframe_same)

lemma frame_output:
  "kframe s u \<Longrightarrow> kframe s (kputc c u)" "kframe s u \<Longrightarrow> kframe s (kputs p u)" "kframe s u \<Longrightarrow> kframe s (kprint_hex32 v u)"
  "kframe s u \<Longrightarrow> kframe s (klog_prefix l tg u)"
  by (erule kframe_trans, rule drawn_frame, intro drawn_rules)+

text \<open>\<open>kpart s r\<close>: if a group of the self test returns, it has kept the contract since \<open>s\<close>.\<close>

definition kpart :: "'a klogs_scheme \<Rightarrow> ('b \<times> 'a klogs_scheme) option \<Rightarrow> bool" where
  "kpart s r \<longleftrightarrow> (\<forall>x. r = Some x \<longrightarrow> kframe s (snd x))"

named_theorems kpart_rules

lemma kpart_some [kpart_rules]: "kframe s (snd x) \<Longrightarrow> kpart s (Some x)"
  by (simp add: kpart_def)

lemma kpart_if [kpart_rules]: "(b \<Longrightarrow> kpart s x) \<Longrightarrow> (\<not> b \<Longrightarrow> kpart s y) \<Longrightarrow> kpart s (if b then x else y)"
  by simp

lemma kpart_case [kpart_rules]:
  "kframe s (snd x) \<Longrightarrow> (\<And>f u. kframe s u \<Longrightarrow> kpart s (g f u)) \<Longrightarrow> kpart s (case x of (f, u) \<Rightarrow> g f u)"
  by (cases x) simp

lemma kpart_bind: "kpart s r \<Longrightarrow> (\<And>x. kframe s (snd x) \<Longrightarrow> kpart s (g x)) \<Longrightarrow> kpart s (Option.bind r g)"
  by (cases r) (simp_all add: kpart_def)

lemma fail_frame [kpart_rules]: "kframe s (snd x) \<Longrightarrow> kframe s (snd (fdtest_fail m g w x))"
proof -
  obtain f u where x: "x = (f, u)" by (cases x)
  have "drawn u (snd (fdtest_fail m g w x))" unfolding x fdtest_fail_def Let_def prod.case snd_conv by (intro drawn_rules)
  then show "kframe s (snd x) \<Longrightarrow> kframe s (snd (fdtest_fail m g w x))" using drawn_frame kframe_trans by (fastforce simp: x)
qed

lemma snd_frames [kpart_rules]:
  "kframe s (snd x) \<Longrightarrow> kframe s (snd (expect b m g w x))" "kframe s u \<Longrightarrow> kframe s (snd (f, u))"
  "kframe s (snd x) \<Longrightarrow> kframe s (snd y) \<Longrightarrow> kframe s (snd (if b then x else y))"
  "kframe s (snd x) \<Longrightarrow> (\<And>v. kframe s (snd (h v))) \<Longrightarrow> kframe s (snd (case r of None \<Rightarrow> x | Some v \<Rightarrow> h v))"
  by (simp_all add: expect_def fail_frame split: option.split)

text \<open>Environments that keep the contract.\<close>

abbreviation (input) framed :: "'a kernel_scheme runs \<Rightarrow> 'a kernel_scheme irqs \<Rightarrow> bool" where
  "framed run irq \<equiv> (\<forall>e i ar s. kframe s (run e i ar s)) \<and> (\<forall>n k s. kframe s (irq n k s))"

lemma test_frame:
  assumes "fdtest_syscall run irq n a b c s = Some (ret, err, u)" "framed run irq"
  shows "kframe s u"
proof -
  obtain r s1 where "syscall_case run irq \<lparr>nr = n, arg0 = a, arg1 = b, arg2 = c, arg3 = 0, arg4 = 0, arg5 = 0\<rparr> s = Some r"
    "u = publish_result (Some \<lparr>nr = n, arg0 = a, arg1 = b, arg2 = c, arg3 = 0, arg4 = 0, arg5 = 0\<rparr>) (fst r) (fst (snd r)) s1"
    "s1 = snd (snd r)"
    using assms(1) by (auto simp: fdtest_syscall_def syscall_dispatch_def Let_def bind_eq_Some_conv)
  moreover from this(1) have "kframe s (snd (snd r))" by (rule syscall_case_frame [where K = "{}", rotated 2]) (use assms(2) in auto)
  ultimately show ?thesis using kframe_trans [where K = "{}", OF _ kframe_publish [OF clear_of_empty]] by simp
qed

lemma kpart_call [kpart_rules]:
  assumes "framed run irq" "kframe s u" "\<And>ret err v. kframe s v \<Longrightarrow> kpart s (g ret err v)"
  shows "kpart s (Option.bind (fdtest_syscall run irq n a b c u) (\<lambda>(ret, err, v). g ret err v))"
proof (cases "fdtest_syscall run irq n a b c u")
  case (Some x)
  obtain ret err v where x: "x = (ret, err, v)" by (cases x) auto
  have "kframe s v" using kframe_trans [OF assms(2) test_frame [OF _ assms(1)]] Some x by blast
  then show ?thesis using assms(3) Some x by simp
qed (simp add: kpart_def)

lemma kpart_fdtest:
  assumes f: "framed run irq" and s: "kframe s (snd x)"
  shows "kpart s (fdtest_fcntl run irq n x)" "kpart s (fdtest_read run irq d n x)" "kpart s (fdtest_close run irq n fl x)"
    "kpart s (fdtest_null run irq d x)" "kpart s (fdtest_tty run irq d x)" "kpart s (fdtest_missing run irq d x)"
    "kpart s (fdtest_socket run irq d x)" "kpart s (fdtest_bind run irq x)"
  unfolding fdtest_fcntl_def fdtest_read_def fdtest_close_def fdtest_null_def fdtest_tty_def fdtest_missing_def
    fdtest_socket_def fdtest_bind_def Let_def
  by (intro kpart_rules f s; assumption)+

text \<open>Direct stores of the test.\<close>

lemma mem_frame: "(\<And>a. 0x04000000 \<le> a \<Longrightarrow> m a = umem u a) \<Longrightarrow> kframe s u \<Longrightarrow> kframe s (u\<lparr>umem := m\<rparr>)"
  by (rule kframe_trans [of "{}" s u]) (auto intro: kframe_mem)

lemma placed_stores:
  assumes "placed d" "kframe s u"
  shows "kframe s (put_pfd (d_pfd d) fd ev rv u)" "kframe s (u\<lparr>umem := store32 (umem u) (d_sel_read d) x\<rparr>)"
    "kframe s (u\<lparr>umem := write_at (d_buf d) (replicate 8 v) (umem u)\<rparr>)"
proof -
  have p: "unat (d_pfd d) + 8 \<le> 67108864" "unat (d_sel_read d) + 4 \<le> 67108864" "unat (d_buf d) + 8 \<le> 67108864"
    using assms(1) by (auto simp: placed_def writable_def in_user_def)
  show "kframe s (u\<lparr>umem := store32 (umem u) (d_sel_read d) x\<rparr>)"
    "kframe s (u\<lparr>umem := write_at (d_buf d) (replicate 8 v) (umem u)\<rparr>)"
    using store32_below [OF p(2)] write_at_below [of "d_buf d" "replicate 8 v"] p(3) assms(2) by (auto intro: mem_frame)
  have k: "unat (d_pfd d + 4) = unat (d_pfd d) + 4" "unat (d_pfd d + 5) = unat (d_pfd d) + 5"
    "unat (d_pfd d + 6) = unat (d_pfd d) + 6" "unat (d_pfd d + 7) = unat (d_pfd d) + 7"
    using unat_add_small [of "d_pfd d" 4] unat_add_small [of "d_pfd d" 5] unat_add_small [of "d_pfd d" 6]
      unat_add_small [of "d_pfd d" 7] p(1) by simp_all
  have "a \<noteq> d_pfd d + 4 \<and> a \<noteq> d_pfd d + 5 \<and> a \<noteq> d_pfd d + 6 \<and> a \<noteq> d_pfd d + 7" if "0x04000000 \<le> a" for a
    using that k p(1) by (auto simp: word_le_nat_alt)
  then show "kframe s (put_pfd (d_pfd d) fd ev rv u)"
    unfolding put_pfd_def using store32_below [of "d_pfd d"] p(1) assms(2) by (auto intro: mem_frame)
qed

lemma kpart_fdtest_mem:
  assumes f: "framed run irq" and p: "placed d" and s: "kframe s (snd x)"
  shows "kpart s (fdtest_poll run irq d n x)" "kpart s (fdtest_poll_negative run irq d x)" "kpart s (fdtest_select run irq d n x)"
    "kpart s (fdtest_zero run irq d x)"
  unfolding fdtest_poll_def fdtest_poll_negative_def fdtest_select_def fdtest_zero_def Let_def
  by (intro kpart_rules placed_stores p f s; assumption)+

lemma kpart_calls:
  assumes f: "framed run irq" and p: "placed d" and s: "kframe s (snd x)"
  shows "kpart s (fdtest_calls run irq d n fl x)"
  unfolding fdtest_calls_def by (intro kpart_bind kpart_fdtest [OF f] kpart_fdtest_mem [OF f p] s; assumption)

lemma dup_frame:
  assumes "framed run irq" "fdtest_dup run irq s = Some r"
  shows "case r of Inl u \<Rightarrow> kframe s u | Inr (n, fl, f, u) \<Rightarrow> kframe s u"
proof -
  obtain fl e u where u: "fdtest_syscall run irq 19 0 3 0 s = Some (fl, e, u)"
    "(if e \<noteq> 0 then Some (Inl (snd (fdtest_fail ''fcntl(F_GETFL,0)'' e 0 (0, u))))
      else Option.bind (fdtest_syscall run irq 17 0 0 0 u) (\<lambda>(ret, err, s).
        if err \<noteq> 0 \<or> sint ret < 0 then Some (Inl (fdtest_dup_failed ret err s))
        else case expect (3 \<le> ret) ''dup(stdin) fd range'' ret 3 (0, s) of (fails, s) \<Rightarrow> Some (Inr (ret, fl, fails, s)))) = Some r"
    using assms(2) unfolding fdtest_dup_def Let_def by (auto simp: bind_eq_Some_conv)
  have su: "kframe s u" by (rule test_frame [OF u(1) assms(1)])
  show ?thesis
  proof (cases "e = 0")
    case True
    then obtain ret err v where v: "fdtest_syscall run irq 17 0 0 0 u = Some (ret, err, v)"
      "(if err \<noteq> 0 \<or> sint ret < 0 then Some (Inl (fdtest_dup_failed ret err v))
        else case expect (3 \<le> ret) ''dup(stdin) fd range'' ret 3 (0, v) of (fails, s) \<Rightarrow> Some (Inr (ret, fl, fails, s))) = Some r"
      using u(2) by (auto simp: bind_eq_Some_conv)
    have sv: "kframe s v" using kframe_trans [OF su test_frame [OF v(1) assms(1)]] .
    have cl: "kframe s (if b then snd (sched_fd_close a w) else w)" if "kframe s w" for a b and w :: "'a klogs_scheme"
      using that kframe_trans [OF that kframe_ops(6)] by simp
    have "kframe s (fdtest_dup_failed ret err v)"
      unfolding fdtest_dup_failed_def Let_def fdtest_fail_def prod.case
      by (intro frame_output cl sv)
    then show ?thesis using v(2) snd_frames(1) [of s "(0, v)"] sv by (auto split: if_splits prod.splits simp: prod_eq_iff)
  next
    case False
    then show ?thesis using u(2) fail_frame [of s "(0, u)"] su by auto
  qed
qed

section \<open>The task returns\<close>

text \<open>No call of the self test waits: the calls that could have a timeout of zero.\<close>

lemma test_returns:
  assumes "n \<noteq> 4" "n = 8 \<Longrightarrow> c = 0"
  shows "fdtest_syscall run irq n a b c s \<noteq> None"
proof -
  have p: "sys_poll run irq a b 0 s \<noteq> None"
    by (simp add: sys_poll_def Let_def poll_loop.simps del: not_None_eq split: sum.split prod.split)
  have "select_loop run irq 0 a (b, c, 0) ins 0 tt st s \<noteq> None" for ins tt st
    by (cases ins) (simp add: select_loop.simps Let_def del: not_None_eq split: option.split sum.split prod.split)
  then have q: "sys_select run irq a b c 0 0 s \<noteq> None"
    by (simp add: sys_select_def Let_def del: not_None_eq split: option.split)
  have "syscall_case run irq \<lparr>nr = n, arg0 = a, arg1 = b, arg2 = c, arg3 = 0, arg4 = 0, arg5 = 0\<rparr> s \<noteq> None"
    using assms p q unfolding syscall_case_def by (simp del: not_None_eq)
  then show ?thesis by (auto simp: fdtest_syscall_def syscall_dispatch_def Let_def)
qed

named_theorems returns_rules

lemma bind_returns: "r \<noteq> None \<Longrightarrow> (\<And>x. g x \<noteq> None) \<Longrightarrow> Option.bind r g \<noteq> None"
  by (cases r) auto

lemma call_returns [returns_rules]:
  assumes "n \<noteq> 4" "n = 8 \<Longrightarrow> c = 0" "\<And>ret err u. g ret err u \<noteq> None"
  shows "Option.bind (fdtest_syscall run irq n a b c s) (\<lambda>(ret, err, u). g ret err u) \<noteq> None"
  using assms(3) by (intro bind_returns test_returns assms(1,2)) (auto split: prod.split)

lemma control_returns [returns_rules]:
  "(\<And>f u. g f u \<noteq> None) \<Longrightarrow> (case x of (f, u) \<Rightarrow> g f u) \<noteq> None"
  "(b \<Longrightarrow> p \<noteq> None) \<Longrightarrow> (\<not> b \<Longrightarrow> q \<noteq> None) \<Longrightarrow> (if b then p else q) \<noteq> None"
  "Some z \<noteq> None"
  by (simp_all split: prod.split)

lemma groups_return:
  "fdtest_fcntl run irq n x \<noteq> None" "fdtest_read run irq d n x \<noteq> None" "fdtest_poll run irq d n x \<noteq> None"
  "fdtest_poll_negative run irq d x \<noteq> None" "fdtest_select run irq d n x \<noteq> None"
  "fdtest_close run irq n fl x \<noteq> None" "fdtest_null run irq d x \<noteq> None" "fdtest_zero run irq d x \<noteq> None"
  "fdtest_tty run irq d x \<noteq> None" "fdtest_missing run irq d x \<noteq> None" "fdtest_socket run irq d x \<noteq> None"
  "fdtest_bind run irq x \<noteq> None" "fdtest_dup run irq s \<noteq> None"
  unfolding fdtest_fcntl_def fdtest_read_def fdtest_poll_def fdtest_poll_negative_def fdtest_select_def fdtest_close_def
    fdtest_null_def fdtest_zero_def fdtest_tty_def fdtest_missing_def fdtest_socket_def fdtest_bind_def fdtest_dup_def Let_def
  by (intro returns_rules; simp)+

lemma calls_return: "fdtest_calls run irq d n fl x \<noteq> None"
  unfolding fdtest_calls_def by (intro bind_returns groups_return)

lemma selftest_safe:
  assumes "framed run irq" "placed d" "console_ok s"
  shows "\<exists>u. fd_selftest_run run irq d s = Some u \<and> kframe s u"
proof -
  let ?s = "klog_line KLOG_LEVEL_INFO (Some (cstr ''fdtest'')) (Some (cstr ''start v8'')) s"
  have d: "drawn s ?s" by (intro drawn_rules)
  then have "console_ok ?s" using assms(3) by (auto simp: drawn_def console_ok_def rx_content_def)
  then obtain u where u: "fdtest_drain_stdin ?s = Some u" "kframe ?s u"
    using drain_ends [of ?s] kframe_same by blast
  have su: "kframe s u" using kframe_trans [OF drawn_frame [OF d] u(2)] .
  obtain r where r: "fdtest_dup run irq u = Some r" using groups_return(13) [of run irq u] by auto
  have sr: "case r of Inl v \<Rightarrow> kframe s v | Inr (n, fl, f, v) \<Rightarrow> kframe s v"
    using dup_frame [OF assms(1) r] kframe_trans [OF su] by (auto split: sum.splits)
  show ?thesis
  proof (cases r)
    case (Inl v)
    then show ?thesis using sr by (simp add: fd_selftest_run_def u(1) r)
  next
    case (Inr q)
    obtain n fl f v where q: "q = (n, fl, f, v)" by (cases q) auto
    then have "kframe s (snd (f, v))" using sr Inr by simp
    then have k: "kpart s (fdtest_calls run irq d n fl (f, v))" by (rule kpart_calls [OF assms(1,2)])
    obtain x where x: "fdtest_calls run irq d n fl (f, v) = Some x" using calls_return [of run irq d n fl "(f, v)"] by auto
    have "drawn (snd x) (fdtest_report x)"
      unfolding fdtest_report_def case_prod_unfold Let_def by (intro drawn_rules)
    then have "kframe s (fdtest_report x)" using k x kframe_trans drawn_frame unfolding kpart_def by blast
    then show ?thesis by (simp add: fd_selftest_run_def u(1) r Inr q x)
  qed
qed

lemma handle_cmd_safe:
  assumes "framed run irq" "placed d" "console_ok s"
  shows "\<exists>u. init_handle_cmd run irq d l s = Some u \<and> kframe s u"
proof -
  have g: "kframe s (init_set_log_level lv s)" for lv
  proof -
    have l: "kframe s (klog_set_level n s)" for n by (rule kframe_same) (simp_all add: klog_set_level_def Let_def)
    have "kframe s (init_puts [10] (kprint_hex32 v (init_puts q (klog_set_level n s))))" for n v q
      by (rule kframe_trans [OF l [of n] drawn_frame]) (intro drawn_rules)
    moreover have "kframe s (init_puts q s)" for q by (rule drawn_frame) (intro drawn_rules)
    ultimately show ?thesis unfolding init_set_log_level_def Let_def by simp
  qed
  have f: "kframe s (init_set_flag fl on s)" for fl on
  proof -
    have l: "kframe s (s\<lparr>g_tty_lflag := x\<rparr>)" for x by (rule kframe_same) simp_all
    have "kframe s (init_show_tty_mode (s\<lparr>g_tty_lflag := x\<rparr>))" for x
      by (rule kframe_trans [OF l drawn_frame [OF drawn_cmds(2) [OF drawn_refl]]])
    then show ?thesis by (simp add: init_set_flag_def console_tty_set_lflag_def Let_def)
  qed
  have o: "kframe s u" if "drawn s u" for u by (rule drawn_frame [OF that])
  note z = o [OF drawn_cmds(2) [OF drawn_refl]] o [OF drawn_cmds(3) [OF drawn_refl]] o [OF drawn_cmds(4) [OF drawn_refl]]
    o [OF drawn_screen [OF drawn_refl]] o [OF drawn_puts [OF drawn_puts [OF drawn_puts [OF drawn_refl]]]]
  show ?thesis
    unfolding init_handle_cmd_def Let_def using selftest_safe [OF assms] f g z kframe_refl by (auto split: if_splits)
qed

lemma init_start_fields: "\<exists>x. init_start s = s\<lparr>init_started := (if init_started s = 0 then 1 else init_started s), screen := x\<rparr>"
proof (cases "init_started s = 0")
  case True
  have "drawn (s\<lparr>init_started := 1\<rparr>) (init_start s)" using True unfolding init_start_def by (simp add: drawn_rules)
  then show ?thesis using True by (auto simp: drawn_def)
next
  case False
  then have "init_start s = s\<lparr>init_started := init_started s, screen := screen s\<rparr>" by (simp add: init_start_def)
  then show ?thesis using False by (intro exI [of _ "screen s"]) simp
qed

lemma read_one_fields:
  assumes "console_read True 1 True s = (n, bs, u)" "console_ok s"
  shows "console_ok u" "init_len u = init_len s"
proof -
  obtain cs e v where l: "read_loop 1 (lflag 2 s) s = (cs, e, v)" by (cases "read_loop 1 (lflag 2 s) s") auto
  have "init_len v = init_len s" using l by (auto simp: Let_def split: if_splits)
  then show "console_ok u" "init_len u = init_len s"
    using assms l read_loop_shrinks [OF assms(2) l] by (auto simp: console_read_def Let_def split: if_splits)
qed

section \<open>Properties\<close>

text \<open>C26: A call of the init task always returns, whatever byte it reads and whatever command line it has collected; it keeps the
  contract that the scheduler and the system calls rely on (the scheduler tables stay sound, no byte beyond the end of
  RAM is written), and the index into its 128-byte line buffer stays in range.\<close>

theorem init_task_safe:
  assumes "framed run irq" "placed d" "console_ok s" "unat (init_len s) < 128"
  shows "\<exists>u. init_task_entry run irq d s = Some u \<and> kframe s u \<and> unat (init_len u) < 128"
proof -
  obtain k x where i: "init_start s = s\<lparr>init_started := k, screen := x\<rparr>" using init_start_fields by blast
  have s0: "kframe s (init_start s)" "console_ok (init_start s)" "init_len (init_start s) = init_len s"
    using assms(3) unfolding i by (auto intro: kframe_same simp: console_ok_def rx_content_def)
  obtain n bs u where c: "console_read True 1 True (init_start s) = (n, bs, u)" by (cases "console_read True 1 True (init_start s)") auto
  have su: "kframe s u" using kframe_trans [OF s0(1)] console_read_frame [where d = True and len = 1 and nb = True and s = "init_start s"] by (simp add: c)
  have k: "console_ok u" "init_len u = init_len s"
    using read_one_fields [OF c s0(2)] s0(3) by simp_all
  show ?thesis
  proof (cases "0 < n \<and> hd bs = 10")
    case True
    let ?v = "u\<lparr>init_line := (init_line u)(unat (init_len u) := 0)\<rparr>"
    have v: "kframe s ?v" "console_ok ?v"
      using kframe_trans [OF su kframe_same] k(1) by (simp_all add: console_ok_def rx_content_def)
    obtain w where w: "init_handle_cmd run irq d (line_string ?v) ?v = Some w" "kframe ?v w"
      using handle_cmd_safe [OF assms(1,2) v(2)] by blast
    have "drawn (w\<lparr>init_len := 0\<rparr>) (init_prompt (w\<lparr>init_len := 0\<rparr>))" by (intro drawn_rules)
    then have "kframe s (init_prompt (w\<lparr>init_len := 0\<rparr>))" "init_len (init_prompt (w\<lparr>init_len := 0\<rparr>)) = 0"
      using kframe_trans [OF kframe_trans [OF kframe_trans [OF v(1) w(2)] kframe_same [of "w\<lparr>init_len := 0\<rparr>"]] drawn_frame]
      by (auto simp: drawn_def)
    then show ?thesis using c True w(1) by (simp add: init_task_entry_def Let_def)
  next
    case False
    define x where "x = (if hd bs = 9 \<or> hd bs = 11 \<or> hd bs = 12 then 32 else hd bs)"
    have e: "init_task_entry run irq d s
        = Some (if 0 < n \<and> 32 \<le> x \<and> x \<le> 126 \<and> init_len u + 1 < 128
                then u\<lparr>init_line := (init_line u)(unat (init_len u) := x), init_len := init_len u + 1\<rparr> else u)"
      unfolding init_task_entry_def c prod.case Let_def x_def [symmetric] using False by (cases "0 < n") simp_all
    obtain f l where r: "init_task_entry run irq d s = Some (u\<lparr>init_line := f, init_len := l\<rparr>)" "unat l < 128"
    proof (cases "0 < n \<and> 32 \<le> x \<and> x \<le> 126 \<and> init_len u + 1 < 128")
      case True
      then have "unat (init_len u + 1) < 128" by (simp add: word_less_nat_alt)
      then show ?thesis using e True by (intro that) simp_all
    next
      case n: False
      have "init_task_entry run irq d s = Some (u\<lparr>init_line := init_line u, init_len := init_len u\<rparr>)"
        unfolding e if_not_P [OF n] by simp
      moreover have "unat (init_len u) < 128" using k(2) assms(4) by simp
      ultimately show ?thesis by (rule that)
    qed
    have "kframe s (u\<lparr>init_line := f, init_len := l\<rparr>)" by (rule kframe_trans [OF su kframe_same]) simp_all
    then show ?thesis using r by (intro exI [of _ "u\<lparr>init_line := f, init_len := l\<rparr>"]) simp
  qed
qed

text \<open>C14: A complete line in the input queue is run as a command. In canonical mode, with \<open>n\<close> printable characters (at most 127)
  and a newline in the queue, \<open>n + 1\<close> calls of the init task take the line out of the queue and do exactly what the
  command does with that line, followed by a new prompt; nothing else of the state changes before the command.\<close>

theorem typed_command_runs:
  assumes "console_ok s" "rx_content s = l @ 10 # rest" "bit (g_tty_lflag s) 1" "list_all printable l" "length l \<le> 127"
    "init_started s \<noteq> 0" "init_len s = 0"
  shows "\<exists>t ln f n. let u = s\<lparr>g_rx_tail := t, g_rx_lines := ln, init_line := f, init_len := n\<rparr> in
           init_turns run irq d (length l + 1) s = map_option (\<lambda>s. init_prompt (s\<lparr>init_len := 0\<rparr>)) (init_handle_cmd run irq d l u)
           \<and> console_ok u \<and> rx_content u = rest"
proof -
  have "\<exists>u. init_turns run irq d (length l + 1) s = map_option (\<lambda>s. init_prompt (s\<lparr>init_len := 0\<rparr>)) (init_handle_cmd run irq d ([] @ l) u)
      \<and> console_ok u \<and> rx_content u = rest \<and> took s u"
    using assms by (intro turns_collect) simp_all
  then show ?thesis unfolding took_def Let_def by fastforce
qed

text \<open>The commands \<open>tty echo\<close>, \<open>tty canon\<close> and \<open>tty isig\<close> with \<open>on\<close> or \<open>off\<close>, after any number of spaces, set exactly
  their own flag of the terminal mode; besides that only the screen changes.\<close>

theorem tty_command_sets_flag:
  assumes "(nm, fl) \<in> {(''echo'', TTY_LFLAG_ECHO), (''canon'', TTY_LFLAG_ICANON), (''isig'', TTY_LFLAG_ISIG)}" "g_tty_lflag s AND 7 = g_tty_lflag s"
  shows "\<exists>x. init_handle_cmd run irq d (replicate k 32 @ cstr (''tty '' @ nm @ (if on then '' on'' else '' off''))) s
           = Some (s\<lparr>g_tty_lflag := (if on then g_tty_lflag s OR fl else g_tty_lflag s AND NOT fl), screen := x\<rparr>)"
proof -
  let ?c = "cstr (''tty '' @ nm @ (if on then '' on'' else '' off''))"
  let ?v = "if on then g_tty_lflag s OR fl else g_tty_lflag s AND NOT fl"
  have "dropWhile (\<lambda>c. c = 32) (replicate k 32 @ ?c) = ?c" by (induction k) (simp_all add: cstr_def)
  then have d: "init_handle_cmd run irq d (replicate k 32 @ ?c) s = init_handle_cmd run irq d ?c s"
    by (simp add: init_handle_cmd_def cstr_def)
  consider "nm = ''echo''" "fl = 1" | "nm = ''canon''" "fl = 2" | "nm = ''isig''" "fl = 4" using assms(1) by auto
  then have h: "init_handle_cmd run irq d (replicate k 32 @ ?c) s = Some (init_set_flag fl on s)"
    unfolding d by cases (cases on; simp add: init_handle_cmd_def cstr_def)+
  have f: "fl AND 7 = fl" using assms(1) by auto
  have "?v AND 7 = ?v"
  proof (cases on)
    case True
    then show ?thesis using assms(2) f by (simp add: bit.conj_disj_distrib2)
  next
    case False
    have "(g_tty_lflag s AND NOT fl) AND 7 = (g_tty_lflag s AND 7) AND NOT fl" by (simp add: ac_simps)
    then show ?thesis using False assms(2) by simp
  qed
  then have "init_set_flag fl on s = init_show_tty_mode (s\<lparr>g_tty_lflag := ?v\<rparr>)"
    by (simp add: init_set_flag_def console_tty_set_lflag_def console_tty_get_lflag_def Let_def)
  then show ?thesis using h drawn_cmds(2) [OF drawn_refl, of "s\<lparr>g_tty_lflag := ?v\<rparr>"] by (auto simp: drawn_def)
qed

definition demo_init :: inits where
  "demo_init = traps.extend demo_traps \<lparr>init_line = \<lambda>_. 0, init_len = 0, init_started = 1\<rparr>"

lemma demo_init_fields:
  "console_ok demo_init" "rx_content demo_init = []" "g_tty_lflag demo_init = 7" "init_len demo_init = 0" "init_started demo_init = 1"
proof -
  have "g_rx_head demo_traps = g_rx_head demo_init" "g_rx_tail demo_traps = g_rx_tail demo_init" "g_rx_buf demo_traps = g_rx_buf demo_init"
    "g_rx_lines demo_traps = g_rx_lines demo_init" "g_tty_lflag demo_traps = g_tty_lflag demo_init"
    by (simp_all add: demo_init_def traps.defs)
  then show "console_ok demo_init" "rx_content demo_init = []" "g_tty_lflag demo_init = 7"
    using demo_traps(1-3) by (simp_all add: console_ok_def rx_content_def)
qed (simp_all add: demo_init_def traps.defs)

lemma demo_placed: "placed demo_data"
  by (auto simp: placed_def writable_def strings_def demo_data_def in_user_def area_def cstr_def)

theorem init_task_safe_witness:
  "\<exists>u. init_task_entry (\<lambda>e i ar s. s) (\<lambda>n k s. s) demo_data demo_init = Some u \<and> unat (init_len u) < 128"
  using init_task_safe [where run = "\<lambda>e i ar s. s" and irq = "\<lambda>n k s. s" and d = demo_data and s = demo_init]
    demo_placed demo_init_fields by auto

text \<open>The queue after the line \<open>tty\<close>.\<close>

definition demo_typed :: inits where
  "demo_typed = demo_init\<lparr>g_rx_head := 4, g_rx_tail := 0, g_rx_lines := 1,
                         g_rx_buf := (\<lambda>i. [116, 116, 121, 10] ! i)\<rparr>"

theorem typed_command_runs_witness:
  "\<exists>u. init_turns (\<lambda>e i ar s. s) (\<lambda>n k s. s) demo_data 4 demo_typed
     = Some (init_prompt ((init_show_tty_mode u)\<lparr>init_len := 0\<rparr>)) \<and> rx_content u = []"
proof -
  have c: "rx_content demo_typed = cstr ''tty'' @ 10 # []"
    by (simp add: demo_typed_def rx_content_def ring_content_def cstr_def upt_rec)
  then have o: "console_ok demo_typed" by (simp add: console_ok_def cstr_def) (simp add: demo_typed_def)
  have f: "bit (g_tty_lflag demo_typed) 1" "list_all printable (cstr ''tty'')" "length (cstr ''tty'') \<le> 127" "init_started demo_typed \<noteq> 0"
    "init_len demo_typed = 0"
    using demo_init_fields by (simp_all add: demo_typed_def printable_def cstr_def)
  have h: "init_handle_cmd (\<lambda>e i ar s. s) (\<lambda>n k s. s) demo_data (cstr ''tty'') u = Some (init_show_tty_mode u)" for u :: inits
    by (simp add: init_handle_cmd_def cstr_def)
  have "length (cstr ''tty'') + 1 = 4" by (simp add: cstr_def)
  then show ?thesis
    using typed_command_runs [OF o c f, where run = "\<lambda>e i ar s. s" and irq = "\<lambda>n k s. s" and d = demo_data]
    unfolding Let_def h by auto
qed

theorem tty_command_sets_flag_witness:
  "\<exists>x. init_handle_cmd (\<lambda>e i ar s. s) (\<lambda>n k s. s) demo_data (cstr ''tty echo off'') demo_init
     = Some (demo_init\<lparr>g_tty_lflag := 6, screen := x\<rparr>)"
  using tty_command_sets_flag [where nm = "''echo''" and fl = 1 and k = 0 and on = False and s = demo_init
      and run = "\<lambda>e i ar s. s" and irq = "\<lambda>n k s. s" and d = demo_data] demo_init_fields(3) by auto

end
