(* ===== verification/KernelStart.thy ===== *)
theory KernelStart
  imports InitTask VmInfo
begin

text \<open>
  The start of the guest kernel (\<open>kernel/src/entry.c\<close>), with the counter of \<open>smp.c\<close> and the lock of
  \<open>spinlock.c\<close>. \<open>kernel_boot\<close> is \<open>kernel_entry\<close> up to the scheduler; after it the endless loop of \<open>sched_run\<close> takes its
  turns (\<open>sched_run_turn\<close>).

  The lemmas show that the initialisations, in the order of the code, establish the invariants on which the rest of the
  development rests.
\<close>

section \<open>Lock and processor count\<close>

definition spinlock_init :: "u32 \<Rightarrow> u32" where
  "spinlock_init v = 0"

text \<open>Nothing else writes the word while the only core waits, so a lock that is held keeps the loop running for ever.\<close>

partial_function (option) spinlock_lock :: "u32 \<Rightarrow> u32 option" where
  "spinlock_lock v = (if v \<noteq> 0 then spinlock_lock v else Some 1)"

definition spinlock_unlock :: "u32 \<Rightarrow> u32" where
  "spinlock_unlock v = 0"

record boots = inits +
  g_kernel_booted :: u32
  g_online_cpus :: u32

definition smp_init_bsp :: "'a boots_scheme \<Rightarrow> 'a boots_scheme" where
  "smp_init_bsp s = s\<lparr>g_online_cpus := 1\<rparr>"

definition smp_init_ap :: "'a boots_scheme \<Rightarrow> 'a boots_scheme" where
  "smp_init_ap s = s\<lparr>g_online_cpus := g_online_cpus s + 1\<rparr>"

section \<open>Start\<close>

definition kernel_early_init :: "'a boots_scheme \<Rightarrow> 'a boots_scheme" where
  "kernel_early_init s = s\<lparr>g_kernel_booted := 0\<rparr>"

definition kernel_late_init :: "'a boots_scheme \<Rightarrow> 'a boots_scheme" where
  "kernel_late_init s = s\<lparr>g_kernel_booted := 1\<rparr>"

text \<open>\<open>stub\<close>, \<open>idle\<close> and \<open>ent\<close> are the addresses of the interrupt stub and of the two task functions, \<open>ar\<close> that of the
  init task's state, \<open>bi\<close> the uninitialised local structure of \<open>vm_info_log_boot\<close>.\<close>

definition kernel_boot :: "u32 \<Rightarrow> nat \<Rightarrow> nat \<Rightarrow> nat \<Rightarrow> boot_info \<Rightarrow> 'a boots_scheme \<Rightarrow> 'a boots_scheme" where
  "kernel_boot stub idle ent ar bi s =
     (let info = (\<lambda>tag msg. klog_line KLOG_LEVEL_INFO (Some (cstr tag)) (Some (cstr msg)));
          s = kernel_early_init s;
          s = s\<lparr>screen := console_fb_init (screen s)\<rparr>;
          s = console_init s;
          s = info ''kernel'' ''LAMP KERNEL V0.06 boot'' s;
          s = vm_info_log_boot bi s;
          s = trap_init stub s;
          s = irq_input_init s;
          s = syscall_init s;
          s = info ''trap'' ''ready, input irq enabled'' s;
          s = info ''syscall'' ''irq 0x80 dispatch ready'' s;
          s = smp_init_bsp s;
          s = info ''smp'' ''bsp online'' s;
          s = sched_init idle s;
          s = init_task_spawn ent ar s;
          s = kernel_late_init s in
      info ''sched'' ''start'' s)"

section \<open>What the initialisations change\<close>

lemma spinlock_held: "spinlock_lock v = (if v = 0 then Some 1 else None)"
proof (cases "v = 0")
  case False
  have "spinlock_lock v \<noteq> Some y" for y
  proof
    assume "spinlock_lock v = Some y"
    then have "v = 0" by (rule spinlock_lock.raw_induct [rotated]) (auto split: if_splits)
    then show False using False by simp
  qed
  then show ?thesis using False by auto
qed (simp add: spinlock_lock.simps)

lemma drawn_vm_info [drawn_rules]: "drawn s u \<Longrightarrow> drawn s (vm_info_log_boot bi u)"
proof -
  have v: "drawn s (vendor_loop cs b w)" if "drawn s w" for cs b and w :: "'a klogs_scheme"
    using that by (induction cs b w rule: vendor_loop.induct) (simp_all add: drawn_rules)
  have f: "drawn s (snd (fold (log_feature ft) fs (b, w)))" if "drawn s w" for ft fs b and w :: "'a klogs_scheme"
    using that by (induction fs arbitrary: b w) (simp_all add: log_feature_def Let_def drawn_rules)
  have g: "drawn s (vm_info_log_features ft w)" if "drawn s w" for ft and w :: "'a klogs_scheme"
    unfolding vm_info_log_features_def Let_def case_prod_unfold by (intro drawn_rules f that)
  have h: "drawn s (log_fields fs w)" if "drawn s w" for fs and w :: "'a klogs_scheme"
    unfolding log_fields_def log_field_def by (intro drawn_rules drawn_fold that)
  show "drawn s u \<Longrightarrow> drawn s (vm_info_log_boot bi u)"
    unfolding vm_info_log_boot_def vm_info_print_vendor_def Let_def case_prod_unfold by (intro drawn_rules v g h; assumption)
qed

text \<open>The console is empty and in its default mode, and the serial interrupt leads to its handler.\<close>

definition devices_up :: "'a traps_scheme \<Rightarrow> bool" where
  "devices_up s \<longleftrightarrow> g_rx_head s = 0 \<and> g_rx_tail s = 0 \<and> g_rx_lines s = 0 \<and> g_rx_eofs s = 0 \<and> g_tty_lflag s = 7 \<and> serial_routed s"

lemma devices_up_console: "devices_up s \<Longrightarrow> console_ok s \<and> eofs_ok s \<and> rx_content s = []"
  by (simp add: devices_up_def console_ok_def eofs_ok_def rx_content_def ring_content_def)

lemma devices_up_same:
  assumes "devices_up s" "sched.more u = sched.more s"
  shows "devices_up u"
proof -
  have "g_trap_ready u = g_trap_ready s" "g_trap_table u = g_trap_table s" "g_irq_mask u = g_irq_mask s"
    using assms(2) by (cases u; cases s; simp)+
  then show ?thesis using assms(1) con_same [OF assms(2)] by (simp add: devices_up_def serial_routed_def)
qed

lemma devices_up_drawn: "devices_up s \<Longrightarrow> drawn s u \<Longrightarrow> devices_up u"
  by (auto simp: drawn_def devices_up_def serial_routed_def)

text \<open>The scheduler leaves what is beyond its own variables alone.\<close>

lemma sched_start_more: "sched.more (sched_init e s) = sched.more s" "sched.more (snd (sched_spawn nm ent ar s)) = sched.more s"
proof -
  have "sched.more (fold sched_clear_task xs s) = sched.more s" for xs by (rule fold_keeps) (simp add: sched_clear_task_def)
  then show "sched.more (sched_init e s) = sched.more s"
    by (simp add: sched_init_def Let_def upd_task_def sched_waitq_init_def del: upt_rec_numeral)
  show "sched.more (snd (sched_spawn nm ent ar s)) = sched.more s"
    by (simp add: sched_spawn_def Let_def upd_task_def sched_waitq_init_def resched_def)
qed

lemma trap_init_up:
  assumes "g_rx_head s = 0" "g_rx_tail s = 0" "g_rx_lines s = 0" "g_rx_eofs s = 0" "g_tty_lflag s = 7" "\<forall>q. wq s q = 0"
  shows "devices_up (trap_init stub s)" "\<forall>q. wq (trap_init stub s) q = 0" "machine (trap_init stub s) = machine s"
proof -
  note keep = trap_init_keeps [where stub = stub and s = s]
  have f: "g_rx_head (trap_init stub s) = 0" "g_rx_tail (trap_init stub s) = 0" "g_rx_lines (trap_init stub s) = 0"
    "g_rx_eofs (trap_init stub s) = 0" "g_tty_lflag (trap_init stub s) = 7" "wq (trap_init stub s) = wq s"
    using keep [where f = g_rx_head] keep [where f = g_rx_tail] keep [where f = g_rx_lines] keep [where f = g_rx_eofs]
      keep [where f = g_tty_lflag] keep [where f = wq] assms by (simp_all add: ivt_write_entry_def Let_def)
  moreover have "serial_routed (trap_init stub s)"
    using trap_init_table(1) [of stub s] trap_init_table(3) [of 3 stub s] trap_init_table(4) [of 0 stub s]
    by (simp add: serial_routed_def)
  ultimately show "devices_up (trap_init stub s)" by (simp add: devices_up_def)
  show "\<forall>q. wq (trap_init stub s) q = 0" using f(6) assms(6) by simp
  show "machine (trap_init stub s) = machine s" using keep [where f = machine] by (simp add: ivt_write_entry_def Let_def)
qed

lemma abi_keeps: "devices_up s \<Longrightarrow> devices_up (abi_write32 k x s)" "wq (abi_write32 k x s) = wq s" "machine (abi_write32 k x s) = machine s"
  by (auto simp: abi_write32_def devices_up_def serial_routed_def)

lemma syscall_init_up:
  "devices_up s \<Longrightarrow> devices_up (syscall_init s)" "wq (syscall_init s) = wq s" "machine (syscall_init s) = machine s"
proof -
  have "devices_up (s\<lparr>g_realtime_offset_neg := False, g_realtime_offset_mag_ns := 0\<rparr>)" if "devices_up s"
    using that by (simp add: devices_up_def serial_routed_def)
  then show "devices_up s \<Longrightarrow> devices_up (syscall_init s)" by (simp add: syscall_init_def Let_def abi_keeps)
  show "wq (syscall_init s) = wq s" "machine (syscall_init s) = machine s" by (simp_all add: syscall_init_def Let_def abi_keeps)
qed

text \<open>The tables after \<open>sched_init\<close> and the spawn of one task.\<close>

lemma first_spawn:
  assumes i: "g_tasks u = g_tasks (sched_init idle s)" "g_next_tid u = g_next_tid (sched_init idle s)"
      "g_current_idx u = g_current_idx (sched_init idle s)"
    and assms: "v = snd (sched_spawn nm (Some ent) ar u)"
  shows "fst (sched_spawn nm (Some ent) ar u) = 1" "used (g_tasks v 1)" "entry (g_tasks v 1) = Some ent" "state (g_tasks v 1) = T_RUNNABLE"
    "stdin_slot (g_tasks v 1) 0 3" "g_current_idx v = 0" "g_need_resched v" "sched_pick_next_idx v = 1"
proof -
  have g: "g_tasks u i = (if i = 0 then g_tasks u 0 else slot_zero)" if "i < 16" for i
    using that unfolding i by (simp add: sched_init_def Let_def fold_clear upd_task_def sched_waitq_init_def)
  have a: "sched_alloc_slot u = 1" using g [of 1] by (simp add: sched_alloc_slot_def upt_rec slot_zero_def)
  have u: "g_next_tid u = 1" "g_current_idx u = 0" by (simp_all add: i sched_init_def upd_task_def sched_waitq_init_def Let_def)
  show "fst (sched_spawn nm (Some ent) ar u) = 1" using a u(1) by (simp add: sched_spawn_def Let_def upd_task_def sched_waitq_init_def)
  show t: "used (g_tasks v 1)" "entry (g_tasks v 1) = Some ent" "state (g_tasks v 1) = T_RUNNABLE" and c: "g_current_idx v = 0" and "g_need_resched v"
    using a u(2) by (simp_all add: assms sched_spawn_def Let_def upd_task_def sched_waitq_init_def resched_def
        sched_fd_table_init_stdio_def stdio_entry_def sched_fd_table_clear_def)
  obtain w where "g_tasks v 1 = sched_fd_table_init_stdio w"
    using a by (simp add: assms sched_spawn_def Let_def upd_task_def sched_waitq_init_def resched_def)
  then show "stdin_slot (g_tasks v 1) 0 3" by (simp add: stdio_slot)
  show "sched_pick_next_idx v = 1" using t c by (simp add: sched_pick_next_idx_def upt_rec sched_idx_runnable_def)
qed

lemma sched_more_fields:
  assumes "sched.more u = sched.more (s :: 'a boots_scheme)"
  shows "init_len u = init_len s" "init_started u = init_started s" "g_online_cpus u = g_online_cpus s" "machine u = machine s"
  using assms by (cases u; cases s; simp)+

text \<open>The devices are up, with empty queues, when \<open>kernel_boot\<close> reaches the scheduler.\<close>

lemma boot_devices:
  assumes "\<forall>q. wq s q = 0"
  obtains s5 where "devices_up s5" "\<forall>q. wq s5 q = 0" "g_online_cpus s5 = 1"
    "machine s5 = io_out32 IO_SERIAL_STATUS SERIAL_CTRL_RX_INT_ENABLE (machine s)"
    "kernel_boot stub idle ent ar bi s
     = klog_line 3 (Some (cstr ''sched'')) (Some (cstr ''start'')) (kernel_late_init (init_task_spawn ent ar (sched_init idle s5)))"
proof -
  define s1 where "s1 = console_init ((kernel_early_init s)\<lparr>screen := console_fb_init (screen (kernel_early_init s))\<rparr>)"
  define s2 where "s2 = vm_info_log_boot bi (klog_line 3 (Some (cstr ''kernel'')) (Some (cstr ''LAMP KERNEL V0.06 boot'')) s1)"
  have "drawn s1 s2" unfolding s2_def by (intro drawn_rules)
  then have s2: "g_rx_head s2 = 0" "g_rx_tail s2 = 0" "g_rx_lines s2 = 0" "g_rx_eofs s2 = 0" "g_tty_lflag s2 = 7" "\<forall>q. wq s2 q = 0"
    and m2: "machine s2 = machine s"
    using assms by (auto simp: drawn_def s1_def console_init_def kernel_early_init_def sched_waitq_init_def)
  define s3 where "s3 = syscall_init (irq_input_init (trap_init stub s2))"
  have "devices_up (irq_input_init (trap_init stub s2))" "\<forall>q. wq (irq_input_init (trap_init stub s2)) q = 0"
    "machine (irq_input_init (trap_init stub s2)) = io_out32 IO_SERIAL_STATUS SERIAL_CTRL_RX_INT_ENABLE (machine s)"
    using m2 trap_init_up [OF s2] by (simp_all add: irq_input_init_def devices_up_def serial_routed_def)
  then have s3: "devices_up s3" "\<forall>q. wq s3 q = 0" "machine s3 = io_out32 IO_SERIAL_STATUS SERIAL_CTRL_RX_INT_ENABLE (machine s)"
    by (simp_all add: s3_def syscall_init_up)
  define s4 where "s4 = klog_line 3 (Some (cstr ''syscall'')) (Some (cstr ''irq 0x80 dispatch ready''))
      (klog_line 3 (Some (cstr ''trap'')) (Some (cstr ''ready, input irq enabled'')) s3)"
  have d4: "drawn s3 s4" unfolding s4_def by (intro drawn_rules)
  define s5 where "s5 = klog_line 3 (Some (cstr ''smp'')) (Some (cstr ''bsp online'')) (smp_init_bsp s4)"
  have d5: "drawn (smp_init_bsp s4) s5" unfolding s5_def by (intro drawn_rules)
  have "devices_up s4" "\<forall>q. wq s4 q = 0" "machine s4 = io_out32 IO_SERIAL_STATUS SERIAL_CTRL_RX_INT_ENABLE (machine s)"
    using devices_up_drawn [OF s3(1) d4] d4 s3(2,3) by (auto simp: drawn_def)
  then have "devices_up (smp_init_bsp s4)" "\<forall>q. wq (smp_init_bsp s4) q = 0" "g_online_cpus (smp_init_bsp s4) = 1"
    "machine (smp_init_bsp s4) = io_out32 IO_SERIAL_STATUS SERIAL_CTRL_RX_INT_ENABLE (machine s)"
    by (simp_all add: smp_init_bsp_def devices_up_def serial_routed_def)
  then have s5: "devices_up s5" "\<forall>q. wq s5 q = 0" "g_online_cpus s5 = 1" "machine s5 = io_out32 IO_SERIAL_STATUS SERIAL_CTRL_RX_INT_ENABLE (machine s)"
    using devices_up_drawn [OF _ d5] d5 by (auto simp: drawn_def)
  have "kernel_boot stub idle ent ar bi s
     = klog_line 3 (Some (cstr ''sched'')) (Some (cstr ''start'')) (kernel_late_init (init_task_spawn ent ar (sched_init idle s5)))"
    unfolding s5_def s4_def s3_def s2_def s1_def kernel_boot_def Let_def ..
  with s5 that show ?thesis by blast
qed

lemma pick_same:
  assumes "g_tasks u = g_tasks s" "g_current_idx u = g_current_idx s"
  shows "sched_pick_next_idx u = sched_pick_next_idx s"
  unfolding sched_pick_next_idx_def sched_idx_runnable_def assms ..

lemma boot_turn:
  assumes "g_need_resched v" "sched_pick_next_idx v = 1" "used (g_tasks v 1)" "entry (g_tasks v 1) = Some ent" "state (g_tasks v 1) = T_RUNNABLE"
  shows "sched_run_turn run v = run_slot run 1 (v\<lparr>g_need_resched := False, g_current_idx := 1\<rparr>)"
proof -
  have "sched_pick_next_idx (v\<lparr>g_need_resched := False\<rparr>) = sched_pick_next_idx v"
    by (rule pick_same) simp_all
  then show ?thesis using assms by (simp add: sched_run_turn_def Let_def)
qed

lemma boot_state:
  assumes "\<forall>q. wq s q = 0"
  obtains v z where "kernel_boot stub idle ent ar bi s = v\<lparr>g_kernel_booted := 1, screen := z\<rparr>"
    "sched_ok v" "devices_up v" "g_online_cpus v = 1" "init_len v = 0" "init_started v = 0"
    "machine v = io_out32 IO_SERIAL_STATUS SERIAL_CTRL_RX_INT_ENABLE (machine s)"
    "used (g_tasks v 1)" "entry (g_tasks v 1) = Some ent" "state (g_tasks v 1) = T_RUNNABLE" "stdin_slot (g_tasks v 1) 0 3"
    "g_need_resched v" "sched_pick_next_idx v = 1"
proof -
  obtain s5 where s5: "devices_up s5" "\<forall>q. wq s5 q = 0" "g_online_cpus s5 = 1"
      "machine s5 = io_out32 IO_SERIAL_STATUS SERIAL_CTRL_RX_INT_ENABLE (machine s)"
    and b: "kernel_boot stub idle ent ar bi s
     = klog_line 3 (Some (cstr ''sched'')) (Some (cstr ''start'')) (kernel_late_init (init_task_spawn ent ar (sched_init idle s5)))"
    using boot_devices [OF assms] by blast
  define u where "u = (sched_init idle s5)\<lparr>init_len := 0, init_started := 0\<rparr>"
  define v where "v = snd (sched_spawn ''init'' (Some ent) ar u)"
  have "sched_ok u" using init_ok [of s5 idle] s5(2) by (simp add: u_def sched_ok_def)
  then have ok: "sched_ok v" unfolding v_def by (rule spawn_ok)
  have i: "g_tasks u = g_tasks (sched_init idle s5)" "g_next_tid u = g_next_tid (sched_init idle s5)"
    "g_current_idx u = g_current_idx (sched_init idle s5)" by (simp_all add: u_def)
  note sp = first_spawn [OF i v_def]
  have "devices_up (sched_init idle s5)" "g_online_cpus (sched_init idle s5) = 1"
    "machine (sched_init idle s5) = machine s5"
    using devices_up_same [OF s5(1)] sched_more_fields(3,4) [of "sched_init idle s5" s5] s5(3) by (simp_all add: sched_start_more)
  then have "devices_up u" "g_online_cpus u = 1" "init_len u = 0" "init_started u = 0" "machine u = machine s5"
    by (simp_all add: u_def devices_up_def serial_routed_def)
  moreover have m: "sched.more v = sched.more u" by (simp add: v_def sched_start_more)
  ultimately have v: "devices_up v" "g_online_cpus v = 1" "init_len v = 0" "init_started v = 0" "machine v = machine s5"
    using devices_up_same [of u v] sched_more_fields [OF m] by simp_all
  define x where "x = klog_line 3 (Some (cstr ''init'')) (Some (cstr ''spawned'')) v"
  have "init_task_spawn ent ar (sched_init idle s5) = x"
    using sp(1) by (simp add: init_task_spawn_def x_def v_def u_def case_prod_unfold)
  then have k: "kernel_boot stub idle ent ar bi s = klog_line 3 (Some (cstr ''sched'')) (Some (cstr ''start'')) (x\<lparr>g_kernel_booted := 1\<rparr>)"
    by (simp add: b kernel_late_init_def)
  have "drawn v x" unfolding x_def by (intro drawn_rules)
  then obtain y where "x = v\<lparr>screen := y\<rparr>" unfolding drawn_def by blast
  moreover have "drawn (x\<lparr>g_kernel_booted := 1\<rparr>) (kernel_boot stub idle ent ar bi s)" unfolding k by (intro drawn_rules)
  ultimately obtain z where z: "kernel_boot stub idle ent ar bi s = v\<lparr>g_kernel_booted := 1, screen := z\<rparr>" unfolding drawn_def by auto
  show ?thesis using that [OF z ok v(1-4) _ sp(2-5,7,8)] v(5) s5(4) by simp
qed

section \<open>Properties\<close>

text \<open>C12: Booting the kernel, with the queue words of its static variables zero, establishes the invariants of the scheduler and
  of the console, leaves the input queue empty and the terminal in canonical mode, routes the serial interrupt to its
  handler, and has the init task with a standard descriptor table in slot 1, which is the task that the first turn
  of the scheduler runs.\<close>

theorem kernel_start_establishes:
  assumes "\<forall>q. wq s q = 0"
  shows "let u = kernel_boot stub idle ent ar bi s in
         sched_ok u \<and> console_ok u \<and> eofs_ok u \<and> rx_content u = [] \<and> g_tty_lflag u = 7 \<and> serial_routed u
         \<and> init_len u = 0 \<and> init_started u = 0 \<and> entry (g_tasks u 1) = Some ent \<and> stdin_slot (g_tasks u 1) 0 3
         \<and> sched_run_turn run u = run_slot run 1 (u\<lparr>g_need_resched := False, g_current_idx := 1\<rparr>)
         \<and> g_online_cpus u = 1 \<and> g_kernel_booted u = 1"
proof -
  obtain v z where z: "kernel_boot stub idle ent ar bi s = v\<lparr>g_kernel_booted := 1, screen := z\<rparr>"
    and v: "sched_ok v" "devices_up v" "g_online_cpus v = 1" "init_len v = 0" "init_started v = 0"
    and sp: "used (g_tasks v 1)" "entry (g_tasks v 1) = Some ent" "state (g_tasks v 1) = T_RUNNABLE" "stdin_slot (g_tasks v 1) 0 3"
      "g_need_resched v" "sched_pick_next_idx v = 1"
    using boot_state [OF assms] by metis
  let ?k = "v\<lparr>g_kernel_booted := 1, screen := z\<rparr>"
  have "sched_ok ?k" using v(1) by (simp add: sched_ok_def)
  moreover have "devices_up ?k" using v(2) by (simp add: devices_up_def serial_routed_def)
  moreover have "sched_pick_next_idx ?k = sched_pick_next_idx v" by (rule pick_same) simp_all
  ultimately show ?thesis
    using v sp boot_turn [of ?k ent run] devices_up_console [of ?k] unfolding z Let_def by (simp add: devices_up_def)
qed

text \<open>A machine just loaded: zeroed variables and stale log and screen contents.\<close>

definition demo_boot :: boots where
  "demo_boot = inits.extend (demo_init\<lparr>wq := \<lambda>_. 0, init_len := 9\<rparr>) \<lparr>g_kernel_booted = 7, g_online_cpus = 3\<rparr>"

definition demo_boot_info :: boot_info where
  "demo_boot_info =
     \<lparr>bi_magic = 0, bi_version = 0, bi_size = 0, vendor_words = [], mem_bytes_lo = 0, mem_bytes_hi = 0,
     disk_bytes_lo = 0, disk_bytes_hi = 0, bi_smp_cores = 0, layout_version = 0, arch_id = 0, endian = 0,
     phys_addr_bits = 0, page_size = 0, timer_freq_hz = 0, features = 0, bi_fb_width = 0, bi_fb_height = 0,
     bi_fb_bpp = 0, fb_stride_bytes = 0, boot_realtime_ns_lo = 0, boot_realtime_ns_hi = 0\<rparr>"

theorem kernel_start_establishes_witness:
  "(\<forall>q. wq demo_boot q = 0)
   \<and> (let u = kernel_boot 512 10 20 30 demo_boot_info demo_boot in sched_ok u \<and> console_ok u \<and> init_len u = 0 \<and> entry (g_tasks u 1) = Some 20)"
proof -
  have "\<forall>q. wq demo_boot q = 0" by (simp add: demo_boot_def inits.defs)
  then show ?thesis using kernel_start_establishes [of demo_boot 512 10 20 30 demo_boot_info "\<lambda>_ _ _ s. s"] by (simp add: Let_def)
qed

end
