(* ===== verification/TextScreen.thy ===== *)
theory TextScreen
  imports Prelude
begin

text \<open>
  The text screen of the host (\<open>io_devices/frame/frame.c\<close>): 80 by 25 cells, a rectangle of cells that
  changed since they were last copied to the character memory, and the output of that memory to the
  terminal. The output is the list \<open>stdout\<close>; \<open>clear_screen\<close> only runs a command of the host and is left out.

  \<open>frame_ok\<close> is the invariant: outside the dirty rectangle the character memory holds what the screen shows.
  \<open>transcript\<close> is the specification of the contents: the text broken into rows, of which the screen shows the last.
\<close>

section \<open>State and operations\<close>

abbreviation (input) SCREEN_WIDTH :: nat where "SCREEN_WIDTH \<equiv> 80"
abbreviation (input) SCREEN_HEIGHT :: nat where "SCREEN_HEIGHT \<equiv> 25"
abbreviation (input) FLUSH_THRESHOLD :: nat where "FLUSH_THRESHOLD \<equiv> 3"
abbreviation (input) VGA_ADDR :: "nat \<Rightarrow> nat \<Rightarrow> nat" where "VGA_ADDR x y \<equiv> y * SCREEN_WIDTH + x"

record cell =
  cell_ch :: u8
  cell_attr :: u8

record frame =
  cells :: "nat \<Rightarrow> nat \<Rightarrow> cell"
  cursor_x :: nat
  cursor_y :: nat
  refresh_counter :: nat
  dirty :: bool
  dirty_x1 :: nat
  dirty_y1 :: nat
  dirty_x2 :: nat
  dirty_y2 :: nat
  vga_memory :: "nat \<Rightarrow> u16"
  stdout :: "u8 list"

definition set_dirty :: "bool \<Rightarrow> frame \<Rightarrow> frame" where
  "set_dirty b s = s\<lparr>dirty := b\<rparr>"

definition all_dirty :: "frame \<Rightarrow> frame" where
  "all_dirty s = s\<lparr>dirty := True, dirty_x1 := 0, dirty_y1 := 0, dirty_x2 := SCREEN_WIDTH - 1, dirty_y2 := SCREEN_HEIGHT - 1\<rparr>"

definition put_cell :: "nat \<Rightarrow> nat \<Rightarrow> u8 \<Rightarrow> u8 \<Rightarrow> frame \<Rightarrow> frame" where
  "put_cell y x c a s = s\<lparr>cells := (cells s)(y := (cells s y)(x := \<lparr>cell_ch = c, cell_attr = a\<rparr>))\<rparr>"

definition init_screen :: "frame \<Rightarrow> frame" where
  "init_screen s =
     (let s = fold (\<lambda>y. fold (\<lambda>x. put_cell y x 32 0x07) [0..<SCREEN_WIDTH]) [0..<SCREEN_HEIGHT] s in
      all_dirty (s\<lparr>cursor_x := 0, cursor_y := 0\<rparr>))"

definition scroll_up :: "frame \<Rightarrow> frame" where
  "scroll_up s =
     (let s = s\<lparr>cells := (\<lambda>y. if y < SCREEN_HEIGHT - 1 then cells s (y + 1) else cells s y)\<rparr>;
          s = fold (\<lambda>x. put_cell (SCREEN_HEIGHT - 1) x 32 0x07) [0..<SCREEN_WIDTH] s;
          s = all_dirty s in
      if 0 < cursor_y s then s\<lparr>cursor_y := cursor_y s - 1\<rparr> else s)"

definition cell_word :: "cell \<Rightarrow> u16" where
  "cell_word c = push_bit 8 (ucast (cell_attr c)) OR ucast (cell_ch c)"

definition copy_dirty :: "frame \<Rightarrow> frame" where
  "copy_dirty s =
     s\<lparr>vga_memory := fold (\<lambda>y. fold (\<lambda>x m. m(VGA_ADDR x y := cell_word (cells s y x))) [dirty_x1 s..<dirty_x2 s + 1])
                      [dirty_y1 s..<dirty_y2 s + 1] (vga_memory s)\<rparr>"

definition flush_to_vga :: "frame \<Rightarrow> frame" where
  "flush_to_vga s = (if \<not> dirty s then s else (copy_dirty s)\<lparr>dirty := False\<rparr>)"

definition vga_char :: "(nat \<Rightarrow> u16) \<Rightarrow> nat \<Rightarrow> nat \<Rightarrow> u8" where
  "vga_char m x y = ucast (m (VGA_ADDR x y) AND 0xFF)"

definition print_row :: "nat \<Rightarrow> frame \<Rightarrow> frame" where
  "print_row y s =
     (let s = fold (\<lambda>x s. s\<lparr>stdout := stdout s @ [vga_char (vga_memory s) x y]\<rparr>) [0..<SCREEN_WIDTH] s in
      s\<lparr>stdout := stdout s @ [10]\<rparr>)"

definition render_vga_screen :: "frame \<Rightarrow> frame" where
  "render_vga_screen s = (fold print_row [0..<SCREEN_HEIGHT] (flush_to_vga s))\<lparr>refresh_counter := 0\<rparr>"

definition render_screen_dirty :: "frame \<Rightarrow> frame" where
  "render_screen_dirty s = (if \<not> dirty s then s else (copy_dirty s)\<lparr>dirty := False\<rparr>)"

definition flush_screen_final :: "frame \<Rightarrow> frame" where
  "flush_screen_final s = render_vga_screen (all_dirty s)"

definition mark_dirty :: "nat \<Rightarrow> nat \<Rightarrow> frame \<Rightarrow> frame" where
  "mark_dirty x y s =
     (if \<not> dirty s then s\<lparr>dirty_x1 := x, dirty_y1 := y, dirty_x2 := x, dirty_y2 := y, dirty := True\<rparr>
      else s\<lparr>dirty_x1 := (if x < dirty_x1 s then x else dirty_x1 s), dirty_x2 := (if dirty_x2 s < x then x else dirty_x2 s),
             dirty_y1 := (if y < dirty_y1 s then y else dirty_y1 s), dirty_y2 := (if dirty_y2 s < y then y else dirty_y2 s)\<rparr>)"

definition next_row :: "frame \<Rightarrow> frame" where
  "next_row s = (let s = s\<lparr>cursor_x := 0, cursor_y := cursor_y s + 1\<rparr> in if SCREEN_HEIGHT \<le> cursor_y s then scroll_up s else s)"

definition put_and_advance :: "u8 \<Rightarrow> u8 \<Rightarrow> frame \<Rightarrow> frame" where
  "put_and_advance c a s =
     (if c = 10 then next_row s
      else
        let s = put_cell (cursor_y s) (cursor_x s) c a s;
            s = mark_dirty (cursor_x s) (cursor_y s) s;
            s = s\<lparr>cursor_x := cursor_x s + 1\<rparr> in
        if SCREEN_WIDTH \<le> cursor_x s then next_row s else s)"

definition put_char_with_attr :: "u8 \<Rightarrow> u8 \<Rightarrow> frame \<Rightarrow> frame" where
  "put_char_with_attr c a s =
     (let s = put_and_advance c a s;
          s = s\<lparr>refresh_counter := refresh_counter s + 1\<rparr> in
      if FLUSH_THRESHOLD \<le> refresh_counter s \<or> c = 10 then render_vga_screen s else s)"

section \<open>Loops in closed form\<close>

lemma put_cells:
  "fold (\<lambda>x. put_cell y x c a) [0..<n] s
   = s\<lparr>cells := (cells s)(y := (\<lambda>x. if x < n then \<lparr>cell_ch = c, cell_attr = a\<rparr> else cells s y x))\<rparr>"
proof (induction n)
  case 0
  have "(cells s)(y := cells s y) = cells s" by simp
  then show ?case by simp
next
  case (Suc n)
  then show ?case by (simp add: put_cell_def) (auto simp: fun_eq_iff less_Suc_eq)
qed

lemma copy_row_vga:
  "fold (\<lambda>x m. m(VGA_ADDR x y := f x)) [a..<b] m i
   = (if VGA_ADDR a y \<le> i \<and> i < VGA_ADDR b y then f (i - y * SCREEN_WIDTH) else m i)"
  by (induction b) auto

lemma copy_dirty_vga:
  assumes "b \<le> SCREEN_WIDTH" "x < SCREEN_WIDTH"
  shows "fold (\<lambda>y. fold (\<lambda>x m. m(VGA_ADDR x y := f y x)) [a..<b]) [y1..<y2] m (VGA_ADDR x y)
         = (if a \<le> x \<and> x < b \<and> y1 \<le> y \<and> y < y2 then f y x else m (VGA_ADDR x y))"
proof (induction y2)
  case (Suc n)
  have row: "VGA_ADDR a n \<le> VGA_ADDR x y \<and> VGA_ADDR x y < VGA_ADDR b n \<longleftrightarrow> y = n \<and> a \<le> x \<and> x < b"
  proof (cases "y = n")
    case False
    then have "y * 80 + 80 \<le> n * 80 \<or> n * 80 + 80 \<le> y * 80" by (cases "y < n") auto
    then show ?thesis using assms False by auto
  qed auto
  show ?case
  proof (cases "y1 \<le> n")
    case True
    then have e: "fold (\<lambda>y. fold (\<lambda>x m. m(VGA_ADDR x y := f y x)) [a..<b]) [y1..<Suc n] m (VGA_ADDR x y)
        = (if y = n \<and> a \<le> x \<and> x < b then f n x
           else fold (\<lambda>y. fold (\<lambda>x m. m(VGA_ADDR x y := f y x)) [a..<b]) [y1..<n] m (VGA_ADDR x y))"
      by (simp only: upt_Suc_append fold_append o_apply fold.simps id_apply copy_row_vga row) auto
    show ?thesis unfolding e Suc using True by (simp only: less_Suc_eq) (auto split: if_splits)
  qed auto
qed simp

lemma render_rows:
  "fold print_row [0..<h] s
   = s\<lparr>stdout := stdout s @ concat (List.map (\<lambda>y. List.map (\<lambda>x. vga_char (vga_memory s) x y) [0..<SCREEN_WIDTH] @ [10]) [0..<h])\<rparr>"
proof -
  have "fold (\<lambda>x s. s\<lparr>stdout := stdout s @ [vga_char (vga_memory s) x y]\<rparr>) [0..<n] s
      = s\<lparr>stdout := stdout s @ List.map (\<lambda>x. vga_char (vga_memory s) x y) [0..<n]\<rparr>" for s :: frame and y n
    by (induction n) simp_all
  then have "print_row y s = s\<lparr>stdout := stdout s @ List.map (\<lambda>x. vga_char (vga_memory s) x y) [0..<80] @ [10]\<rparr>" for y s
    unfolding print_row_def Let_def by (simp del: upt_rec_numeral)
  then show ?thesis by (induction h) (simp_all del: upt_rec_numeral)
qed

section \<open>The invariant\<close>

definition in_dirty :: "frame \<Rightarrow> nat \<Rightarrow> nat \<Rightarrow> bool" where
  "in_dirty s x y \<longleftrightarrow> dirty s \<and> dirty_x1 s \<le> x \<and> x \<le> dirty_x2 s \<and> dirty_y1 s \<le> y \<and> y \<le> dirty_y2 s"

definition frame_ok :: "frame \<Rightarrow> bool" where
  "frame_ok s \<longleftrightarrow>
     cursor_x s < SCREEN_WIDTH \<and> cursor_y s < SCREEN_HEIGHT \<and> (dirty s \<longrightarrow> dirty_x2 s < SCREEN_WIDTH \<and> dirty_y2 s < SCREEN_HEIGHT)
     \<and> (\<forall>y < SCREEN_HEIGHT. \<forall>x < SCREEN_WIDTH. in_dirty s x y \<or> vga_memory s (VGA_ADDR x y) = cell_word (cells s y x))"

definition picture :: "frame \<Rightarrow> u8 list" where
  "picture s = concat (List.map (\<lambda>y. List.map (\<lambda>x. cell_ch (cells s y x)) [0..<SCREEN_WIDTH] @ [10]) [0..<SCREEN_HEIGHT])"

lemma word_char: "ucast (cell_word c AND 0xFF) = cell_ch c"
proof -
  have "(0xFF :: u16) = mask 8" by (simp add: mask_eq_exp_minus_1)
  then show ?thesis by (intro bit_word_eqI) (auto simp: cell_word_def bit_simps)
qed

lemma all_dirty_ok: "cursor_x s < SCREEN_WIDTH \<Longrightarrow> cursor_y s < SCREEN_HEIGHT \<Longrightarrow> frame_ok (all_dirty s)"
  by (auto simp: frame_ok_def all_dirty_def in_dirty_def)

lemma flush_ok:
  assumes "frame_ok s"
  shows "\<exists>m. flush_to_vga s = s\<lparr>vga_memory := m, dirty := False\<rparr> \<and> (\<forall>y < SCREEN_HEIGHT. \<forall>x < SCREEN_WIDTH. m (VGA_ADDR x y) = cell_word (cells s y x))"
proof (cases "dirty s")
  case True
  have d: "dirty_x2 s < 80" using assms True by (simp add: frame_ok_def)
  have "vga_memory (copy_dirty s) (VGA_ADDR x y) = cell_word (cells s y x)" if "y < 25" "x < 80" for x y
  proof -
    have "in_dirty s x y \<or> vga_memory s (VGA_ADDR x y) = cell_word (cells s y x)" using assms that by (simp add: frame_ok_def)
    then show ?thesis
      using True copy_dirty_vga [of "dirty_x2 s + 1" x "\<lambda>y x. cell_word (cells s y x)" "dirty_x1 s" "dirty_y1 s" "dirty_y2 s + 1" "vga_memory s" y] d that(2)
      by (auto simp: copy_dirty_def in_dirty_def less_Suc_eq_le)
  qed
  moreover have "flush_to_vga s = s\<lparr>vga_memory := vga_memory (copy_dirty s), dirty := False\<rparr>"
    using True by (simp add: flush_to_vga_def copy_dirty_def)
  ultimately show ?thesis by blast
next
  case False
  then have "flush_to_vga s = s\<lparr>vga_memory := vga_memory s, dirty := False\<rparr>" by (simp add: flush_to_vga_def)
  then show ?thesis using False assms by (intro exI [of _ "vga_memory s"]) (auto simp: frame_ok_def in_dirty_def)
qed

lemma render_ok:
  assumes "frame_ok s"
  shows "\<exists>m. render_vga_screen s = s\<lparr>vga_memory := m, dirty := False, stdout := stdout s @ picture s, refresh_counter := 0\<rparr>"
    "frame_ok (render_vga_screen s)"
proof -
  obtain m where m: "flush_to_vga s = s\<lparr>vga_memory := m, dirty := False\<rparr>" "\<forall>y < 25. \<forall>x < 80. m (VGA_ADDR x y) = cell_word (cells s y x)"
    using flush_ok [OF assms] by blast
  have "vga_char m x y = cell_ch (cells s y x)" if "y < 25" "x < 80" for x y
    unfolding vga_char_def using m(2) that word_char by metis
  then have "List.map (\<lambda>x. vga_char m x y) [0..<80] = List.map (\<lambda>x. cell_ch (cells s y x)) [0..<80]" if "y < 25" for y
    using that by (auto simp del: upt_rec_numeral)
  then have "concat (List.map (\<lambda>y. List.map (\<lambda>x. vga_char m x y) [0..<80] @ [10]) [0..<25]) = picture s"
    unfolding picture_def by (intro arg_cong [where f = concat] map_cong) (simp_all del: upt_rec_numeral)
  then have r: "render_vga_screen s = s\<lparr>vga_memory := m, dirty := False, stdout := stdout s @ picture s, refresh_counter := 0\<rparr>"
    unfolding render_vga_screen_def m(1) render_rows by (simp del: upt_rec_numeral)
  then show "\<exists>m. render_vga_screen s = s\<lparr>vga_memory := m, dirty := False, stdout := stdout s @ picture s, refresh_counter := 0\<rparr>" by blast
  show "frame_ok (render_vga_screen s)" using assms m(2) unfolding r by (auto simp: frame_ok_def)
qed

lemma next_row_form:
  "\<exists>f. next_row s = (if 25 \<le> cursor_y s + 1
      then (all_dirty (s\<lparr>cells := f\<rparr>))\<lparr>cursor_x := 0, cursor_y := cursor_y s\<rparr>
      else s\<lparr>cursor_x := 0, cursor_y := cursor_y s + 1\<rparr>)
    \<and> (\<forall>y < SCREEN_HEIGHT. \<forall>x < SCREEN_WIDTH. cell_ch (f y x) = (if y < SCREEN_HEIGHT - 1 then cell_ch (cells s (y + 1) x) else 32))"
  by (rule exI [of _ "(\<lambda>y. if y < 24 then cells s (y + 1) else cells s y)(24 := \<lambda>x. if x < 80 then \<lparr>cell_ch = 32, cell_attr = 7\<rparr> else cells s 24 x)"])
     (simp add: next_row_def scroll_up_def Let_def put_cells all_dirty_def fun_upd_def cong: if_cong del: upt_rec_numeral)

lemma next_row_ok:
  assumes "frame_ok (s\<lparr>cursor_x := 0\<rparr>)"
  shows "frame_ok (next_row s)"
proof -
  obtain f where "next_row s = (if 25 \<le> cursor_y s + 1
      then (all_dirty (s\<lparr>cells := f\<rparr>))\<lparr>cursor_x := 0, cursor_y := cursor_y s\<rparr>
      else s\<lparr>cursor_x := 0, cursor_y := cursor_y s + 1\<rparr>)" using next_row_form by blast
  then show ?thesis using assms by (auto simp: frame_ok_def all_dirty_def in_dirty_def)
qed

lemma mark_dirty_fields [simp]:
  "cells (mark_dirty a b s) = cells s" "cursor_x (mark_dirty a b s) = cursor_x s" "cursor_y (mark_dirty a b s) = cursor_y s"
  "vga_memory (mark_dirty a b s) = vga_memory s" "dirty (mark_dirty a b s)"
  by (simp_all add: mark_dirty_def)

lemma mark_dirty_in: "in_dirty s x y \<or> (x = a \<and> y = b) \<Longrightarrow> in_dirty (mark_dirty a b s) x y"
  by (auto simp: in_dirty_def mark_dirty_def)

lemma put_mark_ok:
  assumes "frame_ok s"
  shows "frame_ok (mark_dirty (cursor_x s) (cursor_y s) (put_cell (cursor_y s) (cursor_x s) c a s))"
proof -
  let ?p = "put_cell (cursor_y s) (cursor_x s) c a s"
  let ?s = "mark_dirty (cursor_x s) (cursor_y s) ?p"
  have "in_dirty ?s x y \<or> vga_memory ?s (VGA_ADDR x y) = cell_word (cells ?s y x)" if "y < 25" "x < 80" for x y
  proof (cases "in_dirty s x y \<or> (x = cursor_x s \<and> y = cursor_y s)")
    case True
    then have "in_dirty ?p x y \<or> (x = cursor_x s \<and> y = cursor_y s)" by (simp add: in_dirty_def put_cell_def)
    then show ?thesis using mark_dirty_in by blast
  next
    case False
    then have "vga_memory s (VGA_ADDR x y) = cell_word (cells s y x)" using assms that unfolding frame_ok_def by blast
    then show ?thesis using False by (auto simp: put_cell_def)
  qed
  moreover have "dirty_x2 ?s < 80 \<and> dirty_y2 ?s < 25" using assms by (simp add: frame_ok_def mark_dirty_def put_cell_def)
  ultimately show ?thesis using assms by (simp add: frame_ok_def put_cell_def)
qed

lemma advance_ok:
  assumes "frame_ok s"
  shows "frame_ok (put_and_advance c a s)"
proof -
  let ?m = "mark_dirty (cursor_x s) (cursor_y s) (put_cell (cursor_y s) (cursor_x s) c a s)"
  have m: "frame_ok ?m" by (rule put_mark_ok [OF assms])
  have upd: "frame_ok (u\<lparr>cursor_x := n\<rparr>)" if "frame_ok u" "n < 80" for u n using that by (auto simp: frame_ok_def in_dirty_def)
  have "frame_ok (next_row (?m\<lparr>cursor_x := n\<rparr>))" for n using next_row_ok [of "?m\<lparr>cursor_x := n\<rparr>"] upd [OF m, of 0] by simp
  moreover have "frame_ok (next_row s)" using next_row_ok upd [OF assms, of 0] by simp
  moreover have "put_cell (cursor_y s) (cursor_x s) c a s = s\<lparr>cells := cells (put_cell (cursor_y s) (cursor_x s) c a s)\<rparr>" by (simp add: put_cell_def)
  then have "cursor_x (put_cell (cursor_y s) (cursor_x s) c a s) = cursor_x s" "cursor_y (put_cell (cursor_y s) (cursor_x s) c a s) = cursor_y s"
    by (simp_all add: put_cell_def)
  ultimately show ?thesis using upd [OF m, of "cursor_x s + 1"] by (simp add: put_and_advance_def Let_def)
qed

lemma refresh_upd: "frame_ok (s\<lparr>refresh_counter := n\<rparr>) = frame_ok s" "picture (s\<lparr>refresh_counter := n\<rparr>) = picture s"
  by (simp_all add: frame_ok_def in_dirty_def picture_def)

lemma init_screen_form:
  "\<exists>f. init_screen s = all_dirty (s\<lparr>cells := f, cursor_x := 0, cursor_y := 0\<rparr>) \<and> (\<forall>y < SCREEN_HEIGHT. \<forall>x < SCREEN_WIDTH. cell_ch (f y x) = 32)"
proof -
  have "\<exists>f. fold (\<lambda>y. fold (\<lambda>x. put_cell y x 32 7) [0..<80]) [0..<n] s = s\<lparr>cells := f\<rparr> \<and> (\<forall>y < n. \<forall>x < 80. cell_ch (f y x) = 32)" for n
  proof (induction n)
    case 0
    have "s = s\<lparr>cells := cells s\<rparr>" by simp
    then show ?case by (intro exI [of _ "cells s"]) simp
  next
    case (Suc n)
    then obtain f where f: "fold (\<lambda>y. fold (\<lambda>x. put_cell y x 32 7) [0..<80]) [0..<n] s = s\<lparr>cells := f\<rparr>" "\<forall>y < n. \<forall>x < 80. cell_ch (f y x) = 32" by blast
    have "fold (\<lambda>y. fold (\<lambda>x. put_cell y x 32 7) [0..<80]) [0..<Suc n] s = fold (\<lambda>x. put_cell n x 32 7) [0..<80] (s\<lparr>cells := f\<rparr>)"
      using f(1) by (simp del: upt_rec_numeral)
    also have "\<dots> = s\<lparr>cells := f(n := \<lambda>x. if x < 80 then \<lparr>cell_ch = 32, cell_attr = 7\<rparr> else f n x)\<rparr>"
      unfolding put_cells by (simp cong: if_cong)
    finally have "fold (\<lambda>y. fold (\<lambda>x. put_cell y x 32 7) [0..<80]) [0..<Suc n] s
        = s\<lparr>cells := f(n := \<lambda>x. if x < 80 then \<lparr>cell_ch = 32, cell_attr = 7\<rparr> else f n x)\<rparr>" .
    moreover have "\<forall>y < Suc n. \<forall>x < 80. cell_ch ((f(n := \<lambda>x. if x < 80 then \<lparr>cell_ch = 32, cell_attr = 7\<rparr> else f n x)) y x) = 32"
      using f(2) by (simp add: less_Suc_eq)
    ultimately show ?case by blast
  qed
  from this [of 25] obtain f where "fold (\<lambda>y. fold (\<lambda>x. put_cell y x 32 7) [0..<80]) [0..<25] s = s\<lparr>cells := f\<rparr>" "\<forall>y < 25. \<forall>x < 80. cell_ch (f y x) = 32" by blast
  then show ?thesis by (intro exI [of _ f]) (simp add: init_screen_def Let_def del: upt_rec_numeral)
qed

section \<open>The text on the screen\<close>

text \<open>The rows that are finished and the row of the cursor.\<close>

fun put_row :: "u8 \<Rightarrow> u8 list list \<times> u8 list \<Rightarrow> u8 list list \<times> u8 list" where
  "put_row c (rows, cur) =
     (if c = 10 then (rows @ [cur], [])
      else if length cur + 1 = SCREEN_WIDTH then (rows @ [cur @ [c]], [])
      else (rows, cur @ [c]))"

definition transcript :: "u8 list \<Rightarrow> u8 list list \<times> u8 list" where
  "transcript cs = fold put_row cs ([], [])"

text \<open>The character in column \<open>x\<close> of row \<open>i\<close>: blank beyond the end.\<close>

definition text_at :: "u8 list list \<Rightarrow> nat \<Rightarrow> nat \<Rightarrow> u8" where
  "text_at rows i x = (if i < length rows \<and> x < length (rows ! i) then rows ! i ! x else 32)"

definition shows_tail :: "frame \<Rightarrow> u8 list list \<times> u8 list \<Rightarrow> bool" where
  "shows_tail s t \<longleftrightarrow>
     (case t of (rows, cur) \<Rightarrow>
        cursor_y s = min (length rows) (SCREEN_HEIGHT - 1)
        \<and> (\<forall>y < SCREEN_HEIGHT. \<forall>x < SCREEN_WIDTH. cell_ch (cells s y x) = text_at (rows @ [cur]) (length rows - cursor_y s + y) x))"

lemma text_at_blank: "text_at (rs @ [[]]) i x = text_at rs i x"
  by (auto simp: text_at_def nth_append)

lemma next_row_shows:
  assumes "shows_tail s (rows, cur)"
  shows "shows_tail (next_row s) (rows @ [cur], [])" "cursor_x (next_row s) = 0"
proof -
  obtain f where f: "next_row s = (if 25 \<le> cursor_y s + 1
      then (all_dirty (s\<lparr>cells := f\<rparr>))\<lparr>cursor_x := 0, cursor_y := cursor_y s\<rparr>
      else s\<lparr>cursor_x := 0, cursor_y := cursor_y s + 1\<rparr>)"
    "\<forall>y < 25. \<forall>x < 80. cell_ch (f y x) = (if y < 24 then cell_ch (cells s (y + 1) x) else 32)" using next_row_form [of s] by auto
  show "cursor_x (next_row s) = 0" by (simp add: f(1))
  have e: "text_at (rows @ [cur] @ [[]]) i x = text_at (rows @ [cur]) i x" for i x using text_at_blank [of "rows @ [cur]"] by simp
  show "shows_tail (next_row s) (rows @ [cur], [])"
  proof (cases "length rows < 24")
    case True
    then show ?thesis using assms e by (simp add: shows_tail_def f(1))
  next
    case False
    then have c: "cursor_y s = 24" using assms by (simp add: shows_tail_def)
    have "cell_ch (f y x) = text_at (rows @ [cur] @ [[]]) (Suc (length rows) - 24 + y) x" if "y < 25" "x < 80" for y x
    proof (cases "y < 24")
      case True
      have i: "Suc (length rows) - 24 + y = length rows - 24 + (y + 1)" using False by simp
      have "cell_ch (cells s (y + 1) x) = text_at (rows @ [cur]) (length rows - 24 + (y + 1)) x"
        using assms c True that unfolding shows_tail_def prod.case by (elim conjE allE [of _ "y + 1"]) auto
      then show ?thesis using True f(2) that unfolding e i by simp
    next
      case y: False
      then have "y = 24" using that by simp
      then show ?thesis using f(2) that False by (simp add: text_at_def nth_append)
    qed
    then show ?thesis using False c by (simp add: shows_tail_def f(1) all_dirty_def)
  qed
qed

lemma put_shows:
  assumes "shows_tail s (rows, cur)" "length cur < SCREEN_WIDTH" "cells u = cells (put_cell (cursor_y s) (length cur) c a s)" "cursor_y u = cursor_y s"
  shows "shows_tail u (rows, cur @ [c])"
proof -
  have cy: "cursor_y s = min (length rows) 24" using assms(1) by (simp add: shows_tail_def)
  have "cell_ch (cells u y x) = text_at (rows @ [cur @ [c]]) (length rows - cursor_y s + y) x" if "y < 25" "x < 80" for y x
  proof (cases "y = cursor_y s")
    case True
    then have i: "length rows - cursor_y s + y = length rows" using cy by simp
    have "cell_ch (cells s y x) = (if x < length cur then cur ! x else 32)"
      using assms(1) that i by (simp add: shows_tail_def text_at_def)
    then show ?thesis unfolding i using True assms(3) by (auto simp: text_at_def put_cell_def nth_append)
  next
    case False
    then have "length rows - cursor_y s + y \<noteq> length rows" using cy by linarith
    then have "text_at (rows @ [cur @ [c]]) (length rows - cursor_y s + y) x = text_at (rows @ [cur]) (length rows - cursor_y s + y) x"
      by (auto simp: text_at_def nth_append)
    then show ?thesis using False assms(1,3) that by (simp add: shows_tail_def put_cell_def)
  qed
  then show ?thesis using cy assms(4) by (simp add: shows_tail_def)
qed

definition text_ok :: "frame \<Rightarrow> u8 list list \<times> u8 list \<Rightarrow> bool" where
  "text_ok s t \<longleftrightarrow> frame_ok s \<and> shows_tail s t \<and> cursor_x s = length (snd t)"

lemma advance_shows:
  assumes "text_ok s t"
  shows "text_ok (put_and_advance c a s) (put_row c t)"
proof -
  obtain rows cur where t: "t = (rows, cur)" by (cases t)
  have s: "shows_tail s (rows, cur)" "cursor_x s = length cur" "length cur < 80" using assms by (auto simp: text_ok_def t frame_ok_def)
  let ?m = "mark_dirty (length cur) (cursor_y s) (put_cell (cursor_y s) (length cur) c a s)"
  have m: "shows_tail (?m\<lparr>cursor_x := n\<rparr>) (rows, cur @ [c])" for n
    by (rule put_shows [OF s(1,3)]) (simp_all add: put_cell_def)
  have "cursor_x (put_cell (cursor_y s) (length cur) c a s) = length cur" "cursor_y (put_cell (cursor_y s) (length cur) c a s) = cursor_y s"
    using s(2) by (simp_all add: put_cell_def)
  then have "put_and_advance c a s = (if c = 10 then next_row s else
      let u = ?m\<lparr>cursor_x := length cur + 1\<rparr> in if 80 \<le> length cur + 1 then next_row u else u)"
    using s(2) by (simp add: put_and_advance_def Let_def)
  then have "shows_tail (put_and_advance c a s) (put_row c t) \<and> cursor_x (put_and_advance c a s) = length (snd (put_row c t))"
    using next_row_shows [OF s(1)] next_row_shows [OF m] m [of "Suc (length cur)"] s(3) by (auto simp: t Let_def)
  then show ?thesis using advance_ok assms by (simp add: text_ok_def)
qed

lemma text_ok_upd:
  "text_ok (s\<lparr>refresh_counter := n\<rparr>) t = text_ok s t"
  by (simp add: text_ok_def refresh_upd shows_tail_def split: prod.split)

lemma render_text_ok:
  assumes "text_ok s t"
  shows "text_ok (render_vga_screen s) t"
proof -
  have "frame_ok s" using assms by (simp add: text_ok_def)
  from render_ok(1) [OF this] obtain m where "render_vga_screen s = s\<lparr>vga_memory := m, dirty := False, stdout := stdout s @ picture s, refresh_counter := 0\<rparr>" by blast
  then show ?thesis using render_ok(2) [OF \<open>frame_ok s\<close>] assms by (simp add: text_ok_def shows_tail_def split: prod.split)
qed

lemma put_text_ok: "text_ok s t \<Longrightarrow> text_ok (put_char_with_attr c a s) (put_row c t)"
  using advance_shows [of s t c a] render_text_ok [of "(put_and_advance c a s)\<lparr>refresh_counter := n\<rparr>" for n]
  by (simp add: put_char_with_attr_def Let_def text_ok_upd)

section \<open>Properties\<close>

text \<open>C22: From a cleared screen on, whatever text is written, the cursor stays on the screen, the screen shows the last 25 rows of
  the text broken into rows of 80, blank beyond their ends, with the cursor behind the text, and outside the dirty
  rectangle the character memory agrees with the screen; so a final flush prints exactly the 25 rows of the screen.\<close>

theorem text_screen_refines:
  "let s = fold (\<lambda>(c, a). put_char_with_attr c a) cas (init_screen s0) in
   frame_ok s \<and> shows_tail s (transcript (List.map fst cas)) \<and> cursor_x s = length (snd (transcript (List.map fst cas)))
   \<and> stdout (flush_screen_final s) = stdout s @ picture s"
proof -
  obtain f where f: "init_screen s0 = all_dirty (s0\<lparr>cells := f, cursor_x := 0, cursor_y := 0\<rparr>)" "\<forall>y < 25. \<forall>x < 80. cell_ch (f y x) = 32"
    using init_screen_form by blast
  have "text_ok (init_screen s0) ([], [])"
    using f(2) all_dirty_ok [of "s0\<lparr>cells := f, cursor_x := 0, cursor_y := 0\<rparr>"] unfolding f(1)
    by (auto simp: text_ok_def shows_tail_def text_at_def all_dirty_def)
  moreover have "text_ok (fold (\<lambda>(c, a). put_char_with_attr c a) cas s) (fold put_row (List.map fst cas) t)" if "text_ok s t" for s t
    using that
  proof (induction cas arbitrary: s t)
    case (Cons x cas)
    then show ?case using put_text_ok [of s t "fst x" "snd x"] by (simp add: case_prod_unfold)
  qed simp
  ultimately have ok: "text_ok (fold (\<lambda>(c, a). put_char_with_attr c a) cas (init_screen s0)) (transcript (List.map fst cas))"
    by (simp add: transcript_def)
  let ?s = "fold (\<lambda>(c, a). put_char_with_attr c a) cas (init_screen s0)"
  have "frame_ok (all_dirty ?s)" using ok by (intro all_dirty_ok) (simp_all add: text_ok_def frame_ok_def)
  from render_ok(1) [OF this] have "stdout (flush_screen_final ?s) = stdout ?s @ picture ?s"
    by (auto simp: flush_screen_final_def all_dirty_def picture_def)
  then show ?thesis using ok by (simp add: text_ok_def Let_def)
qed

end
