(* ===== verification/Registers.thy ===== *)
theory Registers
  imports Exec
begin

text \<open>
  The bound of the register file. \<open>vm.c\<close> indexes \<open>cpu->regs\<close> with the 8-bit register numbers of the instruction word and
  does not compare them with \<open>REG_COUNT\<close>; the model ends there with \<open>Host_out_of_bounds\<close>. The lemmas show that an
  instruction whose register numbers are those of registers never gets there, so for such instructions the model is
  the code and the bound it adds has no effect.
\<close>

named_theorems regs_rules \<open>steps that stay inside the register file\<close>

definition no_overrun :: "vm_error + 'a \<Rightarrow> bool" where
  "no_overrun r \<longleftrightarrow> r \<noteq> Inl (Host_out_of_bounds ''regs'')"

definition names_registers :: "inst \<Rightarrow> bool" where
  "names_registers i \<longleftrightarrow> unat (i_rd i) < REG_COUNT \<and> unat (i_rs1 i) < REG_COUNT \<and> unat (i_rs2 i) < REG_COUNT"

section \<open>Composition\<close>

lemma no_overrun_steps [regs_rules]:
  "no_overrun (Inr x)" "no_overrun (Inl (Panic_opcode op))" "no_overrun (Inl (Host_out_of_bounds ''float to int32''))"
  "no_overrun (Inl Panic_no_ip)"
  by (simp_all add: no_overrun_def)

lemma no_overrun_bind [regs_rules]: "no_overrun r \<Longrightarrow> (\<And>x. no_overrun (f x)) \<Longrightarrow> no_overrun (bind_res r f)"
  by (cases r) (simp_all add: no_overrun_def)

lemma no_overrun_if [regs_rules]: "no_overrun r \<Longrightarrow> no_overrun s \<Longrightarrow> no_overrun (if b then r else s)"
  by simp

lemma no_overrun_prod [regs_rules]: "(\<And>a b. no_overrun (f a b)) \<Longrightarrow> no_overrun (case p of (a, b) \<Rightarrow> f a b)"
  by (cases p) simp

lemma no_overrun_prod2 [regs_rules]: "(\<And>a b. no_overrun (f a b v)) \<Longrightarrow> no_overrun ((case p of (a, b) \<Rightarrow> f a b) v)"
  by (cases p) simp

lemma no_overrun_option [regs_rules]:
  "no_overrun r \<Longrightarrow> (\<And>a. no_overrun (f a)) \<Longrightarrow> no_overrun (case p of None \<Rightarrow> r | Some a \<Rightarrow> f a)"
  by (cases p) simp_all

lemma no_overrun_let [regs_rules]: "no_overrun (f a) \<Longrightarrow> no_overrun (let x = a in f x)"
  by simp

section \<open>Memory, stacks and interrupts\<close>

lemma memory_regs [regs_rules]:
  "no_overrun (vm_read8 v a)" "no_overrun (vm_write8 v a x)" "no_overrun (vm_read32 h v a)" "no_overrun (vm_write32 v a y)"
  "no_overrun (vm_write64 v a z)" "no_overrun (atomic32_ptr_or_panic v a nm)" "no_overrun (ensure_atomic_aligned_or_panic v a nm)"
  by (auto simp: no_overrun_def vm_read8_def vm_write8_def vm_read32_def vm_mmio_read32_def vm_write32_def vm_write64_def
      atomic32_ptr_or_panic_def ensure_atomic_aligned_or_panic_def Let_def split: option.split prod.split)

lemma wide_regs [regs_rules]:
  "no_overrun (vm_read64 h v a)" "no_overrun (vm_atomic_load32_acquire v a)" "no_overrun (vm_atomic_store32_release v a y)"
  "no_overrun (vm_atomic_exchange32_seqcst v a y)" "no_overrun (vm_atomic_fetch_add32_seqcst v a y)"
  "no_overrun (vm_atomic_compare_exchange32_seqcst v a y z)"
  unfolding vm_read64_def vm_atomic_load32_acquire_def vm_atomic_store32_release_def vm_atomic_exchange32_seqcst_def
    vm_atomic_fetch_add32_seqcst_def vm_atomic_compare_exchange32_seqcst_def
  by (intro regs_rules)+

lemma stack_errors [regs_rules]: "no_overrun (Inl (Panic_stack nm))"
  by (simp add: no_overrun_def)

lemma stack_regs [regs_rules]:
  "no_overrun (data_push c y v)" "no_overrun (data_pop h c v)" "no_overrun (call_push c z v)" "no_overrun (call_pop h c v)"
  "no_overrun (isr_push c z v)" "no_overrun (isr_pop h c v)" "no_overrun (isr_push_u32 c y v)" "no_overrun (isr_pop_u32 h c v)"
  unfolding isr_push_u32_def isr_pop_u32_def data_push_def data_pop_def call_push_def call_pop_def isr_push_def isr_pop_def
  by (intro regs_rules)+

lemma saved_regs [regs_rules]: "no_overrun (isr_push_regs c is v)" "no_overrun (isr_pop_regs h c is v)"
  by (induction "is" arbitrary: v) (auto intro!: regs_rules)

lemma interrupt_regs [regs_rules]: "no_overrun (vm_enter_interrupt h c n v)" "no_overrun (vm_iret h c v)"
  unfolding vm_enter_interrupt_def vm_iret_def by (intro regs_rules)+

lemma loop_regs [regs_rules]: "no_overrun (memset_loop n a x v)" "no_overrun (memcpy_loop n d a v)"
  by (induction n arbitrary: a d v) (auto intro!: regs_rules)

section \<open>Instructions\<close>

lemma register_access:
  "unat i < 32 \<Longrightarrow> no_overrun (rd_reg c i v)" "unat i < 32 \<Longrightarrow> no_overrun (wr_reg c i x v)"
  by (simp_all add: rd_reg_def wr_reg_def no_overrun_def)

lemmas alu_defs =
  op_add_def op_sub_def op_mul_def op_and_def op_or_def op_xor_def op_shl_def op_shr_def op_sar_def
  op_rol_def op_ror_def op_not_def op_div_def op_mod_def op_inc_def op_cmp_def op_cmpi_def op_mov_def
  op_movi_def op_addi_def op_subi_def op_andi_def op_ori_def op_xori_def op_shli_def op_shri_def
  op_roli_def op_rori_def alu_rr_def alu_ri_def

lemmas jump_defs =
  op_jmp_def op_rjmp_def op_jz_def op_rjz_def op_jnz_def op_rjnz_def op_jg_def op_jge_def op_jl_def
  op_jle_def op_jc_def op_jnc_def jump_if_def

lemma alu_regs:
  assumes "names_registers i"
  shows "no_overrun (op_add c i v)" "no_overrun (op_sub c i v)" "no_overrun (op_mul c i v)" "no_overrun (op_and c i v)"
    "no_overrun (op_or c i v)" "no_overrun (op_xor c i v)" "no_overrun (op_shl c i v)" "no_overrun (op_shr c i v)"
    "no_overrun (op_sar c i v)" "no_overrun (op_rol c i v)" "no_overrun (op_ror c i v)" "no_overrun (op_not c i v)"
    "no_overrun (op_div c i v)" "no_overrun (op_mod c i v)" "no_overrun (op_inc c i v)" "no_overrun (op_cmp c i v)"
    "no_overrun (op_cmpi c i v)" "no_overrun (op_mov c i v)" "no_overrun (op_movi c i v)" "no_overrun (op_addi c i v)"
    "no_overrun (op_subi c i v)" "no_overrun (op_andi c i v)" "no_overrun (op_ori c i v)" "no_overrun (op_xori c i v)"
    "no_overrun (op_shli c i v)" "no_overrun (op_shri c i v)" "no_overrun (op_roli c i v)" "no_overrun (op_rori c i v)"
  using assms unfolding alu_defs names_registers_def by (intro regs_rules register_access; simp)+

lemma jump_regs:
  assumes "names_registers i"
  shows "no_overrun (op_jmp c i v)" "no_overrun (op_rjmp c i v)" "no_overrun (op_jz c i v)" "no_overrun (op_rjz c i v)"
    "no_overrun (op_jnz c i v)" "no_overrun (op_rjnz c i v)" "no_overrun (op_jg c i v)" "no_overrun (op_jge c i v)"
    "no_overrun (op_jl c i v)" "no_overrun (op_jle c i v)" "no_overrun (op_jc c i v)" "no_overrun (op_jnc c i v)"
  using assms unfolding jump_defs names_registers_def by (intro regs_rules register_access; simp)+

lemma call_regs:
  assumes "names_registers i"
  shows "no_overrun (op_push c i v)" "no_overrun (op_pop h c i v)" "no_overrun (op_call c i v)" "no_overrun (op_rcall c i v)"
    "no_overrun (op_callr c i v)" "no_overrun (op_ret h c v)" "no_overrun (op_halt v)" "no_overrun (op_iret h c v)"
  using assms unfolding op_push_def op_pop_def op_call_def op_rcall_def op_callr_def op_ret_def op_halt_def op_iret_def names_registers_def
  by (intro regs_rules register_access; simp)+

lemma port_errors [regs_rules]: "no_overrun (Inl (Panic_in a))" "no_overrun (Inl (Panic_out a))"
  by (simp_all add: no_overrun_def)

lemma access_regs:
  assumes "names_registers i"
  shows "no_overrun (op_load c i v)" "no_overrun (op_load32 h c i v)" "no_overrun (op_loadx32 h c i v)"
    "no_overrun (op_store c i v)" "no_overrun (op_store32 c i v)" "no_overrun (op_storex32 c i v)"
    "no_overrun (op_memset c i v)" "no_overrun (op_memcpy c i v)" "no_overrun (op_in c i v)" "no_overrun (op_out c i v)"
    "no_overrun (op_int h c i v)"
  using assms unfolding op_load_def op_load32_def op_loadx32_def op_store_def op_store32_def op_storex32_def op_memset_def op_memcpy_def
    op_in_def op_out_def op_int_def names_registers_def
  by (intro regs_rules register_access; simp)+

lemma float_regs:
  assumes "names_registers i"
  shows "no_overrun (op_fadd h c i v)" "no_overrun (op_fsub h c i v)" "no_overrun (op_fmul h c i v)"
    "no_overrun (op_fdiv h c i v)" "no_overrun (op_fneg c i v)" "no_overrun (op_fabs c i v)" "no_overrun (op_fsqrt h c i v)"
    "no_overrun (op_itof c i v)" "no_overrun (op_ftoi c i v)" "no_overrun (op_fload32 h c i v)"
    "no_overrun (op_fstore32 c i v)" "no_overrun (op_fcmp c i v)"
  using assms unfolding op_fadd_def op_fsub_def op_fmul_def op_fdiv_def op_fneg_def op_fabs_def op_fsqrt_def op_itof_def op_ftoi_def
    op_fload32_def op_fstore32_def op_fcmp_def op_f2_def names_registers_def
  by (intro regs_rules register_access; simp)+

lemma core_regs:
  assumes "names_registers i"
  shows "no_overrun (op_cas c i v)" "no_overrun (op_xadd c i v)" "no_overrun (op_xchg c i v)" "no_overrun (op_ldar c i v)"
    "no_overrun (op_stlr c i v)" "no_overrun (op_startap c i v)" "no_overrun (op_ipi c i v)" "no_overrun (op_cpuid c i v)"
  using assms unfolding op_cas_def op_xadd_def op_xchg_def op_ldar_def op_stlr_def op_startap_def op_ipi_def op_cpuid_def names_registers_def
  by (intro regs_rules register_access; simp)+

lemma dispatch_regs: "names_registers i \<Longrightarrow> no_overrun (dispatch h c i v)"
  unfolding dispatch_def Let_def
  by (intro no_overrun_if no_overrun_steps alu_regs jump_regs call_regs access_regs float_regs core_regs)

lemma instruction_regs:
  assumes "names_registers (decode (load64 (memory v) (ip (cpus v c))))"
  shows "no_overrun (vm_instruction_case h c v)"
  using dispatch_regs [OF assms] by (simp add: vm_instruction_case_def fetch64_def Let_def no_overrun_steps)

end
