(* ===== verification/Machine.thy ===== *)
theory Machine
  imports Registers Display
begin

text \<open>
  The machine as a transition system. \<open>wf\<close> is the invariant of the running machine:
  stack pointers inside their regions, core numbers, a coherent device cache, the
  serial and disk protocols. \<open>kept c v w\<close> bounds what core \<open>c\<close> may change: RAM inside
  its size, its own registers, and nothing of another core but the entry point
  that \<open>STARTAP\<close> sets. \<open>step_ok\<close> combines both, and the rules in \<open>vcg\<close> carry it
  through every operation, every instruction and every turn of every thread.
\<close>

section \<open>The invariant and the frame\<close>

definition core_wf :: "nat \<Rightarrow> vcpu \<Rightarrow> bool" where
  "core_wf k r \<longleftrightarrow>
     0 \<le> csp r \<and> csp r \<le> 256 \<and> 0 \<le> dsp r \<and> dsp r \<le> 256 \<and> 0 \<le> isp r \<and> isp r \<le> 256
     \<and> core_id r = int k"

definition wf :: "vm \<Rightarrow> bool" where
  "wf v \<longleftrightarrow> (\<forall>k < smp_cores v. core_wf k (cpus v k)) \<and> bus_ok v \<and> serial_ok v \<and> disk_inv v"

definition same_core :: "vcpu \<Rightarrow> vcpu \<Rightarrow> bool" where
  "same_core r s \<longleftrightarrow>
     call_stack_base s = call_stack_base r \<and> data_stack_base s = data_stack_base r
     \<and> isr_stack_base s = isr_stack_base r \<and> core_id s = core_id r \<and> is_bsp s = is_bsp r
     \<and> execution_times s = execution_times r"

definition kept :: "nat \<Rightarrow> vm \<Rightarrow> vm \<Rightarrow> bool" where
  "kept c v w \<longleftrightarrow>
     memory_size w = memory_size v \<and> smp_cores w = smp_cores v \<and> mmio_devices w = mmio_devices v
     \<and> (\<forall>b. memory_size v \<le> unat b \<longrightarrow> memory w b = memory v b)
     \<and> same_core (cpus v c) (cpus w c)
     \<and> (\<forall>k. k \<noteq> c \<longrightarrow> (\<exists>a b. cpus w k = (cpus v k)\<lparr>ip := a, last_ip := b\<rparr>))"

definition step_ok :: "nat \<Rightarrow> vm \<Rightarrow> vm \<Rightarrow> bool" where
  "step_ok c v w \<longleftrightarrow> kept c v w \<and> (wf v \<and> c < smp_cores v \<longrightarrow> wf w)"

lemma kept_refl: "kept c v v"
proof -
  have "\<exists>a b. r = r\<lparr>ip := a, last_ip := b\<rparr>" for r :: vcpu
    by (rule exI [of _ "ip r"], rule exI [of _ "last_ip r"]) simp
  then show ?thesis by (auto simp: kept_def same_core_def)
qed

lemma kept_trans:
  assumes "kept c u v" "kept c v w"
  shows "kept c u w"
proof -
  have "\<exists>a b. cpus w k = (cpus u k)\<lparr>ip := a, last_ip := b\<rparr>" if "k \<noteq> c" for k
  proof -
    from assms(1) that obtain a b where "cpus v k = (cpus u k)\<lparr>ip := a, last_ip := b\<rparr>"
      unfolding kept_def by blast
    moreover from assms(2) that obtain a' b' where "cpus w k = (cpus v k)\<lparr>ip := a', last_ip := b'\<rparr>"
      unfolding kept_def by blast
    ultimately have "cpus w k = (cpus u k)\<lparr>ip := a', last_ip := b'\<rparr>" by simp
    then show ?thesis by blast
  qed
  then show ?thesis using assms unfolding kept_def same_core_def by simp
qed

lemma step_ok_refl [intro]: "step_ok c v v"
  by (simp add: step_ok_def kept_refl)

lemma step_ok_trans:
  assumes "step_ok c u v" "step_ok c v w"
  shows "step_ok c u w"
proof -
  have "kept c u w" using assms kept_trans [of c u v w] by (simp add: step_ok_def)
  moreover have "smp_cores v = smp_cores u" using assms by (simp add: step_ok_def kept_def)
  ultimately show ?thesis using assms by (simp add: step_ok_def)
qed

lemma holds_step_trans: "step_ok c u v \<Longrightarrow> holds (step_ok c v) r \<Longrightarrow> holds (step_ok c u) r"
  by (cases r) (auto intro: step_ok_trans)

lemma holds_Let [vcg]: "holds P (f x) \<Longrightarrow> holds P (Let x f)"
  by simp

lemma holds_prod [vcg]: "holds P (f x y) \<Longrightarrow> holds P (case (x, y) of (a, b) \<Rightarrow> f a b)"
  by simp

lemma holds_prod3 [vcg]: "(\<And>a b. holds P (f a b w)) \<Longrightarrow> holds P ((case p of (a, b) \<Rightarrow> f a b) w)"
  by (cases p) simp

section \<open>Basic state changes\<close>

text \<open>A change of the running core that keeps its identity and its stack pointers in range.\<close>

lemma step_upd_cpu:
  assumes "same_core (cpus v c) (f (cpus v c))" "core_wf c (cpus v c) \<Longrightarrow> core_wf c (f (cpus v c))"
  shows "step_ok c v (upd_cpu c f v)"
proof -
  have "\<exists>a b. r = r\<lparr>ip := a, last_ip := b\<rparr>" for r :: vcpu
    by (rule exI [of _ "ip r"], rule exI [of _ "last_ip r"]) simp
  then have "kept c v (upd_cpu c f v)" using assms(1) by (simp add: kept_def)
  moreover have "wf (upd_cpu c f v)" if "wf v" "c < smp_cores v"
  proof -
    have "core_wf k (cpus (upd_cpu c f v) k)" if "k < smp_cores v" for k
      using that \<open>wf v\<close> assms(2) by (cases "k = c") (simp_all add: wf_def)
    then show ?thesis using \<open>wf v\<close> by (simp add: wf_def serial_ok_def disk_inv_def)
  qed
  ultimately show ?thesis by (simp add: step_ok_def)
qed

lemma step_plain_cpu:
  assumes "\<And>r. same_core r (f r)" "\<And>r. csp (f r) = csp r" "\<And>r. dsp (f r) = dsp r" "\<And>r. isp (f r) = isp r"
  shows "step_ok c v (upd_cpu c f v)"
  using assms by (intro step_upd_cpu) (simp_all add: core_wf_def same_core_def)

lemma step_wr_reg: "holds (step_ok c v) (wr_reg c i x v)"
  unfolding wr_reg_def by (intro vcg step_plain_cpu) (simp_all add: same_core_def)

lemma step_upd_flags: "step_ok c v (upd_flags c f v)"
  unfolding upd_flags_def by (rule step_plain_cpu) (simp_all add: same_core_def)

lemma step_set_ip: "step_ok c v (set_ip c a v)"
  unfolding set_ip_def by (rule step_plain_cpu) (simp_all add: same_core_def)

lemma step_ram_frame:
  assumes "ram_frame v w"
  shows "step_ok c v w"
proof -
  have "\<exists>a b. r = r\<lparr>ip := a, last_ip := b\<rparr>" for r :: vcpu
    by (rule exI [of _ "ip r"], rule exI [of _ "last_ip r"]) simp
  then have "kept c v w" using assms by (simp add: kept_def ram_frame_def bus_frame_def same_core_def)
  moreover have "wf v \<Longrightarrow> wf w"
    using ram_frameD [OF assms] by (simp add: wf_def serial_ok_def disk_inv_def)
  ultimately show ?thesis by (simp add: step_ok_def)
qed

text \<open>A change outside RAM, cores and devices: only the protocols have to be re-established.\<close>

lemma step_other:
  assumes "memory w = memory v" "memory_size w = memory_size v" "smp_cores w = smp_cores v"
    "mmio_devices w = mmio_devices v" "cpus w = cpus v" "cache_frame v w"
    "serial_ok v \<Longrightarrow> serial_ok w" "disk_inv v \<Longrightarrow> disk_inv w"
  shows "step_ok c v w"
proof -
  have "\<exists>a b. r = r\<lparr>ip := a, last_ip := b\<rparr>" for r :: vcpu
    by (rule exI [of _ "ip r"], rule exI [of _ "last_ip r"]) simp
  then have "kept c v w" using assms by (simp add: kept_def same_core_def)
  moreover have "wf v \<Longrightarrow> wf w" using assms bus_ok_cong [OF assms(4,6)] by (simp add: wf_def)
  ultimately show ?thesis by (simp add: step_ok_def)
qed

lemma step_trigger: "step_ok c v (trigger_interrupt_target k n v)"
  by (rule step_other) (simp_all add: cache_frame_def serial_ok_def disk_inv_def)

lemma step_trigger_bsp: "step_ok c v (trigger_interrupt n v)"
  unfolding trigger_interrupt_def by (rule step_trigger)

lemma step_disk_tick: "step_ok c v (disk_tick v)"
  using disk_step_inv [of v undefined D_tick]
  by (intro step_other) (simp_all add: disk_tick_def cache_frame_def serial_ok_def)

lemma step_accept_io: "step_ok c v (accept_io p x v)"
proof (rule step_other)
  show "disk_inv v \<Longrightarrow> disk_inv (accept_io p x v)"
    by (auto simp: accept_io_def Let_def disk_inv_def disk_cmd_def)
qed (simp_all add: accept_io_serial_ok, simp_all add: accept_io_def Let_def disk_cmd_def cache_frame_def)

lemma step_serial_rx_read: "step_ok c v (snd (serial_rx_read v))"
proof (rule step_other)
  show "serial_ok v \<Longrightarrow> serial_ok (snd (serial_rx_read v))"
    using unat_next [of "serial_rx_tail v"] by (auto simp: serial_ok_def serial_rx_read_fields)
qed (simp_all add: serial_rx_read_def Let_def cache_frame_def disk_inv_def)

lemma step_enqueue: "step_ok c v (snd (vm_serial_rx_enqueue x v))"
proof (rule step_other)
  assume ok: "serial_ok v"
  then have "length (serial_content v) < 255 \<or> length (serial_content v) = 255"
    using serial.length_le [OF ok] by linarith
  then show "serial_ok (snd (vm_serial_rx_enqueue x v))"
    using serial.enq_room [OF ok] serial.enq_full [OF ok] ok by auto
qed (simp_all add: vm_serial_rx_enqueue_def Let_def cache_frame_def disk_inv_def)

section \<open>Memory accesses\<close>

lemma ram_read32: "holds (\<lambda>(x, w). ram_frame v w) (vm_read32 h v a)"
proof (cases "find_mmio v a")
  case (Pair d v')
  have r: "ram_frame v v'" by (rule find_mmio_ram [OF Pair])
  show ?thesis
  proof (cases d)
    case None
    then show ?thesis using Pair r by (simp add: vm_read32_def)
  next
    case (Some dev)
    obtain e v'' where f: "find_mmio v' a = (e, v'')" by (cases "find_mmio v' a")
    have "ram_frame v v''" using r find_mmio_ram [OF f] by (rule ram_frame_trans)
    then have "mmio_read_fn g h v'' a = (x, w) \<Longrightarrow> ram_frame v w" for g x w
      using mmio_read_fn_ram by (blast intro: ram_frame_trans)
    then show ?thesis
      using Pair Some f by (auto simp: vm_read32_def vm_mmio_read32_def split: option.splits)
  qed
qed

lemma ram_read64: "holds (\<lambda>(x, w). ram_frame v w) (vm_read64 h v a)"
proof -
  have "holds (\<lambda>(y, w). ram_frame v w)
          (bind_res (vm_read32 h w (a + 4)) (\<lambda>(hi, w). Inr (ucast lo OR push_bit 32 (ucast hi), w)))"
    if "ram_frame v w" for w and lo :: u32
    using ram_read32 [of w h "a + 4"] that
    by (cases "vm_read32 h w (a + 4)") (auto intro: ram_frame_trans)
  then show ?thesis
    unfolding vm_read64_def using ram_read32 [of v h a] by (cases "vm_read32 h v a") auto
qed

lemma step_read32: "holds (\<lambda>(x, w). step_ok c v w) (vm_read32 h v a)"
  by (rule holds_mono [OF ram_read32]) (auto intro: step_ram_frame)

lemma step_read64: "holds (\<lambda>(x, w). step_ok c v w) (vm_read64 h v a)"
  by (rule holds_mono [OF ram_read64]) (auto intro: step_ram_frame)

lemma step_write32: "holds (step_ok c v) (vm_write32 v a x)"
proof (cases "find_mmio v a")
  case (Pair d v')
  have r: "ram_frame v v'" by (rule find_mmio_ram [OF Pair])
  have "ram_frame v (mmio_write_fn g v' a x)" for g
    using r mmio_write_fn_ram by (rule ram_frame_trans)
  moreover have "in_ram v' a 4 \<Longrightarrow> ram_frame v (v'\<lparr>memory := store32 (memory v') a x\<rparr>)"
    using r ram_frame_store32 by (blast intro: ram_frame_trans)
  ultimately show ?thesis
    using Pair step_ram_frame by (auto simp: vm_write32_def split: option.splits)
qed

lemma step_write64: "holds (step_ok c v) (vm_write64 v a x)"
  using ram_frame_store64 [of v a x] by (auto simp: vm_write64_def intro: step_ram_frame)

lemma ram_frame_fb: "ram_frame v (v\<lparr>fb := f\<rparr>)"
  using bus_ok_cong [of "v\<lparr>fb := f\<rparr>" v] by (simp add: ram_frame_def bus_frame_def cache_frame_def)

lemma step_write8: "holds (step_ok c v) (vm_write8 v a x)"
proof -
  have "in_ram v a 1 \<Longrightarrow> ram_frame v (v\<lparr>memory := (memory v)(a := x)\<rparr>)"
    by (rule ram_frame_memory) (auto simp: in_ram_def)
  then show ?thesis
    using ram_frame_fb by (auto simp: vm_write8_def intro: step_ram_frame split: option.splits)
qed

lemma step_atomic_ptr: "holds (\<lambda>w. step_ok c v w \<and> in_ram w a 4) (atomic32_ptr_or_panic v a s)"
proof (cases "find_mmio v a")
  case (Pair d v')
  have r: "ram_frame v v'" by (rule find_mmio_ram [OF Pair])
  then show ?thesis
    using Pair step_ram_frame [OF r] ram_frameD(1) [OF r]
    by (auto simp: atomic32_ptr_or_panic_def in_ram_def)
qed

lemma step_atomic_store:
  "step_ok c v w \<Longrightarrow> in_ram w a 4 \<Longrightarrow> step_ok c v (w\<lparr>memory := store32 (memory w) a x\<rparr>)"
  by (rule step_ok_trans [OF _ step_ram_frame [OF ram_frame_store32]])

lemma step_atomics:
  "holds (\<lambda>(x, w). step_ok c v w) (vm_atomic_load32_acquire v a)"
  "holds (step_ok c v) (vm_atomic_store32_release v a y)"
  "holds (\<lambda>(x, w). step_ok c v w) (vm_atomic_exchange32_seqcst v a y)"
  "holds (\<lambda>(x, w). step_ok c v w) (vm_atomic_fetch_add32_seqcst v a y)"
  "holds (\<lambda>(x, w). step_ok c v w) (vm_atomic_compare_exchange32_seqcst v a y z)"
  unfolding vm_atomic_load32_acquire_def vm_atomic_store32_release_def vm_atomic_exchange32_seqcst_def
    vm_atomic_fetch_add32_seqcst_def vm_atomic_compare_exchange32_seqcst_def
  by (rule holds_bind, rule holds_mono [OF step_atomic_ptr [of c]], simp add: Let_def step_atomic_store)+

section \<open>Rules for operations in sequence\<close>

lemma bind_step:
  assumes "holds (step_ok c v) r" "step_ok c u v"
    "\<And>w. step_ok c u w \<Longrightarrow> holds (step_ok c u) (k w)"
  shows "holds (step_ok c u) (bind_res r k)"
  using assms by (cases r) (auto intro: step_ok_trans)

lemma bind_holds:
  "holds (step_ok c u) r \<Longrightarrow> (\<And>w. step_ok c u w \<Longrightarrow> holds (step_ok c u) (k w))
   \<Longrightarrow> holds (step_ok c u) (bind_res r k)"
  by (cases r) auto

lemma bind_step2:
  assumes "holds (\<lambda>(x, w). step_ok c v w) r" "step_ok c u v"
    "\<And>x w. step_ok c u w \<Longrightarrow> holds (step_ok c u) (k (x, w))"
  shows "holds (step_ok c u) (bind_res r k)"
  using assms by (cases r) (auto intro: step_ok_trans)

lemma bind_rd_reg [vcg]: "(\<And>x. holds P (k x)) \<Longrightarrow> holds P (bind_res (rd_reg c i v) k)"
  by (simp add: rd_reg_def)

lemma bind_read8 [vcg]: "(\<And>x. holds P (k x)) \<Longrightarrow> holds P (bind_res (vm_read8 v a) k)"
  by (cases "vm_read8 v a") simp_all

lemma bind_aligned [vcg]: "holds P (k v) \<Longrightarrow> holds P (bind_res (ensure_atomic_aligned_or_panic v a s) k)"
  by (simp add: ensure_atomic_aligned_or_panic_def)

lemmas bind_steps [vcg] =
  bind_step [OF step_wr_reg] bind_step [OF step_write8] bind_step [OF step_write32]
  bind_step [OF step_write64] bind_step2 [OF step_read32] bind_step [OF step_atomics(2)]
  bind_step2 [OF step_atomics(1)] bind_step2 [OF step_atomics(3)] bind_step2 [OF step_atomics(4)]
  bind_step2 [OF step_atomics(5)]

lemmas end_steps [vcg] =
  holds_step_trans [OF _ step_wr_reg] holds_step_trans [OF _ step_write8]
  holds_step_trans [OF _ step_write32] holds_step_trans [OF _ step_write64]
  holds_step_trans [OF _ step_atomics(2)]

lemmas state_steps [vcg] =
  step_ok_trans [OF _ step_upd_flags] step_ok_trans [OF _ step_set_ip]
  step_ok_trans [OF _ step_trigger] step_ok_trans [OF _ step_trigger_bsp]
  step_ok_trans [OF _ step_accept_io] step_ok_trans [OF _ step_disk_tick]

lemma step_flag_updates [vcg]:
  assumes "step_ok c u v"
  shows "step_ok c u (update_zf_sf c r v)" "step_ok c u (update_add_flags c a b r v)"
    "step_ok c u (update_sub_flags c a b r v)" "step_ok c u (update_logic_flags c r v)"
    "step_ok c u (set_cas_flags c s v)" "step_ok c u (update_fcmp_flags c f g v)"
  using assms
  by (auto simp: update_zf_sf_def update_add_flags_def update_sub_flags_def update_logic_flags_def
      clear_cf_of_def set_cas_flags_def update_fcmp_flags_def clear_all_flags_def Let_def
      intro!: state_steps)

lemma step_if [vcg]: "(b \<Longrightarrow> step_ok c u v) \<Longrightarrow> (\<not> b \<Longrightarrow> step_ok c u w) \<Longrightarrow> step_ok c u (if b then v else w)"
  by simp

section \<open>Stacks and interrupts\<close>

lemma step_pushes:
  "holds (step_ok c v) (data_push c x v)" "holds (step_ok c v) (call_push c y v)"
  "holds (step_ok c v) (isr_push c y v)"
  unfolding data_push_def call_push_def isr_push_def
  by (intro vcg step_upd_cpu; simp add: same_core_def core_wf_def)+

lemma pop_step_ok:
  assumes "holds (\<lambda>(x, w). ram_frame v w) r"
    "same_core (cpus v c) (f (cpus v c))" "core_wf c (cpus v c) \<Longrightarrow> core_wf c (f (cpus v c))"
  shows "holds (\<lambda>(x, w). step_ok c v w) (bind_res r (\<lambda>(x, w). Inr (x, upd_cpu c f w)))"
proof (cases r)
  case (Inr xw)
  obtain x w where "xw = (x, w)" by (cases xw)
  with assms(1) Inr have fr: "ram_frame v w" by simp
  then have "step_ok c w (upd_cpu c f w)" using assms(2,3) ram_frameD(2) by (intro step_upd_cpu) simp_all
  then show ?thesis using Inr \<open>xw = (x, w)\<close> step_ok_trans [OF step_ram_frame [OF fr]] by simp
qed simp

lemma step_pops:
  "holds (\<lambda>(x, w). step_ok c v w) (data_pop h c v)"
  "holds (\<lambda>(x, w). step_ok c v w) (call_pop h c v)"
  "holds (\<lambda>(x, w). step_ok c v w) (isr_pop h c v)"
  unfolding data_pop_def call_pop_def isr_pop_def
  by (rule holds_if, simp, rule pop_step_ok, rule ram_read32 ram_read64; simp add: same_core_def core_wf_def)+

lemmas bind_stacks [vcg] =
  bind_step [OF step_pushes(1)] bind_step [OF step_pushes(2)] bind_step [OF step_pushes(3)]
  bind_step2 [OF step_pops(1)] bind_step2 [OF step_pops(2)] bind_step2 [OF step_pops(3)]
  bind_step2 [OF step_read64] holds_step_trans [OF _ step_pushes(1)]

lemma step_push_regs: "step_ok c u v \<Longrightarrow> holds (step_ok c u) (isr_push_regs c is v)"
proof (induction "is" arbitrary: v)
  case Nil
  then show ?case by simp
next
  case (Cons i "is")
  show ?case unfolding isr_push_regs.simps isr_push_u32_def
    by (rule bind_step [OF step_pushes(3) Cons.prems]) (rule Cons.IH)
qed

lemma step_pop_regs: "step_ok c u v \<Longrightarrow> holds (step_ok c u) (isr_pop_regs h c is v)"
proof (induction "is" arbitrary: v)
  case Nil
  then show ?case by simp
next
  case (Cons i "is")
  have upd: "step_ok c u (upd_cpu c (\<lambda>r. r\<lparr>regs := (regs r)(i := x)\<rparr>) w)" if "step_ok c u w" for x w
    by (rule step_ok_trans [OF that step_plain_cpu]) (simp_all add: same_core_def)
  show ?case unfolding isr_pop_regs.simps isr_pop_u32_def bind_res_assoc
    by (rule bind_step2 [OF step_pops(3) Cons.prems]) (simp add: Cons.IH upd)
qed

lemma step_enter [vcg]:
  assumes "step_ok c u v"
  shows "holds (step_ok c u) (vm_enter_interrupt h c n v)"
proof -
  have upd: "step_ok c u (upd_cpu c (\<lambda>r. r\<lparr>regs := (regs r)(31 := n), ip := a, in_interrupt := True\<rparr>) w)"
    if "step_ok c u w" for a w
    by (rule step_ok_trans [OF that step_plain_cpu]) (simp_all add: same_core_def)
  show ?thesis
    unfolding vm_enter_interrupt_def by (intro vcg bind_holds [OF step_push_regs] upd assms) assumption+
qed

lemma step_iret [vcg]:
  assumes "step_ok c u v"
  shows "holds (step_ok c u) (vm_iret h c v)"
proof -
  have fl: "step_ok c u (upd_cpu c (\<lambda>r. r\<lparr>flags := a\<rparr>) w)" if "step_ok c u w" for a w
    by (rule step_ok_trans [OF that step_plain_cpu]) (simp_all add: same_core_def)
  have upd: "step_ok c u (upd_cpu c (\<lambda>r. r\<lparr>ip := a, in_interrupt := False\<rparr>) w)"
    if "step_ok c u w" for a w
    by (rule step_ok_trans [OF that step_plain_cpu]) (simp_all add: same_core_def)
  show ?thesis
    unfolding vm_iret_def by (intro vcg bind_holds [OF step_pop_regs] fl upd assms) assumption+
qed

lemma step_bitmap: "step_ok c v (v\<lparr>interrupt_bitmap := b\<rparr>)"
  by (rule step_other) (simp_all add: cache_frame_def serial_ok_def disk_inv_def)

lemma step_irq_words: "step_ok c u v \<Longrightarrow> holds (step_ok c u) (handle_irq_words h c b ws v)"
proof (induction ws)
  case (Cons w ws)
  then show ?case
    by (auto simp: Let_def intro!: step_enter step_ok_trans [OF _ step_bitmap])
qed simp

lemma step_handle [vcg]: "step_ok c u v \<Longrightarrow> holds (step_ok c u) (vm_handle_interrupts h c v)"
  unfolding vm_handle_interrupts_def by (auto simp: Let_def intro: step_irq_words)

section \<open>Every instruction\<close>

lemma step_memset: "step_ok c u v \<Longrightarrow> holds (step_ok c u) (memset_loop n a x v)"
  by (induction n arbitrary: a v) (auto intro: bind_step [OF step_write8])

lemma step_memcpy: "step_ok c u v \<Longrightarrow> holds (step_ok c u) (memcpy_loop n d s v)"
  by (induction n arbitrary: d s v) (auto intro!: bind_read8 intro: bind_step [OF step_write8])

lemma step_alu [vcg]:
  assumes "step_ok c u v"
  shows "holds (step_ok c u) (op_add c i v)" "holds (step_ok c u) (op_sub c i v)"
    "holds (step_ok c u) (op_mul c i v)" "holds (step_ok c u) (op_and c i v)"
    "holds (step_ok c u) (op_or c i v)" "holds (step_ok c u) (op_xor c i v)"
    "holds (step_ok c u) (op_shl c i v)" "holds (step_ok c u) (op_shr c i v)"
    "holds (step_ok c u) (op_sar c i v)" "holds (step_ok c u) (op_rol c i v)"
    "holds (step_ok c u) (op_ror c i v)" "holds (step_ok c u) (op_not c i v)"
    "holds (step_ok c u) (op_div c i v)" "holds (step_ok c u) (op_mod c i v)"
    "holds (step_ok c u) (op_inc c i v)" "holds (step_ok c u) (op_cmp c i v)"
    "holds (step_ok c u) (op_cmpi c i v)" "holds (step_ok c u) (op_mov c i v)"
    "holds (step_ok c u) (op_movi c i v)" "holds (step_ok c u) (op_addi c i v)"
    "holds (step_ok c u) (op_subi c i v)" "holds (step_ok c u) (op_andi c i v)"
    "holds (step_ok c u) (op_ori c i v)" "holds (step_ok c u) (op_xori c i v)"
    "holds (step_ok c u) (op_shli c i v)" "holds (step_ok c u) (op_shri c i v)"
    "holds (step_ok c u) (op_roli c i v)" "holds (step_ok c u) (op_rori c i v)"
  unfolding alu_defs by (intro vcg assms; assumption)+

lemma step_jumps [vcg]:
  assumes "step_ok c u v"
  shows "holds (step_ok c u) (op_jmp c i v)" "holds (step_ok c u) (op_rjmp c i v)"
    "holds (step_ok c u) (op_jz c i v)" "holds (step_ok c u) (op_rjz c i v)"
    "holds (step_ok c u) (op_jnz c i v)" "holds (step_ok c u) (op_rjnz c i v)"
    "holds (step_ok c u) (op_jg c i v)" "holds (step_ok c u) (op_jge c i v)"
    "holds (step_ok c u) (op_jl c i v)" "holds (step_ok c u) (op_jle c i v)"
    "holds (step_ok c u) (op_jc c i v)" "holds (step_ok c u) (op_jnc c i v)"
  unfolding jump_defs by (intro vcg assms)+

lemma step_calls [vcg]:
  assumes "step_ok c u v"
  shows "holds (step_ok c u) (op_push c i v)" "holds (step_ok c u) (op_pop h c i v)"
    "holds (step_ok c u) (op_call c i v)" "holds (step_ok c u) (op_rcall c i v)"
    "holds (step_ok c u) (op_callr c i v)" "holds (step_ok c u) (op_ret h c v)"
  unfolding op_push_def op_pop_def op_call_def op_rcall_def op_callr_def op_ret_def
  by (intro vcg assms; assumption)+

lemma step_mem [vcg]:
  assumes "step_ok c u v"
  shows "holds (step_ok c u) (op_load c i v)" "holds (step_ok c u) (op_load32 h c i v)"
    "holds (step_ok c u) (op_loadx32 h c i v)" "holds (step_ok c u) (op_store c i v)"
    "holds (step_ok c u) (op_store32 c i v)" "holds (step_ok c u) (op_storex32 c i v)"
    "holds (step_ok c u) (op_memset c i v)" "holds (step_ok c u) (op_memcpy c i v)"
    "holds (step_ok c u) (op_fload32 h c i v)" "holds (step_ok c u) (op_fstore32 c i v)"
  unfolding op_load_def op_load32_def op_loadx32_def op_store_def op_store32_def op_storex32_def
    op_memset_def op_memcpy_def op_fload32_def op_fstore32_def
  by (intro vcg step_memset step_memcpy assms; assumption)+

lemma step_float [vcg]:
  assumes "step_ok c u v"
  shows "holds (step_ok c u) (op_fadd h c i v)" "holds (step_ok c u) (op_fsub h c i v)"
    "holds (step_ok c u) (op_fmul h c i v)" "holds (step_ok c u) (op_fdiv h c i v)"
    "holds (step_ok c u) (op_fneg c i v)" "holds (step_ok c u) (op_fabs c i v)"
    "holds (step_ok c u) (op_fsqrt h c i v)" "holds (step_ok c u) (op_itof c i v)"
    "holds (step_ok c u) (op_ftoi c i v)" "holds (step_ok c u) (op_fcmp c i v)"
  unfolding op_fadd_def op_fsub_def op_fmul_def op_fdiv_def op_f2_def op_fneg_def op_fabs_def
    op_fsqrt_def op_itof_def op_ftoi_def op_fcmp_def
  by (intro vcg assms; assumption)+

lemma step_atomic_ops [vcg]:
  assumes "step_ok c u v"
  shows "holds (step_ok c u) (op_cas c i v)" "holds (step_ok c u) (op_xadd c i v)"
    "holds (step_ok c u) (op_xchg c i v)" "holds (step_ok c u) (op_ldar c i v)"
    "holds (step_ok c u) (op_stlr c i v)"
  unfolding op_cas_def op_xadd_def op_xchg_def op_ldar_def op_stlr_def
  by (intro vcg assms; assumption)+

lemma step_serial_case [vcg]:
  assumes "step_ok c u v" "\<And>x w. step_ok c u w \<Longrightarrow> holds P (k x w)"
  shows "holds P (case serial_rx_read v of (x, w) \<Rightarrow> k x w)"
  using assms step_ok_trans [OF assms(1) step_serial_rx_read [of c v]]
  by (cases "serial_rx_read v") simp

lemma step_in [vcg]: "step_ok c u v \<Longrightarrow> holds (step_ok c u) (op_in c i v)"
  unfolding op_in_def by (intro vcg; assumption)

lemma step_out [vcg]:
  assumes "step_ok c u v"
  shows "holds (step_ok c u) (op_out c i v)"
proof -
  have "step_ok c u (upd_cpu c (\<lambda>r. r\<lparr>csp := y\<rparr>) v)" "step_ok c u (upd_cpu c (\<lambda>r. r\<lparr>dsp := y\<rparr>) v)"
    if "0 \<le> y \<and> y \<le> 256" for y
    by (rule step_ok_trans [OF assms], rule step_upd_cpu, use that in \<open>simp_all add: same_core_def core_wf_def\<close>)+
  moreover have "step_ok c u (upd_cpu c (\<lambda>r. r\<lparr>irq_masked := b\<rparr>) v)" for b
    by (rule step_ok_trans [OF assms step_plain_cpu]) (simp_all add: same_core_def)
  ultimately show ?thesis
    unfolding op_out_def by (intro vcg) (auto intro: assms)
qed

lemma step_halted: "step_ok c v (v\<lparr>halted := b\<rparr>)"
  by (rule step_other) (simp_all add: cache_frame_def serial_ok_def disk_inv_def)

lemma step_startap [vcg]:
  assumes "step_ok c u v"
  shows "holds (step_ok c u) (op_startap c i v)"
proof -
  have entry: "step_ok c v (upd_cpu k (\<lambda>r. r\<lparr>ip := e, last_ip := e\<rparr>) v)" for k e
  proof -
    have "kept c v (upd_cpu k (\<lambda>r. r\<lparr>ip := e, last_ip := e\<rparr>) v)"
      using kept_refl [of c v] by (auto simp: kept_def same_core_def upd_cpu_def)
    moreover have "core_wf j (cpus (upd_cpu k (\<lambda>r. r\<lparr>ip := e, last_ip := e\<rparr>) v) j)"
      if "core_wf j (cpus v j)" for j
      using that by (cases "j = k") (simp_all add: core_wf_def)
    then have "wf v \<Longrightarrow> wf (upd_cpu k (\<lambda>r. r\<lparr>ip := e, last_ip := e\<rparr>) v)"
      by (simp add: wf_def serial_ok_def disk_inv_def)
    ultimately show ?thesis by (simp add: step_ok_def)
  qed
  have "step_ok c w (w\<lparr>core_released := r\<rparr>)" for w r
    by (rule step_other) (simp_all add: cache_frame_def serial_ok_def disk_inv_def)
  then have "step_ok c u (upd_cpu k (\<lambda>r. r\<lparr>ip := e, last_ip := e\<rparr>) v
      \<lparr>core_released := r (upd_cpu k (\<lambda>r. r\<lparr>ip := e, last_ip := e\<rparr>) v)\<rparr>)" for k e r
    using assms entry by (blast intro: step_ok_trans)
  then show ?thesis
    unfolding op_startap_def by (intro vcg) (simp_all add: assms)
qed

lemma step_misc [vcg]:
  assumes "step_ok c u v"
  shows "holds (step_ok c u) (op_halt v)" "holds (step_ok c u) (op_int h c i v)"
    "holds (step_ok c u) (op_iret h c v)" "holds (step_ok c u) (op_ipi c i v)"
    "holds (step_ok c u) (op_cpuid c i v)"
  unfolding op_halt_def op_int_def op_iret_def op_ipi_def op_cpuid_def
  by (intro vcg assms step_ok_trans [OF assms step_halted]; assumption)+

lemma step_dispatch: "step_ok c u v \<Longrightarrow> holds (step_ok c u) (dispatch h c i v)"
  unfolding dispatch_def Let_def
  by (intro holds_if step_alu step_jumps step_calls step_mem step_float step_atomic_ops step_in step_out
      step_startap step_misc holds_Inr holds_Inl)

lemma step_fetch: "holds (\<lambda>(x, w). step_ok c v w) (fetch64 c v)"
  unfolding fetch64_def by (simp add: Let_def step_plain_cpu same_core_def)

lemma step_instruction: "holds (step_ok c v) (vm_instruction_case h c v)"
  unfolding vm_instruction_case_def
  by (rule bind_step2 [OF step_fetch]) (auto intro: step_dispatch)

section \<open>All threads of the machine\<close>

text \<open>
  One turn of any thread: a core, the terminal reader, the window, the disk worker, the timer.
  The state is the machine and each core thread's cycle counter.
\<close>

inductive mstep :: "host \<Rightarrow> (nat \<Rightarrow> u64) \<times> vm \<Rightarrow> (nat \<Rightarrow> u64) \<times> vm \<Rightarrow> bool" for h where
  core_turn: "c < smp_cores v \<Longrightarrow> vm_thread_turn h c (n c) v = Inr (T_run k w) \<Longrightarrow> mstep h (n, v) (n(c := k), w)"
| core_stop: "c < smp_cores v \<Longrightarrow> vm_thread_turn h c (n c) v = Inr (T_stop w) \<Longrightarrow> mstep h (n, v) (n(c := 0), w)"
| key_turn: "mstep h (n, v) (n, vm_handle_keyboard key v)"
| window_turn: "mstep h (n, v) (n, display_poll_events k es v)"
| disk_turn: "mstep h (n, v) (n, disk_worker h v)"
| timer_turn: "timer_tick h v = Some w \<Longrightarrow> mstep h (n, v) (n, w)"

inductive_cases mstepE: "mstep h s t"

text \<open>What every turn keeps, whatever thread takes it. The counter of executed instructions changes.\<close>

definition same_place :: "vcpu \<Rightarrow> vcpu \<Rightarrow> bool" where
  "same_place r s \<longleftrightarrow>
     call_stack_base s = call_stack_base r \<and> data_stack_base s = data_stack_base r
     \<and> isr_stack_base s = isr_stack_base r \<and> core_id s = core_id r \<and> is_bsp s = is_bsp r"

definition mkept :: "vm \<Rightarrow> vm \<Rightarrow> bool" where
  "mkept v w \<longleftrightarrow>
     memory_size w = memory_size v \<and> smp_cores w = smp_cores v \<and> mmio_devices w = mmio_devices v
     \<and> (\<forall>b. memory_size v \<le> unat b \<longrightarrow> memory w b = memory v b)
     \<and> (\<forall>k. same_place (cpus v k) (cpus w k))"

lemma kept_core:
  assumes "kept c v w"
  shows "same_core (cpus v k) (cpus w k)"
proof (cases "k = c")
  case False
  then obtain a b where "cpus w k = (cpus v k)\<lparr>ip := a, last_ip := b\<rparr>"
    using assms unfolding kept_def by blast
  then show ?thesis by (simp add: same_core_def)
qed (use assms in \<open>simp add: kept_def\<close>)

lemma kept_mkept: "kept c v w \<Longrightarrow> mkept v w"
  using kept_core [of c v w] by (simp add: mkept_def kept_def same_core_def same_place_def)

lemma mkept_refl: "mkept v v"
  by (simp add: mkept_def same_place_def)

lemma mkept_trans: "mkept u v \<Longrightarrow> mkept v w \<Longrightarrow> mkept u w"
  by (simp add: mkept_def same_place_def)

fun thread_vm :: "thread_result \<Rightarrow> vm" where
  "thread_vm (T_stop v) = v"
| "thread_vm (T_run n v) = v"

fun thread_count :: "thread_result \<Rightarrow> u64" where
  "thread_count (T_stop v) = 0"
| "thread_count (T_run n v) = n"

text \<open>A core thread executes an instruction in its turn.\<close>

definition runs :: "nat \<Rightarrow> vm \<Rightarrow> bool" where
  "runs c v \<longleftrightarrow> \<not> halted v \<and> (c = 0 \<or> core_released v c)"

text \<open>A turn keeps the frame and the invariant, and the instruction it executes is counted, in the core or in the thread.\<close>

definition counted :: "nat \<Rightarrow> u64 \<Rightarrow> vm \<Rightarrow> thread_result \<Rightarrow> bool" where
  "counted c n v r \<longleftrightarrow>
     (let w = thread_vm r in
      mkept v w \<and> (wf v \<and> c < smp_cores v \<longrightarrow> wf w)
      \<and> (\<forall>k. execution_times (cpus w k) + (if k = c then thread_count r else 0) = execution_times (cpus v k) + (if k = c then n else 0)))"

lemma counted_step:
  assumes "step_ok c v u" "counted c n u r"
  shows "counted c n v r"
proof -
  have k: "kept c v u" using assms(1) by (simp add: step_ok_def)
  then have "execution_times (cpus u k) = execution_times (cpus v k)" for k
    using kept_core [of c v u k] by (simp add: same_core_def)
  moreover have "mkept v u" by (rule kept_mkept [OF k])
  moreover have "smp_cores u = smp_cores v" using k by (simp add: kept_def)
  ultimately show ?thesis using assms mkept_trans [of v u] by (simp add: counted_def step_ok_def Let_def)
qed

lemma flush_counted:
  "counted c n v (T_stop (snd (vm_flush_execution_times c n v)))"
  "vm_flush_execution_times c n v = (m, w) \<Longrightarrow> counted c n v (T_run m w)"
proof -
  have "wf (upd_cpu c (\<lambda>r. r\<lparr>execution_times := execution_times r + n\<rparr>) v)" if "wf v"
  proof -
    have "core_wf k (cpus (upd_cpu c (\<lambda>r. r\<lparr>execution_times := execution_times r + n\<rparr>) v) k)" if "core_wf k (cpus v k)" for k
      using that by (cases "k = c") (simp_all add: core_wf_def)
    then show ?thesis using that by (simp add: wf_def serial_ok_def disk_inv_def)
  qed
  note wf = this
  have at: "cpus (upd_cpu c f v) k = (if k = c then f (cpus v c) else cpus v k)" for f k by (simp add: upd_cpu_def)
  show "counted c n v (T_stop (snd (vm_flush_execution_times c n v)))"
    "vm_flush_execution_times c n v = (m, w) \<Longrightarrow> counted c n v (T_run m w)"
    using wf by (auto simp: counted_def vm_flush_execution_times_def mkept_def same_place_def Let_def at split: if_splits)
qed

lemma counted_then:
  assumes "counted c n v (T_run m w)" "step_ok c w u"
  shows "counted c n v (T_run m u)"
proof -
  have k: "kept c w u" using assms(2) by (simp add: step_ok_def)
  then have "execution_times (cpus u k) = execution_times (cpus w k)" for k
    using kept_core [of c w u k] by (simp add: same_core_def)
  moreover have "mkept w u" by (rule kept_mkept [OF k])
  moreover have "smp_cores w = smp_cores v" using assms(1) by (simp add: counted_def mkept_def)
  ultimately show ?thesis using assms mkept_trans [of v w u] by (auto simp: counted_def step_ok_def Let_def split: if_splits)
qed

lemma thread_turn_counted:
  "holds (\<lambda>r. counted c (if runs c v then n + 1 else n) v r) (vm_thread_turn h c n v)"
proof (cases "runs c v")
  case False
  have "counted c n v (T_run n v)" by (simp add: counted_def mkept_refl)
  then show ?thesis
    using False flush_counted(1) [of c n v] by (cases "halted v") (simp_all add: runs_def vm_thread_turn_def)
next
  case True
  have tail: "holds (\<lambda>r. counted c (n + 1) v r)
      (let n = n + 1; (n, w) = (if 1024 \<le> n then vm_flush_execution_times c n w else (n, w));
           w = (if c = 0 then disk_tick w else w) in Inr (T_run n w))"
    if "step_ok c v w" for w
  proof -
    obtain m x where m: "(if 1024 \<le> n + 1 then vm_flush_execution_times c (n + 1) w else (n + 1, w)) = (m, x)" by fastforce
    have "counted c (n + 1) w (T_run m x)"
      using m flush_counted(2) [of c "n + 1" w] by (auto simp: counted_def mkept_refl split: if_splits)
    then have "counted c (n + 1) w (T_run m (if c = 0 then disk_tick x else x))" using counted_then [OF _ step_disk_tick] by auto
    then show ?thesis using counted_step [OF that] by (simp add: m Let_def)
  qed
  have instr: "holds (\<lambda>r. counted c (n + 1) v r) (bind_res (vm_instruction_case h c w) k)"
    if "step_ok c v w" "\<And>x. step_ok c v x \<Longrightarrow> holds (\<lambda>r. counted c (n + 1) v r) (k x)" for w k
    using step_instruction [of c w h] that by (cases "vm_instruction_case h c w") (auto intro: step_ok_trans)
  have irq: "holds (\<lambda>r. counted c (n + 1) v r) (bind_res (vm_handle_interrupts h c v) k)"
    if "\<And>x. step_ok c v x \<Longrightarrow> holds (\<lambda>r. counted c (n + 1) v r) (k x)" for k
    using step_handle [OF step_ok_refl, of c v h] that by (cases "vm_handle_interrupts h c v") auto
  have e: "\<not> halted v" "\<not> (c \<noteq> 0 \<and> \<not> core_released v c)" using True by (simp_all add: runs_def)
  have "holds (\<lambda>r. counted c (n + 1) v r) (vm_thread_turn h c n v)"
    unfolding vm_thread_turn_def if_not_P [OF e(1)] if_not_P [OF e(2)] by (intro irq instr tail)
  then show ?thesis using True by simp
qed

lemma thread_turn_ok:
  "holds (\<lambda>r. mkept v (thread_vm r) \<and> (wf v \<and> c < smp_cores v \<longrightarrow> wf (thread_vm r))) (vm_thread_turn h c n v)"
  by (rule holds_mono [OF thread_turn_counted]) (simp add: counted_def Let_def)

lemma step_window: "step_ok c v (display_poll_events k es v)"
proof -
  have "step_ok c v (fold (\<lambda>x v. snd (vm_serial_rx_enqueue x v)) xs v)" for xs v
    by (induction xs arbitrary: v) (auto intro: step_ok_refl step_ok_trans step_enqueue)
  moreover have "step_ok c w (w\<lparr>halted := b\<rparr>)" for w b
    by (rule step_other) (simp_all add: cache_frame_def serial_ok_def disk_inv_def)
  ultimately show ?thesis unfolding poll_enqueues by (rule step_ok_trans)
qed

lemma disk_worker_mkept: "mkept v (disk_worker h v)"
proof -
  have "memory_size v \<le> unat b \<Longrightarrow> memory (disk_transfer h cmd l a k v) b = memory v b" for b :: u32 and cmd l a k
  proof (cases "memory_size v < a + k * 512")
    case False
    assume "memory_size v \<le> unat b"
    then show ?thesis using False by (intro disk_transfer_memory) simp
  qed (simp add: disk_transfer_rejected)
  moreover have "mmio_devices (disk_transfer h cmd l a k v) = mmio_devices v" for cmd l a k
    by (simp add: disk_transfer_def Let_def)
  ultimately show ?thesis by (simp add: mkept_def disk_worker_def Let_def same_place_def)
qed

lemma disk_worker_wf: "wf v \<Longrightarrow> wf (disk_worker h v)"
proof -
  assume wf: "wf v"
  have "disk_inv (disk_worker h v)" using disk_step_inv [of v h D_worker] wf by (simp add: wf_def)
  moreover have "bus_ok (disk_worker h v) = bus_ok v"
    by (rule bus_ok_cong) (simp_all add: disk_worker_def disk_transfer_def Let_def cache_frame_def)
  moreover have "serial_ok (disk_worker h v) = serial_ok v" "cpus (disk_worker h v) = cpus v"
    "smp_cores (disk_worker h v) = smp_cores v"
    by (simp_all add: disk_worker_def disk_transfer_def Let_def serial_ok_def)
  ultimately show ?thesis using wf by (simp add: wf_def)
qed

lemma timer_tick_step:
  assumes "timer_tick h v = Some w"
  shows "step_ok c v w"
  using assms
  by (intro step_other)
     (auto simp: timer_tick_def Let_def cache_frame_def serial_ok_def disk_inv_def split: if_splits)

lemma mstep_mkept: "mstep h s t \<Longrightarrow> mkept (snd s) (snd t)"
proof (induction rule: mstep.induct)
  case (core_turn c v n k w)
  then show ?case using thread_turn_ok [of v c h "n c"] by auto
next
  case (core_stop c v n w)
  then show ?case using thread_turn_ok [of v c h "n c"] by auto
next
  case (key_turn n v key)
  then show ?case
    using kept_mkept [of 0 v] step_enqueue [of 0 v] mkept_refl
    by (auto simp: vm_handle_keyboard_def Let_def step_ok_def)
next
  case (window_turn n v k es)
  then show ?case using kept_mkept step_window [of 0 v k es] by (auto simp: step_ok_def)
next
  case (disk_turn n v)
  then show ?case by (simp add: disk_worker_mkept)
next
  case (timer_turn v w n)
  then show ?case using kept_mkept timer_tick_step [of h v w 0] by (auto simp: step_ok_def)
qed

lemma mstep_wf: "mstep h s t \<Longrightarrow> 0 < smp_cores (snd s) \<Longrightarrow> wf (snd s) \<Longrightarrow> wf (snd t)"
proof (induction rule: mstep.induct)
  case (core_turn c v n k w)
  then show ?case using thread_turn_ok [of v c h "n c"] by auto
next
  case (core_stop c v n w)
  then show ?case using thread_turn_ok [of v c h "n c"] by auto
next
  case (key_turn n v key)
  then show ?case using step_enqueue [of 0 v] by (auto simp: vm_handle_keyboard_def Let_def step_ok_def)
next
  case (window_turn n v k es)
  then show ?case using step_window [of 0 v k es] by (auto simp: step_ok_def)
next
  case (disk_turn n v)
  then show ?case by (simp add: disk_worker_wf)
next
  case (timer_turn v w n)
  then show ?case using timer_tick_step [of h v w 0] by (auto simp: step_ok_def)
qed

lemma msteps_mkept: "(mstep h)\<^sup>*\<^sup>* s t \<Longrightarrow> mkept (snd s) (snd t)"
  by (induction rule: rtranclp_induct) (auto intro: mkept_refl mkept_trans mstep_mkept)

lemma msteps_wf:
  assumes "(mstep h)\<^sup>*\<^sup>* s t" "0 < smp_cores (snd s)" "wf (snd s)"
  shows "wf (snd t)"
  using assms
proof (induction rule: rtranclp_induct)
  case (step t u)
  then have "smp_cores (snd t) = smp_cores (snd s)" using msteps_mkept [of h s t] by (simp add: mkept_def)
  then show ?case using step mstep_wf [of h t u] by simp
qed

section \<open>Properties\<close>

lemma demo_vm_wf: "wf demo_vm"
  using demo_bus_ok
  by (simp add: wf_def core_wf_def serial_ok_def disk_inv_def disk_zero_def vcpu_zero_def)

text \<open>C1: whatever turns the core threads, the terminal, the window, the disk worker and the timer take, in any
  order, the machine invariant holds, no byte at or beyond the size of RAM changes, and the device table,
  the stack regions, core numbers and core roles stay as they were.\<close>

theorem reachable_machine_invariant:
  assumes "(mstep h)\<^sup>*\<^sup>* (n, v) (n', w)" "0 < smp_cores v" "wf v"
  shows "wf w \<and> memory_size w = memory_size v \<and> smp_cores w = smp_cores v \<and> mmio_devices w = mmio_devices v
    \<and> (\<forall>b. memory_size v \<le> unat b \<longrightarrow> memory w b = memory v b) \<and> (\<forall>k. same_place (cpus v k) (cpus w k))"
  using msteps_wf [OF assms(1)] msteps_mkept [OF assms(1)] assms(2,3) by (simp add: mkept_def)

theorem reachable_machine_invariant_witness:
  "wf (disk_worker host_zero (vm_handle_keyboard 65 demo_vm))"
proof -
  let ?n = "\<lambda>_ :: nat. 0 :: u64" and ?v = "vm_handle_keyboard 65 demo_vm"
  have "mstep host_zero (?n, demo_vm) (?n, ?v)" by (rule key_turn)
  moreover have "mstep host_zero (?n, ?v) (?n, disk_worker host_zero ?v)" by (rule disk_turn)
  ultimately have "(mstep host_zero)\<^sup>*\<^sup>* (?n, demo_vm) (?n, disk_worker host_zero ?v)" by simp
  from reachable_machine_invariant [OF this] show ?thesis using demo_vm_wf by simp
qed

text \<open>C33: One instruction whose register numbers are below 32 stays inside the register file, leaves the registers, flags, stack
  pointers and interrupt state of every other core alone (only the entry point of a core can change, by \<open>STARTAP\<close>), and keeps the
  core's own stack regions; a core with well-formed stack pointers keeps them so. Other register numbers are outside of the statement: the code does
  not check them, and large ones reach the registers of the next core.\<close>

theorem core_isolation:
  assumes "names_registers (decode (load64 (memory v) (ip (cpus v c))))" "k \<noteq> c"
  shows "vm_instruction_case h c v \<noteq> Inl (Host_out_of_bounds ''regs'')
    \<and> (\<forall>w. vm_instruction_case h c v = Inr w \<longrightarrow>
         (\<exists>a b. cpus w k = (cpus v k)\<lparr>ip := a, last_ip := b\<rparr>) \<and> same_core (cpus v c) (cpus w c)
         \<and> (wf v \<and> c < smp_cores v \<longrightarrow> core_wf c (cpus w c)))"
  using instruction_regs [OF assms(1)] step_instruction [of c v h] assms(2) by (auto simp: step_ok_def kept_def wf_def no_overrun_def)

theorem core_isolation_witness:
  "\<exists>u a b. vm_instruction_case host_zero 0 demo_code = Inr u
           \<and> cpus u 1 = (cpus demo_code 1)\<lparr>ip := a, last_ip := b\<rparr>"
proof -
  obtain u where u: "vm_instruction_case host_zero 0 demo_code = Inr u"
    using instruction_code [of demo_code 0 OP_CALL 0 0 0 "0x4000" host_zero] demo_code_at(1)
    by (simp add: dispatch_def op_call_def call_push_def vm_write64_def in_ram_def demo_code_def Let_def)
  have "ip (cpus demo_code 0) = 0x3000" by (simp add: demo_code_def)
  then have "names_registers (decode (load64 (memory demo_code) (ip (cpus demo_code 0))))"
    using demo_code_at(1) by (simp add: code_at_def names_registers_def decode_INST)
  from core_isolation [OF this, of 1] show ?thesis using u by auto
qed

end
