(* ===== verification/Loader.thy ===== *)
theory Loader
  imports Machine
begin

text \<open>
  The image loader (\<open>loadbin.c\<close>) and the construction of a machine (\<open>vm_create\<close>,
  \<open>vm_destroy\<close> and the start of \<open>main\<close> in \<open>vm.c\<close>). A file is the list of its bytes,
  \<open>None\<close> when it cannot be opened; a program is the list of its bytes as \<open>memcpy\<close>
  copies them. \<open>vm_create\<close> returns \<open>Inl (Panic_create _)\<close> both where the code panics
  and where an allocation fails and it returns \<open>NULL\<close>; the small tables (\<open>VM\<close>, \<open>cpus\<close>,
  \<open>core_released\<close>, \<open>interrupt_bitmap\<close>) and the row locks are taken to be allocated.

  The lemmas show what image file is accepted, where the segments end up, that a
  created machine satisfies the invariant, and that the stack regions of all
  cores are disjoint pieces of plain RAM.
\<close>

section \<open>Image files\<close>

record ProgramLayout =
  text_base :: u32
  text_size :: u32
  data_base :: u32
  data_size :: u32
  bss_base :: u32
  bss_size :: u32

definition read_u32_le :: "u8 list \<Rightarrow> u32" where
  "read_u32_le bs = le32 (bs ! 0) (bs ! 1) (bs ! 2) (bs ! 3)"

definition load_program :: "host \<Rightarrow> u8 list option \<Rightarrow> u8 list option" where
  "load_program h file =
     (case file of None \<Rightarrow> None
      | Some bs \<Rightarrow>
          if length bs mod 8 \<noteq> 0 then None
          else if \<not> malloc_ok h (length bs) then None
          else Some bs)"

definition load_data :: "host \<Rightarrow> u8 list option \<Rightarrow> u8 list option" where
  "load_data h file =
     (case file of None \<Rightarrow> None
      | Some bs \<Rightarrow> if \<not> malloc_ok h (length bs) then None else Some bs)"

text \<open>\<open>malloc\<close> of \<open>n\<close> bytes and \<open>fread\<close> of as many: the bytes and the rest of the file.\<close>

definition read_part :: "host \<Rightarrow> nat \<Rightarrow> u8 list \<Rightarrow> (u8 list \<times> u8 list) option" where
  "read_part h n bs =
     (if 0 < n then
        if \<not> malloc_ok h n then None
        else if length bs < n then None
        else Some (take n bs, drop n bs)
      else Some ([], bs))"

definition load_program_single ::
  "host \<Rightarrow> u8 list option \<Rightarrow> (u8 list \<times> u8 list \<times> ProgramLayout) option" where
  "load_program_single h file =
     (case file of None \<Rightarrow> None
      | Some bs \<Rightarrow>
          if length bs < 24 then None
          else
            let header = take 24 bs;
                layout = \<lparr>text_base = read_u32_le (drop 0 header), text_size = read_u32_le (drop 4 header),
                          data_base = read_u32_le (drop 8 header), data_size = read_u32_le (drop 12 header),
                          bss_base = read_u32_le (drop 16 header), bss_size = read_u32_le (drop 20 header)\<rparr> in
            if text_size layout mod 8 \<noteq> 0 then None
            else
              (case read_part h (unat (text_size layout)) (drop 24 bs) of None \<Rightarrow> None
               | Some (program, rest) \<Rightarrow>
                   (case read_part h (unat (data_size layout)) rest of None \<Rightarrow> None
                    | Some (data, _) \<Rightarrow> Some (program, data, layout))))"

section \<open>Creating a machine\<close>

abbreviation (input) call_stack_bytes :: nat where "call_stack_bytes \<equiv> 2048"
abbreviation (input) data_stack_bytes :: nat where "data_stack_bytes \<equiv> 1024"
abbreviation (input) per_core_stack_bytes :: nat where "per_core_stack_bytes \<equiv> 5120"

definition core_init :: "u32 \<Rightarrow> u32 \<Rightarrow> nat \<Rightarrow> vcpu" where
  "core_init base text i =
     vcpu_zero\<lparr>core_id := int i, is_bsp := (i = 0), ip := text, last_ip := text,
       call_stack_base := base, data_stack_base := base + of_nat call_stack_bytes,
       isr_stack_base := base + of_nat call_stack_bytes + of_nat data_stack_bytes,
       csp := CALL_STACK_SIZE, dsp := DATA_STACK_SIZE, isp := ISR_STACK_SIZE, irq_masked := False\<rparr>"

definition stack_pool :: "nat \<Rightarrow> nat \<Rightarrow> nat \<Rightarrow> vm_error + u32 \<times> nat" where
  "stack_pool mem_size cores image_end =
     (if cores = 1 then Inr (CALL_STACK_BASE, per_core_stack_bytes)
      else
        let size = per_core_stack_bytes * cores in
        if mem_size \<le> size then Inl (Panic_create ''SMP stack pool too large for RAM'')
        else
          let base = of_nat (mem_size - size) :: u32 in
          if unat base < image_end then Inl (Panic_create ''Program/data overlaps SMP stack pool'')
          else Inr (base, size))"

definition load_segments ::
  "nat \<Rightarrow> u8 list \<Rightarrow> u8 list \<Rightarrow> u32 \<Rightarrow> u32 \<Rightarrow> u32 \<Rightarrow> u32 \<Rightarrow> (u32 \<Rightarrow> u8) \<Rightarrow> vm_error + (u32 \<Rightarrow> u8)" where
  "load_segments mem_size program data text data_b bss bss_n m =
     (let m = store_bytes m (unat text) program in
      if data \<noteq> [] \<and> mem_size < unat data_b + length data then Inl (Panic_create ''Data segment out of range'')
      else
        let m = (if data \<noteq> [] then store_bytes m (unat data_b) data else m) in
        if 0 < bss_n \<and> mem_size < unat bss + unat bss_n then Inl (Panic_create ''BSS segment out of range'')
        else Inr (if 0 < bss_n then store_bytes m (unat bss) (replicate (unat bss_n) 0) else m))"

definition segment_bases :: "ProgramLayout option \<Rightarrow> nat \<Rightarrow> nat \<Rightarrow> u32 \<times> u32 \<times> u32 \<times> u32" where
  "segment_bases layout prog_bytes data_bytes =
     (let data_b = PROGRAM_BASE + of_nat prog_bytes in
      case layout of
        None \<Rightarrow> (PROGRAM_BASE, data_b, data_b + of_nat data_bytes, 0)
      | Some l \<Rightarrow> (text_base l, data_base l, bss_base l, bss_size l))"

definition image_end :: "u32 \<times> u32 \<times> u32 \<times> u32 \<Rightarrow> nat \<Rightarrow> nat \<Rightarrow> nat" where
  "image_end sb prog_bytes data_bytes =
     (case sb of (text, data_b, bss, bss_n) \<Rightarrow>
        max (max (unat text + prog_bytes) (unat data_b + data_bytes)) (unat bss + unat bss_n))"

definition vm_init_cores :: "host \<Rightarrow> u32 \<Rightarrow> nat \<Rightarrow> (u32 \<Rightarrow> u8) \<Rightarrow> u32 \<Rightarrow> vm \<Rightarrow> vm" where
  "vm_init_cores h base sz m text v =
     (let v = v\<lparr>stack_pool_base := base, stack_pool_size := sz, memory := m,
               cpus := (\<lambda>i. if i < smp_cores v
                             then core_init (if smp_cores v = 1 then CALL_STACK_BASE
                                             else base + of_nat (per_core_stack_bytes * i)) text i
                             else cpus v i),
               core_released := (\<lambda>i. i = 0 \<and> i < smp_cores v)\<rparr>;
          v = v\<lparr>start_realtime_ns := host_unix_time_ns h v, clock_reads := clock_reads v + 1\<rparr>;
          v = v\<lparr>start_monotonic_ns := host_monotonic_time_ns h v, clock_reads := clock_reads v + 1\<rparr> in
      set_io SCREEN_ATTRIBUTE SERIAL_STATUS_TX_READY v)"

definition vm_create ::
  "host \<Rightarrow> nat \<Rightarrow> u8 list \<Rightarrow> u8 list \<Rightarrow> ProgramLayout option \<Rightarrow> int \<Rightarrow> vm_error + vm" where
  "vm_create h mem_size program data layout cores =
     (let v = vm_zero\<lparr>smp_cores := (if 0 < cores then nat cores else 1), memory_size := mem_size\<rparr> in
      if \<not> malloc_ok h mem_size \<or> \<not> malloc_ok h FB_SIZE then Inl (Panic_create ''NULL'')
      else
        bind_res (register_mmio (v\<lparr>disk_size_bytes := of_nat DISK_SIZE\<rparr>)) (\<lambda>v.
        case segment_bases layout (length program) (length data) of (text, data_b, bss, bss_n) \<Rightarrow>
        if mem_size < unat text + length program then Inl (Panic_create ''Program too large'')
        else
          bind_res (stack_pool mem_size (smp_cores v)
                     (image_end (text, data_b, bss, bss_n) (length program) (length data))) (\<lambda>(base, sz).
          bind_res (load_segments mem_size program data text data_b bss bss_n (memory v)) (\<lambda>m.
          Inr (vm_init_cores h base sz m text v)))))"

definition vm_destroy :: "vm \<Rightarrow> vm" where
  "vm_destroy v = disk_close (v\<lparr>timer_enabled := False, timer_thread_running := False\<rparr>)"

text \<open>\<open>main\<close> up to the start of the threads.\<close>

definition boot :: "host \<Rightarrow> u8 list option \<Rightarrow> u8 list option \<Rightarrow> int \<Rightarrow> vm_error + vm" where
  "boot h file img cores =
     (case load_program_single h file of
        None \<Rightarrow> Inl (Panic_create ''Failed to load program'')
      | Some (program, data, layout) \<Rightarrow>
          bind_res (vm_create h MEM_SIZE program data (Some layout) cores) (\<lambda>v.
          init_ivt (disk_init img v)))"

section \<open>Image files round trip\<close>

definition u32_le :: "u32 \<Rightarrow> u8 list" where
  "u32_le x = [byte_of 0 x, byte_of 1 x, byte_of 2 x, byte_of 3 x]"

definition write_image :: "u8 list \<Rightarrow> u8 list \<Rightarrow> ProgramLayout \<Rightarrow> u8 list" where
  "write_image program data l =
     u32_le (text_base l) @ u32_le (text_size l) @ u32_le (data_base l) @ u32_le (data_size l)
     @ u32_le (bss_base l) @ u32_le (bss_size l) @ program @ data"

lemma read_u32_le_append [simp]: "read_u32_le (u32_le x @ bs) = x"
  using le32_byte_of [of x] by (simp add: read_u32_le_def u32_le_def numeral_nat)

lemma length_u32_le [simp]: "length (u32_le x) = 4"
  by (simp add: u32_le_def)

lemma read_part_append:
  "malloc_ok h (length bs) \<or> bs = [] \<Longrightarrow> read_part h (length bs) (bs @ rest) = Some (bs, rest)"
  by (auto simp: read_part_def)

lemma load_write_image:
  assumes "unat (text_size l) = length program" "unat (data_size l) = length data"
    "length program mod 8 = 0" "malloc_ok h (length program) \<or> program = []" "malloc_ok h (length data) \<or> data = []"
  shows "load_program_single h (Some (write_image program data l)) = Some (program, data, l)"
proof -
  let ?bs = "write_image program data l"
  have hdr: "take 24 ?bs = u32_le (text_base l) @ u32_le (text_size l) @ u32_le (data_base l)
      @ u32_le (data_size l) @ u32_le (bss_base l) @ u32_le (bss_size l)"
    "drop 24 ?bs = program @ data"
    by (simp_all add: write_image_def)
  have "text_size l mod 8 = 0"
    using assms(1,3) by (simp add: word_unat_eq_iff unat_mod)
  moreover have "24 \<le> length ?bs" by (simp add: write_image_def)
  moreover have "read_part h (length program) (program @ data) = Some (program, data)"
    using assms(4) by (rule read_part_append)
  moreover have "read_part h (length data) data = Some (data, [])"
    using read_part_append [OF assms(5), of "[]"] by simp
  ultimately show ?thesis
    using assms(1,2) read_u32_le_append [of "bss_size l" "[]"]
    by (simp add: load_program_single_def hdr Let_def)
qed

section \<open>A created machine\<close>

definition pool_base :: "nat \<Rightarrow> nat \<Rightarrow> nat" where
  "pool_base mem_size cores = (if cores = 1 then 0x800 else mem_size - 5120 * cores)"

lemma register_mmio_frame:
  assumes "memory_size v = MEM_SIZE"
  shows "\<exists>w. register_mmio v = Inr w \<and> mmio_devices w = boot_devices
             \<and> mmio_cache_dev w = mmio_cache_dev v \<and> memory_size w = memory_size v
             \<and> memory w = memory v \<and> smp_cores w = smp_cores v \<and> io w = io v \<and> disk w = disk v
             \<and> serial_rx_head w = serial_rx_head v \<and> serial_rx_tail w = serial_rx_tail v"
  using assms
  by (simp add: register_mmio_def register_fb_mmio_def register_time_mmio_def
       register_sysinfo_mmio_def add_mmio_device_def initialize_timer_related_def
       sysinfo_init_vendor_def Let_def)

lemma stack_pool_base:
  assumes "stack_pool MEM_SIZE n e = Inr (base, sz)" "0 < n" "n \<le> 64"
  shows "unat base = pool_base MEM_SIZE n" "n \<noteq> 1 \<Longrightarrow> e \<le> unat base"
proof -
  have "unat (of_nat (MEM_SIZE - 5120 * n) :: u32) = MEM_SIZE - 5120 * n"
    by (simp only: unat_of_nat) simp
  then show "unat base = pool_base MEM_SIZE n" "n \<noteq> 1 \<Longrightarrow> e \<le> unat base"
    using assms by (auto simp: stack_pool_def pool_base_def Let_def split: if_splits)
qed

lemma vm_create_shape:
  assumes "vm_create h MEM_SIZE program data layout cores = Inr v" "1 \<le> cores"
    and sb: "segment_bases layout (length program) (length data) = (tb, data_b, bss, bss_n)"
  obtains w base sz m where "v = vm_init_cores h base sz m tb w"
    "mmio_devices w = boot_devices" "mmio_cache_dev w = None"
    "memory_size w = MEM_SIZE" "smp_cores w = nat cores" "disk w = disk_zero"
    "serial_rx_head w = 0" "serial_rx_tail w = 0"
    "stack_pool MEM_SIZE (nat cores) (image_end (tb, data_b, bss, bss_n) (length program) (length data))
      = Inr (base, sz)"
    "load_segments MEM_SIZE program data tb data_b bss bss_n (\<lambda>_. 0) = Inr m"
    "unat tb + length program \<le> MEM_SIZE"
proof -
  let ?v = "vm_zero\<lparr>smp_cores := nat cores, memory_size := MEM_SIZE, disk_size_bytes := of_nat DISK_SIZE\<rparr>"
  obtain w where w: "register_mmio ?v = Inr w" "mmio_devices w = boot_devices" "mmio_cache_dev w = None"
    "memory_size w = MEM_SIZE" "memory w = (\<lambda>_. 0)" "smp_cores w = nat cores" "disk w = disk_zero"
    "serial_rx_head w = 0" "serial_rx_tail w = 0"
    using register_mmio_frame [of ?v] by (auto simp: vm_zero_def)
  show ?thesis
    using assms(1,2) that [OF _ w(2,3,4,6,7,8,9)] unfolding vm_create_def
    by (auto simp: Let_def w(1) [simplified] w(4,5,6) sb bind_res_eq_Inr split: if_splits)
qed

lemma core_init_wf: "core_wf i (core_init b t i)"
  by (simp add: core_wf_def core_init_def vcpu_zero_def)

lemma vm_init_cores_fields:
  assumes "v = vm_init_cores h base sz m tb w"
  shows "smp_cores v = smp_cores w" "memory_size v = memory_size w" "mmio_devices v = mmio_devices w"
    "mmio_cache_dev v = mmio_cache_dev w" "disk v = disk w" "serial_rx_head v = serial_rx_head w"
    "serial_rx_tail v = serial_rx_tail w" "memory v = m" "io v 2 = 2" "stack_pool_base v = base"
    "i < smp_cores w \<Longrightarrow>
       cpus v i = core_init (if smp_cores w = 1 then 0x800 else base + of_nat (5120 * i)) tb i"
  unfolding assms by (simp_all add: vm_init_cores_def Let_def set_io_def)

lemma vm_create_wf:
  assumes "vm_create h MEM_SIZE program data layout cores = Inr v" "1 \<le> cores"
  shows "wf v" "smp_cores v = nat cores" "memory_size v = MEM_SIZE" "mmio_devices v = boot_devices"
proof -
  obtain tb data_b bss bss_n where
    sb: "segment_bases layout (length program) (length data) = (tb, data_b, bss, bss_n)"
    by (cases "segment_bases layout (length program) (length data)")
  from assms sb obtain w base sz m where w: "v = vm_init_cores h base sz m tb w"
    "mmio_devices w = boot_devices" "mmio_cache_dev w = None"
    "memory_size w = MEM_SIZE" "smp_cores w = nat cores" "disk w = disk_zero"
    "serial_rx_head w = 0" "serial_rx_tail w = 0"
    by (rule vm_create_shape)
  note f = vm_init_cores_fields [OF w(1)]
  show "smp_cores v = nat cores" "memory_size v = MEM_SIZE" "mmio_devices v = boot_devices"
    using f(1,2,3) w by simp_all
  have "\<forall>i < smp_cores v. core_wf i (cpus v i)" using f(1) f(11) core_init_wf by simp
  moreover have "bus_ok v" using f(3,4) w boot_devices_disjoint by (simp add: bus_ok_def cache_ok_def)
  moreover have "serial_ok v" using f(6,7,9) w by (simp add: serial_ok_def)
  moreover have "disk_inv v" using f(5) w by (simp add: disk_inv_def disk_zero_def)
  ultimately show "wf v" by (simp add: wf_def)
qed

section \<open>Stack regions\<close>

lemma core_init_bases:
  "call_stack_base (core_init b t i) = b" "data_stack_base (core_init b t i) = b + 2048"
  "isr_stack_base (core_init b t i) = b + 3072"
  "csp (core_init b t i) = 256" "dsp (core_init b t i) = 256" "isp (core_init b t i) = 256"
  by (simp_all add: core_init_def)

text \<open>The 5120 bytes of core \<open>i\<close> start at \<open>core_base\<close>; pools of different cores are disjoint.\<close>

definition core_base :: "nat \<Rightarrow> nat \<Rightarrow> nat" where
  "core_base cores i = pool_base MEM_SIZE cores + 5120 * i"

lemma core_base_bounds:
  assumes "i < cores" "cores \<le> 64"
  shows "core_base cores i + 5120 \<le> MEM_SIZE" "cores = 1 \<Longrightarrow> core_base cores i = 0x800"
    "cores \<noteq> 1 \<Longrightarrow> 0x3FB0000 \<le> core_base cores i"
  using assms by (auto simp: core_base_def pool_base_def)

lemma core_base_disjoint: "i \<noteq> j \<Longrightarrow> core_base n i + 5120 \<le> core_base n j \<or> core_base n j + 5120 \<le> core_base n i"
  by (auto simp: core_base_def)

lemma core_region:
  assumes "i < cores" "cores \<le> 64" "mmio_devices v = boot_devices" "memory_size v = MEM_SIZE"
    "core_base cores i \<le> unat a" "unat a + n \<le> core_base cores i + 5120"
  shows "region_free v a n"
  using core_base_bounds [OF assms(1,2)] assms
  by (cases "cores = 1") (auto simp: region_free_def)

lemma vm_create_stacks:
  assumes "vm_create h MEM_SIZE program data layout cores = Inr v" "1 \<le> cores" "cores \<le> 64" "i < smp_cores v"
  shows "unat (call_stack_base (cpus v i)) = core_base (nat cores) i"
    "unat (data_stack_base (cpus v i)) = core_base (nat cores) i + 2048"
    "unat (isr_stack_base (cpus v i)) = core_base (nat cores) i + 3072"
    "csp (cpus v i) = 256" "dsp (cpus v i) = 256" "isp (cpus v i) = 256"
proof -
  obtain tb data_b bss bss_n where
    sb: "segment_bases layout (length program) (length data) = (tb, data_b, bss, bss_n)"
    by (cases "segment_bases layout (length program) (length data)")
  from assms(1,2) sb obtain w base sz m where w: "v = vm_init_cores h base sz m tb w"
    "smp_cores w = nat cores"
    "stack_pool MEM_SIZE (nat cores) (image_end (tb, data_b, bss, bss_n) (length program) (length data))
      = Inr (base, sz)"
    by (rule vm_create_shape)
  let ?n = "nat cores"
  let ?b = "if ?n = 1 then 0x800 else base + of_nat (5120 * i) :: u32"
  have i: "i < ?n" "?n \<le> 64" "0 < ?n" using assms w(2) vm_init_cores_fields(1) [OF w(1)] by auto
  have cpu: "cpus v i = core_init ?b tb i" using vm_init_cores_fields(11) [OF w(1), of i] w(2) i by simp
  note bnd = core_base_bounds [OF i(1,2)]
  have base: "unat base = pool_base MEM_SIZE ?n" using stack_pool_base(1) [OF w(3)] i by simp
  have b: "unat ?b = core_base ?n i"
  proof (cases "?n = 1")
    case True
    then show ?thesis using bnd(2) by simp
  next
    case False
    have k: "unat (of_nat (5120 * i) :: u32) = 5120 * i" using i by (simp only: unat_of_nat) simp
    have "unat (base + of_nat (5120 * i)) = unat base + 5120 * i"
      using bnd(1) base k unat_plus_small [of base "of_nat (5120 * i)"] by (simp add: core_base_def)
    then show ?thesis using False base by (simp add: core_base_def)
  qed
  have "unat (?b + 2048) = unat ?b + 2048" "unat (?b + 3072) = unat ?b + 3072"
    using b bnd(1) unat_plus_small [of ?b 2048] unat_plus_small [of ?b 3072] by simp_all
  then show "unat (call_stack_base (cpus v i)) = core_base ?n i"
    "unat (data_stack_base (cpus v i)) = core_base ?n i + 2048"
    "unat (isr_stack_base (cpus v i)) = core_base ?n i + 3072"
    "csp (cpus v i) = 256" "dsp (cpus v i) = 256" "isp (cpus v i) = 256"
    unfolding cpu core_init_bases b by simp_all
qed

section \<open>The booted machine\<close>

lemma store64_ivt:
  assumes "unat i < 256"
  shows "store64 m (i * 8) (- 1) = (\<lambda>b. if unat b div 8 = unat i then 0xFF else m b)"
proof (rule ext)
  fix b :: u32
  have i8: "unat (i * 8) = unat i * 8" using assms by (simp add: unat_word_ariths)
  have at: "b = i * 8 + k \<longleftrightarrow> unat b = unat i * 8 + unat k" if "unat k < 8" for k
    using unat_plus_small [of "i * 8" k] i8 that assms by (simp add: word_unat_eq_iff)
  have at0: "b = i * 8 \<longleftrightarrow> unat b = unat i * 8" using i8 by (simp add: word_unat_eq_iff)
  have byte: "byte_of n (- 1 :: u64) = 0xFF" if "n < 8" for n
    using that by (auto intro!: bit_word_eqI simp: byte_of_def ff_mask bit_simps)
  have eight: "n div 8 = k \<longleftrightarrow> n = k * 8 \<or> n = k * 8 + 1 \<or> n = k * 8 + 2 \<or> n = k * 8 + 3 \<or> n = k * 8 + 4
      \<or> n = k * 8 + 5 \<or> n = k * 8 + 6 \<or> n = k * 8 + 7" for n k :: nat
    by linarith
  have st: "store64 m (i * 8) (- 1) b
      = (if b = i * 8 \<or> b = i * 8 + 1 \<or> b = i * 8 + 2 \<or> b = i * 8 + 3 \<or> b = i * 8 + 4
            \<or> b = i * 8 + 5 \<or> b = i * 8 + 6 \<or> b = i * 8 + 7 then 0xFF else m b)"
    by (simp add: store64_def byte)
  show "store64 m (i * 8) (- 1) b = (if unat b div 8 = unat i then 0xFF else m b)"
    unfolding st eight at0 using at [of 1] at [of 2] at [of 3] at [of 4] at [of 5] at [of 6] at [of 7] by simp
qed

lemma ivt_clear_memory:
  assumes "2048 \<le> memory_size v" "\<forall>i \<in> set is. unat i < 256"
  shows "ivt_clear is v
         = Inr (v\<lparr>memory := (\<lambda>b. if unat b div 8 \<in> unat ` set is then 0xFF else memory v b)\<rparr>)"
  using assms
proof (induction "is" arbitrary: v)
  case (Cons i "is")
  then have i: "unat i < 256" by simp
  then have "unat (i * 8) = unat i * 8" by (simp add: unat_word_ariths)
  then have "vm_write64 v (IVT_BASE + i * 8) (- 1) = Inr (v\<lparr>memory := store64 (memory v) (i * 8) (- 1)\<rparr>)"
    using Cons.prems(1) i by (simp add: vm_write64_def in_ram_def)
  then show ?case using Cons i by (auto simp: store64_ivt fun_eq_iff)
qed simp

lemma init_ivt_memory:
  assumes "2048 \<le> memory_size v"
  shows "init_ivt v = Inr (v\<lparr>memory := (\<lambda>b. if unat b < 2048 then 0xFF else memory v b),
           interrupt_bitmap := (\<lambda>k. if k < smp_cores v * 4 then 0 else interrupt_bitmap v k),
           cpus := (\<lambda>k. if k < smp_cores v then (cpus v k)\<lparr>in_interrupt := False\<rparr> else cpus v k)\<rparr>)"
proof -
  have "unat (of_nat i :: u32) = i" if "i < 256" for i using that by (simp only: unat_of_nat) simp
  then have all: "unat ` set (map (of_nat :: nat \<Rightarrow> u32) [0..<256]) = {0..<256}"
    "\<forall>i \<in> set (map (of_nat :: nat \<Rightarrow> u32) [0..<256]). unat i < 256"
    by (force simp: image_iff)+
  have "unat b div 8 \<in> {0..<256} \<longleftrightarrow> unat b < 2048" for b :: u32 by auto
  then show ?thesis
    unfolding init_ivt_def ivt_clear_memory [OF assms all(2)] all(1) by (simp cong: if_cong)
qed

lemma load_bytes_cong:
  assumes "a + n \<le> 2 ^ 32" "\<And>b. a \<le> unat b \<Longrightarrow> unat b < a + n \<Longrightarrow> m b = m' b"
  shows "load_bytes m a n = load_bytes m' a n"
proof -
  have "m (of_nat (a + i)) = m' (of_nat (a + i))" if "i < n" for i
  proof -
    have "unat (of_nat (a + i) :: u32) = a + i" using assms(1) that by (simp only: unat_of_nat) simp
    then show ?thesis using assms(2) that by simp
  qed
  then show ?thesis by (simp add: load_bytes_def)
qed

lemma load_segments_text:
  assumes "load_segments k program data tb db bss bn m0 = Inr m" "unat tb + length program \<le> 2 ^ 32"
    "unat db + length data \<le> unat tb \<or> unat tb + length program \<le> unat db"
    "unat bss + unat bn \<le> unat tb \<or> unat tb + length program \<le> unat bss"
  shows "load_bytes m (unat tb) (length program) = program"
proof -
  have "load_bytes m (unat tb) (length program)
      = load_bytes (store_bytes m0 (unat tb) program) (unat tb) (length program)"
  proof (rule load_bytes_cong [OF assms(2)])
    fix b :: u32
    assume "unat tb \<le> unat b" "unat b < unat tb + length program"
    then have "unat b < unat db \<or> unat db + length data \<le> unat b"
      "unat b < unat bss \<or> unat bss + length (replicate (unat bn) (0 :: u8)) \<le> unat b"
      using assms(3,4) by auto
    then show "m b = store_bytes m0 (unat tb) program b"
      using assms(1) by (auto simp: load_segments_def Let_def store_bytes_other split: if_splits)
  qed
  then show ?thesis using load_store_bytes [OF assms(2)] by simp
qed

lemma booted_wf:
  assumes "vm_create h MEM_SIZE program data layout cores = Inr u" "1 \<le> cores" "init_ivt (disk_init img u) = Inr v"
  shows "wf v" "smp_cores v = nat cores" "execution_times (cpus v i) = execution_times (cpus u i)"
proof -
  note wfu = vm_create_wf [OF assms(1,2)]
  have size: "memory_size (disk_init img u) = MEM_SIZE" "smp_cores (disk_init img u) = smp_cores u" "cpus (disk_init img u) = cpus u"
    using wfu(3) by (simp_all add: disk_init_def Let_def)
  note v = init_ivt_memory [of "disk_init img u", unfolded assms(3) size, simplified]
  have "disk_inv v" using disk_init_inv [of img u] by (simp add: v disk_inv_def)
  moreover have "bus_ok v" using wfu(1)
    by (auto simp: v wf_def bus_ok_def cache_ok_def disk_init_def Let_def split: option.splits)
  moreover have "serial_ok v" using wfu(1) by (simp add: v wf_def serial_ok_def disk_init_def Let_def)
  moreover have n: "smp_cores v = smp_cores u" by (simp add: v size)
  ultimately show "wf v" using wfu(1) by (simp add: wf_def core_wf_def v size)
  show "smp_cores v = nat cores" using n wfu(2) by simp
  show "execution_times (cpus v i) = execution_times (cpus u i)" by (simp add: v size)
qed

section \<open>Properties\<close>

text \<open>an image file written from a header, a program and a data segment is loaded as exactly those,
  whatever the addresses in the header; a program that is not a whole number of instructions is refused.\<close>

theorem image_round_trip:
  assumes "unat (text_size l) = length program" "unat (data_size l) = length data"
    and "\<And>n. malloc_ok h n"
  shows "load_program_single h (Some (write_image program data l))
         = (if length program mod 8 = 0 then Some (program, data, l) else None)"
proof (cases "length program mod 8 = 0")
  case False
  then have "text_size l mod 8 \<noteq> 0" using assms(1) by (simp add: word_unat_eq_iff unat_mod)
  moreover have "read_u32_le (drop 4 (take 24 (write_image program data l))) = text_size l"
    by (simp add: write_image_def)
  ultimately show ?thesis using False by (simp add: load_program_single_def Let_def)
qed (use load_write_image [OF assms(1,2)] assms(3) in simp)

theorem image_round_trip_witness:
  "let l = \<lparr>text_base = 0x201C, text_size = 8, data_base = 0x3000, data_size = 2, bss_base = 0x4000, bss_size = 16\<rparr> in
   load_program_single host_zero (Some (write_image [5, 0, 0, 0, 0, 0, 0, 5] [7, 9] l))
   = Some ([5, 0, 0, 0, 0, 0, 0, 5], [7, 9], l)"
  using image_round_trip [of "\<lparr>text_base = 0x201C, text_size = 8, data_base = 0x3000, data_size = 2,
      bss_base = 0x4000, bss_size = 16\<rparr>" "[5, 0, 0, 0, 0, 0, 0, 5]" "[7, 9]" host_zero]
  by (simp add: host_zero_def Let_def)

text \<open>a created machine satisfies the machine invariant, and the call, data and interrupt stacks of
  its cores are pairwise disjoint regions of plain RAM, all empty.\<close>

theorem created_machine_ok:
  assumes "vm_create h MEM_SIZE program data layout cores = Inr v" "1 \<le> cores" "cores \<le> 64"
  shows "wf v \<and> smp_cores v = nat cores
    \<and> (\<forall>i < smp_cores v.
          stack_ok v (call_stack_base (cpus v i)) (csp (cpus v i)) 8 \<and> csp (cpus v i) = 256
        \<and> stack_ok v (data_stack_base (cpus v i)) (dsp (cpus v i)) 4 \<and> dsp (cpus v i) = 256
        \<and> stack_ok v (isr_stack_base (cpus v i)) (isp (cpus v i)) 8 \<and> isp (cpus v i) = 256
        \<and> unat (data_stack_base (cpus v i)) = unat (call_stack_base (cpus v i)) + 2048
        \<and> unat (isr_stack_base (cpus v i)) = unat (data_stack_base (cpus v i)) + 1024
        \<and> (\<forall>j < smp_cores v. i < j \<longrightarrow>
              unat (isr_stack_base (cpus v i)) + 2048 \<le> unat (call_stack_base (cpus v j))))"
proof -
  note wf = vm_create_wf [OF assms(1,2)]
  have st: "stack_ok v (call_stack_base (cpus v i)) (csp (cpus v i)) 8"
    "stack_ok v (data_stack_base (cpus v i)) (dsp (cpus v i)) 4"
    "stack_ok v (isr_stack_base (cpus v i)) (isp (cpus v i)) 8" if i: "i < smp_cores v" for i
  proof -
    note b = vm_create_stacks [OF assms i]
    have free: "region_free v a k" if "core_base (nat cores) i \<le> unat a"
      "unat a + k \<le> core_base (nat cores) i + 5120" for a k
      using core_region [OF _ _ wf(4,3) that] i wf(2) assms(3) by simp
    show "stack_ok v (call_stack_base (cpus v i)) (csp (cpus v i)) 8"
      "stack_ok v (data_stack_base (cpus v i)) (dsp (cpus v i)) 4"
      "stack_ok v (isr_stack_base (cpus v i)) (isp (cpus v i)) 8"
      using b free wf(1) by (simp_all add: stack_ok_def wf_def)
  qed
  have "unat (isr_stack_base (cpus v i)) + 2048 \<le> unat (call_stack_base (cpus v j))"
    if "i < j" "i < smp_cores v" "j < smp_cores v" for i j
    using vm_create_stacks(3) [OF assms that(2)] vm_create_stacks(1) [OF assms that(3)] that(1)
    by (simp add: core_base_def)
  then show ?thesis using wf(1,2) st vm_create_stacks [OF assms] by simp
qed

theorem created_machine_ok_witness:
  "\<exists>v. vm_create host_zero MEM_SIZE [0, 0, 0, 0, 0, 0, 0, 5] [] None 2 = Inr v \<and> wf v \<and> smp_cores v = 2"
proof -
  let ?p = "[0, 0, 0, 0, 0, 0, 0, 5] :: u8 list"
  obtain w where w: "register_mmio (vm_zero\<lparr>smp_cores := 2, memory_size := MEM_SIZE,
      disk_size_bytes := of_nat DISK_SIZE\<rparr>) = Inr w" "smp_cores w = 2"
    using register_mmio_frame [of "vm_zero\<lparr>smp_cores := 2, memory_size := MEM_SIZE, disk_size_bytes := of_nat DISK_SIZE\<rparr>"]
    by auto
  then obtain v where v: "vm_create host_zero MEM_SIZE ?p [] None 2 = Inr v"
    by (simp add: vm_create_def segment_bases_def stack_pool_def load_segments_def image_end_def
        host_zero_def Let_def)
  from created_machine_ok [OF this] show ?thesis using v by simp
qed

text \<open>C31: after booting an image every core starts at the text base outside any interrupt, nothing is
  pending, all 256 vectors are the unset value, the machine invariant holds, and a text segment that lies
  above the vector table and apart from the other segments is in memory as it was in the file. A text
  segment below 0x800 is overwritten by the vectors.\<close>

theorem boot_machine_ok:
  assumes "boot h file img cores = Inr v" "load_program_single h file = Some (program, data, l)"
    and "1 \<le> cores"
  shows "wf v \<and> (\<forall>b. unat b < 2048 \<longrightarrow> memory v b = 0xFF)
    \<and> (\<forall>i < smp_cores v. ip (cpus v i) = text_base l \<and> \<not> in_interrupt (cpus v i) \<and> least_pending v i = None)
    \<and> (2048 \<le> unat (text_base l)
       \<and> (unat (data_base l) + length data \<le> unat (text_base l)
          \<or> unat (text_base l) + length program \<le> unat (data_base l))
       \<and> (unat (bss_base l) + unat (bss_size l) \<le> unat (text_base l)
          \<or> unat (text_base l) + length program \<le> unat (bss_base l))
       \<longrightarrow> load_bytes (memory v) (unat (text_base l)) (length program) = program)"
proof -
  from assms(1,2) obtain u where u: "vm_create h MEM_SIZE program data (Some l) cores = Inr u"
    and iv: "init_ivt (disk_init img u) = Inr v"
    by (auto simp: boot_def bind_res_eq_Inr)
  have sb: "segment_bases (Some l) (length program) (length data) = (text_base l, data_base l, bss_base l, bss_size l)"
    by (simp add: segment_bases_def Let_def)
  from u assms(3) sb obtain w base sz m where w: "u = vm_init_cores h base sz m (text_base l) w"
    "smp_cores w = nat cores"
    "load_segments MEM_SIZE program data (text_base l) (data_base l) (bss_base l) (bss_size l) (\<lambda>_. 0) = Inr m"
    "unat (text_base l) + length program \<le> MEM_SIZE"
    by (rule vm_create_shape)
  note f = vm_init_cores_fields [OF w(1)] and wfu = vm_create_wf [OF u assms(3)]
  have size: "memory_size (disk_init img u) = MEM_SIZE" "smp_cores (disk_init img u) = smp_cores u"
    "memory (disk_init img u) = m" "cpus (disk_init img u) = cpus u"
    using wfu(3) f(8) by (simp_all add: disk_init_def Let_def)
  note v = init_ivt_memory [of "disk_init img u", unfolded iv size, simplified]
  note wf = booted_wf [OF u assms(3) iv]
  have core: "ip (cpus v i) = text_base l \<and> \<not> in_interrupt (cpus v i) \<and> least_pending v i = None"
    if "i < smp_cores v" for i
  proof -
    have i: "i < smp_cores u" using that by (simp add: v size)
    have "\<not> pending v i n" if "n < 256" for n
    proof -
      have "i * 4 + n div 64 < smp_cores u * 4" using i that by linarith
      then show ?thesis by (simp add: pending_def v size)
    qed
    then have "least_pending v i = None" by (auto simp: least_pending_def find_None_iff)
    then show ?thesis using i f(1,11) by (simp add: v size core_init_def)
  qed
  have loaded: "load_bytes (memory v) (unat (text_base l)) (length program) = program"
    if "2048 \<le> unat (text_base l)"
      "unat (data_base l) + length data \<le> unat (text_base l) \<or> unat (text_base l) + length program \<le> unat (data_base l)"
      "unat (bss_base l) + unat (bss_size l) \<le> unat (text_base l) \<or> unat (text_base l) + length program \<le> unat (bss_base l)"
  proof -
    have "load_bytes (memory v) (unat (text_base l)) (length program) = load_bytes m (unat (text_base l)) (length program)"
      using w(4) that(1) by (intro load_bytes_cong) (auto simp: v)
    then show ?thesis using load_segments_text [OF w(3) _ that(2,3)] w(4) by simp
  qed
  show ?thesis using wf(1) core loaded by (auto simp: v)
qed

theorem boot_machine_ok_witness:
  "\<exists>v. boot host_zero (Some (write_image [0, 0, 0, 0, 0, 0, 0, 5] []
          \<lparr>text_base = 0x3000, text_size = 8, data_base = 0x4000, data_size = 0, bss_base = 0x5000, bss_size = 0\<rparr>))
        (Some []) 1 = Inr v
      \<and> wf v \<and> ip (cpus v 0) = 0x3000 \<and> load_bytes (memory v) 0x3000 8 = [0, 0, 0, 0, 0, 0, 0, 5]"
proof -
  let ?p = "[0, 0, 0, 0, 0, 0, 0, 5] :: u8 list"
  let ?l = "\<lparr>text_base = 0x3000, text_size = 8, data_base = 0x4000, data_size = 0, bss_base = 0x5000, bss_size = 0\<rparr>"
  let ?f = "Some (write_image ?p [] ?l)" and ?z = "vm_zero\<lparr>smp_cores := 1, memory_size := MEM_SIZE,
      disk_size_bytes := of_nat DISK_SIZE\<rparr>"
  have ld: "load_program_single host_zero ?f = Some (?p, [], ?l)"
    by (rule load_write_image) (simp_all add: host_zero_def)
  obtain w where "register_mmio ?z = Inr w" "smp_cores w = 1" using register_mmio_frame [of ?z] by auto
  then obtain u where u: "vm_create host_zero MEM_SIZE ?p [] (Some ?l) 1 = Inr u"
    by (simp add: vm_create_def segment_bases_def stack_pool_def load_segments_def image_end_def host_zero_def Let_def)
  then have sz: "memory_size (disk_init (Some []) u) = MEM_SIZE" "smp_cores (disk_init (Some []) u) = 1"
    using vm_create_wf [OF u] by (simp_all add: disk_init_def)
  then obtain v where v: "boot host_zero ?f (Some []) 1 = Inr v" "smp_cores v = 1"
    using init_ivt_memory [of "disk_init (Some []) u"] u by (simp add: boot_def ld)
  have len: "length ?p = 8" by simp
  show ?thesis using v boot_machine_ok [OF v(1) ld, unfolded len] by auto
qed

end
