(* ===== verification/Debugger.thy ===== *)
theory Debugger
  imports Exec
begin

text \<open>
  The debugger of the virtual machine (\<open>debug.c\<close>, in a build with \<open>VM_DEBUG\<close>): breakpoints, single steps and a
  command line on the standard input of the host, entered by core 0 before an instruction.

  Such a build also defines \<open>VM_MEMCHECK\<close>, so the 64-bit read of the debugger checks the alignment; \<open>vm_read64_checked\<close>
  is \<open>vm_read64\<close> with this check. What the debugger prints is the list of its messages, one constructor for each
  \<open>printf\<close>; the register dump has no effect on the machine. A C string is the list of its bytes before the
  final zero; the environment of the process is a parameter. \<open>strtoul\<close>, \<open>isspace\<close>, \<open>strcasecmp\<close> and \<open>fgets\<close> are those of
  the C library in its default locale, with 64-bit \<open>unsigned long\<close>.

  \<open>bounded_set\<close> is the contract of the breakpoint list: a set with a limit, which the unordered array provides.
\<close>

section \<open>A bounded set\<close>

locale bounded_set =
  fixes add :: "'a \<Rightarrow> 's \<Rightarrow> 's" and del :: "'a \<Rightarrow> 's \<Rightarrow> 's" and has :: "'s \<Rightarrow> 'a \<Rightarrow> bool"
    and elems :: "'s \<Rightarrow> 'a set" and ok :: "'s \<Rightarrow> bool" and cap :: nat
  assumes has_elems: "ok s \<Longrightarrow> has s x \<longleftrightarrow> x \<in> elems s"
    and add_room: "ok s \<Longrightarrow> card (elems s) < cap \<Longrightarrow> ok (add x s) \<and> elems (add x s) = insert x (elems s)"
    and add_full: "ok s \<Longrightarrow> card (elems s) = cap \<Longrightarrow> ok (add x s) \<and> elems (add x s) = elems s"
    and del_elems: "ok s \<Longrightarrow> ok (del x s) \<and> elems (del x s) = elems s - {x}"
    and elems_bound: "ok s \<Longrightarrow> finite (elems s) \<and> card (elems s) \<le> cap"
begin

text \<open>Whether an element is added, with the rest kept, in every case.\<close>

lemma add_elems: "ok s \<Longrightarrow> ok (add x s) \<and> elems (add x s) = (if card (elems s) < cap then insert x (elems s) else elems s)"
  using add_room [of s x] add_full [of s x] elems_bound [of s] by (cases "card (elems s) < cap") auto

text \<open>Additions that fit are all found afterwards, whatever their order.\<close>

lemma add_all:
  assumes "ok s" "card (elems s \<union> set xs) \<le> cap"
  shows "ok (fold add xs s) \<and> elems (fold add xs s) = elems s \<union> set xs"
  using assms
proof (induction xs arbitrary: s)
  case (Cons x xs)
  have f: "finite (elems s \<union> set (x # xs))" using elems_bound [OF Cons.prems(1)] by simp
  have "ok (add x s) \<and> elems (add x s) = insert x (elems s)"
  proof (cases "x \<in> elems s")
    case True
    then show ?thesis using add_elems [OF Cons.prems(1), of x] by (auto simp: insert_absorb)
  next
    case False
    then have "card (elems s) < card (elems s \<union> set (x # xs))" using f by (intro psubset_card_mono) auto
    then show ?thesis using add_room [OF Cons.prems(1), of x] Cons.prems(2) by simp
  qed
  then show ?case using Cons.IH [of "add x s"] Cons.prems(2) by simp
qed simp

end

section \<open>Breakpoints\<close>

abbreviation (input) VM_DEBUG_MAX_BREAKPOINTS :: nat where "VM_DEBUG_MAX_BREAKPOINTS \<equiv> 256"

record vm_debug =
  instr_counts :: "u8 \<Rightarrow> u64"
  breakpoints :: "nat \<Rightarrow> u32"
  breakpoint_count :: nat
  step_mode :: bool
  pause_on_start :: bool

definition op_name :: "u8 \<Rightarrow> string" where
  "op_name op =
     (case map_of
     [(OP_ADD, ''ADD''), (OP_SUB, ''SUB''), (OP_MUL, ''MUL''), (OP_DIV, ''DIV''), (OP_HALT, ''HALT''),
      (OP_JMP, ''JMP''), (OP_JZ, ''JZ''), (OP_PUSH, ''PUSH''), (OP_POP, ''POP''), (OP_CALL, ''CALL''),
      (OP_RET, ''RET''), (OP_LOAD, ''LOAD''), (OP_LOAD32, ''LOAD32''), (OP_LOADX32, ''LOADX32''), (OP_STORE, ''STORE''),
      (OP_STORE32, ''STORE32''), (OP_STOREX32, ''STOREX32''), (OP_CMP, ''CMP''), (OP_CMPI, ''CMPI''), (OP_MOV, ''MOV''),
      (OP_MOVI, ''MOVI''), (OP_MEMSET, ''MEMSET''), (OP_MEMCPY, ''MEMCPY''), (OP_IN, ''IN''), (OP_OUT, ''OUT''),
      (OP_INT, ''INT''), (OP_IRET, ''IRET''), (OP_MOD, ''MOD''), (OP_AND, ''AND''), (OP_OR, ''OR''),
      (OP_XOR, ''XOR''), (OP_NOT, ''NOT''), (OP_SHL, ''SHL''), (OP_SHR, ''SHR''), (OP_SAR, ''SAR''),
      (OP_JNZ, ''JNZ''), (OP_JG, ''JG''), (OP_JGE, ''JGE''), (OP_JL, ''JL''), (OP_JLE, ''JLE''),
      (OP_JC, ''JC''), (OP_JNC, ''JNC''), (OP_FADD, ''FADD''), (OP_FSUB, ''FSUB''), (OP_FMUL, ''FMUL''),
      (OP_FDIV, ''FDIV''), (OP_FNEG, ''FNEG''), (OP_FABS, ''FABS''), (OP_FSQRT, ''FSQRT''), (OP_FCMP, ''FCMP''),
      (OP_ITOF, ''ITOF''), (OP_FTOI, ''FTOI''), (OP_FLOAD32, ''FLOAD32''), (OP_FSTORE32, ''FSTORE32''), (OP_INC, ''INC''),
      (OP_CAS, ''CAS''), (OP_XADD, ''XADD''), (OP_XCHG, ''XCHG''), (OP_LDAR, ''LDAR''), (OP_STLR, ''STLR''),
      (OP_FENCE, ''FENCE''), (OP_PAUSE, ''PAUSE''), (OP_STARTAP, ''STARTAP''), (OP_IPI, ''IPI''), (OP_CPUID, ''CPUID''),
      (OP_CALLR, ''CALLR''), (OP_RJMP, ''RJMP''), (OP_RCALL, ''RCALL''), (OP_RJZ, ''RJZ''), (OP_RJNZ, ''RJNZ'')] op of Some nm \<Rightarrow> nm | None \<Rightarrow> ''UNKNOWN'')"

definition breakpoint_index :: "u32 \<Rightarrow> vm_debug \<Rightarrow> nat option" where
  "breakpoint_index addr d = List.find (\<lambda>i. breakpoints d i = addr) [0..<breakpoint_count d]"

text \<open>The second component says that the message about the full list is printed.\<close>

definition add_breakpoint :: "u32 \<Rightarrow> vm_debug \<Rightarrow> vm_debug \<times> bool" where
  "add_breakpoint addr d =
     (case breakpoint_index addr d of
        Some _ \<Rightarrow> (d, False)
      | None \<Rightarrow>
          if VM_DEBUG_MAX_BREAKPOINTS \<le> breakpoint_count d then (d, True)
          else (d\<lparr>breakpoints := (breakpoints d)(breakpoint_count d := addr), breakpoint_count := breakpoint_count d + 1\<rparr>, False))"

definition remove_breakpoint :: "u32 \<Rightarrow> vm_debug \<Rightarrow> vm_debug" where
  "remove_breakpoint addr d =
     (case breakpoint_index addr d of
        Some i \<Rightarrow> d\<lparr>breakpoints := (breakpoints d)(i := breakpoints d (breakpoint_count d - 1)), breakpoint_count := breakpoint_count d - 1\<rparr>
      | None \<Rightarrow> d)"

definition has_breakpoint :: "vm_debug \<Rightarrow> u32 \<Rightarrow> bool" where
  "has_breakpoint d addr \<longleftrightarrow> breakpoint_index addr d \<noteq> None"

definition bp_list :: "vm_debug \<Rightarrow> u32 list" where
  "bp_list d = List.map (breakpoints d) [0..<breakpoint_count d]"

definition bp_ok :: "vm_debug \<Rightarrow> bool" where
  "bp_ok d \<longleftrightarrow> distinct (bp_list d) \<and> breakpoint_count d \<le> VM_DEBUG_MAX_BREAKPOINTS"

lemma index_None: "breakpoint_index a d = None \<longleftrightarrow> a \<notin> set (bp_list d)"
  by (auto simp: breakpoint_index_def bp_list_def find_None_iff)

lemma index_Some: "breakpoint_index a d = Some i \<Longrightarrow> i < breakpoint_count d \<and> breakpoints d i = a"
  by (auto simp: breakpoint_index_def find_Some_iff)

lemma bp_list_length [simp]: "length (bp_list d) = breakpoint_count d"
  by (simp add: bp_list_def)

lemma add_list:
  "bp_list (fst (add_breakpoint a d))
   = (if a \<in> set (bp_list d) \<or> 256 \<le> breakpoint_count d then bp_list d else bp_list d @ [a])"
  using index_None [of a d] by (auto simp: add_breakpoint_def bp_list_def split: option.split)

lemma swap_remove:
  assumes "distinct (xs @ [z])" "i \<le> length xs"
  shows "distinct (xs[i := z]) \<and> set (xs[i := z]) = set (xs @ [z]) - {(xs @ [z]) ! i}"
proof (cases "i < length xs")
  case True
  obtain us x ws where "xs = us @ x # ws" "length us = i" using id_take_nth_drop [OF True] True by fastforce
  then show ?thesis using assms(1) by (auto simp: list_update_append nth_append)
next
  case False
  then have "xs[i := z] = xs" "i = length xs" using assms(2) by (simp_all add: list_update_beyond)
  then show ?thesis using assms(1) by auto
qed

lemma remove_list:
  assumes "distinct (bp_list d)"
  shows "distinct (bp_list (remove_breakpoint a d)) \<and> set (bp_list (remove_breakpoint a d)) = set (bp_list d) - {a}
         \<and> breakpoint_count (remove_breakpoint a d) \<le> breakpoint_count d"
proof (cases "breakpoint_index a d")
  case None
  then show ?thesis using assms index_None [of a d] by (simp add: remove_breakpoint_def)
next
  case (Some i)
  obtain n where n: "breakpoint_count d = Suc n" "i < Suc n" using index_Some [OF Some] by (cases "breakpoint_count d") auto
  let ?xs = "List.map (breakpoints d) [0..<n]"
  have l: "bp_list d = ?xs @ [breakpoints d n]" by (simp add: bp_list_def n(1))
  have "bp_list (remove_breakpoint a d) = ?xs[i := breakpoints d n]"
    by (intro nth_equalityI) (auto simp: remove_breakpoint_def Some bp_list_def nth_list_update n(1))
  moreover have "(?xs @ [breakpoints d n]) ! i = a"
    using index_Some [OF Some] n(2) by (auto simp: nth_append less_Suc_eq)
  ultimately show ?thesis
    using swap_remove [of ?xs "breakpoints d n" i] assms n unfolding l by (simp add: remove_breakpoint_def Some)
qed

interpretation bps: bounded_set "\<lambda>a d. fst (add_breakpoint a d)" remove_breakpoint has_breakpoint "\<lambda>d. set (bp_list d)" bp_ok 256
proof
  fix d a assume ok: "bp_ok d"
  have c: "card (set (bp_list d)) = breakpoint_count d" using ok by (simp add: bp_ok_def distinct_card)
  have n: "breakpoint_count (fst (add_breakpoint a d)) = length (bp_list (fst (add_breakpoint a d)))" by simp
  show "has_breakpoint d a \<longleftrightarrow> a \<in> set (bp_list d)" using index_None [of a d] by (simp add: has_breakpoint_def)
  show "finite (set (bp_list d)) \<and> card (set (bp_list d)) \<le> 256" using ok c by (simp add: bp_ok_def)
  show "bp_ok (remove_breakpoint a d) \<and> set (bp_list (remove_breakpoint a d)) = set (bp_list d) - {a}"
    using remove_list [of d a] ok by (auto simp: bp_ok_def)
  show "bp_ok (fst (add_breakpoint a d)) \<and> set (bp_list (fst (add_breakpoint a d))) = insert a (set (bp_list d))"
    if "card (set (bp_list d)) < 256" using ok that c n by (auto simp: bp_ok_def add_list)
  show "bp_ok (fst (add_breakpoint a d)) \<and> set (bp_list (fst (add_breakpoint a d))) = set (bp_list d)"
    if "card (set (bp_list d)) = 256" using ok that c n by (auto simp: bp_ok_def add_list)
qed

section \<open>Numbers and words\<close>

definition isspace :: "u8 \<Rightarrow> bool" where
  "isspace c \<longleftrightarrow> c = 32 \<or> 9 \<le> c \<and> c \<le> 13"

definition digit_val :: "nat \<Rightarrow> u8 \<Rightarrow> nat option" where
  "digit_val base c =
     (let k = (if 48 \<le> c \<and> c \<le> 57 then unat c - 48
               else if 97 \<le> c \<and> c \<le> 122 then unat c - 87
               else if 65 \<le> c \<and> c \<le> 90 then unat c - 55
               else 36) in
      if k < base then Some k else None)"

fun scan_digits :: "nat \<Rightarrow> nat \<Rightarrow> u8 list \<Rightarrow> nat \<times> u8 list" where
  "scan_digits base acc [] = (acc, [])"
| "scan_digits base acc (c # cs) =
     (case digit_val base c of Some k \<Rightarrow> scan_digits base (acc * base + k) cs | None \<Rightarrow> (acc, c # cs))"

definition strtoul_base :: "u8 list \<Rightarrow> nat \<times> u8 list" where
  "strtoul_base cs =
     (case cs of
        z # x # c # _ \<Rightarrow>
          if z = 48 \<and> (x = 120 \<or> x = 88) \<and> digit_val 16 c \<noteq> None then (16, drop 2 cs)
          else if z = 48 then (8, cs) else (10, cs)
      | z # _ \<Rightarrow> if z = 48 then (8, cs) else (10, cs)
      | [] \<Rightarrow> (10, cs))"

text \<open>\<open>strtoul (s, &end, 0)\<close>: the value and the rest, \<open>None\<close> when there is no number.\<close>

definition strtoul :: "u8 list \<Rightarrow> (u64 \<times> u8 list) option" where
  "strtoul s =
     (let s = dropWhile isspace s;
          neg = (s \<noteq> [] \<and> hd s = 45);
          s = (if s \<noteq> [] \<and> (hd s = 45 \<or> hd s = 43) then tl s else s);
          (base, s) = strtoul_base s in
      if s = [] \<or> digit_val base (hd s) = None then None
      else (case scan_digits base 0 s of (n, rest) \<Rightarrow>
        if 2 ^ 64 \<le> n then Some (- 1, rest) else Some (if neg then - of_nat n else of_nat n, rest)))"

definition parse_u32 :: "u8 list \<Rightarrow> u32 option" where
  "parse_u32 s =
     (case strtoul s of None \<Rightarrow> None
      | Some (v, rest) \<Rightarrow>
          let rest = dropWhile isspace rest in
          if rest \<noteq> [] \<and> hd rest \<noteq> 44 \<and> hd rest \<noteq> 59 then None else Some (ucast v))"

definition parse_command_line :: "u8 list \<Rightarrow> (u8 list \<times> u8 list option \<times> u8 list option) option" where
  "parse_command_line line =
     (let word = takeWhile (\<lambda>c. \<not> isspace c); next = (\<lambda>p. dropWhile isspace (dropWhile (\<lambda>c. \<not> isspace c) p));
          p = dropWhile isspace line in
      if p = [] then None
      else
        let cmd = word p; p = next p in
        if p = [] then Some (cmd, None, None)
        else
          let arg1 = word p; p = next p in
          Some (cmd, Some arg1, if p = [] then None else Some (word p)))"

text \<open>\<open>fgets\<close> with a buffer of \<open>n\<close> bytes, on the bytes that the standard input still delivers.\<close>

definition fgets :: "nat \<Rightarrow> u8 list \<Rightarrow> (u8 list \<times> u8 list) option" where
  "fgets n inp =
     (if inp = [] then None
      else
        let k = length (takeWhile (\<lambda>c. c \<noteq> 10) (take (n - 1) inp)) in
        Some (take (min (k + 1) (n - 1)) inp, drop (min (k + 1) (n - 1)) inp))"

definition parse_bool_env :: "u8 list option \<Rightarrow> bool" where
  "parse_bool_env v =
     (let lower = List.map (\<lambda>c. if 65 \<le> c \<and> c \<le> 90 then c + 32 else c) in
      case v of None \<Rightarrow> False
      | Some s \<Rightarrow> s = [49] \<or> lower s = List.map of_char ''true'' \<or> lower s = List.map of_char ''yes'')"

definition is_separator :: "u8 \<Rightarrow> bool" where
  "is_separator c \<longleftrightarrow> isspace c \<or> c = 44 \<or> c = 59"

function breakpoints_loop :: "u8 list \<Rightarrow> vm_debug \<Rightarrow> vm_debug" where
  "breakpoints_loop p d =
     (let p = dropWhile is_separator p in
      if p = [] then d
      else
        let buf = take 63 (takeWhile (\<lambda>c. \<not> is_separator c) p) in
        breakpoints_loop (dropWhile (\<lambda>c. \<not> is_separator c) p)
          (case parse_u32 buf of Some addr \<Rightarrow> fst (add_breakpoint addr d) | None \<Rightarrow> d))"
  by auto

termination
proof (relation "measure (\<lambda>(p, d). length p)")
  fix p :: "u8 list" and x d buf assume x: "x = dropWhile is_separator p" "x \<noteq> []"
  then have "\<not> is_separator (hd x)" using hd_dropWhile by blast
  then have "length (dropWhile (\<lambda>c. \<not> is_separator c) x) < length x"
    using x(2) by (cases x) (auto intro: le_imp_less_Suc length_dropWhile_le)
  then show "((dropWhile (\<lambda>c. \<not> is_separator c) x, case parse_u32 buf of None \<Rightarrow> d | Some addr \<Rightarrow> fst (add_breakpoint addr d)), p, d)
      \<in> measure (\<lambda>(p, d). length p)" using x(1) length_dropWhile_le [of is_separator p] by simp
qed simp

definition load_breakpoints_from_env :: "u8 list option \<Rightarrow> vm_debug \<Rightarrow> vm_debug" where
  "load_breakpoints_from_env v d = (case v of None \<Rightarrow> d | Some s \<Rightarrow> if s = [] then d else breakpoints_loop s d)"

section \<open>The command line\<close>

datatype debug_msg =
    M_pause u32 string u8 u8 u8 u32
  | M_help
  | M_registers
  | M_usage_m
  | M_invalid_range
  | M_bytes u32 "u8 list"
  | M_usage_b
  | M_usage_d
  | M_invalid_address
  | M_full
  | M_set u32
  | M_removed u32
  | M_list "u32 list"
  | M_stats u64 "(string \<times> u8 \<times> u64) list"

record session =
  attached :: bool
  dbg :: vm_debug
  dvm :: vm
  input :: "u8 list"
  msgs :: "debug_msg list"

definition say :: "debug_msg \<Rightarrow> session \<Rightarrow> session" where
  "say m s = s\<lparr>msgs := msgs s @ [m]\<rparr>"

definition memcheck_align :: "u32 \<Rightarrow> u32 \<Rightarrow> string \<Rightarrow> vm \<Rightarrow> vm_error + vm" where
  "memcheck_align addr align op v = (if addr mod align \<noteq> 0 then Inl (Panic_unaligned op addr) else Inr v)"

definition vm_read64_checked :: "host \<Rightarrow> vm \<Rightarrow> u32 \<Rightarrow> vm_error + u64 \<times> vm" where
  "vm_read64_checked h v a = bind_res (memcheck_align a 8 ''READ64'' v) (\<lambda>v. vm_read64 h v a)"

definition decode_at :: "host \<Rightarrow> u32 \<Rightarrow> vm \<Rightarrow> vm_error + inst \<times> vm" where
  "decode_at h a v =
     (if memory_size v < unat (a + 8) then Inr (\<lparr>i_op = 0, i_rd = 0, i_rs1 = 0, i_rs2 = 0, i_imm = 0\<rparr>, v)
      else bind_res (vm_read64_checked h v a) (\<lambda>(x, v). Inr (decode x, v)))"

primrec dump_bytes :: "vm \<Rightarrow> u32 \<Rightarrow> nat \<Rightarrow> vm_error + u8 list" where
  "dump_bytes v a 0 = Inr []"
| "dump_bytes v a (Suc n) = bind_res (vm_read8 v a) (\<lambda>b. bind_res (dump_bytes v (a + 1) n) (\<lambda>bs. Inr (b # bs)))"

text \<open>One line; the first component says whether the pause ends.\<close>

definition debug_command :: "u8 list \<Rightarrow> session \<Rightarrow> vm_error + bool \<times> session" where
  "debug_command line s =
     (let resume = (\<lambda>st. Inr (True, s\<lparr>dbg := (dbg s)\<lparr>step_mode := st\<rparr>\<rparr>)); stay = (\<lambda>s. Inr (False, s)) in
      case parse_command_line line of
        None \<Rightarrow> resume True
      | Some (cmd, arg1, arg2) \<Rightarrow>
          if cmd = [115] then resume True
          else if cmd = [99] then resume False
          else if cmd = [114] then stay (say M_registers s)
          else if cmd = [109] then
            (case (arg1, arg2) of
               (Some a, Some l) \<Rightarrow>
                 (case (parse_u32 a, parse_u32 l) of
                    (Some addr, Some len) \<Rightarrow> bind_res (dump_bytes (dvm s) addr (unat len)) (\<lambda>bs. stay (say (M_bytes addr bs) s))
                  | _ \<Rightarrow> stay (say M_invalid_range s))
             | _ \<Rightarrow> stay (say M_usage_m s))
          else if cmd = [98] then
            (case arg1 of None \<Rightarrow> stay (say M_usage_b s)
             | Some a \<Rightarrow>
                 (case parse_u32 a of None \<Rightarrow> stay (say M_invalid_address s)
                  | Some addr \<Rightarrow>
                      (case add_breakpoint addr (dbg s) of (d, full) \<Rightarrow>
                         let s = s\<lparr>dbg := d\<rparr>; s = (if full then say M_full s else s) in stay (say (M_set addr) s))))
          else if cmd = [100] then
            (case arg1 of None \<Rightarrow> stay (say M_usage_d s)
             | Some a \<Rightarrow>
                 (case parse_u32 a of None \<Rightarrow> stay (say M_invalid_address s)
                  | Some addr \<Rightarrow> stay (say (M_removed addr) (s\<lparr>dbg := remove_breakpoint addr (dbg s)\<rparr>))))
          else if cmd = [108] then stay (say (M_list (bp_list (dbg s))) s)
          else if cmd = [113] then Inr (True, s\<lparr>dvm := (dvm s)\<lparr>halted := True\<rparr>\<rparr>)
          else stay (say M_help s))"

lemma fgets_shorter: "fgets 256 inp = Some (line, rest) \<Longrightarrow> length rest < length inp"
  by (auto simp: fgets_def Let_def split: if_splits)

function command_loop :: "u8 list \<Rightarrow> session \<Rightarrow> vm_error + session" where
  "command_loop inp s =
     (case fgets 256 inp of
        None \<Rightarrow> Inr (s\<lparr>input := inp\<rparr>)
      | Some (line, rest) \<Rightarrow>
          bind_res (debug_command (takeWhile (\<lambda>c. c \<noteq> 0) line) s) (\<lambda>(ret, s).
            if ret then Inr (s\<lparr>input := rest\<rparr>) else command_loop rest s))"
  by auto

termination
  by (relation "measure (\<lambda>(inp, s). length inp)") (auto dest: fgets_shorter)

definition interactive_wait :: "host \<Rightarrow> nat \<Rightarrow> session \<Rightarrow> vm_error + session" where
  "interactive_wait h c s =
     (let a = ip (cpus (dvm s) c) in
      bind_res (decode_at h a (dvm s)) (\<lambda>(i, v).
        let s = s\<lparr>dvm := v\<rparr>;
            s = say (M_pause a (op_name (i_op i)) (i_rd i) (i_rs1 i) (i_rs2 i) (i_imm i)) s;
            s = say M_help s in
        command_loop (input s) s))"

section \<open>Entry points\<close>

definition vm_debug_init :: "bool \<Rightarrow> (string \<Rightarrow> u8 list option) \<Rightarrow> session \<Rightarrow> vm_error + session" where
  "vm_debug_init calloc_ok env s =
     (if \<not> calloc_ok then Inl (Panic_create ''debug alloc failed'')
      else
        let d = \<lparr>instr_counts = \<lambda>_. 0, breakpoints = \<lambda>_. 0, breakpoint_count = 0,
                 step_mode = parse_bool_env (env ''VM_DEBUG_STEP'') \<or> parse_bool_env (env ''VM_STEP''),
                 pause_on_start = parse_bool_env (env ''VM_DEBUG_PAUSE'')\<rparr> in
        Inr (s\<lparr>attached := True, dbg := load_breakpoints_from_env (env ''VM_BREAKPOINTS'') d\<rparr>))"

definition vm_debug_destroy :: "session \<Rightarrow> session" where
  "vm_debug_destroy s = (if \<not> attached s then s else s\<lparr>attached := False\<rparr>)"

definition vm_debug_pause_if_needed :: "host \<Rightarrow> nat \<Rightarrow> u32 \<Rightarrow> session \<Rightarrow> vm_error + session" where
  "vm_debug_pause_if_needed h c a s =
     (if \<not> attached s then Inr s
      else if pause_on_start (dbg s) then interactive_wait h c (s\<lparr>dbg := (dbg s)\<lparr>pause_on_start := False\<rparr>\<rparr>)
      else if step_mode (dbg s) \<or> has_breakpoint (dbg s) a then interactive_wait h c s
      else Inr s)"

definition vm_debug_count_instruction :: "u8 \<Rightarrow> session \<Rightarrow> session" where
  "vm_debug_count_instruction op s =
     (if \<not> attached s then s
      else s\<lparr>dbg := (dbg s)\<lparr>instr_counts := (instr_counts (dbg s))(op := instr_counts (dbg s) op + 1)\<rparr>\<rparr>)"

definition vm_debug_print_stats :: "session \<Rightarrow> session" where
  "vm_debug_print_stats s =
     (if \<not> attached s then s
      else
        let ops = List.map of_nat [0..<256]; n = instr_counts (dbg s) in
        say (M_stats (sum_list (List.map n ops)) (List.map (\<lambda>op. (op_name op, op, n op)) (filter (\<lambda>op. n op \<noteq> 0) ops))) s)"

declare breakpoints_loop.simps [simp del] command_loop.simps [simp del]

section \<open>Numbers as they are printed\<close>

text \<open>\<open>"0x%08x"\<close>, the format in which the debugger shows addresses.\<close>

definition hex_char :: "nat \<Rightarrow> u8" where
  "hex_char k = of_nat (if k < 10 then 48 + k else 87 + k)"

definition hex8 :: "u32 \<Rightarrow> u8 list" where
  "hex8 w = [48, 120] @ List.map (\<lambda>k. hex_char (unat w div 2 ^ k mod 16)) [28, 24, 20, 16, 12, 8, 4, 0]"

text \<open>A hexadecimal digit in either case, and an address in C notation with at most eight of them.\<close>

definition hex_spelled :: "nat \<Rightarrow> u8 \<Rightarrow> bool" where
  "hex_spelled k c \<longleftrightarrow> k < 16 \<and> (c = hex_char k \<or> c = of_nat (if k < 10 then 48 + k else 55 + k))"

definition addr_text :: "u8 list \<Rightarrow> u32 \<Rightarrow> bool" where
  "addr_text t w \<longleftrightarrow>
     (\<exists>ks ds. t = [48, 120] @ ds \<and> list_all2 hex_spelled ks ds \<and> ks \<noteq> [] \<and> length ks \<le> 8 \<and> w = of_nat (hex_value ks))"

lemma hex_spelled_digit:
  assumes "hex_spelled k c"
  shows "digit_val 16 c = Some k" "\<not> is_separator c"
proof -
  have "k < 16" using assms by (simp add: hex_spelled_def)
  then have "k = 0 \<or> k = 1 \<or> k = 2 \<or> k = 3 \<or> k = 4 \<or> k = 5 \<or> k = 6 \<or> k = 7 \<or> k = 8 \<or> k = 9 \<or> k = 10 \<or> k = 11
      \<or> k = 12 \<or> k = 13 \<or> k = 14 \<or> k = 15" by presburger
  then show "digit_val 16 c = Some k" "\<not> is_separator c"
    using assms by (elim disjE; auto simp: hex_spelled_def hex_char_def digit_val_def is_separator_def isspace_def)+
qed

lemma hex_char_digit:
  assumes "k < 16"
  shows "digit_val 16 (hex_char k) = Some k" "\<not> is_separator (hex_char k)"
  using hex_spelled_digit [of k "hex_char k"] assms by (simp_all add: hex_spelled_def)

lemma scan_spelled:
  "list_all2 hex_spelled ks ds \<Longrightarrow> scan_digits 16 acc ds = (foldl (\<lambda>a d. 16 * a + d) acc ks, [])"
  by (induction arbitrary: acc rule: list_all2_induct) (simp_all add: hex_spelled_digit mult.commute)

lemma scan_hex:
  assumes "\<forall>k\<in>set ks. k < 16"
  shows "scan_digits 16 acc (List.map hex_char ks) = (foldl (\<lambda>a d. 16 * a + d) acc ks, [])"
  by (rule scan_spelled) (use assms in \<open>simp add: list.rel_map hex_spelled_def list.rel_refl_strong\<close>)

lemma strtoul_hex:
  assumes "list_all2 hex_spelled ks ds" "ks \<noteq> []" "hex_value ks < 2 ^ 64"
  shows "strtoul ([48, 120] @ ds) = Some (of_nat (hex_value ks), [])"
proof -
  obtain k ms c cs where k: "ks = k # ms" "ds = c # cs" "hex_spelled k c" using assms(1,2) by (cases ks; cases ds) auto
  have d: "digit_val 16 c = Some k" using hex_spelled_digit(1) [OF k(3)] .
  have sp: "dropWhile isspace (48 # cs) = 48 # cs" for cs by (simp add: isspace_def)
  have "strtoul_base ([48, 120] @ ds) = (16, ds)" by (simp add: strtoul_base_def k d)
  then show ?thesis
    using scan_spelled [OF assms(1), of 0] assms(3) d unfolding strtoul_def append.simps sp Let_def by (simp add: k hex_value_def)
qed

lemma hex_value_bound: "\<forall>k\<in>set ks. k < 16 \<Longrightarrow> hex_value ks < 16 ^ length ks"
  unfolding hex_value_def by (induction ks rule: rev_induct) auto

lemma addr_text_parses:
  assumes "addr_text t w"
  shows "parse_u32 t = Some w" "list_all (\<lambda>c. \<not> is_separator c) t" "t \<noteq> []" "length t \<le> 10"
proof -
  obtain ks ds where t: "t = [48, 120] @ ds" "list_all2 hex_spelled ks ds" "ks \<noteq> []" "length ks \<le> 8" "w = of_nat (hex_value ks)"
    using assms unfolding addr_text_def by blast
  have "\<forall>k\<in>set ks. k < 16" "\<forall>c\<in>set ds. \<not> is_separator c"
    using t(2) hex_spelled_digit(2) by (auto simp: list_all2_conv_all_nth in_set_conv_nth hex_spelled_def) (metis in_set_conv_nth list_all2_conv_all_nth t(2))+
  moreover have "ucast (of_nat n :: u64) = (of_nat n :: u32)" for n by (rule bit_word_eqI) (simp add: bit_simps)
  moreover from calculation(1) have "hex_value ks < 2 ^ 64"
    using hex_value_bound [of ks] power_increasing [OF t(4), of "16 :: nat"] by simp
  ultimately show "parse_u32 t = Some w" "list_all (\<lambda>c. \<not> is_separator c) t" "t \<noteq> []" "length t \<le> 10"
    using strtoul_hex [OF t(2,3)] list_all2_lengthD [OF t(2)] t(4)
    by (simp_all add: t(1,5) parse_u32_def list_all_iff is_separator_def isspace_def)
qed

lemma hex8_length: "length (hex8 w) = 10"
  by (simp add: hex8_def)

lemma hex8_text: "addr_text (hex8 w) w"
proof -
  define ks where "ks = List.map (\<lambda>k. unat w div 2 ^ k mod 16) [28, 24, 20, 16, 12, 8, 4, 0]"
  have v: "unat w < 4294967296" using unsigned_less [of w, where ?'a = nat] by simp
  have "hex_value ks = unat w" unfolding ks_def by (rule hex_value_digits [OF v])
  moreover have "list_all2 hex_spelled ks (List.map hex_char ks)" by (simp add: ks_def hex_spelled_def)
  moreover have "hex8 w = [48, 120] @ List.map hex_char ks" unfolding hex8_def ks_def by simp
  ultimately show ?thesis unfolding addr_text_def by (intro exI [of _ ks] exI [of _ "List.map hex_char ks"]) (simp add: ks_def)
qed

text \<open>A list of addresses, each followed by separators: at least one, but possibly none at the end.\<close>

lemma loop_token:
  assumes "addr_text t w" "list_all is_separator sep" "sep \<noteq> [] \<or> r = []"
  shows "breakpoints_loop (t @ sep @ r) d = breakpoints_loop r (fst (add_breakpoint w d))"
proof -
  have ns: "\<forall>c\<in>set t. \<not> is_separator c" using addr_text_parses(2) [OF assms(1)] by (simp add: list_all_iff)
  have ss: "\<forall>c\<in>set sep. is_separator c" using assms(2) by (simp add: list_all_iff)
  have t: "t \<noteq> []" "take 63 t = t" using addr_text_parses(3,4) [OF assms(1)] by simp_all
  have "dropWhile is_separator (t @ sep @ r) = t @ sep @ r" using ns t(1) by (cases t) simp_all
  moreover have "takeWhile (\<lambda>c. \<not> is_separator c) (t @ sep @ r) = t" "dropWhile (\<lambda>c. \<not> is_separator c) (t @ sep @ r) = sep @ r"
    using ns ss assms(3) by (cases sep; simp add: takeWhile_append dropWhile_append)+
  ultimately have "breakpoints_loop (t @ sep @ r) d = breakpoints_loop (sep @ r) (fst (add_breakpoint w d))"
    using t by (subst breakpoints_loop.simps) (simp add: addr_text_parses(1) [OF assms(1)])
  also have "dropWhile is_separator (sep @ r) = dropWhile is_separator r" using ss by (induction sep) simp_all
  then have "breakpoints_loop (sep @ r) (fst (add_breakpoint w d)) = breakpoints_loop r (fst (add_breakpoint w d))"
    by (simp add: breakpoints_loop.simps [of "sep @ r"] breakpoints_loop.simps [of r])
  finally show ?thesis .
qed

lemma env_loop:
  assumes "list_all2 addr_text (List.map fst xs) ws" "\<forall>x\<in>set xs. list_all is_separator (snd x)" "\<forall>x\<in>set (butlast xs). snd x \<noteq> []"
  shows "breakpoints_loop (concat (List.map (\<lambda>x. fst x @ snd x) xs)) d = fold (\<lambda>a d. fst (add_breakpoint a d)) ws d"
  using assms
proof (induction xs arbitrary: ws d)
  case Nil
  then show ?case by (subst breakpoints_loop.simps) simp
next
  case (Cons x xs)
  obtain w us where w: "ws = w # us" "addr_text (fst x) w" "list_all2 addr_text (List.map fst xs) us" using Cons.prems(1) by (cases ws) auto
  let ?r = "concat (List.map (\<lambda>x. fst x @ snd x) xs)"
  have "snd x \<noteq> [] \<or> ?r = []" using Cons.prems(3) by (cases xs) auto
  then have "breakpoints_loop (fst x @ snd x @ ?r) d = breakpoints_loop ?r (fst (add_breakpoint w d))"
    using loop_token [OF w(2)] Cons.prems(2) by simp
  moreover have "\<forall>x\<in>set (butlast xs). snd x \<noteq> []" using Cons.prems(3) by (cases xs) auto
  ultimately show ?case using Cons.IH [OF w(3)] Cons.prems(2) by (simp add: w(1))
qed

section \<open>What commands do\<close>

text \<open>The effect of a line on the set of breakpoints, and whether it ends the program.\<close>

definition bp_effect :: "u8 list \<Rightarrow> u32 set \<Rightarrow> u32 set" where
  "bp_effect line S =
     (case parse_command_line (takeWhile (\<lambda>c. c \<noteq> 0) line) of
        Some (cmd, Some a, _) \<Rightarrow>
          (case parse_u32 a of
             Some addr \<Rightarrow> if cmd = [98] then (if card S < 256 then insert addr S else S) else if cmd = [100] then S - {addr} else S
           | None \<Rightarrow> S)
      | _ \<Rightarrow> S)"

definition is_quit :: "u8 list \<Rightarrow> bool" where
  "is_quit line \<longleftrightarrow> (case parse_command_line (takeWhile (\<lambda>c. c \<noteq> 0) line) of Some (cmd, _) \<Rightarrow> cmd = [113] | None \<Rightarrow> False)"

text \<open>Single-step mode after a line, whether the line ends the pause, and the lines that a pause reads from its input: those
  that \<open>fgets\<close> delivers, up to the first that ends it.\<close>

definition step_effect :: "u8 list \<Rightarrow> bool \<Rightarrow> bool" where
  "step_effect line b =
     (case parse_command_line (takeWhile (\<lambda>c. c \<noteq> 0) line) of
        None \<Rightarrow> True
      | Some (cmd, _) \<Rightarrow> if cmd = [115] then True else if cmd = [99] then False else b)"

definition resumes :: "u8 list \<Rightarrow> bool" where
  "resumes line \<longleftrightarrow>
     (case parse_command_line (takeWhile (\<lambda>c. c \<noteq> 0) line) of
        None \<Rightarrow> True | Some (cmd, _) \<Rightarrow> cmd = [115] \<or> cmd = [99] \<or> cmd = [113])"

function input_lines :: "u8 list \<Rightarrow> u8 list list" where
  "input_lines inp = (case fgets 256 inp of None \<Rightarrow> [] | Some (line, rest) \<Rightarrow> line # input_lines rest)"
  by auto

termination
  by (relation "measure length") (auto dest: fgets_shorter)

declare input_lines.simps [simp del]

definition lines_read :: "u8 list \<Rightarrow> u8 list list" where
  "lines_read inp =
     takeWhile (\<lambda>l. \<not> resumes l) (input_lines inp) @ take 1 (dropWhile (\<lambda>l. \<not> resumes l) (input_lines inp))"

lemma lines_read_simps:
  "fgets 256 inp = None \<Longrightarrow> lines_read inp = []"
  "fgets 256 inp = Some (line, rest) \<Longrightarrow> lines_read inp = line # (if resumes line then [] else lines_read rest)"
  by (simp_all add: lines_read_def input_lines.simps [of inp])

lemma say_fields [simp]: "dbg (say m s) = dbg s" "dvm (say m s) = dvm s" "attached (say m s) = attached s" "input (say m s) = input s"
  by (simp_all add: say_def)

lemma bp_step:
  "step_mode (fst (add_breakpoint a d)) = step_mode d" "step_mode (remove_breakpoint a d) = step_mode d"
  by (simp_all add: add_breakpoint_def remove_breakpoint_def split: option.split)

lemma command_effect:
  assumes "debug_command (takeWhile (\<lambda>c. c \<noteq> 0) line) s = Inr (r, s')" "bp_ok (dbg s)"
  shows "bp_ok (dbg s') \<and> set (bp_list (dbg s')) = bp_effect line (set (bp_list (dbg s)))
         \<and> dvm s' = (dvm s)\<lparr>halted := halted (dvm s) \<or> is_quit line\<rparr>
         \<and> step_mode (dbg s') = step_effect line (step_mode (dbg s)) \<and> r = resumes line"
proof (cases "parse_command_line (takeWhile (\<lambda>c. c \<noteq> 0) line)")
  case None
  then show ?thesis using assms by (auto simp: debug_command_def bp_effect_def is_quit_def step_effect_def resumes_def bp_ok_def bp_list_def)
next
  case (Some q)
  obtain cmd a1 a2 where q: "q = (cmd, a1, a2)" by (cases q) auto
  note p = Some [unfolded q]
  have step: "bp_ok ((dbg s)\<lparr>step_mode := b\<rparr>) = bp_ok (dbg s)" "bp_list ((dbg s)\<lparr>step_mode := b\<rparr>) = bp_list (dbg s)" for b
    by (simp_all add: bp_ok_def bp_list_def)
  consider "cmd = [98]" | "cmd = [100]" | "cmd = [109]" | "cmd \<noteq> [98]" "cmd \<noteq> [100]" "cmd \<noteq> [109]" by blast
  then show ?thesis
  proof cases
    case 1
    then show ?thesis
      using assms bps.add_elems [OF assms(2)] bp_step(1)
      by (auto simp: debug_command_def p bp_effect_def is_quit_def step_effect_def resumes_def case_prod_unfold Let_def split: option.splits if_splits)
  next
    case 2
    then show ?thesis
      using assms bps.del_elems [OF assms(2)] bp_step(2)
      by (auto simp: debug_command_def p bp_effect_def is_quit_def step_effect_def resumes_def split: option.splits)
  next
    case 3
    then show ?thesis
      using assms by (auto simp: debug_command_def p bp_effect_def is_quit_def step_effect_def resumes_def bind_res_def split: option.splits sum.splits)
  next
    case 4
    then show ?thesis
      using assms step
      by (auto simp: debug_command_def p bp_effect_def is_quit_def step_effect_def resumes_def split: option.splits if_splits)
  qed
qed

lemma fgets_split: "fgets 256 inp = Some (line, rest) \<Longrightarrow> inp = line @ rest"
  by (auto simp: fgets_def Let_def split: if_splits)

section \<open>Properties\<close>

text \<open>C23: The debugger stops exactly where it should: a machine with an attached debugger stops at the instruction pointer \<open>a\<close> of
  the core when a stop at the start was asked for, in single-step mode, or at a breakpoint, and otherwise nothing changes. A stop shows the instruction that
  is about to be executed, zeros beyond the end of RAM, and reads commands; but at an address that is not a multiple of 8
  the alignment check of this build ends the process. (The instruction is not in a device window and does not reach the end of the
  address space.)\<close>

theorem debugger_stops_exactly:
  assumes "bp_ok (dbg s)" "bus_ok (dvm s)" "a = ip (cpus (dvm s) c)" "unat a + 8 < 2 ^ 32"
    "dev_at (dvm s) a = None" "dev_at (dvm s) (a + 4) = None"
  shows "vm_debug_pause_if_needed h c a s =
    (if attached s \<and> (pause_on_start (dbg s) \<or> step_mode (dbg s) \<or> a \<in> set (bp_list (dbg s))) then
       let u = s\<lparr>dbg := (dbg s)\<lparr>pause_on_start := False\<rparr>\<rparr>; i = decode (load64 (memory (dvm s)) a) in
       if \<not> in_ram (dvm s) a 8 then command_loop (input s) (u\<lparr>msgs := msgs s @ [M_pause a (op_name 0) 0 0 0 0, M_help]\<rparr>)
       else if a mod 8 \<noteq> 0 then Inl (Panic_unaligned ''READ64'' a)
       else command_loop (input s)
         (u\<lparr>dvm := nocache (dvm s), msgs := msgs s @ [M_pause a (op_name (i_op i)) (i_rd i) (i_rs1 i) (i_rs2 i) (i_imm i), M_help]\<rparr>)
     else Inr s)"
proof -
  let ?i = "decode (load64 (memory (dvm s)) a)"
  have n: "unat (a + 8) = unat a + 8" using assms(4) by (simp add: unat_word_ariths)
  have d: "decode_at h a (dvm s) =
     (if \<not> in_ram (dvm s) a 8 then Inr (\<lparr>i_op = 0, i_rd = 0, i_rs1 = 0, i_rs2 = 0, i_imm = 0\<rparr>, dvm s)
      else if a mod 8 \<noteq> 0 then Inl (Panic_unaligned ''READ64'' a) else Inr (?i, nocache (dvm s)))"
    using n assms vm_read64_ram [OF assms(2,5,6), of h]
    by (auto simp: decode_at_def vm_read64_checked_def memcheck_align_def in_ram_def load64_def)
  have w: "interactive_wait h c u =
     (if \<not> in_ram (dvm s) a 8 then command_loop (input u) (u\<lparr>msgs := msgs u @ [M_pause a (op_name 0) 0 0 0 0, M_help]\<rparr>)
      else if a mod 8 \<noteq> 0 then Inl (Panic_unaligned ''READ64'' a)
      else command_loop (input u) (u\<lparr>dvm := nocache (dvm s),
            msgs := msgs u @ [M_pause a (op_name (i_op ?i)) (i_rd ?i) (i_rs1 ?i) (i_rs2 ?i) (i_imm ?i), M_help]\<rparr>))" if "dvm u = dvm s" for u
  proof -
    have z: "u\<lparr>dvm := dvm s, msgs := x\<rparr> = u\<lparr>msgs := x\<rparr>" for x using that by (cases u) simp
    have "ip (cpus (dvm u) c) = a" using assms(3) that by simp
    then show ?thesis using d by (simp add: interactive_wait_def say_def Let_def that z)
  qed
  have b: "has_breakpoint (dbg s) a \<longleftrightarrow> a \<in> set (bp_list (dbg s))" by (rule bps.has_elems [OF assms(1)])
  have e: "s\<lparr>dbg := (dbg s)\<lparr>pause_on_start := False\<rparr>\<rparr> = s" if "\<not> pause_on_start (dbg s)"
    using that by (cases s; cases "dbg s") simp
  have p: "vm_debug_pause_if_needed h c a s = (if attached s \<and> (pause_on_start (dbg s) \<or> step_mode (dbg s) \<or> a \<in> set (bp_list (dbg s)))
      then interactive_wait h c (s\<lparr>dbg := (dbg s)\<lparr>pause_on_start := False\<rparr>\<rparr>) else Inr s)"
  proof (cases "pause_on_start (dbg s)")
    case False
    then show ?thesis unfolding e [OF False] using b by (simp add: vm_debug_pause_if_needed_def)
  qed (simp add: vm_debug_pause_if_needed_def)
  have "dvm (s\<lparr>dbg := (dbg s)\<lparr>pause_on_start := False\<rparr>\<rparr>) = dvm s" by simp
  note r = w [OF this]
  have "input (s\<lparr>dbg := (dbg s)\<lparr>pause_on_start := False\<rparr>\<rparr>) = input s" "msgs (s\<lparr>dbg := (dbg s)\<lparr>pause_on_start := False\<rparr>\<rparr>) = msgs s" by simp_all
  then show ?thesis unfolding p r Let_def by (simp only:)
qed

text \<open>C21: Commands refine a bounded set of addresses. The lines that a pause reads are those that \<open>fgets\<close> delivers, up to the first
  that ends the pause (an empty line, \<open>s\<close>, \<open>c\<close>, \<open>q\<close>) or the end of the input, and the rest of the input is left; the
  breakpoints afterwards are the set that results from these lines in order, where \<open>b\<close> adds an address unless 256
  are set and \<open>d\<close> removes it; single-step mode is what the lines make of it, and the machine is untouched but for being
  halted by \<open>q\<close>.\<close>

theorem debugger_commands_refine:
  assumes "command_loop inp s = Inr s'" "bp_ok (dbg s)"
  shows "concat (lines_read inp) @ input s' = inp \<and> bp_ok (dbg s')
         \<and> set (bp_list (dbg s')) = fold bp_effect (lines_read inp) (set (bp_list (dbg s)))
         \<and> step_mode (dbg s') = fold step_effect (lines_read inp) (step_mode (dbg s))
         \<and> dvm s' = (dvm s)\<lparr>halted := halted (dvm s) \<or> list_ex is_quit (lines_read inp)\<rparr>"
  using assms
proof (induction inp s rule: command_loop.induct)
  case (1 inp s)
  show ?case
  proof (cases "fgets 256 inp")
    case None
    then show ?thesis using 1 by (auto simp: command_loop.simps [of inp] lines_read_simps)
  next
    case (Some q)
    obtain line rest where q: "fgets 256 inp = Some (line, rest)" using Some by (cases q) auto
    let ?l = "takeWhile (\<lambda>c. c \<noteq> 0) line"
    obtain r u where u: "debug_command ?l s = Inr (r, u)"
      using 1(2) q by (cases "debug_command ?l s") (auto simp: command_loop.simps [of inp])
    note e = command_effect [OF u 1(3)] and i = fgets_split [OF q]
    show ?thesis
    proof (cases r)
      case True
      then have "s' = u\<lparr>input := rest\<rparr>" using 1(2) u q by (simp add: command_loop.simps [of inp])
      moreover have "lines_read inp = [line]" using e True by (simp add: lines_read_simps(2) [OF q])
      ultimately show ?thesis using e i by simp
    next
      case False
      then have "command_loop rest u = Inr s'" using 1(2) u q by (simp add: command_loop.simps [of inp])
      from 1(1) [OF q refl u refl False this] have "concat (lines_read rest) @ input s' = rest \<and> bp_ok (dbg s')
          \<and> set (bp_list (dbg s')) = fold bp_effect (lines_read rest) (set (bp_list (dbg u)))
          \<and> step_mode (dbg s') = fold step_effect (lines_read rest) (step_mode (dbg u))
          \<and> dvm s' = (dvm u)\<lparr>halted := halted (dvm u) \<or> list_ex is_quit (lines_read rest)\<rparr>"
        using e by blast
      moreover have "lines_read inp = line # lines_read rest" using e False by (simp add: lines_read_simps(2) [OF q])
      ultimately show ?thesis using e i by (simp add: disj_assoc)
    qed
  qed
qed

text \<open>C37: \<open>VM_BREAKPOINTS\<close> lists addresses in C notation (\<open>0x\<close> and at most eight hexadecimal digits of either case, so also the
  form in which the debugger prints them), with commas, semicolons or white space between them and none needed after the last.
  Then exactly these addresses are the breakpoints at the start, if there are at most 256 of them.\<close>

theorem env_breakpoints_round_trip:
  assumes "env ''VM_BREAKPOINTS'' = Some (concat (List.map (\<lambda>x. fst x @ snd x) xs))" "list_all2 addr_text (List.map fst xs) ws"
    "\<forall>x\<in>set xs. list_all is_separator (snd x)" "\<forall>x\<in>set (butlast xs). snd x \<noteq> []" "card (set ws) \<le> 256"
  shows "\<exists>s'. vm_debug_init True env s = Inr s' \<and> attached s' \<and> bp_ok (dbg s') \<and> set (bp_list (dbg s')) = set ws"
proof -
  let ?d = "\<lparr>instr_counts = \<lambda>_. 0, breakpoints = \<lambda>_. 0, breakpoint_count = 0,
      step_mode = parse_bool_env (env ''VM_DEBUG_STEP'') \<or> parse_bool_env (env ''VM_STEP''),
      pause_on_start = parse_bool_env (env ''VM_DEBUG_PAUSE'')\<rparr>"
  have n: "breakpoints_loop [] d = d" for d by (subst breakpoints_loop.simps) simp
  have l: "load_breakpoints_from_env (Some (concat (List.map (\<lambda>x. fst x @ snd x) xs))) ?d = fold (\<lambda>a d. fst (add_breakpoint a d)) ws ?d"
    using env_loop [OF assms(2-4), of ?d] n [of ?d] unfolding load_breakpoints_from_env_def option.case by (metis (no_types, lifting))
  have "bp_ok ?d" "bp_list ?d = []" by (simp_all add: bp_ok_def bp_list_def)
  then show ?thesis using bps.add_all [of ?d ws] assms(5) by (simp add: vm_debug_init_def assms(1) l Let_def)
qed

text \<open>The bound of \<open>decode_at\<close> is computed in 32 bits, so an instruction pointer at the end of the address space passes it and the
  read ends the process.\<close>

theorem decode_guard_wraps: "decode_at h 0xFFFFFFF8 demo_vm = Inl (Panic_read32 0xFFFFFFF8)"
  by (simp add: decode_at_def vm_read64_checked_def memcheck_align_def vm_read64_def vm_read32_def find_mmio_def find_mmio_loop_def dev_covers_def in_ram_def)

text \<open>When the list is full the debugger says so, and then that the breakpoint is set.\<close>

theorem full_list_reports_set:
  assumes "breakpoint_count (dbg s) = 256" "addr \<notin> set (bp_list (dbg s))" "parse_command_line line = Some ([98], Some w, x)" "parse_u32 w = Some addr"
  shows "debug_command line s = Inr (False, s\<lparr>msgs := msgs s @ [M_full, M_set addr]\<rparr>)"
proof -
  have "breakpoint_index addr (dbg s) = None" using assms(2) index_None by blast
  then show ?thesis using assms by (simp add: debug_command_def add_breakpoint_def say_def)
qed

section \<open>Examples\<close>

text \<open>A stop at the start of a machine whose memory is zero.\<close>

definition demo_session :: "u8 list \<Rightarrow> session" where
  "demo_session inp =
     \<lparr>attached = True,
      dbg = \<lparr>instr_counts = \<lambda>_. 0, breakpoints = \<lambda>_. 0x2000, breakpoint_count = 1, step_mode = False, pause_on_start = True\<rparr>,
      dvm = demo_vm\<lparr>cpus := (\<lambda>c. (cpus demo_vm c)\<lparr>ip := 0x4000\<rparr>)\<rparr>, input = inp, msgs = []\<rparr>"

lemma demo_session_ok: "bp_ok (dbg (demo_session inp))" "bp_list (dbg (demo_session inp)) = [0x2000]"
  by (simp_all add: demo_session_def bp_ok_def bp_list_def)

theorem debugger_stops_exactly_witness:
  "\<exists>s'. vm_debug_pause_if_needed host_zero 0 0x4000 (demo_session []) = Inr s' \<and> length (msgs s') = 2"
proof -
  let ?s = "demo_session []"
  have v: "bus_ok (dvm ?s)" using demo_bus_ok by (simp add: demo_session_def bus_ok_def cache_ok_def)
  have d: "dev_at (dvm ?s) 0x4000 = None" "dev_at (dvm ?s) (0x4000 + 4) = None"
    by (simp_all add: demo_session_def dev_at_def dev_covers_def)
  have "0x4000 = ip (cpus (dvm ?s) 0)" "unat (0x4000 :: u32) + 8 < 2 ^ 32" by (simp_all add: demo_session_def)
  from debugger_stops_exactly [OF demo_session_ok(1) v this d, of host_zero]
  show ?thesis by (simp add: demo_session_def in_ram_def command_loop.simps [of "[]"] fgets_def Let_def)
qed

text \<open>The lines \<open>b 16\<close>, \<open>d 0x2000\<close> and \<open>c\<close>.\<close>

definition demo_lines :: "u8 list" where
  "demo_lines = List.map of_char (''b 16'' @ [CHR 0x0A] @ ''d 0x2000'' @ [CHR 0x0A] @ ''c'' @ [CHR 0x0A])"

theorem debugger_commands_refine_witness:
  "\<exists>s'. command_loop demo_lines (demo_session []) = Inr s' \<and> concat (lines_read demo_lines) @ input s' = demo_lines
     \<and> set (bp_list (dbg s')) = fold bp_effect (lines_read demo_lines) {0x2000} \<and> bp_list (dbg s') = [16]"
proof -
  have "\<exists>s'. command_loop demo_lines (demo_session []) = Inr s' \<and> bp_list (dbg s') = [16]"
    by (simp add: command_loop.simps fgets_def demo_lines_def debug_command_def parse_command_line_def isspace_def parse_u32_def strtoul_def
        strtoul_base_def digit_val_def demo_session_def add_breakpoint_def remove_breakpoint_def breakpoint_index_def bp_list_def say_def Let_def)
  then show ?thesis using debugger_commands_refine [OF _ demo_session_ok(1), of demo_lines "[]"] demo_session_ok(2) [of "[]"] by fastforce
qed

theorem env_breakpoints_round_trip_witness:
  "\<exists>s'. vm_debug_init True (\<lambda>n. if n = ''VM_BREAKPOINTS'' then Some (List.map of_char ''0x201C,0x2024'') else None) (demo_session []) = Inr s'
        \<and> set (bp_list (dbg s')) = {0x201C, 0x2024}"
proof -
  let ?env = "\<lambda>n. if n = ''VM_BREAKPOINTS'' then Some (List.map of_char ''0x201C,0x2024'') else None"
  let ?xs = "[(List.map of_char ''0x201C'', [44]), (List.map of_char ''0x2024'', [])] :: (u8 list \<times> u8 list) list"
  have "addr_text (List.map of_char ''0x201C'') 0x201C" unfolding addr_text_def
    by (intro exI [of _ "[2, 0, 1, 12]"] exI [of _ "[50, 48, 49, 67]"]) (simp add: hex_spelled_def hex_char_def hex_value_def)
  moreover have "addr_text (List.map of_char ''0x2024'') 0x2024" unfolding addr_text_def
    by (intro exI [of _ "[2, 0, 2, 4]"] exI [of _ "[50, 48, 50, 52]"]) (simp add: hex_spelled_def hex_char_def hex_value_def)
  ultimately have "list_all2 addr_text (List.map fst ?xs) [0x201C, 0x2024]" by simp
  moreover have "?env ''VM_BREAKPOINTS'' = Some (concat (List.map (\<lambda>x. fst x @ snd x) ?xs))" by simp
  moreover have "\<forall>x\<in>set ?xs. list_all is_separator (snd x)" "\<forall>x\<in>set (butlast ?xs). snd x \<noteq> []" "card (set [0x201C, 0x2024 :: u32]) \<le> 256"
    by (simp_all add: is_separator_def)
  ultimately show ?thesis using env_breakpoints_round_trip [of ?env ?xs "[0x201C, 0x2024]" "demo_session []"] by auto
qed

end
