(* ===== verification/LayoutFile.thy ===== *)
theory LayoutFile
  imports Loader Debugger
begin

text \<open>
  Layout files (\<open>load_layout\<close> in \<open>loadbin.c\<close>): lines \<open>KEY=number\<close> with the addresses and sizes of the segments, in any order,
  as text. The reading of lines and digits is that of the C library as in \<open>Debugger\<close>. The main program reads
  the header of the image instead.
\<close>

text \<open>\<open>strtoul (s, NULL, base)\<close>: no number is 0.\<close>

definition strtoul_in :: "nat \<Rightarrow> u8 list \<Rightarrow> u64" where
  "strtoul_in base s =
     (let s = dropWhile isspace s;
          neg = (s \<noteq> [] \<and> hd s = 45);
          s = (if s \<noteq> [] \<and> (hd s = 45 \<or> hd s = 43) then tl s else s);
          s = (case s of z # x # c # _ \<Rightarrow> if base = 16 \<and> z = 48 \<and> (x = 120 \<or> x = 88) \<and> digit_val 16 c \<noteq> None then drop 2 s else s | _ \<Rightarrow> s);
          n = fst (scan_digits base 0 s) in
      if 2 ^ 64 \<le> n then - 1 else if neg then - of_nat n else of_nat n)"

definition layout_u32 :: "u8 list \<Rightarrow> u32" where
  "layout_u32 s =
     (if take 2 s = [48, 120] \<or> take 2 s = [48, 88] then ucast (strtoul_in 16 (drop 2 s)) else ucast (strtoul_in 10 s))"

definition key_bytes :: "string \<Rightarrow> u8 list" where
  "key_bytes = List.map of_char"

definition layout_line :: "u8 list \<Rightarrow> ProgramLayout \<Rightarrow> ProgramLayout" where
  "layout_line line l =
     (let line = takeWhile (\<lambda>c. c \<noteq> 0) line in
      if 61 \<notin> set line then l
      else
        let key = takeWhile (\<lambda>c. c \<noteq> 61) line;
            val = takeWhile (\<lambda>c. c \<noteq> 10) (tl (dropWhile (\<lambda>c. c \<noteq> 61) line)) in
        if key = key_bytes ''TEXT_BASE'' then l\<lparr>text_base := layout_u32 val\<rparr>
        else if key = key_bytes ''TEXT_SIZE'' then l\<lparr>text_size := layout_u32 val\<rparr>
        else if key = key_bytes ''DATA_BASE'' then l\<lparr>data_base := layout_u32 val\<rparr>
        else if key = key_bytes ''DATA_SIZE'' then l\<lparr>data_size := layout_u32 val\<rparr>
        else if key = key_bytes ''BSS_BASE'' then l\<lparr>bss_base := layout_u32 val\<rparr>
        else if key = key_bytes ''BSS_SIZE'' then l\<lparr>bss_size := layout_u32 val\<rparr>
        else l)"

function layout_lines :: "u8 list \<Rightarrow> ProgramLayout \<Rightarrow> ProgramLayout" where
  "layout_lines inp l = (case fgets 256 inp of None \<Rightarrow> l | Some (line, rest) \<Rightarrow> layout_lines rest (layout_line line l))"
  by pat_completeness auto
termination
  by (relation "measure (\<lambda>(inp, l). length inp)") (auto dest: fgets_shorter)

declare layout_lines.simps [simp del]

definition load_layout :: "u8 list option \<Rightarrow> ProgramLayout option" where
  "load_layout file =
     (case file of None \<Rightarrow> None
      | Some bs \<Rightarrow> Some (layout_lines bs \<lparr>text_base = 0, text_size = 0, data_base = 0, data_size = 0, bss_base = 0, bss_size = 0\<rparr>))"

section \<open>Written and read\<close>

definition layout_entry :: "string \<times> u32 \<Rightarrow> u8 list" where
  "layout_entry kx = (case kx of (k, x) \<Rightarrow> key_bytes k @ [61] @ hex8 x @ [10])"

lemma layout_u32_hex: "layout_u32 (hex8 w) = w"
proof -
  define ks where "ks = List.map (\<lambda>k. unat w div 2 ^ k mod 16) [28, 24, 20, 16, 12, 8, 4, 0]"
  have ks: "\<forall>k\<in>set ks. k < 16" "length ks = 8" by (auto simp: ks_def)
  have h: "hex8 w = [48, 120] @ List.map hex_char ks" unfolding hex8_def ks_def by simp
  have v: "unat w < 4294967296" using unsigned_less [of w, where ?'a = nat] by simp
  have e: "hex_value ks = unat w" unfolding ks_def by (rule hex_value_digits [OF v])
  obtain a b ms where k: "ks = a # b # ms" using ks(2) by (auto simp: numeral_eq_Suc length_Suc_conv)
  have d: "digit_val 16 (hex_char i) = Some i" "\<not> isspace (hex_char i)" "hex_char i \<noteq> 45" "hex_char i \<noteq> 43" "hex_char i \<noteq> 120" "hex_char i \<noteq> 88"
    if "i < 16" for i
    using hex_char_digit [OF that] by (auto simp: is_separator_def digit_val_def)
  have s: "dropWhile isspace (List.map hex_char ks) = List.map hex_char ks" using ks(1) d(2) [of a] by (simp add: k)
  let ?t = "List.map hex_char ks"
  have sign: "hd ?t \<noteq> 45" "hd ?t \<noteq> 43" using ks(1) d(3,4) [of a] by (simp_all add: k)
  have pre: "(case ?t of z # x # c # _ \<Rightarrow> if (16 :: nat) = 16 \<and> z = 48 \<and> (x = 120 \<or> x = 88) \<and> digit_val 16 c \<noteq> None then drop 2 ?t else ?t | _ \<Rightarrow> ?t) = ?t"
    using ks(1) d(5,6) [of b] by (simp add: k split: list.splits)
  have "strtoul_in 16 ?t = of_nat (hex_value ks)"
    using e v scan_hex [OF ks(1), of 0] by (simp add: strtoul_in_def s sign pre [simplified] hex_value_def)
  then show ?thesis by (simp add: layout_u32_def h e)
qed

lemma hex8_plain: "c \<in> set (hex8 w) \<Longrightarrow> c \<noteq> 0 \<and> c \<noteq> 10 \<and> c \<noteq> 61"
proof -
  have "hex_char i \<noteq> 0 \<and> hex_char i \<noteq> 10 \<and> hex_char i \<noteq> 61" if "i < 16" for i
    using hex_char_digit(1) [OF that] by (auto simp: digit_val_def)
  moreover assume "c \<in> set (hex8 w)"
  ultimately show ?thesis by (auto simp: hex8_def)
qed

lemma of_char_u8: "unat (of_char c :: u8) = of_char c"
proof -
  have "of_char c = (of_nat (of_char c) :: u8)" by (simp only: of_nat_of_char)
  then show ?thesis using nat_of_char_less_256 [of c] by (simp only: unat_of_nat) simp
qed

lemma key_bytes_inj: "key_bytes a = key_bytes b \<longleftrightarrow> a = b"
proof -
  have "inj (of_char :: char \<Rightarrow> u8)"
  proof (rule injI)
    fix c d assume "(of_char c :: u8) = of_char d"
    then have "(of_char c :: nat) = of_char d" using of_char_u8 by metis
    then show "c = d" by simp
  qed
  then show ?thesis by (simp add: key_bytes_def inj_map_eq_map)
qed

definition layout_keys :: "string set" where
  "layout_keys = {''TEXT_BASE'', ''TEXT_SIZE'', ''DATA_BASE'', ''DATA_SIZE'', ''BSS_BASE'', ''BSS_SIZE''}"

lemma layout_keys_plain:
  assumes "k \<in> layout_keys"
  shows "0 \<notin> set (key_bytes k)" "61 \<notin> set (key_bytes k)" "10 \<notin> set (key_bytes k)" "length k \<le> 100"
  using assms unfolding layout_keys_def by (elim insertE emptyE; simp add: key_bytes_def)+

lemma layout_line_entry:
  assumes "k \<in> layout_keys"
  shows "layout_line (layout_entry (k, x)) l =
     (if k = ''TEXT_BASE'' then l\<lparr>text_base := x\<rparr> else if k = ''TEXT_SIZE'' then l\<lparr>text_size := x\<rparr>
      else if k = ''DATA_BASE'' then l\<lparr>data_base := x\<rparr> else if k = ''DATA_SIZE'' then l\<lparr>data_size := x\<rparr>
      else if k = ''BSS_BASE'' then l\<lparr>bss_base := x\<rparr> else if k = ''BSS_SIZE'' then l\<lparr>bss_size := x\<rparr> else l)"
proof -
  have z: "takeWhile (\<lambda>c. c \<noteq> 0) (layout_entry (k, x)) = layout_entry (k, x)"
    using layout_keys_plain(1) [OF assms] hex8_plain [of _ x] by (auto simp: layout_entry_def takeWhile_eq_all_conv)
  have "takeWhile (\<lambda>c. c \<noteq> 61) (key_bytes k @ 61 # r) = key_bytes k \<and> tl (dropWhile (\<lambda>c. c \<noteq> 61) (key_bytes k @ 61 # r)) = r" for r
    using layout_keys_plain(2) [OF assms] by (subst takeWhile_append2, auto) (subst dropWhile_append2, auto)
  note key = this [of "hex8 x @ [10]"]
  have val: "takeWhile (\<lambda>c. c \<noteq> 10) (hex8 x @ [10]) = hex8 x" using hex8_plain [of _ x] by (subst takeWhile_append2) auto
  have "61 \<in> set (layout_entry (k, x))" by (simp add: layout_entry_def)
  then show ?thesis
    unfolding layout_line_def Let_def z unfolding layout_entry_def prod.case append.simps
    by (simp only: key val key_bytes_inj layout_u32_hex not_True_eq_False if_False)
qed

lemma fgets_entry:
  assumes "k \<in> layout_keys"
  shows "fgets 256 (layout_entry (k, x) @ r) = Some (layout_entry (k, x), r)"
proof -
  let ?b = "key_bytes k @ [61] @ hex8 x"
  have b: "10 \<notin> set ?b" using layout_keys_plain(3) [OF assms] hex8_plain [of 10 x] by auto
  have n: "length ?b \<le> 111" using layout_keys_plain(4) [OF assms] hex8_length [of x] by (simp add: key_bytes_def)
  have "takeWhile (\<lambda>c. c \<noteq> 10) (take 255 (?b @ 10 # r)) = ?b"
    using b n by (subst take_append, subst takeWhile_append2) (auto simp: take_Cons' )
  then show ?thesis using n unfolding fgets_def layout_entry_def prod.case by (simp add: Let_def)
qed

text \<open>A layout file in any order of its six lines is read as the layout that was written; a later line for a key wins.\<close>

definition write_layout :: "ProgramLayout \<Rightarrow> u8 list" where
  "write_layout l =
     concat (List.map layout_entry [(''TEXT_BASE'', text_base l), (''TEXT_SIZE'', text_size l), (''DATA_BASE'', data_base l),
       (''DATA_SIZE'', data_size l), (''BSS_BASE'', bss_base l), (''BSS_SIZE'', bss_size l)])"

lemma layout_lines_entry:
  "k \<in> layout_keys \<Longrightarrow> layout_lines (layout_entry (k, x) @ r) l = layout_lines r (layout_line (layout_entry (k, x)) l)"
  by (subst layout_lines.simps) (simp add: fgets_entry)

lemma layout_file_round_trip: "load_layout (Some (write_layout l)) = Some l"
proof -
  have "layout_lines [] m = m" for m by (subst layout_lines.simps) (simp add: fgets_def)
  moreover have "''TEXT_BASE'' \<in> layout_keys" "''TEXT_SIZE'' \<in> layout_keys" "''DATA_BASE'' \<in> layout_keys" "''DATA_SIZE'' \<in> layout_keys" "''BSS_BASE'' \<in> layout_keys" "''BSS_SIZE'' \<in> layout_keys" by (simp_all add: layout_keys_def)
  ultimately show ?thesis
    by (simp add: load_layout_def write_layout_def layout_lines_entry layout_lines_entry [where r = "[]", simplified]
        layout_line_entry)
qed

end
