(* ===== verification/IsaSpec.thy ===== *)
theory IsaSpec
  imports Loader
begin

text \<open>
  The machine as a programmer sees it: registers, the zero flag, a stack of return addresses, the interrupted
  context, released cores, one interrupt vector and the words of a data area. \<open>aexec\<close> is the meaning of the
  instructions that the built-in self tests use, \<open>aturn\<close> a turn of a core. \<open>sim\<close> relates a state of this
  specification to a state of the machine, and \<open>turn_sim\<close> shows that every turn that the specification
  allows is a turn of the core thread of the machine, interrupt delivery, fetch, stacks in guest
  memory and disk tick included.
\<close>

section \<open>The programmer's model\<close>

record acore =
  a_regs :: "nat \<Rightarrow> u32"
  a_ip :: u32
  a_zf :: bool
  a_calls :: "u32 list"
  a_saved :: "((nat \<Rightarrow> u32) \<times> u32 \<times> bool) option"

record amachine =
  acores :: "nat \<Rightarrow> acore"
  a_on :: "nat \<Rightarrow> bool"
  a_word :: "u32 \<Rightarrow> u32"
  a_irq :: "nat \<Rightarrow> bool"
  a_halted :: bool

text \<open>A program: its instruction words from \<open>PROGRAM_BASE\<close> on, the handler of interrupt 5, and the number of cores.\<close>

record aprog =
  a_code :: "u64 list"
  a_vec :: "u32 option"
  a_cores :: nat

definition data_addr :: "u32 \<Rightarrow> bool" where
  "data_addr a \<longleftrightarrow> 0x3000 \<le> a \<and> a < 0x4000 \<and> a mod 4 = 0"

definition upd_core :: "nat \<Rightarrow> (acore \<Rightarrow> acore) \<Rightarrow> amachine \<Rightarrow> amachine" where
  "upd_core c f s = s\<lparr>acores := (acores s)(c := f (acores s c))\<rparr>"

definition aexec :: "nat \<Rightarrow> nat \<Rightarrow> inst \<Rightarrow> amachine \<Rightarrow> amachine option" where
  "aexec n c i s =
     (let r = acores s c; op = i_op i; rd = unat (i_rd i); rs1 = unat (i_rs1 i); imm = i_imm i;
          x = a_regs r rd; addr = a_regs r rs1 + imm; rel = a_ip r + imm;
          t = upd_core c (\<lambda>r. r\<lparr>a_ip := a_ip r + 8\<rparr>) s;
          go = (\<lambda>a. Some (upd_core c (\<lambda>r. r\<lparr>a_ip := a\<rparr>) t));
          set = (\<lambda>x. Some (upd_core c (\<lambda>r. r\<lparr>a_regs := (a_regs r)(rd := x), a_zf := x = 0\<rparr>) t)) in
      if \<not> (rd < 32 \<and> rs1 < 32) then None
      else if op = OP_MOVI then set imm
      else if op = OP_CMPI then Some (upd_core c (\<lambda>r. r\<lparr>a_zf := x = imm\<rparr>) t)
      else if op = OP_JMP then go imm
      else if op = OP_RJMP then go rel
      else if op = OP_JNZ then (if a_zf r then Some t else go imm)
      else if op = OP_RJZ then (if a_zf r then go rel else Some t)
      else if op = OP_RJNZ then (if a_zf r then Some t else go rel)
      else if op = OP_STORE32 then (if data_addr addr then Some (t\<lparr>a_word := (a_word t)(addr := x)\<rparr>) else None)
      else if op = OP_LOAD32 then (if data_addr addr then set (a_word s addr) else None)
      else if op = OP_RCALL then
        (if length (a_calls r) < 256
         then Some (upd_core c (\<lambda>q. q\<lparr>a_ip := rel\<rparr>) (upd_core c (\<lambda>q. q\<lparr>a_calls := (a_ip r + 8) # a_calls q\<rparr>) t)) else None)
      else if op = OP_RET then
        (case a_calls r of [] \<Rightarrow> None
         | a # as \<Rightarrow> Some (upd_core c (\<lambda>q. q\<lparr>a_ip := a\<rparr>) (upd_core c (\<lambda>q. q\<lparr>a_calls := as\<rparr>) t)))
      else if op = OP_HALT then Some (t\<lparr>a_halted := True\<rparr>)
      else if op = OP_PAUSE then Some t
      else if op = OP_CPUID then set (of_nat c)
      else if op = OP_STARTAP then
        (if c \<noteq> 0 \<or> sint x \<le> 0 \<or> int n \<le> sint x then Some t
         else Some ((upd_core (nat (sint x)) (\<lambda>q. q\<lparr>a_ip := addr\<rparr>) t)\<lparr>a_on := (a_on t)(nat (sint x) := True)\<rparr>))
      else if op = OP_IPI then
        (if a_regs r rs1 \<noteq> 5 then None
         else if sint x < 0 \<or> int n \<le> sint x then Some t
         else Some (t\<lparr>a_irq := (a_irq t)(nat (sint x) := True)\<rparr>))
      else if op = OP_IRET then
        (case a_saved r of None \<Rightarrow> Some t
         | Some (R, a, z) \<Rightarrow> Some (upd_core c (\<lambda>q. q\<lparr>a_regs := R, a_ip := a, a_zf := z, a_saved := None\<rparr>) t))
      else None)"

definition adeliver :: "aprog \<Rightarrow> nat \<Rightarrow> amachine \<Rightarrow> amachine option" where
  "adeliver p c s =
     (if a_saved (acores s c) \<noteq> None \<or> \<not> a_irq s c then Some s
      else case a_vec p of None \<Rightarrow> None
      | Some a \<Rightarrow> Some (upd_core c (\<lambda>r. r\<lparr>a_saved := Some (a_regs r, a_ip r, a_zf r), a_regs := (a_regs r)(31 := 5), a_ip := a\<rparr>)
                      (s\<lparr>a_irq := (a_irq s)(c := False)\<rparr>)))"

definition afetch :: "aprog \<Rightarrow> u32 \<Rightarrow> inst option" where
  "afetch p a =
     (let k = unat (a - PROGRAM_BASE) in
      if k mod 8 = 0 \<and> k div 8 < length (a_code p) then Some (decode (a_code p ! (k div 8))) else None)"

definition aturn :: "aprog \<Rightarrow> nat \<Rightarrow> amachine \<Rightarrow> amachine option" where
  "aturn p c s =
     (if a_halted s \<or> c \<noteq> 0 \<and> \<not> a_on s c then Some s
      else Option.bind (adeliver p c s) (\<lambda>s.
        Option.bind (afetch p (a_ip (acores s c))) (\<lambda>i. aexec (a_cores p) c i s)))"

fun aturns :: "aprog \<Rightarrow> nat list \<Rightarrow> amachine \<Rightarrow> amachine option" where
  "aturns p [] s = Some s"
| "aturns p (c # cs) s = Option.bind (aturn p c s) (aturns p cs)"

section \<open>The relation to the machine\<close>

definition saved_sim :: "((nat \<Rightarrow> u32) \<times> u32 \<times> bool) option \<Rightarrow> u64 list \<Rightarrow> bool" where
  "saved_sim x ws \<longleftrightarrow>
     (case x of None \<Rightarrow> ws = []
      | Some (R, a, z) \<Rightarrow> \<exists>fl. z = (fl AND FLAG_ZF \<noteq> 0) \<and> ws = map (\<lambda>i. ucast (R i)) (rev [0..<32]) @ [ucast fl, ucast a])"

definition core_sim :: "nat \<Rightarrow> nat \<Rightarrow> vcpu \<Rightarrow> (u32 \<Rightarrow> u8) \<Rightarrow> acore \<Rightarrow> bool" where
  "core_sim n c r m a \<longleftrightarrow>
     (\<forall>i < 32. regs r i = a_regs a i) \<and> ip r = a_ip a \<and> (flags r AND FLAG_ZF \<noteq> 0) = a_zf a
     \<and> core_id r = int c \<and> is_bsp r = (c = 0) \<and> \<not> irq_masked r \<and> in_interrupt r = (a_saved a \<noteq> None)
     \<and> unat (call_stack_base r) = core_base n c \<and> unat (isr_stack_base r) = core_base n c + 3072
     \<and> 0 \<le> csp r \<and> csp r \<le> 256 \<and> stack_content load64 8 (call_stack_base r) (csp r) m = map ucast (a_calls a)
     \<and> 0 \<le> isp r \<and> isp r \<le> 256 \<and> saved_sim (a_saved a) (stack_content load64 8 (isr_stack_base r) (isp r) m)"

text \<open>What no turn changes, and what the turns of the cores share.\<close>

definition image_sim :: "aprog \<Rightarrow> vm \<Rightarrow> bool" where
  "image_sim p v \<longleftrightarrow>
     smp_cores v = a_cores p \<and> memory_size v = MEM_SIZE \<and> mmio_devices v = boot_devices \<and> bus_ok v
     \<and> dk_status (disk v) = DISK_STATUS_FREE
     \<and> (\<forall>k < length (a_code p). load64 (memory v) (PROGRAM_BASE + of_nat (8 * k)) = a_code p ! k)
     \<and> (\<forall>a. a_vec p = Some a \<longrightarrow> load64 (memory v) 40 = ucast a)"

definition sim :: "aprog \<Rightarrow> vm \<Rightarrow> amachine \<Rightarrow> bool" where
  "sim p v s \<longleftrightarrow>
     image_sim p v \<and> halted v = a_halted s
     \<and> (\<forall>a. data_addr a \<longrightarrow> load32 (memory v) a = a_word s a)
     \<and> (\<forall>c < a_cores p. core_sim (a_cores p) c (cpus v c) (memory v) (acores s c)
            \<and> core_released v c = a_on s c \<and> (\<forall>m < 256. pending v c m = (m = 5 \<and> a_irq s c)))"

definition prog_ok :: "aprog \<Rightarrow> bool" where
  "prog_ok p \<longleftrightarrow> length (a_code p) \<le> 64 \<and> 1 \<le> a_cores p \<and> a_cores p \<le> 64"

lemma content_cong:
  assumes "unat base + 2048 \<le> 2 ^ 32" "\<And>b. unat base \<le> unat b \<Longrightarrow> unat b < unat base + 2048 \<Longrightarrow> m b = m' b"
  shows "stack_content load64 8 base sp m = stack_content load64 8 base sp m'"
proof -
  have "load64 m (base + of_nat (i * 8)) = load64 m' (base + of_nat (i * 8))" if i: "i < 256" for i
  proof -
    have "unat (of_nat (i * 8) :: u32) = i * 8" using i by (simp only: unat_of_nat) simp
    then have "unat (base + of_nat (i * 8)) = unat base + i * 8"
      using unat_plus_small [of base "of_nat (i * 8)"] assms(1) i by simp
    then show ?thesis using assms i by (intro load64_cong) auto
  qed
  then show ?thesis by (simp add: stack_content_def)
qed

lemma core_sim_mem:
  assumes "core_sim n c r m a" "c < n" "n \<le> 64"
    "\<And>b. core_base n c \<le> unat b \<Longrightarrow> unat b < core_base n c + 5120 \<Longrightarrow> m' b = m b"
  shows "core_sim n c r m' a"
proof -
  note b = core_base_bounds(1) [OF assms(2,3)]
  have "stack_content load64 8 (call_stack_base r) (csp r) m' = stack_content load64 8 (call_stack_base r) (csp r) m"
    "stack_content load64 8 (isr_stack_base r) (isp r) m' = stack_content load64 8 (isr_stack_base r) (isp r) m"
    using assms(1) b unfolding core_sim_def by (intro content_cong assms(4); simp)+
  then show ?thesis using assms(1) by (simp add: core_sim_def)
qed

lemma core_block_apart:
  assumes "c < n" "n \<le> 64" "unat (b :: u32) < 2048 \<or> 0x201C \<le> unat b \<and> unat b < 0x4000"
  shows "unat b < core_base n c \<or> core_base n c + 5120 \<le> unat b"
  using core_base_bounds [OF assms(1,2)] assms(3) by (cases "n = 1") auto

lemma code_slot: "k < 64 \<Longrightarrow> unat (PROGRAM_BASE + of_nat (8 * k)) = 0x201C + 8 * k"
proof -
  assume k: "k < 64"
  have "unat (of_nat (8 * k) :: u32) = 8 * k" using k by (simp only: unat_of_nat) simp
  then show ?thesis using k unat_plus_small [of "0x201C" "of_nat (8 * k)"] by simp
qed

lemma data_addr_bounds: "data_addr a \<Longrightarrow> 0x3000 \<le> unat a \<and> unat a + 4 \<le> 0x4000 \<and> unat a mod 4 = 0"
proof -
  assume a: "data_addr a"
  have "unat a mod 4 = unat (a mod 4)" by (simp add: unat_mod)
  then have "unat a mod 4 = 0" "unat a < 0x4000" "0x3000 \<le> unat a"
    using a by (simp_all add: data_addr_def word_less_nat_alt word_le_nat_alt)
  then show ?thesis by presburger
qed

text \<open>The image survives every change of memory outside of it.\<close>

lemma image_sim_mem:
  assumes "image_sim p v" "prog_ok p"
    "\<And>b. unat b < 2048 \<or> 0x201C \<le> unat b \<and> unat b < 0x3000 \<Longrightarrow> memory w b = memory v b"
    "smp_cores w = smp_cores v" "memory_size w = memory_size v" "mmio_devices w = mmio_devices v" "bus_ok w"
    "dk_status (disk w) = dk_status (disk v)"
  shows "image_sim p w"
proof -
  have "load64 (memory w) (PROGRAM_BASE + of_nat (8 * k)) = a_code p ! k" if "k < length (a_code p)" for k
  proof -
    have "k < 64" using that assms(2) by (simp add: prog_ok_def)
    note u = code_slot [OF this]
    have "load64 (memory w) (PROGRAM_BASE + of_nat (8 * k)) = load64 (memory v) (PROGRAM_BASE + of_nat (8 * k))"
      using \<open>k < 64\<close> by (intro load64_cong assms(3)) (unfold u, auto)
    then show ?thesis using assms(1) that by (simp add: image_sim_def)
  qed
  moreover have "load64 (memory w) 40 = load64 (memory v) 40" by (intro load64_cong assms(3)) auto
  ultimately show ?thesis using assms(1,4-) by (simp add: image_sim_def)
qed

text \<open>A change of core \<open>c\<close> and of its stacks.\<close>

lemma sim_frame:
  assumes "sim p v s" "prog_ok p" "c < a_cores p"
    "w = v\<lparr>memory := m, mmio_cache_dev := k, cpus := (cpus v)(c := r)\<rparr>" "bus_ok w"
    "\<And>b. unat b < core_base (a_cores p) c \<or> core_base (a_cores p) c + 5120 \<le> unat b \<Longrightarrow> m b = memory v b"
    "core_sim (a_cores p) c r m a"
  shows "sim p w (s\<lparr>acores := (acores s)(c := a)\<rparr>)"
proof -
  have n: "a_cores p \<le> 64" using assms(2) by (simp add: prog_ok_def)
  have out: "m b = memory v b" if "unat b < 2048 \<or> 0x201C \<le> unat b \<and> unat b < 0x4000" for b
    using core_block_apart [OF assms(3) n that] by (rule assms(6))
  have "image_sim p w"
    using assms(1,4,5) out by (intro image_sim_mem [of p v w] assms(2)) (auto simp: sim_def)
  moreover have "load32 m a = load32 (memory v) a" if "data_addr a" for a
  proof (rule load32_cong)
    fix i :: u32 assume "unat i < 4"
    then have "unat (a + i) = unat a + unat i" using data_addr_bounds [OF that] by (intro unat_plus_small) simp
    then show "m (a + i) = memory v (a + i)" using data_addr_bounds [OF that] \<open>unat i < 4\<close> by (intro out) simp
  qed
  moreover have "core_sim (a_cores p) d (cpus w d) m (acores s d)" if "d < a_cores p" "d \<noteq> c" for d
  proof (rule core_sim_mem [OF _ that(1) n])
    show "core_sim (a_cores p) d (cpus w d) (memory v) (acores s d)" using assms(1,4) that by (simp add: sim_def)
    fix b :: u32 assume "core_base (a_cores p) d \<le> unat b" "unat b < core_base (a_cores p) d + 5120"
    then show "m b = memory v b" using core_base_disjoint [OF that(2), of "a_cores p"] by (intro assms(6)) linarith
  qed
  ultimately show ?thesis using assms(1,4,7) by (auto simp: sim_def pending_def)
qed

section \<open>Delivery and fetch\<close>

lemma sim_core: "sim p v s \<Longrightarrow> c < a_cores p \<Longrightarrow> core_sim (a_cores p) c (cpus v c) (memory v) (acores s c)"
  by (simp add: sim_def)

text \<open>A change of the running core outside its stacks.\<close>

lemma sim_cpu:
  assumes "sim p v s" "prog_ok p" "c < a_cores p" "w = upd_cpu c f v"
    "core_sim (a_cores p) c (f (cpus v c)) (memory v) a"
  shows "sim p w (s\<lparr>acores := (acores s)(c := a)\<rparr>)"
proof (rule sim_frame [OF assms(1-3)])
  show "w = v\<lparr>memory := memory v, mmio_cache_dev := mmio_cache_dev v, cpus := (cpus v)(c := f (cpus v c))\<rparr>"
    by (simp add: assms(4) upd_cpu_def)
  show "bus_ok w" using assms(1,4) by (simp add: sim_def image_sim_def)
qed (use assms(5) in simp_all)

lemma fetch_sim:
  assumes "sim p v s" "prog_ok p" "c < a_cores p" "afetch p (a_ip (acores s c)) = Some i"
  shows "fetch64 c v = Inr (i, upd_cpu c (\<lambda>r. r\<lparr>last_ip := ip r, ip := ip r + 8\<rparr>) v)"
proof -
  let ?a = "ip (cpus v c)"
  have a: "?a = a_ip (acores s c)" using sim_core [OF assms(1,3)] by (simp add: core_sim_def)
  define k where "k = unat (?a - PROGRAM_BASE) div 8"
  have k: "unat (?a - PROGRAM_BASE) = 8 * k" "k < length (a_code p)" "i = decode (a_code p ! k)"
    using assms(4) by (auto simp: afetch_def a k_def Let_def split: if_splits)
  have "?a = PROGRAM_BASE + of_nat (8 * k)" unfolding k(1) [symmetric] by simp
  moreover have "k < 64" using k(2) assms(2) by (simp add: prog_ok_def)
  moreover have "memory_size v = MEM_SIZE" "load64 (memory v) (PROGRAM_BASE + of_nat (8 * k)) = a_code p ! k"
    using assms(1) k(2) by (simp_all add: sim_def image_sim_def)
  ultimately show ?thesis
    using code_slot [of k] by (simp add: fetch64_def Let_def k(3) upd_cpu_def)
qed

lemma core_stacks:
  assumes "sim p v s" "prog_ok p" "c < a_cores p"
  shows "call.ok c v" "isr.ok c v"
proof -
  have n: "a_cores p \<le> 64" using assms(2) by (simp add: prog_ok_def)
  have v: "mmio_devices v = boot_devices" "memory_size v = MEM_SIZE" "bus_ok v" using assms(1) by (simp_all add: sim_def image_sim_def)
  note cs = sim_core [OF assms(1,3), unfolded core_sim_def]
  have "region_free v (call_stack_base (cpus v c)) 2048" "region_free v (isr_stack_base (cpus v c)) 2048"
    using cs by (auto intro!: core_region [OF assms(3) n v(1,2)])
  then show "call.ok c v" "isr.ok c v" using cs v(3) by (simp_all add: stack_ok_def)
qed

lemma sim_clear:
  assumes "sim p v s"
  shows "sim p (clear_pending c 5 v) (s\<lparr>a_irq := (a_irq s)(c := False)\<rparr>)"
proof -
  have "bus_ok (clear_pending c 5 v) = bus_ok v" by (rule bus_ok_cong) (simp_all add: clear_pending_def cache_frame_def)
  then have "image_sim p (clear_pending c 5 v)" using assms by (simp add: sim_def image_sim_def) (simp add: clear_pending_def)
  moreover have "pending (clear_pending c 5 v) d m = (m = 5 \<and> ((a_irq s)(c := False)) d)" if "m < 256" "d < a_cores p" for d m
    using pending_clear [of 5 m c v d] that assms by (auto simp: sim_def)
  ultimately show ?thesis using assms by (simp add: sim_def) (simp add: clear_pending_def)
qed

lemma call_content_outside:
  assumes "core_sim n c r m a" "c < n" "n \<le> 64"
    "\<And>b. unat b < core_base n c + 3072 \<or> core_base n c + 5120 \<le> unat b \<Longrightarrow> m' b = m b"
  shows "stack_content load64 8 (call_stack_base r) k m' = stack_content load64 8 (call_stack_base r) k m"
proof -
  have b: "unat (call_stack_base r) = core_base n c" using assms(1) by (simp add: core_sim_def)
  show ?thesis by (rule content_cong; (rule assms(4))?) (use b core_base_bounds(1) [OF assms(2,3)] in simp_all)
qed

text \<open>The interrupted context is on the interrupt stack.\<close>

lemma enter_sim:
  assumes "sim p v s" "prog_ok p" "c < a_cores p" "a_saved (acores s c) = None" "a_vec p = Some a"
  shows "\<exists>w. vm_enter_interrupt h c 5 v = Inr w
     \<and> sim p w (upd_core c (\<lambda>r. r\<lparr>a_saved := Some (a_regs r, a_ip r, a_zf r), a_regs := (a_regs r)(31 := 5), a_ip := a\<rparr>) s)"
proof -
  let ?n = "a_cores p" and ?r = "cpus v c" and ?q = "acores s c"
  have n: "?n \<le> 64" using assms(2) by (simp add: prog_ok_def)
  note sc = sim_core [OF assms(1,3)] and ok = core_stacks(2) [OF assms(1-3)]
  note cs = sc [unfolded core_sim_def]
  have out: "\<not> in_interrupt ?r" "isr.content c v = []" using cs assms(4) by (simp_all add: saved_sim_def)
  have vec: "load64 (memory v) (5 * 8) = ucast a" using assms(1,5) by (simp add: sim_def image_sim_def)
  have "\<not> bit (ucast a :: u64) 40" using bit_imp_le_length [of a 40] by (auto simp: bit_ucast_iff)
  moreover have "bit (- 1 :: u64) 40" by (simp add: bit_minus_1_iff)
  ultimately have "load64 (memory v) (5 * 8) \<noteq> - 1" unfolding vec by metis
  moreover have "region_free v (5 * 8) 8" using assms(1) by (simp add: sim_def image_sim_def region_free_def)
  moreover have "34 \<le> isp ?r" using isp_content [OF ok] out(2) by simp
  ultimately obtain w k where w: "vm_enter_interrupt h c 5 v = Inr w" "isr.ok c w" "ctx_frame c v w"
     "isr.content c w = map (\<lambda>i. ucast (regs ?r i)) (rev [0..<32]) @ [ucast (flags ?r), ucast (ip ?r)]"
     "cpus w c = ?r\<lparr>isp := k, regs := (regs ?r)(31 := 5), ip := ucast (ucast a :: u64), in_interrupt := True\<rparr>"
    using enter_interrupt_pushes [OF ok _ _ out(1), of 5 h] unfolding out(2) vec by auto
  have mem: "memory w b = memory v b" if "unat b < core_base ?n c + 3072 \<or> core_base ?n c + 5120 \<le> unat b" for b
    using w(3) that cs unfolding ctx_frame_def by auto
  have "map (\<lambda>i. ucast (regs ?r i)) (rev [0..<32]) = (map (\<lambda>i. ucast (a_regs ?q i)) (rev [0..<32]) :: u64 list)"
    using cs by (intro map_cong) simp_all
  then have "saved_sim (Some (a_regs ?q, a_ip ?q, a_zf ?q)) (isr.content c w)"
    using cs by (auto simp: saved_sim_def w(4) intro!: exI [of _ "flags ?r"])
  moreover have "stack_content load64 8 (call_stack_base ?r) (csp ?r) (memory w) = map ucast (a_calls ?q)"
    using call_content_outside [OF sc assms(3) n mem] cs by simp
  moreover have "0 \<le> isp (cpus w c)" "isp (cpus w c) \<le> 256" using w(2) by (simp_all add: stack_ok_def)
  ultimately have core: "core_sim ?n c (cpus w c) (memory w)
      (?q\<lparr>a_saved := Some (a_regs ?q, a_ip ?q, a_zf ?q), a_regs := (a_regs ?q)(31 := 5), a_ip := a\<rparr>)"
    using cs by (simp add: core_sim_def w(5))
  have eq: "w = v\<lparr>memory := memory w, mmio_cache_dev := mmio_cache_dev w, cpus := (cpus v)(c := cpus w c)\<rparr>"
    using w(3) unfolding ctx_frame_def by blast
  have "sim p w (s\<lparr>acores := (acores s)(c := ?q\<lparr>a_saved := Some (a_regs ?q, a_ip ?q, a_zf ?q), a_regs := (a_regs ?q)(31 := 5), a_ip := a\<rparr>)\<rparr>)"
    by (rule sim_frame [OF assms(1-3) eq _ _ core]) (use w(2) in \<open>auto simp: stack_ok_def intro!: mem\<close>)
  then show ?thesis using w(1) by (simp add: upd_core_def)
qed

lemma deliver_sim:
  assumes "sim p v s" "prog_ok p" "c < a_cores p" "adeliver p c s = Some s'"
  shows "\<exists>w. vm_handle_interrupts h c v = Inr w \<and> sim p w s'"
proof -
  note cs = sim_core [OF assms(1,3), unfolded core_sim_def]
  have pend: "\<forall>m < 256. pending v c m = (m = 5 \<and> a_irq s c)" using assms(1,3) by (simp add: sim_def)
  have n: "smp_cores v = a_cores p" using assms(1) by (simp add: sim_def image_sim_def)
  have all: "vm_handle_interrupts h c v = (if in_interrupt (cpus v c) then Inr v else
      case least_pending v c of None \<Rightarrow> Inr v | Some m \<Rightarrow> vm_enter_interrupt h c (of_nat m) (clear_pending c m v))"
    using handle_irq_words_least [of 0 v c h c] cs n assms(3) by (simp add: vm_handle_interrupts_def Let_def)
  show ?thesis
  proof (cases "a_saved (acores s c) \<noteq> None \<or> \<not> a_irq s c")
    case True
    then have "s' = s" using assms(4) by (simp add: adeliver_def)
    moreover have "least_pending v c = None" if "\<not> a_irq s c" using pend that by (simp add: least_pending_def find_upt_None)
    moreover have "in_interrupt (cpus v c) = (a_saved (acores s c) \<noteq> None)" using cs by blast
    ultimately show ?thesis using True all assms(1) by (cases "a_irq s c") simp_all
  next
    case False
    then have sv: "a_saved (acores s c) = None" by blast
    with False obtain a where a: "a_vec p = Some a" using assms(4) by (auto simp: adeliver_def split: option.splits)
    have "least_pending v c = Some 5" using pend False by (simp add: least_pending_def find_upt_Some)
    moreover have "\<not> in_interrupt (cpus v c)" using cs sv by simp
    moreover obtain w where "vm_enter_interrupt h c 5 (clear_pending c 5 v) = Inr w" "sim p w s'"
      using enter_sim [OF sim_clear [OF assms(1), of c] assms(2,3) _ a, of h] assms(4) False a sv by (auto simp: adeliver_def)
    ultimately show ?thesis using all by simp
  qed
qed

section \<open>Instructions\<close>

lemma rel_target: "rel_target_from_last_ip r x = last_ip r + x"
  by (simp add: rel_target_from_last_ip_def)

text \<open>A result in a register, with the flags of its value.\<close>

lemma set_reg_form:
  assumes "unat d < 32"
  shows "\<exists>g. (\<forall>f. bit (g f) 3 = (x = 0))
     \<and> bind_res (wr_reg c d x v) (\<lambda>v. Inr (update_logic_flags c x v))
       = Inr (upd_cpu c (\<lambda>r. r\<lparr>regs := (regs r)(unat d := x), flags := g (flags r)\<rparr>) v)"
proof (intro exI conjI)
  let ?g = "\<lambda>f. put_flag FLAG_SF (sint x < 0) (put_flag FLAG_ZF (x = 0) (f AND NOT (FLAG_CF OR FLAG_OF)))"
  show "\<forall>f. bit (?g f) 3 = (x = 0)" by (simp add: bit_put_flag)
  show "bind_res (wr_reg c d x v) (\<lambda>v. Inr (update_logic_flags c x v))
       = Inr (upd_cpu c (\<lambda>r. r\<lparr>regs := (regs r)(unat d := x), flags := ?g (flags r)\<rparr>) v)"
    using assms by (simp add: wr_reg_def update_logic_flags_def update_zf_sf_def clear_cf_of_def upd_flags_def upd_cpu_def)
qed

lemma cmp_form:
  "\<exists>g. (\<forall>f. bit (g f) 3 = (r = 0)) \<and> update_sub_flags c a b r v = upd_cpu c (\<lambda>q. q\<lparr>flags := g (flags q)\<rparr>) v"
proof (intro exI conjI)
  let ?g = "\<lambda>f. put_flag FLAG_SF (sint r < 0) (put_flag FLAG_ZF (r = 0) (put_flag FLAG_OF
            ((0 < sint a \<and> sint b < 0 \<and> sint r < 0) \<or> (sint a < 0 \<and> 0 < sint b \<and> 0 < sint r)) (put_flag FLAG_CF (a < b) f)))"
  show "\<forall>f. bit (?g f) 3 = (r = 0)" by (simp add: bit_put_flag)
  show "update_sub_flags c a b r v = upd_cpu c (\<lambda>q. q\<lparr>flags := ?g (flags q)\<rparr>) v"
    by (simp add: update_sub_flags_def update_zf_sf_def upd_flags_def upd_cpu_def)
qed

lemma sim_set_reg:
  assumes "sim p v s" "prog_ok p" "c < a_cores p" "unat d < 32"
  shows "\<exists>w. bind_res (wr_reg c d x v) (\<lambda>v. Inr (update_logic_flags c x v)) = Inr w
     \<and> sim p w (upd_core c (\<lambda>r. r\<lparr>a_regs := (a_regs r)(unat d := x), a_zf := x = 0\<rparr>) s)"
proof -
  obtain g where g: "\<forall>f. bit (g f) 3 = (x = 0)" "bind_res (wr_reg c d x v) (\<lambda>v. Inr (update_logic_flags c x v))
       = Inr (upd_cpu c (\<lambda>r. r\<lparr>regs := (regs r)(unat d := x), flags := g (flags r)\<rparr>) v)"
    using set_reg_form [OF assms(4)] by blast
  show ?thesis unfolding g(2) upd_core_def
    using sim_core [OF assms(1,3)] g(1) by (auto simp: core_sim_def intro!: sim_cpu [OF assms(1-3) refl])
qed

lemma sim_ip:
  assumes "sim p v s" "prog_ok p" "c < a_cores p"
  shows "sim p (set_ip c a v) (upd_core c (\<lambda>r. r\<lparr>a_ip := a\<rparr>) s)"
  unfolding upd_core_def set_ip_def
  using sim_core [OF assms(1,3)] by (auto simp: core_sim_def intro!: sim_cpu [OF assms(1-3) refl])

lemma sim_cmp:
  assumes "sim p v s" "prog_ok p" "c < a_cores p"
  shows "sim p (update_sub_flags c a b (a - b) v) (upd_core c (\<lambda>r. r\<lparr>a_zf := a = b\<rparr>) s)"
proof -
  obtain g where g: "\<forall>f. bit (g f) 3 = (a - b = 0)" "update_sub_flags c a b (a - b) v = upd_cpu c (\<lambda>q. q\<lparr>flags := g (flags q)\<rparr>) v"
    using cmp_form by blast
  show ?thesis unfolding g(2) upd_core_def
    using sim_core [OF assms(1,3)] g(1) by (auto simp: core_sim_def intro!: sim_cpu [OF assms(1-3) refl])
qed

lemma data_plain:
  assumes "sim p v s" "data_addr a"
  shows "bus_ok v" "dev_at v a = None" "in_ram v a 4"
proof -
  have v: "mmio_devices v = boot_devices" "memory_size v = MEM_SIZE" "bus_ok v" using assms(1) by (simp_all add: sim_def image_sim_def)
  show "bus_ok v" by (rule v(3))
  show "in_ram v a 4" using data_addr_bounds [OF assms(2)] v(2) by (simp add: in_ram_def)
  show "dev_at v a = None" unfolding dev_at_boot [OF v(1)] using assms(2) by (auto simp: data_addr_def word_le_nat_alt word_less_nat_alt)
qed

lemma sim_nocache: "sim p v s \<Longrightarrow> sim p (nocache v) s"
  by (simp add: sim_def image_sim_def pending_def)

lemma sim_read:
  assumes "sim p v s" "data_addr a"
  shows "vm_read32 h v a = Inr (a_word s a, nocache v)"
  using vm_read32_ram [OF data_plain [OF assms], of h] assms by (simp add: sim_def)

lemma sim_write:
  assumes "sim p v s" "prog_ok p" "data_addr a"
  shows "\<exists>w. vm_write32 v a x = Inr w \<and> sim p w (s\<lparr>a_word := (a_word s)(a := x)\<rparr>)"
proof -
  let ?w = "v\<lparr>mmio_cache_dev := None, memory := store32 (memory v) a x\<rparr>"
  have n: "a_cores p \<le> 64" using assms(2) by (simp add: prog_ok_def)
  note b = data_addr_bounds [OF assms(3)]
  have out: "memory ?w c = memory v c" if "unat c < 0x3000 \<or> 0x4000 \<le> unat c" for c
    using b that by (auto intro!: store32_other)
  have "image_sim p ?w"
    using assms(1,2) out by (intro image_sim_mem [of p v ?w]) (auto simp: sim_def image_sim_def bus_ok_def cache_ok_def)
  moreover have "load32 (memory ?w) d = ((a_word s)(a := x)) d" if "data_addr d" for d
  proof (cases "d = a")
    case False
    then have "unat d \<noteq> unat a" by (simp add: word_unat_eq_iff)
    then have "unat d + 4 \<le> unat a \<or> unat a + 4 \<le> unat d" using b data_addr_bounds [OF that] by presburger
    then have "load32 (store32 (memory v) a x) d = load32 (memory v) d" using b data_addr_bounds [OF that] by (intro load32_store32_other) auto
    then show ?thesis using False assms(1) that by (simp add: sim_def)
  qed simp
  moreover have "core_sim (a_cores p) c (cpus v c) (memory ?w) (acores s c)" if "c < a_cores p" for c
  proof (rule core_sim_mem [OF sim_core [OF assms(1) that] that n])
    fix d :: u32 assume d: "core_base (a_cores p) c \<le> unat d" "unat d < core_base (a_cores p) c + 5120"
    then have "unat d < 0x3000 \<or> 0x4000 \<le> unat d" using core_block_apart [OF that n, of d] by linarith
    then show "memory ?w d = memory v d" by (rule out)
  qed
  ultimately have "sim p ?w (s\<lparr>a_word := (a_word s)(a := x)\<rparr>)" using assms(1) by (auto simp: sim_def pending_def)
  then show ?thesis using vm_write32_ram [OF data_plain [OF assms(1,3)], of x] by auto
qed

lemma sim_call:
  assumes "sim p v s" "prog_ok p" "c < a_cores p" "length (a_calls (acores s c)) < 256"
  shows "\<exists>w. call_push c (ucast a) v = Inr w \<and> last_ip (cpus w c) = last_ip (cpus v c)
     \<and> sim p w (upd_core c (\<lambda>r. r\<lparr>a_calls := a # a_calls r\<rparr>) s)"
proof -
  let ?n = "a_cores p"
  note sc = sim_core [OF assms(1,3)] and ok = core_stacks(1) [OF assms(1-3)]
  note cs = sc [unfolded core_sim_def]
  have n: "?n \<le> 64" using assms(2) by (simp add: prog_ok_def)
  obtain w where w: "call_push c (ucast a) v = Inr w" "call.ok c w" "call.content c w = ucast a # call.content c v"
    "stack_fr csp_update csp call_stack_base 8 c v w"
    using call.push_room [OF ok, of "ucast a"] cs assms(4) by auto
  obtain k where k: "cpus w c = (cpus v c)\<lparr>csp := k\<rparr>" using stack_fr_core [OF w(4)] by blast
  have mem: "memory w b = memory v b" if "unat b < core_base ?n c \<or> core_base ?n c + 2048 \<le> unat b" for b
    using stack_fr_mem [OF w(4)] that cs by simp
  have "isr.content c w = isr.content c v"
    unfolding k using cs mem core_base_bounds(1) [OF assms(3) n] by (simp, intro content_cong) auto
  then have core: "core_sim ?n c (cpus w c) (memory w) ((acores s c)\<lparr>a_calls := a # a_calls (acores s c)\<rparr>)"
    using cs w(2,3) by (simp add: core_sim_def k stack_ok_def)
  have eq: "w = v\<lparr>memory := memory w, mmio_cache_dev := mmio_cache_dev w, cpus := (cpus v)(c := cpus w c)\<rparr>"
    using w(4) k unfolding stack_fr_def by simp
  have "sim p w (s\<lparr>acores := (acores s)(c := (acores s c)\<lparr>a_calls := a # a_calls (acores s c)\<rparr>)\<rparr>)"
    by (rule sim_frame [OF assms(1-3) eq _ _ core]) (use w(2) in \<open>auto simp: stack_ok_def intro!: mem\<close>)
  then show ?thesis using w(1) k by (simp add: upd_core_def)
qed

lemma sim_return:
  assumes "sim p v s" "prog_ok p" "c < a_cores p" "a_calls (acores s c) = a # as"
  shows "\<exists>w. call_pop h c v = Inr (ucast a, w) \<and> sim p w (upd_core c (\<lambda>r. r\<lparr>a_calls := as\<rparr>) s)"
proof -
  let ?n = "a_cores p"
  note sc = sim_core [OF assms(1,3)] and ok = core_stacks(1) [OF assms(1-3)]
  note cs = sc [unfolded core_sim_def]
  have n: "?n \<le> 64" using assms(2) by (simp add: prog_ok_def)
  obtain w where w: "call_pop h c v = Inr (ucast a, w)" "call.ok c w" "call.content c w = map ucast as"
    "stack_fr csp_update csp call_stack_base 8 c v w"
    using call.pop_cons [OF ok, of "ucast a" "map ucast as" h] cs assms(4) by auto
  obtain k where k: "cpus w c = (cpus v c)\<lparr>csp := k\<rparr>" using stack_fr_core [OF w(4)] by blast
  have mem: "memory w b = memory v b" if "unat b < core_base ?n c \<or> core_base ?n c + 2048 \<le> unat b" for b
    using stack_fr_mem [OF w(4)] that cs by simp
  have "isr.content c w = isr.content c v"
    unfolding k using cs mem core_base_bounds(1) [OF assms(3) n] by (simp, intro content_cong) auto
  then have core: "core_sim ?n c (cpus w c) (memory w) ((acores s c)\<lparr>a_calls := as\<rparr>)"
    using cs w(2,3) by (simp add: core_sim_def k stack_ok_def)
  have eq: "w = v\<lparr>memory := memory w, mmio_cache_dev := mmio_cache_dev w, cpus := (cpus v)(c := cpus w c)\<rparr>"
    using w(4) k unfolding stack_fr_def by simp
  have "sim p w (s\<lparr>acores := (acores s)(c := (acores s c)\<lparr>a_calls := as\<rparr>)\<rparr>)"
    by (rule sim_frame [OF assms(1-3) eq _ _ core]) (use w(2) in \<open>auto simp: stack_ok_def intro!: mem\<close>)
  then show ?thesis using w(1) k by (simp add: upd_core_def)
qed

lemma sim_iret:
  assumes "sim p v s" "prog_ok p" "c < a_cores p" "a_saved (acores s c) = Some (R, a, z)"
  shows "\<exists>w. vm_iret h c v = Inr w \<and> sim p w (upd_core c (\<lambda>r. r\<lparr>a_regs := R, a_ip := a, a_zf := z, a_saved := None\<rparr>) s)"
proof -
  let ?n = "a_cores p"
  note sc = sim_core [OF assms(1,3)] and ok = core_stacks(2) [OF assms(1-3)]
  note cs = sc [unfolded core_sim_def]
  have n: "?n \<le> 64" using assms(2) by (simp add: prog_ok_def)
  obtain fl where fl: "z = (fl AND FLAG_ZF \<noteq> 0)" "isr.content c v = map (\<lambda>i. ucast (R i)) (rev [0..<32]) @ [ucast fl, ucast a] @ []"
    using cs assms(4) by (auto simp: saved_sim_def)
  have int: "in_interrupt (cpus v c)" using cs assms(4) by simp
  obtain w k where w: "vm_iret h c v = Inr w" "isr.ok c w" "isr.content c w = []" "ctx_frame c v w"
     "cpus w c = (cpus v c)\<lparr>isp := k, regs := \<lambda>i. if i < 32 then R i else regs (cpus v c) i, flags := fl, ip := a, in_interrupt := False\<rparr>"
    using iret_pops [OF ok int fl(2), of h] by blast
  have mem: "memory w b = memory v b" if "unat b < core_base ?n c + 3072 \<or> core_base ?n c + 5120 \<le> unat b" for b
    using w(4) that cs unfolding ctx_frame_def by auto
  have "stack_content load64 8 (call_stack_base (cpus v c)) (csp (cpus v c)) (memory w) = map ucast (a_calls (acores s c))"
    using call_content_outside [OF sc assms(3) n mem] cs by simp
  moreover have "0 \<le> isp (cpus w c)" "isp (cpus w c) \<le> 256" using w(2) by (simp_all add: stack_ok_def)
  ultimately have core: "core_sim ?n c (cpus w c) (memory w) ((acores s c)\<lparr>a_regs := R, a_ip := a, a_zf := z, a_saved := None\<rparr>)"
    using cs w(3) by (simp add: core_sim_def w(5) saved_sim_def fl(1))
  have eq: "w = v\<lparr>memory := memory w, mmio_cache_dev := mmio_cache_dev w, cpus := (cpus v)(c := cpus w c)\<rparr>"
    using w(4) unfolding ctx_frame_def by blast
  have "sim p w (s\<lparr>acores := (acores s)(c := (acores s c)\<lparr>a_regs := R, a_ip := a, a_zf := z, a_saved := None\<rparr>)\<rparr>)"
    by (rule sim_frame [OF assms(1-3) eq _ _ core]) (use w(2) in \<open>auto simp: stack_ok_def intro!: mem\<close>)
  then show ?thesis using w(1) by (simp add: upd_core_def)
qed

lemma upd_core_upd: "upd_core c f (upd_core c g s) = upd_core c (\<lambda>r. f (g r)) s"
  by (simp add: upd_core_def)

lemma acores_upd [simp]: "acores (upd_core c f s) d = (if d = c then f (acores s c) else acores s d)"
  by (simp add: upd_core_def)

lemma upd_core_fields [simp]:
  "a_on (upd_core c f s) = a_on s" "a_word (upd_core c f s) = a_word s" "a_irq (upd_core c f s) = a_irq s" "a_halted (upd_core c f s) = a_halted s"
  by (simp_all add: upd_core_def)

lemma sim_startap:
  assumes "sim p v s" "prog_ok p" "t < a_cores p"
  shows "sim p ((upd_cpu t (\<lambda>r. r\<lparr>ip := a, last_ip := a\<rparr>) v)\<lparr>core_released := (core_released v)(t := True)\<rparr>)
     ((upd_core t (\<lambda>r. r\<lparr>a_ip := a\<rparr>) s)\<lparr>a_on := (a_on s)(t := True)\<rparr>)"
proof -
  let ?v = "upd_cpu t (\<lambda>r. r\<lparr>ip := a, last_ip := a\<rparr>) v"
  have "sim p ?v (upd_core t (\<lambda>r. r\<lparr>a_ip := a\<rparr>) s)"
    unfolding upd_core_def using sim_core [OF assms(1,3)] by (auto simp: core_sim_def intro!: sim_cpu [OF assms refl])
  moreover have "bus_ok (?v\<lparr>core_released := x\<rparr>) = bus_ok ?v" for x by (rule bus_ok_cong) (simp_all add: cache_frame_def)
  ultimately show ?thesis by (auto simp: sim_def image_sim_def pending_def)
qed

lemma sim_ipi:
  assumes "sim p v s" "t < a_cores p"
  shows "sim p (trigger_interrupt_target (int t) 5 v) (s\<lparr>a_irq := (a_irq s)(t := True)\<rparr>)"
proof -
  have n: "smp_cores v = a_cores p" using assms(1) by (simp add: sim_def image_sim_def)
  have "bus_ok (trigger_interrupt_target (int t) 5 v) = bus_ok v" by (rule bus_ok_cong) (simp_all add: cache_frame_def)
  then have "image_sim p (trigger_interrupt_target (int t) 5 v)" using assms(1) by (simp add: sim_def image_sim_def)
  moreover have "pending (trigger_interrupt_target (int t) 5 v) d m = (m = 5 \<and> ((a_irq s)(t := True)) d)" if "m < 256" "d < a_cores p" for d m
    using pending_trigger [of t v 5 m d] assms that n by (auto simp: sim_def)
  ultimately show ?thesis using assms(1) by (simp add: sim_def)
qed

text \<open>The machine after the fetch of an instruction.\<close>

definition fetched :: "aprog \<Rightarrow> nat \<Rightarrow> amachine \<Rightarrow> vm \<Rightarrow> bool" where
  "fetched p c s u \<longleftrightarrow>
     prog_ok p \<and> c < a_cores p \<and> sim p u (upd_core c (\<lambda>r. r\<lparr>a_ip := a_ip r + 8\<rparr>) s) \<and> last_ip (cpus u c) = a_ip (acores s c)"

lemma fetchedD:
  assumes "fetched p c s u"
  shows "prog_ok p" "c < a_cores p" "sim p u (upd_core c (\<lambda>r. r\<lparr>a_ip := a_ip r + 8\<rparr>) s)" "last_ip (cpus u c) = a_ip (acores s c)"
    "ip (cpus u c) = a_ip (acores s c) + 8" "bit (flags (cpus u c)) 3 = a_zf (acores s c)" "is_bsp (cpus u c) = (c = 0)"
    "core_id (cpus u c) = int c" "smp_cores u = a_cores p" "unat d < 32 \<Longrightarrow> rd_reg c d u = Inr (a_regs (acores s c) (unat d))"
  using assms sim_core [of p u "upd_core c (\<lambda>r. r\<lparr>a_ip := a_ip r + 8\<rparr>) s" c]
  by (simp_all add: fetched_def core_sim_def sim_def image_sim_def rd_reg_def)

lemma exec_regs:
  assumes "fetched p c s u" "aexec (a_cores p) c i s = Some s'" "i_op i \<in> {OP_MOVI, OP_CMPI, OP_CPUID, OP_PAUSE}"
  shows "\<exists>w. dispatch h c i u = Inr w \<and> sim p w s'"
proof -
  note d = fetchedD [OF assms(1)]
  have b: "unat (i_rd i) < 32" "unat (i_rs1 i) < 32" using assms(2) by (auto simp: aexec_def Let_def split: if_splits)
  show ?thesis
    using assms(2,3) sim_set_reg [OF d(3,1,2) b(1), of "i_imm i"] sim_set_reg [OF d(3,1,2) b(1), of "of_nat c"]
      sim_cmp [OF d(3,1,2), of "a_regs (acores s c) (unat (i_rd i))" "i_imm i"] d(3)
    by (elim insertE emptyE) (auto simp: aexec_def dispatch_def op_movi_def op_cmpi_def op_cpuid_def Let_def b d(8,10))
qed

lemma sim_halt: "sim p v s \<Longrightarrow> sim p (v\<lparr>halted := True\<rparr>) (s\<lparr>a_halted := True\<rparr>)"
  using bus_ok_cong [of "v\<lparr>halted := True\<rparr>" v] by (simp add: sim_def image_sim_def pending_def cache_frame_def)

lemma exec_jump:
  assumes "fetched p c s u" "aexec (a_cores p) c i s = Some s'" "i_op i \<in> {OP_JMP, OP_RJMP, OP_JNZ, OP_RJZ, OP_RJNZ, OP_HALT}"
  shows "\<exists>w. dispatch h c i u = Inr w \<and> sim p w s'"
proof -
  note d = fetchedD [OF assms(1)]
  have b: "unat (i_rd i) < 32" "unat (i_rs1 i) < 32" using assms(2) by (auto simp: aexec_def Let_def split: if_splits)
  show ?thesis
    using assms(2,3) sim_ip [OF d(3,1,2), of "i_imm i"] sim_ip [OF d(3,1,2), of "a_ip (acores s c) + i_imm i"] d(3) sim_halt [OF d(3)]
    by (elim insertE emptyE)
       (auto simp: aexec_def dispatch_def op_jmp_def op_rjmp_def op_jnz_def op_rjz_def op_rjnz_def op_halt_def jump_if_def Let_def b d(4-6) rel_target)
qed

lemma exec_mem:
  assumes "fetched p c s u" "aexec (a_cores p) c i s = Some s'" "i_op i \<in> {OP_STORE32, OP_LOAD32}"
  shows "\<exists>w. dispatch h c i u = Inr w \<and> sim p w s'"
proof -
  note d = fetchedD [OF assms(1)]
  have b: "unat (i_rd i) < 32" "unat (i_rs1 i) < 32" "data_addr (a_regs (acores s c) (unat (i_rs1 i)) + i_imm i)"
    using assms(2,3) by (auto simp: aexec_def Let_def split: if_splits)
  show ?thesis
    using assms(2,3) sim_write [OF d(3,1) b(3)] sim_read [OF d(3) b(3), of h] sim_set_reg [OF sim_nocache [OF d(3)] d(1,2) b(1)]
    by (elim insertE emptyE) (auto simp: aexec_def dispatch_def op_store32_def op_load32_def Let_def b d(10))
qed

lemma exec_stack:
  assumes "fetched p c s u" "aexec (a_cores p) c i s = Some s'" "i_op i \<in> {OP_RCALL, OP_RET, OP_IRET}"
  shows "\<exists>w. dispatch h c i u = Inr w \<and> sim p w s'"
proof -
  note d = fetchedD [OF assms(1)]
  have b: "unat (i_rd i) < 32" "unat (i_rs1 i) < 32" using assms(2) by (auto simp: aexec_def Let_def split: if_splits)
  from assms(3) consider (call) "i_op i = OP_RCALL" | (ret) "i_op i = OP_RET" | (iret) "i_op i = OP_IRET" by auto
  then show ?thesis
  proof cases
    case call
    then have l: "length (a_calls (acores s c)) < 256" using assms(2) b by (auto simp: aexec_def Let_def split: if_splits)
    then obtain w where w: "call_push c (ucast (a_ip (acores s c) + 8)) u = Inr w" "last_ip (cpus w c) = last_ip (cpus u c)"
       "sim p w (upd_core c (\<lambda>r. r\<lparr>a_calls := (a_ip (acores s c) + 8) # a_calls r\<rparr>) (upd_core c (\<lambda>r. r\<lparr>a_ip := a_ip r + 8\<rparr>) s))"
      using sim_call [OF d(3,1,2), of "a_ip (acores s c) + 8"] by auto
    show ?thesis using sim_ip [OF w(3) d(1,2)] assms(2) l b w(1,2) by (auto simp: aexec_def dispatch_def op_rcall_def Let_def call rel_target d(4,5))
  next
    case ret
    then obtain a as where a: "a_calls (acores s c) = a # as" using assms(2) b by (auto simp: aexec_def Let_def split: list.splits)
    then obtain w where w: "call_pop h c u = Inr (ucast a, w)" "sim p w (upd_core c (\<lambda>r. r\<lparr>a_calls := as\<rparr>) (upd_core c (\<lambda>r. r\<lparr>a_ip := a_ip r + 8\<rparr>) s))"
      using sim_return [OF d(3,1,2), of a as h] by auto
    show ?thesis using sim_ip [OF w(2) d(1,2)] assms(2) a b w(1) by (auto simp: aexec_def dispatch_def op_ret_def Let_def ret)
  next
    case iret
    show ?thesis
    proof (cases "a_saved (acores s c)")
      case None
      then have "\<not> in_interrupt (cpus u c)" using sim_core [OF d(3,2)] by (simp add: core_sim_def)
      then show ?thesis using None assms(2) b d(3) iret by (auto simp: aexec_def dispatch_def op_iret_def vm_iret_def Let_def)
    next
      case (Some x)
      then show ?thesis using sim_iret [OF d(3,1,2), of "fst x" "fst (snd x)" "snd (snd x)" h] assms(2) b iret
        by (auto simp: aexec_def dispatch_def op_iret_def Let_def split: prod.splits)
    qed
  qed
qed

lemma exec_cores:
  assumes "fetched p c s u" "aexec (a_cores p) c i s = Some s'" "i_op i \<in> {OP_STARTAP, OP_IPI}"
  shows "\<exists>w. dispatch h c i u = Inr w \<and> sim p w s'"
proof -
  note d = fetchedD [OF assms(1)]
  have b: "unat (i_rd i) < 32" "unat (i_rs1 i) < 32" using assms(2) by (auto simp: aexec_def Let_def split: if_splits)
  let ?t = "sint (a_regs (acores s c) (unat (i_rd i)))"
  from assms(3) consider (start) "i_op i = OP_STARTAP" | (ipi) "i_op i = OP_IPI" by auto
  then show ?thesis
  proof cases
    case start
    show ?thesis
    proof (cases "c \<noteq> 0 \<or> ?t \<le> 0 \<or> int (a_cores p) \<le> ?t")
      case True
      then show ?thesis using assms(2) d(3) d(10) [OF b(1)] d(10) [OF b(2)] by (auto simp: aexec_def dispatch_def op_startap_def Let_def start b d(7,9))
    next
      case False
      then have "nat ?t < a_cores p" by linarith
      from sim_startap [OF d(3,1) this] show ?thesis
        using False assms(2) d(7) d(10) [OF b(1)] d(10) [OF b(2)] by (auto simp: aexec_def dispatch_def op_startap_def Let_def start b d(9))
    qed
  next
    case ipi
    have n: "a_regs (acores s c) (unat (i_rs1 i)) = 5" using assms(2) by (auto simp: aexec_def Let_def ipi b split: if_splits)
    show ?thesis
    proof (cases "?t < 0 \<or> int (a_cores p) \<le> ?t")
      case True
      then show ?thesis using assms(2) d(3) n by (auto simp: aexec_def dispatch_def op_ipi_def Let_def ipi b d(9,10) trigger_interrupt_target_def)
    next
      case False
      then have "nat ?t < a_cores p" "int (nat ?t) = ?t" by linarith+
      with sim_ipi [OF d(3) this(1)] show ?thesis
        using False assms(2) n by (auto simp: aexec_def dispatch_def op_ipi_def Let_def ipi b d(10))
    qed
  qed
qed

section \<open>A turn\<close>

lemma instruction_sim:
  assumes "sim p v s" "prog_ok p" "c < a_cores p" "afetch p (a_ip (acores s c)) = Some i" "aexec (a_cores p) c i s = Some s'"
  shows "\<exists>w. vm_instruction_case h c v = Inr w \<and> sim p w s'"
proof -
  let ?f = "\<lambda>r. r\<lparr>last_ip := ip r, ip := ip r + 8\<rparr>"
  note sc = sim_core [OF assms(1,3), unfolded core_sim_def]
  have "sim p (upd_cpu c ?f v) (upd_core c (\<lambda>r. r\<lparr>a_ip := a_ip r + 8\<rparr>) s)"
    unfolding upd_core_def using sc by (auto simp: core_sim_def intro!: sim_cpu [OF assms(1-3) refl])
  then have f: "fetched p c s (upd_cpu c ?f v)" using assms(2,3) sc by (simp add: fetched_def)
  have "i_op i \<in> {OP_MOVI, OP_CMPI, OP_CPUID, OP_PAUSE} \<or> i_op i \<in> {OP_JMP, OP_RJMP, OP_JNZ, OP_RJZ, OP_RJNZ, OP_HALT}
     \<or> i_op i \<in> {OP_STORE32, OP_LOAD32} \<or> i_op i \<in> {OP_RCALL, OP_RET, OP_IRET} \<or> i_op i \<in> {OP_STARTAP, OP_IPI}"
    using assms(5) by (simp add: aexec_def Let_def split: if_splits)
  then have "\<exists>w. dispatch h c i (upd_cpu c ?f v) = Inr w \<and> sim p w s'"
    using exec_regs [OF f assms(5)] exec_jump [OF f assms(5)] exec_mem [OF f assms(5)] exec_stack [OF f assms(5)] exec_cores [OF f assms(5)] by blast
  then show ?thesis by (simp add: vm_instruction_case_def fetch_sim [OF assms(1-4)])
qed

lemma sim_flush:
  assumes "sim p v s" "prog_ok p" "c < a_cores p"
  shows "sim p (snd (vm_flush_execution_times c k v)) s"
proof -
  have "sim p (upd_cpu c (\<lambda>r. r\<lparr>execution_times := x r\<rparr>) v) (s\<lparr>acores := (acores s)(c := acores s c)\<rparr>)" for x
    using sim_core [OF assms(1,3)] by (intro sim_cpu [OF assms refl]) (simp add: core_sim_def)
  then show ?thesis using assms(1) by (simp add: vm_flush_execution_times_def)
qed

text \<open>Every turn that the specification allows is a turn of the core thread.\<close>

lemma turn_sim:
  assumes "sim p v s" "prog_ok p" "c < a_cores p" "aturn p c s = Some s'"
  shows "\<exists>r. vm_thread_turn h c k v = Inr r \<and> sim p (thread_vm r) s' \<and> (\<not> a_halted s \<longrightarrow> (\<exists>k' w. r = T_run k' w))"
proof -
  have e: "halted v = a_halted s" "core_released v c = a_on s c" using assms(1,3) by (simp_all add: sim_def)
  show ?thesis
  proof (cases "a_halted s \<or> c \<noteq> 0 \<and> \<not> a_on s c")
    case True
    then show ?thesis using sim_flush [OF assms(1-3), of k] assms(1,4) by (auto simp: aturn_def vm_thread_turn_def e)
  next
    case False
    then obtain t i where t: "adeliver p c s = Some t" "afetch p (a_ip (acores t c)) = Some i" "aexec (a_cores p) c i t = Some s'"
      using assms(4) by (auto simp: aturn_def bind_eq_Some_conv)
    obtain u where u: "vm_handle_interrupts h c v = Inr u" "sim p u t" using deliver_sim [OF assms(1-3) t(1)] by blast
    obtain w where w: "vm_instruction_case h c u = Inr w" "sim p w s'" using instruction_sim [OF u(2) assms(2,3) t(2,3)] by blast
    have x: "sim p (disk_tick x) s'" if "sim p x s'" for x using that by (simp add: sim_def image_sim_def disk_tick_def)
    obtain k' x where f: "(if 1024 \<le> k + 1 then vm_flush_execution_times c (k + 1) w else (k + 1, w)) = (k', x)" by fastforce
    have "sim p x s'" using f sim_flush [OF w(2) assms(2,3), of "k + 1"] w(2) by (auto split: if_splits)
    then show ?thesis using False u(1) w(1) f x by (auto simp: vm_thread_turn_def e Let_def)
  qed
qed

end
