(* ===== verification/TestPrograms.thy ===== *)
theory TestPrograms
  imports IsaSpec
begin

text \<open>
  The programs of the built-in self tests of \<open>vm.c\<close> and what they do in the programmer's model of \<open>IsaSpec\<close>.
  The two tests with one core are straight runs. In the tests with two cores the turns come in any order: \<open>startap_at\<close> and
  \<open>ipi_at\<close> are their invariants, with the positions of the cores as control states, and \<open>helped\<close> is the argument that a schedule
  with enough rounds brings them to their end.
\<close>

section \<open>The test programs\<close>

definition startap_program :: "u64 list" where
  "startap_program =
     (let flag_addr = 0x3000; ap_entry = PROGRAM_BASE + 11 * 8 in
      [INST OP_MOVI 1 0 0 1,
       INST OP_MOVI 2 0 0 ap_entry,
       INST OP_STARTAP 1 2 0 0,
       INST OP_MOVI 4 0 0 flag_addr,
       INST OP_LOAD32 3 4 0 0,
       INST OP_CMPI 3 0 0 1,
       INST OP_JNZ 0 0 0 (PROGRAM_BASE + 4 * 8),
       INST OP_HALT 0 0 0 0,
       INST OP_PAUSE 0 0 0 0,
       INST OP_PAUSE 0 0 0 0,
       INST OP_PAUSE 0 0 0 0,
       INST OP_CPUID 5 0 0 0,
       INST OP_MOVI 6 0 0 flag_addr,
       INST OP_STORE32 5 6 0 0,
       INST OP_PAUSE 0 0 0 0,
       INST OP_JMP 0 0 0 (ap_entry + 3 * 8)])"

definition ipi_program :: "u64 list" where
  "ipi_program =
     (let ready_addr = 0x3010; ipi_addr = 0x3014; ap_entry = PROGRAM_BASE + 14 * 8 in
      [INST OP_MOVI 1 0 0 1,
       INST OP_MOVI 2 0 0 ap_entry,
       INST OP_STARTAP 1 2 0 0,
       INST OP_MOVI 10 0 0 ready_addr,
       INST OP_LOAD32 11 10 0 0,
       INST OP_CMPI 11 0 0 1,
       INST OP_JNZ 0 0 0 (PROGRAM_BASE + 4 * 8),
       INST OP_MOVI 12 0 0 5,
       INST OP_IPI 1 12 0 0,
       INST OP_MOVI 13 0 0 ipi_addr,
       INST OP_LOAD32 14 13 0 0,
       INST OP_CMPI 14 0 0 1,
       INST OP_JNZ 0 0 0 (PROGRAM_BASE + 10 * 8),
       INST OP_HALT 0 0 0 0,
       INST OP_MOVI 6 0 0 ready_addr,
       INST OP_MOVI 7 0 0 1,
       INST OP_STORE32 7 6 0 0,
       INST OP_PAUSE 0 0 0 0,
       INST OP_JMP 0 0 0 (ap_entry + 3 * 8),
       INST OP_PAUSE 0 0 0 0,
       INST OP_MOVI 8 0 0 ipi_addr,
       INST OP_MOVI 9 0 0 1,
       INST OP_STORE32 9 8 0 0,
       INST OP_IRET 0 0 0 0])"

definition relctrl_program :: "u64 list" where
  "relctrl_program =
     (let flag_addr = 0x3020 in
      [INST OP_MOVI 10 0 0 flag_addr,
       INST OP_MOVI 11 0 0 0,
       INST OP_STORE32 11 10 0 0,
       INST OP_MOVI 1 0 0 0,
       INST OP_RJMP 0 0 0 16,
       INST OP_MOVI 1 0 0 111,
       INST OP_RCALL 0 0 0 104,
       INST OP_CMPI 1 0 0 7,
       INST OP_RJZ 0 0 0 16,
       INST OP_RJMP 0 0 0 56,
       INST OP_CMPI 1 0 0 8,
       INST OP_RJNZ 0 0 0 16,
       INST OP_RJMP 0 0 0 32,
       INST OP_MOVI 11 0 0 1,
       INST OP_STORE32 11 10 0 0,
       INST OP_HALT 0 0 0 0,
       INST OP_MOVI 11 0 0 2,
       INST OP_STORE32 11 10 0 0,
       INST OP_HALT 0 0 0 0,
       INST OP_MOVI 1 0 0 7,
       INST OP_RET 0 0 0 0])"

definition zero_branch_program :: "u64 list" where
  "zero_branch_program =
     (let flag_addr = 0x3024; fail_addr = PROGRAM_BASE + 16 * 8 in
      [INST OP_MOVI 10 0 0 flag_addr,
       INST OP_MOVI 11 0 0 0,
       INST OP_STORE32 11 10 0 0,
       INST OP_MOVI 2 0 0 123,
       INST OP_MOVI 1 0 0 7,
       INST OP_CMPI 1 0 0 7,
       INST OP_RJZ 2 0 0 16,
       INST OP_JMP 0 0 0 fail_addr,
       INST OP_MOVI 2 0 0 0,
       INST OP_MOVI 1 0 0 7,
       INST OP_CMPI 1 0 0 8,
       INST OP_RJNZ 2 0 0 16,
       INST OP_JMP 0 0 0 fail_addr,
       INST OP_MOVI 11 0 0 1,
       INST OP_STORE32 11 10 0 0,
       INST OP_HALT 0 0 0 0,
       INST OP_MOVI 11 0 0 2,
       INST OP_STORE32 11 10 0 0,
       INST OP_HALT 0 0 0 0])"

section \<open>Single-core tests\<close>

definition start_core :: acore where
  "start_core = \<lparr>a_regs = \<lambda>_. 0, a_ip = PROGRAM_BASE, a_zf = False, a_calls = [], a_saved = None\<rparr>"

definition start_machine :: amachine where
  "start_machine = \<lparr>acores = \<lambda>_. start_core, a_on = \<lambda>c. c = 0, a_word = \<lambda>_. 0, a_irq = \<lambda>_. False, a_halted = False\<rparr>"

text \<open>The instructions one by one.\<close>

lemma aexec_regs:
  assumes "unat d < 32" "unat x < 32"
  shows "aexec n c \<lparr>i_op = OP_MOVI, i_rd = d, i_rs1 = x, i_rs2 = y, i_imm = m\<rparr> s
      = Some (upd_core c (\<lambda>r. r\<lparr>a_ip := a_ip r + 8, a_regs := (a_regs r)(unat d := m), a_zf := m = 0\<rparr>) s)"
    "aexec n c \<lparr>i_op = OP_CMPI, i_rd = d, i_rs1 = x, i_rs2 = y, i_imm = m\<rparr> s
      = Some (upd_core c (\<lambda>r. r\<lparr>a_ip := a_ip r + 8, a_zf := a_regs r (unat d) = m\<rparr>) s)"
    "aexec n c \<lparr>i_op = OP_CPUID, i_rd = d, i_rs1 = x, i_rs2 = y, i_imm = m\<rparr> s
      = Some (upd_core c (\<lambda>r. r\<lparr>a_ip := a_ip r + 8, a_regs := (a_regs r)(unat d := of_nat c), a_zf := (of_nat c :: u32) = 0\<rparr>) s)"
    "aexec n c \<lparr>i_op = OP_PAUSE, i_rd = d, i_rs1 = x, i_rs2 = y, i_imm = m\<rparr> s = Some (upd_core c (\<lambda>r. r\<lparr>a_ip := a_ip r + 8\<rparr>) s)"
    "aexec n c \<lparr>i_op = OP_HALT, i_rd = d, i_rs1 = x, i_rs2 = y, i_imm = m\<rparr> s = Some ((upd_core c (\<lambda>r. r\<lparr>a_ip := a_ip r + 8\<rparr>) s)\<lparr>a_halted := True\<rparr>)"
  using assms by (simp_all add: aexec_def Let_def upd_core_def)

lemma aexec_jumps:
  assumes "unat d < 32" "unat x < 32"
  shows "aexec n c \<lparr>i_op = OP_JMP, i_rd = d, i_rs1 = x, i_rs2 = y, i_imm = m\<rparr> s = Some (upd_core c (\<lambda>r. r\<lparr>a_ip := m\<rparr>) s)"
    "aexec n c \<lparr>i_op = OP_RJMP, i_rd = d, i_rs1 = x, i_rs2 = y, i_imm = m\<rparr> s = Some (upd_core c (\<lambda>r. r\<lparr>a_ip := a_ip r + m\<rparr>) s)"
    "aexec n c \<lparr>i_op = OP_JNZ, i_rd = d, i_rs1 = x, i_rs2 = y, i_imm = m\<rparr> s = Some (upd_core c (\<lambda>r. r\<lparr>a_ip := if a_zf r then a_ip r + 8 else m\<rparr>) s)"
    "aexec n c \<lparr>i_op = OP_RJZ, i_rd = d, i_rs1 = x, i_rs2 = y, i_imm = m\<rparr> s = Some (upd_core c (\<lambda>r. r\<lparr>a_ip := a_ip r + (if a_zf r then m else 8)\<rparr>) s)"
    "aexec n c \<lparr>i_op = OP_RJNZ, i_rd = d, i_rs1 = x, i_rs2 = y, i_imm = m\<rparr> s = Some (upd_core c (\<lambda>r. r\<lparr>a_ip := a_ip r + (if a_zf r then 8 else m)\<rparr>) s)"
  using assms by (simp_all add: aexec_def Let_def upd_core_def)

lemma aexec_memory:
  assumes "unat d < 32" "unat x < 32" "data_addr (a_regs (acores s c) (unat x) + m)"
  shows "aexec n c \<lparr>i_op = OP_STORE32, i_rd = d, i_rs1 = x, i_rs2 = y, i_imm = m\<rparr> s
      = Some ((upd_core c (\<lambda>r. r\<lparr>a_ip := a_ip r + 8\<rparr>) s)\<lparr>a_word := (a_word s)(a_regs (acores s c) (unat x) + m := a_regs (acores s c) (unat d))\<rparr>)"
    "aexec n c \<lparr>i_op = OP_LOAD32, i_rd = d, i_rs1 = x, i_rs2 = y, i_imm = m\<rparr> s
      = Some (upd_core c (\<lambda>r. r\<lparr>a_ip := a_ip r + 8, a_regs := (a_regs r)(unat d := a_word s (a_regs (acores s c) (unat x) + m)),
                                 a_zf := a_word s (a_regs (acores s c) (unat x) + m) = 0\<rparr>) s)"
  using assms by (simp_all add: aexec_def Let_def upd_core_def)

lemma aexec_stack:
  assumes "unat d < 32" "unat x < 32"
  shows "length (a_calls (acores s c)) < 256 \<Longrightarrow> aexec n c \<lparr>i_op = OP_RCALL, i_rd = d, i_rs1 = x, i_rs2 = y, i_imm = m\<rparr> s
      = Some (upd_core c (\<lambda>r. r\<lparr>a_calls := (a_ip r + 8) # a_calls r, a_ip := a_ip r + m\<rparr>) s)"
    "a_calls (acores s c) = a # as \<Longrightarrow> aexec n c \<lparr>i_op = OP_RET, i_rd = d, i_rs1 = x, i_rs2 = y, i_imm = m\<rparr> s
      = Some (upd_core c (\<lambda>r. r\<lparr>a_calls := as, a_ip := a\<rparr>) s)"
    "a_saved (acores s c) = Some (R, b, z) \<Longrightarrow> aexec n c \<lparr>i_op = OP_IRET, i_rd = d, i_rs1 = x, i_rs2 = y, i_imm = m\<rparr> s
      = Some (upd_core c (\<lambda>r. r\<lparr>a_regs := R, a_ip := b, a_zf := z, a_saved := None\<rparr>) s)"
  using assms by (simp_all add: aexec_def Let_def upd_core_def)

lemmas aexec_simps = aexec_regs aexec_jumps aexec_memory aexec_stack

text \<open>A turn without an interrupt.\<close>

lemma aturn_exec:
  assumes "\<not> a_halted s" "c = 0 \<or> a_on s c" "\<not> a_irq s c" "afetch p (a_ip (acores s c)) = Some i"
  shows "aturn p c s = aexec (a_cores p) c i s"
  using assms by (auto simp: aturn_def adeliver_def)

lemma aturns_append: "aturns p (xs @ ys) s = Option.bind (aturns p xs s) (aturns p ys)"
proof (induction xs arbitrary: s)
  case (Cons c xs)
  then show ?case by (cases "aturn p c s") simp_all
qed simp

lemma aturns_halted: "a_halted s \<Longrightarrow> aturns p xs s = Some s"
  by (induction xs) (simp_all add: aturn_def)

lemmas afetch_simps = afetch_def decode_INST Let_def

definition relctrl_test :: aprog where
  "relctrl_test = \<lparr>a_code = relctrl_program, a_vec = None, a_cores = 1\<rparr>"

lemma relctrl_fetch:
  "afetch relctrl_test 0x201C = Some \<lparr>i_op = OP_MOVI, i_rd = 10, i_rs1 = 0, i_rs2 = 0, i_imm = 0x3020\<rparr>"
  "afetch relctrl_test 0x2024 = Some \<lparr>i_op = OP_MOVI, i_rd = 11, i_rs1 = 0, i_rs2 = 0, i_imm = 0\<rparr>"
  "afetch relctrl_test 0x202C = Some \<lparr>i_op = OP_STORE32, i_rd = 11, i_rs1 = 10, i_rs2 = 0, i_imm = 0\<rparr>"
  "afetch relctrl_test 0x2034 = Some \<lparr>i_op = OP_MOVI, i_rd = 1, i_rs1 = 0, i_rs2 = 0, i_imm = 0\<rparr>"
  "afetch relctrl_test 0x203C = Some \<lparr>i_op = OP_RJMP, i_rd = 0, i_rs1 = 0, i_rs2 = 0, i_imm = 16\<rparr>"
  "afetch relctrl_test 0x204C = Some \<lparr>i_op = OP_RCALL, i_rd = 0, i_rs1 = 0, i_rs2 = 0, i_imm = 104\<rparr>"
  "afetch relctrl_test 0x2054 = Some \<lparr>i_op = OP_CMPI, i_rd = 1, i_rs1 = 0, i_rs2 = 0, i_imm = 7\<rparr>"
  "afetch relctrl_test 0x205C = Some \<lparr>i_op = OP_RJZ, i_rd = 0, i_rs1 = 0, i_rs2 = 0, i_imm = 16\<rparr>"
  "afetch relctrl_test 0x206C = Some \<lparr>i_op = OP_CMPI, i_rd = 1, i_rs1 = 0, i_rs2 = 0, i_imm = 8\<rparr>"
  "afetch relctrl_test 0x2074 = Some \<lparr>i_op = OP_RJNZ, i_rd = 0, i_rs1 = 0, i_rs2 = 0, i_imm = 16\<rparr>"
  "afetch relctrl_test 0x2084 = Some \<lparr>i_op = OP_MOVI, i_rd = 11, i_rs1 = 0, i_rs2 = 0, i_imm = 1\<rparr>"
  "afetch relctrl_test 0x208C = Some \<lparr>i_op = OP_STORE32, i_rd = 11, i_rs1 = 10, i_rs2 = 0, i_imm = 0\<rparr>"
  "afetch relctrl_test 0x2094 = Some \<lparr>i_op = OP_HALT, i_rd = 0, i_rs1 = 0, i_rs2 = 0, i_imm = 0\<rparr>"
  "afetch relctrl_test 0x20B4 = Some \<lparr>i_op = OP_MOVI, i_rd = 1, i_rs1 = 0, i_rs2 = 0, i_imm = 7\<rparr>"
  "afetch relctrl_test 0x20BC = Some \<lparr>i_op = OP_RET, i_rd = 0, i_rs1 = 0, i_rs2 = 0, i_imm = 0\<rparr>"
  by (simp_all add: afetch_simps relctrl_test_def relctrl_program_def)

lemma relctrl_run:
  "\<exists>s. aturns relctrl_test [0, 0, 0, 0, 0, 0, 0, 0, 0, 0, 0, 0, 0, 0, 0] start_machine = Some s \<and> a_halted s \<and> a_word s 0x3020 = 1"
  by (simp add: start_machine_def start_core_def aturn_exec relctrl_fetch aexec_simps upd_core_def data_addr_def)

definition zero_branch_test :: aprog where
  "zero_branch_test = \<lparr>a_code = zero_branch_program, a_vec = None, a_cores = 1\<rparr>"

lemma zero_branch_fetch:
  "afetch zero_branch_test 0x201C = Some \<lparr>i_op = OP_MOVI, i_rd = 10, i_rs1 = 0, i_rs2 = 0, i_imm = 0x3024\<rparr>"
  "afetch zero_branch_test 0x2024 = Some \<lparr>i_op = OP_MOVI, i_rd = 11, i_rs1 = 0, i_rs2 = 0, i_imm = 0\<rparr>"
  "afetch zero_branch_test 0x202C = Some \<lparr>i_op = OP_STORE32, i_rd = 11, i_rs1 = 10, i_rs2 = 0, i_imm = 0\<rparr>"
  "afetch zero_branch_test 0x2034 = Some \<lparr>i_op = OP_MOVI, i_rd = 2, i_rs1 = 0, i_rs2 = 0, i_imm = 123\<rparr>"
  "afetch zero_branch_test 0x203C = Some \<lparr>i_op = OP_MOVI, i_rd = 1, i_rs1 = 0, i_rs2 = 0, i_imm = 7\<rparr>"
  "afetch zero_branch_test 0x2044 = Some \<lparr>i_op = OP_CMPI, i_rd = 1, i_rs1 = 0, i_rs2 = 0, i_imm = 7\<rparr>"
  "afetch zero_branch_test 0x204C = Some \<lparr>i_op = OP_RJZ, i_rd = 2, i_rs1 = 0, i_rs2 = 0, i_imm = 16\<rparr>"
  "afetch zero_branch_test 0x205C = Some \<lparr>i_op = OP_MOVI, i_rd = 2, i_rs1 = 0, i_rs2 = 0, i_imm = 0\<rparr>"
  "afetch zero_branch_test 0x2064 = Some \<lparr>i_op = OP_MOVI, i_rd = 1, i_rs1 = 0, i_rs2 = 0, i_imm = 7\<rparr>"
  "afetch zero_branch_test 0x206C = Some \<lparr>i_op = OP_CMPI, i_rd = 1, i_rs1 = 0, i_rs2 = 0, i_imm = 8\<rparr>"
  "afetch zero_branch_test 0x2074 = Some \<lparr>i_op = OP_RJNZ, i_rd = 2, i_rs1 = 0, i_rs2 = 0, i_imm = 16\<rparr>"
  "afetch zero_branch_test 0x2084 = Some \<lparr>i_op = OP_MOVI, i_rd = 11, i_rs1 = 0, i_rs2 = 0, i_imm = 1\<rparr>"
  "afetch zero_branch_test 0x208C = Some \<lparr>i_op = OP_STORE32, i_rd = 11, i_rs1 = 10, i_rs2 = 0, i_imm = 0\<rparr>"
  "afetch zero_branch_test 0x2094 = Some \<lparr>i_op = OP_HALT, i_rd = 0, i_rs1 = 0, i_rs2 = 0, i_imm = 0\<rparr>"
  by (simp_all add: afetch_simps zero_branch_test_def zero_branch_program_def)

lemma zero_branch_run:
  "\<exists>s. aturns zero_branch_test [0, 0, 0, 0, 0, 0, 0, 0, 0, 0, 0, 0, 0, 0] start_machine = Some s \<and> a_halted s \<and> a_word s 0x3024 = 1"
  by (simp add: start_machine_def start_core_def aturn_exec zero_branch_fetch aexec_simps upd_core_def data_addr_def)

section \<open>Progress under every fair schedule\<close>

text \<open>\<open>fair n k cs\<close>: the turns \<open>cs\<close> contain \<open>k\<close> rounds, one after the other, in each of which every one of the \<open>n\<close> cores has a turn.\<close>

inductive fair :: "nat \<Rightarrow> nat \<Rightarrow> nat list \<Rightarrow> bool" for n where
  fair_0: "fair n 0 cs"
| fair_Suc: "\<forall>c < n. c \<in> set bs \<Longrightarrow> fair n k cs \<Longrightarrow> fair n (Suc k) (bs @ cs)"

text \<open>A system in which some core, the helper, is always able to lower a rank that no core raises, and stays the helper
  until the rank is lowered.\<close>

locale helped =
  fixes step :: "nat \<Rightarrow> 's \<Rightarrow> 's option"
    and inv :: "'s \<Rightarrow> bool"
    and rank :: "'s \<Rightarrow> nat"
    and helper :: "'s \<Rightarrow> nat"
    and n :: nat
  assumes helper_less: "inv s \<Longrightarrow> helper s < n"
    and helps: "inv s \<Longrightarrow> c < n \<Longrightarrow> \<exists>t. step c s = Some t \<and> inv t \<and> rank t \<le> rank s
          \<and> (rank t = rank s \<longrightarrow> helper t = helper s) \<and> (c = helper s \<and> 0 < rank s \<longrightarrow> rank t < rank s)"
begin

fun run :: "nat list \<Rightarrow> 's \<Rightarrow> 's option" where
  "run [] s = Some s"
| "run (c # cs) s = Option.bind (step c s) (run cs)"

lemma run_append: "run (bs @ cs) s = Option.bind (run bs s) (run cs)"
proof (induction bs arbitrary: s)
  case (Cons c bs)
  then show ?case by (cases "step c s") simp_all
qed simp

lemma run_ok:
  assumes "inv s" "set cs \<subseteq> {..<n}"
  shows "\<exists>t. run cs s = Some t \<and> inv t \<and> rank t \<le> rank s \<and> (0 < rank s \<and> helper s \<in> set cs \<longrightarrow> rank t < rank s)"
  using assms
proof (induction cs arbitrary: s)
  case (Cons c cs)
  then obtain u where u: "step c s = Some u" "inv u" "rank u \<le> rank s" "rank u = rank s \<longrightarrow> helper u = helper s"
      "c = helper s \<and> 0 < rank s \<longrightarrow> rank u < rank s"
    using helps [of s c] by auto
  obtain t where t: "run cs u = Some t" "inv t" "rank t \<le> rank u" "0 < rank u \<and> helper u \<in> set cs \<longrightarrow> rank t < rank u"
    using Cons.IH [OF u(2)] Cons.prems by auto
  have "rank t < rank s" if "0 < rank s" "helper s \<in> set (c # cs)"
    using that u(3-5) t(3,4) by (cases "rank u = rank s") auto
  then show ?case using u(1,3) t by auto
qed simp

lemma fair_ranks:
  assumes "fair n k cs" "inv s" "set cs \<subseteq> {..<n}"
  shows "\<exists>t. run cs s = Some t \<and> inv t \<and> rank t \<le> rank s - k"
  using assms
proof (induction arbitrary: s rule: fair.induct)
  case (fair_0 cs)
  then show ?case using run_ok by fastforce
next
  case (fair_Suc bs k cs)
  obtain u where u: "run bs s = Some u" "inv u" "rank u \<le> rank s - 1"
    using run_ok [of s bs] fair_Suc.prems fair_Suc.hyps(1) helper_less [of s] by fastforce
  obtain t where "run cs u = Some t" "inv t" "rank t \<le> rank u - k" using fair_Suc.IH [OF u(2)] fair_Suc.prems by auto
  then show ?case using u by (auto simp: run_append)
qed

end

text \<open>A core that is started, and an interrupt that is sent.\<close>

lemma aexec_startap:
  assumes "unat d < 32" "unat x < 32" "a_regs (acores s 0) (unat d) = 1" "1 < n"
  shows "aexec n 0 \<lparr>i_op = OP_STARTAP, i_rd = d, i_rs1 = x, i_rs2 = y, i_imm = m\<rparr> s
      = Some ((upd_core 1 (\<lambda>r. r\<lparr>a_ip := a_regs (acores s 0) (unat x) + m\<rparr>) (upd_core 0 (\<lambda>r. r\<lparr>a_ip := a_ip r + 8\<rparr>) s))\<lparr>a_on := (a_on s)(1 := True)\<rparr>)"
proof -
  have "\<not> int n \<le> 1" using assms(4) by simp
  then show ?thesis using assms(1,2) by (simp add: aexec_def Let_def assms(3))
qed

lemma aexec_ipi:
  assumes "unat d < 32" "unat x < 32" "a_regs (acores s c) (unat d) = 1" "1 < n" "a_regs (acores s c) (unat x) = 5"
  shows "aexec n c \<lparr>i_op = OP_IPI, i_rd = d, i_rs1 = x, i_rs2 = y, i_imm = m\<rparr> s
      = Some ((upd_core c (\<lambda>r. r\<lparr>a_ip := a_ip r + 8\<rparr>) s)\<lparr>a_irq := (a_irq s)(1 := True)\<rparr>)"
proof -
  have "\<not> int n \<le> 1" using assms(4) by simp
  then show ?thesis using assms(1,2) by (simp add: aexec_def Let_def assms(3,5))
qed

text \<open>The index of the instruction at which a core is.\<close>

definition pos :: "nat \<Rightarrow> amachine \<Rightarrow> nat" where
  "pos c s = unat (a_ip (acores s c) - PROGRAM_BASE) div 8"

lemma pos_at: "a_ip (acores s c) = PROGRAM_BASE + of_nat (8 * k) \<Longrightarrow> k < 64 \<Longrightarrow> pos c s = k"
proof -
  assume a: "a_ip (acores s c) = PROGRAM_BASE + of_nat (8 * k)" "k < 64"
  have "unat (of_nat (8 * k) :: u32) = 8 * k" using a(2) by (simp only: unat_of_nat) simp
  then show ?thesis by (simp add: pos_def a(1))
qed

section \<open>Starting a core\<close>

definition startap_test :: aprog where
  "startap_test = \<lparr>a_code = startap_program, a_vec = None, a_cores = 2\<rparr>"

lemma startap_fetch:
  "afetch startap_test 0x201C = Some \<lparr>i_op = OP_MOVI, i_rd = 1, i_rs1 = 0, i_rs2 = 0, i_imm = 1\<rparr>"
  "afetch startap_test 0x2024 = Some \<lparr>i_op = OP_MOVI, i_rd = 2, i_rs1 = 0, i_rs2 = 0, i_imm = 0x2074\<rparr>"
  "afetch startap_test 0x202C = Some \<lparr>i_op = OP_STARTAP, i_rd = 1, i_rs1 = 2, i_rs2 = 0, i_imm = 0\<rparr>"
  "afetch startap_test 0x2034 = Some \<lparr>i_op = OP_MOVI, i_rd = 4, i_rs1 = 0, i_rs2 = 0, i_imm = 0x3000\<rparr>"
  "afetch startap_test 0x203C = Some \<lparr>i_op = OP_LOAD32, i_rd = 3, i_rs1 = 4, i_rs2 = 0, i_imm = 0\<rparr>"
  "afetch startap_test 0x2044 = Some \<lparr>i_op = OP_CMPI, i_rd = 3, i_rs1 = 0, i_rs2 = 0, i_imm = 1\<rparr>"
  "afetch startap_test 0x204C = Some \<lparr>i_op = OP_JNZ, i_rd = 0, i_rs1 = 0, i_rs2 = 0, i_imm = 0x203C\<rparr>"
  "afetch startap_test 0x2054 = Some \<lparr>i_op = OP_HALT, i_rd = 0, i_rs1 = 0, i_rs2 = 0, i_imm = 0\<rparr>"
  "afetch startap_test 0x2074 = Some \<lparr>i_op = OP_CPUID, i_rd = 5, i_rs1 = 0, i_rs2 = 0, i_imm = 0\<rparr>"
  "afetch startap_test 0x207C = Some \<lparr>i_op = OP_MOVI, i_rd = 6, i_rs1 = 0, i_rs2 = 0, i_imm = 0x3000\<rparr>"
  "afetch startap_test 0x2084 = Some \<lparr>i_op = OP_STORE32, i_rd = 5, i_rs1 = 6, i_rs2 = 0, i_imm = 0\<rparr>"
  "afetch startap_test 0x208C = Some \<lparr>i_op = OP_PAUSE, i_rd = 0, i_rs1 = 0, i_rs2 = 0, i_imm = 0\<rparr>"
  "afetch startap_test 0x2094 = Some \<lparr>i_op = OP_JMP, i_rd = 0, i_rs1 = 0, i_rs2 = 0, i_imm = 0x208C\<rparr>"
  by (simp_all add: afetch_simps startap_test_def startap_program_def)

definition startap_at :: "nat \<Rightarrow> nat \<Rightarrow> amachine \<Rightarrow> bool" where
  "startap_at k j s \<longleftrightarrow>
     (let r = acores s 0; q = acores s 1 in
      a_ip r = PROGRAM_BASE + of_nat (8 * k) \<and> k \<le> 8 \<and> a_halted s = (k = 8) \<and> \<not> a_irq s 0 \<and> \<not> a_irq s 1
      \<and> (1 \<le> k \<longrightarrow> a_regs r 1 = 1) \<and> (2 \<le> k \<longrightarrow> a_regs r 2 = 0x2074) \<and> (4 \<le> k \<longrightarrow> a_regs r 4 = 0x3000)
      \<and> (k = 5 \<longrightarrow> a_regs r 3 = 1 \<longrightarrow> 14 \<le> j) \<and> (k = 6 \<longrightarrow> a_zf r \<longrightarrow> 14 \<le> j) \<and> (7 \<le> k \<longrightarrow> 14 \<le> j)
      \<and> a_on s 1 = (3 \<le> k) \<and> (3 \<le> k \<longrightarrow> a_ip q = PROGRAM_BASE + of_nat (8 * j)) \<and> 11 \<le> j \<and> j \<le> 15 \<and> (k < 3 \<longrightarrow> j = 11)
      \<and> (j = 12 \<or> j = 13 \<longrightarrow> a_regs q 5 = 1) \<and> (j = 13 \<longrightarrow> a_regs q 6 = 0x3000) \<and> a_word s 0x3000 = (if 14 \<le> j then 1 else 0))"

lemma startap_atD:
  assumes "startap_at k j s"
  shows "a_ip (acores s 0) = PROGRAM_BASE + of_nat (8 * k)" "k \<le> 8" "3 \<le> k \<longrightarrow> a_ip (acores s 1) = PROGRAM_BASE + of_nat (8 * j)"
    "11 \<le> j" "j \<le> 15" "k < 3 \<longrightarrow> j = 11" "7 \<le> k \<longrightarrow> 14 \<le> j" "a_word s 0x3000 = (if 14 \<le> j then 1 else 0)" "a_on s 1 = (3 \<le> k)" "a_halted s = (k = 8)"
  using assms unfolding startap_at_def Let_def by - (elim conjE, assumption)+

definition startap_rank :: "amachine \<Rightarrow> nat" where
  "startap_rank s =
     (let k = pos 0 s; j = pos 1 s in
      if k = 8 then 0
      else if k < 3 then 30 - k
      else if a_word s 0x3000 \<noteq> 1 then 24 - j
      else if k = 5 then (if a_regs (acores s 0) 3 = 1 then 3 else 6)
      else if k = 6 then (if a_zf (acores s 0) then 2 else 5)
      else 8 - k)"

definition startap_helper :: "amachine \<Rightarrow> nat" where
  "startap_helper s = (if a_on s 1 \<and> a_word s 0x3000 \<noteq> 1 then 1 else 0)"

lemma test_addrs [simp]: "data_addr 0x3000" "data_addr 0x3010" "data_addr 0x3014"
  by (simp_all add: data_addr_def)

lemma startap_rank_at:
  assumes "startap_at k j s"
  shows "startap_rank s = (if k = 8 then 0 else if k < 3 then 30 - k else if j < 14 then 24 - j
      else if k = 5 then (if a_regs (acores s 0) 3 = 1 then 3 else 6) else if k = 6 then (if a_zf (acores s 0) then 2 else 5) else 8 - k)"
    "startap_helper s = (if 3 \<le> k \<and> j < 14 then 1 else 0)"
proof -
  note i = startap_atD [OF assms]
  have p: "pos 0 s = k" "3 \<le> k \<Longrightarrow> pos 1 s = j" using i pos_at by auto
  show "startap_helper s = (if 3 \<le> k \<and> j < 14 then 1 else 0)" using i(9) by (auto simp: startap_helper_def i(8))
  show "startap_rank s = (if k = 8 then 0 else if k < 3 then 30 - k else if j < 14 then 24 - j
      else if k = 5 then (if a_regs (acores s 0) 3 = 1 then 3 else 6) else if k = 6 then (if a_zf (acores s 0) then 2 else 5) else 8 - k)"
    using p(2) by (cases "3 \<le> k") (simp_all add: startap_rank_def Let_def p(1) i(8))
qed

lemma startap_next0:
  assumes "startap_at k j s" "k < 8"
  shows "\<exists>t k'. aturn startap_test 0 s = Some t \<and> startap_at k' j t
     \<and> (k' = k + 1 \<or> k = 6 \<and> k' = 4 \<and> \<not> a_zf (acores s 0))
     \<and> (k = 4 \<longrightarrow> (a_regs (acores t 0) 3 = 1) = (14 \<le> j)) \<and> (k = 5 \<longrightarrow> a_zf (acores t 0) = (a_regs (acores s 0) 3 = 1)) \<and> (k = 6 \<and> a_zf (acores s 0) \<longrightarrow> k' = 7)"
proof -
  have n: "a_cores startap_test = 2" by (simp add: startap_test_def)
  note simps = startap_at_def Let_def aturn_exec startap_fetch aexec_simps aexec_startap n
  from assms(2) consider "k = 0" | "k = 1" | "k = 2" | "k = 3" | "k = 4" | "k = 5" | "k = 6" | "k = 7"
    by linarith
  then show ?thesis
  proof cases
    case 7
    then show ?thesis using assms
      by (cases "a_zf (acores s 0)"; intro exI [of _ "the (aturn startap_test 0 s)"] exI [of _ "if a_zf (acores s 0) then 7 else 4"])
         (simp_all add: simps)
  qed (use assms in \<open>intro exI [of _ "the (aturn startap_test 0 s)"] exI [of _ "k + 1"], simp add: simps\<close>)+
qed

lemma startap_next1:
  assumes "startap_at k j s" "3 \<le> k" "k < 8"
  shows "\<exists>t. aturn startap_test 1 s = Some t \<and> startap_at k (if j = 15 then 14 else j + 1) t \<and> acores t 0 = acores s 0"
proof -
  note simps = startap_at_def Let_def aturn_exec startap_fetch aexec_simps
  from startap_atD(4,5) [OF assms(1)] consider "j = 11" | "j = 12" | "j = 13" | "j = 14" | "j = 15" by linarith
  then show ?thesis
    by cases (use assms in \<open>intro exI [of _ "the (aturn startap_test 1 s)"], simp add: simps\<close>)+
qed

interpretation startap: helped "aturn startap_test" "\<lambda>s. \<exists>k j. startap_at k j s" startap_rank startap_helper 2
proof
  fix s assume "\<exists>k j. startap_at k j s"
  then show "startap_helper s < 2" by (auto simp: startap_helper_def)
next
  fix s and c :: nat assume "\<exists>k j. startap_at k j s" and "c < 2"
  then obtain k j where a: "startap_at k j s" by blast
  note r = startap_rank_at [OF a]
  note e = startap_atD [OF a]
  consider "k = 8 \<or> c = 1 \<and> k < 3" | "c = 0" "k < 8" | "c = 1" "3 \<le> k" "k < 8" using e(2) \<open>c < 2\<close> by linarith
  then show "\<exists>t. aturn startap_test c s = Some t \<and> (\<exists>k j. startap_at k j t) \<and> startap_rank t \<le> startap_rank s
      \<and> (startap_rank t = startap_rank s \<longrightarrow> startap_helper t = startap_helper s) \<and> (c = startap_helper s \<and> 0 < startap_rank s \<longrightarrow> startap_rank t < startap_rank s)"
  proof cases
    case 1
    then have "aturn startap_test c s = Some s" using e(9,10) by (auto simp: aturn_def)
    then show ?thesis using a r 1 by auto
  next
    case 2
    obtain t k' where t: "aturn startap_test 0 s = Some t" "startap_at k' j t" "k' = k + 1 \<or> k = 6 \<and> k' = 4 \<and> \<not> a_zf (acores s 0)"
        "k = 4 \<longrightarrow> (a_regs (acores t 0) 3 = 1) = (14 \<le> j)" "k = 5 \<longrightarrow> a_zf (acores t 0) = (a_regs (acores s 0) 3 = 1)" "k = 6 \<and> a_zf (acores s 0) \<longrightarrow> k' = 7"
      using startap_next0 [OF a 2(2)] by blast
    note j = e(4,6) startap_atD(7) [OF t(2)]
    have "startap_rank t \<le> startap_rank s \<and> (startap_rank t = startap_rank s \<longrightarrow> startap_helper t = startap_helper s) \<and> (startap_helper s = 0 \<longrightarrow> startap_rank t < startap_rank s)"
    proof -
      from 2(2) consider "k = 0" | "k = 1" | "k = 2" | "k = 3" | "k = 4" | "k = 5" | "k = 6" | "k = 7" by linarith
      then show ?thesis unfolding r startap_rank_at [OF t(2)] by cases (use t(3-6) j in \<open>auto\<close>)
    qed
    then show ?thesis using t(1,2) 2(1) by auto
  next
    case 3
    obtain t where t: "aturn startap_test 1 s = Some t" "startap_at k (if j = 15 then 14 else j + 1) t" "acores t 0 = acores s 0"
      using startap_next1 [OF a 3(2,3)] by blast
    have "startap_rank t \<le> startap_rank s \<and> (startap_rank t = startap_rank s \<longrightarrow> startap_helper t = startap_helper s) \<and> (startap_helper s = 1 \<longrightarrow> startap_rank t < startap_rank s)"
      unfolding r startap_rank_at [OF t(2)] t(3) using e(5,7) 3(2,3) by (auto split: if_splits)
    then show ?thesis using t(1,2) 3(1) by auto
  qed
qed

section \<open>Sending an interrupt\<close>

definition ipi_test :: aprog where
  "ipi_test = \<lparr>a_code = ipi_program, a_vec = Some (PROGRAM_BASE + 20 * 8), a_cores = 2\<rparr>"

lemma ipi_fetch:
  "afetch ipi_test 0x201C = Some \<lparr>i_op = OP_MOVI, i_rd = 1, i_rs1 = 0, i_rs2 = 0, i_imm = 1\<rparr>"
  "afetch ipi_test 0x2024 = Some \<lparr>i_op = OP_MOVI, i_rd = 2, i_rs1 = 0, i_rs2 = 0, i_imm = 0x208C\<rparr>"
  "afetch ipi_test 0x202C = Some \<lparr>i_op = OP_STARTAP, i_rd = 1, i_rs1 = 2, i_rs2 = 0, i_imm = 0\<rparr>"
  "afetch ipi_test 0x2034 = Some \<lparr>i_op = OP_MOVI, i_rd = 10, i_rs1 = 0, i_rs2 = 0, i_imm = 0x3010\<rparr>"
  "afetch ipi_test 0x203C = Some \<lparr>i_op = OP_LOAD32, i_rd = 11, i_rs1 = 10, i_rs2 = 0, i_imm = 0\<rparr>"
  "afetch ipi_test 0x2044 = Some \<lparr>i_op = OP_CMPI, i_rd = 11, i_rs1 = 0, i_rs2 = 0, i_imm = 1\<rparr>"
  "afetch ipi_test 0x204C = Some \<lparr>i_op = OP_JNZ, i_rd = 0, i_rs1 = 0, i_rs2 = 0, i_imm = 0x203C\<rparr>"
  "afetch ipi_test 0x2054 = Some \<lparr>i_op = OP_MOVI, i_rd = 12, i_rs1 = 0, i_rs2 = 0, i_imm = 5\<rparr>"
  "afetch ipi_test 0x205C = Some \<lparr>i_op = OP_IPI, i_rd = 1, i_rs1 = 12, i_rs2 = 0, i_imm = 0\<rparr>"
  "afetch ipi_test 0x2064 = Some \<lparr>i_op = OP_MOVI, i_rd = 13, i_rs1 = 0, i_rs2 = 0, i_imm = 0x3014\<rparr>"
  "afetch ipi_test 0x206C = Some \<lparr>i_op = OP_LOAD32, i_rd = 14, i_rs1 = 13, i_rs2 = 0, i_imm = 0\<rparr>"
  "afetch ipi_test 0x2074 = Some \<lparr>i_op = OP_CMPI, i_rd = 14, i_rs1 = 0, i_rs2 = 0, i_imm = 1\<rparr>"
  "afetch ipi_test 0x207C = Some \<lparr>i_op = OP_JNZ, i_rd = 0, i_rs1 = 0, i_rs2 = 0, i_imm = 0x206C\<rparr>"
  "afetch ipi_test 0x2084 = Some \<lparr>i_op = OP_HALT, i_rd = 0, i_rs1 = 0, i_rs2 = 0, i_imm = 0\<rparr>"
  "afetch ipi_test 0x208C = Some \<lparr>i_op = OP_MOVI, i_rd = 6, i_rs1 = 0, i_rs2 = 0, i_imm = 0x3010\<rparr>"
  "afetch ipi_test 0x2094 = Some \<lparr>i_op = OP_MOVI, i_rd = 7, i_rs1 = 0, i_rs2 = 0, i_imm = 1\<rparr>"
  "afetch ipi_test 0x209C = Some \<lparr>i_op = OP_STORE32, i_rd = 7, i_rs1 = 6, i_rs2 = 0, i_imm = 0\<rparr>"
  "afetch ipi_test 0x20A4 = Some \<lparr>i_op = OP_PAUSE, i_rd = 0, i_rs1 = 0, i_rs2 = 0, i_imm = 0\<rparr>"
  "afetch ipi_test 0x20AC = Some \<lparr>i_op = OP_JMP, i_rd = 0, i_rs1 = 0, i_rs2 = 0, i_imm = 0x20A4\<rparr>"
  "afetch ipi_test 0x20BC = Some \<lparr>i_op = OP_MOVI, i_rd = 8, i_rs1 = 0, i_rs2 = 0, i_imm = 0x3014\<rparr>"
  "afetch ipi_test 0x20C4 = Some \<lparr>i_op = OP_MOVI, i_rd = 9, i_rs1 = 0, i_rs2 = 0, i_imm = 1\<rparr>"
  "afetch ipi_test 0x20CC = Some \<lparr>i_op = OP_STORE32, i_rd = 9, i_rs1 = 8, i_rs2 = 0, i_imm = 0\<rparr>"
  "afetch ipi_test 0x20D4 = Some \<lparr>i_op = OP_IRET, i_rd = 0, i_rs1 = 0, i_rs2 = 0, i_imm = 0\<rparr>"
  by (simp_all add: afetch_simps ipi_test_def ipi_program_def)

text \<open>A turn that begins with the delivery of the interrupt.\<close>

lemma aturn_irq:
  assumes "\<not> a_halted s" "a_on s c" "a_irq s c" "a_saved (acores s c) = None" "a_vec p = Some a" "afetch p a = Some i"
  shows "aturn p c s = aexec (a_cores p) c i (upd_core c (\<lambda>r. r\<lparr>a_saved := Some (a_regs r, a_ip r, a_zf r), a_regs := (a_regs r)(31 := 5), a_ip := a\<rparr>)
                      (s\<lparr>a_irq := (a_irq s)(c := False)\<rparr>))"
  using assms by (simp add: aturn_def adeliver_def)

text \<open>In the handler, from 20 on, the loop at 17 and 18 is interrupted.\<close>

definition ipi_saved :: "nat \<Rightarrow> ((nat \<Rightarrow> u32) \<times> u32 \<times> bool) option \<Rightarrow> bool" where
  "ipi_saved j x \<longleftrightarrow>
     (if 20 \<le> j then \<exists>R a z. x = Some (R, a, z) \<and> (a = PROGRAM_BASE + of_nat (8 * 17) \<or> a = PROGRAM_BASE + of_nat (8 * 18)) else x = None)"

text \<open>\<open>d\<close> is how far the interrupt is: not sent, pending, in its handler, done.\<close>

definition ipi_at :: "nat \<Rightarrow> nat \<Rightarrow> nat \<Rightarrow> amachine \<Rightarrow> bool" where
  "ipi_at k j d s \<longleftrightarrow>
     (let r = acores s 0; q = acores s 1 in
      a_ip r = PROGRAM_BASE + of_nat (8 * k) \<and> k \<le> 14 \<and> a_halted s = (k = 14) \<and> \<not> a_irq s 0 \<and> a_irq s 1 = (d = 1)
      \<and> (1 \<le> k \<longrightarrow> a_regs r 1 = 1) \<and> (2 \<le> k \<longrightarrow> a_regs r 2 = 0x208C) \<and> (4 \<le> k \<longrightarrow> a_regs r 10 = 0x3010)
      \<and> (k = 5 \<longrightarrow> a_regs r 11 = 1 \<longrightarrow> 17 \<le> j) \<and> (k = 6 \<longrightarrow> a_zf r \<longrightarrow> 17 \<le> j) \<and> (7 \<le> k \<longrightarrow> 17 \<le> j)
      \<and> (8 \<le> k \<longrightarrow> a_regs r 12 = 5) \<and> (d = 0) = (k \<le> 8) \<and> (10 \<le> k \<longrightarrow> a_regs r 13 = 0x3014)
      \<and> (k = 11 \<longrightarrow> a_regs r 14 = 1 \<longrightarrow> d = 3 \<or> j = 23) \<and> (k = 12 \<longrightarrow> a_zf r \<longrightarrow> d = 3 \<or> j = 23) \<and> (13 \<le> k \<longrightarrow> d = 3 \<or> j = 23)
      \<and> a_on s 1 = (3 \<le> k) \<and> (3 \<le> k \<longrightarrow> a_ip q = PROGRAM_BASE + of_nat (8 * j)) \<and> (k < 3 \<longrightarrow> j = 14)
      \<and> 14 \<le> j \<and> j \<le> 23 \<and> j \<noteq> 19 \<and> j \<noteq> 20 \<and> d \<le> 3 \<and> (d = 2) = (21 \<le> j)
      \<and> ipi_saved j (a_saved q)
      \<and> (j = 15 \<or> j = 16 \<longrightarrow> a_regs q 6 = 0x3010) \<and> (j = 16 \<longrightarrow> a_regs q 7 = 1)
      \<and> (21 \<le> j \<longrightarrow> a_regs q 8 = 0x3014) \<and> (j = 22 \<longrightarrow> a_regs q 9 = 1)
      \<and> a_word s 0x3010 = (if 17 \<le> j then 1 else 0) \<and> a_word s 0x3014 = (if d = 3 \<or> j = 23 then 1 else 0))"

lemma ipi_atD:
  assumes "ipi_at k j d s"
  shows "a_ip (acores s 0) = PROGRAM_BASE + of_nat (8 * k)" "k \<le> 14" "3 \<le> k \<longrightarrow> a_ip (acores s 1) = PROGRAM_BASE + of_nat (8 * j)"
    "14 \<le> j" "j \<le> 23" "j \<noteq> 19" "j \<noteq> 20" "k < 3 \<longrightarrow> j = 14" "7 \<le> k \<longrightarrow> 17 \<le> j" "13 \<le> k \<longrightarrow> d = 3 \<or> j = 23"
    "(d = 0) = (k \<le> 8)" "(d = 2) = (21 \<le> j)" "d \<le> 3" "a_irq s 1 = (d = 1)"
    "a_word s 0x3010 = (if 17 \<le> j then 1 else 0)" "a_word s 0x3014 = (if d = 3 \<or> j = 23 then 1 else 0)" "a_on s 1 = (3 \<le> k)" "a_halted s = (k = 14)"
  using assms unfolding ipi_at_def Let_def by - (elim conjE, assumption)+

definition ipi_rank :: "amachine \<Rightarrow> nat" where
  "ipi_rank s =
     (let k = pos 0 s; j = pos 1 s; r = acores s 0 in
      if k = 14 then 0
      else if k < 3 then 60 - k
      else if a_word s 0x3010 \<noteq> 1 then 57 - j
      else if k \<le> 8 then 20 + (if k = 5 then (if a_regs r 11 = 1 then 4 else 7) else if k = 6 then (if a_zf r then 3 else 6) else 9 - k)
      else if a_word s 0x3014 \<noteq> 1 then (if a_irq s 1 then 13 else 33 - j)
      else if k = 11 then (if a_regs r 14 = 1 then 3 else 6)
      else if k = 12 then (if a_zf r then 2 else 5)
      else 14 - k)"

definition ipi_helper :: "amachine \<Rightarrow> nat" where
  "ipi_helper s = (if a_on s 1 \<and> (a_word s 0x3010 \<noteq> 1 \<or> 8 < pos 0 s \<and> a_word s 0x3014 \<noteq> 1) then 1 else 0)"

text \<open>The same in terms of the positions; \<open>x\<close>, \<open>y\<close> and \<open>z\<close> are what core 0 has read and compared.\<close>

definition ipi_measure :: "nat \<Rightarrow> nat \<Rightarrow> nat \<Rightarrow> bool \<Rightarrow> bool \<Rightarrow> bool \<Rightarrow> nat" where
  "ipi_measure k j d x y z =
     (if k = 14 then 0 else if k < 3 then 60 - k else if j < 17 then 57 - j
      else if k \<le> 8 then 20 + (if k = 5 then (if x then 4 else 7) else if k = 6 then (if z then 3 else 6) else 9 - k)
      else if d \<noteq> 3 \<and> j \<noteq> 23 then (if d = 1 then 13 else 33 - j)
      else if k = 11 then (if y then 3 else 6) else if k = 12 then (if z then 2 else 5) else 14 - k)"

definition ipi_turn :: "nat \<Rightarrow> nat \<Rightarrow> nat \<Rightarrow> nat" where
  "ipi_turn k j d = (if 3 \<le> k \<and> (j < 17 \<or> 8 < k \<and> d \<noteq> 3 \<and> j \<noteq> 23) then 1 else 0)"

lemma ipi_measure0:
  assumes "k < 14" "k' = k + 1 \<or> k = 6 \<and> k' = 4 \<and> \<not> z \<or> k = 12 \<and> k' = 10 \<and> \<not> z" "(k = 6 \<or> k = 12) \<and> z \<longrightarrow> k' = k + 1"
    "k = 4 \<longrightarrow> x' = (17 \<le> j)" "k = 5 \<longrightarrow> z' = x" "k = 10 \<longrightarrow> y' = (d = 3 \<or> j = 23)" "k = 11 \<longrightarrow> z' = y" "d' = (if k = 8 then 1 else d)"
    "k < 3 \<longrightarrow> j = 14" "7 \<le> k' \<longrightarrow> 17 \<le> j" "13 \<le> k' \<longrightarrow> d' = 3 \<or> j = 23" "14 \<le> j" "j \<le> 23" "(d = 2) = (21 \<le> j)" "(d = 0) = (k \<le> 8)"
  shows "ipi_measure k' j d' x' y' z' \<le> ipi_measure k j d x y z \<and> (ipi_measure k' j d' x' y' z' = ipi_measure k j d x y z \<longrightarrow> ipi_turn k' j d' = ipi_turn k j d)
     \<and> (ipi_turn k j d = 0 \<longrightarrow> ipi_measure k' j d' x' y' z' < ipi_measure k j d x y z)"
proof -
  note defs = ipi_measure_def ipi_turn_def
  consider (start) "k < 3" | (wait) "3 \<le> k" "j < 17" | (send) "3 \<le> k" "17 \<le> j" "k \<le> 8" | (serve) "9 \<le> k" "17 \<le> j" "d \<noteq> 3 \<and> j \<noteq> 23" | (served) "9 \<le> k" "17 \<le> j" "d = 3 \<or> j = 23"
    by linarith
  then show ?thesis
  proof cases
    case start
    then show ?thesis using assms(2,9) by (auto simp: defs)
  next
    case wait
    then show ?thesis using assms(2,10) by (auto simp: defs)
  next
    case send
    then have "j \<noteq> 23" using assms(14,15) by auto
    from send consider "k = 3" | "k = 4" | "k = 5" | "k = 6" | "k = 7" | "k = 8" by linarith
    then show ?thesis using send(2) \<open>j \<noteq> 23\<close> by cases (use assms(2-8) in \<open>auto simp: defs\<close>)
  next
    case serve
    then have "d' = d" "k' \<noteq> 14" "9 \<le> k'" using assms(1,2,8,11) by auto
    then show ?thesis using serve assms(1) by (simp add: defs)
  next
    case served
    from served(1) assms(1) consider "k = 9" | "k = 10" | "k = 11" | "k = 12" | "k = 13" by linarith
    then show ?thesis using served(2,3) by cases (use assms(2-8) in \<open>auto simp: defs\<close>)
  qed
qed

lemma ipi_measure1:
  assumes "3 \<le> k" "k < 14" "j = 14 \<or> j = 15 \<or> j = 16 \<or> j = 17 \<or> j = 18 \<or> j = 21 \<or> j = 22 \<or> j = 23" "d' = (if d = 1 then 2 else if j = 23 then 3 else d)"
    "if d = 1 then j' = 21 else if j = 23 then j' = 17 \<or> j' = 18 else j' = (if j = 18 then 17 else j + 1)"
    "7 \<le> k \<longrightarrow> 17 \<le> j" "(d = 2) = (21 \<le> j)" "(d = 0) = (k \<le> 8)" "d \<le> 3"
  shows "ipi_measure k j' d' x y z \<le> ipi_measure k j d x y z \<and> (ipi_measure k j' d' x y z = ipi_measure k j d x y z \<longrightarrow> ipi_turn k j' d' = ipi_turn k j d)
     \<and> (ipi_turn k j d = 1 \<longrightarrow> ipi_measure k j' d' x y z < ipi_measure k j d x y z)"
  using assms(3) by (elim disjE) (use assms in \<open>auto simp: ipi_measure_def ipi_turn_def split: if_splits\<close>)

lemma ipi_rank_at:
  assumes "ipi_at k j d s"
  shows "ipi_rank s = ipi_measure k j d (a_regs (acores s 0) 11 = 1) (a_regs (acores s 0) 14 = 1) (a_zf (acores s 0))"
    "ipi_helper s = ipi_turn k j d"
proof -
  note i = ipi_atD [OF assms]
  have p: "pos 0 s = k" "3 \<le> k \<Longrightarrow> pos 1 s = j" using i(1-3,5) pos_at by auto
  show "ipi_helper s = ipi_turn k j d" using i(17) by (auto simp: ipi_helper_def ipi_turn_def i(15,16) p(1))
  show "ipi_rank s = ipi_measure k j d (a_regs (acores s 0) 11 = 1) (a_regs (acores s 0) 14 = 1) (a_zf (acores s 0))"
    using p(2) i(14) by (cases "3 \<le> k") (simp_all add: ipi_rank_def ipi_measure_def Let_def p(1) i(15,16))
qed

lemma ipi_next0:
  assumes "ipi_at k j d s" "k < 14"
  shows "\<exists>t k'. aturn ipi_test 0 s = Some t \<and> ipi_at k' j (if k = 8 then 1 else d) t
     \<and> (k' = k + 1 \<or> k = 6 \<and> k' = 4 \<and> \<not> a_zf (acores s 0) \<or> k = 12 \<and> k' = 10 \<and> \<not> a_zf (acores s 0)) \<and> ((k = 6 \<or> k = 12) \<and> a_zf (acores s 0) \<longrightarrow> k' = k + 1)
     \<and> (k = 4 \<longrightarrow> (a_regs (acores t 0) 11 = 1) = (17 \<le> j)) \<and> (k = 5 \<longrightarrow> a_zf (acores t 0) = (a_regs (acores s 0) 11 = 1))
     \<and> (k = 10 \<longrightarrow> (a_regs (acores t 0) 14 = 1) = (d = 3 \<or> j = 23)) \<and> (k = 11 \<longrightarrow> a_zf (acores t 0) = (a_regs (acores s 0) 14 = 1))"
proof -
  have n: "a_cores ipi_test = 2" by (simp add: ipi_test_def)
  note simps = ipi_at_def Let_def aturn_exec ipi_fetch aexec_simps aexec_startap aexec_ipi n
  from assms(2) consider "k = 6 \<or> k = 12" | "k = 0" | "k = 1" | "k = 2" | "k = 3" | "k = 4" | "k = 5" | "k = 7" | "k = 8" | "k = 9" | "k = 10" | "k = 11" | "k = 13"
    by (auto simp: less_Suc_eq numeral_eq_Suc)
  then show ?thesis
  proof cases
    case 1
    then show ?thesis using assms
      by (elim disjE; cases "a_zf (acores s 0)"; intro exI [of _ "the (aturn ipi_test 0 s)"] exI [of _ "if a_zf (acores s 0) then k + 1 else k - 2"])
         (simp_all add: simps)
  qed (use assms in \<open>intro exI [of _ "the (aturn ipi_test 0 s)"] exI [of _ "k + 1"], simp add: simps\<close>)+
qed

lemma ipi_next1:
  assumes "ipi_at k j d s" "3 \<le> k" "k < 14"
  shows "\<exists>t j'. aturn ipi_test 1 s = Some t \<and> acores t 0 = acores s 0
     \<and> ipi_at k j' (if d = 1 then 2 else if j = 23 then 3 else d) t
     \<and> (if d = 1 then j' = 21 else if j = 23 then j' = 17 \<or> j' = 18 else j' = (if j = 18 then 17 else j + 1))"
proof -
  have n: "a_cores ipi_test = 2" "a_vec ipi_test = Some 0x20BC" by (simp_all add: ipi_test_def)
  note simps = ipi_at_def Let_def aturn_exec ipi_fetch aexec_simps ipi_saved_def n and i = ipi_atD [OF assms(1)]
  have j: "j = 14 \<or> j = 15 \<or> j = 16 \<or> j = 17 \<or> j = 18 \<or> j = 21 \<or> j = 22 \<or> j = 23" using i(4-7) by presburger
  have "j = 17 \<or> j = 18" if "d = 1" using that j i(9,11,12) by auto
  with j consider "d = 1" "j = 17 \<or> j = 18" | "j = 23" | "d \<noteq> 1" "j = 14" | "d \<noteq> 1" "j = 15" | "d \<noteq> 1" "j = 16" | "d \<noteq> 1" "j = 17" | "d \<noteq> 1" "j = 18"
      | "d \<noteq> 1" "j = 21" | "d \<noteq> 1" "j = 22"
    by blast
  then show ?thesis
  proof cases
    case 1
    then show ?thesis using assms
      by (intro exI [of _ "the (aturn ipi_test 1 s)"] exI [of _ 21]) (elim disjE; simp add: simps aturn_irq)
  next
    case 2
    then have "ipi_saved 23 (a_saved (acores s 1))" using assms(1) by (simp add: ipi_at_def Let_def)
    then obtain R a z where "a_saved (acores s 1) = Some (R, a, z)" "a = PROGRAM_BASE + of_nat (8 * 17) \<or> a = PROGRAM_BASE + of_nat (8 * 18)"
      by (auto simp: ipi_saved_def)
    moreover have "\<not> k \<le> 8" using i(11,12) 2 by auto
    ultimately show ?thesis using assms 2
      by (intro exI [of _ "the (aturn ipi_test 1 s)"] exI [of _ "if a = PROGRAM_BASE + of_nat (8 * 17) then 17 else 18"]) (elim disjE; simp add: simps)
  qed (use assms in \<open>intro exI [of _ "the (aturn ipi_test 1 s)"] exI [of _ "if j = 18 then 17 else j + 1"], simp add: simps\<close>)+
qed

interpretation ipi: helped "aturn ipi_test" "\<lambda>s. \<exists>k j d. ipi_at k j d s" ipi_rank ipi_helper 2
proof
  fix s assume "\<exists>k j d. ipi_at k j d s"
  then show "ipi_helper s < 2" by (auto simp: ipi_helper_def)
next
  fix s and c :: nat assume "\<exists>k j d. ipi_at k j d s" and "c < 2"
  then obtain k j d where a: "ipi_at k j d s" by blast
  note r = ipi_rank_at [OF a] and e = ipi_atD [OF a]
  consider "k = 14 \<or> c = 1 \<and> k < 3" | "c = 0" "k < 14" | "c = 1" "3 \<le> k" "k < 14" using e(2) \<open>c < 2\<close> by linarith
  then show "\<exists>t. aturn ipi_test c s = Some t \<and> (\<exists>k j d. ipi_at k j d t) \<and> ipi_rank t \<le> ipi_rank s
      \<and> (ipi_rank t = ipi_rank s \<longrightarrow> ipi_helper t = ipi_helper s) \<and> (c = ipi_helper s \<and> 0 < ipi_rank s \<longrightarrow> ipi_rank t < ipi_rank s)"
  proof cases
    case 1
    then have "aturn ipi_test c s = Some s" using e(17,18) by (auto simp: aturn_def)
    then show ?thesis using a r 1 by (auto simp: ipi_measure_def ipi_turn_def)
  next
    case 2
    obtain t k' where t: "aturn ipi_test 0 s = Some t" "ipi_at k' j (if k = 8 then 1 else d) t"
        "k' = k + 1 \<or> k = 6 \<and> k' = 4 \<and> \<not> a_zf (acores s 0) \<or> k = 12 \<and> k' = 10 \<and> \<not> a_zf (acores s 0)" "(k = 6 \<or> k = 12) \<and> a_zf (acores s 0) \<longrightarrow> k' = k + 1"
        "k = 4 \<longrightarrow> (a_regs (acores t 0) 11 = 1) = (17 \<le> j)" "k = 5 \<longrightarrow> a_zf (acores t 0) = (a_regs (acores s 0) 11 = 1)"
        "k = 10 \<longrightarrow> (a_regs (acores t 0) 14 = 1) = (d = 3 \<or> j = 23)" "k = 11 \<longrightarrow> a_zf (acores t 0) = (a_regs (acores s 0) 14 = 1)"
      using ipi_next0 [OF a 2(2)] by blast
    note m = ipi_measure0 [OF 2(2) t(3-8) refl e(8) ipi_atD(9,10) [OF t(2)] e(4,5,12,11)]
    have "ipi_rank t \<le> ipi_rank s \<and> (ipi_rank t = ipi_rank s \<longrightarrow> ipi_helper t = ipi_helper s) \<and> (ipi_helper s = 0 \<longrightarrow> ipi_rank t < ipi_rank s)"
      unfolding r ipi_rank_at [OF t(2)] by (rule m)
    then show ?thesis using t(1,2) 2(1) by auto
  next
    case 3
    obtain t j' where t: "aturn ipi_test 1 s = Some t" "acores t 0 = acores s 0" "ipi_at k j' (if d = 1 then 2 else if j = 23 then 3 else d) t"
        "if d = 1 then j' = 21 else if j = 23 then j' = 17 \<or> j' = 18 else j' = (if j = 18 then 17 else j + 1)"
      using ipi_next1 [OF a 3(2,3)] by blast
    have "ipi_rank t \<le> ipi_rank s \<and> (ipi_rank t = ipi_rank s \<longrightarrow> ipi_helper t = ipi_helper s) \<and> (ipi_helper s = 1 \<longrightarrow> ipi_rank t < ipi_rank s)"
      unfolding r ipi_rank_at [OF t(3)] t(2) by (rule ipi_measure1 [OF 3(2,3) _ refl t(4) e(9,12,11,13)]) (use e(4-7) in presburger)
    then show ?thesis using t(1,3) 3(1) by auto
  qed
qed

end
