(* ===== verification/SelfTests.thy ===== *)
theory SelfTests
  imports TestPrograms Debugger
begin

text \<open>
  The built-in self tests (\<open>run_selftests\<close> in \<open>vm.c\<close>) with the run without a window (\<open>vm_run_headless\<close>) that they
  use. Core threads take turns in an order that the host decides: the order is the argument \<open>schedule\<close>. The tests never
  panic, and a test passes when the threads get their turns often enough before the timeout, whatever the order
  (\<open>fair_schedule\<close>). The disk worker has no request in these runs and the timer is off, so only core threads have turns.
\<close>

section \<open>Runs without a window\<close>

text \<open>The turns of the core threads in the order in which they happen, each with the counter of its thread. A thread
  that has stopped keeps the counter 0, so that further turns of it change nothing.\<close>

fun run_turns :: "host \<Rightarrow> nat list \<Rightarrow> (nat \<Rightarrow> u64) \<times> vm \<Rightarrow> vm_error + (nat \<Rightarrow> u64) \<times> vm" where
  "run_turns h [] x = Inr x"
| "run_turns h (c # cs) x =
     (case x of (ns, v) \<Rightarrow>
        bind_res (vm_thread_turn h c (ns c) v) (\<lambda>r.
          run_turns h cs (case r of T_stop v \<Rightarrow> (ns(c := 0), v) | T_run n v \<Rightarrow> (ns(c := n), v))))"

text \<open>How a run goes: the number of threads that could be created, the turns they take while they are being created, and the
  turns until the machine is halted or the time is over.\<close>

record schedule =
  created :: nat
  early :: "nat list"
  turns :: "nat list"

definition vm_run_headless :: "host \<Rightarrow> schedule \<Rightarrow> vm \<Rightarrow> vm_error + vm" where
  "vm_run_headless h sch v =
     (let cores = smp_cores v in
      if \<not> malloc_ok h (8 * cores) then Inl (Panic_create ''Failed to allocate CPU thread list'')
      else
        bind_res (run_turns h (early sch) (\<lambda>_. 0, v)) (\<lambda>(ns, v).
        let v = (if created sch < cores then v\<lparr>halted := True\<rparr> else v) in
        bind_res (run_turns h (turns sch) (ns, v)) (\<lambda>(ns, v).
        let v = (if \<not> halted v then v\<lparr>halted := True\<rparr> else v) in
        bind_res (run_turns h [0..<created sch] (ns, v)) (\<lambda>(ns, v). Inr v))))"

definition u64_le :: "u64 \<Rightarrow> u8 list" where
  "u64_le x = map (\<lambda>k. byte_of k x) [0..<8]"

section \<open>The tests\<close>

text \<open>The four tests differ in the program, the number of cores, the handler they register and the word they look at;
  \<open>vm_create\<close> gives a null pointer when memory is short, which fails the test, and a panic ends the process.\<close>

definition run_test :: "host \<Rightarrow> u8 list option \<Rightarrow> schedule \<Rightarrow> u64 list \<Rightarrow> int \<Rightarrow> (vm \<Rightarrow> vm_error + vm) \<Rightarrow> u32 \<Rightarrow> vm_error + bool" where
  "run_test h img sch program cores isr addr =
     (let r = vm_create h MEM_SIZE (concat (map u64_le program)) [] None cores in
      if r = Inl (Panic_create ''NULL'') then Inr False
      else
        bind_res r (\<lambda>v.
        bind_res (init_ivt (disk_init img v)) (\<lambda>v.
        bind_res (isr v) (\<lambda>v.
        bind_res (vm_run_headless h sch v) (\<lambda>v.
        bind_res (vm_read32 h v addr) (\<lambda>(x, v). Inr (x = 1)))))))"

definition run_selftest_startap_cpuid :: "host \<Rightarrow> u8 list option \<Rightarrow> schedule \<Rightarrow> vm_error + bool" where
  "run_selftest_startap_cpuid h img sch = run_test h img sch startap_program 2 Inr 0x3000"

definition run_selftest_ipi :: "host \<Rightarrow> u8 list option \<Rightarrow> schedule \<Rightarrow> vm_error + bool" where
  "run_selftest_ipi h img sch = run_test h img sch ipi_program 2 (register_isr 5 (ucast (PROGRAM_BASE + 20 * 8))) 0x3014"

definition run_selftest_relctrl :: "host \<Rightarrow> u8 list option \<Rightarrow> schedule \<Rightarrow> vm_error + bool" where
  "run_selftest_relctrl h img sch = run_test h img sch relctrl_program 1 Inr 0x3020"

definition run_selftest_zero_branch_flags :: "host \<Rightarrow> u8 list option \<Rightarrow> schedule \<Rightarrow> vm_error + bool" where
  "run_selftest_zero_branch_flags h img sch = run_test h img sch zero_branch_program 1 Inr 0x3024"

definition run_selftests :: "host \<Rightarrow> u8 list option \<Rightarrow> schedule \<times> schedule \<times> schedule \<times> schedule \<Rightarrow> vm_error + int" where
  "run_selftests h img schs =
     (case schs of (sch1, sch2, sch3, sch4) \<Rightarrow>
        bind_res (run_selftest_startap_cpuid h img sch1) (\<lambda>ok1.
        bind_res (run_selftest_ipi h img sch2) (\<lambda>ok2.
        bind_res (run_selftest_relctrl h img sch3) (\<lambda>ok3.
        bind_res (run_selftest_zero_branch_flags h img sch4) (\<lambda>ok4.
        Inr (if ok1 \<and> ok2 \<and> ok3 \<and> ok4 then 0 else 1))))))"

section \<open>The machine of a test\<close>

lemma load64_bytes:
  assumes "\<And>j. j < 8 \<Longrightarrow> m (a + of_nat j) = byte_of j x"
  shows "load64 m a = x"
proof -
  have "store64 m a x = m"
    using assms [of 0] assms [of 1] assms [of 2] assms [of 3] assms [of 4] assms [of 5] assms [of 6] assms [of 7]
    by (simp add: store64_def fun_upd_idem)
  then show ?thesis using load64_store64 [of m a x] by simp
qed

lemma length_words: "length (concat (map u64_le ws)) = 8 * length ws"
  by (induction ws) (simp_all add: u64_le_def)

lemma nth_words:
  assumes "k < length ws" "j < 8"
  shows "concat (map u64_le ws) ! (8 * k + j) = byte_of j (ws ! k)"
  using assms
proof (induction ws arbitrary: k)
  case (Cons w ws)
  show ?case
  proof (cases k)
    case 0
    then show ?thesis using Cons.prems by (simp add: nth_append u64_le_def)
  next
    case (Suc i)
    have "u64_le w @ concat (map u64_le ws) = concat (map u64_le (w # ws))" by simp
    have "length (u64_le w) = 8" by (simp add: u64_le_def)
    then have "(u64_le w @ concat (map u64_le ws)) ! (8 * k + j) = concat (map u64_le ws) ! (8 * i + j)"
      unfolding nth_append Suc by simp
    then show ?thesis using Cons.IH [of i] Cons.prems Suc by simp
  qed
qed simp

lemma register_mmio_halted:
  "memory_size v = MEM_SIZE \<Longrightarrow> register_mmio v = Inr w \<Longrightarrow> halted w = halted v"
  by (simp add: register_mmio_def register_fb_mmio_def register_time_mmio_def
       register_sysinfo_mmio_def add_mmio_device_def initialize_timer_related_def
       sysinfo_init_vendor_def Let_def) auto

lemma create_test:
  assumes "malloc_ok h MEM_SIZE" "malloc_ok h FB_SIZE" "1 \<le> cores" "cores \<le> 64" "length ws \<le> 64"
  shows "\<exists>v. vm_create h MEM_SIZE (concat (map u64_le ws)) [] None cores = Inr v \<and> \<not> halted v
     \<and> memory v = store_bytes (\<lambda>_. 0) 0x201C (concat (map u64_le ws)) \<and> core_released v = (\<lambda>i. i = 0)
     \<and> (\<forall>i < nat cores. \<exists>b. cpus v i = core_init b PROGRAM_BASE i)"
proof -
  let ?v = "vm_zero\<lparr>smp_cores := nat cores, memory_size := MEM_SIZE, disk_size_bytes := of_nat DISK_SIZE\<rparr>"
  obtain w where w: "register_mmio ?v = Inr w" "smp_cores w = nat cores" "memory w = (\<lambda>_. 0)"
    using register_mmio_frame [of ?v] by (auto simp: vm_zero_def)
  have hw: "\<not> halted w" using register_mmio_halted [OF _ w(1)] by (simp add: vm_zero_def)
  let ?n = "8 * length ws"
  have u: "unat (PROGRAM_BASE + of_nat ?n) = 0x201C + ?n"
  proof -
    have "unat (of_nat ?n :: u32) = ?n" using assms(5) by (simp only: unat_of_nat) simp
    then show ?thesis using assms(5) unat_plus_small [of "0x201C" "of_nat ?n"] by simp
  qed
  have "\<exists>base sz. stack_pool MEM_SIZE (nat cores) (0x201C + ?n) = Inr (base, sz)"
  proof (cases "nat cores = 1")
    case False
    have "unat (of_nat (MEM_SIZE - 5120 * nat cores) :: u32) = MEM_SIZE - 5120 * nat cores"
      by (simp only: unat_of_nat) simp
    moreover have "nat cores \<le> 64" using assms(4) by simp
    ultimately show ?thesis using assms(5) False by (simp add: stack_pool_def Let_def)
  qed (simp add: stack_pool_def)
  then obtain base sz where p: "stack_pool MEM_SIZE (nat cores) (0x201C + ?n) = Inr (base, sz)" by blast
  let ?m = "store_bytes (\<lambda>_. 0) 0x201C (concat (map u64_le ws))"
  have "image_end (PROGRAM_BASE, PROGRAM_BASE + of_nat ?n, PROGRAM_BASE + of_nat ?n, 0) ?n 0 = 0x201C + ?n"
    unfolding image_end_def prod.case u by simp
  then have "vm_create h MEM_SIZE (concat (map u64_le ws)) [] None cores = Inr (vm_init_cores h base sz ?m PROGRAM_BASE w)"
    using assms w p by (simp add: vm_create_def segment_bases_def load_segments_def length_words Let_def)
  moreover have "core_released (vm_init_cores h base sz ?m PROGRAM_BASE w) = (\<lambda>i. i = 0)" "\<not> halted (vm_init_cores h base sz ?m PROGRAM_BASE w)"
    using assms(3) hw by (auto simp: vm_init_cores_def Let_def set_io_def w(2))
  ultimately show ?thesis
    using vm_init_cores_fields(8,11) [OF refl] w(2) by auto
qed

text \<open>The machine that a test starts is the initial state of the programmer's model.\<close>

lemma start_sim:
  assumes "malloc_ok h MEM_SIZE" "malloc_ok h FB_SIZE" "1 \<le> cores" "cores \<le> 64" "length ws \<le> 64"
  shows "\<exists>u v. vm_create h MEM_SIZE (concat (map u64_le ws)) [] None cores = Inr u \<and> init_ivt (disk_init img u) = Inr v
     \<and> sim \<lparr>a_code = ws, a_vec = None, a_cores = nat cores\<rparr> v start_machine"
proof -
  let ?m = "store_bytes (\<lambda>_. 0) 0x201C (concat (map u64_le ws))" and ?m' = "\<lambda>b :: u32. if unat b < 2048 then 0xFF else store_bytes (\<lambda>_. 0) 0x201C (concat (map u64_le ws)) b"
  obtain u where u: "vm_create h MEM_SIZE (concat (map u64_le ws)) [] None cores = Inr u" "\<not> halted u" "memory u = ?m"
      "core_released u = (\<lambda>i. i = 0)" "\<forall>i < nat cores. \<exists>b. cpus u i = core_init b PROGRAM_BASE i"
    using create_test [OF assms] by blast
  note wf = vm_create_wf [OF u(1) assms(3)] and st = vm_create_stacks [OF u(1) assms(3,4)]
  let ?d = "disk_init img u"
  have d: "memory_size ?d = MEM_SIZE" "smp_cores ?d = nat cores" "memory ?d = ?m" "cpus ?d = cpus u" "mmio_devices ?d = boot_devices"
      "core_released ?d = core_released u" "halted ?d = halted u" "dk_status (disk ?d) = DISK_STATUS_FREE"
    using wf u(3) by (simp_all add: disk_init_def Let_def)
  have "bus_ok ?d = bus_ok u" by (rule bus_ok_cong) (simp_all add: disk_init_def Let_def cache_frame_def)
  then have bus: "bus_ok ?d" using wf(1) by (simp add: wf_def)
  obtain v where v: "init_ivt ?d = Inr v" "memory v = ?m'" "smp_cores v = nat cores" "memory_size v = MEM_SIZE" "mmio_devices v = boot_devices"
      "dk_status (disk v) = DISK_STATUS_FREE" "halted v = halted u" "core_released v = core_released u" "cache_frame ?d v"
      "\<And>k. k < nat cores * 4 \<Longrightarrow> interrupt_bitmap v k = 0" "\<And>k. k < nat cores \<Longrightarrow> cpus v k = (cpus u k)\<lparr>in_interrupt := False\<rparr>"
    using init_ivt_memory [of ?d] d by (simp add: cache_frame_def cong: if_cong)
  have "load64 ?m' (PROGRAM_BASE + of_nat (8 * k)) = ws ! k" if k: "k < length ws" for k
  proof (rule load64_bytes)
    fix j :: nat assume j: "j < 8"
    have "unat (PROGRAM_BASE + of_nat (8 * k) + of_nat j) = 0x201C + (8 * k + j)"
    proof -
      have "unat (of_nat (8 * k + j) :: u32) = 8 * k + j" using k j assms(5) by (simp only: unat_of_nat) simp
      then have "unat (PROGRAM_BASE + of_nat (8 * k + j)) = 0x201C + (8 * k + j)"
        using k j assms(5) unat_plus_small [of "0x201C" "of_nat (8 * k + j)"] by simp
      then show ?thesis by (simp add: add.assoc)
    qed
    then show "?m' (PROGRAM_BASE + of_nat (8 * k) + of_nat j) = byte_of j (ws ! k)"
      using nth_words [OF k j] k j by (simp add: store_bytes_def length_words)
  qed
  then have "image_sim \<lparr>a_code = ws, a_vec = None, a_cores = nat cores\<rparr> v"
    using v(3-6) bus_ok_cong [OF _ v(9)] bus d(5) by (simp add: image_sim_def v(2))
  moreover have "load32 ?m' a = 0" if "data_addr a" for a
  proof -
    have "?m' (a + i) = 0" if "unat i < 4" for i
    proof -
      have "unat (a + i) = unat a + unat i" using data_addr_bounds [OF \<open>data_addr a\<close>] that by (intro unat_plus_small) simp
      then show ?thesis using data_addr_bounds [OF \<open>data_addr a\<close>] assms(5) by (simp add: store_bytes_def length_words)
    qed
    from this [of 0] this [of 1] this [of 2] this [of 3] show ?thesis by (simp add: load32_def le32_def)
  qed
  moreover have "core_sim (nat cores) c (cpus v c) (memory v) start_core" if c: "c < nat cores" for c
  proof -
    obtain b where b: "cpus u c = core_init b PROGRAM_BASE c" using u(5) c by blast
    have "stack_content load64 8 a 256 ?m' = []" for a by (simp add: stack_content_def)
    then show ?thesis using st(1,3,4,6) [of c] c wf(2) v(11) [OF c]
      by (simp add: core_sim_def start_core_def b saved_sim_def v(2) core_init_bases) (simp add: core_init_def vcpu_zero_def)
  qed
  moreover have "\<not> pending v c m" if "c < nat cores" "m < 256" for c m
  proof -
    have "c * 4 + m div 64 < nat cores * 4" using that by auto
    then show ?thesis using v(10) by (simp add: pending_def)
  qed
  ultimately have "sim \<lparr>a_code = ws, a_vec = None, a_cores = nat cores\<rparr> v start_machine"
    using u(2,4) v(7,8) by (simp add: sim_def start_machine_def v(2))
  then show ?thesis using u(1) v(1) by blast
qed

lemma isr_sim:
  assumes "sim p v s" "prog_ok p"
  shows "\<exists>w. register_isr 5 (ucast a) v = Inr w \<and> sim (p\<lparr>a_vec := Some a\<rparr>) w s"
proof -
  let ?w = "v\<lparr>memory := store64 (memory v) 40 (ucast a)\<rparr>"
  have m: "memory_size v = MEM_SIZE" using assms(1) by (simp add: sim_def image_sim_def)
  have "ucast (ucast (ucast a :: u64) :: u32) = (ucast a :: u64)" by simp
  then have reg: "register_isr 5 (ucast a) v = Inr ?w" using m by (simp add: register_isr_def vm_write64_def in_ram_def)
  have out: "memory ?w b = memory v b" if "48 \<le> unat b" for b using that store64_other [of 40 b] by simp
  have code: "load64 (memory ?w) (PROGRAM_BASE + of_nat (8 * k)) = a_code p ! k" if "k < length (a_code p)" for k
  proof -
    have "k < 64" using that assms(2) by (simp add: prog_ok_def)
    note u = code_slot [OF this]
    have "load64 (memory ?w) (PROGRAM_BASE + of_nat (8 * k)) = load64 (memory v) (PROGRAM_BASE + of_nat (8 * k))"
      using \<open>k < 64\<close> by (intro load64_cong out) (unfold u, auto)
    then show ?thesis using assms(1) that by (simp add: sim_def image_sim_def)
  qed
  have "bus_ok ?w = bus_ok v" by (rule bus_ok_cong) (simp_all add: cache_frame_def)
  then have img: "image_sim (p\<lparr>a_vec := Some a\<rparr>) ?w" using assms(1) code by (simp add: sim_def image_sim_def)
  have data: "load32 (memory ?w) b = load32 (memory v) b" if "data_addr b" for b
  proof (rule load32_cong)
    fix i :: u32 assume "unat i < 4"
    then have "unat (b + i) = unat b + unat i" using data_addr_bounds [OF that] by (intro unat_plus_small) simp
    then show "memory ?w (b + i) = memory v (b + i)" using data_addr_bounds [OF that] by (intro out) simp
  qed
  have core: "core_sim (a_cores p) c (cpus v c) (memory ?w) (acores s c)" if c: "c < a_cores p" for c
  proof (rule core_sim_mem [OF sim_core [OF assms(1) c] c])
    show n: "a_cores p \<le> 64" using assms(2) by (simp add: prog_ok_def)
    fix b :: u32 assume "core_base (a_cores p) c \<le> unat b" "unat b < core_base (a_cores p) c + 5120"
    then show "memory ?w b = memory v b" using core_block_apart [OF c n, of b] by (intro out) linarith
  qed
  have "sim (p\<lparr>a_vec := Some a\<rparr>) ?w s"
    using assms(1) img data core by (simp add: sim_def pending_def)
  then show ?thesis using reg by blast
qed

section \<open>Runs\<close>

lemma run_turns_sim:
  assumes "sim p v s" "prog_ok p" "set cs \<subseteq> {..<a_cores p}" "aturns p cs s = Some t"
  shows "\<exists>ns' w. run_turns h cs (ns, v) = Inr (ns', w) \<and> sim p w t"
  using assms
proof (induction cs arbitrary: ns v s)
  case (Cons c cs)
  then obtain u where u: "aturn p c s = Some u" "aturns p cs u = Some t" by (auto split: bind_splits)
  obtain r where r: "vm_thread_turn h c (ns c) v = Inr r" "sim p (thread_vm r) u"
    using turn_sim [OF Cons.prems(1,2) _ u(1), of h "ns c"] Cons.prems(3) by auto
  then show ?case using Cons.IH [OF r(2) Cons.prems(2) _ u(2)] Cons.prems(3) by (cases r) auto
qed simp

lemma halt_idem: "a_halted s \<Longrightarrow> s\<lparr>a_halted := True\<rparr> = s"
  by (cases s) simp

text \<open>A run ends halted. When all threads could be created, it has made all the turns.\<close>

lemma headless_sim:
  assumes "sim p v s" "prog_ok p" "malloc_ok h (8 * a_cores p)" "set (early sch @ turns sch) \<subseteq> {..<a_cores p}"
    "created sch \<le> a_cores p" "aturns p (early sch @ turns sch) s = Some t"
  shows "\<exists>w u. vm_run_headless h sch v = Inr w \<and> sim p w u \<and> (created sch = a_cores p \<longrightarrow> u = t\<lparr>a_halted := True\<rparr>)"
proof -
  have n: "smp_cores v = a_cores p" using assms(1) by (simp add: sim_def image_sim_def)
  obtain s1 where s1: "aturns p (early sch) s = Some s1" "aturns p (turns sch) s1 = Some t"
    using assms(6) by (auto simp: aturns_append split: bind_splits)
  obtain ns1 v1 where v1: "run_turns h (early sch) (\<lambda>_. 0, v) = Inr (ns1, v1)" "sim p v1 s1"
    using run_turns_sim [OF assms(1,2) _ s1(1)] assms(4) by fastforce
  let ?b = "created sch < a_cores p"
  let ?v2 = "if ?b then v1\<lparr>halted := True\<rparr> else v1" and ?s2 = "if ?b then s1\<lparr>a_halted := True\<rparr> else s1"
  let ?t2 = "if ?b then s1\<lparr>a_halted := True\<rparr> else t"
  have "sim p ?v2 ?s2" using v1(2) sim_halt by auto
  moreover have "aturns p (turns sch) ?s2 = Some ?t2" using s1(2) aturns_halted by auto
  ultimately obtain ns3 v3 where v3: "run_turns h (turns sch) (ns1, ?v2) = Inr (ns3, v3)" "sim p v3 ?t2"
    using run_turns_sim [OF _ assms(2), of ?v2 ?s2 "turns sch" ?t2] assms(4) by fastforce
  let ?v4 = "if \<not> halted v3 then v3\<lparr>halted := True\<rparr> else v3" and ?u = "?t2\<lparr>a_halted := True\<rparr>"
  have "halted v3 = a_halted ?t2" using v3(2) by (simp add: sim_def)
  then have "sim p ?v4 ?u" using sim_halt [OF v3(2)] v3(2) halt_idem [of ?t2] by (cases "halted v3") metis+
  moreover have "aturns p [0..<created sch] ?u = Some ?u" by (rule aturns_halted) simp
  ultimately obtain ns5 w where w: "run_turns h [0..<created sch] (ns3, ?v4) = Inr (ns5, w)" "sim p w ?u"
    using run_turns_sim [OF _ assms(2), of ?v4 ?u "[0..<created sch]" ?u] assms(5) by fastforce
  have "vm_run_headless h sch v = Inr w"
    using assms(3) v1(1) v3(1) w(1) by (simp add: vm_run_headless_def Let_def n)
  then show ?thesis using w(2) by auto
qed

section \<open>What the programs compute\<close>

lemma startap_run: "startap.run cs s = aturns startap_test cs s"
  by (induction cs arbitrary: s) (simp_all cong: bind_option_cong)

lemma ipi_run: "ipi.run cs s = aturns ipi_test cs s"
  by (induction cs arbitrary: s) (simp_all cong: bind_option_cong)

lemma startap_result:
  assumes "set cs \<subseteq> {..<2}" "fair 2 k cs"
  shows "\<exists>t. aturns startap_test cs start_machine = Some t \<and> (30 \<le> k \<longrightarrow> a_word t 0x3000 = 1)"
proof -
  have s: "startap_at 0 11 start_machine" by (simp add: startap_at_def start_machine_def start_core_def Let_def)
  then obtain t i j where t: "startap.run cs start_machine = Some t" "startap_at i j t" "startap_rank t \<le> startap_rank start_machine - k"
    using startap.fair_ranks [OF assms(2) _ assms(1)] by blast
  have "a_word t 0x3000 = 1" if "30 \<le> k"
  proof -
    have "startap_rank t = 0" using t(3) that startap_rank_at(1) [OF s] by simp
    then have "i = 8" using startap_rank_at(1) [OF t(2)] startap_atD(2,4,5) [OF t(2)] by (auto split: if_splits)
    then show ?thesis using startap_atD(7,8) [OF t(2)] by simp
  qed
  then show ?thesis using t(1) by (simp add: startap_run)
qed

lemma ipi_result:
  assumes "set cs \<subseteq> {..<2}" "fair 2 k cs"
  shows "\<exists>t. aturns ipi_test cs start_machine = Some t \<and> (60 \<le> k \<longrightarrow> a_word t 0x3014 = 1)"
proof -
  have s: "ipi_at 0 14 0 start_machine" by (simp add: ipi_at_def start_machine_def start_core_def ipi_saved_def Let_def)
  then obtain t i j d where t: "ipi.run cs start_machine = Some t" "ipi_at i j d t" "ipi_rank t \<le> ipi_rank start_machine - k"
    using ipi.fair_ranks [OF assms(2) _ assms(1)] by blast
  have "a_word t 0x3014 = 1" if "60 \<le> k"
  proof -
    have "ipi_rank t = 0" using t(3) that ipi_rank_at(1) [OF s] by (simp add: ipi_measure_def)
    then have "i = 14" using ipi_rank_at(1) [OF t(2)] ipi_atD(2,4,5) [OF t(2)] by (auto simp: ipi_measure_def split: if_splits)
    then show ?thesis using ipi_atD(10,16) [OF t(2)] by simp
  qed
  then show ?thesis using t(1) by (simp add: ipi_run)
qed

lemma fair_length: "fair n k cs \<Longrightarrow> 0 < n \<Longrightarrow> k \<le> length cs"
proof (induction rule: fair.induct)
  case (fair_Suc bs k cs)
  then show ?case by (cases bs) auto
qed simp

text \<open>A run on one core is a prefix of the run until the machine halts, or that run.\<close>

lemma one_core_run:
  assumes "aturns p (replicate m 0) s = Some t" "a_halted t" "set cs \<subseteq> {..<1}"
  shows "\<exists>u. aturns p cs s = Some u \<and> (m \<le> length cs \<longrightarrow> u = t)"
proof -
  have cs: "cs = replicate (length cs) 0" using assms(3) by (simp add: replicate_length_same subset_eq)
  show ?thesis
  proof (cases "m \<le> length cs")
    case True
    then have "cs = replicate m 0 @ replicate (length cs - m) 0" using cs by (simp add: replicate_add [symmetric])
    then show ?thesis using assms(1,2) by (metis aturns_append aturns_halted bind.bind_lunit)
  next
    case False
    then have "replicate m 0 = cs @ replicate (m - length cs) 0" using cs by (metis le_add_diff_inverse nat_le_linear replicate_add)
    then show ?thesis using assms(1) False by (auto simp: aturns_append split: bind_splits)
  qed
qed

lemma relctrl_result:
  assumes "set cs \<subseteq> {..<1}"
  shows "\<exists>t. aturns relctrl_test cs start_machine = Some t \<and> (15 \<le> length cs \<longrightarrow> a_word t 0x3020 = 1)"
proof -
  have "replicate 15 (0 :: nat) = [0, 0, 0, 0, 0, 0, 0, 0, 0, 0, 0, 0, 0, 0, 0]" by (simp add: numeral_eq_Suc)
  then obtain s where "aturns relctrl_test (replicate 15 0) start_machine = Some s" "a_halted s" "a_word s 0x3020 = 1"
    using relctrl_run by auto
  then show ?thesis using one_core_run [OF _ _ assms] by blast
qed

lemma zero_branch_result:
  assumes "set cs \<subseteq> {..<1}"
  shows "\<exists>t. aturns zero_branch_test cs start_machine = Some t \<and> (14 \<le> length cs \<longrightarrow> a_word t 0x3024 = 1)"
proof -
  have "replicate 14 (0 :: nat) = [0, 0, 0, 0, 0, 0, 0, 0, 0, 0, 0, 0, 0, 0]" by (simp add: numeral_eq_Suc)
  then obtain s where "aturns zero_branch_test (replicate 14 0) start_machine = Some s" "a_halted s" "a_word s 0x3024 = 1"
    using zero_branch_run by auto
  then show ?thesis using one_core_run [OF _ _ assms] by blast
qed

section \<open>The tests pass\<close>

text \<open>Only threads of the machine take turns, and how often all of them do.\<close>

definition legal_schedule :: "nat \<Rightarrow> schedule \<Rightarrow> bool" where
  "legal_schedule n sch \<longleftrightarrow> created sch \<le> n \<and> set (early sch @ turns sch) \<subseteq> {..<n}"

definition fair_schedule :: "nat \<Rightarrow> nat \<Rightarrow> schedule \<Rightarrow> bool" where
  "fair_schedule n k sch \<longleftrightarrow> created sch = n \<and> fair n k (early sch @ turns sch)"

lemma run_test_result:
  assumes "\<And>m. malloc_ok h m" "1 \<le> cores" "cores \<le> 64" "length ws \<le> 64" "data_addr addr" "legal_schedule (nat cores) sch"
    and isr: "\<And>v. sim \<lparr>a_code = ws, a_vec = None, a_cores = nat cores\<rparr> v start_machine \<Longrightarrow>
           \<exists>w. isr v = Inr w \<and> sim \<lparr>a_code = ws, a_vec = vec, a_cores = nat cores\<rparr> w start_machine"
    and run: "aturns \<lparr>a_code = ws, a_vec = vec, a_cores = nat cores\<rparr> (early sch @ turns sch) start_machine = Some t"
  shows "\<exists>b. run_test h img sch ws cores isr addr = Inr b \<and> (created sch = nat cores \<longrightarrow> b = (a_word t addr = 1))"
proof -
  let ?p = "\<lparr>a_code = ws, a_vec = vec, a_cores = nat cores\<rparr>"
  obtain u v where v: "vm_create h MEM_SIZE (concat (map u64_le ws)) [] None cores = Inr u" "init_ivt (disk_init img u) = Inr v"
      "sim \<lparr>a_code = ws, a_vec = None, a_cores = nat cores\<rparr> v start_machine"
    using start_sim [OF assms(1,1) assms(2-4)] by blast
  obtain w where w: "isr v = Inr w" "sim ?p w start_machine" using isr [OF v(3)] by blast
  have "prog_ok ?p" using assms(2-4) by (auto simp: prog_ok_def)
  then obtain x s where x: "vm_run_headless h sch w = Inr x" "sim ?p x s" "created sch = nat cores \<longrightarrow> s = t\<lparr>a_halted := True\<rparr>"
    using headless_sim [OF w(2) _ assms(1) _ _ run] assms(6) by (auto simp: legal_schedule_def)
  have "vm_read32 h x addr = Inr (a_word s addr, nocache x)" by (rule sim_read [OF x(2) assms(5)])
  then have "run_test h img sch ws cores isr addr = Inr (a_word s addr = 1)"
    using v(1,2) w(1) x(1) by (simp add: run_test_def)
  then show ?thesis using x(3) by auto
qed

lemma startap_pass:
  assumes "\<And>m. malloc_ok h m" "legal_schedule 2 sch"
  shows "\<exists>b. run_selftest_startap_cpuid h img sch = Inr b \<and> (fair_schedule 2 30 sch \<longrightarrow> b)"
proof -
  have cs: "set (early sch @ turns sch) \<subseteq> {..<2}" using assms(2) by (simp add: legal_schedule_def)
  obtain t where t: "aturns startap_test (early sch @ turns sch) start_machine = Some t" "fair 2 30 (early sch @ turns sch) \<longrightarrow> a_word t 0x3000 = 1"
    using startap_result [OF cs fair_0] startap_result [OF cs, of 30] by force
  have "\<exists>b. run_selftest_startap_cpuid h img sch = Inr b \<and> (created sch = nat 2 \<longrightarrow> b = (a_word t 0x3000 = 1))"
    unfolding run_selftest_startap_cpuid_def
    by (rule run_test_result [of h 2 startap_program _ sch Inr None, OF assms(1)])
       (use assms(2) t(1) in \<open>simp_all add: startap_test_def startap_program_def\<close>)
  then show ?thesis using t(2) by (auto simp: fair_schedule_def)
qed

lemma ipi_pass:
  assumes "\<And>m. malloc_ok h m" "legal_schedule 2 sch"
  shows "\<exists>b. run_selftest_ipi h img sch = Inr b \<and> (fair_schedule 2 60 sch \<longrightarrow> b)"
proof -
  have cs: "set (early sch @ turns sch) \<subseteq> {..<2}" using assms(2) by (simp add: legal_schedule_def)
  obtain t where t: "aturns ipi_test (early sch @ turns sch) start_machine = Some t" "fair 2 60 (early sch @ turns sch) \<longrightarrow> a_word t 0x3014 = 1"
    using ipi_result [OF cs fair_0] ipi_result [OF cs, of 60] by force
  let ?p = "\<lparr>a_code = ipi_program, a_vec = None, a_cores = nat 2\<rparr>" and ?a = "PROGRAM_BASE + 20 * 8 :: u32"
  have "prog_ok ?p" by (simp add: prog_ok_def ipi_program_def)
  then have isr: "\<exists>w. register_isr 5 (ucast ?a) v = Inr w \<and> sim \<lparr>a_code = ipi_program, a_vec = Some ?a, a_cores = nat 2\<rparr> w start_machine"
    if "sim ?p v start_machine" for v
    using isr_sim [OF that, of ?a] by simp
  have "\<exists>b. run_selftest_ipi h img sch = Inr b \<and> (created sch = nat 2 \<longrightarrow> b = (a_word t 0x3014 = 1))"
    unfolding run_selftest_ipi_def
    by (rule run_test_result [of h 2 ipi_program _ sch "register_isr 5 (ucast ?a)" "Some ?a", OF assms(1) _ _ _ _ _ isr])
       (use assms(2) t(1) in \<open>simp_all add: ipi_test_def ipi_program_def\<close>)
  then show ?thesis using t(2) by (auto simp: fair_schedule_def)
qed

lemma relctrl_pass:
  assumes "\<And>m. malloc_ok h m" "legal_schedule 1 sch"
  shows "\<exists>b. run_selftest_relctrl h img sch = Inr b \<and> (fair_schedule 1 15 sch \<longrightarrow> b)"
proof -
  obtain t where t: "aturns relctrl_test (early sch @ turns sch) start_machine = Some t" "15 \<le> length (early sch @ turns sch) \<longrightarrow> a_word t 0x3020 = 1"
    using relctrl_result [of "early sch @ turns sch"] assms(2) by (auto simp: legal_schedule_def)
  have "\<exists>b. run_selftest_relctrl h img sch = Inr b \<and> (created sch = nat 1 \<longrightarrow> b = (a_word t 0x3020 = 1))"
    unfolding run_selftest_relctrl_def
    by (rule run_test_result [of h 1 relctrl_program _ sch Inr None, OF assms(1)])
       (use assms(2) t(1) in \<open>simp_all add: relctrl_test_def relctrl_program_def data_addr_def\<close>)
  then show ?thesis using t(2) fair_length [of 1 15 "early sch @ turns sch"] by (auto simp: fair_schedule_def)
qed

lemma zero_branch_pass:
  assumes "\<And>m. malloc_ok h m" "legal_schedule 1 sch"
  shows "\<exists>b. run_selftest_zero_branch_flags h img sch = Inr b \<and> (fair_schedule 1 14 sch \<longrightarrow> b)"
proof -
  obtain t where t: "aturns zero_branch_test (early sch @ turns sch) start_machine = Some t" "14 \<le> length (early sch @ turns sch) \<longrightarrow> a_word t 0x3024 = 1"
    using zero_branch_result [of "early sch @ turns sch"] assms(2) by (auto simp: legal_schedule_def)
  have "\<exists>b. run_selftest_zero_branch_flags h img sch = Inr b \<and> (created sch = nat 1 \<longrightarrow> b = (a_word t 0x3024 = 1))"
    unfolding run_selftest_zero_branch_flags_def
    by (rule run_test_result [of h 1 zero_branch_program _ sch Inr None, OF assms(1)])
       (use assms(2) t(1) in \<open>simp_all add: zero_branch_test_def zero_branch_program_def data_addr_def\<close>)
  then show ?thesis using t(2) fair_length [of 1 14 "early sch @ turns sch"] by (auto simp: fair_schedule_def)
qed

section \<open>Properties\<close>

text \<open>C5: whatever order the host gives the core threads their turns in, the four built-in tests end without a panic, and when all
  threads could be created and every thread gets its turn often enough before the timeout (30 and 60 rounds of the two cores, 15 and 14 turns of
  the one core), all tests pass: a started core runs, an interrupt sent to another core is handled there and returned from, and relative
  jumps, calls and branches on the zero flag go where they should.\<close>

theorem selftests_pass:
  assumes "\<And>m. malloc_ok h m" "legal_schedule 2 sch1" "legal_schedule 2 sch2" "legal_schedule 1 sch3" "legal_schedule 1 sch4"
  shows "\<exists>r. run_selftests h img (sch1, sch2, sch3, sch4) = Inr r
     \<and> (fair_schedule 2 30 sch1 \<and> fair_schedule 2 60 sch2 \<and> fair_schedule 1 15 sch3 \<and> fair_schedule 1 14 sch4 \<longrightarrow> r = 0)"
proof -
  obtain b1 where b1: "run_selftest_startap_cpuid h img sch1 = Inr b1" "fair_schedule 2 30 sch1 \<longrightarrow> b1"
    using startap_pass [OF assms(1,2)] by blast
  obtain b2 where b2: "run_selftest_ipi h img sch2 = Inr b2" "fair_schedule 2 60 sch2 \<longrightarrow> b2"
    using ipi_pass [OF assms(1,3)] by blast
  obtain b3 where b3: "run_selftest_relctrl h img sch3 = Inr b3" "fair_schedule 1 15 sch3 \<longrightarrow> b3"
    using relctrl_pass [OF assms(1,4)] by blast
  obtain b4 where b4: "run_selftest_zero_branch_flags h img sch4 = Inr b4" "fair_schedule 1 14 sch4 \<longrightarrow> b4"
    using zero_branch_pass [OF assms(1,5)] by blast
  show ?thesis using b1 b2 b3 b4 by (simp add: run_selftests_def)
qed

definition round_robin :: "nat \<Rightarrow> nat \<Rightarrow> schedule" where
  "round_robin n k = \<lparr>created = n, early = [0], turns = concat (replicate k [0..<n])\<rparr>"

lemma round_robin_ok: "0 < n \<Longrightarrow> legal_schedule n (round_robin n k) \<and> fair_schedule n k (round_robin n k)"
proof -
  assume n: "0 < n"
  have "fair n k (concat (replicate k [0..<n]))" for k
    by (induction k) (auto intro: fair_0 fair_Suc)
  moreover have "fair n k (xs @ cs)" if "fair n k cs" for xs cs
    using that
  proof (induction rule: fair.induct)
    case (fair_Suc bs k cs)
    then show ?case using fair.fair_Suc [of n "xs @ bs" k cs] by simp
  qed (rule fair_0)
  ultimately have "fair n k ([0] @ concat (replicate k [0..<n]))" by blast
  then show ?thesis using n by (auto simp: legal_schedule_def fair_schedule_def round_robin_def)
qed

theorem selftests_pass_witness:
  "run_selftests host_zero None (round_robin 2 30, round_robin 2 60, round_robin 1 15, round_robin 1 14) = Inr 0"
proof -
  have m: "malloc_ok host_zero m" for m by (simp add: host_zero_def)
  note r = round_robin_ok [of 2 30] round_robin_ok [of 2 60] round_robin_ok [of 1 15] round_robin_ok [of 1 14]
  show ?thesis
    using selftests_pass [OF m, of "round_robin 2 30" "round_robin 2 60" "round_robin 1 15" "round_robin 1 14" None] r by auto
qed

end
