(* ===== verification/MainProgram.thy ===== *)
theory MainProgram
  imports SelfTests
begin

text \<open>
  The main program (\<open>main\<close>, \<open>vm_run\<close> and the reading of the arguments in \<open>vm.c\<close>). What the threads of a run do, and when,
  is a sequence of events: turns of the core threads, passes of the window loop with the events that SDL reports, and
  turns of the disk and timer threads. A run is over when the machine is halted; a sequence that does not halt it
  is a run that still goes on (\<open>Running\<close>). The files of the host and the number of threads that could be created are
  parameters.
\<close>

section \<open>The command line\<close>

text \<open>\<open>strtol (s, &end, 10)\<close>: the value, whether \<open>errno\<close> is set, and the rest; \<open>None\<close> when there is no number.\<close>

definition strtol10 :: "u8 list \<Rightarrow> (int \<times> bool \<times> u8 list) option" where
  "strtol10 s =
     (let s = dropWhile isspace s;
          neg = (s \<noteq> [] \<and> hd s = 45);
          s = (if s \<noteq> [] \<and> (hd s = 45 \<or> hd s = 43) then tl s else s) in
      if s = [] \<or> digit_val 10 (hd s) = None then None
      else (case scan_digits 10 0 s of (n, rest) \<Rightarrow>
        let x = (if neg then - int n else int n) in
        if x < - (2 ^ 63) then Some (- (2 ^ 63), True, rest)
        else if 2 ^ 63 \<le> x then Some (2 ^ 63 - 1, True, rest)
        else Some (x, False, rest)))"

definition parse_positive_int :: "string \<Rightarrow> int option" where
  "parse_positive_int s =
     (case strtol10 (List.map of_char s) of
        None \<Rightarrow> None
      | Some (v, errno, rest) \<Rightarrow> if errno \<or> rest \<noteq> [] \<or> v < 1 \<or> 64 < v then None else Some v)"

record options =
  filename :: string
  opt_cores :: int
  selftest :: bool

text \<open>The arguments after the program's name; \<open>Inl\<close> is the code with which the program ends at once.\<close>

fun parse_args :: "string list \<Rightarrow> options \<Rightarrow> int + options" where
  "parse_args [] opts = Inr opts"
| "parse_args (a # as) opts =
     (if a = ''--bin'' then (case as of [] \<Rightarrow> Inl 1 | f # as \<Rightarrow> parse_args as (opts\<lparr>filename := f\<rparr>))
      else if a = ''--smp'' then
        (case as of [] \<Rightarrow> Inl 1
         | n # as \<Rightarrow> (case parse_positive_int n of None \<Rightarrow> Inl 1 | Some k \<Rightarrow> parse_args as (opts\<lparr>opt_cores := k\<rparr>)))
      else if a = ''--help'' \<or> a = ''-h'' then Inl 0
      else if a = ''--selftest'' then parse_args as (opts\<lparr>selftest := True\<rparr>)
      else Inl 1)"

definition default_options :: options where
  "default_options = \<lparr>filename = ''boot.bin'', opt_cores = 1, selftest = False\<rparr>"

section \<open>A run with a window\<close>

datatype event = Core_turn nat | Window_turn "sdl_event list" | Disk_turn | Timer_turn

definition event_step :: "host \<Rightarrow> sdl_keys \<Rightarrow> event \<Rightarrow> (nat \<Rightarrow> u64) \<times> vm \<Rightarrow> vm_error + (nat \<Rightarrow> u64) \<times> vm" where
  "event_step h k e x =
     (case x of (ns, v) \<Rightarrow>
      case e of
        Core_turn c \<Rightarrow>
          if c < smp_cores v
          then bind_res (vm_thread_turn h c (ns c) v) (\<lambda>r. Inr (ns(c := thread_count r), thread_vm r))
          else Inr (ns, v)
      | Window_turn es \<Rightarrow> Inr (ns, if halted v then v else display_poll_events k es v)
      | Disk_turn \<Rightarrow> Inr (ns, disk_worker h v)
      | Timer_turn \<Rightarrow> Inr (ns, case timer_tick h v of Some w \<Rightarrow> w | None \<Rightarrow> v))"

fun run_events :: "host \<Rightarrow> sdl_keys \<Rightarrow> event list \<Rightarrow> (nat \<Rightarrow> u64) \<times> vm \<Rightarrow> vm_error + (nat \<Rightarrow> u64) \<times> vm" where
  "run_events h k [] x = Inr x"
| "run_events h k (e # es) x = bind_res (event_step h k e x) (run_events h k es)"

text \<open>\<open>None\<close>: the window loop has not been left. When it has, every core thread sees the machine halted and ends.\<close>

definition vm_run :: "host \<Rightarrow> sdl_keys \<Rightarrow> nat \<Rightarrow> event list \<Rightarrow> vm \<Rightarrow> vm_error + vm option" where
  "vm_run h k threads es v =
     (let cores = smp_cores v in
      if \<not> malloc_ok h (8 * cores) then Inl (Panic_create ''Failed to allocate CPU thread list'')
      else if threads < cores then Inl (Panic_create ''Failed to create CPU thread'')
      else
        bind_res (run_events h k es (\<lambda>_. 0, v)) (\<lambda>(ns, v).
        if \<not> halted v then Inr None
        else bind_res (run_events h k (List.map Core_turn [0..<cores]) (ns, v)) (\<lambda>(ns, v). Inr (Some v))))"

datatype main_result = Exit int | Running | Finished u64 vm

definition total_execution_times :: "vm \<Rightarrow> u64" where
  "total_execution_times v = fold (\<lambda>i t. t + execution_times (cpus v i)) [0..<smp_cores v] 0"

definition lamp_main ::
  "host \<Rightarrow> (string \<Rightarrow> u8 list option) \<Rightarrow> u8 list option \<Rightarrow> schedule \<times> schedule \<times> schedule \<times> schedule \<Rightarrow> sdl_keys \<Rightarrow> nat
     \<Rightarrow> event list \<Rightarrow> string list \<Rightarrow> vm_error + main_result" where
  "lamp_main h files img schs k threads es argv =
     (case parse_args argv default_options of
        Inl code \<Rightarrow> Inr (Exit code)
      | Inr opts \<Rightarrow>
          if selftest opts then bind_res (run_selftests h img schs) (\<lambda>code. Inr (Exit code))
          else
            let r = boot h (files (filename opts)) img (opt_cores opts) in
            if r = Inl (Panic_create ''Failed to load program'') \<or> r = Inl (Panic_create ''NULL'') then Inr (Exit 1)
            else
              bind_res r (\<lambda>v.
              bind_res (vm_run h k threads es v) (\<lambda>r.
              case r of None \<Rightarrow> Inr Running
              | Some v \<Rightarrow> Inr (Finished (total_execution_times v) (vm_destroy v)))))"

section \<open>What runs keep and count\<close>

text \<open>How many instructions the core threads execute in a run.\<close>

fun instructions :: "host \<Rightarrow> sdl_keys \<Rightarrow> event list \<Rightarrow> (nat \<Rightarrow> u64) \<times> vm \<Rightarrow> nat" where
  "instructions h k [] x = 0"
| "instructions h k (e # es) x =
     (case e of Core_turn c \<Rightarrow> if c < smp_cores (snd x) \<and> runs c (snd x) then 1 else 0 | _ \<Rightarrow> 0)
     + (case event_step h k e x of Inr y \<Rightarrow> instructions h k es y | Inl _ \<Rightarrow> 0)"

definition cycles :: "(nat \<Rightarrow> u64) \<times> vm \<Rightarrow> u64" where
  "cycles x = (case x of (ns, v) \<Rightarrow> (\<Sum>i\<in>{..<smp_cores v}. execution_times (cpus v i) + ns i))"

lemma event_step_mstep:
  assumes "event_step h k e x = Inr y"
  shows "(mstep h)\<^sup>*\<^sup>* x y"
proof -
  obtain ns v where x: "x = (ns, v)" by fastforce
  show ?thesis
  proof (cases e)
    case (Core_turn c)
    show ?thesis
    proof (cases "c < smp_cores v")
      case True
      then obtain r where r: "vm_thread_turn h c (ns c) v = Inr r" "y = (ns(c := thread_count r), thread_vm r)"
        using assms Core_turn by (auto simp: event_step_def x bind_res_eq_Inr)
      then have "mstep h x y" unfolding x using True by (cases r) (auto intro: core_turn core_stop)
      then show ?thesis by simp
    next
      case False
      then show ?thesis using assms Core_turn by (simp add: event_step_def x)
    qed
  next
    case (Window_turn es)
    then show ?thesis using assms window_turn [of h ns v k es] by (auto simp: event_step_def x split: if_splits)
  next
    case Disk_turn
    then show ?thesis using assms disk_turn [of h ns v] by (auto simp: event_step_def x)
  next
    case Timer_turn
    then show ?thesis using assms timer_turn [of h v _ ns] by (auto simp: event_step_def x split: option.splits)
  qed
qed

lemma run_events_msteps: "run_events h k es x = Inr y \<Longrightarrow> (mstep h)\<^sup>*\<^sup>* x y"
proof (induction es arbitrary: x)
  case (Cons e es)
  then obtain u where "event_step h k e x = Inr u" "run_events h k es u = Inr y" by (auto simp: bind_res_eq_Inr)
  then show ?case using Cons.IH event_step_mstep by (blast intro: rtranclp_trans)
qed simp

text \<open>Every executed instruction is in the counter of its core or of its thread.\<close>

lemma same_times: "step_ok c v w \<Longrightarrow> execution_times (cpus w i) = execution_times (cpus v i)"
  using kept_core [of c v w i] by (simp add: step_ok_def same_core_def)

lemma cycles_quiet:
  assumes "\<And>i. execution_times (cpus w i) = execution_times (cpus v i)" "smp_cores w = smp_cores v"
  shows "cycles (ns, w) = cycles (ns, v)"
  using assms by (simp add: cycles_def)

lemma turn_cycles:
  assumes "vm_thread_turn h c (ns c) v = Inr r" "c < smp_cores v"
  shows "cycles (ns(c := thread_count r), thread_vm r) = cycles (ns, v) + (if runs c v then 1 else 0)"
proof -
  let ?n = "if runs c v then ns c + 1 else ns c" and ?w = "thread_vm r"
  have c: "counted c ?n v r" using thread_turn_counted [of c v "ns c" h] assms(1) by simp
  have n: "smp_cores ?w = smp_cores v" using c by (simp add: counted_def mkept_def Let_def)
  have each: "execution_times (cpus ?w i) + (if i = c then thread_count r else 0) = execution_times (cpus v i) + (if i = c then ?n else 0)" for i
    using c unfolding counted_def Let_def by blast
  have at: "execution_times (cpus ?w i) + (ns(c := thread_count r)) i = execution_times (cpus v i) + (ns(c := ?n)) i" for i
    using each [of i] by (cases "i = c") simp_all
  have "cycles (ns(c := thread_count r), ?w) = (\<Sum>i\<in>{..<smp_cores v}. execution_times (cpus v i) + (ns(c := ?n)) i)"
    unfolding cycles_def prod.case n at ..
  also have "\<dots> = (\<Sum>i\<in>{..<smp_cores v}. (execution_times (cpus v i) + ns i) + (if i = c \<and> runs c v then 1 else 0))"
    by (intro sum.cong) auto
  also have "\<dots> = cycles (ns, v) + (if runs c v then 1 else 0)"
    using assms(2) by (cases "runs c v") (simp_all add: sum.distrib cycles_def)
  finally show ?thesis .
qed

lemma event_cycles:
  assumes "event_step h k e x = Inr y"
  shows "cycles y = cycles x + (case e of Core_turn c \<Rightarrow> if c < smp_cores (snd x) \<and> runs c (snd x) then 1 else 0 | _ \<Rightarrow> 0)"
proof -
  obtain ns v where x: "x = (ns, v)" by fastforce
  have quiet: "cycles (ns, w) = cycles (ns, v)" if "step_ok 0 v w" for w
    using that same_times [OF that] by (intro cycles_quiet) (simp_all add: step_ok_def kept_def)
  show ?thesis
  proof (cases e)
    case (Core_turn c)
    then show ?thesis using assms turn_cycles [of h c ns v] by (auto simp: event_step_def x bind_res_eq_Inr split: if_splits)
  next
    case (Window_turn es)
    then show ?thesis using assms quiet [OF step_window] by (auto simp: event_step_def x)
  next
    case Disk_turn
    have "cycles (ns, disk_worker h v) = cycles (ns, v)"
      by (rule cycles_quiet) (simp_all add: disk_worker_def disk_transfer_def Let_def)
    then show ?thesis using assms Disk_turn by (auto simp: event_step_def x)
  next
    case Timer_turn
    then show ?thesis using assms quiet [OF timer_tick_step] by (auto simp: event_step_def x split: option.splits)
  qed
qed

lemma run_cycles: "run_events h k es x = Inr y \<Longrightarrow> cycles y = cycles x + of_nat (instructions h k es x)"
proof (induction es arbitrary: x)
  case (Cons e es)
  then obtain u where u: "event_step h k e x = Inr u" "run_events h k es u = Inr y" by (auto simp: bind_res_eq_Inr)
  show ?case unfolding Cons.IH [OF u(2)] event_cycles [OF u(1)] using u(1) by (cases e) simp_all
qed simp

text \<open>A halted machine stays halted, and closing the window halts it.\<close>

lemma event_halted:
  assumes "event_step h k e x = Inr y"
  shows "halted (snd x) \<Longrightarrow> halted (snd y)" "e = Window_turn es \<Longrightarrow> SDL_QUIT \<in> set es \<Longrightarrow> halted (snd y)"
proof -
  obtain ns v where x: "x = (ns, v)" by fastforce
  show "halted (snd y)" if "halted (snd x)"
  proof (cases e)
    case (Core_turn c)
    then show ?thesis using assms that
      by (auto simp: event_step_def x bind_res_eq_Inr vm_thread_turn_def vm_flush_execution_times_def split: if_splits)
  next
    case Timer_turn
    have "timer_tick h v = None" using that by (simp add: timer_tick_def x)
    then show ?thesis using assms that Timer_turn by (auto simp: event_step_def x)
  qed (use assms that in \<open>auto simp: event_step_def x disk_worker_def disk_transfer_def Let_def\<close>)
  show "halted (snd y)" if "e = Window_turn es" "SDL_QUIT \<in> set es"
    using assms that by (auto simp: event_step_def x poll_enqueues)
qed

lemma run_halted:
  assumes "run_events h k es x = Inr y" "halted (snd x) \<or> Window_turn evs \<in> set es \<and> SDL_QUIT \<in> set evs"
  shows "halted (snd y)"
  using assms
proof (induction es arbitrary: x)
  case (Cons e es)
  then obtain u where u: "event_step h k e x = Inr u" "run_events h k es u = Inr y" by (auto simp: bind_res_eq_Inr)
  show ?case by (rule Cons.IH [OF u(2)]) (use Cons.prems(2) event_halted [OF u(1)] in auto)
qed simp

lemma halted_no_instructions: "halted (snd x) \<Longrightarrow> instructions h k es x = 0"
proof (induction es arbitrary: x)
  case (Cons e es)
  have "\<not> runs c (snd x)" for c using Cons.prems by (simp add: runs_def)
  then show ?case using Cons event_halted(1) [of h k e x] by (cases e) (auto split: sum.splits)
qed simp

text \<open>The core threads of a halted machine end, and leave nothing uncounted.\<close>

lemma threads_stop:
  assumes "halted v" "\<forall>c \<in> set cs. c < smp_cores v"
  shows "\<exists>ns' w. run_events h k (List.map Core_turn cs) (ns, v) = Inr (ns', w) \<and> (\<forall>i. ns' i = (if i \<in> set cs then 0 else ns i))"
  using assms
proof (induction cs arbitrary: ns v)
  case (Cons c cs)
  let ?w = "snd (vm_flush_execution_times c (ns c) v)"
  have w: "halted ?w" "smp_cores ?w = smp_cores v" using Cons.prems(1) by (simp_all add: vm_flush_execution_times_def)
  have "event_step h k (Core_turn c) (ns, v) = Inr (ns(c := 0), ?w)"
    using Cons.prems by (simp add: event_step_def vm_thread_turn_def)
  moreover obtain ns' u where "run_events h k (List.map Core_turn cs) (ns(c := 0), ?w) = Inr (ns', u)"
      "\<forall>i. ns' i = (if i \<in> set cs then 0 else (ns(c := 0)) i)"
    using Cons.IH [OF w(1), of "ns(c := 0)"] Cons.prems(2) w(2) by (simp only: list.set Ball_def insert_iff) blast
  ultimately show ?case by auto
qed simp

lemma total_sum: "total_execution_times v = (\<Sum>i\<in>{..<smp_cores v}. execution_times (cpus v i))"
proof -
  have "fold (\<lambda>i t. t + f i) [0..<n] a = a + (\<Sum>i\<in>{..<n}. f i)" for f :: "nat \<Rightarrow> u64" and n a
    by (induction n) (simp_all add: algebra_simps)
  from this [of "\<lambda>i. execution_times (cpus v i)" _ 0] show ?thesis by (simp add: total_execution_times_def)
qed

text \<open>A run that comes to its end.\<close>

lemma vm_run_ends:
  assumes "vm_run h k threads es v = Inr (Some w)" "wf v" "0 < smp_cores v" "\<And>i. i < smp_cores v \<Longrightarrow> execution_times (cpus v i) = 0"
  shows "wf w" "halted w" "smp_cores w = smp_cores v" "total_execution_times w = of_nat (instructions h k es (\<lambda>_. 0, v))"
proof -
  let ?es = "List.map Core_turn [0..<smp_cores v]"
  obtain ns u ns' where u: "run_events h k es (\<lambda>_. 0, v) = Inr (ns, u)" "halted u" "run_events h k ?es (ns, u) = Inr (ns', w)"
    using assms(1) by (auto simp: vm_run_def Let_def bind_res_eq_Inr split: if_splits)
  have m: "(mstep h)\<^sup>*\<^sup>* (\<lambda>_. 0, v) (ns, u)" "(mstep h)\<^sup>*\<^sup>* (\<lambda>_. 0, v) (ns', w)"
    using run_events_msteps [OF u(1)] run_events_msteps [OF u(3)] by (auto intro: rtranclp_trans)
  show "wf w" using msteps_wf [OF m(2)] assms(2,3) by simp
  show "halted w" using run_halted [OF u(3)] u(2) by simp
  have n: "smp_cores u = smp_cores v" "smp_cores w = smp_cores v" using msteps_mkept [OF m(1)] msteps_mkept [OF m(2)] by (simp_all add: mkept_def)
  then show "smp_cores w = smp_cores v" by simp
  have "ns' i = 0" if "i < smp_cores v" for i using threads_stop [OF u(2), of "[0..<smp_cores v]" h k ns] u(3) n that by auto
  then have "total_execution_times w = cycles (ns', w)" by (simp add: total_sum cycles_def n)
  also have "\<dots> = cycles (\<lambda>_. 0, v) + of_nat (instructions h k es (\<lambda>_. 0, v))"
    using run_cycles [OF u(1)] run_cycles [OF u(3)] halted_no_instructions [of "(ns, u)" h k ?es] u(2) by simp
  also have "cycles (\<lambda>_. 0, v) = 0" using assms(4) by (simp add: cycles_def)
  finally show "total_execution_times w = of_nat (instructions h k es (\<lambda>_. 0, v))" by simp
qed

lemma vm_run_open:
  assumes "vm_run h k threads es v = Inr None" "Window_turn evs \<in> set es"
  shows "SDL_QUIT \<notin> set evs"
proof
  assume "SDL_QUIT \<in> set evs"
  moreover obtain ns u where "run_events h k es (\<lambda>_. 0, v) = Inr (ns, u)" "\<not> halted u"
    using assms(1) by (auto simp: vm_run_def Let_def bind_res_eq_Inr split: if_splits)
  ultimately show False using run_halted [of h k es "(\<lambda>_. 0, v)" "(ns, u)" evs] assms(2) by simp
qed

section \<open>What the main program starts\<close>

text \<open>Arguments that are not accepted end the program with 0 or 1; accepted ones give a number of cores in range.\<close>

lemma parse_args_range:
  assumes "1 \<le> opt_cores opts" "opt_cores opts \<le> 64"
  shows "case parse_args as opts of Inl code \<Rightarrow> code = 0 \<or> code = 1 | Inr opts \<Rightarrow> 1 \<le> opt_cores opts \<and> opt_cores opts \<le> 64"
  using assms
proof (induction as arbitrary: opts rule: length_induct)
  case (1 as)
  have IH: "case parse_args bs q of Inl code \<Rightarrow> code = 0 \<or> code = 1 | Inr opts \<Rightarrow> 1 \<le> opt_cores opts \<and> opt_cores opts \<le> 64"
    if "length bs < length as" "1 \<le> opt_cores q" "opt_cores q \<le> 64" for bs q
    using 1(1) that by blast
  show ?case
  proof (cases as)
    case Nil
    then show ?thesis using 1(2,3) by simp
  next
    case (Cons a bs)
    consider "a = ''--bin''" | "a = ''--smp''" | "a = ''--selftest''" | "a \<noteq> ''--bin''" "a \<noteq> ''--smp''" "a \<noteq> ''--selftest''" by blast
    then show ?thesis
    proof cases
      case 1
      then show ?thesis using IH \<open>1 \<le> opt_cores opts\<close> \<open>opt_cores opts \<le> 64\<close> Cons by (cases bs) simp_all
    next
      case 2
      show ?thesis
      proof (cases bs)
        case (Cons n cs)
        show ?thesis
        proof (cases "parse_positive_int n")
          case (Some m)
          then have "1 \<le> m" "m \<le> 64" by (auto simp: parse_positive_int_def split: option.splits if_splits)
          then show ?thesis using 2 Some Cons \<open>as = a # bs\<close> IH [of cs "opts\<lparr>opt_cores := m\<rparr>"] by simp
        qed (simp add: 2 Cons \<open>as = a # bs\<close>)
      qed (simp add: 2 Cons)
    next
      case 3
      then show ?thesis using IH [of bs "opts\<lparr>selftest := True\<rparr>"] \<open>1 \<le> opt_cores opts\<close> \<open>opt_cores opts \<le> 64\<close> Cons by simp
    next
      case 4
      then show ?thesis by (simp add: Cons)
    qed
  qed
qed

lemma parse_args_cores: "parse_args as default_options = Inr opts \<Longrightarrow> 1 \<le> opt_cores opts \<and> opt_cores opts \<le> 64"
  using parse_args_range [of default_options as] by (simp add: default_options_def)

lemma parse_args_code: "parse_args as default_options = Inl code \<Longrightarrow> code = 0 \<or> code = 1"
  using parse_args_range [of default_options as] by (simp add: default_options_def)

lemma boot_start:
  assumes "boot h file img cores = Inr v" "1 \<le> cores"
  shows "wf v" "smp_cores v = nat cores" "i < nat cores \<Longrightarrow> execution_times (cpus v i) = 0"
proof -
  obtain program data l u where u: "vm_create h MEM_SIZE program data (Some l) cores = Inr u" "init_ivt (disk_init img u) = Inr v"
    using assms(1) by (auto simp: boot_def bind_res_eq_Inr split: option.splits)
  note b = booted_wf [OF u(1) assms(2) u(2)]
  show "wf v" "smp_cores v = nat cores" by (rule b(1), rule b(2))
  obtain tb data_b bss bss_n where sb: "segment_bases (Some l) (length program) (length data) = (tb, data_b, bss, bss_n)"
    by (cases "segment_bases (Some l) (length program) (length data)")
  from u(1) assms(2) sb obtain w base sz m where w: "u = vm_init_cores h base sz m tb w" "smp_cores w = nat cores"
    by (rule vm_create_shape)
  show "execution_times (cpus v i) = 0" if "i < nat cores"
    using b(3) vm_init_cores_fields(11) [OF w(1), of i] w(2) that by (simp add: core_init_def vcpu_zero_def)
qed

lemma selftests_code: "run_selftests h img schs = Inr r \<Longrightarrow> r = 0 \<or> r = 1"
  by (cases schs) (auto simp: run_selftests_def bind_res_eq_Inr split: if_splits)

lemma destroy_wf: "wf v \<Longrightarrow> wf (vm_destroy v)" "halted (vm_destroy v) = halted v" "smp_cores (vm_destroy v) = smp_cores v"
proof -
  assume w: "wf v"
  have "bus_ok (vm_destroy v) = bus_ok v" by (rule bus_ok_cong) (simp_all add: vm_destroy_def disk_close_def cache_frame_def)
  then show "wf (vm_destroy v)" using w by (simp add: wf_def vm_destroy_def disk_close_def serial_ok_def disk_inv_def)
qed (simp_all add: vm_destroy_def disk_close_def)

section \<open>Properties\<close>

text \<open>C6: the main program, for every command line, every file and every order of events: a run that ends had between 1 and 64 cores, its
  machine is halted and satisfies the machine invariant, and the number of cycles that is printed is the number of
  instructions that the core threads have executed, none lost in the threads' own counters (modulo 2 to the 64); a run
  in which the window has been closed ends; without a run the exit code is 0 or 1.\<close>

theorem main_runs:
  "case lamp_main h files img schs k threads es argv of
     Inr (Finished cyc w) \<Rightarrow>
       \<exists>opts u. parse_args argv default_options = Inr opts \<and> boot h (files (filename opts)) img (opt_cores opts) = Inr u
         \<and> cyc = of_nat (instructions h k es (\<lambda>_. 0, u)) \<and> wf w \<and> halted w
         \<and> smp_cores w = nat (opt_cores opts) \<and> 1 \<le> smp_cores w \<and> smp_cores w \<le> 64
   | Inr Running \<Rightarrow> \<forall>evs. Window_turn evs \<in> set es \<longrightarrow> SDL_QUIT \<notin> set evs
   | Inr (Exit code) \<Rightarrow> code = 0 \<or> code = 1
   | Inl _ \<Rightarrow> True"
proof (cases "lamp_main h files img schs k threads es argv")
  case (Inr r)
  note main = Inr [unfolded lamp_main_def Let_def]
  show ?thesis
  proof (cases r)
    case (Exit code)
    then show ?thesis using main selftests_code [of h img schs] parse_args_code [of argv]
      by (auto simp: Inr bind_res_eq_Inr split: sum.splits if_splits option.splits)
  next
    case Running
    then show ?thesis using main vm_run_open [of h k threads es]
      by (auto simp: Inr bind_res_eq_Inr split: sum.splits if_splits option.splits)
  next
    case (Finished cyc w)
    then obtain opts u v where o: "parse_args argv default_options = Inr opts"
        "boot h (files (filename opts)) img (opt_cores opts) = Inr u"
        "vm_run h k threads es u = Inr (Some v)" "cyc = total_execution_times v" "w = vm_destroy v"
      using main by (auto simp: bind_res_eq_Inr split: sum.splits if_splits option.splits)
    have n: "1 \<le> opt_cores opts" "opt_cores opts \<le> 64" using parse_args_cores [OF o(1)] by simp_all
    note b = boot_start [OF o(2) n(1)]
    have p: "0 < smp_cores u" using b(2) n(1) by simp
    note e = vm_run_ends [OF o(3) b(1) p b(3) [folded b(2)]]
    then show ?thesis using o b(2) n destroy_wf [of v] by (auto simp: Inr Finished)
  qed
qed simp

definition demo_image :: "u8 list" where
  "demo_image = write_image [0, 0, 0, 0, 0, 0, 0, 5] []
     \<lparr>text_base = 0x3000, text_size = 8, data_base = 0x4000, data_size = 0, bss_base = 0x5000, bss_size = 0\<rparr>"

lemma demo_boot_image: "\<exists>v. boot host_zero (Some demo_image) (Some []) 2 = Inr v"
proof -
  let ?p = "[0, 0, 0, 0, 0, 0, 0, 5] :: u8 list"
  let ?l = "\<lparr>text_base = 0x3000, text_size = 8, data_base = 0x4000, data_size = 0, bss_base = 0x5000, bss_size = 0\<rparr>"
  let ?z = "vm_zero\<lparr>smp_cores := 2, memory_size := MEM_SIZE, disk_size_bytes := of_nat DISK_SIZE\<rparr>"
  have ld: "load_program_single host_zero (Some demo_image) = Some (?p, [], ?l)"
    unfolding demo_image_def by (rule load_write_image) (simp_all add: host_zero_def)
  obtain w where "register_mmio ?z = Inr w" "smp_cores w = 2" using register_mmio_frame [of ?z] by auto
  then obtain u where u: "vm_create host_zero MEM_SIZE ?p [] (Some ?l) 2 = Inr u"
    by (simp add: vm_create_def segment_bases_def stack_pool_def load_segments_def image_end_def host_zero_def Let_def)
  then have "memory_size (disk_init (Some []) u) = MEM_SIZE" using vm_create_wf [OF u] by (simp add: disk_init_def)
  then show ?thesis using init_ivt_memory [of "disk_init (Some []) u"] u by (simp add: boot_def ld)
qed

text \<open>A machine with two cores whose window is closed after some text has been typed.\<close>

theorem main_runs_witness:
  "\<exists>w. lamp_main host_zero (\<lambda>f. if f = ''a.bin'' then Some demo_image else None) (Some [])
         (round_robin 2 30, round_robin 2 60, round_robin 1 15, round_robin 1 14) demo_keys 2
         [Window_turn [SDL_TEXTINPUT [104]], Window_turn [SDL_QUIT]] [''--smp'', ''2'', ''--bin'', ''a.bin''] = Inr (Finished 0 w)
     \<and> wf w \<and> halted w \<and> smp_cores w = 2"
proof -
  let ?files = "\<lambda>f. if f = ''a.bin'' then Some demo_image else None" and ?argv = "[''--smp'', ''2'', ''--bin'', ''a.bin'']"
  let ?schs = "(round_robin 2 30, round_robin 2 60, round_robin 1 15, round_robin 1 14)"
  let ?es = "[Window_turn [SDL_TEXTINPUT [104]], Window_turn [SDL_QUIT]]"
  let ?main = "lamp_main host_zero ?files (Some []) ?schs demo_keys 2 ?es ?argv"
  have "parse_positive_int ''2'' = Some 2"
    by (simp add: parse_positive_int_def strtol10_def isspace_def digit_val_def Let_def)
  then have args: "parse_args ?argv default_options = Inr \<lparr>filename = ''a.bin'', opt_cores = 2, selftest = False\<rparr>"
    by (simp add: default_options_def)
  obtain v where v: "boot host_zero (Some demo_image) (Some []) 2 = Inr v" using demo_boot_image by blast
  have n: "smp_cores v = 2" using boot_start(2) [OF v] by simp
  obtain ns u where u: "run_events host_zero demo_keys ?es (\<lambda>_. 0, v) = Inr (ns, u)"
    by (simp add: event_step_def)
  have h: "halted u" using run_halted [OF u, of "[SDL_QUIT]"] by simp
  have m: "smp_cores u = 2" using msteps_mkept [OF run_events_msteps [OF u]] n by (simp add: mkept_def)
  obtain ns' x where x: "run_events host_zero demo_keys (List.map Core_turn [0..<2]) (ns, u) = Inr (ns', x)"
    using threads_stop [OF h, of "[0..<2]" host_zero demo_keys ns] m by auto
  have "vm_run host_zero demo_keys 2 ?es v = Inr (Some x)"
    unfolding vm_run_def Let_def n u using h x by (simp add: host_zero_def)
  then have main: "?main = Inr (Finished (total_execution_times x) (vm_destroy x))"
    unfolding lamp_main_def args by (simp add: v)
  have "instructions host_zero demo_keys ?es (\<lambda>_. 0, v) = 0" by (simp add: event_step_def)
  then show ?thesis
    using main_runs [where h = host_zero and files = ?files and img = "Some []" and schs = ?schs and k = demo_keys and threads = 2 and es = ?es and argv = ?argv] unfolding main args by (auto simp: v)
qed

end
