(* ===== verification/Spec2Isabelle.thy ===== *)
theory Spec2Isabelle
  imports Divmod Elf KernelStart TextScreen LayoutFile MainProgram
begin

text \<open>
  Verification of lamp-vm: a virtual machine for a 32-bit processor with up to 64 cores (\<open>vm.c\<close> and the files beside
  it), the BIOS that runs in it (\<open>bios\<close>) and the small kernel that the BIOS loads (\<open>kernel\<close>). All paths are below \<open>src\<close>.

  \<^bold>\<open>The program.\<close> \<open>main\<close> reads an image, creates a machine, and starts one thread per core and the loop of a window. A core
  thread delivers a pending interrupt, fetches, and executes one instruction per turn; instructions reach memory, the memory-mapped devices
  (frame buffer, clock, system information) and the ports (serial line, disk, timer). The disk worker, the timer thread
  and the window run beside the cores and raise interrupts. In the machine the BIOS publishes the boot information, reads the kernel from
  disk and enters it; the kernel has a scheduler with wait queues, file descriptors, a terminal on the serial line and the frame buffer,
  system calls through a mailbox in memory, and an init task with a command line.

  \<^bold>\<open>The machine.\<close>
  \<^item> \<open>Prelude\<close>: machine integers, results of code that may abort (\<open>'e + 'a\<close>, \<open>bind_res\<close>, \<open>holds\<close> and the rules \<open>vcg\<close>), bytes, bit
    masks. \<open>Fifo\<close>: ring buffers and the locale \<open>bounded_fifo\<close>.
  \<^item> \<open>VmState\<close>: \<open>vm.h\<close>, the records \<open>vcpu\<close> and \<open>vm\<close>, opcodes and the encoding of instructions. The host (clock, \<open>malloc\<close>,
    NaN payloads) is the record \<open>host\<close>.
  \<^item> \<open>Devices\<close>: \<open>mmio.h\<close> and the device files; locale \<open>mmio_port\<close>, with the three devices as its instances.
  \<^item> \<open>Memory\<close>: \<open>memory.c\<close>; \<open>Stack\<close>: \<open>stack.h\<close>, with the locales \<open>ram_cell\<close>, \<open>lifo\<close> and \<open>guest_stack\<close> (a sublocale gives the
    second from the third), interpreted for the data, call and interrupt stacks. \<open>Interrupt\<close>: \<open>interrupt.c\<close>. \<open>Disk\<close>: \<open>disk.c\<close>.
    \<open>Io\<close>: \<open>io.c\<close>, \<open>timer.c\<close> and the serial line, a \<open>bounded_fifo\<close>.
  \<^item> \<open>Float32\<close>, \<open>Cpu\<close>, \<open>Exec\<close>: the instructions of \<open>vm_instruction_case\<close>, one definition per case, \<open>dispatch\<close>, and
    \<open>vm_thread_turn\<close>, one pass of the loop of \<open>vm_thread\<close>.
  \<^item> \<open>Display\<close>: the window (\<open>display.c\<close>); \<open>TextScreen\<close>: \<open>frame.c\<close>, refined from a list of lines and an offset;
    \<open>Debugger\<close>: \<open>debug.c\<close>, with the breakpoints as a \<open>bounded_set\<close>.
  \<^item> \<open>Registers\<close>: instructions that name only registers 0 to 31 stay inside the register file, so the bound that the model adds to register
    numbers, which the code does not check, has no effect on them. \<open>Machine\<close>: the threads as a step relation \<open>mstep\<close>, the invariant \<open>wf\<close>, the frame of a step, the counting of instructions.
  \<^item> \<open>Loader\<close>, \<open>LayoutFile\<close>: \<open>loadbin.c\<close>, \<open>vm_create\<close>, \<open>boot\<close>. \<open>MainProgram\<close>: the arguments, \<open>vm_run\<close> and \<open>main\<close>.
  \<^item> \<open>IsaSpec\<close>: the machine as a programmer sees it, and \<open>turn_sim\<close>: its turns are turns of the core threads. \<open>TestPrograms\<close>,
    \<open>SelfTests\<close>: the built-in tests on that specification; locale \<open>helped\<close> (a rank that never grows and shrinks with each turn of
    a helper) gives progress under every fair order of turns, with the two tests on two cores as its instances.

  \<^bold>\<open>The BIOS.\<close> \<open>Bios\<close> (boot information) and \<open>Elf\<close> (disk reads, ELF headers, segments): \<open>bios/bios.c\<close>, on the memory and the
  disk of the machine model; segments are copied with the byte accesses of the machine, which panic outside of RAM.

  \<^bold>\<open>The kernel\<close> (\<open>kernel/src\<close>).
  \<^item> \<open>Divmod\<close>: \<open>compiler_rt_divmod.c\<close>. \<open>FdTable\<close>, \<open>Sched\<close>, \<open>Turns\<close>: \<open>sched.c\<close>, its descriptors, its wait queues and its run loop.
  \<^item> \<open>ConsoleFb\<close>: \<open>console_fb.c\<close>, refined from a terminal of characters. \<open>Console\<close>: \<open>console.c\<close>, the receive ring (a
    \<open>bounded_fifo\<close>) refined from a line discipline. \<open>Printk\<close>: \<open>printk.c\<close>. \<open>VmInfo\<close>: \<open>vm_info.c\<close>.
  \<^item> \<open>Syscall\<close>: \<open>syscall.c\<close>, one definition per call; \<open>Sysframe\<close>: what every call keeps; \<open>Calls\<close>: single calls.
    \<open>FdSelftest\<close>, \<open>FdPass\<close>: \<open>fd_selftest.c\<close> and that it passes.
  \<^item> \<open>Trap\<close>: \<open>trap.c\<close>, \<open>irq.c\<close> and the port functions, on a machine of the machine model. \<open>InitTask\<close>: \<open>init_task.c\<close>.
    \<open>KernelStart\<close>: \<open>entry.c\<close>, \<open>smp.c\<close>, \<open>spinlock.c\<close>. The states of these parts extend one another as records.

  \<^bold>\<open>What is shown.\<close> Invariants: of the machine under every order of turns, of the scheduler, of descriptors and reference
  counts, of the kernel after its start. Safety: no transfer or store writes outside RAM, a system call whose buffers are clear of the kernel's data writes
  neither outside RAM nor in that data, no instruction that names real registers changes another core. Refinement: the
  frame buffer console, the line discipline, the text screen, the debugger's commands, the self tests' programs. Round trips: interrupts, calls, the
  boot information, lines of the terminal, breakpoints in the environment. Liveness: a runnable task gets its turn in the run loop (but not in the pump of a blocked task), sleepers and waiting parents are
  woken, a typed line reaches the reader and the init task, from the start of the kernel (\<open>command_from_boot\<close> below), the self tests
  pass. The main program reports exactly the instructions that were executed. Errors: where the code
  does not do what it means to, the theorem says what it does (a waiting call that never returns, a sleep across the wrap of the
  tick counter, an end of file that leaves the console readable).

  \<^bold>\<open>Loops.\<close> A loop that might not end is a \<open>partial_function\<close> into \<open>option\<close>, and where the property needs its result it is shown to
  return; no fuel is used. The loops of the system calls that sleep take the turns of other tasks and of interrupts as
  parameters. The bounds of the test runs (30 and 60 rounds of two cores, 15 and 14 turns of one) come from the ranks of the proofs.

  \<^bold>\<open>Conventions.\<close> A panic of the machine ends the process: it is an error value. A turn of a thread is one atomic step; system calls are atomic apart
  from their waits. The host's clock, memory allocation, NaN payloads, key codes, environment, files and order of threads are
  parameters, and so are the callbacks of kernel tasks (\<open>run\<close>) and what other interrupt handlers do (\<open>irq\<close>). User
  memory of the kernel model is a map of its own (\<open>umem\<close>) except where the machine's memory is named; the variables of the kernel are the fields of
  the records. In RAM they lie in the same memory, and the range check of the system calls accepts their addresses: \<open>syscalls_keep_kernel_safe\<close>
  therefore asks that the buffers of a call are clear of a set of addresses \<open>K\<close> that holds them, and shows that \<open>K\<close> is not written; the other properties of the kernel
  are about callers that pass such pointers. While the serial handler drains the line no further bytes arrive. The ELF headers are read as plain RAM.
  The disk image can be opened or created, and the small tables of \<open>vm_create\<close> can be allocated: the panics for these failures of the host are left out. The alignment check of memory accesses, off by default, is modelled for the read of the debugger only.

  \<^bold>\<open>Not modelled.\<close> Creation of the SDL window and of threads, the output of \<open>vm_dump\<close> and \<open>panic\<close>, the raw mode of the host's
  terminal, and the assembly stubs of the kernel and the BIOS beyond their effect on the saved registers: they are output, host calls or not
  C. The terminal reader of \<open>terminalin.c\<close> is modelled but has no caller.
\<close>

section \<open>Properties across the components\<close>

text \<open>The first call of the init task after the start of the kernel greets and finds no input.\<close>

lemma first_call:
  assumes "devices_up s"
  shows "\<exists>x. init_task_entry run irq d s = Some (s\<lparr>init_started := (if init_started s = 0 then 1 else init_started s), screen := x\<rparr>)"
proof -
  obtain x where x: "init_start s = s\<lparr>init_started := (if init_started s = 0 then 1 else init_started s), screen := x\<rparr>"
    using init_start_fields by blast
  have "console_read True 1 True (init_start s) = (0, [], init_start s)"
    using assms unfolding x by (simp add: console_read_def lflag_def devices_up_def)
  then show ?thesis by (intro exI [of _ x]) (simp add: init_task_entry_def x)
qed

lemma inits_more_fields:
  assumes "traps.more u = traps.more (s :: 'a inits_scheme)"
  shows "init_len u = init_len s" "init_started u = init_started s"
  using assms by (cases u; cases s; simp)+

text \<open>C4: From the start of the kernel to a command. The kernel is booted on a machine whose serial line is idle, the init task is
  called once, and then a command of at most 127 printable characters and the return key are typed in the window
  of the host. The keys raise the serial interrupt on core 0 of the machine, since the kernel enabled it; the handler of
  the kernel takes all of them; and \<open>n + 1\<close> calls of the init task, for \<open>n\<close> characters, do what the command does with exactly the
  typed line, on a state with an empty input queue.\<close>

theorem command_from_boot:
  assumes "\<forall>q. wq s q = 0" "serial_ok (machine s)" "serial_content (machine s) = []" "0 < smp_cores (machine s)"
    "list_all printable l" "length l \<le> 127" "typed k es = l @ [10]"
  shows "\<exists>u v w. init_task_entry run irq d (kernel_boot stub idle ent ar bi s) = Some u
           \<and> pending (display_poll_events k es (machine u)) 0 (unat INT_SERIAL)
           \<and> irq_common_entry run irq IRQ_SERIAL (u\<lparr>machine := display_poll_events k es (machine u)\<rparr>) = Done v
           \<and> init_turns run irq d (length l + 1) v = map_option (\<lambda>s. init_prompt (s\<lparr>init_len := 0\<rparr>)) (init_handle_cmd run irq d l w)
           \<and> console_ok w \<and> rx_content w = [] \<and> serial_content (machine w) = []"
proof -
  obtain b z where b: "kernel_boot stub idle ent ar bi s = b\<lparr>g_kernel_booted := 1, screen := z\<rparr>" "devices_up b"
    "init_len b = 0" "machine b = io_out32 IO_SERIAL_STATUS SERIAL_CTRL_RX_INT_ENABLE (machine s)"
    using boot_state [OF assms(1)] by metis
  let ?b = "b\<lparr>g_kernel_booted := 1, screen := z\<rparr>"
  have "devices_up ?b" using b(2) by (simp add: devices_up_def serial_routed_def)
  then obtain x where u: "init_task_entry run irq d (kernel_boot stub idle ent ar bi s)
      = Some (?b\<lparr>init_started := (if init_started ?b = 0 then 1 else init_started ?b), screen := x\<rparr>)"
    using first_call [of ?b] b(1) by metis
  define u where "u = ?b\<lparr>init_started := (if init_started ?b = 0 then 1 else init_started ?b), screen := x\<rparr>"
  have m: "machine u = accept_io 2 1 (machine s)" by (simp add: u_def b(4) io_out32_def)
  have i: "init_len u = 0" "init_started u \<noteq> 0" by (simp_all add: u_def b(3))
  have up: "devices_up u" using b(2) by (simp add: u_def devices_up_def serial_routed_def)
  have mu: "serial_ok (machine u)" "serial_content (machine u) = []" "0 < smp_cores (machine u)" "bit (io (machine u) SCREEN_ATTRIBUTE) 8"
    using assms(2-4) accept_io_serial_ok [OF assms(2), of 2 1] unfolding m
    by (simp_all add: accept_io_def serial_content_def set_io_def bit_simps)
  have p: "pending (display_poll_events k es (machine u)) 0 3"
    using keys_ring [OF mu(1,2,4,3), of k es] assms(7) by simp
  have pl: "list_all plain_byte l" using assms(5) by (auto simp: list_all_iff printable_def plain_byte_def)
  obtain v where v: "irq_common_entry run irq IRQ_SERIAL (u\<lparr>machine := display_poll_events k es (machine u)\<rparr>) = Done v"
    "serial_content (machine v) = []" "console_ok v" "rx_content v = l @ [10]" "g_tty_lflag v = g_tty_lflag u" "traps.more v = traps.more u"
    using keys_arrive [of u l k es run irq] devices_up_console [OF up] mu(1,2) up pl assms(6,7) by (auto simp: devices_up_def)
  have "init_len v = 0" "init_started v \<noteq> 0" using i inits_more_fields [OF v(6)] by simp_all
  moreover have "bit (g_tty_lflag v) 1" using up v(5) by (simp add: devices_up_def)
  ultimately obtain w where "init_turns run irq d (length l + 1) v = map_option (\<lambda>s. init_prompt (s\<lparr>init_len := 0\<rparr>)) (init_handle_cmd run irq d ([] @ l) w)"
    "console_ok w" "rx_content w = []" "took v w"
    using turns_collect [of v l "[]" "[]" run irq d] v(3,4) assms(5,6) by auto
  moreover have "machine w = machine v" using \<open>took v w\<close> by (auto simp: took_def)
  ultimately show ?thesis using u v(1,2) p unfolding u_def [symmetric] by auto
qed

theorem command_from_boot_witness:
  "\<exists>u v w. init_task_entry (\<lambda>e i ar s. s) (\<lambda>n k s. s) demo_data (kernel_boot 512 10 20 30 demo_boot_info demo_boot) = Some u
     \<and> irq_common_entry (\<lambda>e i ar s. s) (\<lambda>n k s. s) 3 (u\<lparr>machine := display_poll_events demo_keys [SDL_TEXTINPUT [116, 116], SDL_TEXTINPUT [121], SDL_KEYDOWN False 13] (machine u)\<rparr>) = Done v
     \<and> init_turns (\<lambda>e i ar s. s) (\<lambda>n k s. s) demo_data 4 v = Some (init_prompt ((init_show_tty_mode w)\<lparr>init_len := 0\<rparr>))
     \<and> rx_content w = []"
proof -
  have s: "\<forall>q. wq demo_boot q = 0" "machine demo_boot = demo_vm"
    using demo_traps(4) by (simp_all add: demo_boot_def demo_init_def inits.defs traps.defs)
  have m: "serial_ok (machine demo_boot)" "serial_content (machine demo_boot) = []" "0 < smp_cores (machine demo_boot)"
    using demo_serial_ok by (simp_all add: s(2) serial_content_def ring_content_def demo_vm_def vm_zero_def)
  have l: "list_all printable [116, 116, 121]" "length [116, 116, 121 :: u8] \<le> 127" by (simp_all add: printable_def)
  have h: "init_handle_cmd (\<lambda>e i ar s. s) (\<lambda>n k s. s) demo_data [116, 116, 121] w = Some (init_show_tty_mode w)" for w :: boots
    by (simp add: init_handle_cmd_def cstr_def)
  have e: "typed demo_keys [SDL_TEXTINPUT [116, 116], SDL_TEXTINPUT [121], SDL_KEYDOWN False 13] = [116, 116, 121] @ [10]"
    by (simp add: typed_def event_bytes_def demo_keys_def)
  have k: "length [116, 116, 121 :: u8] + 1 = 4" by simp
  obtain u v w where "init_task_entry (\<lambda>e i ar s. s) (\<lambda>n k s. s) demo_data (kernel_boot 512 10 20 30 demo_boot_info demo_boot) = Some u"
    "irq_common_entry (\<lambda>e i ar s. s) (\<lambda>n k s. s) 3 (u\<lparr>machine := display_poll_events demo_keys [SDL_TEXTINPUT [116, 116], SDL_TEXTINPUT [121], SDL_KEYDOWN False 13] (machine u)\<rparr>) = Done v"
    "init_turns (\<lambda>e i ar s. s) (\<lambda>n k s. s) demo_data 4 v
       = map_option (\<lambda>s. init_prompt (s\<lparr>init_len := 0\<rparr>)) (init_handle_cmd (\<lambda>e i ar s. s) (\<lambda>n k s. s) demo_data [116, 116, 121] w)"
    "rx_content w = []"
    using command_from_boot [OF s(1) m l e, of "\<lambda>e i ar s. s" "\<lambda>n k s. s" demo_data 512 10 20 30 demo_boot_info, unfolded k] by blast
  then show ?thesis unfolding h option.map by blast
qed

end
